(* ===== verification/Go_Base.thy ===== *)
theory Go_Base
  imports Main "HOL-Library.Sublist" "HOL-Library.Multiset"
begin

text \<open>
  The prelude of the development: the fragment of Go and of its standard library that the
  modelled files use, and the generic lemmas the components share.

  \<^item> \<^bold>\<open>Time.\<close> A \<^verbatim>\<open>time.Time\<close> is an \<^typ>\<open>int\<close>, the nanoseconds since Go's zero instant,
    so \<^verbatim>\<open>t.IsZero()\<close> is \<open>t = 0\<close>, \<^verbatim>\<open>t.After(u)\<close> is \<open>u < t\<close>, \<^verbatim>\<open>t.Before(u)\<close> is \<open>t < u\<close>
    and \<^verbatim>\<open>t.Add(d)\<close> is \<open>t + d\<close>.  A \<^verbatim>\<open>time.Duration\<close> is an \<^typ>\<open>int\<close> of nanoseconds that fits in
    64 bits; \<open>time_sub\<close> saturates as \<^verbatim>\<open>Time.Sub\<close> does, and products of durations wrap through
    \<open>wrap64\<close>.
  \<^item> \<^bold>\<open>Strings.\<close> A Go string is its list of bytes, a \<^typ>\<open>string\<close>.  The case and white-space
    operations of package strings are modelled on ASCII; other bytes are neither letters nor
    white space.
  \<^item> \<^bold>\<open>Maps.\<close> A Go map is an association list with distinct keys.  Its order is the order a
    \<^verbatim>\<open>range\<close> loop visits the entries, which Go leaves open: a theorem about all association lists is
    a theorem about every iteration order.  A \<^verbatim>\<open>nil\<close> pointer stored in a map is \<^term>\<open>None\<close>.
\<close>

named_theorems go_defs \<open>definitions of Go library operations\<close>
named_theorems go_map \<open>lookup, update and deletion laws of maps\<close>

section \<open>Integers and time\<close>

type_synonym gotime = int
type_synonym duration = int

definition maxInt64 :: int where "maxInt64 = 2 ^ 63 - 1"
definition minInt64 :: int where "minInt64 = - (2 ^ 63)"

text \<open>Two's complement wrap-around of Go's 64-bit \<^verbatim>\<open>int\<close> and \<^verbatim>\<open>time.Duration\<close>.\<close>

definition wrap64 :: "int \<Rightarrow> int" where
  "wrap64 x = signed_take_bit 63 x"

lemma wrap64_id: "minInt64 \<le> x \<Longrightarrow> x \<le> maxInt64 \<Longrightarrow> wrap64 x = x"
  by (simp add: wrap64_def minInt64_def maxInt64_def signed_take_bit_int_eq_self)

lemma wrap64_range: "minInt64 \<le> wrap64 x \<and> wrap64 x \<le> maxInt64"
  using signed_take_bit_int_greater_eq_minus_exp [of 63 x] signed_take_bit_int_less_exp [of 63 x]
  by (simp add: wrap64_def minInt64_def maxInt64_def)

definition nanosecond :: duration where "nanosecond = 1"
definition millisecond :: duration where "millisecond = 1000000"
definition second :: duration where "second = 1000000000"
definition minute :: duration where "minute = 60 * second"
definition hour :: duration where "hour = 60 * minute"

lemmas duration_defs [go_defs] =
  nanosecond_def millisecond_def second_def minute_def hour_def

definition time_sub :: "gotime \<Rightarrow> gotime \<Rightarrow> duration" where
  "time_sub t u = max minInt64 (min maxInt64 (t - u))"

lemma time_sub_exact: "minInt64 \<le> t - u \<Longrightarrow> t - u \<le> maxInt64 \<Longrightarrow> time_sub t u = t - u"
  by (simp add: time_sub_def)

lemma time_sub_nonneg_iff: "0 \<le> time_sub t u \<longleftrightarrow> u \<le> t"
  by (auto simp: time_sub_def minInt64_def maxInt64_def max_def min_def)

lemma time_sub_pos_iff: "0 < time_sub t u \<longleftrightarrow> u < t"
  by (auto simp: time_sub_def minInt64_def maxInt64_def max_def min_def)

lemma time_sub_mono: "t \<le> t' \<Longrightarrow> time_sub t u \<le> time_sub t' u"
  by (auto simp: time_sub_def)

section \<open>Strings\<close>

definition is_space :: "char \<Rightarrow> bool" where
  "is_space c \<longleftrightarrow> c \<in> {CHR 0x09, CHR 0x0A, CHR 0x0B, CHR 0x0C, CHR 0x0D, CHR '' ''}"

definition trim_space :: "string \<Rightarrow> string" where
  "trim_space s = rev (dropWhile is_space (rev (dropWhile is_space s)))"

definition trim_char :: "char \<Rightarrow> string \<Rightarrow> string" where
  "trim_char c s = rev (dropWhile (\<lambda>x. x = c) (rev (dropWhile (\<lambda>x. x = c) s)))"

definition lower_char :: "char \<Rightarrow> char" where
  "lower_char c = (if 65 \<le> (of_char c :: nat) \<and> (of_char c :: nat) \<le> 90
                   then char_of ((of_char c :: nat) + 32) else c)"

definition to_lower :: "string \<Rightarrow> string" where
  "to_lower s = map lower_char s"

definition equal_fold :: "string \<Rightarrow> string \<Rightarrow> bool" where
  "equal_fold s t \<longleftrightarrow> to_lower s = to_lower t"

text \<open>\<^verbatim>\<open>strings.Index\<close>: the offset of the first occurrence.\<close>

fun str_index :: "string \<Rightarrow> string \<Rightarrow> nat option" where
  "str_index [] sub = (if sub = [] then Some 0 else None)"
| "str_index (c # s) sub =
     (if prefix sub (c # s) then Some 0 else map_option Suc (str_index s sub))"

definition contains :: "string \<Rightarrow> string \<Rightarrow> bool" where
  "contains s sub \<longleftrightarrow> str_index s sub \<noteq> None"

text \<open>\<^verbatim>\<open>strings.LastIndex\<close> for a one-byte needle.\<close>

fun last_index :: "string \<Rightarrow> char \<Rightarrow> nat option" where
  "last_index [] c = None"
| "last_index (x # xs) c =
     (case last_index xs c of Some i \<Rightarrow> Some (Suc i) | None \<Rightarrow> if x = c then Some 0 else None)"

text \<open>\<^verbatim>\<open>strings.Split\<close> for a one-byte separator: never the empty list.\<close>

fun split_on :: "char \<Rightarrow> string \<Rightarrow> string list" where
  "split_on c [] = [[]]"
| "split_on c (x # xs) =
     (if x = c then [] # split_on c xs
      else (case split_on c xs of [] \<Rightarrow> [[x]] | p # ps \<Rightarrow> (x # p) # ps))"

fun join :: "string \<Rightarrow> string list \<Rightarrow> string" where
  "join sep [] = []"
| "join sep [s] = s"
| "join sep (s # t # ss) = s @ sep @ join sep (t # ss)"

subsection \<open>Numbers and booleans from strings\<close>

definition is_digit :: "char \<Rightarrow> bool" where
  "is_digit c \<longleftrightarrow> 48 \<le> (of_char c :: nat) \<and> (of_char c :: nat) \<le> 57"

fun digits_value :: "int \<Rightarrow> string \<Rightarrow> int" where
  "digits_value acc [] = acc"
| "digits_value acc (c # cs) = digits_value (10 * acc + (of_char c - 48)) cs"

text \<open>
  \<^verbatim>\<open>strconv.Atoi\<close> (and \<^verbatim>\<open>strconv.ParseInt(s, 10, 64)\<close>): an optional sign, at least one digit, only
  digits, and a value in the 64-bit range; anything else is an error.
\<close>

definition atoi :: "string \<Rightarrow> int option" where
  "atoi s =
     (let neg = (s \<noteq> [] \<and> hd s = CHR ''-'');
          ds = (if s \<noteq> [] \<and> (hd s = CHR ''-'' \<or> hd s = CHR ''+'') then tl s else s);
          v = (if neg then - digits_value 0 ds else digits_value 0 ds)
      in if ds \<noteq> [] \<and> list_all is_digit ds \<and> minInt64 \<le> v \<and> v \<le> maxInt64
         then Some v else None)"

text \<open>Decimal rendering, \<^verbatim>\<open>strconv.Itoa\<close>.\<close>

fun nat_digits :: "nat \<Rightarrow> string" where
  "nat_digits n =
     (if n < 10 then [char_of (48 + n)] else nat_digits (n div 10) @ [char_of (48 + n mod 10)])"

declare nat_digits.simps [simp del]

definition itoa :: "int \<Rightarrow> string" where
  "itoa i = (if i < 0 then CHR ''-'' # nat_digits (nat (- i)) else nat_digits (nat i))"

definition parse_bool :: "string \<Rightarrow> bool option" where
  "parse_bool s =
     (if s \<in> set [''1'', ''t'', ''T'', ''TRUE'', ''true'', ''True''] then Some True
      else if s \<in> set [''0'', ''f'', ''F'', ''FALSE'', ''false'', ''False''] then Some False
      else None)"

subsection \<open>Lemmas on strings\<close>

lemma dropWhile_idem [simp]: "dropWhile P (dropWhile P xs) = dropWhile P xs"
  by (induction xs) auto

lemma hd_rev_dropWhile:
  "dropWhile P xs \<noteq> [] \<Longrightarrow> \<not> P (hd (dropWhile P xs))"
  by (induction xs) auto

lemma dropWhile_fixpoint: "xs = [] \<or> \<not> P (hd xs) \<Longrightarrow> dropWhile P xs = xs"
  by (cases xs) auto

lemma trim_ends_idem:
  "(let t = rev (dropWhile P (rev (dropWhile P s)))
    in rev (dropWhile P (rev (dropWhile P t))) = t)"
proof -
  let ?u = "dropWhile P s"
  let ?t = "rev (dropWhile P (rev ?u))"
  have "?t = [] \<or> \<not> P (hd ?t)"
  proof (cases "?t = []")
    case False
    obtain zs where u: "?u = ?t @ zs"
      by (metis append_Nil rev_append rev_rev_ident takeWhile_dropWhile_id)
    with False have "hd ?u = hd ?t" by (metis hd_append2)
    moreover from u False have "?u \<noteq> []" by (metis append_is_Nil_conv)
    ultimately show ?thesis using hd_rev_dropWhile [of P s] by metis
  qed simp
  then have "dropWhile P ?t = ?t" by (rule dropWhile_fixpoint)
  then show ?thesis by (simp add: Let_def)
qed

lemma trim_space_idem [simp]: "trim_space (trim_space s) = trim_space s"
  using trim_ends_idem [of is_space s] by (simp add: trim_space_def Let_def)

lemma trim_space_Nil [simp]: "trim_space [] = []"
  by (simp add: trim_space_def)

lemma lower_char_idem [simp]: "lower_char (lower_char c) = lower_char c"
proof (cases "65 \<le> (of_char c :: nat) \<and> (of_char c :: nat) \<le> 90")
  case True
  then have "(of_char (char_of ((of_char c :: nat) + 32)) :: nat) = of_char c + 32"
    by (simp add: of_char_of)
  with True show ?thesis by (simp add: lower_char_def)
next
  case False
  then show ?thesis by (auto simp: lower_char_def)
qed

lemma to_lower_idem [simp]: "to_lower (to_lower s) = to_lower s"
  by (simp add: to_lower_def)

lemma to_lower_Nil [simp]: "to_lower [] = []"
  by (simp add: to_lower_def)

lemma to_lower_eq_Nil [simp]: "to_lower s = [] \<longleftrightarrow> s = []"
  by (simp add: to_lower_def)

lemma Nil_eq_to_lower [simp]: "[] = to_lower s \<longleftrightarrow> s = []"
  by (cases s) (simp_all add: to_lower_def)

lemma equal_fold_refl [simp]: "equal_fold s s"
  by (simp add: equal_fold_def)

lemma equal_fold_sym: "equal_fold s t \<longleftrightarrow> equal_fold t s"
  by (auto simp: equal_fold_def)

lemma equal_fold_trans: "equal_fold s t \<Longrightarrow> equal_fold t u \<Longrightarrow> equal_fold s u"
  by (simp add: equal_fold_def)

text \<open>\<^const>\<open>str_index\<close> returns the least offset at which the needle occurs.\<close>

lemma str_index_SomeD:
  "str_index s sub = Some i \<Longrightarrow> \<exists>w. s = take i s @ sub @ w"
proof (induction s sub arbitrary: i rule: str_index.induct)
  case (1 sub)
  then show ?case by (auto split: if_splits)
next
  case (2 c s sub)
  show ?case
  proof (cases "prefix sub (c # s)")
    case True
    with "2.prems" show ?thesis by (auto simp: prefix_def)
  next
    case False
    with "2.prems" obtain j where "str_index s sub = Some j" "i = Suc j" by auto
    with "2.IH" [OF False] show ?thesis by auto
  qed
qed

lemma str_index_le:
  "s = u @ sub @ w \<Longrightarrow> \<exists>i \<le> length u. str_index s sub = Some i"
proof (induction u arbitrary: s)
  case Nil
  then have "prefix sub s" by simp
  then show ?case by (cases s) auto
next
  case (Cons a u)
  then obtain s' where s: "s = a # s'" "s' = u @ sub @ w" by simp
  from Cons.IH [OF s(2)] obtain i where "i \<le> length u" "str_index s' sub = Some i" by auto
  with s(1) show ?case by (cases "prefix sub s") auto
qed

lemma contains_iff_sublist: "contains s sub \<longleftrightarrow> (\<exists>u w. s = u @ sub @ w)"
  using str_index_SomeD [of s sub] str_index_le [of s _ sub] unfolding contains_def
  by (metis not_None_eq)

lemma last_index_None: "last_index s c = None \<longleftrightarrow> c \<notin> set s"
  by (induction s) (auto split: option.splits)

lemma last_index_append [simp]:
  "c \<notin> set t \<Longrightarrow> last_index (s @ c # t) c = Some (length s)"
  by (induction s) (auto simp: last_index_None split: option.splits)

lemma last_index_SomeD:
  "last_index s c = Some i \<Longrightarrow>
     i < length s \<and> s = take i s @ c # drop (Suc i) s \<and> c \<notin> set (drop (Suc i) s)"
proof (induction s arbitrary: i)
  case (Cons x xs)
  then show ?case
    by (cases "last_index xs c") (auto simp: last_index_None split: if_splits)
qed simp

lemma split_on_nonempty [simp]: "split_on c s \<noteq> []"
  by (induction s) (auto split: list.splits)

lemma split_on_no_sep: "c \<notin> set s \<Longrightarrow> split_on c s = [s]"
  by (induction s) auto

lemma split_on_append: "c \<notin> set p \<Longrightarrow> split_on c (p @ c # s) = p # split_on c s"
  by (induction p) auto

lemma split_on_parts_no_sep: "p \<in> set (split_on c s) \<Longrightarrow> c \<notin> set p"
proof (induction s arbitrary: p)
  case (Cons x xs)
  then show ?case by (cases "split_on c xs") (auto split: if_splits)
qed simp

lemma join_split_on [simp]: "join [c] (split_on c s) = s"
proof (induction s)
  case (Cons x xs)
  show ?case
  proof (cases "split_on c xs")
    case (Cons p ps)
    with \<open>join [c] (split_on c xs) = xs\<close> show ?thesis
      by (cases ps) auto
  qed simp
qed simp

text \<open>Rendering an integer and reading it back.\<close>

lemma digit_char:
  assumes "n < 10"
  shows "is_digit (char_of (48 + n))" and "(of_char (char_of (48 + n) :: char) :: int) = 48 + int n"
proof -
  have "(of_char (char_of (48 + n) :: char) :: nat) = 48 + n" using assms by (simp add: of_char_of)
  moreover have "(of_char c :: int) = int (of_char c :: nat)" for c :: char
    by (cases c) (simp add: of_char_Char)
  ultimately show "is_digit (char_of (48 + n))" "(of_char (char_of (48 + n) :: char) :: int) = 48 + int n"
    using assms by (simp_all add: is_digit_def)
qed

lemma digits_value_snoc: "digits_value acc (cs @ [c]) = 10 * digits_value acc cs + (of_char c - 48)"
  by (induction acc cs rule: digits_value.induct) auto

lemma nat_digits_props:
  "nat_digits n \<noteq> [] \<and> list_all is_digit (nat_digits n) \<and> digits_value 0 (nat_digits n) = int n"
proof (induction n rule: nat_digits.induct)
  case (1 n)
  show ?case
  proof (cases "n < 10")
    case True
    then show ?thesis using digit_char [of n] by (simp add: nat_digits.simps [of n])
  next
    case False
    have "n mod 10 < 10" by simp
    with False 1 digit_char [of "n mod 10"] show ?thesis
      by (simp add: nat_digits.simps [of n] digits_value_snoc zdiv_int zmod_int)
  qed
qed

lemma digit_not_sign: "is_digit c \<Longrightarrow> c \<noteq> CHR ''-'' \<and> c \<noteq> CHR ''+'' \<and> \<not> is_space c"
  by (auto simp: is_digit_def is_space_def)

lemma atoi_itoa [simp]: "minInt64 \<le> i \<Longrightarrow> i \<le> maxInt64 \<Longrightarrow> atoi (itoa i) = Some i"
proof -
  assume r: "minInt64 \<le> i" "i \<le> maxInt64"
  have p: "nat_digits n \<noteq> []" "list_all is_digit (nat_digits n)" "digits_value 0 (nat_digits n) = int n" for n
    using nat_digits_props by blast+
  have "hd (nat_digits n) \<noteq> CHR ''-'' \<and> hd (nat_digits n) \<noteq> CHR ''+''" for n
    using p(1,2) [of n] digit_not_sign [of "hd (nat_digits n)"] by (cases "nat_digits n") auto
  with r p show ?thesis by (simp add: atoi_def itoa_def Let_def)
qed

lemma trim_space_id: "s \<noteq> [] \<Longrightarrow> \<not> is_space (hd s) \<Longrightarrow> \<not> is_space (last s) \<Longrightarrow> trim_space s = s"
  by (simp add: trim_space_def dropWhile_fixpoint hd_rev)

lemma trim_space_itoa [simp]: "trim_space (itoa i) = itoa i"
proof (rule trim_space_id)
  have d: "list_all is_digit (nat_digits n) \<and> nat_digits n \<noteq> []" for n using nat_digits_props by blast
  have l: "\<not> is_space (last (nat_digits n))" "\<not> is_space (hd (nat_digits n))" for n
    using d [of n] digit_not_sign by (auto simp: list_all_iff)
  show "itoa i \<noteq> []" using d by (simp add: itoa_def)
  show "\<not> is_space (hd (itoa i))" using l by (simp add: itoa_def is_space_def)
  show "\<not> is_space (last (itoa i))" using l d by (simp add: itoa_def)
qed

section \<open>Maps as association lists\<close>

lemma find_SomeD: "List.find P xs = Some x \<Longrightarrow> x \<in> set xs \<and> P x"
  by (induction xs) (auto split: if_split_asm)

type_synonym ('k, 'v) gomap = "('k \<times> 'v) list"

text \<open>\<^verbatim>\<open>m[k]\<close> with its presence flag is \<^const>\<open>map_of\<close>.\<close>

fun map_put :: "'k \<Rightarrow> 'v \<Rightarrow> ('k, 'v) gomap \<Rightarrow> ('k, 'v) gomap" where
  "map_put k v [] = [(k, v)]"
| "map_put k v ((k', v') # m) = (if k = k' then (k, v) # m else (k', v') # map_put k v m)"

definition map_del :: "'k \<Rightarrow> ('k, 'v) gomap \<Rightarrow> ('k, 'v) gomap" where
  "map_del k m = filter (\<lambda>(k', _). k' \<noteq> k) m"

definition map_get :: "'v \<Rightarrow> ('k, 'v) gomap \<Rightarrow> 'k \<Rightarrow> 'v" where
  "map_get zero m k = (case map_of m k of Some v \<Rightarrow> v | None \<Rightarrow> zero)"

abbreviation map_keys :: "('k, 'v) gomap \<Rightarrow> 'k list" where
  "map_keys m \<equiv> map fst m"

abbreviation map_wf :: "('k, 'v) gomap \<Rightarrow> bool" where
  "map_wf m \<equiv> distinct (map_keys m)"

lemma map_of_map_put [go_map, simp]: "map_of (map_put k v m) = (map_of m)(k \<mapsto> v)"
  by (induction k v m rule: map_put.induct) auto

lemma map_of_map_del [go_map, simp]: "map_of (map_del k m) = (map_of m)(k := None)"
  by (induction m) (auto simp: map_del_def fun_eq_iff)

lemma map_get_put [go_map, simp]:
  "map_get z (map_put k v m) k' = (if k' = k then v else map_get z m k')"
  by (simp add: map_get_def)

lemma map_get_del [go_map, simp]:
  "map_get z (map_del k m) k' = (if k' = k then z else map_get z m k')"
  by (simp add: map_get_def)

lemma map_get_Nil [go_map, simp]: "map_get z [] k = z"
  by (simp add: map_get_def)

lemma set_keys_map_put [go_map, simp]: "fst ` set (map_put k v m) = insert k (fst ` set m)"
  by (induction k v m rule: map_put.induct) auto

lemma set_keys_map_del [go_map, simp]: "fst ` set (map_del k m) = fst ` set m - {k}"
  by (auto simp: map_del_def image_iff)

lemma map_wf_put [go_map, intro]: "map_wf m \<Longrightarrow> map_wf (map_put k v m)"
proof (induction k v m rule: map_put.induct)
  case (2 k v k' v' m)
  then show ?case
    using set_keys_map_put [of k v m] by (auto simp del: set_keys_map_put)
qed simp

lemma map_wf_del [go_map, intro]: "map_wf m \<Longrightarrow> map_wf (map_del k m)"
  by (induction m) (auto simp: map_del_def)

lemma length_map_put: "length (map_put k v m) = (if k \<in> fst ` set m then length m else Suc (length m))"
  by (induction k v m rule: map_put.induct) auto

lemma length_map_del_le [simp]: "length (map_del k m) \<le> length m"
  by (simp add: map_del_def)

lemma length_map_del:
  "map_wf m \<Longrightarrow> length (map_del k m) = (if k \<in> fst ` set m then length m - 1 else length m)"
proof (induction m)
  case (Cons e m)
  have "k \<in> fst ` set m \<Longrightarrow> Suc (length m - 1) = length m"
    by (cases m) auto
  with Cons show ?case
    by (cases e) (auto simp: map_del_def image_iff filter_id_conv)
qed (simp add: map_del_def)

lemma length_map_del_less: "map_wf m \<Longrightarrow> k \<in> fst ` set m \<Longrightarrow> length (map_del k m) < length m"
  by (cases m) (simp_all add: length_map_del)

lemma in_set_map_put:
  "e \<in> set (map_put k v m) \<Longrightarrow> e = (k, v) \<or> e \<in> set m"
  by (induction k v m rule: map_put.induct) (auto split: if_splits)

subsection \<open>Bounded tables\<close>

text \<open>
  Two tables of the program make room for a new key the same way: every entry that has gone cold is dropped, and when
  that was not enough the entry used longest ago goes too.
\<close>

definition lru_step ::
  "('v \<Rightarrow> bool) \<Rightarrow> ('v \<Rightarrow> gotime) \<Rightarrow> string \<times> 'v \<Rightarrow> (string, 'v) gomap \<times> string \<times> gotime \<Rightarrow>
   (string, 'v) gomap \<times> string \<times> gotime" where
  "lru_step cold stamp e acc =
     (case (e, acc) of ((k, c), (m, oldestID, oldestAt)) \<Rightarrow>
        if cold c then (map_del k m, oldestID, oldestAt)
        else if oldestID = '''' \<or> stamp c < oldestAt then (m, k, stamp c)
        else (m, oldestID, oldestAt))"

definition make_room ::
  "('v \<Rightarrow> bool) \<Rightarrow> ('v \<Rightarrow> gotime) \<Rightarrow> int \<Rightarrow> string \<Rightarrow> (string, 'v) gomap \<Rightarrow> (string, 'v) gomap" where
  "make_room cold stamp limit incoming table =
     (if map_of table incoming \<noteq> None \<or> int (length table) < limit then table
      else
        let (m, oldestID, _) = fold (lru_step cold stamp) table (table, '''', 0)
        in if limit \<le> int (length m) \<and> oldestID \<noteq> '''' then map_del oldestID m else m)"

lemma lru_fold:
  assumes "map_wf m" "fst ` set es \<subseteq> fst ` set m" "distinct (map fst es)" "'''' \<notin> fst ` set es"
    and "i = '''' \<or> i \<in> fst ` set m \<and> i \<notin> fst ` set es"
    and "fold (lru_step cold stamp) es (m, i, t) = (m', i', t')"
  shows "map_wf m' \<and> length m' \<le> length m \<and> (i' = '''' \<or> i' \<in> fst ` set m') \<and>
         fst ` set m' \<subseteq> fst ` set m \<and>
         (i \<noteq> '''' \<longrightarrow> i' \<noteq> '''') \<and> (length m' < length m \<or> es = [] \<or> i' \<noteq> '''')"
  using assms
proof (induction es arbitrary: m i t)
  case (Cons e es)
  obtain k c where e: "e = (k, c)" by (cases e)
  have k: "k \<in> fst ` set m" "k \<notin> fst ` set es" "k \<noteq> ''''" "k \<noteq> i"
    using Cons.prems(2-5) by (auto simp: e)
  consider (drop) "lru_step cold stamp e (m, i, t) = (map_del k m, i, t)"
    | (mark) "lru_step cold stamp e (m, i, t) = (m, k, stamp c)"
    | (skip) "lru_step cold stamp e (m, i, t) = (m, i, t)" "i \<noteq> ''''"
    by (cases "cold c"; cases "i = '''' \<or> stamp c < t")
      (auto simp: lru_step_def e)
  then show ?case
  proof cases
    case drop
    have len: "length (map_del k m) < length m"
      using Cons.prems(1) k(1) by (rule length_map_del_less)
    have "map_wf m' \<and> length m' \<le> length (map_del k m) \<and> (i' = '''' \<or> i' \<in> fst ` set m') \<and>
        fst ` set m' \<subseteq> fst ` set (map_del k m) \<and> (i \<noteq> '''' \<longrightarrow> i' \<noteq> '''') \<and>
        (length m' < length (map_del k m) \<or> es = [] \<or> i' \<noteq> '''')"
    proof (rule Cons.IH)
      show "map_wf (map_del k m)" using Cons.prems(1) by (rule map_wf_del)
      show "fst ` set es \<subseteq> fst ` set (map_del k m)"
        using Cons.prems(2) k(2) unfolding set_keys_map_del by (simp; blast)
      show "distinct (map fst es)" "'''' \<notin> fst ` set es" using Cons.prems(3,4) by simp_all
      show "i = '''' \<or> i \<in> fst ` set (map_del k m) \<and> i \<notin> fst ` set es"
        using Cons.prems(5) k(4) by auto
      show "fold (lru_step cold stamp) es (map_del k m, i, t) = (m', i', t')"
        using Cons.prems(6) drop by simp
    qed
    then show ?thesis using len by (simp; blast)
  next
    case mark
    with Cons.IH [of m k "stamp c"] Cons.prems k show ?thesis by (auto simp: e)
  next
    case skip
    with Cons.IH [of m i t] Cons.prems k show ?thesis by (auto simp: e)
  qed
qed simp

lemma make_room_bound:
  assumes "map_wf table" and "int (length table) \<le> limit" and "'''' \<notin> fst ` set table"
    and "incoming \<notin> fst ` set table" and "0 < limit"
  shows "map_wf (make_room cold stamp limit incoming table) \<and>
    fst ` set (make_room cold stamp limit incoming table) \<subseteq> fst ` set table \<and>
    int (length (make_room cold stamp limit incoming table)) < limit"
proof (cases "int (length table) < limit")
  case True
  with assms show ?thesis by (simp add: make_room_def)
next
  case False
  obtain m i u where f: "fold (lru_step cold stamp) table (table, '''', 0) = (m, i, u)"
    by (cases "fold (lru_step cold stamp) table (table, '''', 0)")
  from assms f have "map_wf m \<and> length m \<le> length table \<and> (i = '''' \<or> i \<in> fst ` set m) \<and>
      fst ` set m \<subseteq> fst ` set table \<and> (length m < length table \<or> table = [] \<or> i \<noteq> '''')"
    using lru_fold [of table table "''''"] by auto
  moreover have "map_of table incoming = None" using assms(4) by (simp add: map_of_eq_None_iff)
  ultimately show ?thesis
    using False assms f length_map_del [of m i] by (auto simp: make_room_def map_wf_del)
qed

lemma make_room_known: "map_of table incoming \<noteq> None \<Longrightarrow> make_room cold stamp limit incoming table = table"
  by (simp add: make_room_def)

section \<open>Invariants of step relations\<close>

text \<open>
  The contract behind every state-machine argument of the development: an invariant that holds
  initially and is kept by each step holds in every reachable state.
\<close>

locale invariant_system =
  fixes init :: "'s \<Rightarrow> bool"
    and step :: "'s \<Rightarrow> 's \<Rightarrow> bool"
    and inv :: "'s \<Rightarrow> bool"
  assumes inv_init: "init s \<Longrightarrow> inv s"
    and inv_step: "inv s \<Longrightarrow> step s t \<Longrightarrow> inv t"
begin

lemma inv_steps: "step\<^sup>*\<^sup>* s t \<Longrightarrow> inv s \<Longrightarrow> inv t"
  by (induction rule: rtranclp_induct) (auto intro: inv_step)

lemma inv_reachable: "init s \<Longrightarrow> step\<^sup>*\<^sup>* s t \<Longrightarrow> inv t"
  using inv_steps inv_init by blast

end

end
