(* ===== verification/Routing_Models.thy ===== *)
theory Routing_Models
  imports Go_Base
begin

text \<open>
  Channel-group model exclusion and route-scope normalisation:
  \<^verbatim>\<open>src/sdk/routing/group_models.go\<close> and the pure part of \<^verbatim>\<open>src/sdk/routing/scope.go\<close>.

  \<open>MatchWildcard\<close> is the greedy matcher of the code.  Its specification is the relation \<open>wild\<close>,
  which says what a \<^verbatim>\<open>*\<close> means without saying how a match is searched; the two agree on
  every non-empty pattern (\<open>MatchWildcard_iff_wild\<close>), so greediness loses no match.
\<close>

section \<open>The code\<close>

text \<open>The loop over the middle segments of \<^verbatim>\<open>MatchWildcard\<close>.\<close>

fun match_segments :: "string list \<Rightarrow> string \<Rightarrow> bool" where
  "match_segments [] v = True"
| "match_segments (seg # segs) v =
     (if seg = [] then match_segments segs v
      else (case str_index v seg of
              None \<Rightarrow> False
            | Some idx \<Rightarrow> match_segments segs (drop (idx + length seg) v)))"

definition MatchWildcard :: "string \<Rightarrow> string \<Rightarrow> bool" where
  "MatchWildcard pattern v =
     (if pattern = [] then False
      else if \<not> contains pattern ''*'' then pattern = v
      else
        let parts = split_on CHR ''*'' pattern;
            pre = hd parts; suf = last parts
        in if pre \<noteq> [] \<and> \<not> prefix pre v then False
           else
             let v1 = (if pre \<noteq> [] then drop (length pre) v else v)
             in if suf \<noteq> [] \<and> \<not> suffix suf v1 then False
                else
                  let v2 = (if suf \<noteq> [] then take (length v1 - length suf) v1 else v1)
                  in match_segments (butlast (tl parts)) v2)"

definition modelSpellings :: "string \<Rightarrow> string list" where
  "modelSpellings raw =
     (let i = to_lower (trim_space raw)
      in if i = [] then []
         else (case str_index i ''/'' of
                 Some idx \<Rightarrow> if 0 < idx \<and> idx < length i - 1 then [i, drop (idx + 1) i] else [i]
               | None \<Rightarrow> [i]))"

definition ChannelGroupExcludesModel :: "string list \<Rightarrow> string \<Rightarrow> bool" where
  "ChannelGroupExcludesModel excluded model =
     (let requested = modelSpellings model
      in if requested = [] then False
         else list_ex (\<lambda>entry.
                list_ex (\<lambda>pattern. list_ex (\<lambda>candidate. MatchWildcard pattern candidate) requested)
                  (modelSpellings entry)) excluded)"

definition NormalizeGroupName :: "string \<Rightarrow> string" where
  "NormalizeGroupName v = trim_char CHR ''/'' (to_lower (trim_space v))"

definition NormalizeFallback :: "string \<Rightarrow> string" where
  "NormalizeFallback v =
     (let s = to_lower (trim_space v)
      in if s = '''' \<or> s = ''none'' then ''none''
         else if s = ''default'' then ''default''
         else ''none'')"

text \<open>
  \<^verbatim>\<open>ParseNormalizedSet\<close>: the map used as a set is the list of its keys in insertion order; the \<^verbatim>\<open>nil\<close>
  result is \<^term>\<open>None\<close>, and a \<^verbatim>\<open>nil\<close> normalizer is \<^term>\<open>None\<close>.
\<close>

definition ParseNormalizedSet :: "string \<Rightarrow> (string \<Rightarrow> string) option \<Rightarrow> string list option" where
  "ParseNormalizedSet raw normalizer =
     (let r = trim_space raw
      in if r = [] then None
         else
           let norm = (\<lambda>part. let v = trim_space part
                              in case normalizer of Some f \<Rightarrow> f v | None \<Rightarrow> v);
               out = remdups (filter (\<lambda>v. v \<noteq> []) (map norm (split_on CHR '','' r)))
           in if out = [] then None else Some out)"

section \<open>What a pattern means\<close>

inductive wild :: "string \<Rightarrow> string \<Rightarrow> bool" where
  wild_Nil: "wild [] []"
| wild_char: "c \<noteq> CHR ''*'' \<Longrightarrow> wild p v \<Longrightarrow> wild (c # p) (c # v)"
| wild_star_stop: "wild p v \<Longrightarrow> wild (CHR ''*'' # p) v"
| wild_star_step: "wild (CHR ''*'' # p) v \<Longrightarrow> wild (CHR ''*'' # p) (x # v)"

inductive_cases wild_NilE: "wild [] v"
inductive_cases wild_ConsE: "wild (c # p) v"
inductive_simps wild_Nil_iff [simp]: "wild [] v"

lemma wild_star_append: "wild p v \<Longrightarrow> wild (CHR ''*'' # p) (u @ v)"
  by (induction u) (auto intro: wild.intros)

lemma wild_star_iff: "wild (CHR ''*'' # p) v \<longleftrightarrow> (\<exists>u w. v = u @ w \<and> wild p w)"
proof
  show "\<exists>u w. v = u @ w \<and> wild p w" if "wild (CHR ''*'' # p) v"
    using that
  proof (induction "CHR ''*'' # p" v rule: wild.induct)
    case (wild_star_stop v)
    then show ?case by (metis append_Nil)
  next
    case (wild_star_step v x)
    then show ?case by (metis append_Cons)
  qed simp
qed (auto intro: wild_star_append)

lemma wild_literal_append:
  "CHR ''*'' \<notin> set q \<Longrightarrow> wild (q @ p) v \<longleftrightarrow> (\<exists>w. v = q @ w \<and> wild p w)"
proof (induction q arbitrary: v)
  case (Cons c q)
  then have c: "c \<noteq> CHR ''*''" by auto
  have "wild ((c # q) @ p) v \<longleftrightarrow> (\<exists>v'. v = c # v' \<and> wild (q @ p) v')"
    using c by (auto elim: wild_ConsE intro: wild.intros)
  with Cons show ?case by auto
qed simp

lemma wild_literal: "CHR ''*'' \<notin> set q \<Longrightarrow> wild q v \<longleftrightarrow> v = q"
  using wild_literal_append [of q "[]" v] by simp

section \<open>Greedy search finds every match\<close>

text \<open>The middle segments occur in order, without overlap: the declarative form of the loop.\<close>

fun segs_in_order :: "string list \<Rightarrow> string \<Rightarrow> bool" where
  "segs_in_order [] v = True"
| "segs_in_order (s # ss) v = (\<exists>u w. v = u @ s @ w \<and> segs_in_order ss w)"

lemma segs_in_order_prepend: "segs_in_order ss w \<Longrightarrow> segs_in_order ss (x @ w)"
  by (cases ss) (auto, metis append_assoc)

lemma match_segments_iff: "match_segments ss v \<longleftrightarrow> segs_in_order ss v"
proof (induction ss v rule: match_segments.induct)
  case (2 seg segs v)
  show ?case
  proof (cases "seg = []")
    case True
    have "segs_in_order (seg # segs) v \<longleftrightarrow> segs_in_order segs v"
      using True segs_in_order_prepend by auto
    with True "2.IH"(1) show ?thesis by simp
  next
    case nonempty: False
    show ?thesis
    proof (cases "str_index v seg")
      case None
      with nonempty show ?thesis
        using contains_iff_sublist [of v seg] by (auto simp: contains_def)
    next
      case (Some idx)
      then obtain w where w: "v = take idx v @ seg @ w" using str_index_SomeD by blast
      moreover have "idx \<le> length v"
        using str_index_SomeD [OF Some] by (metis append_eq_conv_conj length_take
          min.cobounded1 nat_le_linear take_all w append_Nil2 append_is_Nil_conv nonempty
          same_append_eq)
      ultimately have drop: "drop (idx + length seg) v = w"
        by (metis append_assoc append_eq_conv_conj length_append length_take min.absorb2)
      have "segs_in_order segs w" if "v = u @ seg @ w'" and "segs_in_order segs w'" for u w'
      proof -
        from str_index_le [OF that(1)] Some have "idx \<le> length u" by auto
        then have "w = drop (idx + length seg) (u @ seg) @ w'"
          using drop that(1) by (metis append_assoc drop_append length_append add_le_mono1
              diff_is_0_eq drop0)
        with that(2) show ?thesis using segs_in_order_prepend by metis
      qed
      with w have "segs_in_order (seg # segs) v \<longleftrightarrow> segs_in_order segs w" by auto
      with nonempty Some drop "2.IH"(2) show ?thesis by auto
    qed
  qed
qed simp

text \<open>The parts after the first one: every part but the last floats, the last one is anchored.\<close>

fun tail_parts :: "string list \<Rightarrow> string \<Rightarrow> bool" where
  "tail_parts [] v = True"
| "tail_parts [p] v = (\<exists>u. v = u @ p)"
| "tail_parts (p # q # ps) v = (\<exists>u w. v = u @ p @ w \<and> tail_parts (q # ps) w)"

lemma tail_parts_snoc:
  "tail_parts (mid @ [p]) v \<longleftrightarrow> (\<exists>w. v = w @ p \<and> segs_in_order mid w)"
proof (induction mid arbitrary: v)
  case (Cons s mid)
  have "tail_parts ((s # mid) @ [p]) v \<longleftrightarrow> (\<exists>u w. v = u @ s @ w \<and> tail_parts (mid @ [p]) w)"
    by (cases mid) auto
  also have "\<dots> \<longleftrightarrow> (\<exists>w. v = w @ p \<and> segs_in_order (s # mid) w)"
    unfolding Cons.IH by auto (metis append_assoc)+
  finally show ?case .
qed auto

lemma wild_star_parts:
  "wild (CHR ''*'' # p) v \<longleftrightarrow> tail_parts (split_on CHR ''*'' p) v"
proof (induction "length p" arbitrary: p v rule: less_induct)
  case less
  show ?case
  proof (cases "CHR ''*'' \<in> set p")
    case False
    then show ?thesis
      by (simp add: split_on_no_sep wild_star_iff wild_literal)
  next
    case True
    then obtain q r where p: "p = q @ CHR ''*'' # r" and q: "CHR ''*'' \<notin> set q"
      by (meson split_list_first)
    have parts: "split_on CHR ''*'' p = q # split_on CHR ''*'' r"
      using p q by (simp add: split_on_append)
    have "wild (CHR ''*'' # p) v \<longleftrightarrow> (\<exists>u w. v = u @ q @ w \<and> wild (CHR ''*'' # r) w)"
      by (simp add: p wild_star_iff [of "q @ _ # r"] wild_literal_append [OF q]) blast
    also have "\<dots> \<longleftrightarrow> (\<exists>u w. v = u @ q @ w \<and> tail_parts (split_on CHR ''*'' r) w)"
      using less [of r] p by simp
    also have "\<dots> \<longleftrightarrow> tail_parts (split_on CHR ''*'' p) v"
      unfolding parts by (cases "split_on CHR ''*'' r") auto
    finally show ?thesis .
  qed
qed

lemma contains_char: "contains s [c] \<longleftrightarrow> c \<in> set s"
  by (auto simp: contains_iff_sublist in_set_conv_decomp)

lemma MatchWildcard_star:
  assumes q: "CHR ''*'' \<notin> set q"
  shows "MatchWildcard (q @ CHR ''*'' # r) v \<longleftrightarrow>
     (\<exists>w. v = q @ w \<and> tail_parts (split_on CHR ''*'' r) w)"
proof -
  let ?parts = "split_on CHR ''*'' r"
  let ?mid = "butlast ?parts" and ?suf = "last ?parts"
  have parts: "split_on CHR ''*'' (q @ CHR ''*'' # r) = q # ?parts"
    using q by (rule split_on_append)
  have eq: "MatchWildcard (q @ CHR ''*'' # r) v \<longleftrightarrow>
      prefix q v \<and> suffix ?suf (drop (length q) v) \<and>
      match_segments ?mid (take (length (drop (length q) v) - length ?suf) (drop (length q) v))"
    unfolding MatchWildcard_def parts by (auto simp: Let_def contains_char)
  also have "\<dots> \<longleftrightarrow> (\<exists>w. v = q @ w \<and> (\<exists>x. w = x @ ?suf \<and> segs_in_order ?mid x))"
    by (auto simp: prefix_def suffix_def match_segments_iff)
  also have "\<dots> \<longleftrightarrow> (\<exists>w. v = q @ w \<and> tail_parts (?mid @ [?suf]) w)"
    unfolding tail_parts_snoc ..
  finally show ?thesis by simp
qed

lemma MatchWildcard_eq_wild:
  "pattern \<noteq> [] \<Longrightarrow> MatchWildcard pattern v \<longleftrightarrow> wild pattern v"
proof (cases "CHR ''*'' \<in> set pattern")
  case True
  then obtain q r where p: "pattern = q @ CHR ''*'' # r" and q: "CHR ''*'' \<notin> set q"
    by (meson split_list_first)
  show ?thesis
    unfolding p MatchWildcard_star [OF q] wild_literal_append [OF q] wild_star_parts ..
next
  case False
  assume "pattern \<noteq> []"
  with False show ?thesis
    by (auto simp: MatchWildcard_def contains_char wild_literal)
qed

section \<open>Exclusion\<close>

lemma modelSpellings_nonempty: "s \<in> set (modelSpellings i) \<Longrightarrow> s \<noteq> []"
  by (auto simp: modelSpellings_def Let_def split: if_splits option.splits)

lemma modelSpellings_Nil_iff: "modelSpellings i = [] \<longleftrightarrow> trim_space i = []"
  by (auto simp: modelSpellings_def Let_def split: if_splits option.splits)

text \<open>
  The greedy wildcard matcher of the exclusion lists accepts exactly the strings the pattern
  denotes, where every star stands for an arbitrary (possibly empty) substring; the empty pattern
  matches nothing.
\<close>

theorem MatchWildcard_iff_wild: "MatchWildcard pattern v \<longleftrightarrow> pattern \<noteq> [] \<and> wild pattern v"
  using MatchWildcard_eq_wild [of pattern v] by (auto simp: MatchWildcard_def)

text \<open>
  A channel group excludes a model exactly when some spelling of some entry, read as a wildcard
  pattern, denotes some spelling of the requested model; spellings are the lower-cased trimmed id
  and the same id without its first path segment.
\<close>

theorem ChannelGroupExcludesModel_iff:
  "ChannelGroupExcludesModel excluded model \<longleftrightarrow>
     (\<exists>entry \<in> set excluded. \<exists>pat \<in> set (modelSpellings entry).
        \<exists>cand \<in> set (modelSpellings model). wild pat cand)"
  using MatchWildcard_eq_wild modelSpellings_nonempty
  by (auto simp: ChannelGroupExcludesModel_def Let_def list_ex_iff)

end
