(* ===== verification/Thinking_Suffix.thy ===== *)
theory Thinking_Suffix
  imports Go_Base
begin

text \<open>
  Parsing of model names of the form \<^verbatim>\<open>model[1M](value)\<close>: \<^verbatim>\<open>src/internal/thinking/suffix.go\<close>, and the
  two copies of it the program keeps, in \<^verbatim>\<open>src/sdk/thinking/suffix.go\<close> (prefix \<open>sdk_\<close>) and in
  \<^verbatim>\<open>src/sdk/cliproxy/auth/oauth_model_alias.go\<close> (\<open>parseModelSuffix\<close>).

  Slicing \<^verbatim>\<open>s[i:j]\<close> is \<open>slice s i j\<close>; every use in these files is within bounds.
\<close>

section \<open>Data\<close>

datatype thinking_mode = ModeBudget | ModeLevel | ModeNone | ModeAuto

text \<open>\<^verbatim>\<open>ThinkingLevel\<close> is a string type; the named constants are\<close>

abbreviation LevelNone :: string where "LevelNone \<equiv> ''none''"
abbreviation LevelAuto :: string where "LevelAuto \<equiv> ''auto''"
abbreviation LevelMinimal :: string where "LevelMinimal \<equiv> ''minimal''"
abbreviation LevelLow :: string where "LevelLow \<equiv> ''low''"
abbreviation LevelMedium :: string where "LevelMedium \<equiv> ''medium''"
abbreviation LevelHigh :: string where "LevelHigh \<equiv> ''high''"
abbreviation LevelXHigh :: string where "LevelXHigh \<equiv> ''xhigh''"
abbreviation LevelMax :: string where "LevelMax \<equiv> ''max''"

record suffix_result =
  ModelName :: string
  HasSuffix :: bool
  RawSuffix :: string

definition slice :: "string \<Rightarrow> nat \<Rightarrow> nat \<Rightarrow> string" where
  "slice s i j = take (j - i) (drop i s)"

section \<open>The parser\<close>

definition isContextWindowSuffix :: "string \<Rightarrow> bool" where
  "isContextWindowSuffix content =
     (let i = length (takeWhile is_digit content)
      in if content = [] then False
         else if i = 0 then False
         else if i < length content then
           (if content ! i \<in> {CHR ''k'', CHR ''K'', CHR ''m'', CHR ''M''}
            then i + 1 = length content else False)
         else i = length content)"

definition StripBracketSuffix :: "string \<Rightarrow> string" where
  "StripBracketSuffix model =
     (case last_index model CHR ''['' of
        None \<Rightarrow> model
      | Some lastOpen \<Rightarrow>
          if \<not> suffix '']'' model then model
          else if length model - 1 \<le> lastOpen + 1 then model
          else if \<not> isContextWindowSuffix (slice model (lastOpen + 1) (length model - 1)) then model
          else take lastOpen model)"

definition ParseSuffix :: "string \<Rightarrow> suffix_result" where
  "ParseSuffix raw =
     (let model = StripBracketSuffix raw
      in case last_index model CHR ''('' of
           None \<Rightarrow> \<lparr>ModelName = model, HasSuffix = False, RawSuffix = []\<rparr>
         | Some lastOpen \<Rightarrow>
             if \<not> suffix '')'' model
             then \<lparr>ModelName = model, HasSuffix = False, RawSuffix = []\<rparr>
             else \<lparr>ModelName = StripBracketSuffix (take lastOpen model),
                   HasSuffix = True,
                   RawSuffix = slice model (lastOpen + 1) (length model - 1)\<rparr>)"

text \<open>The results \<^verbatim>\<open>(value, ok)\<close> of the next three functions are options.\<close>

definition ParseNumericSuffix :: "string \<Rightarrow> int option" where
  "ParseNumericSuffix raw =
     (if raw = [] then None
      else (case atoi raw of
              None \<Rightarrow> None
            | Some v \<Rightarrow> if v < 0 then None else Some v))"

definition ParseSpecialSuffix :: "string \<Rightarrow> thinking_mode option" where
  "ParseSpecialSuffix raw =
     (if raw = [] then None
      else let s = to_lower raw
           in if s = ''none'' then Some ModeNone
              else if s = ''auto'' \<or> s = ''-1'' then Some ModeAuto
              else None)"

definition ParseLevelSuffix :: "string \<Rightarrow> string option" where
  "ParseLevelSuffix raw =
     (if raw = [] then None
      else let s = to_lower raw
           in if s = ''minimal'' then Some LevelMinimal
              else if s = ''low'' then Some LevelLow
              else if s = ''medium'' then Some LevelMedium
              else if s = ''high'' then Some LevelHigh
              else if s = ''xhigh'' then Some LevelXHigh
              else if s = ''max'' then Some LevelMax
              else None)"

section \<open>The copies\<close>

text \<open>
  \<^verbatim>\<open>sdk/thinking\<close> repeats the whole file; its level parser knows no \<^verbatim>\<open>max\<close>.  The credential selector
  keeps a third copy of the suffix parser.
\<close>

definition sdk_ParseSuffix :: "string \<Rightarrow> suffix_result" where
  "sdk_ParseSuffix raw =
     (let model = StripBracketSuffix raw
      in case last_index model CHR ''('' of
           None \<Rightarrow> \<lparr>ModelName = model, HasSuffix = False, RawSuffix = []\<rparr>
         | Some lastOpen \<Rightarrow>
             if \<not> suffix '')'' model
             then \<lparr>ModelName = model, HasSuffix = False, RawSuffix = []\<rparr>
             else
               let modelName = StripBracketSuffix (take lastOpen model);
                   rawSuffix = slice model (lastOpen + 1) (length model - 1)
               in \<lparr>ModelName = modelName, HasSuffix = True, RawSuffix = rawSuffix\<rparr>)"

definition sdk_ParseLevelSuffix :: "string \<Rightarrow> string option" where
  "sdk_ParseLevelSuffix raw =
     (if raw = [] then None
      else let s = to_lower raw
           in if s = ''minimal'' then Some LevelMinimal
              else if s = ''low'' then Some LevelLow
              else if s = ''medium'' then Some LevelMedium
              else if s = ''high'' then Some LevelHigh
              else if s = ''xhigh'' then Some LevelXHigh
              else None)"

definition parseModelSuffix :: "string \<Rightarrow> suffix_result" where
  "parseModelSuffix raw =
     (let model = StripBracketSuffix raw
      in case last_index model CHR ''('' of
           None \<Rightarrow> \<lparr>ModelName = model, HasSuffix = False, RawSuffix = []\<rparr>
         | Some lastOpen \<Rightarrow>
             if \<not> suffix '')'' model
             then \<lparr>ModelName = model, HasSuffix = False, RawSuffix = []\<rparr>
             else
               let modelName = take lastOpen model;
                   rawSuffix = slice model (lastOpen + 1) (length model - 1)
               in \<lparr>ModelName = StripBracketSuffix modelName, HasSuffix = True,
                   RawSuffix = rawSuffix\<rparr>)"

text \<open>How a name with a suffix is put together again, in \<^verbatim>\<open>ResolveRequestDetails\<close>.\<close>

definition renderSuffix :: "suffix_result \<Rightarrow> string" where
  "renderSuffix p =
     (if HasSuffix p then ModelName p @ ''('' @ RawSuffix p @ '')'' else ModelName p)"

section \<open>Lemmas\<close>

lemma suffix_snoc_iff: "suffix [c] s \<longleftrightarrow> s \<noteq> [] \<and> last s = c"
  by (cases s rule: rev_cases) (auto simp: suffix_def)

lemma slice_between [simp]:
  "slice (m @ c # v @ [d]) (Suc (length m)) (Suc (length m + length v)) = v"
  by (simp add: slice_def)

lemma StripBracketSuffix_no_close: "\<not> suffix '']'' m \<Longrightarrow> StripBracketSuffix m = m"
  by (simp add: StripBracketSuffix_def split: option.split)

lemma StripBracketSuffix_marker:
  assumes "isContextWindowSuffix w"
  shows "StripBracketSuffix (m @ ''['' @ w @ '']'') = m"
proof -
  have digits: "list_all (\<lambda>c. is_digit c \<or> c \<in> {CHR ''k'', CHR ''K'', CHR ''m'', CHR ''M''}) w"
  proof -
    let ?i = "length (takeWhile is_digit w)"
    have "w = takeWhile is_digit w @ drop ?i w" by (simp add: dropWhile_eq_drop [symmetric])
    moreover have "list_all is_digit (takeWhile is_digit w)"
      by (auto simp: list_all_iff dest: set_takeWhileD)
    moreover have "list_all (\<lambda>c. c \<in> {CHR ''k'', CHR ''K'', CHR ''m'', CHR ''M''}) (drop ?i w)"
    proof (cases "drop ?i w")
      case (Cons c cs)
      then have lt: "?i < length w" by (metis drop_all leI list.distinct(1))
      have "w ! ?i = c" using Cons by (rule nth_via_drop)
      with assms lt have mark: "c \<in> {CHR ''k'', CHR ''K'', CHR ''m'', CHR ''M''}" "?i + 1 = length w"
        by (simp_all only: isContextWindowSuffix_def Let_def if_True split: if_split_asm)
      have "length (c # cs) = length w - ?i" unfolding Cons [symmetric] by (rule length_drop)
      with mark(2) have "length cs = 0" by (metis add_diff_cancel_left' length_Cons One_nat_def Suc_inject)
      then have "cs = []" by simp
      with mark(1) Cons show ?thesis by simp
    qed simp
    ultimately show ?thesis
      by (metis (mono_tags, lifting) list_all_append list_all_iff)
  qed
  have bracket: "\<not> is_digit CHR ''[''" by code_simp
  have "CHR ''['' \<notin> set (w @ '']'')"
    using digits bracket by (auto simp: list_all_iff)
  moreover have "w \<noteq> []" using assms by (auto simp: isContextWindowSuffix_def)
  ultimately show ?thesis
    using assms by (simp add: StripBracketSuffix_def suffix_snoc_iff)
qed

lemma ParseSuffix_value_eq:
  assumes "CHR ''('' \<notin> set v"
  shows "ParseSuffix (m @ ''('' @ v @ '')'') =
     \<lparr>ModelName = StripBracketSuffix m, HasSuffix = True, RawSuffix = v\<rparr>"
proof -
  let ?s = "m @ ''('' @ v @ '')''"
  have "\<not> suffix '']'' ?s" by (simp add: suffix_snoc_iff)
  then have strip: "StripBracketSuffix ?s = ?s" by (rule StripBracketSuffix_no_close)
  have "CHR ''('' \<notin> set (v @ '')'')" using assms by simp
  then have "last_index ?s CHR ''('' = Some (length m)"
    by (metis append_Cons append_Nil last_index_append)
  moreover have "suffix '')'' ?s" by (simp add: suffix_snoc_iff)
  ultimately show ?thesis
    unfolding ParseSuffix_def strip by (simp add: Let_def)
qed

lemma ParseSuffix_raw_no_open: "CHR ''('' \<notin> set (RawSuffix (ParseSuffix s))"
proof (cases "last_index (StripBracketSuffix s) CHR ''(''")
  case (Some i)
  let ?m = "StripBracketSuffix s"
  have "set (slice ?m (i + 1) (length ?m - 1)) \<subseteq> set (drop (Suc i) ?m)"
    by (auto simp: slice_def dest: in_set_takeD)
  with last_index_SomeD [OF Some] Some show ?thesis
    by (auto simp: ParseSuffix_def Let_def)
qed (simp add: ParseSuffix_def)

text \<open>
  A model name followed by a parenthesised value that contains no opening parenthesis parses into
  that value and the name, less a trailing context-window marker.
\<close>

theorem ParseSuffix_value:
  assumes "CHR ''('' \<notin> set v"
  shows "ParseSuffix (m @ ''('' @ v @ '')'') =
     \<lparr>ModelName = StripBracketSuffix m, HasSuffix = True, RawSuffix = v\<rparr>"
  using assms by (rule ParseSuffix_value_eq)

theorem ParseSuffix_value_witness:
  "CHR ''('' \<notin> set ''8192'' \<and>
   ParseSuffix ''model[1M](8192)'' =
     \<lparr>ModelName = StripBracketSuffix ''model[1M]'', HasSuffix = True, RawSuffix = ''8192''\<rparr> \<and>
   StripBracketSuffix ''model[1M]'' = ''model''"
proof -
  have h: "CHR ''('' \<notin> set ''8192''" by simp
  have "StripBracketSuffix ''model[1M]'' = ''model''" by code_simp
  with h ParseSuffix_value [OF h, of "''model[1M]''"] show ?thesis by simp
qed

text \<open>
  Rendering a parsed name and parsing it again gives the same result: the normalised model name
  that \<^verbatim>\<open>ResolveRequestDetails\<close> hands to the scheduler carries the same base model and the same
  thinking value as the client's name, whenever the base name has no further marker.
\<close>

theorem ParseSuffix_render:
  assumes "StripBracketSuffix (ModelName (ParseSuffix s)) = ModelName (ParseSuffix s)"
  shows "ParseSuffix (renderSuffix (ParseSuffix s)) = ParseSuffix s"
proof (cases "HasSuffix (ParseSuffix s)")
  case True
  then show ?thesis
    using ParseSuffix_value_eq [OF ParseSuffix_raw_no_open [of s], of "ModelName (ParseSuffix s)"] assms
    by (simp add: renderSuffix_def)
next
  case False
  then have "ParseSuffix s = \<lparr>ModelName = StripBracketSuffix s, HasSuffix = False, RawSuffix = []\<rparr>"
    by (auto simp: ParseSuffix_def Let_def split: option.splits if_splits)
  with assms False show ?thesis
    by (auto simp: renderSuffix_def ParseSuffix_def Let_def split: option.splits if_splits)
qed

theorem ParseSuffix_render_witness:
  "StripBracketSuffix (ModelName (ParseSuffix ''gpt-5.2(high)'')) =
     ModelName (ParseSuffix ''gpt-5.2(high)'') \<and>
   ParseSuffix (renderSuffix (ParseSuffix ''gpt-5.2(high)'')) = ParseSuffix ''gpt-5.2(high)'' \<and>
   RawSuffix (ParseSuffix ''gpt-5.2(high)'') = ''high''"
proof -
  have h: "StripBracketSuffix (ModelName (ParseSuffix ''gpt-5.2(high)'')) =
      ModelName (ParseSuffix ''gpt-5.2(high)'')" by code_simp
  moreover have "RawSuffix (ParseSuffix ''gpt-5.2(high)'') = ''high''" by code_simp
  ultimately show ?thesis using ParseSuffix_render [OF h] by simp
qed

text \<open>
  The copies agree: the SDK's and the selector's suffix parsers compute what the internal one
  computes, and the SDK's level parser differs from the internal one on \<^verbatim>\<open>max\<close> only, which it
  rejects.
\<close>

theorem suffix_parsers_agree:
  "sdk_ParseSuffix s = ParseSuffix s \<and> parseModelSuffix s = ParseSuffix s \<and>
   sdk_ParseLevelSuffix r = (if to_lower r = ''max'' then None else ParseLevelSuffix r)"
  by (auto simp: sdk_ParseSuffix_def parseModelSuffix_def ParseSuffix_def Let_def
      sdk_ParseLevelSuffix_def ParseLevelSuffix_def split: option.split)

text \<open>
  Contrary to its documented example, the bracket stripper leaves a name unchanged when the marker
  is followed by a thinking value: only \<^verbatim>\<open>ParseSuffix\<close>, which strips twice, removes it.
\<close>

theorem StripBracketSuffix_inner_marker:
  "StripBracketSuffix (m @ ''('' @ v @ '')'') = m @ ''('' @ v @ '')''"
  by (rule StripBracketSuffix_no_close) (simp add: suffix_snoc_iff)

end
