(* ===== verification/Model_Info.thy ===== *)
theory Model_Info
  imports Go_Base
begin

text \<open>
  The model metadata that the registry stores and the thinking pipeline consults:
  \<^verbatim>\<open>ThinkingSupport\<close> and \<^verbatim>\<open>ModelInfo\<close> of \<^verbatim>\<open>src/internal/registry/model_registry.go\<close>.
\<close>

record thinking_support =
  tsMin :: int
  tsMax :: int
  tsZeroAllowed :: bool
  tsDynamicAllowed :: bool
  tsLevels :: "string list"

record model_info =
  miID :: string
  miObject :: string
  miCreated :: int
  miOwnedBy :: string
  miType :: string
  miDisplayName :: string
  miUpstreamModelID :: string
  miName :: string
  miVersion :: string
  miDescription :: string
  miInputTokenLimit :: int
  miOutputTokenLimit :: int
  miSupportedGenerationMethods :: "string list"
  miContextLength :: int
  miMaxCompletionTokens :: int
  miSupportedParameters :: "string list"
  miThinking :: "thinking_support option"
  miUserDefined :: bool

text \<open>\<^verbatim>\<open>cloneModelInfo\<close> copies the struct and its slices: the same value in a model without aliasing.\<close>

definition cloneModelInfo :: "model_info option \<Rightarrow> model_info option" where
  "cloneModelInfo model = (case model of None \<Rightarrow> None | Some m \<Rightarrow> Some m)"

lemma cloneModelInfo_id [simp]: "cloneModelInfo m = m"
  by (simp add: cloneModelInfo_def split: option.split)

end
