(* ===== verification/Thinking_Config.thy ===== *)
theory Thinking_Config
  imports Thinking_Suffix Model_Info
begin

text \<open>
  The unified thinking pipeline: conversion, capability detection, validation and the entry point
  \<open>ApplyThinking\<close> of \<^verbatim>\<open>src/internal/thinking/\<close> (\<^verbatim>\<open>types.go\<close>, \<^verbatim>\<open>convert.go\<close>,
  \<^verbatim>\<open>validate.go\<close>, \<^verbatim>\<open>apply.go\<close>, \<^verbatim>\<open>strip.go\<close>, \<^verbatim>\<open>level.go\<close>).

  Third-party and registered code is a parameter: \<open>jget body path\<close> stands for
  \<^verbatim>\<open>gjson.GetBytes\<close> (\<^term>\<open>None\<close> when the path does not exist), \<open>jvalid\<close> for
  \<^verbatim>\<open>gjson.ValidBytes\<close>, \<open>jdel\<close> for \<^verbatim>\<open>sjson.DeleteBytes\<close>, \<open>appliers\<close> for the table of registered
  \<^verbatim>\<open>ProviderApplier\<close>s and \<open>lookup\<close> for \<^verbatim>\<open>registry.LookupModelInfo\<close>.  Logging is left out, and of an
  error only its code and model are kept, not its message text.
\<close>

section \<open>Configuration and errors\<close>

record thinking_config =
  cMode :: thinking_mode
  cBudget :: int
  cLevel :: string

definition emptyConfig :: thinking_config where
  "emptyConfig = \<lparr>cMode = ModeBudget, cBudget = 0, cLevel = ''''\<rparr>"

datatype error_code = ErrInvalidSuffix | ErrUnknownLevel | ErrThinkingNotSupported
  | ErrLevelNotSupported | ErrBudgetOutOfRange | ErrProviderMismatch

datatype thinking_error = ThinkingError (teCode: error_code) (teModel: string)

section \<open>Level and budget conversion\<close>

definition levelToBudgetMap :: "(string, int) gomap" where
  "levelToBudgetMap =
     [(''none'', 0), (''auto'', -1), (''minimal'', 512), (''low'', 1024), (''medium'', 8192),
      (''high'', 24576), (''xhigh'', 32768)]"

definition ConvertLevelToBudget :: "string \<Rightarrow> int option" where
  "ConvertLevelToBudget level = map_of levelToBudgetMap (to_lower level)"

definition ConvertBudgetToLevel :: "int \<Rightarrow> string option" where
  "ConvertBudgetToLevel budget =
     (if budget < -1 then None
      else if budget = -1 then Some LevelAuto
      else if budget = 0 then Some LevelNone
      else if budget \<le> 512 then Some LevelMinimal
      else if budget \<le> 1024 then Some LevelLow
      else if budget \<le> 8192 then Some LevelMedium
      else if budget \<le> 24576 then Some LevelHigh
      else Some LevelXHigh)"

datatype capability = CapabilityUnknown | CapabilityNone | CapabilityBudgetOnly
  | CapabilityLevelOnly | CapabilityHybrid

definition detectModelCapability :: "model_info option \<Rightarrow> capability" where
  "detectModelCapability info =
     (case info of
        None \<Rightarrow> CapabilityUnknown
      | Some m \<Rightarrow>
          (case miThinking m of
             None \<Rightarrow> CapabilityNone
           | Some s \<Rightarrow>
               let hasBudget = (tsMin s > 0 \<or> tsMax s > 0);
                   hasLevels = (tsLevels s \<noteq> [])
               in if hasBudget \<and> hasLevels then CapabilityHybrid
                  else if hasBudget then CapabilityBudgetOnly
                  else if hasLevels then CapabilityLevelOnly
                  else CapabilityNone))"

section \<open>Provider classes\<close>

definition isBudgetBasedProvider :: "string \<Rightarrow> bool" where
  "isBudgetBasedProvider p \<longleftrightarrow> p \<in> set [''gemini'', ''gemini-cli'', ''antigravity'', ''claude'']"

definition isLevelBasedProvider :: "string \<Rightarrow> bool" where
  "isLevelBasedProvider p \<longleftrightarrow> p \<in> set [''openai'', ''openai-response'', ''codex'', ''xai'']"

definition isGeminiFamily :: "string \<Rightarrow> bool" where
  "isGeminiFamily p \<longleftrightarrow> p \<in> set [''gemini'', ''gemini-cli'', ''antigravity'']"

definition isSameProviderFamily :: "string \<Rightarrow> string \<Rightarrow> bool" where
  "isSameProviderFamily f t \<longleftrightarrow> f = t \<or> (isGeminiFamily f \<and> isGeminiFamily t)"

section \<open>Clamping\<close>

definition isLevelSupported :: "string \<Rightarrow> string list \<Rightarrow> bool" where
  "isLevelSupported level supported = list_ex (\<lambda>s. equal_fold level (trim_space s)) supported"

definition standardLevelOrder :: "string list" where
  "standardLevelOrder = [LevelMinimal, LevelLow, LevelMedium, LevelHigh, LevelXHigh]"

text \<open>The loops return \<^verbatim>\<open>-1\<close> for "not found".\<close>

fun level_index_from :: "int \<Rightarrow> string \<Rightarrow> string list \<Rightarrow> int" where
  "level_index_from i level [] = -1"
| "level_index_from i level (l # ls) =
     (if equal_fold level l then i else level_index_from (i + 1) level ls)"

definition levelIndex :: "string \<Rightarrow> int" where
  "levelIndex level = level_index_from 0 level standardLevelOrder"

definition clamp_level_step :: "int \<Rightarrow> int \<times> int \<Rightarrow> string \<Rightarrow> int \<times> int" where
  "clamp_level_step pos best s =
     (case best of (bestIdx, bestDist) \<Rightarrow>
        let idx = levelIndex (trim_space s)
        in if idx \<noteq> -1 then
             let dist = \<bar>pos - idx\<bar>
             in if dist < bestDist \<or> (dist = bestDist \<and> idx < bestIdx)
                then (idx, dist) else (bestIdx, bestDist)
           else (bestIdx, bestDist))"

definition clampLevel :: "string \<Rightarrow> model_info option \<Rightarrow> string" where
  "clampLevel level info =
     (let supported = (case info of
                         None \<Rightarrow> []
                       | Some m \<Rightarrow> (case miThinking m of None \<Rightarrow> [] | Some s \<Rightarrow> tsLevels s))
      in if supported = [] \<or> isLevelSupported level supported then level
         else
           let pos = levelIndex level
           in if pos = -1 then level
              else
                let (bestIdx, bestDist) =
                  foldl (clamp_level_step pos) (-1, int (length standardLevelOrder) + 1) supported
                in if bestIdx \<ge> 0 then standardLevelOrder ! nat bestIdx else level)"

definition clampBudget :: "int \<Rightarrow> model_info option \<Rightarrow> int" where
  "clampBudget v info =
     (case (case info of None \<Rightarrow> None | Some m \<Rightarrow> miThinking m) of
        None \<Rightarrow> v
      | Some s \<Rightarrow>
          if v = -1 then v
          else if v = 0 \<and> \<not> tsZeroAllowed s then tsMin s
          else if tsMin s = 0 \<and> tsMax s = 0 then v
          else if v < tsMin s then (if v = 0 \<and> tsZeroAllowed s then 0 else tsMin s)
          else if v > tsMax s then tsMax s
          else v)"

text \<open>Go's integer division truncates towards zero; the sum wraps at 64 bits.\<close>

definition midpoint :: "int \<Rightarrow> int \<Rightarrow> int" where
  "midpoint a b = (let s = wrap64 (a + b) in if s < 0 then - ((- s) div 2) else s div 2)"

definition convertAutoToMidRange :: "thinking_config \<Rightarrow> thinking_support \<Rightarrow> thinking_config" where
  "convertAutoToMidRange config s =
     (if tsLevels s \<noteq> [] \<and> tsMin s = 0 \<and> tsMax s = 0
      then config\<lparr>cMode := ModeLevel, cLevel := LevelMedium, cBudget := 0\<rparr>
      else
        let mid = midpoint (tsMin s) (tsMax s)
        in if mid \<le> 0 \<and> tsZeroAllowed s then config\<lparr>cMode := ModeNone, cBudget := 0\<rparr>
           else if mid \<le> 0 then config\<lparr>cMode := ModeBudget, cBudget := tsMin s\<rparr>
           else config\<lparr>cMode := ModeBudget, cBudget := mid\<rparr>)"

section \<open>Validation\<close>

text \<open>
  \<^verbatim>\<open>ValidateConfig\<close> is one long function; the model keeps its stages, in its order, as one definition
  each.  First the conversion between budgets and levels the model's capability asks for; the flag
  says that the budget was derived from a level.
\<close>

definition convert_for_capability ::
  "thinking_config \<Rightarrow> model_info option \<Rightarrow> thinking_error + (thinking_config \<times> bool)" where
  "convert_for_capability config info =
     (case detectModelCapability info of
        CapabilityBudgetOnly \<Rightarrow>
          if cMode config = ModeLevel \<and> cLevel config \<noteq> LevelAuto then
            (case ConvertLevelToBudget (cLevel config) of
               None \<Rightarrow> Inl (ThinkingError ErrUnknownLevel '''')
             | Some budget \<Rightarrow>
                 Inr (config\<lparr>cMode := ModeBudget, cBudget := budget, cLevel := ''''\<rparr>, True))
          else Inr (config, False)
      | CapabilityLevelOnly \<Rightarrow>
          if cMode config = ModeBudget then
            (case ConvertBudgetToLevel (cBudget config) of
               None \<Rightarrow> Inl (ThinkingError ErrUnknownLevel '''')
             | Some level \<Rightarrow>
                 Inr (config\<lparr>cMode := ModeLevel, cLevel := clampLevel level info, cBudget := 0\<rparr>, False))
          else Inr (config, False)
      | _ \<Rightarrow> Inr (config, False))"

definition normalize_special :: "thinking_config \<Rightarrow> thinking_config" where
  "normalize_special config =
     (let c1 = (if cMode config = ModeLevel \<and> cLevel config = LevelNone
                then config\<lparr>cMode := ModeNone, cBudget := 0, cLevel := ''''\<rparr> else config);
          c2 = (if cMode c1 = ModeLevel \<and> cLevel c1 = LevelAuto
                then c1\<lparr>cMode := ModeAuto, cBudget := -1, cLevel := ''''\<rparr> else c1)
      in if cMode c2 = ModeBudget \<and> cBudget c2 = 0
         then c2\<lparr>cMode := ModeNone, cLevel := ''''\<rparr> else c2)"

definition check_level ::
  "thinking_config \<Rightarrow> thinking_support \<Rightarrow> model_info option \<Rightarrow> bool \<Rightarrow> thinking_error + thinking_config"
where
  "check_level config s info allowClampUnsupported =
     (if tsLevels s \<noteq> [] \<and> cMode config = ModeLevel then
        (if \<not> isLevelSupported (cLevel config) (tsLevels s) then
           let c1 = (if allowClampUnsupported
                     then config\<lparr>cLevel := clampLevel (cLevel config) info\<rparr> else config)
           in if \<not> isLevelSupported (cLevel c1) (tsLevels s)
              then Inl (ThinkingError ErrLevelNotSupported '''')
              else Inr c1
         else Inr config)
      else Inr config)"

definition check_budget ::
  "thinking_config \<Rightarrow> thinking_support \<Rightarrow> bool \<Rightarrow> bool \<Rightarrow> thinking_error + thinking_config" where
  "check_budget config s strictBudget budgetDerivedFromLevel =
     (if strictBudget \<and> cMode config = ModeBudget \<and> \<not> budgetDerivedFromLevel \<and>
         (tsMin s \<noteq> 0 \<or> tsMax s \<noteq> 0) \<and>
         (cBudget config < tsMin s \<or> cBudget config > tsMax s \<or>
          (cBudget config = 0 \<and> \<not> tsZeroAllowed s))
      then Inl (ThinkingError ErrBudgetOutOfRange '''')
      else Inr config)"

definition resolve_auto :: "thinking_config \<Rightarrow> thinking_support \<Rightarrow> thinking_config" where
  "resolve_auto config s =
     (if cMode config = ModeAuto \<and> \<not> tsDynamicAllowed s then convertAutoToMidRange config s
      else config)"

definition clamp_final ::
  "thinking_config \<Rightarrow> thinking_support \<Rightarrow> model_info option \<Rightarrow> string \<Rightarrow> thinking_config" where
  "clamp_final config s info toFormat =
     (if cMode config = ModeNone \<and> toFormat = ''claude''
      then config\<lparr>cBudget := 0, cLevel := []\<rparr>
      else
        let c = (if cMode config \<in> {ModeBudget, ModeAuto, ModeNone}
                 then config\<lparr>cBudget := clampBudget (cBudget config) info\<rparr> else config)
        in if cMode c = ModeNone \<and> cBudget c > 0 \<and> tsLevels s \<noteq> []
           then c\<lparr>cLevel := hd (tsLevels s)\<rparr> else c)"

definition ValidateConfig ::
  "thinking_config \<Rightarrow> model_info option \<Rightarrow> string \<Rightarrow> string \<Rightarrow> bool \<Rightarrow> thinking_error + thinking_config"
where
  "ValidateConfig config info fromFormat0 toFormat0 fromSuffix =
     (let fromFormat = to_lower (trim_space fromFormat0);
          toFormat = to_lower (trim_space toFormat0);
          model = (case info of
                     None \<Rightarrow> ''unknown''
                   | Some m \<Rightarrow> if miID m \<noteq> '''' then miID m else ''unknown'')
      in case (case info of None \<Rightarrow> None | Some m \<Rightarrow> miThinking m) of
           None \<Rightarrow>
             if cMode config \<noteq> ModeNone then Inl (ThinkingError ErrThinkingNotSupported model)
             else Inr config
         | Some s \<Rightarrow>
             let allowClampUnsupported =
                   (isBudgetBasedProvider fromFormat \<and> isLevelBasedProvider toFormat);
                 strictBudget =
                   (\<not> fromSuffix \<and> fromFormat \<noteq> '''' \<and> isSameProviderFamily fromFormat toFormat)
             in case convert_for_capability config info of
                  Inl e \<Rightarrow> Inl e
                | Inr (c1, budgetDerivedFromLevel) \<Rightarrow>
                    (case check_level (normalize_special c1) s info allowClampUnsupported of
                       Inl e \<Rightarrow> Inl e
                     | Inr c2 \<Rightarrow>
                         (case check_budget c2 s strictBudget budgetDerivedFromLevel of
                            Inl e \<Rightarrow> Inl e
                          | Inr c3 \<Rightarrow> Inr (clamp_final (resolve_auto c3 s) s info toFormat))))"

section \<open>Conversion lemmas\<close>

lemma levelToBudgetMap_cases:
  "map_of levelToBudgetMap l = Some b \<Longrightarrow>
     (l, b) \<in> {(''none'', 0), (''auto'', -1), (''minimal'', 512), (''low'', 1024),
               (''medium'', 8192), (''high'', 24576), (''xhigh'', 32768)}"
  by (drule map_of_SomeD) (simp add: levelToBudgetMap_def)

lemma ConvertLevelToBudget_range:
  "ConvertLevelToBudget l = Some b \<Longrightarrow> b = -1 \<and> to_lower l = ''auto'' \<or> 0 \<le> b"
  unfolding ConvertLevelToBudget_def by (drule levelToBudgetMap_cases) auto

text \<open>
  Converting a named level to a budget and back gives the level, lower-cased: the budgets of the
  table are exactly the upper bounds of the ranges the reverse conversion uses.
\<close>

theorem level_budget_roundtrip:
  assumes "ConvertLevelToBudget level = Some b"
  shows "ConvertBudgetToLevel b = Some (to_lower level)"
  using levelToBudgetMap_cases [OF assms [unfolded ConvertLevelToBudget_def]]
  by (auto simp: ConvertBudgetToLevel_def)

theorem level_budget_roundtrip_witness:
  "ConvertLevelToBudget ''HIGH'' = Some 24576 \<and>
   ConvertBudgetToLevel 24576 = Some (to_lower ''HIGH'') \<and> to_lower ''HIGH'' = ''high''"
proof -
  have h: "ConvertLevelToBudget ''HIGH'' = Some 24576" by code_simp
  have "to_lower ''HIGH'' = ''high''" by code_simp
  with h level_budget_roundtrip [OF h] show ?thesis by simp
qed

section \<open>Clamping to the nearest level\<close>

lemma level_index_from_bounds:
  "level_index_from i l ls = -1 \<or>
   i \<le> level_index_from i l ls \<and> level_index_from i l ls < i + int (length ls)"
proof (induction ls arbitrary: i)
  case (Cons a ls)
  from Cons.IH [of "i + 1"] show ?case by auto
qed simp

lemma level_index_from_nth:
  "0 \<le> i \<Longrightarrow> level_index_from i l ls \<noteq> -1 \<Longrightarrow>
     equal_fold l (ls ! nat (level_index_from i l ls - i))"
proof (induction ls arbitrary: i)
  case (Cons a ls)
  show ?case
  proof (cases "equal_fold l a")
    case False
    with Cons.prems have "equal_fold l (ls ! nat (level_index_from (i + 1) l ls - (i + 1)))"
      by (intro Cons.IH) auto
    moreover have "i + 1 \<le> level_index_from (i + 1) l ls"
      using level_index_from_bounds [of "i + 1" l ls] Cons.prems False by auto
    then have "nat (level_index_from (i + 1) l ls - i) =
        Suc (nat (level_index_from (i + 1) l ls - (i + 1)))" by simp
    ultimately show ?thesis using False by simp
  qed simp
qed simp

lemma levelIndex_bounds: "levelIndex l \<noteq> -1 \<Longrightarrow> 0 \<le> levelIndex l \<and> levelIndex l < 5"
  using level_index_from_bounds [of 0 l standardLevelOrder]
  by (auto simp: levelIndex_def standardLevelOrder_def)

lemma levelIndex_nth: "levelIndex l \<noteq> -1 \<Longrightarrow> equal_fold l (standardLevelOrder ! nat (levelIndex l))"
  using level_index_from_nth [of 0 l standardLevelOrder] by (simp add: levelIndex_def)

lemma level_index_from_cong: "equal_fold l l' \<Longrightarrow> level_index_from i l ls = level_index_from i l' ls"
  by (induction ls arbitrary: i) (auto simp: equal_fold_def)

lemma levelIndex_standard:
  assumes "levelIndex l \<noteq> -1"
  shows "levelIndex (standardLevelOrder ! nat (levelIndex l)) = levelIndex l"
  using level_index_from_cong [OF levelIndex_nth [OF assms], of 0 standardLevelOrder]
  unfolding levelIndex_def by simp

text \<open>The state of the search loop: the best index so far is at minimal distance, ties to the lower.\<close>

definition best_so_far :: "int \<Rightarrow> int \<times> int \<Rightarrow> string list \<Rightarrow> bool" where
  "best_so_far pos best seen \<longleftrightarrow>
     (case best of (bi, bd) \<Rightarrow>
        (bi = -1 \<and> bd = 6 \<and> (\<forall>s \<in> set seen. levelIndex (trim_space s) = -1)) \<or>
        (0 \<le> bi \<and> bd = \<bar>pos - bi\<bar> \<and> (\<exists>s \<in> set seen. levelIndex (trim_space s) = bi) \<and>
         (\<forall>s \<in> set seen. levelIndex (trim_space s) \<noteq> -1 \<longrightarrow>
            bd < \<bar>pos - levelIndex (trim_space s)\<bar> \<or>
            (bd = \<bar>pos - levelIndex (trim_space s)\<bar> \<and> bi \<le> levelIndex (trim_space s)))))"

lemma best_so_far_step:
  assumes pos: "0 \<le> pos" "pos < 5" and best: "best_so_far pos best seen"
  shows "best_so_far pos (clamp_level_step pos best s) (seen @ [s])"
proof -
  obtain bi bd where b: "best = (bi, bd)" by (cases best)
  let ?i = "levelIndex (trim_space s)"
  show ?thesis
  proof (cases "?i = -1")
    case True
    with best b show ?thesis by (auto simp: best_so_far_def clamp_level_step_def)
  next
    case False
    with levelIndex_bounds have i: "0 \<le> ?i" "?i < 5" by auto
    with best b False pos show ?thesis
      by (fastforce simp: best_so_far_def clamp_level_step_def Let_def)
  qed
qed

lemma best_so_far_foldl:
  assumes "0 \<le> pos" "pos < 5" "best_so_far pos best seen"
  shows "best_so_far pos (foldl (clamp_level_step pos) best ss) (seen @ ss)"
  using assms
proof (induction ss arbitrary: best seen)
  case (Cons s ss)
  from Cons.IH [OF Cons.prems(1,2) best_so_far_step [OF Cons.prems]] show ?case by simp
qed simp

lemma clampLevel_search:
  assumes "miThinking m = Some su" "tsLevels su \<noteq> []"
    and "\<not> isLevelSupported level (tsLevels su)" "levelIndex level \<noteq> -1"
    and ex: "\<exists>s \<in> set (tsLevels su). levelIndex (trim_space s) \<noteq> -1"
  obtains bi where "clampLevel level (Some m) = standardLevelOrder ! nat bi"
    and "best_so_far (levelIndex level) (bi, \<bar>levelIndex level - bi\<bar>) (tsLevels su)"
    and "0 \<le> bi"
proof -
  let ?pos = "levelIndex level"
  have "best_so_far ?pos (-1, 6) []" by (simp add: best_so_far_def)
  with levelIndex_bounds assms(4)
  have "best_so_far ?pos (foldl (clamp_level_step ?pos) (-1, 6) (tsLevels su)) ([] @ tsLevels su)"
    by (intro best_so_far_foldl) auto
  moreover obtain bi bd where f: "foldl (clamp_level_step ?pos) (-1, 6) (tsLevels su) = (bi, bd)"
    by fastforce
  ultimately have best: "best_so_far ?pos (bi, bd) (tsLevels su)" by simp
  with ex have "0 \<le> bi" "bd = \<bar>?pos - bi\<bar>" by (auto simp: best_so_far_def)
  moreover have "clampLevel level (Some m) = standardLevelOrder ! nat bi"
    using assms f \<open>0 \<le> bi\<close> by (simp add: clampLevel_def Let_def standardLevelOrder_def)
  ultimately show thesis using best that by blast
qed

text \<open>
  When a standard level is not in the model's list and the list contains some standard level, the
  clamp returns a level of the list, no other one of the list is nearer to the requested level, and of
  two equally near ones it returns the lower.
\<close>

theorem clampLevel_nearest:
  assumes "miThinking m = Some su" "tsLevels su \<noteq> []"
    and "\<not> isLevelSupported level (tsLevels su)" "levelIndex level \<noteq> -1"
    and "\<exists>s \<in> set (tsLevels su). levelIndex (trim_space s) \<noteq> -1"
  shows "isLevelSupported (clampLevel level (Some m)) (tsLevels su) \<and>
    (\<forall>s \<in> set (tsLevels su). levelIndex (trim_space s) \<noteq> -1 \<longrightarrow>
       (let d = \<bar>levelIndex level - levelIndex (clampLevel level (Some m))\<bar>;
            d' = \<bar>levelIndex level - levelIndex (trim_space s)\<bar>
        in d < d' \<or> d = d' \<and> levelIndex (clampLevel level (Some m)) \<le> levelIndex (trim_space s)))"
proof -
  obtain bi where c: "clampLevel level (Some m) = standardLevelOrder ! nat bi"
    and best: "best_so_far (levelIndex level) (bi, \<bar>levelIndex level - bi\<bar>) (tsLevels su)"
    and "0 \<le> bi"
    using clampLevel_search [OF assms] by blast
  from best \<open>0 \<le> bi\<close> obtain s where s: "s \<in> set (tsLevels su)" "levelIndex (trim_space s) = bi"
    by (auto simp: best_so_far_def)
  with \<open>0 \<le> bi\<close> have idx: "levelIndex (standardLevelOrder ! nat bi) = bi"
    using levelIndex_standard [of "trim_space s"] by simp
  have "equal_fold (standardLevelOrder ! nat bi) (trim_space s)"
    using levelIndex_nth [of "trim_space s"] s \<open>0 \<le> bi\<close> by (simp add: equal_fold_sym)
  with s(1) have "isLevelSupported (clampLevel level (Some m)) (tsLevels su)"
    unfolding c isLevelSupported_def list_ex_iff by blast
  with best idx \<open>0 \<le> bi\<close> show ?thesis unfolding c by (auto simp: best_so_far_def Let_def)
qed

definition sample_info :: "thinking_support \<Rightarrow> model_info" where
  "sample_info s =
     \<lparr>miID = ''m'', miObject = ''model'', miCreated = 0, miOwnedBy = '''', miType = '''',
      miDisplayName = '''', miUpstreamModelID = '''', miName = '''', miVersion = '''',
      miDescription = '''', miInputTokenLimit = 0, miOutputTokenLimit = 0,
      miSupportedGenerationMethods = [], miContextLength = 0, miMaxCompletionTokens = 0,
      miSupportedParameters = [], miThinking = Some s, miUserDefined = False\<rparr>"

definition low_high :: thinking_support where
  "low_high = \<lparr>tsMin = 0, tsMax = 0, tsZeroAllowed = False, tsDynamicAllowed = False,
               tsLevels = [''low'', ''high'']\<rparr>"

theorem clampLevel_nearest_witness:
  "isLevelSupported (clampLevel ''medium'' (Some (sample_info low_high))) (tsLevels low_high) \<and>
   clampLevel ''medium'' (Some (sample_info low_high)) = ''low''"
proof -
  have "isLevelSupported (clampLevel ''medium'' (Some (sample_info low_high))) (tsLevels low_high)"
    by (rule clampLevel_nearest [of "sample_info low_high" low_high "''medium''", THEN conjunct1])
      code_simp+
  moreover have "clampLevel ''medium'' (Some (sample_info low_high)) = ''low''" by code_simp
  ultimately show ?thesis by simp
qed

section \<open>What validation guarantees\<close>

lemma midpoint_bounds:
  assumes "0 \<le> a" "a \<le> b" "b < 2 ^ 62"
  shows "a \<le> midpoint a b \<and> midpoint a b \<le> b"
proof -
  have "wrap64 (a + b) = a + b"
    using assms by (intro wrap64_id) (auto simp: minInt64_def maxInt64_def)
  with assms show ?thesis by (auto simp: midpoint_def Let_def)
qed

text \<open>A numeric budget range as the registry defines it.\<close>

definition budget_range_ok :: "thinking_support \<Rightarrow> bool" where
  "budget_range_ok s \<longleftrightarrow> 0 \<le> tsMin s \<and> tsMin s \<le> tsMax s \<and> 0 < tsMax s \<and> tsMax s < 2 ^ 62"

lemma clampBudget_range:
  assumes "miThinking m = Some s" "budget_range_ok s" "v \<noteq> -1" "v \<noteq> 0"
  shows "tsMin s \<le> clampBudget v (Some m) \<and> clampBudget v (Some m) \<le> tsMax s"
  using assms by (auto simp: clampBudget_def budget_range_ok_def)

lemma clamp_final_mode [simp]: "cMode (clamp_final c s info t) = cMode c"
  by (simp add: clamp_final_def Let_def)

lemma clamp_final_budget:
  "cMode c = ModeBudget \<Longrightarrow> cBudget (clamp_final c s info t) = clampBudget (cBudget c) info"
  by (simp add: clamp_final_def Let_def)

lemma clamp_final_level: "cMode c = ModeLevel \<Longrightarrow> clamp_final c s info t = c"
  by (simp add: clamp_final_def Let_def)

lemma resolve_auto_other: "cMode c \<noteq> ModeAuto \<Longrightarrow> resolve_auto c s = c"
  by (simp add: resolve_auto_def)

lemma resolve_auto_auto: "cMode (resolve_auto c s) = ModeAuto \<Longrightarrow> tsDynamicAllowed s"
  by (simp add: resolve_auto_def convertAutoToMidRange_def Let_def split: if_split_asm)

lemma resolve_auto_level:
  "cMode (resolve_auto c s) = ModeLevel \<Longrightarrow>
     cMode c = ModeLevel \<or> \<not> tsDynamicAllowed s \<and> cLevel (resolve_auto c s) = LevelMedium"
  by (simp add: resolve_auto_def convertAutoToMidRange_def Let_def split: if_split_asm)

lemma resolve_auto_budget:
  assumes "budget_range_ok s" "cMode c = ModeAuto" "cMode (resolve_auto c s) = ModeBudget"
  shows "tsMin s \<le> cBudget (resolve_auto c s) \<and> cBudget (resolve_auto c s) \<le> tsMax s"
proof -
  have "tsMin s \<le> midpoint (tsMin s) (tsMax s) \<and> midpoint (tsMin s) (tsMax s) \<le> tsMax s"
    using midpoint_bounds assms(1) by (simp add: budget_range_ok_def)
  with assms show ?thesis
    by (simp add: resolve_auto_def convertAutoToMidRange_def Let_def budget_range_ok_def
        split: if_split_asm)
qed

lemma clampBudget_id:
  assumes "miThinking m = Some s" "budget_range_ok s" "tsMin s \<le> v" "v \<le> tsMax s"
  shows "clampBudget v (Some m) = v"
  using assms by (simp add: clampBudget_def budget_range_ok_def)

lemma final_budget_in_range:
  assumes th: "miThinking m = Some s" and ok: "budget_range_ok s"
    and mode: "cMode (resolve_auto c s) = ModeBudget"
    and b: "cMode c = ModeBudget \<Longrightarrow> cBudget c \<noteq> -1 \<and> cBudget c \<noteq> 0"
  shows "tsMin s \<le> cBudget (clamp_final (resolve_auto c s) s (Some m) t) \<and>
         cBudget (clamp_final (resolve_auto c s) s (Some m) t) \<le> tsMax s"
proof (cases "cMode c = ModeAuto")
  case True
  from resolve_auto_budget [OF ok True mode] clampBudget_id [OF th ok] show ?thesis
    by (simp add: clamp_final_budget [OF mode])
next
  case False
  with mode have "resolve_auto c s = c" "cMode c = ModeBudget"
    using resolve_auto_other by metis+
  with b clampBudget_range [OF th ok] show ?thesis by (simp add: clamp_final_budget)
qed

lemma check_level_Inr:
  "check_level c s info a = Inr c' \<Longrightarrow>
     cMode c' = cMode c \<and> cBudget c' = cBudget c \<and>
     (cMode c = ModeLevel \<longrightarrow> tsLevels s \<noteq> [] \<longrightarrow> isLevelSupported (cLevel c') (tsLevels s))"
  by (cases "cMode c") (auto simp: check_level_def Let_def split: if_split_asm)

lemma check_budget_Inr: "check_budget c s st d = Inr c' \<Longrightarrow> c' = c"
  by (auto simp: check_budget_def split: if_splits)

lemma normalize_special_budget:
  "cMode (normalize_special c) = ModeBudget \<Longrightarrow>
     cMode c = ModeBudget \<and> cBudget (normalize_special c) = cBudget c \<and> cBudget c \<noteq> 0"
  by (cases "cMode c") (simp_all add: normalize_special_def Let_def split: if_split_asm)

lemma ValidateConfig_stages:
  assumes "ValidateConfig config (Some m) f t x = Inr c" "miThinking m = Some s"
  obtains c1 d c2 a where "convert_for_capability config (Some m) = Inr (c1, d)"
    and "check_level (normalize_special c1) s (Some m) a = Inr c2"
    and "c = clamp_final (resolve_auto c2 s) s (Some m) (to_lower (trim_space t))"
  using assms
  by (auto simp: ValidateConfig_def Let_def dest!: check_budget_Inr
      split: sum.splits prod.splits if_splits)

lemma convert_for_capability_budget:
  assumes "convert_for_capability config info = Inr (c1, d)" "cMode c1 = ModeBudget"
    and "cMode config = ModeBudget \<Longrightarrow> cBudget config \<noteq> -1"
    and "to_lower (cLevel config) = ''auto'' \<Longrightarrow> cLevel config = ''auto''"
  shows "cBudget c1 \<noteq> -1"
  using assms ConvertLevelToBudget_range [of "cLevel config"]
  by (auto simp: convert_for_capability_def split: capability.splits if_splits option.splits)

lemma validated_budget_in_range:
  assumes "ValidateConfig config (Some m) f t x = Inr c" "miThinking m = Some s"
    and "budget_range_ok s" "cMode c = ModeBudget"
    and "cMode config = ModeBudget \<Longrightarrow> cBudget config \<noteq> -1"
    and "to_lower (cLevel config) = ''auto'' \<Longrightarrow> cLevel config = ''auto''"
  shows "tsMin s \<le> cBudget c \<and> cBudget c \<le> tsMax s"
proof -
  obtain c1 d c2 a where st: "convert_for_capability config (Some m) = Inr (c1, d)"
    "check_level (normalize_special c1) s (Some m) a = Inr c2"
    "c = clamp_final (resolve_auto c2 s) s (Some m) (to_lower (trim_space t))"
    by (rule ValidateConfig_stages [OF assms(1,2)])
  have "cBudget c2 \<noteq> -1 \<and> cBudget c2 \<noteq> 0" if "cMode c2 = ModeBudget"
  proof -
    have c2: "cMode (normalize_special c1) = ModeBudget" "cBudget c2 = cBudget (normalize_special c1)"
      using check_level_Inr [OF st(2)] that by auto
    with normalize_special_budget [OF c2(1)]
      convert_for_capability_budget [OF st(1) _ assms(5,6)]
    show ?thesis by simp
  qed
  with final_budget_in_range [OF assms(2,3)] assms(4) st(3) show ?thesis by simp
qed

text \<open>
  Whenever validation accepts a configuration for a model with a numeric range, a resulting
  budget lies in that range, whatever budget, level or suffix the request named; the request must not
  carry the pseudo-budget -1 in budget mode and must spell the level \<^verbatim>\<open>auto\<close> in lower case.
\<close>

theorem ValidateConfig_budget_in_range:
  assumes "ValidateConfig config (Some m) f t x = Inr c" "miThinking m = Some s"
    and "budget_range_ok s" "cMode c = ModeBudget"
    and "cMode config = ModeBudget \<Longrightarrow> cBudget config \<noteq> -1"
    and "to_lower (cLevel config) = ''auto'' \<Longrightarrow> cLevel config = ''auto''"
  shows "tsMin s \<le> cBudget c \<and> cBudget c \<le> tsMax s"
  by (rule validated_budget_in_range [OF assms])

definition gemini_range :: thinking_support where
  "gemini_range = \<lparr>tsMin = 128, tsMax = 32768, tsZeroAllowed = False, tsDynamicAllowed = True,
                   tsLevels = []\<rparr>"

theorem ValidateConfig_budget_in_range_witness:
  "ValidateConfig \<lparr>cMode = ModeBudget, cBudget = 100000, cLevel = ''''\<rparr>
      (Some (sample_info gemini_range)) ''openai'' ''gemini'' False =
      Inr \<lparr>cMode = ModeBudget, cBudget = 32768, cLevel = ''''\<rparr> \<and>
   tsMin gemini_range \<le> 32768 \<and> (32768 :: int) \<le> tsMax gemini_range"
proof -
  let ?c = "\<lparr>cMode = ModeBudget, cBudget = 32768, cLevel = ''''\<rparr>"
  have v: "ValidateConfig \<lparr>cMode = ModeBudget, cBudget = 100000, cLevel = ''''\<rparr>
      (Some (sample_info gemini_range)) ''openai'' ''gemini'' False = Inr ?c"
    by code_simp
  have "tsMin gemini_range \<le> cBudget ?c \<and> cBudget ?c \<le> tsMax gemini_range"
    by (rule ValidateConfig_budget_in_range [OF v])
      (simp_all add: sample_info_def gemini_range_def budget_range_ok_def)
  with v show ?thesis by simp
qed

text \<open>
  The lower-case proviso is needed: with \<^verbatim>\<open>AUTO\<close> a model whose range excludes dynamic thinking is
  sent the budget -1, although level names are matched without regard to case and the spelling
  \<^verbatim>\<open>auto\<close> is turned into the middle of the range.
\<close>

theorem ValidateConfig_upper_case_auto:
  "ValidateConfig \<lparr>cMode = ModeLevel, cBudget = 0, cLevel = ''AUTO''\<rparr>
      (Some (sample_info (gemini_range\<lparr>tsDynamicAllowed := False\<rparr>))) ''gemini'' ''gemini'' False =
      Inr \<lparr>cMode = ModeBudget, cBudget = -1, cLevel = ''''\<rparr> \<and>
   ValidateConfig \<lparr>cMode = ModeLevel, cBudget = 0, cLevel = ''auto''\<rparr>
      (Some (sample_info (gemini_range\<lparr>tsDynamicAllowed := False\<rparr>))) ''gemini'' ''gemini'' False =
      Inr \<lparr>cMode = ModeBudget, cBudget = 16448, cLevel = ''''\<rparr>"
  by code_simp

text \<open>
  Validation never leaves automatic thinking switched on for a model that does not allow it, and a
  level it leaves is one the model lists, except for the level \<^verbatim>\<open>medium\<close> that stands in for
  automatic thinking.
\<close>

theorem ValidateConfig_auto_and_level:
  assumes "ValidateConfig config (Some m) f t x = Inr c" "miThinking m = Some s"
  shows "(cMode c = ModeAuto \<longrightarrow> tsDynamicAllowed s) \<and>
    (cMode c = ModeLevel \<longrightarrow> tsLevels s \<noteq> [] \<longrightarrow>
       isLevelSupported (cLevel c) (tsLevels s) \<or>
       (cLevel c = LevelMedium \<and> \<not> tsDynamicAllowed s))"
proof -
  obtain c1 d c2 a where "convert_for_capability config (Some m) = Inr (c1, d)"
    and st: "check_level (normalize_special c1) s (Some m) a = Inr c2"
    "c = clamp_final (resolve_auto c2 s) s (Some m) (to_lower (trim_space t))"
    by (rule ValidateConfig_stages [OF assms])
  let ?r = "resolve_auto c2 s"
  have "cMode c = cMode ?r" and "cMode ?r = ModeLevel \<Longrightarrow> cLevel c = cLevel ?r"
    using st(2) by (simp_all add: clamp_final_level)
  moreover have "cMode c2 = ModeLevel \<Longrightarrow> ?r = c2" by (simp add: resolve_auto_other)
  ultimately show ?thesis
    using check_level_Inr [OF st(1)] resolve_auto_auto [of c2 s] resolve_auto_level [of c2 s]
    by metis
qed

theorem ValidateConfig_auto_and_level_witness:
  "ValidateConfig \<lparr>cMode = ModeBudget, cBudget = 6000, cLevel = ''''\<rparr>
      (Some (sample_info low_high)) ''gemini'' ''openai'' False =
      Inr \<lparr>cMode = ModeLevel, cBudget = 0, cLevel = ''low''\<rparr> \<and>
   (isLevelSupported ''low'' (tsLevels low_high) \<or> ''low'' = LevelMedium \<and> \<not> tsDynamicAllowed low_high)"
proof -
  let ?c = "\<lparr>cMode = ModeLevel, cBudget = 0, cLevel = ''low''\<rparr>"
  have v: "ValidateConfig \<lparr>cMode = ModeBudget, cBudget = 6000, cLevel = ''''\<rparr>
      (Some (sample_info low_high)) ''gemini'' ''openai'' False = Inr ?c"
    by code_simp
  have th: "miThinking (sample_info low_high) = Some low_high" by (simp add: sample_info_def)
  have ne: "tsLevels low_high \<noteq> []" by (simp add: low_high_def)
  from ValidateConfig_auto_and_level [OF v th] v ne show ?thesis by simp
qed

text \<open>
  The exception is real: for a level-only model that lists neither \<^verbatim>\<open>medium\<close> nor allows dynamic
  thinking, an automatic request validates to the unsupported level \<^verbatim>\<open>medium\<close>.
\<close>

theorem ValidateConfig_auto_unsupported_medium:
  "ValidateConfig \<lparr>cMode = ModeAuto, cBudget = -1, cLevel = ''''\<rparr>
      (Some (sample_info low_high)) ''openai'' ''openai'' False =
      Inr \<lparr>cMode = ModeLevel, cBudget = 0, cLevel = ''medium''\<rparr> \<and>
   \<not> isLevelSupported ''medium'' (tsLevels low_high)"
  by code_simp

end
