(* ===== verification/Thinking_Apply.thy ===== *)
theory Thinking_Apply
  imports Thinking_Config
begin

text \<open>
  Reading a thinking configuration from a request body or a model name, stripping it, and the entry
  point \<open>ApplyThinking\<close>: \<^verbatim>\<open>src/internal/thinking/apply.go\<close>, \<^verbatim>\<open>strip.go\<close> and \<^verbatim>\<open>level.go\<close>.

  The request body has an arbitrary type \<open>'b\<close>.  What the code gets from the JSON libraries is a
  parameter: \<open>jget body path\<close> is \<^verbatim>\<open>gjson.GetBytes\<close>, \<^term>\<open>None\<close> where \<^verbatim>\<open>Exists()\<close> is false and
  otherwise the three readings the code makes of a result; \<open>jvalid\<close> is
  \<^verbatim>\<open>len(body) != 0 && gjson.ValidBytes(body)\<close>; \<open>jdel body path\<close> is \<^verbatim>\<open>sjson.DeleteBytes\<close>.
  The table of provider appliers, filled by \<^verbatim>\<open>RegisterProvider\<close>, is the parameter \<open>appliers\<close>, and
  \<^verbatim>\<open>registry.LookupModelInfo\<close> is \<open>lookup\<close>.
\<close>

record json_value =
  jString :: string
  jInt :: int
  jBool :: bool

type_synonym 'b getter = "'b \<Rightarrow> string \<Rightarrow> json_value option"
type_synonym 'b applier = "'b \<Rightarrow> thinking_config \<Rightarrow> model_info option \<Rightarrow> 'b \<times> thinking_error option"

section \<open>Extraction\<close>

definition hasThinkingConfig :: "thinking_config \<Rightarrow> bool" where
  "hasThinkingConfig c \<longleftrightarrow> cMode c \<noteq> ModeBudget \<or> cBudget c \<noteq> 0 \<or> cLevel c \<noteq> ''''"

definition noneConfig :: thinking_config where
  "noneConfig = \<lparr>cMode = ModeNone, cBudget = 0, cLevel = ''''\<rparr>"

definition autoConfig :: thinking_config where
  "autoConfig = \<lparr>cMode = ModeAuto, cBudget = -1, cLevel = ''''\<rparr>"

definition budgetConfig :: "int \<Rightarrow> thinking_config" where
  "budgetConfig v =
     (if v = 0 then noneConfig else if v = -1 then autoConfig
      else \<lparr>cMode = ModeBudget, cBudget = v, cLevel = ''''\<rparr>)"

definition levelConfig :: "string \<Rightarrow> thinking_config" where
  "levelConfig l = \<lparr>cMode = ModeLevel, cBudget = 0, cLevel = l\<rparr>"

definition extractClaudeConfig :: "'b getter \<Rightarrow> 'b \<Rightarrow> thinking_config" where
  "extractClaudeConfig jget body =
     (let thinkingType = (case jget body ''thinking.type'' of None \<Rightarrow> '''' | Some v \<Rightarrow> jString v)
      in if thinkingType = ''disabled'' then noneConfig
         else (case jget body ''thinking.budget_tokens'' of
                 Some v \<Rightarrow> budgetConfig (jInt v)
               | None \<Rightarrow> if thinkingType = ''enabled'' then autoConfig else emptyConfig))"

definition first_of :: "'a option \<Rightarrow> 'a option \<Rightarrow> 'a option" where
  "first_of a b = (case a of None \<Rightarrow> b | Some x \<Rightarrow> Some x)"

definition extractGeminiConfig :: "'b getter \<Rightarrow> 'b \<Rightarrow> string \<Rightarrow> thinking_config" where
  "extractGeminiConfig jget body provider =
     (let p = (if provider = ''gemini-cli'' \<or> provider = ''antigravity''
               then ''request.generationConfig.thinkingConfig''
               else ''generationConfig.thinkingConfig'')
      in case first_of (jget body (p @ ''.thinkingLevel'')) (jget body (p @ ''.thinking_level'')) of
           Some v \<Rightarrow>
             if jString v = ''none'' then noneConfig
             else if jString v = ''auto'' then autoConfig
             else levelConfig (jString v)
         | None \<Rightarrow>
             (case first_of (jget body (p @ ''.thinkingBudget'')) (jget body (p @ ''.thinking_budget'')) of
                Some v \<Rightarrow> budgetConfig (jInt v)
              | None \<Rightarrow> emptyConfig))"

definition extractEffort :: "'b getter \<Rightarrow> 'b \<Rightarrow> string \<Rightarrow> thinking_config" where
  "extractEffort jget body path =
     (case jget body path of
        Some v \<Rightarrow> if jString v = ''none'' then noneConfig else levelConfig (jString v)
      | None \<Rightarrow> emptyConfig)"

definition extractOpenAIConfig :: "'b getter \<Rightarrow> 'b \<Rightarrow> thinking_config" where
  "extractOpenAIConfig jget body = extractEffort jget body ''reasoning_effort''"

definition extractCodexConfig :: "'b getter \<Rightarrow> 'b \<Rightarrow> thinking_config" where
  "extractCodexConfig jget body = extractEffort jget body ''reasoning.effort''"

definition extractIFlowConfig :: "'b getter \<Rightarrow> 'b \<Rightarrow> thinking_config" where
  "extractIFlowConfig jget body =
     (case jget body ''chat_template_kwargs.enable_thinking'' of
        Some v \<Rightarrow> if jBool v then \<lparr>cMode = ModeBudget, cBudget = 1, cLevel = ''''\<rparr> else noneConfig
      | None \<Rightarrow>
          (case jget body ''reasoning_split'' of
             Some v \<Rightarrow> if jBool v then \<lparr>cMode = ModeBudget, cBudget = 1, cLevel = ''''\<rparr> else noneConfig
           | None \<Rightarrow> emptyConfig))"

definition extractThinkingConfig ::
  "'b getter \<Rightarrow> ('b \<Rightarrow> bool) \<Rightarrow> 'b \<Rightarrow> string \<Rightarrow> thinking_config" where
  "extractThinkingConfig jget jvalid body provider =
     (if \<not> jvalid body then emptyConfig
      else if provider = ''claude'' then extractClaudeConfig jget body
      else if provider \<in> set [''gemini'', ''gemini-cli'', ''antigravity'']
        then extractGeminiConfig jget body provider
      else if provider = ''openai'' then extractOpenAIConfig jget body
      else if provider \<in> set [''codex'', ''xai'', ''openai-response''] then extractCodexConfig jget body
      else if provider = ''iflow'' then
        (let config = extractIFlowConfig jget body
         in if hasThinkingConfig config then config else extractOpenAIConfig jget body)
      else if provider = ''kimi'' then extractOpenAIConfig jget body
      else emptyConfig)"

definition parseSuffixToConfig :: "string \<Rightarrow> thinking_config" where
  "parseSuffixToConfig raw =
     (case ParseSpecialSuffix raw of
        Some ModeNone \<Rightarrow> noneConfig
      | Some ModeAuto \<Rightarrow> autoConfig
      | _ \<Rightarrow>
          (case ParseLevelSuffix raw of
             Some level \<Rightarrow> levelConfig level
           | None \<Rightarrow>
               (case ParseNumericSuffix raw of
                  Some b \<Rightarrow> if b = 0 then noneConfig
                            else \<lparr>cMode = ModeBudget, cBudget = b, cLevel = ''''\<rparr>
                | None \<Rightarrow> emptyConfig)))"

section \<open>Stripping\<close>

definition strip_paths :: "string \<Rightarrow> string list" where
  "strip_paths provider =
     (if provider = ''claude'' then [''thinking'']
      else if provider = ''gemini'' then [''generationConfig.thinkingConfig'']
      else if provider \<in> set [''gemini-cli'', ''antigravity'']
        then [''request.generationConfig.thinkingConfig'']
      else if provider = ''openai'' then [''reasoning_effort'']
      else if provider \<in> set [''codex'', ''xai''] then [''reasoning.effort'']
      else if provider = ''iflow'' then
        [''chat_template_kwargs.enable_thinking'', ''chat_template_kwargs.clear_thinking'',
         ''reasoning_split'', ''reasoning_effort'']
      else [])"

definition StripThinkingConfig ::
  "('b \<Rightarrow> bool) \<Rightarrow> ('b \<Rightarrow> string \<Rightarrow> 'b) \<Rightarrow> 'b \<Rightarrow> string \<Rightarrow> 'b" where
  "StripThinkingConfig jvalid jdel body provider =
     (if \<not> jvalid body then body else foldl jdel body (strip_paths provider))"

section \<open>Application\<close>

definition normalizeUserDefinedConfig :: "thinking_config \<Rightarrow> string \<Rightarrow> string \<Rightarrow> thinking_config" where
  "normalizeUserDefinedConfig config fromFormat toFormat =
     (if cMode config \<noteq> ModeLevel then config
      else if \<not> isBudgetBasedProvider toFormat \<or> \<not> isLevelBasedProvider fromFormat then config
      else (case ConvertLevelToBudget (cLevel config) of
              None \<Rightarrow> config
            | Some b \<Rightarrow> config\<lparr>cMode := ModeBudget, cBudget := b, cLevel := ''''\<rparr>))"

definition IsUserDefinedModel :: "model_info option \<Rightarrow> bool" where
  "IsUserDefinedModel info = (case info of None \<Rightarrow> True | Some m \<Rightarrow> miUserDefined m)"

definition applyUserDefinedModel ::
  "'b getter \<Rightarrow> ('b \<Rightarrow> bool) \<Rightarrow> (string \<Rightarrow> 'b applier option) \<Rightarrow> 'b \<Rightarrow> model_info option \<Rightarrow>
   string \<Rightarrow> string \<Rightarrow> suffix_result \<Rightarrow> 'b \<times> thinking_error option" where
  "applyUserDefinedModel jget jvalid appliers body info fromFormat toFormat suf =
     (let config = (if HasSuffix suf then parseSuffixToConfig (RawSuffix suf)
                    else extractThinkingConfig jget jvalid body toFormat)
      in if \<not> hasThinkingConfig config then (body, None)
         else (case appliers toFormat of
                 None \<Rightarrow> (body, None)
               | Some app \<Rightarrow> app body (normalizeUserDefinedConfig config fromFormat toFormat) info))"

definition ApplyThinking ::
  "'b getter \<Rightarrow> ('b \<Rightarrow> bool) \<Rightarrow> ('b \<Rightarrow> string \<Rightarrow> 'b) \<Rightarrow> (string \<Rightarrow> 'b applier option) \<Rightarrow>
   (string \<Rightarrow> string \<Rightarrow> model_info option) \<Rightarrow> 'b \<Rightarrow> string \<Rightarrow> string \<Rightarrow> string \<Rightarrow> string \<Rightarrow>
   'b \<times> thinking_error option" where
  "ApplyThinking jget jvalid jdel appliers lookup body model fromFormat0 toFormat0 providerKey0 =
     (let providerFormat = to_lower (trim_space toFormat0);
          key0 = to_lower (trim_space providerKey0);
          providerKey = (if key0 = '''' then providerFormat else key0);
          from0 = to_lower (trim_space fromFormat0);
          fromFormat = (if from0 = '''' then providerFormat else from0)
      in case appliers providerFormat of
           None \<Rightarrow> (body, None)
         | Some app \<Rightarrow>
             let suf = ParseSuffix model;
                 info = lookup (ModelName suf) providerKey
             in if IsUserDefinedModel info
                then applyUserDefinedModel jget jvalid appliers body info fromFormat providerFormat suf
                else (case (case info of None \<Rightarrow> None | Some m \<Rightarrow> miThinking m) of
                        None \<Rightarrow>
                          if hasThinkingConfig (extractThinkingConfig jget jvalid body providerFormat)
                          then (StripThinkingConfig jvalid jdel body providerFormat, None)
                          else (body, None)
                      | Some s \<Rightarrow>
                          let config = (if HasSuffix suf then parseSuffixToConfig (RawSuffix suf)
                                        else extractThinkingConfig jget jvalid body providerFormat)
                          in if \<not> hasThinkingConfig config then (body, None)
                             else (case ValidateConfig config info fromFormat providerFormat
                                          (HasSuffix suf) of
                                     Inl e \<Rightarrow> (body, Some e)
                                   | Inr validated \<Rightarrow> app body validated info)))"

definition ExtractThinkingLevel :: "'b getter \<Rightarrow> ('b \<Rightarrow> bool) \<Rightarrow> 'b \<Rightarrow> string \<Rightarrow> string" where
  "ExtractThinkingLevel jget jvalid body format =
     (let config = extractThinkingConfig jget jvalid body (to_lower (trim_space format))
      in if \<not> hasThinkingConfig config then ''''
         else (case cMode config of
                 ModeNone \<Rightarrow> LevelNone
               | ModeAuto \<Rightarrow> LevelAuto
               | ModeLevel \<Rightarrow> trim_space (cLevel config)
               | ModeBudget \<Rightarrow> itoa (cBudget config)))"

section \<open>Configurations the pipeline reads are well formed\<close>

text \<open>What \<^verbatim>\<open>ThinkingConfig\<close>'s documentation demands, and validation relies on.\<close>

definition config_wf :: "thinking_config \<Rightarrow> bool" where
  "config_wf c \<longleftrightarrow>
     (cMode c = ModeBudget \<longrightarrow> cBudget c \<noteq> -1) \<and>
     (to_lower (cLevel c) = ''auto'' \<longrightarrow> cLevel c = ''auto'')"

lemma ParseLevelSuffix_not_auto: "ParseLevelSuffix r = Some l \<Longrightarrow> to_lower l \<noteq> ''auto''"
proof -
  assume "ParseLevelSuffix r = Some l"
  then have "l \<in> set [''minimal'', ''low'', ''medium'', ''high'', ''xhigh'', ''max'']"
    by (simp add: ParseLevelSuffix_def Let_def split: if_split_asm)
  moreover have "list_all (\<lambda>x. to_lower x \<noteq> ''auto'')
      [''minimal'', ''low'', ''medium'', ''high'', ''xhigh'', ''max'']" by code_simp
  ultimately show ?thesis by (auto simp only: list_all_iff)
qed

lemma ParseNumericSuffix_nonneg: "ParseNumericSuffix r = Some b \<Longrightarrow> 0 \<le> b"
  by (simp add: ParseNumericSuffix_def split: if_split_asm option.split_asm)

lemmas config_constants =
  emptyConfig_def noneConfig_def autoConfig_def budgetConfig_def levelConfig_def

lemma parseSuffixToConfig_wf: "config_wf (parseSuffixToConfig raw)"
  by (auto simp: parseSuffixToConfig_def config_wf_def config_constants
      dest: ParseLevelSuffix_not_auto ParseNumericSuffix_nonneg
      split: option.split thinking_mode.split)

text \<open>
  C40: End to end, for a model name with a thinking suffix. For a model the registry knows, that is not user-defined and has a numeric
  range, the provider applier is never asked to write a budget outside the range: replacing it by any other applier that
  agrees with it on in-range configurations changes nothing, whatever the request body says. For a user-defined or
  unknown model the range plays no part, as documented: the applier is given the configuration of the suffix as it is, except that a
  level is turned into its budget between a format of levels and one of budgets.
\<close>

theorem ApplyThinking_suffix_in_range:
  assumes suf: "HasSuffix (ParseSuffix model)"
    and info: "\<And>k. lookup (ModelName (ParseSuffix model)) k = info"
    and app: "appliers (to_lower (trim_space toF)) = Some f"
  shows "(info = Some m \<and> \<not> miUserDefined m \<and> miThinking m = Some s \<and> budget_range_ok s \<and>
      appliers' (to_lower (trim_space toF)) = Some f' \<and>
      (\<forall>c. (cMode c = ModeBudget \<longrightarrow> tsMin s \<le> cBudget c \<and> cBudget c \<le> tsMax s) \<longrightarrow> f body c info = f' body c info) \<longrightarrow>
        ApplyThinking jget jvalid jdel appliers lookup body model fromF toF key =
        ApplyThinking jget jvalid jdel appliers' lookup body model fromF toF key) \<and>
    (info = None \<or> info = Some m \<and> miUserDefined m \<longrightarrow>
        ApplyThinking jget jvalid jdel appliers lookup body model fromF toF key =
        (let c = parseSuffixToConfig (RawSuffix (ParseSuffix model));
             to = to_lower (trim_space toF);
             from = (if to_lower (trim_space fromF) = '''' then to else to_lower (trim_space fromF))
         in if hasThinkingConfig c then f body (normalizeUserDefinedConfig c from to) info else (body, None)))"
proof (intro conjI impI; (elim conjE)?)
  let ?c = "parseSuffixToConfig (RawSuffix (ParseSuffix model))"
  assume m: "info = Some m" "\<not> miUserDefined m" "miThinking m = Some s" "budget_range_ok s"
    and app': "appliers' (to_lower (trim_space toF)) = Some f'"
    and agree: "\<forall>c. (cMode c = ModeBudget \<longrightarrow> tsMin s \<le> cBudget c \<and> cBudget c \<le> tsMax s) \<longrightarrow> f body c info = f' body c info"
  have wf: "config_wf ?c" by (rule parseSuffixToConfig_wf)
  have "f body v info = f' body v info" if "ValidateConfig ?c info ff tf x = Inr v" for ff tf x v
    using validated_budget_in_range [OF that [unfolded m(1)] m(3,4)] wf
    by (intro agree [rule_format]) (simp add: config_wf_def)
  then show "ApplyThinking jget jvalid jdel appliers lookup body model fromF toF key =
      ApplyThinking jget jvalid jdel appliers' lookup body model fromF toF key"
    using suf info m(1-3) app app'
    by (simp add: ApplyThinking_def Let_def IsUserDefinedModel_def split: sum.split)
next
  assume "info = None \<or> info = Some m \<and> miUserDefined m"
  then have "IsUserDefinedModel info" by (auto simp: IsUserDefinedModel_def)
  then show "ApplyThinking jget jvalid jdel appliers lookup body model fromF toF key =
      (let c = parseSuffixToConfig (RawSuffix (ParseSuffix model)); to = to_lower (trim_space toF);
           from = (if to_lower (trim_space fromF) = '''' then to else to_lower (trim_space fromF))
       in if hasThinkingConfig c then f body (normalizeUserDefinedConfig c from to) info else (body, None))"
    using suf info app by (simp add: ApplyThinking_def applyUserDefinedModel_def Let_def)
qed

text \<open>A table of paths, as a request body for the evaluations below.\<close>

type_synonym path_table = "(string \<times> json_value) list"

definition table_get :: "path_table getter" where
  "table_get = map_of"

definition table_del :: "path_table \<Rightarrow> string \<Rightarrow> path_table" where
  "table_del b p = filter (\<lambda>(q, _). \<not> (q = p \<or> prefix (p @ ''.'') q)) b"

definition record_budget :: "path_table applier" where
  "record_budget b c info =
     ((''budget'', \<lparr>jString = cLevel c, jInt = cBudget c, jBool = False\<rparr>) # b, None)"

definition record_clamped :: "path_table applier" where
  "record_clamped b c info =
     (if cMode c = ModeBudget \<and> \<not> (128 \<le> cBudget c \<and> cBudget c \<le> 32768) then (b, None)
      else record_budget b c info)"

text \<open>Once for a registered model, whose range cuts the budget, and once for the same model made user-defined.\<close>

theorem ApplyThinking_suffix_in_range_witness:
  "ApplyThinking table_get (\<lambda>_. True) table_del (\<lambda>_. Some record_budget)
      (\<lambda>_ _. Some (sample_info gemini_range)) [] ''m(100000)'' ''openai'' ''gemini'' '''' =
      ([(''budget'', \<lparr>jString = '''', jInt = 32768, jBool = False\<rparr>)], None) \<and>
   ApplyThinking table_get (\<lambda>_. True) table_del (\<lambda>_. Some record_clamped)
      (\<lambda>_ _. Some (sample_info gemini_range)) [] ''m(100000)'' ''openai'' ''gemini'' '''' =
      ([(''budget'', \<lparr>jString = '''', jInt = 32768, jBool = False\<rparr>)], None) \<and>
   ApplyThinking table_get (\<lambda>_. True) table_del (\<lambda>_. Some record_budget)
      (\<lambda>_ _. Some ((sample_info gemini_range)\<lparr>miUserDefined := True\<rparr>)) [] ''m(100000)'' ''openai'' ''gemini'' '''' =
      ([(''budget'', \<lparr>jString = '''', jInt = 100000, jBool = False\<rparr>)], None)"
proof -
  let ?m = "sample_info gemini_range"
  let ?run = "\<lambda>app m. ApplyThinking table_get (\<lambda>_. True) table_del (\<lambda>_. Some app) (\<lambda>_ _. Some m) [] ''m(100000)'' ''openai'' ''gemini'' ''''"
  have suf: "HasSuffix (ParseSuffix ''m(100000)'')" by code_simp
  have "\<forall>c. (cMode c = ModeBudget \<longrightarrow> tsMin gemini_range \<le> cBudget c \<and> cBudget c \<le> tsMax gemini_range) \<longrightarrow>
      record_budget [] c (Some ?m) = record_clamped [] c (Some ?m)"
    by (auto simp: gemini_range_def record_clamped_def)
  moreover have "\<not> miUserDefined ?m" "miThinking ?m = Some gemini_range" "budget_range_ok gemini_range" by code_simp+
  ultimately have "?run record_budget ?m = ?run record_clamped ?m"
    using ApplyThinking_suffix_in_range [OF suf, of "\<lambda>_ _. Some ?m" "Some ?m" "\<lambda>_. Some record_budget" "''gemini''" record_budget ?m gemini_range
        "\<lambda>_. Some record_clamped" record_clamped "[]" table_get "\<lambda>_. True" table_del "''openai''" "''''"]
    by blast
  moreover have "?run record_budget ?m = ([(''budget'', \<lparr>jString = '''', jInt = 32768, jBool = False\<rparr>)], None)"
    by code_simp
  moreover have "parseSuffixToConfig (RawSuffix (ParseSuffix ''m(100000)'')) = budgetConfig 100000"
    "hasThinkingConfig (budgetConfig 100000)" "normalizeUserDefinedConfig (budgetConfig 100000) ''openai'' ''gemini'' = budgetConfig 100000"
    "to_lower (trim_space ''gemini'') = ''gemini''" "to_lower (trim_space ''openai'') = ''openai''"
    "record_budget [] (budgetConfig 100000) info = ([(''budget'', \<lparr>jString = '''', jInt = 100000, jBool = False\<rparr>)], None)" for info
    by code_simp+
  then have "?run record_budget (?m\<lparr>miUserDefined := True\<rparr>) = ([(''budget'', \<lparr>jString = '''', jInt = 100000, jBool = False\<rparr>)], None)"
    using ApplyThinking_suffix_in_range [OF suf, of "\<lambda>_ _. Some (?m\<lparr>miUserDefined := True\<rparr>)" "Some (?m\<lparr>miUserDefined := True\<rparr>)"
        "\<lambda>_. Some record_budget" "''gemini''" record_budget "?m\<lparr>miUserDefined := True\<rparr>" gemini_range "\<lambda>_. None" record_budget "[]"
        table_get "\<lambda>_. True" table_del "''openai''" "''''"]
    by (simp add: Let_def)
  ultimately show ?thesis by simp
qed

section \<open>Stripping removes what extraction reads\<close>

definition strippable :: "string list" where
  "strippable = [''claude'', ''gemini'', ''gemini-cli'', ''antigravity'', ''openai'', ''codex'', ''xai'', ''iflow'']"

text \<open>The paths extraction looks at.\<close>

definition read_paths :: "string \<Rightarrow> string list" where
  "read_paths provider =
     (if provider = ''claude'' then [''thinking.type'', ''thinking.budget_tokens'']
      else if provider \<in> set [''gemini'', ''gemini-cli'', ''antigravity''] then
        (let p = (if provider = ''gemini'' then ''generationConfig.thinkingConfig''
                  else ''request.generationConfig.thinkingConfig'')
         in map (\<lambda>k. p @ k)
              [''.thinkingLevel'', ''.thinking_level'', ''.thinkingBudget'', ''.thinking_budget''])
      else if provider \<in> set [''openai'', ''kimi''] then [''reasoning_effort'']
      else if provider \<in> set [''codex'', ''xai'', ''openai-response''] then [''reasoning.effort'']
      else if provider = ''iflow'' then
        [''chat_template_kwargs.enable_thinking'', ''reasoning_split'', ''reasoning_effort'']
      else [])"

lemma no_read_no_config:
  assumes absent: "\<And>q. q \<in> set (read_paths provider) \<Longrightarrow> jget b q = None"
  shows "\<not> hasThinkingConfig (extractThinkingConfig jget jvalid b provider)"
proof -
  have "extractThinkingConfig jget jvalid b provider = emptyConfig"
    using absent
    by (simp add: extractThinkingConfig_def read_paths_def Let_def extractClaudeConfig_def
        extractGeminiConfig_def extractOpenAIConfig_def extractCodexConfig_def extractIFlowConfig_def
        extractEffort_def first_of_def)
  then show ?thesis by (simp add: hasThinkingConfig_def emptyConfig_def)
qed

lemma foldl_del_absent:
  assumes keep: "\<And>b p q. jget b q = None \<Longrightarrow> jget (jdel b p) q = None"
    and del: "\<And>b p q. q = p \<or> prefix (p @ ''.'') q \<Longrightarrow> jget (jdel b p) q = None"
    and "p \<in> set ps" "q = p \<or> prefix (p @ ''.'') q"
  shows "jget (foldl jdel b ps) q = None"
proof -
  have stay: "jget b q = None \<Longrightarrow> jget (foldl jdel b ps) q = None" for b ps
    by (induction ps arbitrary: b) (simp_all add: keep)
  from assms(3) show ?thesis
  proof (induction ps arbitrary: b)
    case (Cons a ps)
    then show ?case using stay [OF del [OF assms(4)]] by auto
  qed simp
qed

text \<open>
  After \<^verbatim>\<open>StripThinkingConfig\<close> no thinking configuration is left for the same provider to read, for
  every provider the stripper names, provided deleting a path removes it with everything below it and
  brings nothing back.
\<close>

theorem StripThinkingConfig_complete:
  assumes del: "\<And>b p q. q = p \<or> prefix (p @ ''.'') q \<Longrightarrow> jget (jdel b p) q = None"
    and keep: "\<And>b p q. jget b q = None \<Longrightarrow> jget (jdel b p) q = None"
    and "provider \<in> set strippable" "jvalid body"
  shows "\<not> hasThinkingConfig
           (extractThinkingConfig jget jvalid (StripThinkingConfig jvalid jdel body provider) provider)"
proof -
  let ?b = "StripThinkingConfig jvalid jdel body provider"
  have gone: "jget ?b q = None" if "list_ex (\<lambda>p. q = p \<or> prefix (p @ ''.'') q) (strip_paths provider)" for q
    using that foldl_del_absent [of jget jdel, OF keep del] assms(4)
    by (auto simp: StripThinkingConfig_def list_ex_iff)
  have "list_all (\<lambda>p. list_all (\<lambda>q. list_ex (\<lambda>r. q = r \<or> prefix (r @ ''.'') q) (strip_paths p))
      (read_paths p)) strippable" by code_simp
  with assms(3) have "\<And>q. q \<in> set (read_paths provider) \<Longrightarrow> jget ?b q = None"
    by (auto simp only: list_all_iff intro: gone)
  then show ?thesis by (intro no_read_no_config)
qed

lemma table_del_gone: "q = p \<or> prefix (p @ ''.'') q \<Longrightarrow> table_get (table_del b p) q = None"
  by (auto simp: table_get_def table_del_def map_of_eq_None_iff)

lemma table_del_keep: "table_get b q = None \<Longrightarrow> table_get (table_del b p) q = None"
  by (auto simp: table_get_def table_del_def map_of_eq_None_iff)

theorem StripThinkingConfig_complete_witness:
  "hasThinkingConfig (extractThinkingConfig table_get (\<lambda>_. True)
     [(''thinking.budget_tokens'', \<lparr>jString = '''', jInt = 5, jBool = False\<rparr>)] ''claude'') \<and>
   \<not> hasThinkingConfig (extractThinkingConfig table_get (\<lambda>_. True)
     (StripThinkingConfig (\<lambda>_. True) table_del
        [(''thinking.budget_tokens'', \<lparr>jString = '''', jInt = 5, jBool = False\<rparr>)] ''claude'') ''claude'')"
proof -
  have "hasThinkingConfig (extractThinkingConfig table_get (\<lambda>_. True)
     [(''thinking.budget_tokens'', \<lparr>jString = '''', jInt = 5, jBool = False\<rparr>)] ''claude'')"
    by code_simp
  then show ?thesis
    using StripThinkingConfig_complete [of table_get table_del "''claude''" "\<lambda>_. True",
        OF table_del_gone table_del_keep]
    by (simp add: strippable_def)
qed

text \<open>
  For Kimi, whose effort level is read from \<^verbatim>\<open>reasoning_effort\<close>, stripping is the identity: a request
  for a Kimi model without thinking support keeps the parameter that stripping is meant to remove.
\<close>

theorem StripThinkingConfig_kimi:
  "StripThinkingConfig jvalid jdel body ''kimi'' = body \<and>
   extractThinkingConfig jget (\<lambda>_. True) body ''kimi'' = extractEffort jget body ''reasoning_effort''"
  by (simp add: StripThinkingConfig_def strip_paths_def extractThinkingConfig_def extractOpenAIConfig_def)

end
