(* ===== verification/Auth_State.thy ===== *)
theory Auth_State
  imports Complex_Main Go_Base
begin

text \<open>
  The runtime state of one credential: \<^verbatim>\<open>src/sdk/cliproxy/auth/types.go\<close>, \<^verbatim>\<open>errors.go\<close>, \<^verbatim>\<open>status.go\<close>,
  \<^verbatim>\<open>antigravity_quota_family.go\<close>, \<^verbatim>\<open>conductor_result_state.go\<close> and \<^verbatim>\<open>conductor_failure_state.go\<close>.

  \<^verbatim>\<open>Auth\<close>, \<^verbatim>\<open>QuotaState\<close>, \<^verbatim>\<open>ModelState\<close> and \<^verbatim>\<open>Error\<close> are records with the source's fields (\<^verbatim>\<open>Storage\<close>
  and \<^verbatim>\<open>Runtime\<close>, opaque handles the modelled code never reads, are left out).  A pointer to a struct
  that may be nil is an option.  Methods that write through a pointer return the new record.
  Values of \<^verbatim>\<open>Metadata\<close> are the dynamic types the code distinguishes; a float64 is the rational it
  denotes, and converting one outside the 64-bit range gives the smallest integer, as on amd64; the
  items of a \<^verbatim>\<open>[]any\<close> are kept as \<^verbatim>\<open>fmt.Sprint\<close> renders them.
\<close>

section \<open>Data\<close>

datatype status =
  StatusEmpty | StatusUnknown | StatusActive | StatusPending | StatusRefreshing | StatusError
| StatusDisabled

record error =
  eCode :: string
  eMessage :: string
  eRetryable :: bool
  eHTTPStatus :: int
  eQuotaWindow :: string
  eQuotaWindowMinutes :: int

record quota_state =
  qExceeded :: bool
  qRecoveryRequired :: bool
  qReason :: string
  qWindow :: string
  qWindowMinutes :: int
  qNextRecoverAt :: gotime
  qBackoffLevel :: int

record model_state =
  msStatus :: status
  msStatusMessage :: string
  msUnavailable :: bool
  msNextRetryAfter :: gotime
  msLastError :: "error option"
  msQuota :: quota_state
  msUpdatedAt :: gotime

text \<open>The part of the quota state that survives a restart, kept in the metadata (\<^verbatim>\<open>quota_persistence.go\<close>).\<close>

record quota_model_runtime =
  qmStatus :: status
  qmStatusMessage :: string
  qmNextRetryAfter :: gotime
  qmQuota :: quota_state

record quota_runtime =
  qrStatus :: status
  qrStatusMessage :: string
  qrNextRetryAfter :: gotime
  qrQuota :: quota_state
  qrModelStates :: "(string, quota_model_runtime) gomap"

datatype goany =
  ANil | ABool bool | AStr string | AInt int | AInt32 int | AInt64 int | AFloat rat
| ANumber string | AMap "(string \<times> goany) list" | AStrMap "(string \<times> string) list"
| ABytes string | AStrs "string list" | AAnys "string list" | AQuotaRuntime quota_runtime | AOther

record auth =
  aID :: string
  aTenantID :: string
  aIndex :: string
  aProvider :: string
  aPrefix :: string
  aFileName :: string
  aLabel :: string
  aStatus :: status
  aStatusMessage :: string
  aDisabled :: bool
  aUnavailable :: bool
  aProxyURL :: string
  aProxyID :: string
  aAttributes :: "(string, string) gomap"
  aMetadata :: "(string, goany) gomap"
  aQuota :: quota_state
  aLastError :: "error option"
  aCreatedAt :: gotime
  aUpdatedAt :: gotime
  aLastRefreshedAt :: gotime
  aNextRefreshAfter :: gotime
  aNextRetryAfter :: gotime
  aModelStates :: "(string, model_state option) gomap"
  aIndexAssigned :: bool

definition zeroQuota :: quota_state where
  "zeroQuota = \<lparr>qExceeded = False, qRecoveryRequired = False, qReason = '''', qWindow = '''',
                qWindowMinutes = 0, qNextRecoverAt = 0, qBackoffLevel = 0\<rparr>"

definition newModelState :: model_state where
  "newModelState = \<lparr>msStatus = StatusActive, msStatusMessage = '''', msUnavailable = False,
                    msNextRetryAfter = 0, msLastError = None, msQuota = zeroQuota, msUpdatedAt = 0\<rparr>"

section \<open>Errors and copies\<close>

definition error_text :: "error option \<Rightarrow> string" where
  "error_text e =
     (case e of None \<Rightarrow> ''''
      | Some x \<Rightarrow> if eCode x = '''' then eMessage x else eCode x @ '': '' @ eMessage x)"

definition statusCodeFromResult :: "error option \<Rightarrow> int" where
  "statusCodeFromResult e = (case e of None \<Rightarrow> 0 | Some x \<Rightarrow> eHTTPStatus x)"

definition errorsEqual :: "error option \<Rightarrow> error option \<Rightarrow> bool" where
  "errorsEqual l r =
     (case (l, r) of
        (Some x, Some y) \<Rightarrow>
          eCode x = eCode y \<and> eMessage x = eMessage y \<and> eRetryable x = eRetryable y \<and>
          eHTTPStatus x = eHTTPStatus y \<and> eQuotaWindow x = eQuotaWindow y \<and>
          eQuotaWindowMinutes x = eQuotaWindowMinutes y
      | _ \<Rightarrow> l = None \<and> r = None)"

definition cloneError :: "error option \<Rightarrow> error option" where
  "cloneError e =
     (case e of None \<Rightarrow> None
      | Some x \<Rightarrow> Some \<lparr>eCode = eCode x, eMessage = eMessage x, eRetryable = eRetryable x,
                       eHTTPStatus = eHTTPStatus x, eQuotaWindow = eQuotaWindow x,
                       eQuotaWindowMinutes = eQuotaWindowMinutes x\<rparr>)"

definition ModelState_Clone :: "model_state option \<Rightarrow> model_state option" where
  "ModelState_Clone m =
     (case m of None \<Rightarrow> None
      | Some s \<Rightarrow>
          Some (case msLastError s of None \<Rightarrow> s
                | Some x \<Rightarrow> s\<lparr>msLastError :=
                    Some \<lparr>eCode = eCode x, eMessage = eMessage x, eRetryable = eRetryable x,
                          eHTTPStatus = eHTTPStatus x, eQuotaWindow = '''', eQuotaWindowMinutes = 0\<rparr>\<rparr>))"

definition Auth_Clone :: "auth \<Rightarrow> auth" where
  "Auth_Clone a = a\<lparr>aModelStates := map (\<lambda>(k, s). (k, ModelState_Clone s)) (aModelStates a)\<rparr>"

lemma cloneError_id [simp]: "cloneError e = e"
  by (cases e) (simp_all add: cloneError_def)

lemma errorsEqual_iff [simp]: "errorsEqual l r \<longleftrightarrow> l = r"
  by (cases l; cases r) (auto simp: errorsEqual_def)

section \<open>Settings read from metadata and attributes\<close>

definition float_to_int :: "rat \<Rightarrow> int" where
  "float_to_int r =
     (let t = (if 0 \<le> r then \<lfloor>r\<rfloor> else \<lceil>r\<rceil>)
      in if minInt64 \<le> t \<and> t \<le> maxInt64 then t else minInt64)"

definition parseBoolAny :: "goany \<Rightarrow> bool option" where
  "parseBoolAny v =
     (case v of
        ABool b \<Rightarrow> Some b
      | AStr s \<Rightarrow> (let t = trim_space s in if t = '''' then None else parse_bool t)
      | AFloat f \<Rightarrow> Some (f \<noteq> 0)
      | ANumber n \<Rightarrow> (case atoi n of None \<Rightarrow> None | Some i \<Rightarrow> Some (i \<noteq> 0))
      | _ \<Rightarrow> None)"

definition parseIntAny :: "goany \<Rightarrow> int option" where
  "parseIntAny v =
     (case v of
        AInt i \<Rightarrow> Some i
      | AInt32 i \<Rightarrow> Some i
      | AInt64 i \<Rightarrow> Some i
      | AFloat f \<Rightarrow> Some (float_to_int f)
      | ANumber n \<Rightarrow> atoi n
      | AStr s \<Rightarrow> (let t = trim_space s in if t = '''' then None else atoi t)
      | _ \<Rightarrow> None)"

text \<open>The first of several keys whose value parses.\<close>

fun first_parsed :: "('v \<Rightarrow> 'a option) \<Rightarrow> (string, 'v) gomap \<Rightarrow> string list \<Rightarrow> 'a option" where
  "first_parsed f m [] = None"
| "first_parsed f m (k # ks) =
     (case map_of m k of
        None \<Rightarrow> first_parsed f m ks
      | Some v \<Rightarrow> (case f v of None \<Rightarrow> first_parsed f m ks | Some x \<Rightarrow> Some x))"

definition DisableCoolingOverride :: "auth \<Rightarrow> bool option" where
  "DisableCoolingOverride a =
     first_parsed parseBoolAny (aMetadata a) [''disable_cooling'', ''disable-cooling'']"

definition ToolPrefixDisabled :: "auth \<Rightarrow> bool" where
  "ToolPrefixDisabled a =
     (case first_parsed parseBoolAny (aMetadata a) [''tool_prefix_disabled'', ''tool-prefix-disabled''] of
        None \<Rightarrow> False | Some b \<Rightarrow> b)"

definition RequestRetryOverride :: "auth \<Rightarrow> int option" where
  "RequestRetryOverride a =
     map_option (\<lambda>p. if p < 0 then 0 else p)
       (first_parsed parseIntAny (aMetadata a) [''request_retry'', ''request-retry''])"

definition nonneg_int :: "goany \<Rightarrow> int option" where
  "nonneg_int v = (case parseIntAny v of None \<Rightarrow> None | Some i \<Rightarrow> if 0 \<le> i then Some i else None)"

definition concurrency_keys :: "string list" where
  "concurrency_keys = [''concurrency_limit'', ''concurrency'', ''concurrency-limit'']"

definition ConcurrencyLimit :: "auth \<Rightarrow> int" where
  "ConcurrencyLimit a =
     (case first_parsed (\<lambda>s. nonneg_int (AStr s)) (aAttributes a) concurrency_keys of
        Some n \<Rightarrow> n
      | None \<Rightarrow>
          (case first_parsed nonneg_int (aMetadata a) concurrency_keys of
             Some n \<Rightarrow> n
           | None \<Rightarrow> 0))"

text \<open>\<open>off\<close> is the process-wide flag that \<^verbatim>\<open>SetQuotaCooldownDisabled\<close> stores.\<close>

definition quotaCooldownDisabledForAuth :: "bool \<Rightarrow> auth \<Rightarrow> bool" where
  "quotaCooldownDisabledForAuth off a =
     (case DisableCoolingOverride a of Some b \<Rightarrow> b | None \<Rightarrow> off)"

lemma first_parsed_SomeD:
  "first_parsed f m ks = Some x \<Longrightarrow> \<exists>k v. k \<in> set ks \<and> map_of m k = Some v \<and> f v = Some x"
  by (induction ks) (auto split: option.splits)

lemma RequestRetryOverride_nonneg: "RequestRetryOverride a = Some n \<Longrightarrow> 0 \<le> n"
  by (auto simp: RequestRetryOverride_def)

lemma ConcurrencyLimit_nonneg: "0 \<le> ConcurrencyLimit a"
  by (auto simp: ConcurrencyLimit_def nonneg_int_def dest!: first_parsed_SomeD
      split: option.splits if_splits)

section \<open>Names of a credential\<close>

text \<open>\<^verbatim>\<open>metadata[key].(string)\<close>: the string stored under a key, if there is one.\<close>

definition meta_string :: "(string, goany) gomap \<Rightarrow> string \<Rightarrow> string option" where
  "meta_string m k = (case map_of m k of Some (AStr s) \<Rightarrow> Some s | _ \<Rightarrow> None)"

definition meta_trimmed :: "(string, goany) gomap \<Rightarrow> string \<Rightarrow> string" where
  "meta_trimmed m k = (case meta_string m k of None \<Rightarrow> '''' | Some s \<Rightarrow> trim_space s)"

definition ProxyInfo :: "auth \<Rightarrow> string" where
  "ProxyInfo a =
     (let p = trim_space (aProxyURL a)
      in if p = '''' then (if trim_space (aProxyID a) \<noteq> '''' then ''via proxy pool'' else '''')
         else (case str_index p ''://'' of
                 Some i \<Rightarrow> if 0 < i then ''via '' @ take i p @ '' proxy'' else ''via proxy''
               | None \<Rightarrow> ''via proxy''))"

definition hasKimiOAuthTokenMetadata :: "(string, goany) gomap \<Rightarrow> bool" where
  "hasKimiOAuthTokenMetadata m \<longleftrightarrow>
     list_ex (\<lambda>k. meta_trimmed m k \<noteq> '''') [''refresh_token'', ''access_token'']"

definition AccountInfo :: "auth \<Rightarrow> string \<times> string" where
  "AccountInfo a =
     (let email = meta_trimmed (aMetadata a) ''email'';
          project = meta_trimmed (aMetadata a) ''project_id''
      in if to_lower (aProvider a) = ''gemini-cli'' \<and> email \<noteq> ''''
         then (''oauth'', if project \<noteq> '''' then email @ '' ('' @ project @ '')'' else email)
         else if to_lower (aProvider a) = ''iflow'' \<and> email \<noteq> '''' then (''oauth'', email)
         else if email \<noteq> '''' then (''oauth'', email)
         else if equal_fold (trim_space (aProvider a)) ''kimi'' \<and> hasKimiOAuthTokenMetadata (aMetadata a)
         then (''oauth'', ''kimi'')
         else if map_get '''' (aAttributes a) ''api_key'' \<noteq> ''''
         then (''api_key'', map_get '''' (aAttributes a) ''api_key'')
         else ('''', ''''))"

definition ChannelName :: "auth \<Rightarrow> string" where
  "ChannelName a =
     (if trim_space (aLabel a) \<noteq> '''' then trim_space (aLabel a)
      else if meta_trimmed (aMetadata a) ''label'' \<noteq> '''' then meta_trimmed (aMetadata a) ''label''
      else if meta_trimmed (aMetadata a) ''email'' \<noteq> '''' then meta_trimmed (aMetadata a) ''email''
      else trim_space (aProvider a))"

text \<open>The closure \<^verbatim>\<open>appendValue\<close> with its \<^verbatim>\<open>seen\<close> set (of lower-cased values).\<close>

definition appendValue :: "string \<Rightarrow> string list \<Rightarrow> string list" where
  "appendValue v out =
     (let t = trim_space v
      in if t = '''' then out
         else if to_lower t \<in> set (map to_lower out) then out
         else out @ [t])"

definition ChannelIdentifiers :: "auth \<Rightarrow> string list" where
  "ChannelIdentifiers a =
     (let out = appendValue (ChannelName a) []
      in case meta_string (aMetadata a) ''email'' of None \<Rightarrow> out | Some raw \<Rightarrow> appendValue raw out)"

definition authMatchesChannelName :: "auth \<Rightarrow> string \<Rightarrow> bool" where
  "authMatchesChannelName a candidate =
     (let c = trim_space candidate
      in c \<noteq> '''' \<and> list_ex (\<lambda>i. equal_fold i c) (ChannelIdentifiers a))"

lemma appendValue_distinct:
  "distinct (map to_lower out) \<Longrightarrow> distinct (map to_lower (appendValue v out))"
  by (auto simp: appendValue_def Let_def)

lemma ChannelIdentifiers_distinct: "distinct (map to_lower (ChannelIdentifiers a))"
  by (auto simp: ChannelIdentifiers_def Let_def intro!: appendValue_distinct split: option.split)

text \<open>
  A credential answers to the channel names given by its label or, failing that, by its metadata
  and provider, and always to its e-mail address, without regard to case and to surrounding space.
\<close>

theorem authMatchesChannelName_iff:
  "authMatchesChannelName a c \<longleftrightarrow>
     trim_space c \<noteq> '''' \<and>
     (equal_fold (ChannelName a) (trim_space c) \<or>
      equal_fold (meta_trimmed (aMetadata a) ''email'') (trim_space c))"
proof -
  have trim: "trim_space (ChannelName a) = ChannelName a"
    by (simp add: ChannelName_def meta_trimmed_def split: option.split)
  have eq: "equal_fold '''' x \<longleftrightarrow> x = ''''" for x by (simp add: equal_fold_def)
  show ?thesis
    by (auto simp: authMatchesChannelName_def ChannelIdentifiers_def appendValue_def Let_def trim eq
        meta_trimmed_def equal_fold_def split: option.split)
qed

section \<open>Antigravity quota pools\<close>

datatype quota_family = AntigravityFamilyGemini | AntigravityFamilyClaude | AntigravityFamilyOther

definition ModelAntigravityQuotaFamily :: "string \<Rightarrow> quota_family" where
  "ModelAntigravityQuotaFamily model =
     (let m = to_lower (trim_space model)
      in if contains m ''claude'' \<or> contains m ''opus'' \<or> contains m ''sonnet'' \<or>
            contains m ''haiku'' \<or> contains m ''gpt'' then AntigravityFamilyClaude
         else if prefix ''gemini'' m \<or> contains m ''image'' \<or> contains m ''imagen''
         then AntigravityFamilyGemini
         else AntigravityFamilyOther)"

definition IsAntigravityAuth :: "auth \<Rightarrow> bool" where
  "IsAntigravityAuth a \<longleftrightarrow>
     equal_fold (trim_space (aProvider a)) ''antigravity'' \<or>
     equal_fold (trim_space (case meta_string (aMetadata a) ''type'' of None \<Rightarrow> '''' | Some s \<Rightarrow> s))
       ''antigravity''"

definition AreAntigravityModelsSameFamily :: "string \<Rightarrow> string \<Rightarrow> bool" where
  "AreAntigravityModelsSameFamily m n =
     (let fm = ModelAntigravityQuotaFamily m; fn = ModelAntigravityQuotaFamily n
      in if fm = AntigravityFamilyOther \<or> fn = AntigravityFamilyOther
         then equal_fold (trim_space m) (trim_space n)
         else fm = fn)"

lemma ModelAntigravityQuotaFamily_cong:
  "equal_fold (trim_space m) (trim_space n) \<Longrightarrow>
     ModelAntigravityQuotaFamily m = ModelAntigravityQuotaFamily n"
  by (simp add: ModelAntigravityQuotaFamily_def equal_fold_def)

text \<open>
  Sharing an Antigravity quota pool is an equivalence relation on model names, so the models of an
  account split into disjoint pools.
\<close>

theorem AreAntigravityModelsSameFamily_equivp: "equivp AreAntigravityModelsSameFamily"
proof -
  have iff: "AreAntigravityModelsSameFamily m n \<longleftrightarrow>
      ModelAntigravityQuotaFamily m = ModelAntigravityQuotaFamily n \<and>
      (ModelAntigravityQuotaFamily m = AntigravityFamilyOther \<longrightarrow>
        equal_fold (trim_space m) (trim_space n))" for m n
    using ModelAntigravityQuotaFamily_cong [of m n]
    by (auto simp: AreAntigravityModelsSameFamily_def Let_def)
  show ?thesis
    by (intro equivpI reflpI sympI transpI)
      (auto simp: iff equal_fold_sym intro: equal_fold_trans)
qed

section \<open>Cooldown predicates\<close>

definition quotaNeedsConfirmedRecovery :: "quota_state \<Rightarrow> gotime \<Rightarrow> bool" where
  "quotaNeedsConfirmedRecovery q now \<longleftrightarrow>
     qExceeded q \<and> qRecoveryRequired q \<and> now < qNextRecoverAt q"

definition activeQuotaCooldown :: "quota_state \<Rightarrow> gotime \<Rightarrow> gotime \<Rightarrow> bool" where
  "activeQuotaCooldown q retryAfter now =
     (if \<not> qExceeded q then False
      else if quotaNeedsConfirmedRecovery q now then True
      else if qNextRecoverAt q \<noteq> 0 then now < qNextRecoverAt q
      else retryAfter \<noteq> 0 \<and> now < retryAfter)"

definition activeModelQuotaCooldown :: "model_state option \<Rightarrow> gotime \<Rightarrow> bool" where
  "activeModelQuotaCooldown s now =
     (case s of None \<Rightarrow> False | Some m \<Rightarrow> activeQuotaCooldown (msQuota m) (msNextRetryAfter m) now)"

definition activeAuthQuotaCooldown :: "auth \<Rightarrow> gotime \<Rightarrow> bool" where
  "activeAuthQuotaCooldown a now = activeQuotaCooldown (aQuota a) (aNextRetryAfter a) now"

definition activeModelRuntimeState :: "model_state option \<Rightarrow> gotime \<Rightarrow> bool" where
  "activeModelRuntimeState st now =
     (case st of None \<Rightarrow> False
      | Some s \<Rightarrow>
          if activeModelQuotaCooldown st now then True
          else if msUnavailable s then msNextRetryAfter s = 0 \<or> now < msNextRetryAfter s
          else if msStatus s = StatusError \<and> msLastError s \<noteq> None
          then msNextRetryAfter s = 0 \<or> now < msNextRetryAfter s
          else False)"

definition activeAuthRuntimeState :: "auth \<Rightarrow> gotime \<Rightarrow> bool" where
  "activeAuthRuntimeState a now =
     (if activeAuthQuotaCooldown a now then True
      else if aUnavailable a then aNextRetryAfter a = 0 \<or> now < aNextRetryAfter a
      else if aStatus a = StatusError \<and> aLastError a \<noteq> None
      then aNextRetryAfter a = 0 \<or> now < aNextRetryAfter a
      else False)"

definition hasModelError :: "auth \<Rightarrow> gotime \<Rightarrow> bool" where
  "hasModelError a now =
     list_ex (\<lambda>(_, st). case st of None \<Rightarrow> False
       | Some s \<Rightarrow> msLastError s \<noteq> None \<or>
           msStatus s = StatusError \<and>
           (quotaNeedsConfirmedRecovery (msQuota s) now \<or>
            msUnavailable s \<and> (msNextRetryAfter s = 0 \<or> now < msNextRetryAfter s)))
       (aModelStates a)"

definition quotaOnlyModelUnavailability :: "auth \<Rightarrow> gotime \<Rightarrow> bool" where
  "quotaOnlyModelUnavailability a now =
     list_all (\<lambda>(_, st). case st of None \<Rightarrow> True
       | Some s \<Rightarrow> msStatus s \<noteq> StatusDisabled \<and>
           (msUnavailable s \<longrightarrow> activeModelQuotaCooldown st now))
       (aModelStates a)"

section \<open>Model states\<close>

text \<open>
  \<^verbatim>\<open>ensureModelState\<close> returns the state of a model and stores a fresh one where there is none; the
  callers pass a non-empty model.  Callers then write through the returned pointer, which is
  \<open>put_model_state\<close>.
\<close>

definition get_model_state :: "auth \<Rightarrow> string \<Rightarrow> model_state" where
  "get_model_state a model =
     (case map_of (aModelStates a) model of Some (Some s) \<Rightarrow> s | _ \<Rightarrow> newModelState)"

definition put_model_state :: "auth \<Rightarrow> string \<Rightarrow> model_state \<Rightarrow> auth" where
  "put_model_state a model s = a\<lparr>aModelStates := map_put model (Some s) (aModelStates a)\<rparr>"

definition ensureModelState :: "auth \<Rightarrow> string \<Rightarrow> auth \<times> model_state option" where
  "ensureModelState a model =
     (if model = '''' then (a, None)
      else (case map_of (aModelStates a) model of
              Some (Some s) \<Rightarrow> (a, Some s)
            | _ \<Rightarrow> (put_model_state a model newModelState, Some newModelState)))"

definition resetModelState :: "model_state \<Rightarrow> gotime \<Rightarrow> model_state" where
  "resetModelState s now =
     s\<lparr>msUnavailable := False, msStatus := StatusActive, msStatusMessage := '''',
       msNextRetryAfter := 0, msLastError := None, msQuota := zeroQuota, msUpdatedAt := now\<rparr>"

definition clearAuthStateOnSuccess :: "auth \<Rightarrow> gotime \<Rightarrow> auth" where
  "clearAuthStateOnSuccess a now =
     a\<lparr>aUnavailable := False, aStatus := StatusActive, aStatusMessage := '''',
       aQuota := (aQuota a)\<lparr>qExceeded := False, qRecoveryRequired := False, qReason := '''',
                            qWindow := '''', qWindowMinutes := 0, qNextRecoverAt := 0,
                            qBackoffLevel := 0\<rparr>,
       aLastError := None, aNextRetryAfter := 0, aUpdatedAt := now\<rparr>"

lemma ensureModelState_snd: "model \<noteq> '''' \<Longrightarrow> snd (ensureModelState a model) = Some (get_model_state a model)"
  by (auto simp: ensureModelState_def get_model_state_def split: option.split)

lemma ensureModelState_put:
  "model \<noteq> '''' \<Longrightarrow> put_model_state (fst (ensureModelState a model)) model s = put_model_state a model s"
proof -
  have "map_put k v (map_put k w m) = map_put k v m" for k :: string and v w :: "model_state option" and m
    by (induction m) auto
  then show "model \<noteq> '''' \<Longrightarrow> ?thesis"
    by (simp add: ensureModelState_def put_model_state_def split: option.split)
qed

section \<open>Aggregated availability\<close>

text \<open>The local variables of \<^verbatim>\<open>updateAggregatedAvailability\<close>.\<close>

record agg =
  agAllUnavailable :: bool
  agEarliestRetry :: gotime
  agExceeded :: bool
  agRecover :: gotime
  agWindow :: string
  agWindowMinutes :: int
  agRecoveryRequired :: bool
  agMaxBackoff :: int

definition initAgg :: agg where
  "initAgg = \<lparr>agAllUnavailable = True, agEarliestRetry = 0, agExceeded = False, agRecover = 0,
              agWindow = '''', agWindowMinutes = 0, agRecoveryRequired = False, agMaxBackoff = 0\<rparr>"

text \<open>The first half of the loop body: \<^verbatim>\<open>stateUnavailable\<close>, the written state and the retry time.\<close>

definition availability_step :: "gotime \<Rightarrow> agg \<Rightarrow> model_state \<Rightarrow> bool \<times> model_state \<times> agg" where
  "availability_step now g s =
     (let n = msNextRetryAfter s;
          earlier = agEarliestRetry g = 0 \<or> n < agEarliestRetry g
      in if msStatus s = StatusDisabled then (True, s, g)
         else if quotaNeedsConfirmedRecovery (msQuota s) now
         then (True, s\<lparr>msUnavailable := True\<rparr>,
               if now < n \<and> earlier then g\<lparr>agEarliestRetry := n\<rparr> else g)
         else if msUnavailable s then
           (if n = 0 then (False, s, g)
            else if now < n then (True, s, if earlier then g\<lparr>agEarliestRetry := n\<rparr> else g)
            else (False, s\<lparr>msUnavailable := False, msNextRetryAfter := 0\<rparr>, g))
         else (False, s, g))"

text \<open>The second half: the quota fields.\<close>

definition quota_step :: "agg \<Rightarrow> quota_state \<Rightarrow> agg" where
  "quota_step g q =
     (if \<not> qExceeded q then g
      else
        let g1 = g\<lparr>agExceeded := True, agRecoveryRequired := agRecoveryRequired g \<or> qRecoveryRequired q\<rparr>;
            g2 = (if agRecover g1 = 0 \<or> (qNextRecoverAt q \<noteq> 0 \<and> qNextRecoverAt q < agRecover g1)
                  then g1\<lparr>agRecover := qNextRecoverAt q, agWindow := qWindow q,
                          agWindowMinutes := qWindowMinutes q\<rparr>
                  else if agWindow g1 = ''''
                  then g1\<lparr>agWindow := qWindow q, agWindowMinutes := qWindowMinutes q\<rparr>
                  else g1)
        in if agMaxBackoff g2 < qBackoffLevel q then g2\<lparr>agMaxBackoff := qBackoffLevel q\<rparr> else g2)"

definition agg_step ::
  "gotime \<Rightarrow> string \<times> model_state option \<Rightarrow> agg \<times> (string, model_state option) gomap \<Rightarrow>
   agg \<times> (string, model_state option) gomap" where
  "agg_step now e acc =
     (case (e, acc) of ((k, st), (g, out)) \<Rightarrow>
        (case st of
           None \<Rightarrow> (g, out @ [(k, None)])
         | Some s \<Rightarrow>
             (case availability_step now g s of (unavail, s', g1) \<Rightarrow>
                let g2 = (if unavail then g1 else g1\<lparr>agAllUnavailable := False\<rparr>)
                in (quota_step g2 (msQuota s'), out @ [(k, Some s')]))))"

definition family_exceeded :: "gotime \<Rightarrow> quota_family \<Rightarrow> (string, model_state option) gomap \<Rightarrow> bool" where
  "family_exceeded now fam =
     list_ex (\<lambda>(m, st). case st of None \<Rightarrow> False
       | Some s \<Rightarrow> qExceeded (msQuota s) \<and> activeModelQuotaCooldown st now \<and>
                   ModelAntigravityQuotaFamily m = fam)"

text \<open>The part of the function after its first loop.\<close>

definition publish_aggregate ::
  "gotime \<Rightarrow> agg \<Rightarrow> (string, model_state option) gomap \<Rightarrow> auth \<Rightarrow> auth" where
  "publish_aggregate now g states a =
     (let a1 = a\<lparr>aModelStates := states, aUnavailable := agAllUnavailable g,
                 aNextRetryAfter := (if agAllUnavailable g then agEarliestRetry g else 0)\<rparr>;
          allFamilies = family_exceeded now AntigravityFamilyGemini states \<and>
                        family_exceeded now AntigravityFamilyClaude states;
          quotaExceeded = (if IsAntigravityAuth a1 then allFamilies else agExceeded g);
          clear = IsAntigravityAuth a1 \<and> \<not> allFamilies;
          quotaOnly = clear \<and> quotaOnlyModelUnavailability a1 now;
          a2 = (if quotaOnly then a1\<lparr>aUnavailable := False, aNextRetryAfter := 0\<rparr> else a1);
          allUnavailable = agAllUnavailable g \<and> \<not> quotaOnly;
          a3 = (if clear \<and> aStatus a2 = StatusError \<and> \<not> allUnavailable
                then a2\<lparr>aStatus := StatusActive, aStatusMessage := '''', aLastError := None\<rparr>
                else a2)
      in if quotaExceeded
         then a3\<lparr>aQuota := (aQuota a3)\<lparr>qExceeded := True, qRecoveryRequired := agRecoveryRequired g,
                   qReason := ''quota'', qWindow := agWindow g, qWindowMinutes := agWindowMinutes g,
                   qNextRecoverAt := agRecover g, qBackoffLevel := agMaxBackoff g\<rparr>\<rparr>
         else a3\<lparr>aQuota := (aQuota a3)\<lparr>qExceeded := False, qRecoveryRequired := False,
                   qReason := '''', qWindow := '''', qWindowMinutes := 0,
                   qNextRecoverAt := 0, qBackoffLevel := 0\<rparr>\<rparr>)"

definition updateAggregatedAvailability :: "auth \<Rightarrow> gotime \<Rightarrow> auth" where
  "updateAggregatedAvailability a now =
     (if aModelStates a = [] then a
      else case fold (agg_step now) (aModelStates a) (initAgg, []) of
             (g, states) \<Rightarrow> publish_aggregate now g states a)"

text \<open>A closed form of each field that is written.\<close>

definition all_families :: "gotime \<Rightarrow> (string, model_state option) gomap \<Rightarrow> bool" where
  "all_families now states \<longleftrightarrow>
     family_exceeded now AntigravityFamilyGemini states \<and> family_exceeded now AntigravityFamilyClaude states"

definition quota_only :: "gotime \<Rightarrow> (string, model_state option) gomap \<Rightarrow> bool" where
  "quota_only now = list_all (\<lambda>(_, st). case st of None \<Rightarrow> True
       | Some s \<Rightarrow> msStatus s \<noteq> StatusDisabled \<and> (msUnavailable s \<longrightarrow> activeModelQuotaCooldown st now))"

definition agg_unavailable :: "gotime \<Rightarrow> bool \<Rightarrow> agg \<Rightarrow> (string, model_state option) gomap \<Rightarrow> bool" where
  "agg_unavailable now anti g states \<longleftrightarrow>
     agAllUnavailable g \<and> \<not> (anti \<and> \<not> all_families now states \<and> quota_only now states)"

definition agg_quota :: "gotime \<Rightarrow> bool \<Rightarrow> agg \<Rightarrow> (string, model_state option) gomap \<Rightarrow> quota_state" where
  "agg_quota now anti g states =
     (if (if anti then all_families now states else agExceeded g)
      then \<lparr>qExceeded = True, qRecoveryRequired = agRecoveryRequired g, qReason = ''quota'',
            qWindow = agWindow g, qWindowMinutes = agWindowMinutes g, qNextRecoverAt = agRecover g,
            qBackoffLevel = agMaxBackoff g\<rparr>
      else zeroQuota)"

definition agg_recovers :: "gotime \<Rightarrow> bool \<Rightarrow> agg \<Rightarrow> (string, model_state option) gomap \<Rightarrow> bool" where
  "agg_recovers now anti g states \<longleftrightarrow>
     anti \<and> \<not> all_families now states \<and> \<not> agg_unavailable now anti g states"

lemma IsAntigravityAuth_update [simp]:
  "IsAntigravityAuth (a\<lparr>aModelStates := x, aUnavailable := b, aNextRetryAfter := t\<rparr>) = IsAntigravityAuth a"
  "IsAntigravityAuth (a\<lparr>aModelStates := x\<rparr>) = IsAntigravityAuth a"
  by (simp_all add: IsAntigravityAuth_def)

lemma quotaOnlyModelUnavailability_eq: "quotaOnlyModelUnavailability a now = quota_only now (aModelStates a)"
  by (simp add: quotaOnlyModelUnavailability_def quota_only_def)

lemma full_quota_update:
  "q\<lparr>qExceeded := a, qRecoveryRequired := b, qReason := c, qWindow := d, qWindowMinutes := e,
     qNextRecoverAt := f, qBackoffLevel := g\<rparr> =
   \<lparr>qExceeded = a, qRecoveryRequired = b, qReason = c, qWindow = d, qWindowMinutes = e,
     qNextRecoverAt = f, qBackoffLevel = g\<rparr>"
  for q :: quota_state by simp

lemma publish_aggregate_eq:
  "publish_aggregate now g states a =
     (let r = agg_recovers now (IsAntigravityAuth a) g states \<and> aStatus a = StatusError;
          u = agg_unavailable now (IsAntigravityAuth a) g states
      in a\<lparr>aModelStates := states, aUnavailable := u,
           aNextRetryAfter := (if u then agEarliestRetry g else 0),
           aStatus := (if r then StatusActive else aStatus a),
           aStatusMessage := (if r then '''' else aStatusMessage a),
           aLastError := (if r then None else aLastError a),
           aQuota := agg_quota now (IsAntigravityAuth a) g states\<rparr>)"
  unfolding publish_aggregate_def all_families_def [symmetric] IsAntigravityAuth_update
    quotaOnlyModelUnavailability_eq full_quota_update zeroQuota_def [symmetric]
  by (cases "IsAntigravityAuth a"; cases "all_families now states"; cases "quota_only now states")
    (simp_all add: Let_def agg_unavailable_def agg_recovers_def agg_quota_def)

section \<open>What the aggregation computes\<close>

definition live_states :: "(string, model_state option) gomap \<Rightarrow> model_state list" where
  "live_states m = List.map_filter snd m"

definition state_unavailable :: "gotime \<Rightarrow> model_state \<Rightarrow> bool" where
  "state_unavailable now s \<longleftrightarrow>
     msStatus s = StatusDisabled \<or> quotaNeedsConfirmedRecovery (msQuota s) now \<or>
     (msUnavailable s \<and> now < msNextRetryAfter s \<and> msNextRetryAfter s \<noteq> 0)"

definition timed_out :: "gotime \<Rightarrow> model_state \<Rightarrow> bool" where
  "timed_out now s \<longleftrightarrow>
     msStatus s \<noteq> StatusDisabled \<and> now < msNextRetryAfter s \<and> msNextRetryAfter s \<noteq> 0 \<and>
     (quotaNeedsConfirmedRecovery (msQuota s) now \<or> msUnavailable s)"

definition settle :: "gotime \<Rightarrow> model_state \<Rightarrow> model_state" where
  "settle now s = fst (snd (availability_step now initAgg s))"

definition tmin :: "gotime \<Rightarrow> gotime \<Rightarrow> gotime" where
  "tmin t u = (if t = 0 then u else if u = 0 then t else min t u)"

definition earliest_time :: "gotime set \<Rightarrow> gotime" where
  "earliest_time T = (if T - {0} = {} then 0 else Min (T - {0}))"

lemma earliest_time_insert:
  assumes "finite T"
  shows "earliest_time (insert t T) = tmin t (earliest_time T)"
proof (cases "T - {0} = {}")
  case True
  then have "insert t T - {0} = {t} - {0}" by blast
  with True show ?thesis by (simp add: earliest_time_def tmin_def)
next
  case False
  with assms have m: "Min (T - {0}) \<noteq> 0" using Min_in [of "T - {0}"] by blast
  show ?thesis
  proof (cases "t = 0")
    case True
    then have "insert t T - {0} = T - {0}" by blast
    with True show ?thesis by (simp only: earliest_time_def) (simp add: tmin_def)
  next
    case t: False
    then have "insert t T - {0} = insert t (T - {0})" by blast
    with assms False m t show ?thesis by (simp add: earliest_time_def tmin_def del: Diff_eq_empty_iff)
  qed
qed

lemma tmin_simps [simp]: "tmin 0 t = t" "tmin t 0 = t"
  by (simp_all add: tmin_def)

lemma tmin_left_commute: "tmin t (tmin u v) = tmin u (tmin t v)"
  by (auto simp: tmin_def min_def)

lemma tmin_commute: "tmin t u = tmin u t"
  by (simp add: tmin_def min.commute)

lemma fold_tmin: "fold tmin ts t = tmin t (earliest_time (set ts))"
proof (induction ts arbitrary: t)
  case Nil
  then show ?case by (simp add: earliest_time_def)
next
  case (Cons u ts)
  then show ?case
    by (simp add: earliest_time_insert) (metis tmin_commute tmin_left_commute)
qed

lemma quota_step_fields [simp]:
  "agAllUnavailable (quota_step g q) = agAllUnavailable g"
  "agEarliestRetry (quota_step g q) = agEarliestRetry g"
  "agExceeded (quota_step g q) \<longleftrightarrow> agExceeded g \<or> qExceeded q"
  "agRecoveryRequired (quota_step g q) \<longleftrightarrow> agRecoveryRequired g \<or> qExceeded q \<and> qRecoveryRequired q"
  "agRecover (quota_step g q) = (if qExceeded q then tmin (agRecover g) (qNextRecoverAt q) else agRecover g)"
  "agMaxBackoff (quota_step g q) = (if qExceeded q then max (agMaxBackoff g) (qBackoffLevel q) else agMaxBackoff g)"
  by (simp_all add: quota_step_def Let_def tmin_def min_def)

definition live_step :: "gotime \<Rightarrow> model_state \<Rightarrow> agg \<Rightarrow> agg" where
  "live_step now s g =
     (case availability_step now g s of (unavail, s', g1) \<Rightarrow>
        quota_step (if unavail then g1 else g1\<lparr>agAllUnavailable := False\<rparr>) (msQuota s'))"

lemma availability_step_settle:
  "fst (snd (availability_step now g s)) = settle now s"
  "msQuota (settle now s) = msQuota s"
  "msStatus (settle now s) = msStatus s"
  by (simp_all add: settle_def availability_step_def Let_def)

lemma availability_step_unavailable: "fst (availability_step now g s) = state_unavailable now s"
  by (auto simp: availability_step_def Let_def state_unavailable_def)

lemma availability_step_retry:
  "0 \<le> now \<Longrightarrow>
     snd (snd (availability_step now g s)) =
       (if timed_out now s then g\<lparr>agEarliestRetry := tmin (agEarliestRetry g) (msNextRetryAfter s)\<rparr> else g)"
  by (auto simp: availability_step_def Let_def timed_out_def tmin_def min_def)

lemma availability_step_eq:
  "0 \<le> now \<Longrightarrow>
     availability_step now g s =
       (state_unavailable now s, settle now s,
        if timed_out now s then g\<lparr>agEarliestRetry := tmin (agEarliestRetry g) (msNextRetryAfter s)\<rparr> else g)"
  using availability_step_settle(1) availability_step_unavailable availability_step_retry
  by (intro prod_eqI) simp_all

lemma agg_step_None: "agg_step now (k, None) (g, out) = (g, out @ [(k, None)])"
  by (simp add: agg_step_def)

lemma agg_step_Some:
  "agg_step now (k, Some s) (g, out) = (live_step now s g, out @ [(k, Some (settle now s))])"
  using availability_step_settle(1) [of now g s]
  by (cases "availability_step now g s") (simp add: agg_step_def live_step_def Let_def)

lemma fold_agg_step:
  "fold (agg_step now) es (g, out) =
     (fold (live_step now) (live_states es) g,
      out @ map (\<lambda>(k, st). (k, map_option (settle now) st)) es)"
proof (induction es arbitrary: g out)
  case Nil
  then show ?case by (simp add: live_states_def map_filter_simps)
next
  case (Cons e es)
  obtain k st where "e = (k, st)" by (cases e)
  with Cons.IH show ?case
    by (cases st) (simp_all add: agg_step_None agg_step_Some live_states_def map_filter_simps)
qed

lemma live_step_fields:
  assumes "0 \<le> now"
  shows "agAllUnavailable (live_step now s g) \<longleftrightarrow> agAllUnavailable g \<and> state_unavailable now s"
    and "agEarliestRetry (live_step now s g) =
           (if timed_out now s then tmin (agEarliestRetry g) (msNextRetryAfter s) else agEarliestRetry g)"
    and "agExceeded (live_step now s g) \<longleftrightarrow> agExceeded g \<or> qExceeded (msQuota s)"
    and "agRecoveryRequired (live_step now s g) \<longleftrightarrow>
           agRecoveryRequired g \<or> qExceeded (msQuota s) \<and> qRecoveryRequired (msQuota s)"
    and "agRecover (live_step now s g) =
           (if qExceeded (msQuota s) then tmin (agRecover g) (qNextRecoverAt (msQuota s)) else agRecover g)"
    and "agMaxBackoff (live_step now s g) =
           (if qExceeded (msQuota s) then max (agMaxBackoff g) (qBackoffLevel (msQuota s)) else agMaxBackoff g)"
  by (simp_all add: live_step_def availability_step_eq [OF assms] availability_step_settle)

definition exceeded_quotas :: "model_state list \<Rightarrow> quota_state list" where
  "exceeded_quotas ss = filter qExceeded (map msQuota ss)"

lemma fold_live_step_fields:
  assumes "0 \<le> now"
  defines "G \<equiv> \<lambda>ss g. fold (live_step now) ss g"
  shows "agAllUnavailable (G ss g) \<longleftrightarrow> agAllUnavailable g \<and> (\<forall>s \<in> set ss. state_unavailable now s)"
    and "agEarliestRetry (G ss g) =
           fold tmin (map msNextRetryAfter (filter (timed_out now) ss)) (agEarliestRetry g)"
    and "agExceeded (G ss g) \<longleftrightarrow> agExceeded g \<or> exceeded_quotas ss \<noteq> []"
    and "agRecoveryRequired (G ss g) \<longleftrightarrow>
           agRecoveryRequired g \<or> (\<exists>q \<in> set (exceeded_quotas ss). qRecoveryRequired q)"
    and "agRecover (G ss g) = fold tmin (map qNextRecoverAt (exceeded_quotas ss)) (agRecover g)"
    and "agMaxBackoff (G ss g) = fold max (map qBackoffLevel (exceeded_quotas ss)) (agMaxBackoff g)"
  unfolding G_def
  by (induction ss arbitrary: g)
    (auto simp: live_step_fields [OF assms(1)] exceeded_quotas_def tmin_commute max.commute)

abbreviation live_agg :: "gotime \<Rightarrow> auth \<Rightarrow> agg" where
  "live_agg now a \<equiv> fold (live_step now) (live_states (aModelStates a)) initAgg"

lemma initAgg_fields [simp]:
  "agAllUnavailable initAgg" "agEarliestRetry initAgg = 0" "\<not> agExceeded initAgg"
  "agRecover initAgg = 0" "\<not> agRecoveryRequired initAgg" "agMaxBackoff initAgg = 0"
  by (simp_all add: initAgg_def)

lemma live_agg_fields:
  assumes "0 \<le> now"
  shows "agAllUnavailable (live_agg now a) \<longleftrightarrow>
           (\<forall>s \<in> set (live_states (aModelStates a)). state_unavailable now s)"
    and "agEarliestRetry (live_agg now a) =
           earliest_time (msNextRetryAfter ` {s \<in> set (live_states (aModelStates a)). timed_out now s})"
    and "agExceeded (live_agg now a) \<longleftrightarrow> set (exceeded_quotas (live_states (aModelStates a))) \<noteq> {}"
    and "agRecoveryRequired (live_agg now a) \<longleftrightarrow>
           (\<exists>q \<in> set (exceeded_quotas (live_states (aModelStates a))). qRecoveryRequired q)"
    and "agRecover (live_agg now a) =
           earliest_time (qNextRecoverAt ` set (exceeded_quotas (live_states (aModelStates a))))"
    and "agMaxBackoff (live_agg now a) =
           Max (insert 0 (qBackoffLevel ` set (exceeded_quotas (live_states (aModelStates a)))))"
proof -
  note f = fold_live_step_fields [OF assms]
  let ?L = "live_states (aModelStates a)"
  have m: "fold max xs (0::int) = Max (insert 0 (set xs))" for xs
    using Max.set_eq_fold [of 0 xs] by simp
  show "agAllUnavailable (live_agg now a) \<longleftrightarrow> (\<forall>s \<in> set ?L. state_unavailable now s)"
    unfolding f(1) by simp
  show "agEarliestRetry (live_agg now a) =
      earliest_time (msNextRetryAfter ` {s \<in> set ?L. timed_out now s})"
    unfolding f(2) fold_tmin by simp
  show "agExceeded (live_agg now a) \<longleftrightarrow> set (exceeded_quotas ?L) \<noteq> {}"
    unfolding f(3) by simp
  show "agRecoveryRequired (live_agg now a) \<longleftrightarrow> (\<exists>q \<in> set (exceeded_quotas ?L). qRecoveryRequired q)"
    unfolding f(4) by simp
  show "agRecover (live_agg now a) = earliest_time (qNextRecoverAt ` set (exceeded_quotas ?L))"
    unfolding f(5) fold_tmin by simp
  show "agMaxBackoff (live_agg now a) = Max (insert 0 (qBackoffLevel ` set (exceeded_quotas ?L)))"
    unfolding f(6) initAgg_fields m by simp
qed

abbreviation settled :: "gotime \<Rightarrow> auth \<Rightarrow> (string, model_state option) gomap" where
  "settled now a \<equiv> map (\<lambda>(k, st). (k, map_option (settle now) st)) (aModelStates a)"

lemma updateAggregatedAvailability_states:
  "aModelStates (updateAggregatedAvailability a now) = settled now a"
  by (cases "aModelStates a = []")
    (simp_all add: updateAggregatedAvailability_def fold_agg_step publish_aggregate_def Let_def)

text \<open>What the aggregation leaves alone.\<close>

lemma aggregate_frame [simp]:
  "aID (updateAggregatedAvailability a now) = aID a"
  "aProvider (updateAggregatedAvailability a now) = aProvider a"
  "aMetadata (updateAggregatedAvailability a now) = aMetadata a"
  "aAttributes (updateAggregatedAvailability a now) = aAttributes a"
  "aDisabled (updateAggregatedAvailability a now) = aDisabled a"
  "aUpdatedAt (updateAggregatedAvailability a now) = aUpdatedAt a"
  "aNextRefreshAfter (updateAggregatedAvailability a now) = aNextRefreshAfter a"
  "aProxyID (updateAggregatedAvailability a now) = aProxyID a"
  "aProxyURL (updateAggregatedAvailability a now) = aProxyURL a"
  by (simp_all add: updateAggregatedAvailability_def publish_aggregate_eq Let_def split: prod.split)

lemma settle_ahead: "now < msNextRetryAfter s \<Longrightarrow> msUnavailable s \<Longrightarrow> settle now s = s"
  by (cases s) (auto simp: settle_def availability_step_def Let_def)

lemma settle_quota [simp]: "msQuota (settle now s) = msQuota s" "msStatus (settle now s) = msStatus s"
  "msLastError (settle now s) = msLastError s" "msUpdatedAt (settle now s) = msUpdatedAt s"
  "msStatusMessage (settle now s) = msStatusMessage s"
  by (auto simp: settle_def availability_step_def Let_def)

lemma get_model_state_aggregate:
  assumes "map_of (aModelStates a) m = Some (Some s)"
  shows "get_model_state (updateAggregatedAvailability a now) m = settle now s"
proof -
  have "map_of (settled now a) m = map_option (map_option (settle now)) (map_of (aModelStates a) m)"
    by (simp add: map_of_map)
  with assms show ?thesis by (simp add: get_model_state_def updateAggregatedAvailability_states)
qed

lemma put_model_state_frame [simp]:
  "aModelStates (put_model_state a m s) = map_put m (Some s) (aModelStates a)"
  "aMetadata (put_model_state a m s) = aMetadata a" "aProvider (put_model_state a m s) = aProvider a"
  "aAttributes (put_model_state a m s) = aAttributes a" "aDisabled (put_model_state a m s) = aDisabled a"
  "aStatus (put_model_state a m s) = aStatus a" "aQuota (put_model_state a m s) = aQuota a"
  "aID (put_model_state a m s) = aID a" "IsAntigravityAuth (put_model_state a m s) = IsAntigravityAuth a"
  by (simp_all add: put_model_state_def IsAntigravityAuth_def)

lemma activeQuotaCooldown_settle [simp]:
  "activeModelQuotaCooldown (Some (settle now s)) now = activeModelQuotaCooldown (Some s) now"
  by (auto simp: activeModelQuotaCooldown_def settle_def availability_step_def Let_def
      activeQuotaCooldown_def quotaNeedsConfirmedRecovery_def)

lemma family_exceeded_settled [simp]:
  "family_exceeded now fam (map (\<lambda>(k, st). (k, map_option (settle now) st)) m) = family_exceeded now fam m"
  by (induction m) (auto simp: family_exceeded_def availability_step_settle split: option.split)

text \<open>
  What the aggregation over model states computes for a credential that is not an Antigravity account:
  the credential is unavailable exactly when each of its models is; then its retry time is the
  earliest of theirs, and otherwise it has none; its quota is exceeded when that of some model is, with
  the earliest known recovery time and the highest back-off level among the exceeded ones.
\<close>

theorem updateAggregatedAvailability_fields:
  assumes "0 \<le> now" "aModelStates a \<noteq> []" "\<not> IsAntigravityAuth a"
  shows "let a' = updateAggregatedAvailability a now;
             L = set (live_states (aModelStates a));
             Q = set (exceeded_quotas (live_states (aModelStates a)))
         in (aUnavailable a' \<longleftrightarrow> (\<forall>s \<in> L. state_unavailable now s)) \<and>
            aNextRetryAfter a' =
              (if aUnavailable a' then earliest_time (msNextRetryAfter ` {s \<in> L. timed_out now s}) else 0) \<and>
            (qExceeded (aQuota a') \<longleftrightarrow> Q \<noteq> {}) \<and>
            (qRecoveryRequired (aQuota a') \<longleftrightarrow> (\<exists>q \<in> Q. qRecoveryRequired q)) \<and>
            qNextRecoverAt (aQuota a') = earliest_time (qNextRecoverAt ` Q) \<and>
            qBackoffLevel (aQuota a') = Max (insert 0 (qBackoffLevel ` Q)) \<and>
            aStatus a' = aStatus a"
  using assms
  by (simp add: updateAggregatedAvailability_def fold_agg_step publish_aggregate_def Let_def live_agg_fields [OF assms(1)])
    (simp add: earliest_time_def)

text \<open>
  An Antigravity account reports an exceeded quota exactly when both of its pools hold an active quota
  cooldown; while one pool can still serve and only quota cooldowns block models, the account is
  available.
\<close>

theorem updateAggregatedAvailability_antigravity:
  assumes "IsAntigravityAuth a" "aModelStates a \<noteq> []"
  shows "let a' = updateAggregatedAvailability a now
         in (qExceeded (aQuota a') \<longleftrightarrow>
               family_exceeded now AntigravityFamilyGemini (aModelStates a) \<and>
               family_exceeded now AntigravityFamilyClaude (aModelStates a)) \<and>
            (\<not> qExceeded (aQuota a') \<longrightarrow> quotaOnlyModelUnavailability a' now \<longrightarrow>
               \<not> aUnavailable a' \<and> aNextRetryAfter a' = 0 \<and> aStatus a' \<noteq> StatusError)"
  using assms
  by (auto simp: updateAggregatedAvailability_def fold_agg_step publish_aggregate_def Let_def
      quotaOnlyModelUnavailability_def split: if_split_asm)

definition sample_auth :: auth where
  "sample_auth = \<lparr>aID = ''a'', aTenantID = '''', aIndex = '''', aProvider = ''codex'', aPrefix = '''',
     aFileName = '''', aLabel = '''', aStatus = StatusActive, aStatusMessage = '''', aDisabled = False,
     aUnavailable = False, aProxyURL = '''', aProxyID = '''', aAttributes = [], aMetadata = [],
     aQuota = zeroQuota, aLastError = None, aCreatedAt = 0, aUpdatedAt = 0, aLastRefreshedAt = 0,
     aNextRefreshAfter = 0, aNextRetryAfter = 0, aModelStates = [], aIndexAssigned = False\<rparr>"

definition sample_exhausted :: "gotime \<Rightarrow> model_state" where
  "sample_exhausted t = newModelState\<lparr>msStatus := StatusError, msUnavailable := True,
     msNextRetryAfter := t, msQuota := zeroQuota\<lparr>qExceeded := True, qNextRecoverAt := t, qBackoffLevel := 3\<rparr>\<rparr>"

theorem updateAggregatedAvailability_fields_witness:
  "let a' = updateAggregatedAvailability
              (sample_auth\<lparr>aModelStates := [(''m'', Some (sample_exhausted 9)), (''n'', Some (sample_exhausted 7))]\<rparr>) 5
   in aUnavailable a' \<and> aNextRetryAfter a' = 7 \<and> qNextRecoverAt (aQuota a') = 7 \<and> qBackoffLevel (aQuota a') = 3"
proof -
  let ?a = "sample_auth\<lparr>aModelStates := [(''m'', Some (sample_exhausted 9)), (''n'', Some (sample_exhausted 7))]\<rparr>"
  have l: "live_states [(''m'', Some (sample_exhausted 9)), (''n'', Some (sample_exhausted 7))] =
      [sample_exhausted 9, sample_exhausted 7]"
    by (simp add: live_states_def map_filter_simps)
  have q: "exceeded_quotas [sample_exhausted 9, sample_exhausted 7] =
      [msQuota (sample_exhausted 9), msQuota (sample_exhausted 7)]" by code_simp
  have p: "state_unavailable 5 (sample_exhausted 9)" "state_unavailable 5 (sample_exhausted 7)"
    "timed_out 5 (sample_exhausted 9)" "timed_out 5 (sample_exhausted 7)" by code_simp+
  have f: "msNextRetryAfter (sample_exhausted t) = t" "qNextRecoverAt (msQuota (sample_exhausted t)) = t"
    "qBackoffLevel (msQuota (sample_exhausted t)) = 3" for t by (simp_all add: sample_exhausted_def)
  have t: "{s. (s = sample_exhausted 9 \<or> s = sample_exhausted 7) \<and> timed_out 5 s} =
      {sample_exhausted 9, sample_exhausted 7}" using p by auto
  have e: "earliest_time {9, 7} = 7" by (simp add: earliest_time_insert) (simp add: earliest_time_def tmin_def)
  have "\<not> IsAntigravityAuth ?a" by code_simp
  from updateAggregatedAvailability_fields [OF _ _ this, of 5] show ?thesis
    by (simp add: l q p f t e Let_def)
qed

theorem updateAggregatedAvailability_antigravity_witness:
  "let a = sample_auth\<lparr>aProvider := ''antigravity'', aStatus := StatusError,
             aModelStates := [(''claude-opus'', Some (sample_exhausted 9))]\<rparr>;
       a' = updateAggregatedAvailability a 5
   in \<not> qExceeded (aQuota a') \<and> \<not> aUnavailable a' \<and> aStatus a' \<noteq> StatusError"
proof -
  let ?a = "sample_auth\<lparr>aProvider := ''antigravity'', aStatus := StatusError,
             aModelStates := [(''claude-opus'', Some (sample_exhausted 9))]\<rparr>"
  have "IsAntigravityAuth ?a" "aModelStates ?a \<noteq> []"
    "\<not> family_exceeded 5 AntigravityFamilyGemini (aModelStates ?a)"
    "quotaOnlyModelUnavailability (updateAggregatedAvailability ?a 5) 5" by code_simp+
  then show ?thesis
    using updateAggregatedAvailability_antigravity [of ?a 5] by (simp only: Let_def) blast
qed

section \<open>Iteration order and repetition\<close>

text \<open>The record without the fields that depend on the order in which Go iterates over the map.\<close>

definition forget_order :: "auth \<Rightarrow> auth" where
  "forget_order a = a\<lparr>aModelStates := [], aQuota := (aQuota a)\<lparr>qWindow := '''', qWindowMinutes := 0\<rparr>\<rparr>"

lemma set_live_states: "set (live_states m) = {s. \<exists>k. (k, Some s) \<in> set m}"
  by (force simp: live_states_def List.map_filter_def)

lemma forget_order_publish:
  assumes "agAllUnavailable g' = agAllUnavailable g" "agEarliestRetry g' = agEarliestRetry g"
    and "agExceeded g' = agExceeded g" "agRecoveryRequired g' = agRecoveryRequired g"
    and "agRecover g' = agRecover g" "agMaxBackoff g' = agMaxBackoff g"
    and "all_families now m' = all_families now m" "quota_only now m' = quota_only now m"
  shows "forget_order (publish_aggregate now g' m' (a\<lparr>aModelStates := x\<rparr>)) =
         forget_order (publish_aggregate now g m a)"
proof -
  have u: "agg_unavailable now b g' m' = agg_unavailable now b g m" for b
    using assms by (simp add: agg_unavailable_def)
  then have r: "agg_recovers now b g' m' = agg_recovers now b g m" for b
    using assms by (simp add: agg_recovers_def)
  have q: "(agg_quota now b g' m')\<lparr>qWindow := w, qWindowMinutes := n\<rparr> =
      (agg_quota now b g m)\<lparr>qWindow := w, qWindowMinutes := n\<rparr>" for b w n
    using assms by (simp add: agg_quota_def)
  show ?thesis by (simp add: publish_aggregate_eq forget_order_def Let_def u r q assms(2))
qed

text \<open>
  The outcome of the aggregation does not depend on the order in which Go iterates over the map of model
  states, up to the reported name of the exhausted window.
\<close>

theorem updateAggregatedAvailability_order:
  assumes "0 \<le> now" "mset (aModelStates a) = mset ms"
  shows "forget_order (updateAggregatedAvailability (a\<lparr>aModelStates := ms\<rparr>) now) =
           forget_order (updateAggregatedAvailability a now) \<and>
         mset (aModelStates (updateAggregatedAvailability (a\<lparr>aModelStates := ms\<rparr>) now)) =
           mset (aModelStates (updateAggregatedAvailability a now))"
proof (cases "aModelStates a = []")
  case True
  with assms(2) have "ms = aModelStates a" by simp
  then show ?thesis by simp
next
  case False
  let ?b = "a\<lparr>aModelStates := ms\<rparr>"
  let ?f = "\<lambda>m. map (\<lambda>(k, st). (k, map_option (settle now) st)) m"
  have ne: "ms \<noteq> []" using assms(2) False by auto
  have eqs: "set (aModelStates a) = set ms" "set (live_states (aModelStates a)) = set (live_states ms)"
    using mset_eq_setD [OF assms(2)] by (simp_all add: set_live_states)
  then have q: "set (exceeded_quotas (live_states (aModelStates a))) = set (exceeded_quotas (live_states ms))"
    by (simp add: exceeded_quotas_def)
  have g: "agAllUnavailable (live_agg now ?b) = agAllUnavailable (live_agg now a)"
    "agEarliestRetry (live_agg now ?b) = agEarliestRetry (live_agg now a)"
    "agExceeded (live_agg now ?b) = agExceeded (live_agg now a)"
    "agRecoveryRequired (live_agg now ?b) = agRecoveryRequired (live_agg now a)"
    "agRecover (live_agg now ?b) = agRecover (live_agg now a)"
    "agMaxBackoff (live_agg now ?b) = agMaxBackoff (live_agg now a)"
    unfolding live_agg_fields [OF assms(1)] by (simp_all add: eqs q)
  have "family_exceeded now fam ms = family_exceeded now fam (aModelStates a)" for fam
    by (simp add: family_exceeded_def list_ex_iff eqs)
  then have st: "all_families now (?f ms) = all_families now (?f (aModelStates a))"
    "quota_only now (?f ms) = quota_only now (?f (aModelStates a))"
    by (simp_all add: all_families_def quota_only_def list_all_iff eqs)
  have "mset (?f ms) = mset (?f (aModelStates a))" using assms(2) by simp
  then have "mset (aModelStates (updateAggregatedAvailability ?b now)) =
      mset (aModelStates (updateAggregatedAvailability a now))"
    by (simp add: updateAggregatedAvailability_states)
  moreover have "forget_order (publish_aggregate now (live_agg now ?b) (?f ms) ?b) =
      forget_order (publish_aggregate now (live_agg now a) (?f (aModelStates a)) a)"
    by (rule forget_order_publish) (use st g in simp_all)
  then have "forget_order (updateAggregatedAvailability ?b now) = forget_order (updateAggregatedAvailability a now)"
    using ne False by (simp add: updateAggregatedAvailability_def fold_agg_step)
  ultimately show ?thesis by simp
qed

theorem updateAggregatedAvailability_order_witness:
  "aUnavailable (updateAggregatedAvailability (sample_auth\<lparr>aModelStates :=
      [(''n'', Some newModelState), (''m'', Some (sample_exhausted 9))]\<rparr>) 5) =
   aUnavailable (updateAggregatedAvailability (sample_auth\<lparr>aModelStates :=
      [(''m'', Some (sample_exhausted 9)), (''n'', Some newModelState)]\<rparr>) 5)"
proof -
  let ?a = "sample_auth\<lparr>aModelStates := [(''m'', Some (sample_exhausted 9)), (''n'', Some newModelState)]\<rparr>"
  have "aUnavailable (forget_order (updateAggregatedAvailability (?a\<lparr>aModelStates :=
      [(''n'', Some newModelState), (''m'', Some (sample_exhausted 9))]\<rparr>) 5)) =
    aUnavailable (forget_order (updateAggregatedAvailability ?a 5))"
    by (subst updateAggregatedAvailability_order [THEN conjunct1]) simp_all
  then show ?thesis by (simp add: forget_order_def)
qed

lemma settle_settle:
  "state_unavailable now (settle now s) = state_unavailable now s"
  "settle now (settle now s) = settle now s"
  "0 \<le> now \<Longrightarrow> timed_out now (settle now s) = timed_out now s"
  "timed_out now s \<Longrightarrow> msNextRetryAfter (settle now s) = msNextRetryAfter s"
  by (auto simp: settle_def availability_step_def Let_def state_unavailable_def timed_out_def
      quotaNeedsConfirmedRecovery_def)

lemma live_step_settle: "0 \<le> now \<Longrightarrow> live_step now (settle now s) g = live_step now s g"
  by (simp add: live_step_def availability_step_eq settle_settle availability_step_settle)

lemma fold_live_step_settled:
  "0 \<le> now \<Longrightarrow>
     fold (live_step now) (live_states (map (\<lambda>(k, st). (k, map_option (settle now) st)) m)) g =
     fold (live_step now) (live_states m) g"
  by (induction m arbitrary: g)
    (auto simp: live_states_def map_filter_simps live_step_settle split: option.split)

lemma publish_aggregate_states: "aModelStates (publish_aggregate now g states a) = states"
  by (simp add: publish_aggregate_def Let_def)

lemma publish_aggregate_antigravity: "IsAntigravityAuth (publish_aggregate now g states a) = IsAntigravityAuth a"
  by (simp add: publish_aggregate_def Let_def IsAntigravityAuth_def)

lemma publish_aggregate_fields:
  "aUnavailable (publish_aggregate now g states a) = agg_unavailable now (IsAntigravityAuth a) g states"
  "aNextRetryAfter (publish_aggregate now g states a) =
     (if agg_unavailable now (IsAntigravityAuth a) g states then agEarliestRetry g else 0)"
  "aQuota (publish_aggregate now g states a) = agg_quota now (IsAntigravityAuth a) g states"
  "agg_recovers now (IsAntigravityAuth a) g states \<Longrightarrow>
     aStatus (publish_aggregate now g states a) \<noteq> StatusError"
  by (simp_all add: publish_aggregate_eq Let_def)

lemma publish_aggregate_idem:
  "publish_aggregate now g states (publish_aggregate now g states a) = publish_aggregate now g states a"
proof -
  define b where "b = publish_aggregate now g states a"
  have anti: "IsAntigravityAuth b = IsAntigravityAuth a"
    unfolding b_def by (rule publish_aggregate_antigravity)
  have st: "aModelStates b = states" unfolding b_def by (rule publish_aggregate_states)
  note f = publish_aggregate_fields [where now = now and g = g and states = states and a = a, folded b_def anti]
  have nr: "\<not> (agg_recovers now (IsAntigravityAuth b) g states \<and> aStatus b = StatusError)"
    using f(4) by blast
  have "publish_aggregate now g states b = b"
    by (rule auth.equality) (simp_all only: publish_aggregate_eq Let_def nr, simp_all add: f(1-3) st)
  then show ?thesis by (simp add: b_def)
qed

text \<open>
  Aggregating twice at one instant is the same as aggregating once.
\<close>

theorem updateAggregatedAvailability_idem:
  assumes "0 \<le> now"
  shows "updateAggregatedAvailability (updateAggregatedAvailability a now) now =
         updateAggregatedAvailability a now"
proof (cases "aModelStates a = []")
  case True
  then show ?thesis by (simp add: updateAggregatedAvailability_def)
next
  case False
  have "map (\<lambda>(k, st). (k, map_option (settle now) st)) (settled now a) = settled now a"
    by (auto simp: settle_settle option.map_comp comp_def)
  then show ?thesis
    unfolding updateAggregatedAvailability_def fold_agg_step prod.case append_Nil
    using False by (simp only: publish_aggregate_states fold_live_step_settled [OF assms]
        publish_aggregate_idem if_False map_is_Nil_conv)
qed

theorem updateAggregatedAvailability_idem_witness:
  "updateAggregatedAvailability (updateAggregatedAvailability
     (sample_auth\<lparr>aModelStates := [(''m'', Some (sample_exhausted 9)), (''n'', None)]\<rparr>) 5) 5 =
   updateAggregatedAvailability
     (sample_auth\<lparr>aModelStates := [(''m'', Some (sample_exhausted 9)), (''n'', None)]\<rparr>) 5"
  by (rule updateAggregatedAvailability_idem) simp

section \<open>Copies lose the quota window of an error\<close>

text \<open>
  Copying a model state keeps every field, except that the last error of the copy has lost the quota
  window it named: only an error without a window survives a copy unchanged.
\<close>

theorem ModelState_Clone_eq_iff:
  "ModelState_Clone (Some s) = Some s \<longleftrightarrow>
     (case msLastError s of None \<Rightarrow> True
      | Some e \<Rightarrow> eQuotaWindow e = '''' \<and> eQuotaWindowMinutes e = 0)"
proof (cases "msLastError s")
  case (Some e)
  then have "ModelState_Clone (Some s) = Some s \<longleftrightarrow> e\<lparr>eQuotaWindow := '''', eQuotaWindowMinutes := 0\<rparr> = e"
    by (cases s; cases e) (simp add: ModelState_Clone_def)
  with Some show ?thesis by (cases e) (auto simp: eq_commute)
qed (simp add: ModelState_Clone_def)

section \<open>Failures\<close>

definition quotaBackoffBase :: duration where "quotaBackoffBase = second"
definition quotaBackoffMax :: duration where "quotaBackoffMax = 30 * minute"
definition quotaWindowMaxCooldown :: duration where "quotaWindowMaxCooldown = 7 * 24 * hour"

lemmas cooldown_defs [go_defs] = quotaBackoffBase_def quotaBackoffMax_def quotaWindowMaxCooldown_def

definition isUsageBalanceExhaustedMessage :: "string \<Rightarrow> bool" where
  "isUsageBalanceExhaustedMessage msg =
     (let l = to_lower (trim_space msg)
      in l \<noteq> '''' \<and> (contains l ''usage balance exhausted'' \<or> contains l ''balance exhausted''))"

definition isXAIWeekBalanceExhaustedError :: "error option \<Rightarrow> bool" where
  "isXAIWeekBalanceExhaustedError e =
     (case e of None \<Rightarrow> False
      | Some x \<Rightarrow> isUsageBalanceExhaustedMessage (eMessage x) \<and>
          (equal_fold (trim_space (eQuotaWindow x)) ''week'' \<or> eQuotaWindowMinutes x = 10080))"

definition isQuotaExhaustionError :: "error option \<Rightarrow> duration option \<Rightarrow> bool" where
  "isQuotaExhaustionError e retryAfter =
     (case e of None \<Rightarrow> False
      | Some x \<Rightarrow>
          if eQuotaWindow x \<noteq> '''' \<or> 0 < eQuotaWindowMinutes x then True
          else if (case retryAfter of Some d \<Rightarrow> 0 < d | None \<Rightarrow> False) \<and>
                  isUsageBalanceExhaustedMessage (eMessage x) then True
          else isUsageBalanceExhaustedMessage (eMessage x))"

text \<open>\<^verbatim>\<open>1<<prevLevel\<close> is evaluated at 64 bits, and so is the product with the base.\<close>

definition nextQuotaCooldown :: "int \<Rightarrow> bool \<Rightarrow> duration \<times> int" where
  "nextQuotaCooldown prevLevel0 disableCooling =
     (let prevLevel = (if prevLevel0 < 0 then 0 else prevLevel0)
      in if disableCooling then (0, prevLevel)
         else
           let c0 = wrap64 (quotaBackoffBase * wrap64 (2 ^ nat prevLevel));
               cooldown = (if c0 < quotaBackoffBase then quotaBackoffBase else c0)
           in if quotaBackoffMax \<le> cooldown then (quotaBackoffMax, prevLevel)
              else (cooldown, wrap64 (prevLevel + 1)))"

definition quotaWindowFallbackCooldown :: "error option \<Rightarrow> duration" where
  "quotaWindowFallbackCooldown e =
     (case e of
        Some x \<Rightarrow>
          (let window = wrap64 (eQuotaWindowMinutes x * minute)
           in if 0 < eQuotaWindowMinutes x \<and> window < quotaWindowMaxCooldown then window
              else quotaWindowMaxCooldown)
      | None \<Rightarrow> quotaWindowMaxCooldown)"

definition quotaFailureCooldown ::
  "error option \<Rightarrow> duration option \<Rightarrow> int \<Rightarrow> bool \<Rightarrow> duration \<times> int" where
  "quotaFailureCooldown e retryAfter prevLevel disableCooling =
     (case retryAfter of
        Some d \<Rightarrow> (d, prevLevel)
      | None \<Rightarrow>
          if disableCooling then (0, prevLevel)
          else if isXAIWeekBalanceExhaustedError e then (quotaWindowFallbackCooldown e, prevLevel)
          else nextQuotaCooldown prevLevel False)"

definition applyAuthQuotaFailureState ::
  "bool \<Rightarrow> auth \<Rightarrow> error option \<Rightarrow> duration option \<Rightarrow> gotime \<Rightarrow> auth" where
  "applyAuthQuotaFailureState off a e retryAfter now =
     (let disableCooling = quotaCooldownDisabledForAuth off a;
          (cooldown, nextLevel) = quotaFailureCooldown e retryAfter (qBackoffLevel (aQuota a)) disableCooling;
          next = (if 0 < cooldown then now + cooldown else 0);
          q0 = (aQuota a)\<lparr>qExceeded := True,
                 qRecoveryRequired := \<not> disableCooling \<and> isXAIWeekBalanceExhaustedError e,
                 qReason := ''quota''\<rparr>;
          q1 = (case e of None \<Rightarrow> q0
                | Some x \<Rightarrow> q0\<lparr>qWindow := eQuotaWindow x, qWindowMinutes := eQuotaWindowMinutes x\<rparr>)
      in a\<lparr>aStatusMessage := (case e of
                Some x \<Rightarrow> if eMessage x \<noteq> '''' then eMessage x else ''quota exhausted''
              | None \<Rightarrow> ''quota exhausted''),
           aQuota := q1\<lparr>qBackoffLevel := nextLevel, qNextRecoverAt := next\<rparr>,
           aNextRetryAfter := next\<rparr>)"

definition applyAuthFailureState ::
  "bool \<Rightarrow> auth \<Rightarrow> error option \<Rightarrow> duration option \<Rightarrow> gotime \<Rightarrow> auth" where
  "applyAuthFailureState off a e retryAfter now =
     (let a0 = a\<lparr>aUnavailable := True, aStatus := StatusError, aUpdatedAt := now\<rparr>;
          a1 = (case e of None \<Rightarrow> a0
                | Some x \<Rightarrow>
                    let b = a0\<lparr>aLastError := cloneError e\<rparr>
                    in if eMessage x \<noteq> '''' then b\<lparr>aStatusMessage := eMessage x\<rparr> else b);
          code = statusCodeFromResult e
      in if code = 402 \<and> isQuotaExhaustionError e retryAfter
         then applyAuthQuotaFailureState off a1 e retryAfter now
         else if code = 401
         then a1\<lparr>aStatusMessage := ''unauthorized'', aNextRetryAfter := now + 30 * minute\<rparr>
         else if code = 402 \<or> code = 403
         then a1\<lparr>aStatusMessage := ''payment_required'', aNextRetryAfter := now + 30 * minute\<rparr>
         else if code = 404
         then a1\<lparr>aStatusMessage := ''not_found'', aNextRetryAfter := now + 12 * hour\<rparr>
         else if code = 429 then applyAuthQuotaFailureState off a1 e retryAfter now
         else if code \<in> set [408, 500, 502, 503, 504]
         then a1\<lparr>aStatusMessage := ''transient upstream error'',
                 aNextRetryAfter :=
                   (if quotaCooldownDisabledForAuth off a1 then 0 else now + 1 * minute)\<rparr>
         else if aStatusMessage a1 = '''' then a1\<lparr>aStatusMessage := ''request failed''\<rparr>
         else a1)"

lemma nextQuotaCooldown_exact:
  assumes "0 \<le> n" "n \<le> 11"
  shows "nextQuotaCooldown n False =
    (min (quotaBackoffBase * 2 ^ nat n) quotaBackoffMax, min (n + 1) 11)"
proof -
  have "list_all (\<lambda>k. nextQuotaCooldown (int k) False =
      (min (quotaBackoffBase * 2 ^ k) quotaBackoffMax, min (int k + 1) 11)) [0..<12]"
    by code_simp
  moreover have "nat n \<in> set [0..<12]" using assms by auto
  ultimately have "nextQuotaCooldown (int (nat n)) False =
      (min (quotaBackoffBase * 2 ^ nat n) quotaBackoffMax, min (int (nat n) + 1) 11)"
    unfolding list_all_iff by (rule bspec)
  with assms show ?thesis by simp
qed

definition backoff_wf :: "quota_state \<Rightarrow> bool" where
  "backoff_wf q \<longleftrightarrow> 0 \<le> qBackoffLevel q \<and> qBackoffLevel q \<le> 11"

lemma quotaFailureCooldown_level:
  "0 \<le> n \<Longrightarrow> n \<le> 11 \<Longrightarrow> 0 \<le> snd (quotaFailureCooldown e r n d) \<and> snd (quotaFailureCooldown e r n d) \<le> 11"
  by (auto simp: quotaFailureCooldown_def nextQuotaCooldown_exact split: option.split)

text \<open>
  The back-off for repeated quota errors doubles from one second at level 0 up to the cap of thirty minutes,
  which it reaches at level 11 and where the level stays, so the 64-bit shift never overflows; at every
  level, even an impossible one, the cooldown lies between the base and the cap.
\<close>

theorem nextQuotaCooldown_doubles:
  "(\<forall>n \<in> {0..11}. nextQuotaCooldown n False =
      (min (quotaBackoffBase * 2 ^ nat n) quotaBackoffMax, min (n + 1) 11)) \<and>
   quotaBackoffBase \<le> fst (nextQuotaCooldown n False) \<and>
   fst (nextQuotaCooldown n False) \<le> quotaBackoffMax"
  using nextQuotaCooldown_exact
  by (auto simp: nextQuotaCooldown_def Let_def go_defs)

theorem nextQuotaCooldown_doubles_witness:
  "nextQuotaCooldown 3 False = (8 * second, 4) \<and> nextQuotaCooldown 11 False = (30 * minute, 11)"
  using nextQuotaCooldown_doubles [of 3] by (auto simp: go_defs)

lemma quotaWindowFallbackCooldown_le: "quotaWindowFallbackCooldown e \<le> quotaWindowMaxCooldown"
  by (auto simp: quotaWindowFallbackCooldown_def Let_def split: option.split)

lemma nextQuotaCooldown_range:
  "quotaBackoffBase \<le> fst (nextQuotaCooldown n False) \<and> fst (nextQuotaCooldown n False) \<le> quotaBackoffMax"
  by (auto simp: nextQuotaCooldown_def Let_def go_defs)

lemma quotaFailureCooldown_le: "fst (quotaFailureCooldown e None n d) \<le> quotaWindowMaxCooldown"
  using nextQuotaCooldown_range [of n] quotaWindowFallbackCooldown_le [of e]
  by (auto simp: quotaFailureCooldown_def go_defs)

lemma applyAuthQuotaFailureState_fields:
  "backoff_wf (aQuota a) \<Longrightarrow> backoff_wf (aQuota (applyAuthQuotaFailureState off a e r now))"
  "aNextRetryAfter (applyAuthQuotaFailureState off a e r now) =
     (let c = fst (quotaFailureCooldown e r (qBackoffLevel (aQuota a)) (quotaCooldownDisabledForAuth off a))
      in if 0 < c then now + c else 0)"
  "aUnavailable (applyAuthQuotaFailureState off a e r now) = aUnavailable a"
  "aStatus (applyAuthQuotaFailureState off a e r now) = aStatus a"
  "aModelStates (applyAuthQuotaFailureState off a e r now) = aModelStates a"
  using quotaFailureCooldown_level [of "qBackoffLevel (aQuota a)" e r "quotaCooldownDisabledForAuth off a"]
  by (auto simp: applyAuthQuotaFailureState_def Let_def backoff_wf_def split: prod.split option.split)

text \<open>
  A failure recorded against a credential always marks it unavailable and in error, keeps the back-off level
  within 0 to 11, and, when the upstream names no retry time, puts the next retry at most seven days
  ahead, or leaves the earlier retry time where the status code says nothing about waiting.
\<close>

theorem applyAuthFailureState_sound:
  assumes "backoff_wf (aQuota a)" "0 \<le> now"
  shows "let a' = applyAuthFailureState off a e r now
         in aUnavailable a' \<and> aStatus a' = StatusError \<and> backoff_wf (aQuota a') \<and>
            aModelStates a' = aModelStates a \<and>
            (r = None \<longrightarrow> aNextRetryAfter a' \<le> now + quotaWindowMaxCooldown \<or>
                        aNextRetryAfter a' = aNextRetryAfter a)"
proof -
  define a1 where "a1 = (case e of None \<Rightarrow> a\<lparr>aUnavailable := True, aStatus := StatusError, aUpdatedAt := now\<rparr>
      | Some x \<Rightarrow> let b = a\<lparr>aUnavailable := True, aStatus := StatusError, aUpdatedAt := now, aLastError := cloneError e\<rparr>
                 in if eMessage x \<noteq> '''' then b\<lparr>aStatusMessage := eMessage x\<rparr> else b)"
  have a1: "aUnavailable a1" "aStatus a1 = StatusError" "aQuota a1 = aQuota a"
    "aModelStates a1 = aModelStates a" "aNextRetryAfter a1 = aNextRetryAfter a"
    by (simp_all add: a1_def Let_def split: option.split)
  have q: "aNextRetryAfter (applyAuthQuotaFailureState off a1 e None now) \<le> now + quotaWindowMaxCooldown"
    using quotaFailureCooldown_le [of e] assms(2)
    by (auto simp: applyAuthQuotaFailureState_fields Let_def) (simp add: go_defs)
  show ?thesis
    unfolding applyAuthFailureState_def Let_def a1_def [unfolded Let_def, symmetric]
    using assms a1 q applyAuthQuotaFailureState_fields(1) [of a1]
    by (auto simp: applyAuthQuotaFailureState_fields) (simp_all add: go_defs)
qed

theorem applyAuthFailureState_sound_witness:
  "let a' = applyAuthFailureState False sample_auth
              (Some \<lparr>eCode = '''', eMessage = ''no'', eRetryable = False, eHTTPStatus = 429,
                     eQuotaWindow = '''', eQuotaWindowMinutes = 0\<rparr>) None 100
   in aUnavailable a' \<and> backoff_wf (aQuota a') \<and> aNextRetryAfter a' = 100 + second"
proof -
  let ?e = "Some \<lparr>eCode = '''', eMessage = ''no'', eRetryable = False, eHTTPStatus = 429,
                     eQuotaWindow = '''', eQuotaWindowMinutes = 0\<rparr>"
  have "backoff_wf (aQuota sample_auth)" by code_simp
  moreover have "aNextRetryAfter (applyAuthFailureState False sample_auth ?e None 100) = 100 + second"
    by code_simp
  ultimately show ?thesis
    using applyAuthFailureState_sound [of sample_auth 100 False ?e None] by (simp add: Let_def)
qed

end
