(* ===== verification/Claude_Health.thy ===== *)
theory Claude_Health
  imports Auth_State
begin

text \<open>
  The health record of Claude OAuth credentials (\<^verbatim>\<open>src/sdk/cliproxy/auth/claude_oauth_health.go\<close>) and the
  token lookup it relies on (\<^verbatim>\<open>conductor_refresh_recovery.go\<close>): the rate-limit windows read from the response
  headers, and the failures that take such a credential out of rotation.

  Header names are looked up in their canonical form.  Times are rendered in UTC as RFC 3339 with the
  fraction stripped of trailing zeros.  A utilisation is read in decimal notation, with an optional
  fraction and exponent, and is the exact rational; the hexadecimal, underscore and infinity spellings
  that \<^verbatim>\<open>strconv.ParseFloat\<close> also accepts are not numbers here.
\<close>

section \<open>Library operations\<close>

text \<open>\<^verbatim>\<open>http.Header\<close>: canonical names with their values.\<close>

type_synonym headers = "(string, string list) gomap"

definition upper_char :: "char \<Rightarrow> char" where
  "upper_char c = (if 97 \<le> (of_char c :: nat) \<and> (of_char c :: nat) \<le> 122
                   then char_of ((of_char c :: nat) - 32) else c)"

fun canonical_key :: "bool \<Rightarrow> string \<Rightarrow> string" where
  "canonical_key up [] = []"
| "canonical_key up (c # cs) =
     (if up then upper_char c else lower_char c) # canonical_key (c = CHR ''-'') cs"

definition header_get :: "headers \<Rightarrow> string \<Rightarrow> string" where
  "header_get h k =
     (case map_of h (canonical_key True k) of Some (v # _) \<Rightarrow> v | _ \<Rightarrow> '''')"

text \<open>Decimal digits of a number, left-padded with zeros to a width.\<close>

definition pad_zeros :: "nat \<Rightarrow> string \<Rightarrow> string" where
  "pad_zeros w s = replicate (w - length s) (CHR ''0'') @ s"

text \<open>Year, month and day of a day number counted from 0001-01-01, in the Gregorian calendar.\<close>

definition civil_date :: "int \<Rightarrow> int \<times> int \<times> int" where
  "civil_date days =
     (let z = days + 306;
          era = z div 146097;
          doe = z mod 146097;
          yoe = (doe - doe div 1460 + doe div 36524 - doe div 146096) div 365;
          doy = doe - (365 * yoe + yoe div 4 - yoe div 100);
          mp = (5 * doy + 2) div 153;
          d = doy - (153 * mp + 2) div 5 + 1;
          m = (if mp < 10 then mp + 3 else mp - 9)
      in (yoe + 400 * era + (if m \<le> 2 then 1 else 0), m, d))"

definition fraction_digits :: "int \<Rightarrow> string" where
  "fraction_digits ns =
     (if ns = 0 then ''''
      else ''.'' @ rev (dropWhile (\<lambda>c. c = CHR ''0'') (rev (pad_zeros 9 (itoa ns)))))"

definition format_rfc3339nano :: "gotime \<Rightarrow> string" where
  "format_rfc3339nano t =
     (let secs = t div second;
          tod = secs mod 86400;
          (y, m, d) = civil_date (secs div 86400)
      in pad_zeros 4 (itoa y) @ ''-'' @ pad_zeros 2 (itoa m) @ ''-'' @ pad_zeros 2 (itoa d) @ ''T'' @
         pad_zeros 2 (itoa (tod div 3600)) @ '':'' @ pad_zeros 2 (itoa (tod div 60 mod 60)) @ '':'' @
         pad_zeros 2 (itoa (tod mod 60)) @ fraction_digits (t mod second) @ ''Z'')"

text \<open>Seconds from the zero time to the Unix epoch, and \<^verbatim>\<open>time.Unix(s, 0)\<close>.\<close>

definition unix_epoch :: int where "unix_epoch = 62135596800"

definition time_unix :: "int \<Rightarrow> gotime" where
  "time_unix s = (s + unix_epoch) * second"

text \<open>\<^verbatim>\<open>strconv.ParseFloat\<close> on decimal notation.\<close>

definition parse_exponent :: "string \<Rightarrow> int option" where
  "parse_exponent s = (if s = '''' then Some 0
     else if hd s = CHR ''e'' \<or> hd s = CHR ''E'' then atoi (tl s) else None)"

definition parse_float :: "string \<Rightarrow> rat option" where
  "parse_float s =
     (let neg = (s \<noteq> [] \<and> hd s = CHR ''-'');
          u = (if s \<noteq> [] \<and> (hd s = CHR ''-'' \<or> hd s = CHR ''+'') then tl s else s);
          ip = takeWhile is_digit u;
          r = dropWhile is_digit u;
          dot = (r \<noteq> [] \<and> hd r = CHR ''.'');
          fp = (if dot then takeWhile is_digit (tl r) else []);
          e = (if dot then dropWhile is_digit (tl r) else r);
          m = of_int (digits_value 0 (ip @ fp)) / 10 ^ length fp
      in if ip @ fp = [] then None
         else map_option (\<lambda>x. (if neg then - 1 else 1) * m * (if 0 \<le> x then 10 ^ nat x else 1 / 10 ^ nat (- x)))
                (parse_exponent e))"

section \<open>Tokens of a credential\<close>

fun tokenValueFromMap :: "(string, goany) gomap \<Rightarrow> string list \<Rightarrow> string" where
  "tokenValueFromMap m [] = ''''"
| "tokenValueFromMap m (k # ks) =
     (case map_of m k of
        Some (AStr s) \<Rightarrow> if trim_space s \<noteq> '''' then trim_space s else tokenValueFromMap m ks
      | Some (ABytes s) \<Rightarrow> if trim_space s \<noteq> '''' then trim_space s else tokenValueFromMap m ks
      | _ \<Rightarrow> tokenValueFromMap m ks)"

text \<open>The loop over a \<^verbatim>\<open>map[string]string\<close>, and one nested key.\<close>

fun token_from_strings :: "(string, string) gomap \<Rightarrow> string list \<Rightarrow> string" where
  "token_from_strings m [] = ''''"
| "token_from_strings m (k # ks) =
     (if trim_space (map_get '''' m k) \<noteq> '''' then trim_space (map_get '''' m k)
      else token_from_strings m ks)"

definition nested_token :: "goany option \<Rightarrow> string list \<Rightarrow> string" where
  "nested_token v keys =
     (case v of
        Some (AMap m) \<Rightarrow> tokenValueFromMap m keys
      | Some (AStrMap m) \<Rightarrow> token_from_strings m keys
      | _ \<Rightarrow> '''')"

definition authTokenValue :: "auth \<Rightarrow> string list \<Rightarrow> string" where
  "authTokenValue a keys =
     (let top = tokenValueFromMap (aMetadata a) keys;
          n1 = nested_token (map_of (aMetadata a) ''token'') keys
      in if top \<noteq> '''' then top
         else if n1 \<noteq> '''' then n1
         else nested_token (map_of (aMetadata a) ''Token'') keys)"

definition authRefreshToken :: "auth \<Rightarrow> string" where
  "authRefreshToken a = authTokenValue a [''refresh_token'', ''refreshToken'']"

definition isClaudeOAuthAuth :: "auth \<Rightarrow> bool" where
  "isClaudeOAuthAuth a \<longleftrightarrow>
     equal_fold (trim_space (aProvider a)) ''claude'' \<and>
     (authRefreshToken a \<noteq> '''' \<or> authTokenValue a [''access_token'', ''accessToken''] \<noteq> '''' \<or>
      equal_fold (meta_trimmed (aMetadata a) ''type'') ''claude'' \<or>
      equal_fold (fst (AccountInfo a)) ''oauth'')"

section \<open>Results and their effects\<close>

record result =
  rAuthID :: string
  rProvider :: string
  rModel :: string
  rSuccess :: bool
  rRetryAfter :: "duration option"
  rHeaders :: headers
  rError :: "error option"

record effects =
  fShouldResume :: bool
  fShouldSuspend :: bool
  fSuspendReason :: string
  fClearQuota :: bool
  fSetQuota :: bool

definition no_effects :: effects where
  "no_effects = \<lparr>fShouldResume = False, fShouldSuspend = False, fSuspendReason = '''',
                 fClearQuota = False, fSetQuota = False\<rparr>"

section \<open>Rate-limit windows\<close>

record window_spec =
  wsHeaderKey :: string
  wsPayloadKey :: string
  wsWindow :: string
  wsMinutes :: int
  wsMaxFuture :: duration
  wsReason :: string

record window_decision =
  wdWindow :: string
  wdMinutes :: int
  wdReason :: string
  wdResetAt :: gotime

definition claudeOAuthRateLimitSpecs :: "window_spec list" where
  "claudeOAuthRateLimitSpecs =
     [\<lparr>wsHeaderKey = ''5h'', wsPayloadKey = ''five_hour'', wsWindow = ''5h'', wsMinutes = 300,
       wsMaxFuture = 6 * hour, wsReason = ''anthropic_5h_window_exhausted''\<rparr>,
      \<lparr>wsHeaderKey = ''7d'', wsPayloadKey = ''seven_day'', wsWindow = ''7d'', wsMinutes = 7 * 24 * 60,
       wsMaxFuture = 8 * 24 * hour, wsReason = ''anthropic_7d_window_exhausted''\<rparr>]"

definition formatClaudeOAuthHealthTime :: "gotime \<Rightarrow> string" where
  "formatClaudeOAuthHealthTime ts = (if ts = 0 then '''' else format_rfc3339nano ts)"

definition parseClaudeOAuthReset :: "string \<Rightarrow> gotime \<Rightarrow> duration \<Rightarrow> gotime \<times> bool" where
  "parseClaudeOAuthReset raw now maxFuture =
     (if trim_space raw = '''' then (0, False)
      else case atoi (trim_space raw) of
             None \<Rightarrow> (0, False)
           | Some p0 \<Rightarrow>
               if p0 \<le> 0 then (0, False)
               else
                 let p = (if 100000000000 < p0 then p0 div 1000 else p0);
                     resetAt = time_unix p
                 in if \<not> now < resetAt then (0, False)
                    else if 0 < maxFuture \<and> maxFuture < time_sub resetAt now then (0, False)
                    else (resetAt, True))"

definition parseClaudeOAuthUtilization :: "string \<Rightarrow> rat option" where
  "parseClaudeOAuthUtilization raw =
     (if trim_space raw = '''' then None else parse_float (trim_space raw))"

definition parseClaudeOAuthBool :: "string \<Rightarrow> bool option" where
  "parseClaudeOAuthBool raw =
     (let t = to_lower (trim_space raw)
      in if t \<in> set [''true'', ''1'', ''yes''] then Some True
         else if t \<in> set [''false'', ''0'', ''no''] then Some False
         else None)"

text \<open>The result is nil when no header of the window is present.\<close>

definition parseClaudeOAuthWindow ::
  "headers \<Rightarrow> window_spec \<Rightarrow> gotime \<Rightarrow> ((string, goany) gomap \<times> bool \<times> gotime) option" where
  "parseClaudeOAuthWindow h spec now =
     (let pre = ''anthropic-ratelimit-unified-'' @ wsHeaderKey spec @ ''-'';
          status = to_lower (trim_space (header_get h (pre @ ''status'')));
          resetRaw = trim_space (header_get h (pre @ ''reset''));
          utilRaw = trim_space (header_get h (pre @ ''utilization''));
          surpassedRaw = trim_space (header_get h (pre @ ''surpassed-threshold''))
      in if status = '''' \<and> resetRaw = '''' \<and> utilRaw = '''' \<and> surpassedRaw = '''' then None
         else
           let (resetAt, resetValid) = parseClaudeOAuthReset resetRaw now (wsMaxFuture spec);
               util = parseClaudeOAuthUtilization utilRaw;
               surpassed = parseClaudeOAuthBool surpassedRaw;
               exceeded = (status = ''rejected'' \<or> (case util of None \<Rightarrow> False | Some u \<Rightarrow> 1 \<le> u) \<or>
                           surpassed = Some True);
               out = [(''status'', AStr (if status = '''' then ''unknown'' else status)),
                      (''exceeded'', ABool exceeded),
                      (''updated_at'', AStr (formatClaudeOAuthHealthTime now))] @
                     (if resetValid then [(''reset_at'', AStr (formatClaudeOAuthHealthTime resetAt))] else []) @
                     (case util of None \<Rightarrow> [] | Some u \<Rightarrow> [(''utilization'', AFloat u)]) @
                     (case surpassed of None \<Rightarrow> [] | Some b \<Rightarrow> [(''surpassed_threshold'', ABool b)])
           in Some (out, exceeded, resetAt))"

definition window_step ::
  "headers \<Rightarrow> gotime \<Rightarrow> window_spec \<Rightarrow> (string, goany) gomap \<times> window_decision option \<Rightarrow>
   (string, goany) gomap \<times> window_decision option" where
  "window_step h now spec acc =
     (case acc of (windows, decision) \<Rightarrow>
      case parseClaudeOAuthWindow h spec now of
        None \<Rightarrow> (windows, decision)
      | Some (w, exceeded, resetAt) \<Rightarrow>
          (map_put (wsPayloadKey spec) (AMap w) windows,
           if \<not> exceeded \<or> resetAt = 0 then decision
           else if decision = None \<or> wsWindow spec = ''7d''
           then Some \<lparr>wdWindow = wsWindow spec, wdMinutes = wsMinutes spec, wdReason = wsReason spec,
                      wdResetAt = resetAt\<rparr>
           else decision))"

definition parseClaudeOAuthRateLimitHeaders ::
  "headers \<Rightarrow> gotime \<Rightarrow> (string, goany) gomap \<times> window_decision option" where
  "parseClaudeOAuthRateLimitHeaders h now =
     (if h = [] then ([], None) else fold (window_step h now) claudeOAuthRateLimitSpecs ([], None))"

section \<open>The health record\<close>

definition claude_health_key :: string where "claude_health_key = ''claude_oauth_health''"

text \<open>
  Copies of dynamic values: maps are copied entry by entry, and a map of strings becomes a map of
  dynamic values; every other value is its own copy.
\<close>

fun cloneAnyValue :: "goany \<Rightarrow> goany" where
  "cloneAnyValue (AMap m) = AMap (map (\<lambda>(k, v). (k, cloneAnyValue v)) m)"
| "cloneAnyValue (AStrMap m) = AMap (map (\<lambda>(k, v). (k, AStr v)) m)"
| "cloneAnyValue v = v"

definition cloneAnyMap :: "goany option \<Rightarrow> (string, goany) gomap" where
  "cloneAnyMap v =
     (case v of
        Some (AMap m) \<Rightarrow> map (\<lambda>(k, x). (k, cloneAnyValue x)) m
      | Some (AStrMap m) \<Rightarrow> map (\<lambda>(k, x). (k, AStr x)) m
      | _ \<Rightarrow> [])"

definition cloneClaudeOAuthHealth :: "auth \<Rightarrow> (string, goany) gomap" where
  "cloneClaudeOAuthHealth a = cloneAnyMap (map_of (aMetadata a) claude_health_key)"

definition claudeOAuthRuntimeProfile :: "auth \<Rightarrow> (string, goany) gomap" where
  "claudeOAuthRuntimeProfile a =
     [(''name'', AStr ''claude_oauth_runtime''), (''identity_fingerprint'', AStr ''claude_headers''),
      (''transport'', AStr ''go_http_transport''),
      (''egress'', AStr (if trim_space (aProxyID a) \<noteq> '''' then ''proxy_pool''
                       else if trim_space (aProxyURL a) \<noteq> '''' then ''proxy_url''
                       else ''direct_or_global''))]"

definition ensureClaudeOAuthHealth :: "auth \<Rightarrow> gotime \<Rightarrow> (string, goany) gomap" where
  "ensureClaudeOAuthHealth a now =
     map_put ''runtime_profile'' (AMap (claudeOAuthRuntimeProfile a))
      (map_put ''refresh_available'' (ABool (authRefreshToken a \<noteq> ''''))
        (map_put ''updated_at'' (AStr (formatClaudeOAuthHealthTime now))
          (map_put ''enabled'' (ABool True) (cloneClaudeOAuthHealth a))))"

definition mergeClaudeOAuthWindowHealth ::
  "(string, goany) gomap \<Rightarrow> headers \<Rightarrow> gotime \<Rightarrow> (string, goany) gomap \<times> window_decision option" where
  "mergeClaudeOAuthWindowHealth health h now =
     (case parseClaudeOAuthRateLimitHeaders h now of
        (windows, decision) \<Rightarrow>
          if windows = [] then (health, decision)
          else (map_put ''windows''
                  (AMap (fold (\<lambda>(k, v) m. map_put k v m) windows (cloneAnyMap (map_of health ''windows''))))
                  health,
                decision))"

definition set_claude_health :: "auth \<Rightarrow> (string, goany) gomap \<Rightarrow> auth" where
  "set_claude_health a health = a\<lparr>aMetadata := map_put claude_health_key (AMap health) (aMetadata a)\<rparr>"

definition trimClaudeOAuthHealthMessage :: "string \<Rightarrow> string" where
  "trimClaudeOAuthHealthMessage message =
     (let m = trim_space message in if length m \<le> 512 then m else take 512 m @ ''...'')"

text \<open>Removes the two scheduling entries.\<close>

definition unrestrict :: "(string, goany) gomap \<Rightarrow> (string, goany) gomap" where
  "unrestrict h = map_del ''temporary_unschedulable_reason'' (map_del ''temporary_unschedulable_until'' h)"

definition claudeOAuthRefreshPending :: "auth \<Rightarrow> bool" where
  "claudeOAuthRefreshPending a \<longleftrightarrow>
     isClaudeOAuthAuth a \<and> authRefreshToken a \<noteq> '''' \<and>
     (let health = cloneClaudeOAuthHealth a
      in health \<noteq> [] \<and>
         (equal_fold (meta_trimmed health ''status'') ''refresh_pending'' \<or>
          equal_fold (meta_trimmed health ''temporary_unschedulable_reason'') ''oauth_401''))"

definition markClaudeOAuthHealthSuccessLocked :: "auth \<Rightarrow> result \<Rightarrow> gotime \<Rightarrow> auth" where
  "markClaudeOAuthHealthSuccessLocked a r now =
     (if \<not> isClaudeOAuthAuth a then a
      else
        let h1 = map_put ''status'' (AStr ''active'') (ensureClaudeOAuthHealth a now);
            h2 = unrestrict (map_put ''last_runtime_at'' (AStr (formatClaudeOAuthHealthTime now)) h1)
        in set_claude_health a (fst (mergeClaudeOAuthWindowHealth h2 (rHeaders r) now)))"

definition markClaudeOAuthHealthRefreshSuccessLocked :: "auth \<Rightarrow> gotime \<Rightarrow> auth" where
  "markClaudeOAuthHealthRefreshSuccessLocked a now =
     (if \<not> isClaudeOAuthAuth a then a
      else
        let h1 = map_put ''status'' (AStr ''active'') (ensureClaudeOAuthHealth a now)
        in set_claude_health a
             (unrestrict (map_put ''last_refresh_at'' (AStr (formatClaudeOAuthHealthTime now)) h1)))"

definition clearClaudeOAuthRuntimeRestrictionLocked :: "auth \<Rightarrow> gotime \<Rightarrow> auth \<times> bool" where
  "clearClaudeOAuthRuntimeRestrictionLocked a now =
     (if map_of (aMetadata a) claude_health_key = None then (a, False)
      else
        let health = cloneClaudeOAuthHealth a;
            inactive = \<not> equal_fold (meta_trimmed health ''status'') ''active'';
            changed = (inactive \<or> map_of health ''temporary_unschedulable_until'' \<noteq> None \<or>
                       map_of health ''temporary_unschedulable_reason'' \<noteq> None);
            h1 = (if inactive then map_put ''status'' (AStr ''active'') health else health)
        in if \<not> changed then (a, False)
           else (set_claude_health a
                   (map_put ''updated_at'' (AStr (formatClaudeOAuthHealthTime now)) (unrestrict h1)), True))"

section \<open>Failures\<close>

definition applyClaudeOAuthTemporaryFailureLocked ::
  "auth \<Rightarrow> result \<Rightarrow> gotime \<Rightarrow> gotime \<Rightarrow> string \<Rightarrow> string \<Rightarrow> effects \<Rightarrow> auth \<times> effects" where
  "applyClaudeOAuthTemporaryFailureLocked a r now next message reason fx =
     (if rModel r \<noteq> '''' then
        let a1 = fst (ensureModelState a (rModel r));
            s = (get_model_state a (rModel r))
                  \<lparr>msUnavailable := True, msStatus := StatusActive, msStatusMessage := message,
                   msNextRetryAfter := next, msLastError := cloneError (rError r),
                   msQuota := zeroQuota, msUpdatedAt := now\<rparr>;
            a2 = (put_model_state a1 (rModel r) s)
                   \<lparr>aLastError := cloneError (rError r), aStatusMessage := message,
                    aStatus := StatusActive, aUpdatedAt := now\<rparr>
        in (updateAggregatedAvailability a2 now, fx\<lparr>fSuspendReason := reason, fShouldSuspend := True\<rparr>)
      else
        (a\<lparr>aUnavailable := True, aStatus := StatusActive, aStatusMessage := message,
           aNextRetryAfter := next, aLastError := cloneError (rError r), aUpdatedAt := now\<rparr>, fx))"

definition window_quota :: "window_decision \<Rightarrow> int \<Rightarrow> quota_state" where
  "window_quota d level =
     \<lparr>qExceeded = True, qRecoveryRequired = False, qReason = ''quota'', qWindow = wdWindow d,
      qWindowMinutes = wdMinutes d, qNextRecoverAt = wdResetAt d, qBackoffLevel = level\<rparr>"

definition applyClaudeOAuthQuotaFailureLocked ::
  "auth \<Rightarrow> result \<Rightarrow> gotime \<Rightarrow> window_decision \<Rightarrow> effects \<Rightarrow> auth \<times> effects" where
  "applyClaudeOAuthQuotaFailureLocked a r now d fx =
     (if rModel r \<noteq> '''' then
        let a1 = fst (ensureModelState a (rModel r));
            s0 = get_model_state a (rModel r);
            s = s0\<lparr>msUnavailable := True, msStatus := StatusError, msStatusMessage := wdReason d,
                   msNextRetryAfter := wdResetAt d, msLastError := cloneError (rError r),
                   msQuota := window_quota d (qBackoffLevel (msQuota s0)), msUpdatedAt := now\<rparr>;
            a2 = (put_model_state a1 (rModel r) s)
                   \<lparr>aLastError := cloneError (rError r), aStatusMessage := wdReason d,
                    aStatus := StatusError, aUpdatedAt := now\<rparr>
        in (updateAggregatedAvailability a2 now,
            fx\<lparr>fSuspendReason := wdReason d, fShouldSuspend := True, fSetQuota := True\<rparr>)
      else
        (a\<lparr>aUnavailable := True, aStatus := StatusError, aStatusMessage := wdReason d,
           aNextRetryAfter := wdResetAt d, aLastError := cloneError (rError r),
           aQuota := window_quota d (qBackoffLevel (aQuota a)), aUpdatedAt := now\<rparr>, fx))"

text \<open>\<^verbatim>\<open>claudeOAuth401Cooldown\<close>.\<close>

definition claudeOAuth401Cooldown :: duration where "claudeOAuth401Cooldown = 10 * minute"

text \<open>The flag of the result says whether the failure is dealt with.\<close>

definition applyClaudeOAuthFailureLocked ::
  "auth \<Rightarrow> result \<Rightarrow> gotime \<Rightarrow> effects \<Rightarrow> auth \<times> effects \<times> bool" where
  "applyClaudeOAuthFailureLocked a r now fx =
     (let code = statusCodeFromResult (rError r)
      in if \<not> isClaudeOAuthAuth a \<or> (code \<noteq> 401 \<and> code \<noteq> 429) then (a, fx, False)
         else
           let h0 = map_put ''last_runtime_at'' (AStr (formatClaudeOAuthHealthTime now))
                      (map_put ''last_runtime_status'' (AInt code) (ensureClaudeOAuthHealth a now))
           in case mergeClaudeOAuthWindowHealth h0 (rHeaders r) now of
                (h1, decision) \<Rightarrow>
                  if code = 401 then
                    let h2 = map_put ''last_401_at'' (AStr (formatClaudeOAuthHealthTime now)) h1;
                        h3 = (case rError r of None \<Rightarrow> h2
                              | Some e \<Rightarrow>
                                  if trim_space (eMessage e) \<noteq> ''''
                                  then map_put ''last_401_message''
                                         (AStr (trimClaudeOAuthHealthMessage (eMessage e))) h2
                                  else h2)
                    in if authRefreshToken a = '''' then
                         (set_claude_health a (map_put ''refresh_available'' (ABool False)
                            (map_put ''status'' (AStr ''unauthorized'') h3)), fx, False)
                       else
                         let next = now + claudeOAuth401Cooldown;
                             h4 = map_put ''temporary_unschedulable_reason'' (AStr ''oauth_401'')
                                    (map_put ''temporary_unschedulable_until''
                                       (AStr (formatClaudeOAuthHealthTime next))
                                       (map_put ''status'' (AStr ''refresh_pending'') h3))
                         in case applyClaudeOAuthTemporaryFailureLocked (set_claude_health a h4) r now next
                                   ''claude_oauth_refresh_pending'' ''oauth_401'' fx of
                              (a', fx') \<Rightarrow> (a'\<lparr>aNextRefreshAfter := 0\<rparr>, fx', True)
                  else
                    (case decision of
                       None \<Rightarrow>
                         (set_claude_health a (map_put ''status'' (AStr ''rate_limited'') h1), fx, False)
                     | Some d \<Rightarrow>
                         let h2 = map_put ''temporary_unschedulable_reason'' (AStr (wdReason d))
                                    (map_put ''temporary_unschedulable_until''
                                       (AStr (formatClaudeOAuthHealthTime (wdResetAt d)))
                                       (map_put ''status'' (AStr ''exhausted'') h1))
                         in case applyClaudeOAuthQuotaFailureLocked (set_claude_health a h2) r now d fx of
                              (a', fx') \<Rightarrow> (a', fx', True)))"

section \<open>Lemmas\<close>

text \<open>The health entry is none of the entries that tokens and account names are read from.\<close>

definition credential_keys :: "string set" where
  "credential_keys = {''refresh_token'', ''refreshToken'', ''access_token'', ''accessToken'', ''token'', ''Token'',
     ''type'', ''email'', ''project_id''}"

lemma health_key_fresh: "k \<in> credential_keys \<Longrightarrow> k \<noteq> claude_health_key"
  by (auto simp: credential_keys_def claude_health_key_def)

lemma tokenValueFromMap_cong:
  "(\<And>k. k \<in> set ks \<Longrightarrow> map_of m k = map_of m' k) \<Longrightarrow> tokenValueFromMap m ks = tokenValueFromMap m' ks"
  by (induction ks) (auto split: option.split goany.split)

lemma authTokenValue_cong:
  assumes "\<And>k. k \<in> credential_keys \<Longrightarrow> map_of (aMetadata a) k = map_of (aMetadata b) k" "set ks \<subseteq> credential_keys"
  shows "authTokenValue a ks = authTokenValue b ks"
proof -
  have "tokenValueFromMap (aMetadata a) ks = tokenValueFromMap (aMetadata b) ks"
    using assms by (intro tokenValueFromMap_cong) auto
  moreover have "map_of (aMetadata a) ''token'' = map_of (aMetadata b) ''token''"
    "map_of (aMetadata a) ''Token'' = map_of (aMetadata b) ''Token''"
    using assms(1) by (simp_all add: credential_keys_def)
  ultimately show ?thesis unfolding authTokenValue_def by presburger
qed

lemma claude_identity_cong:
  assumes "\<And>k. k \<in> credential_keys \<Longrightarrow> map_of (aMetadata a) k = map_of (aMetadata b) k"
    and "aProvider a = aProvider b" "aAttributes a = aAttributes b"
  shows "authRefreshToken a = authRefreshToken b" "isClaudeOAuthAuth a = isClaudeOAuthAuth b"
proof -
  have tok: "authTokenValue a ks = authTokenValue b ks" if "set ks \<subseteq> credential_keys" for ks
    using authTokenValue_cong [OF assms(1) that] .
  have meta: "meta_trimmed (aMetadata a) k = meta_trimmed (aMetadata b) k" if "k \<in> credential_keys" for k
    using assms(1) [OF that] by (simp add: meta_trimmed_def meta_string_def)
  show r: "authRefreshToken a = authRefreshToken b"
    by (simp add: authRefreshToken_def tok credential_keys_def)
  have "AccountInfo a = AccountInfo b"
    by (auto simp: AccountInfo_def hasKimiOAuthTokenMetadata_def Let_def meta assms(2,3) credential_keys_def)
  then show "isClaudeOAuthAuth a = isClaudeOAuthAuth b"
    by (simp add: isClaudeOAuthAuth_def r tok meta assms(2) credential_keys_def)
qed

lemma set_claude_health_frame [simp]:
  "authRefreshToken (set_claude_health a h) = authRefreshToken a"
  "isClaudeOAuthAuth (set_claude_health a h) = isClaudeOAuthAuth a"
  by (rule claude_identity_cong; auto simp: set_claude_health_def dest: health_key_fresh)+

lemma meta_trimmed_clone [simp]: "meta_trimmed (map (\<lambda>(k, x). (k, cloneAnyValue x)) m) k = meta_trimmed m k"
proof (induction m)
  case (Cons e m)
  obtain k' v where e: "e = (k', v)" by (cases e)
  from Cons show ?case
    by (cases v) (auto simp: meta_trimmed_def meta_string_def e)
qed simp

lemma cloneClaudeOAuthHealth_set:
  "cloneClaudeOAuthHealth (set_claude_health a h) = map (\<lambda>(k, x). (k, cloneAnyValue x)) h"
  by (simp add: cloneClaudeOAuthHealth_def set_claude_health_def cloneAnyMap_def)

lemma meta_trimmed_put:
  "meta_trimmed (map_put k v m) k' =
     (if k' = k then (case v of AStr s \<Rightarrow> trim_space s | _ \<Rightarrow> '''') else meta_trimmed m k')"
  by (auto simp: meta_trimmed_def meta_string_def split: goany.split)

lemma meta_trimmed_del:
  "meta_trimmed (map_del k m) k' = (if k' = k then '''' else meta_trimmed m k')"
  by (simp add: meta_trimmed_def meta_string_def)

lemmas health_entries = meta_trimmed_put meta_trimmed_del unrestrict_def

text \<open>Whether a refresh is pending depends on two entries of the health record.\<close>

lemma claudeOAuthRefreshPending_set:
  "claudeOAuthRefreshPending (set_claude_health a h) \<longleftrightarrow>
     isClaudeOAuthAuth a \<and> authRefreshToken a \<noteq> '''' \<and> h \<noteq> [] \<and>
     (equal_fold (meta_trimmed h ''status'') ''refresh_pending'' \<or>
      equal_fold (meta_trimmed h ''temporary_unschedulable_reason'') ''oauth_401'')"
  by (simp add: claudeOAuthRefreshPending_def cloneClaudeOAuthHealth_set Let_def)

lemma claudeOAuthRefreshPending_cong:
  assumes "aMetadata a = aMetadata b" "aProvider a = aProvider b" "aAttributes a = aAttributes b"
  shows "claudeOAuthRefreshPending a = claudeOAuthRefreshPending b"
  using claude_identity_cong [of a b] assms
  by (simp add: claudeOAuthRefreshPending_def cloneClaudeOAuthHealth_def)

lemma claude_temporary_frame:
  "aMetadata (fst (applyClaudeOAuthTemporaryFailureLocked a r now next msg reason fx)) = aMetadata a"
  "aProvider (fst (applyClaudeOAuthTemporaryFailureLocked a r now next msg reason fx)) = aProvider a"
  "aAttributes (fst (applyClaudeOAuthTemporaryFailureLocked a r now next msg reason fx)) = aAttributes a"
  by (simp_all add: applyClaudeOAuthTemporaryFailureLocked_def Let_def put_model_state_def
      ensureModelState_def split: option.split)

lemma claude_temporary_retry:
  assumes "now < next"
  shows "(if rModel r = '''' then aNextRetryAfter (fst (applyClaudeOAuthTemporaryFailureLocked a r now next msg reason fx))
          else msNextRetryAfter (get_model_state
                 (fst (applyClaudeOAuthTemporaryFailureLocked a r now next msg reason fx)) (rModel r))) = next"
proof (cases "rModel r = ''''")
  case False
  then show ?thesis
    using assms by (simp add: applyClaudeOAuthTemporaryFailureLocked_def Let_def ensureModelState_put
        get_model_state_aggregate settle_ahead)
qed (simp add: applyClaudeOAuthTemporaryFailureLocked_def)

text \<open>Every window that can block lies ahead and within the bound of its specification.\<close>

lemma parseClaudeOAuthReset_bounds:
  assumes "parseClaudeOAuthReset raw now maxFuture = (t, v)" "t \<noteq> 0" "0 < maxFuture" "maxFuture < maxInt64"
  shows "now < t \<and> t \<le> now + maxFuture"
proof -
  have t: "now < t" "time_sub t now \<le> maxFuture"
    using assms by (auto simp: parseClaudeOAuthReset_def Let_def split: if_splits option.splits)
  then have "t - now \<le> maxFuture"
    using assms(3,4) by (auto simp: time_sub_def max_def min_def minInt64_def maxInt64_def split: if_splits)
  with t show ?thesis by simp
qed

lemma parseClaudeOAuthWindow_reset:
  assumes "parseClaudeOAuthWindow h spec now = Some (w, x, t)" "t \<noteq> 0"
    and "0 < wsMaxFuture spec" "wsMaxFuture spec < maxInt64"
  shows "now < t \<and> t \<le> now + wsMaxFuture spec"
proof -
  from assms(1) obtain raw v where "parseClaudeOAuthReset raw now (wsMaxFuture spec) = (t, v)"
    by (auto simp: parseClaudeOAuthWindow_def Let_def split: if_splits prod.splits)
  then show ?thesis using assms(2-) by (rule parseClaudeOAuthReset_bounds)
qed

definition window_blocks :: "headers \<Rightarrow> gotime \<Rightarrow> window_spec \<Rightarrow> gotime option" where
  "window_blocks h now spec =
     (case parseClaudeOAuthWindow h spec now of
        Some (_, True, t) \<Rightarrow> if t = 0 then None else Some t
      | _ \<Rightarrow> None)"

definition decide :: "window_spec \<Rightarrow> gotime \<Rightarrow> window_decision" where
  "decide spec t = \<lparr>wdWindow = wsWindow spec, wdMinutes = wsMinutes spec, wdReason = wsReason spec, wdResetAt = t\<rparr>"

lemma window_step_decision:
  "snd (window_step h now spec (ws, d)) =
     (case window_blocks h now spec of
        None \<Rightarrow> d
      | Some t \<Rightarrow> if d = None \<or> wsWindow spec = ''7d'' then Some (decide spec t) else d)"
  by (auto simp: window_step_def window_blocks_def decide_def split: option.split bool.split)

definition spec5h :: window_spec where "spec5h = claudeOAuthRateLimitSpecs ! 0"
definition spec7d :: window_spec where "spec7d = claudeOAuthRateLimitSpecs ! 1"

lemma specs: "claudeOAuthRateLimitSpecs = [spec5h, spec7d]"
  by (simp add: spec5h_def spec7d_def claudeOAuthRateLimitSpecs_def)

lemma spec_windows [simp]: "wsWindow spec5h = ''5h''" "wsWindow spec7d = ''7d''"
  "wsMaxFuture spec5h = 6 * hour" "wsMaxFuture spec7d = 8 * 24 * hour"
  by (simp_all add: spec5h_def spec7d_def claudeOAuthRateLimitSpecs_def)

lemma headers_decision:
  "snd (parseClaudeOAuthRateLimitHeaders h now) =
     (if h = [] then None
      else case window_blocks h now spec7d of
             Some t \<Rightarrow> Some (decide spec7d t)
           | None \<Rightarrow> map_option (decide spec5h) (window_blocks h now spec5h))"
proof -
  obtain ws d where e: "window_step h now spec5h ([], None) = (ws, d)" by (cases "window_step h now spec5h ([], None)")
  have "d = map_option (decide spec5h) (window_blocks h now spec5h)"
    using window_step_decision [of h now spec5h "[]" None] by (simp add: e split: option.split)
  then show ?thesis
    by (auto simp: parseClaudeOAuthRateLimitHeaders_def specs e window_step_decision split: option.split)
qed

lemma window_blocks_bounds:
  assumes "window_blocks h now spec = Some t" "0 < wsMaxFuture spec" "wsMaxFuture spec < maxInt64"
  shows "now < t \<and> t \<le> now + wsMaxFuture spec"
  using parseClaudeOAuthWindow_reset [OF _ _ assms(2,3)] assms(1)
  by (auto simp: window_blocks_def split: option.splits bool.splits if_splits)

lemma merge_entries:
  "k \<noteq> ''windows'' \<Longrightarrow> meta_trimmed (fst (mergeClaudeOAuthWindowHealth h hdr now)) k = meta_trimmed h k"
  by (auto simp: mergeClaudeOAuthWindowHealth_def meta_trimmed_put split: prod.split)

text \<open>Both kinds of success clear the mark, whatever the credential was like.\<close>

lemma claude_success_clears:
  "\<not> claudeOAuthRefreshPending (markClaudeOAuthHealthRefreshSuccessLocked a t)"
  "\<not> claudeOAuthRefreshPending (markClaudeOAuthHealthSuccessLocked a ok t)"
proof -
  have ne: "\<not> equal_fold (trim_space ''active'') ''refresh_pending''" "\<not> equal_fold '''' ''oauth_401''"
    by code_simp+
  have nc: "\<not> isClaudeOAuthAuth a \<Longrightarrow> \<not> claudeOAuthRefreshPending a"
    by (simp add: claudeOAuthRefreshPending_def)
  show "\<not> claudeOAuthRefreshPending (markClaudeOAuthHealthRefreshSuccessLocked a t)"
    using nc by (auto simp: markClaudeOAuthHealthRefreshSuccessLocked_def Let_def
        claudeOAuthRefreshPending_set health_entries ne)
  show "\<not> claudeOAuthRefreshPending (markClaudeOAuthHealthSuccessLocked a ok t)"
    using nc by (auto simp: markClaudeOAuthHealthSuccessLocked_def Let_def
        claudeOAuthRefreshPending_set health_entries merge_entries ne)
qed

lemma claude_401_marks:
  assumes "isClaudeOAuthAuth a" "authRefreshToken a \<noteq> ''''" "statusCodeFromResult (rError r) = 401"
  obtains h where "h \<noteq> []" "meta_trimmed h ''temporary_unschedulable_reason'' = ''oauth_401''"
    "applyClaudeOAuthFailureLocked a r now fx =
       (case applyClaudeOAuthTemporaryFailureLocked (set_claude_health a h) r now (now + claudeOAuth401Cooldown)
               ''claude_oauth_refresh_pending'' ''oauth_401'' fx of
          (a', fx') \<Rightarrow> (a'\<lparr>aNextRefreshAfter := 0\<rparr>, fx', True))"
proof -
  obtain h1 d where m: "mergeClaudeOAuthWindowHealth
      (map_put ''last_runtime_at'' (AStr (formatClaudeOAuthHealthTime now))
        (map_put ''last_runtime_status'' (AInt 401) (ensureClaudeOAuthHealth a now))) (rHeaders r) now = (h1, d)"
    by (metis surj_pair)
  define h3 where "h3 = (let h2 = map_put ''last_401_at'' (AStr (formatClaudeOAuthHealthTime now)) h1
     in case rError r of None \<Rightarrow> h2 | Some e \<Rightarrow> if trim_space (eMessage e) \<noteq> ''''
        then map_put ''last_401_message'' (AStr (trimClaudeOAuthHealthMessage (eMessage e))) h2 else h2)"
  define h where "h = map_put ''temporary_unschedulable_reason'' (AStr ''oauth_401'')
     (map_put ''temporary_unschedulable_until'' (AStr (formatClaudeOAuthHealthTime (now + claudeOAuth401Cooldown)))
       (map_put ''status'' (AStr ''refresh_pending'') h3))"
  have "h \<noteq> []" by (metis h_def set_keys_map_put image_is_empty insert_not_empty set_empty)
  moreover have "trim_space ''oauth_401'' = ''oauth_401''" by code_simp
  then have "meta_trimmed h ''temporary_unschedulable_reason'' = ''oauth_401''"
    by (simp add: h_def meta_trimmed_put)
  ultimately show thesis
    using assms m
    by (intro that [of h])
      (simp_all add: applyClaudeOAuthFailureLocked_def h_def h3_def Let_def)
qed

section \<open>Properties\<close>

text \<open>
  The rate-limit headers of an Anthropic response block a credential only until an instant ahead and
  within the bound of the window, six hours or eight days; an exhausted weekly window prevails
  over an exhausted five-hour one.
\<close>

theorem claude_window_decision:
  assumes "parseClaudeOAuthRateLimitHeaders h now = (windows, Some d)"
  shows "now < wdResetAt d \<and>
    (wdWindow d = ''7d'' \<and> wdResetAt d \<le> now + 8 * 24 * hour \<or>
     wdWindow d = ''5h'' \<and> wdResetAt d \<le> now + 6 * hour \<and> window_blocks h now spec7d = None)"
proof -
  have "snd (parseClaudeOAuthRateLimitHeaders h now) = Some d" using assms by simp
  then show ?thesis
    using window_blocks_bounds [of h now spec7d] window_blocks_bounds [of h now spec5h]
    unfolding headers_decision
    by (auto simp: decide_def duration_defs maxInt64_def split: if_splits option.splits)
qed

definition weekly_headers :: headers where
  "weekly_headers = [(''Anthropic-Ratelimit-Unified-7d-Status'', [''rejected'']),
     (''Anthropic-Ratelimit-Unified-7d-Reset'', [''1000'']),
     (''Anthropic-Ratelimit-Unified-5h-Status'', [''rejected'']),
     (''Anthropic-Ratelimit-Unified-5h-Reset'', [''900''])]"

lemma weekly_blocks: "window_blocks weekly_headers (time_unix 500) spec7d = Some (time_unix 1000)"
proof -
  have "parseClaudeOAuthReset ''1000'' (time_unix 500) (8 * 24 * hour) = (time_unix 1000, True)" by code_simp
  moreover have "header_get weekly_headers ''anthropic-ratelimit-unified-7d-status'' = ''rejected''"
    "header_get weekly_headers ''anthropic-ratelimit-unified-7d-reset'' = ''1000''"
    "trim_space ''rejected'' = ''rejected''" "to_lower ''rejected'' = ''rejected''" "trim_space ''1000'' = ''1000''"
    "wsHeaderKey spec7d = ''7d''" "time_unix 1000 \<noteq> 0" by code_simp+
  ultimately show ?thesis by (simp add: window_blocks_def parseClaudeOAuthWindow_def Let_def)
qed

theorem claude_window_decision_witness:
  "\<exists>d. snd (parseClaudeOAuthRateLimitHeaders weekly_headers (time_unix 500)) = Some d \<and>
     time_unix 500 < wdResetAt d \<and> wdResetAt d = time_unix 1000"
proof -
  have "weekly_headers \<noteq> []" by (simp add: weekly_headers_def)
  with weekly_blocks obtain ws where e: "parseClaudeOAuthRateLimitHeaders weekly_headers (time_unix 500) =
      (ws, Some (decide spec7d (time_unix 1000)))"
    using headers_decision [of weekly_headers "time_unix 500"] by (metis option.simps(5) prod.collapse)
  from claude_window_decision [OF e] e show ?thesis by (simp add: decide_def)
qed

text \<open>
  A rejected token takes a Claude OAuth credential that can be refreshed out of rotation for ten
  minutes with a refresh pending, and a refresh or a successful request withdraws that mark.
\<close>

theorem claude_refresh_pending:
  assumes "isClaudeOAuthAuth a" "authRefreshToken a \<noteq> ''''" "statusCodeFromResult (rError r) = 401"
    and "applyClaudeOAuthFailureLocked a r now fx = (a', fx', handled)"
  shows "handled \<and> claudeOAuthRefreshPending a' \<and> aNextRefreshAfter a' = 0 \<and>
    (if rModel r = '''' then aNextRetryAfter a' else msNextRetryAfter (get_model_state a' (rModel r))) =
      now + 10 * minute \<and>
    \<not> claudeOAuthRefreshPending (markClaudeOAuthHealthRefreshSuccessLocked a' t) \<and>
    \<not> claudeOAuthRefreshPending (markClaudeOAuthHealthSuccessLocked a' ok t)"
proof -
  from claude_401_marks [OF assms(1-3), of now fx] obtain h where h: "h \<noteq> []"
    "meta_trimmed h ''temporary_unschedulable_reason'' = ''oauth_401''"
    "applyClaudeOAuthFailureLocked a r now fx =
       (case applyClaudeOAuthTemporaryFailureLocked (set_claude_health a h) r now (now + claudeOAuth401Cooldown)
               ''claude_oauth_refresh_pending'' ''oauth_401'' fx of
          (a', fx') \<Rightarrow> (a'\<lparr>aNextRefreshAfter := 0\<rparr>, fx', True))" .
  define b where "b = fst (applyClaudeOAuthTemporaryFailureLocked (set_claude_health a h) r now
      (now + claudeOAuth401Cooldown) ''claude_oauth_refresh_pending'' ''oauth_401'' fx)"
  have a': "a' = b\<lparr>aNextRefreshAfter := 0\<rparr>" "handled"
    using h(3) assms(4) by (auto simp: b_def split: prod.splits)
  have "claudeOAuthRefreshPending a' = claudeOAuthRefreshPending (set_claude_health a h)"
    by (rule claudeOAuthRefreshPending_cong) (simp_all add: a' b_def claude_temporary_frame)
  also have "\<dots>" using assms(1,2) h(1,2) by (simp add: claudeOAuthRefreshPending_set)
  finally have p: "claudeOAuthRefreshPending a'" .
  have "now < now + claudeOAuth401Cooldown" by (simp add: claudeOAuth401Cooldown_def duration_defs)
  from claude_temporary_retry [OF this, of r "set_claude_health a h" "''claude_oauth_refresh_pending''"
      "''oauth_401''" fx, folded b_def] a'
  have "(if rModel r = '''' then aNextRetryAfter a' else msNextRetryAfter (get_model_state a' (rModel r))) =
      now + 10 * minute"
    by (simp add: get_model_state_def claudeOAuth401Cooldown_def split: if_splits)
  with p a' show ?thesis by (simp add: claude_success_clears)
qed

definition claude_auth :: auth where
  "claude_auth = sample_auth\<lparr>aProvider := ''claude'', aMetadata := [(''refresh_token'', AStr ''r'')]\<rparr>"

definition unauthorized :: result where
  "unauthorized = \<lparr>rAuthID = ''a'', rProvider = ''claude'', rModel = '''', rSuccess = False, rRetryAfter = None,
     rHeaders = [], rError = Some \<lparr>eCode = '''', eMessage = ''no'', eRetryable = False, eHTTPStatus = 401,
       eQuotaWindow = '''', eQuotaWindowMinutes = 0\<rparr>\<rparr>"

theorem claude_refresh_pending_witness:
  "claudeOAuthRefreshPending (fst (applyClaudeOAuthFailureLocked claude_auth unauthorized 5 no_effects))"
proof -
  have "isClaudeOAuthAuth claude_auth" "authRefreshToken claude_auth \<noteq> ''''"
    "statusCodeFromResult (rError unauthorized) = 401" by code_simp+
  from claude_refresh_pending [OF this] show ?thesis by (metis prod.collapse)
qed

end
