(* ===== verification/Auth_Availability.thy ===== *)
theory Auth_Availability
  imports Auth_State Thinking_Suffix "HOL-Library.Char_ord" "HOL-Library.List_Lexorder"
begin

text \<open>
  Which credentials may serve a request now: \<^verbatim>\<open>src/sdk/cliproxy/auth/selector_availability.go\<close>,
  \<^verbatim>\<open>selector_weight.go\<close> and \<^verbatim>\<open>selector_errors.go\<close>.

  A candidate list is a list of non-nil credentials, as the callers build it.  The JSON text of the two
  error types is not modelled; their status code and \<^verbatim>\<open>Retry-After\<close> value are.  Go compares strings byte
  by byte, which is the lexicographic order on \<^typ>\<open>string\<close>.
\<close>

section \<open>Weights\<close>

definition parseWeightAttribute :: "auth \<Rightarrow> string \<Rightarrow> int option" where
  "parseWeightAttribute a key =
     (let raw = trim_space (map_get '''' (aAttributes a) key)
      in if raw = '''' then None else atoi raw)"

definition authSelectionWeight :: "auth \<Rightarrow> int" where
  "authSelectionWeight a =
     (case parseWeightAttribute a ''selection_weight'' of
        Some w \<Rightarrow> if w \<le> 0 then 0 else w
      | None \<Rightarrow>
          (case parseWeightAttribute a ''priority'' of
             Some w \<Rightarrow> if 0 < w then w else 1
           | None \<Rightarrow> 1))"

definition authParticipatesInSelection :: "auth \<Rightarrow> bool" where
  "authParticipatesInSelection a \<longleftrightarrow> 0 < authSelectionWeight a"

lemma authSelectionWeight_nonneg: "0 \<le> authSelectionWeight a"
  by (auto simp: authSelectionWeight_def split: option.split)

section \<open>Is a credential blocked?\<close>

datatype block_reason = blockReasonNone | blockReasonCooldown | blockReasonDisabled | blockReasonOther

definition canonicalModelKey :: "string \<Rightarrow> string" where
  "canonicalModelKey model0 =
     (let model = trim_space model0
      in if model = '''' then ''''
         else let modelName = trim_space (ModelName (parseModelSuffix model))
              in if modelName = '''' then model else modelName)"

text \<open>The recovery time to report: the retry time where that comes first.\<close>

definition quota_next :: "quota_state \<Rightarrow> gotime \<Rightarrow> gotime \<Rightarrow> gotime" where
  "quota_next q retry now =
     (let next = qNextRecoverAt q
      in if now < retry \<and> (next = 0 \<or> retry < next) then retry else next)"

definition not_past :: "gotime \<Rightarrow> gotime \<Rightarrow> gotime" where
  "not_past now next = (if now < next then next else 0)"

definition isAntigravityExhaustedForModel :: "auth \<Rightarrow> string \<Rightarrow> gotime \<Rightarrow> bool" where
  "isAntigravityExhaustedForModel a model now =
     (if model = ''''
      then \<not> list_ex (\<lambda>(_, s). s \<noteq> None \<and> \<not> activeModelQuotaCooldown s now) (aModelStates a)
      else list_ex (\<lambda>(m, st). case st of None \<Rightarrow> False
             | Some s \<Rightarrow> qExceeded (msQuota s) \<and>
                 ModelAntigravityQuotaFamily m = ModelAntigravityQuotaFamily model \<and>
                 activeModelQuotaCooldown st now)
             (aModelStates a))"

text \<open>\<^verbatim>\<open>auth.ModelStates[model]\<close>, or the state of the base model where there is none.\<close>

definition lookup_state :: "auth \<Rightarrow> string \<Rightarrow> model_state option" where
  "lookup_state a model =
     (case map_of (aModelStates a) model of
        Some (Some s) \<Rightarrow> Some s
      | _ \<Rightarrow>
          let baseModel = canonicalModelKey model
          in if baseModel \<noteq> '''' \<and> baseModel \<noteq> model
             then (case map_of (aModelStates a) baseModel of Some st \<Rightarrow> st | None \<Rightarrow> None)
             else None)"

definition state_block :: "model_state \<Rightarrow> gotime \<Rightarrow> bool \<times> block_reason \<times> gotime" where
  "state_block s now =
     (if msStatus s = StatusDisabled then (True, blockReasonDisabled, 0)
      else if quotaNeedsConfirmedRecovery (msQuota s) now
      then (True, blockReasonCooldown, not_past now (quota_next (msQuota s) (msNextRetryAfter s) now))
      else if msUnavailable s \<and> msNextRetryAfter s = 0 then (False, blockReasonNone, 0)
      else if msUnavailable s \<and> now < msNextRetryAfter s
      then
        let n0 = (if qNextRecoverAt (msQuota s) \<noteq> 0 \<and> now < qNextRecoverAt (msQuota s)
                  then qNextRecoverAt (msQuota s) else msNextRetryAfter s);
            next = (if n0 < now then now else n0)
        in (True, if qExceeded (msQuota s) then blockReasonCooldown else blockReasonOther, next)
      else (False, blockReasonNone, 0))"

definition family_block :: "auth \<Rightarrow> string \<Rightarrow> gotime \<Rightarrow> bool \<times> block_reason \<times> gotime" where
  "family_block a model now =
     (case List.find (\<lambda>(m, st). case st of None \<Rightarrow> False
              | Some s \<Rightarrow> qExceeded (msQuota s) \<and>
                  ModelAntigravityQuotaFamily m = ModelAntigravityQuotaFamily model \<and>
                  activeModelQuotaCooldown st now) (aModelStates a) of
        Some (_, Some s) \<Rightarrow> (True, blockReasonCooldown, quota_next (msQuota s) (msNextRetryAfter s) now)
      | _ \<Rightarrow> (False, blockReasonNone, 0))"

definition isAuthBlockedForModel :: "auth \<Rightarrow> string \<Rightarrow> gotime \<Rightarrow> bool \<times> block_reason \<times> gotime" where
  "isAuthBlockedForModel a model now =
     (if aDisabled a \<or> aStatus a = StatusDisabled then (True, blockReasonDisabled, 0)
      else if qExceeded (aQuota a) \<and>
              (\<not> IsAntigravityAuth a \<or> isAntigravityExhaustedForModel a model now) \<and>
              (quotaNeedsConfirmedRecovery (aQuota a) now \<or>
               (qNextRecoverAt (aQuota a) \<noteq> 0 \<and> now < qNextRecoverAt (aQuota a)))
      then (True, blockReasonCooldown, not_past now (quota_next (aQuota a) (aNextRetryAfter a) now))
      else if model \<noteq> '''' then
        (if aModelStates a = [] then (False, blockReasonNone, 0)
         else (case lookup_state a model of
                 Some s \<Rightarrow> state_block s now
               | None \<Rightarrow> if IsAntigravityAuth a then family_block a model now
                         else (False, blockReasonNone, 0)))
      else if aUnavailable a \<and> now < aNextRetryAfter a
      then
        let n0 = (if qNextRecoverAt (aQuota a) \<noteq> 0 \<and> now < qNextRecoverAt (aQuota a)
                  then qNextRecoverAt (aQuota a) else aNextRetryAfter a);
            next = (if n0 < now then now else n0)
        in (True, if qExceeded (aQuota a) then blockReasonCooldown else blockReasonOther, next)
      else (False, blockReasonNone, 0))"

abbreviation blocked :: "auth \<Rightarrow> string \<Rightarrow> gotime \<Rightarrow> bool" where
  "blocked a model now \<equiv> fst (isAuthBlockedForModel a model now)"

abbreviation block_cause :: "auth \<Rightarrow> string \<Rightarrow> gotime \<Rightarrow> block_reason" where
  "block_cause a model now \<equiv> fst (snd (isAuthBlockedForModel a model now))"

abbreviation block_until :: "auth \<Rightarrow> string \<Rightarrow> gotime \<Rightarrow> gotime" where
  "block_until a model now \<equiv> snd (snd (isAuthBlockedForModel a model now))"

section \<open>Websocket preference and selection scopes\<close>

definition authWebsocketsEnabled :: "auth \<Rightarrow> bool" where
  "authWebsocketsEnabled a =
     (let raw = trim_space (map_get '''' (aAttributes a) ''websockets'')
      in case (if raw = '''' then None else parse_bool raw) of
           Some b \<Rightarrow> b
         | None \<Rightarrow>
             (case map_of (aMetadata a) ''websockets'' of
                Some (ABool b) \<Rightarrow> b
              | Some (AStr s) \<Rightarrow> (case parse_bool (trim_space s) of Some b \<Rightarrow> b | None \<Rightarrow> False)
              | _ \<Rightarrow> False))"

text \<open>\<open>ws\<close> is \<^verbatim>\<open>cliproxyexecutor.DownstreamWebsocket(ctx)\<close>.\<close>

definition preferCodexWebsocketAuths :: "bool \<Rightarrow> string \<Rightarrow> auth list \<Rightarrow> auth list" where
  "preferCodexWebsocketAuths ws provider available =
     (if available = [] \<or> \<not> ws \<or> \<not> equal_fold (trim_space provider) ''codex'' then available
      else let wsEnabled = filter authWebsocketsEnabled available
           in if wsEnabled \<noteq> [] then wsEnabled else available)"

definition routeGroupSelectionScope :: "(string, goany) gomap \<Rightarrow> string" where
  "routeGroupSelectionScope meta =
     (case map_of meta ''route_group'' of
        Some (AStr s) \<Rightarrow> trim_space s
      | Some (ABytes s) \<Rightarrow> trim_space s
      | _ \<Rightarrow> '''')"

fun normalize_groups :: "string list \<Rightarrow> string list \<Rightarrow> string list" where
  "normalize_groups [] seen = []"
| "normalize_groups (v # vs) seen =
     (let value = trim_char CHR ''/'' (to_lower (trim_space v))
      in if value = '''' \<or> value \<in> set seen then normalize_groups vs seen
         else value # normalize_groups vs (value # seen))"

definition allowedChannelGroupsSelectionScope :: "(string, goany) gomap \<Rightarrow> string" where
  "allowedChannelGroupsSelectionScope meta =
     (let values =
        (case map_of meta ''allowed-channel-groups'' of
           Some (AStr s) \<Rightarrow> Some (split_on CHR '','' s)
         | Some (AStrs vs) \<Rightarrow> Some vs
         | Some (AAnys vs) \<Rightarrow> Some vs
         | Some (ABytes s) \<Rightarrow> Some (split_on CHR '','' s)
         | _ \<Rightarrow> None)
      in case values of None \<Rightarrow> ''''
         | Some vs \<Rightarrow>
             let normalized = normalize_groups vs []
             in if normalized = [] then '''' else join '','' (sort normalized))"

definition weightedSelectionScope :: "(string, goany) gomap \<Rightarrow> string" where
  "weightedSelectionScope meta =
     (if routeGroupSelectionScope meta \<noteq> '''' then ''route:'' @ routeGroupSelectionScope meta
      else if allowedChannelGroupsSelectionScope meta \<noteq> ''''
      then ''allowed:'' @ allowedChannelGroupsSelectionScope meta
      else '''')"

section \<open>Errors of a selection\<close>

datatype pick_error =
  AuthError string string                     \<comment> \<open>\<^verbatim>\<open>&Error{Code, Message}\<close>\<close>
| ModelCooldown string string duration        \<comment> \<open>\<^verbatim>\<open>modelCooldownError\<close>: model, provider, resetIn\<close>
| ModelUnavailable string string duration     \<comment> \<open>\<^verbatim>\<open>modelUnavailableError\<close>\<close>

definition newModelCooldownError :: "string \<Rightarrow> string \<Rightarrow> duration \<Rightarrow> pick_error" where
  "newModelCooldownError model provider resetIn =
     ModelCooldown model provider (if resetIn < 0 then 0 else resetIn)"

definition newModelUnavailableError :: "string \<Rightarrow> string \<Rightarrow> duration \<Rightarrow> pick_error" where
  "newModelUnavailableError model provider resetIn =
     ModelUnavailable model provider (if resetIn < 0 then 0 else resetIn)"

definition pick_error_StatusCode :: "pick_error \<Rightarrow> int" where
  "pick_error_StatusCode e =
     (case e of AuthError _ _ \<Rightarrow> 0 | ModelCooldown _ _ _ \<Rightarrow> 429 | ModelUnavailable _ _ _ \<Rightarrow> 503)"

text \<open>\<^verbatim>\<open>int(math.Ceil(resetIn.Seconds()))\<close>, clipped at 0: the \<^verbatim>\<open>Retry-After\<close> header.\<close>

definition retry_after_seconds :: "duration \<Rightarrow> int" where
  "retry_after_seconds d = max 0 (- ((- d) div second))"

definition pick_error_RetryAfter :: "pick_error \<Rightarrow> int option" where
  "pick_error_RetryAfter e =
     (case e of AuthError _ _ \<Rightarrow> None
      | ModelCooldown _ _ d \<Rightarrow> Some (retry_after_seconds d)
      | ModelUnavailable _ _ d \<Rightarrow> Some (retry_after_seconds d))"

lemma retry_after_seconds_enough:
  "0 \<le> d \<Longrightarrow> d \<le> retry_after_seconds d * second \<and> (retry_after_seconds d - 1) * second < d \<or> d = 0"
  by (auto simp: retry_after_seconds_def second_def)

section \<open>Available candidates\<close>

record collected =
  cAvailable :: "auth list"
  cCooldownCount :: nat
  cCooldownEarliest :: gotime
  cTemporaryCount :: nat
  cTemporaryEarliest :: gotime

definition collect_step :: "string \<Rightarrow> gotime \<Rightarrow> auth \<Rightarrow> collected \<Rightarrow> collected" where
  "collect_step model now a c =
     (let (b, reason, next) = isAuthBlockedForModel a model now
      in if \<not> b then c\<lparr>cAvailable := cAvailable c @ [a]\<rparr>
         else
           let c1 = (if reason = blockReasonCooldown
                     then c\<lparr>cCooldownCount := cCooldownCount c + 1,
                            cCooldownEarliest :=
                              (if next \<noteq> 0 \<and> (cCooldownEarliest c = 0 \<or> next < cCooldownEarliest c)
                               then next else cCooldownEarliest c)\<rparr>
                     else c)
           in if (reason = blockReasonCooldown \<or> reason = blockReasonOther) \<and> next \<noteq> 0
              then c1\<lparr>cTemporaryCount := cTemporaryCount c1 + 1,
                      cTemporaryEarliest :=
                        (if cTemporaryEarliest c1 = 0 \<or> next < cTemporaryEarliest c1
                         then next else cTemporaryEarliest c1)\<rparr>
              else c1)"

definition collectAvailableAuths :: "auth list \<Rightarrow> string \<Rightarrow> gotime \<Rightarrow> collected" where
  "collectAvailableAuths auths model now =
     fold (collect_step model now) auths
       \<lparr>cAvailable = [], cCooldownCount = 0, cCooldownEarliest = 0, cTemporaryCount = 0,
        cTemporaryEarliest = 0\<rparr>"

definition optimisticRetryWindow :: duration where
  "optimisticRetryWindow = 10 * second"

definition optimistic_ok :: "string \<Rightarrow> gotime \<Rightarrow> auth \<Rightarrow> bool" where
  "optimistic_ok model now a \<longleftrightarrow>
     blocked a model now \<and> block_cause a model now = blockReasonOther \<and>
     block_until a model now \<noteq> 0 \<and> block_until a model now \<le> now + optimisticRetryWindow \<and>
     authParticipatesInSelection a"

definition optimistic_step ::
  "string \<Rightarrow> gotime \<Rightarrow> auth \<Rightarrow> (auth \<times> gotime) option \<Rightarrow> (auth \<times> gotime) option" where
  "optimistic_step model now a best =
     (if \<not> optimistic_ok model now a then best
      else let next = block_until a model now
           in case best of
                None \<Rightarrow> Some (a, next)
              | Some (b, bnext) \<Rightarrow>
                  if next < bnext \<or> (next = bnext \<and> aID a < aID b) then Some (a, next) else best)"

definition earliestOptimisticCandidate :: "auth list \<Rightarrow> string \<Rightarrow> gotime \<Rightarrow> auth option" where
  "earliestOptimisticCandidate auths model now =
     map_option fst (fold (optimistic_step model now) auths None)"

definition provider_for_error :: "string \<Rightarrow> string" where
  "provider_for_error provider = (if provider = ''mixed'' then '''' else provider)"

definition getAvailableAuths :: "auth list \<Rightarrow> string \<Rightarrow> string \<Rightarrow> gotime \<Rightarrow> pick_error + auth list" where
  "getAvailableAuths auths provider model now =
     (if auths = [] then Inl (AuthError ''auth_not_found'' ''no auth candidates'')
      else
        let c = collectAvailableAuths auths model now
        in if cAvailable c = [] then
             (if cCooldownCount c = length auths \<and> cCooldownEarliest c \<noteq> 0
              then Inl (newModelCooldownError model (provider_for_error provider)
                          (max 0 (time_sub (cCooldownEarliest c) now)))
              else if cTemporaryCount c = length auths \<and> cTemporaryEarliest c \<noteq> 0
              then (case earliestOptimisticCandidate auths model now of
                      Some a \<Rightarrow> Inr [a]
                    | None \<Rightarrow> Inl (newModelUnavailableError model (provider_for_error provider)
                                    (max 0 (time_sub (cTemporaryEarliest c) now))))
              else Inl (AuthError ''auth_unavailable'' ''no auth available''))
           else
             let scheduled = filter authParticipatesInSelection (cAvailable c)
             in if scheduled = []
                then Inl (AuthError ''auth_excluded_by_weight''
                  ''every candidate in this routing scope is configured with weight 0'')
                else Inr (sort_key aID scheduled))"

section \<open>What blocks a credential, and for how long\<close>

text \<open>The instants recorded in a credential and in one of its models.\<close>

definition state_timers :: "model_state \<Rightarrow> gotime set" where
  "state_timers s = {msNextRetryAfter s, qNextRecoverAt (msQuota s)}"

definition timers :: "auth \<Rightarrow> gotime set" where
  "timers a = {aNextRetryAfter a, qNextRecoverAt (aQuota a)} \<union>
              (\<Union>s \<in> set (live_states (aModelStates a)). state_timers s)"

lemma finite_timers: "finite (timers a)"
  by (simp add: timers_def state_timers_def)

text \<open>A verdict that blocks for a reason other than a disabled credential rests on a pending instant.\<close>

definition pending_block :: "gotime set \<Rightarrow> gotime \<Rightarrow> bool \<times> block_reason \<times> gotime \<Rightarrow> bool" where
  "pending_block T now v \<longleftrightarrow>
     (case v of (b, r, t) \<Rightarrow>
        (\<not> b \<longrightarrow> r = blockReasonNone \<and> t = 0) \<and>
        (b \<longrightarrow> r = blockReasonDisabled \<and> t = 0 \<or>
                (r = blockReasonCooldown \<or> r = blockReasonOther) \<and> now < t \<and> t \<in> T))"

lemma pending_block_none [simp]: "pending_block T now (False, blockReasonNone, 0)"
  by (simp add: pending_block_def)

lemma pending_block_disabled [simp]: "pending_block T now (True, blockReasonDisabled, 0)"
  by (simp add: pending_block_def)

lemma pending_block_mono: "pending_block S now v \<Longrightarrow> S \<subseteq> T \<Longrightarrow> pending_block T now v"
  by (auto simp: pending_block_def split: prod.splits)

lemma quota_next_pending:
  assumes "now < qNextRecoverAt q \<or> (qNextRecoverAt q = 0 \<and> now < t)"
  shows "now < quota_next q t now \<and> quota_next q t now \<in> {t, qNextRecoverAt q}"
  using assms by (auto simp: quota_next_def Let_def)

lemma state_block_pending: "pending_block (state_timers s) now (state_block s now)"
proof -
  have "pending_block (state_timers s) now
      (True, blockReasonCooldown, not_past now (quota_next (msQuota s) (msNextRetryAfter s) now))"
    if "quotaNeedsConfirmedRecovery (msQuota s) now"
    using that quota_next_pending [of now "msQuota s" "msNextRetryAfter s"]
    by (auto simp: pending_block_def not_past_def state_timers_def quotaNeedsConfirmedRecovery_def)
  then show ?thesis
    by (auto simp: state_block_def Let_def) (auto simp: pending_block_def state_timers_def)
qed

lemma lookup_state_live: "lookup_state a model = Some s \<Longrightarrow> s \<in> set (live_states (aModelStates a))"
  by (auto simp: lookup_state_def set_live_states Let_def split: option.splits if_splits
      dest!: map_of_SomeD)

lemma family_block_pending: "pending_block (timers a) now (family_block a model now)"
proof -
  let ?P = "\<lambda>(m, st). case st of None \<Rightarrow> False
              | Some s \<Rightarrow> qExceeded (msQuota s) \<and>
                  ModelAntigravityQuotaFamily m = ModelAntigravityQuotaFamily model \<and>
                  activeModelQuotaCooldown st now"
  show ?thesis
  proof (cases "List.find ?P (aModelStates a)")
    case None
    then show ?thesis by (simp add: family_block_def)
  next
    case (Some e)
    from find_SomeD [OF this] obtain m s where e: "e = (m, Some s)" "(m, Some s) \<in> set (aModelStates a)"
      and act: "activeModelQuotaCooldown (Some s) now"
      by (auto split: option.splits)
    then have "state_timers s \<subseteq> timers a" by (auto simp: timers_def set_live_states)
    moreover have "now < qNextRecoverAt (msQuota s) \<or>
        (qNextRecoverAt (msQuota s) = 0 \<and> now < msNextRetryAfter s)"
      using act by (auto simp: activeModelQuotaCooldown_def activeQuotaCooldown_def
          quotaNeedsConfirmedRecovery_def split: if_split_asm)
    ultimately show ?thesis
      using quota_next_pending [of now "msQuota s" "msNextRetryAfter s"] Some e(1)
      by (auto simp: family_block_def pending_block_def state_timers_def)
  qed
qed

lemma isAuthBlockedForModel_pending: "pending_block (timers a) now (isAuthBlockedForModel a model now)"
proof -
  have q: "pending_block (timers a) now
      (True, blockReasonCooldown, not_past now (quota_next (aQuota a) (aNextRetryAfter a) now))"
    if "now < qNextRecoverAt (aQuota a)"
    using that quota_next_pending [of now "aQuota a" "aNextRetryAfter a"]
    by (auto simp: pending_block_def not_past_def timers_def)
  have s: "pending_block (timers a) now (state_block s now)" if "lookup_state a model = Some s" for s
    using lookup_state_live [OF that]
    by (intro pending_block_mono [OF state_block_pending]) (auto simp: timers_def)
  show ?thesis
    using q s family_block_pending [of a now model]
    by (auto simp: isAuthBlockedForModel_def Let_def quotaNeedsConfirmedRecovery_def split: option.split)
      (auto simp: pending_block_def timers_def)
qed

text \<open>
  C30: No credential is blocked for ever: a block that is not an explicit disabling always rests on an instant
  recorded in the credential that is still to come, which the verdict reports; once all recorded
  instants have passed only a disabled credential or model is blocked.
\<close>

theorem isAuthBlockedForModel_bounded:
  assumes "blocked a model now"
  shows "block_cause a model now = blockReasonDisabled \<or>
         (now < block_until a model now \<and> block_until a model now \<in> timers a \<and>
          (\<forall>later. Max (timers a) \<le> later \<longrightarrow>
             blocked a model later \<longrightarrow> block_cause a model later = blockReasonDisabled))"
proof -
  have late: "block_cause a model later = blockReasonDisabled"
    if "Max (timers a) \<le> later" "blocked a model later" for later
  proof -
    have "t \<le> later" if "t \<in> timers a" for t
      using Max_ge [OF finite_timers that] \<open>Max (timers a) \<le> later\<close> by simp
    then show ?thesis
      using isAuthBlockedForModel_pending [of a later model] that(2)
      by (force simp: pending_block_def split: prod.splits)
  qed
  with isAuthBlockedForModel_pending [of a now model] assms show ?thesis
    by (auto simp: pending_block_def split: prod.splits)
qed

theorem isAuthBlockedForModel_bounded_witness:
  "blocked (sample_auth\<lparr>aModelStates := [(''m'', Some (sample_exhausted 9))]\<rparr>) ''m'' 5 \<and>
   \<not> (blocked (sample_auth\<lparr>aModelStates := [(''m'', Some (sample_exhausted 9))]\<rparr>) ''m'' 12 \<and>
      block_cause (sample_auth\<lparr>aModelStates := [(''m'', Some (sample_exhausted 9))]\<rparr>) ''m'' 12 \<noteq>
        blockReasonDisabled)"
proof -
  let ?a = "sample_auth\<lparr>aModelStates := [(''m'', Some (sample_exhausted 9))]\<rparr>"
  have b: "blocked ?a ''m'' 5" "block_cause ?a ''m'' 5 \<noteq> blockReasonDisabled" by code_simp+
  have "timers ?a = {0, 9}"
    by (simp add: timers_def live_states_def map_filter_simps state_timers_def sample_exhausted_def
        sample_auth_def zeroQuota_def insert_commute)
  with isAuthBlockedForModel_bounded [OF b(1)] b show ?thesis by (simp del: fst_conv snd_conv)
qed

section \<open>Which candidates are offered\<close>

abbreviation cooling :: "string \<Rightarrow> gotime \<Rightarrow> auth \<Rightarrow> bool" where
  "cooling model now a \<equiv> blocked a model now \<and> block_cause a model now = blockReasonCooldown"

abbreviation temporary :: "string \<Rightarrow> gotime \<Rightarrow> auth \<Rightarrow> bool" where
  "temporary model now a \<equiv> blocked a model now \<and> block_cause a model now \<noteq> blockReasonDisabled"

lemma blocked_until:
  "blocked a model now \<Longrightarrow> block_cause a model now \<noteq> blockReasonDisabled \<Longrightarrow>
     now < block_until a model now \<and> block_cause a model now \<in> {blockReasonCooldown, blockReasonOther}"
  "blocked a model now \<Longrightarrow> block_cause a model now = blockReasonDisabled \<Longrightarrow> block_until a model now = 0"
  using isAuthBlockedForModel_pending [of a now model] by (auto simp: pending_block_def split: prod.splits)

lemma collect_step_eq:
  assumes "0 \<le> now"
  shows "collect_step model now a c =
    (if \<not> blocked a model now then c\<lparr>cAvailable := cAvailable c @ [a]\<rparr>
     else if block_cause a model now = blockReasonDisabled then c
     else c\<lparr>cCooldownCount := cCooldownCount c + (if cooling model now a then 1 else 0),
            cCooldownEarliest :=
              (if cooling model now a then tmin (cCooldownEarliest c) (block_until a model now)
               else cCooldownEarliest c),
            cTemporaryCount := cTemporaryCount c + 1,
            cTemporaryEarliest := tmin (cTemporaryEarliest c) (block_until a model now)\<rparr>)"
proof -
  obtain b r t where v: "isAuthBlockedForModel a model now = (b, r, t)" by (cases "isAuthBlockedForModel a model now")
  show ?thesis
    using blocked_until [of a model now] assms
    by (cases r) (auto simp: collect_step_def v Let_def tmin_def min_def)
qed

lemma collectAvailableAuths_fields:
  assumes "0 \<le> now"
  defines "C \<equiv> \<lambda>model auths. collectAvailableAuths auths model now"
  shows "cAvailable (C model auths) = filter (\<lambda>a. \<not> blocked a model now) auths"
    and "cCooldownCount (C model auths) = length (filter (cooling model now) auths)"
    and "cCooldownEarliest (C model auths) = earliest_time ((\<lambda>a. block_until a model now) ` {a \<in> set auths. cooling model now a})"
    and "cTemporaryCount (C model auths) = length (filter (temporary model now) auths)"
    and "cTemporaryEarliest (C model auths) = earliest_time ((\<lambda>a. block_until a model now) ` {a \<in> set auths. temporary model now a})"
proof -
  let ?until = "\<lambda>a. block_until a model now"
  have "cAvailable (fold (collect_step model now) auths c) = cAvailable c @ filter (\<lambda>a. \<not> blocked a model now) auths \<and>
    cCooldownCount (fold (collect_step model now) auths c) = cCooldownCount c + length (filter (cooling model now) auths) \<and>
    cCooldownEarliest (fold (collect_step model now) auths c) =
      fold tmin (map ?until (filter (cooling model now) auths)) (cCooldownEarliest c) \<and>
    cTemporaryCount (fold (collect_step model now) auths c) = cTemporaryCount c + length (filter (temporary model now) auths) \<and>
    cTemporaryEarliest (fold (collect_step model now) auths c) =
      fold tmin (map ?until (filter (temporary model now) auths)) (cTemporaryEarliest c)" for c
    by (induction auths arbitrary: c) (simp_all add: collect_step_eq [OF assms(1)] tmin_commute)
  note all = this [THEN conjunct1] this [THEN conjunct2, THEN conjunct1]
    this [THEN conjunct2, THEN conjunct2, THEN conjunct1]
    this [THEN conjunct2, THEN conjunct2, THEN conjunct2, THEN conjunct1]
    this [THEN conjunct2, THEN conjunct2, THEN conjunct2, THEN conjunct2]
  show "cAvailable (C model auths) = filter (\<lambda>a. \<not> blocked a model now) auths"
    "cCooldownCount (C model auths) = length (filter (cooling model now) auths)"
    "cTemporaryCount (C model auths) = length (filter (temporary model now) auths)"
    unfolding C_def collectAvailableAuths_def all by simp_all
  show "cCooldownEarliest (C model auths) = earliest_time (?until ` {a \<in> set auths. cooling model now a})"
    "cTemporaryEarliest (C model auths) = earliest_time (?until ` {a \<in> set auths. temporary model now a})"
    unfolding C_def collectAvailableAuths_def all fold_tmin by simp_all
qed

lemma earliest_time_pos:
  assumes "finite T" "T \<noteq> {}" "\<And>t. t \<in> T \<Longrightarrow> now < t" "0 \<le> now"
  shows "now < earliest_time T \<and> earliest_time T \<in> T \<and> (\<forall>t \<in> T. earliest_time T \<le> t)"
proof -
  have "T - {0} = T" using assms(3,4) by force
  with assms show ?thesis by (auto simp: earliest_time_def)
qed

text \<open>The optimistic search keeps the best candidate seen so far: the earliest, then the smallest name.\<close>

definition opt_le :: "string \<Rightarrow> gotime \<Rightarrow> auth \<Rightarrow> auth \<Rightarrow> bool" where
  "opt_le model now a b \<longleftrightarrow>
     block_until a model now < block_until b model now \<or>
     block_until a model now = block_until b model now \<and> aID a \<le> aID b"

lemma opt_le_trans: "opt_le model now a b \<Longrightarrow> opt_le model now b c \<Longrightarrow> opt_le model now a c"
  by (auto simp: opt_le_def)

lemma opt_le_refl [simp]: "opt_le model now a a"
  by (simp add: opt_le_def)

definition best_optimistic :: "string \<Rightarrow> gotime \<Rightarrow> auth list \<Rightarrow> (auth \<times> gotime) option \<Rightarrow> bool" where
  "best_optimistic model now seen r \<longleftrightarrow>
     (case r of
        None \<Rightarrow> \<not> list_ex (optimistic_ok model now) seen
      | Some (b, t) \<Rightarrow> b \<in> set seen \<and> optimistic_ok model now b \<and> t = block_until b model now \<and>
          (\<forall>a \<in> set seen. optimistic_ok model now a \<longrightarrow> opt_le model now b a))"

lemma optimistic_step_cases:
  "optimistic_step model now a (Some (b, block_until b model now)) =
     (if optimistic_ok model now a \<and> \<not> opt_le model now b a then Some (a, block_until a model now)
      else Some (b, block_until b model now))"
  by (auto simp: optimistic_step_def opt_le_def Let_def)

lemma optimistic_step_best:
  assumes "best_optimistic model now seen r"
  shows "best_optimistic model now (seen @ [a]) (optimistic_step model now a r)"
proof (cases r)
  case None
  with assms show ?thesis by (auto simp: best_optimistic_def optimistic_step_def Let_def list_ex_iff)
next
  case (Some p)
  with assms obtain b where r: "r = Some (b, block_until b model now)"
    and b: "b \<in> set seen" "optimistic_ok model now b"
      "\<forall>a \<in> set seen. optimistic_ok model now a \<longrightarrow> opt_le model now b a"
    by (auto simp: best_optimistic_def)
  have total: "opt_le model now b a \<or> opt_le model now a b" by (auto simp: opt_le_def)
  show ?thesis
    using b total unfolding r optimistic_step_cases
    by (auto simp: best_optimistic_def intro: opt_le_trans)
qed

lemma fold_optimistic_best:
  "best_optimistic model now seen r \<Longrightarrow>
     best_optimistic model now (seen @ auths) (fold (optimistic_step model now) auths r)"
proof (induction auths arbitrary: seen r)
  case (Cons a auths)
  from Cons.IH [OF optimistic_step_best [OF Cons.prems, of a]] show ?case by simp
qed simp

lemma earliestOptimisticCandidate_best:
  "case earliestOptimisticCandidate auths model now of
     None \<Rightarrow> \<not> list_ex (optimistic_ok model now) auths
   | Some b \<Rightarrow> b \<in> set auths \<and> optimistic_ok model now b \<and>
       (\<forall>a \<in> set auths. optimistic_ok model now a \<longrightarrow> opt_le model now b a)"
  using fold_optimistic_best [of model now "[]" None auths]
  by (auto simp: best_optimistic_def earliestOptimisticCandidate_def split: option.splits)

lemma available_ready:
  assumes "0 \<le> now" "a \<in> set auths" "\<not> blocked a model now" "authParticipatesInSelection a"
  shows "getAvailableAuths auths provider model now =
           Inr (sort_key aID (filter (\<lambda>x. \<not> blocked x model now \<and> authParticipatesInSelection x) auths))"
proof -
  have "filter authParticipatesInSelection (filter (\<lambda>x. \<not> blocked x model now) auths) \<noteq> []"
    using assms(2-4) by (auto simp: filter_empty_conv)
  moreover have "filter (\<lambda>x. \<not> blocked x model now) auths \<noteq> []" "auths \<noteq> []"
    using assms(2,3) by (auto simp: filter_empty_conv)
  ultimately show ?thesis
    by (simp add: getAvailableAuths_def Let_def collectAvailableAuths_fields [OF assms(1)] conj_commute)
qed

lemma available_single_optimistic:
  assumes "optimistic_ok model now b"
  shows "getAvailableAuths [b] provider model now = Inr [b]"
proof -
  obtain u where u: "isAuthBlockedForModel b model now = (True, blockReasonOther, u)" "u \<noteq> 0"
    using assms by (cases "isAuthBlockedForModel b model now") (auto simp: optimistic_ok_def)
  have "earliestOptimisticCandidate [b] model now = Some b"
    using assms by (simp add: earliestOptimisticCandidate_def optimistic_step_def Let_def)
  with u show ?thesis
    by (simp add: getAvailableAuths_def collectAvailableAuths_def collect_step_def)
qed

text \<open>
  When a candidate that takes part in scheduling is not blocked, the candidates offered are exactly the
  unblocked participating ones, ordered by name; whether a candidate is offered does not depend on
  which others there are.
\<close>

theorem getAvailableAuths_ready:
  assumes "0 \<le> now" "a \<in> set auths" "\<not> blocked a model now" "authParticipatesInSelection a"
  shows "getAvailableAuths auths provider model now =
           Inr (sort_key aID (filter (\<lambda>x. \<not> blocked x model now \<and> authParticipatesInSelection x) auths))"
  using assms by (rule available_ready)

theorem getAvailableAuths_ready_witness:
  "getAvailableAuths [sample_auth\<lparr>aID := ''b''\<rparr>, sample_auth\<lparr>aID := ''c'', aDisabled := True\<rparr>, sample_auth]
     ''codex'' ''m'' 5 = Inr [sample_auth, sample_auth\<lparr>aID := ''b''\<rparr>]"
proof -
  let ?as = "[sample_auth\<lparr>aID := ''b''\<rparr>, sample_auth\<lparr>aID := ''c'', aDisabled := True\<rparr>, sample_auth]"
  have "\<not> blocked sample_auth ''m'' 5" "authParticipatesInSelection sample_auth" by code_simp+
  then have "getAvailableAuths ?as ''codex'' ''m'' 5 = Inr (sort_key aID
      (filter (\<lambda>x. \<not> blocked x ''m'' 5 \<and> authParticipatesInSelection x) ?as))"
    by (intro getAvailableAuths_ready) simp_all
  moreover have "sort_key aID (filter (\<lambda>x. \<not> blocked x ''m'' 5 \<and> authParticipatesInSelection x) ?as) =
      [sample_auth, sample_auth\<lparr>aID := ''b''\<rparr>]" by code_simp
  ultimately show ?thesis by simp
qed

lemma available_sound:
  assumes "0 \<le> now" "getAvailableAuths auths provider model now = Inr xs"
  shows "xs \<noteq> [] \<and> set xs \<subseteq> set auths \<and> (\<forall>x \<in> set xs. authParticipatesInSelection x) \<and>
    ((\<forall>x \<in> set xs. \<not> blocked x model now) \<or>
     (\<exists>b. xs = [b] \<and> optimistic_ok model now b \<and> (\<forall>x \<in> set auths. blocked x model now) \<and>
        (\<forall>x \<in> set auths. optimistic_ok model now x \<longrightarrow> block_until b model now \<le> block_until x model now)))"
proof (cases "filter (\<lambda>x. \<not> blocked x model now) auths = []")
  case True
  then have all: "\<forall>x \<in> set auths. blocked x model now" by (simp add: filter_empty_conv)
  from True assms obtain b where b: "earliestOptimisticCandidate auths model now = Some b" "xs = [b]"
    by (auto simp: getAvailableAuths_def Let_def collectAvailableAuths_fields [OF assms(1)]
        split: if_split_asm option.split_asm)
  with earliestOptimisticCandidate_best [where auths = auths and model = model and now = now] all show ?thesis
    by (auto simp: opt_le_def optimistic_ok_def)
next
  case False
  define ys where "ys = filter authParticipatesInSelection (filter (\<lambda>x. \<not> blocked x model now) auths)"
  have ys: "set ys \<subseteq> set auths" "\<forall>x \<in> set ys. authParticipatesInSelection x \<and> \<not> blocked x model now"
    by (auto simp: ys_def)
  from False assms(2) have "ys \<noteq> []" "xs = sort_key aID ys"
    by (simp_all add: getAvailableAuths_def Let_def collectAvailableAuths_fields [OF assms(1)]
        ys_def split: if_split_asm)
  moreover from this have "set xs = set ys" "xs \<noteq> []" by (metis set_sort set_empty)+
  ultimately show ?thesis using ys by auto
qed

lemma getAvailableAuths_nonempty:
  "0 \<le> now \<Longrightarrow> getAvailableAuths auths provider model now = Inr xs \<Longrightarrow> xs \<noteq> []"
  using available_sound by blast

lemma available_member:
  "0 \<le> now \<Longrightarrow> getAvailableAuths auths provider model now = Inr xs \<Longrightarrow> a \<in> set xs \<Longrightarrow>
     a \<in> set auths \<and> authParticipatesInSelection a \<and> (\<not> blocked a model now \<or> optimistic_ok model now a)"
  using available_sound [of now auths provider model xs] by fastforce

text \<open>
  C39: Every candidate offered is one of the given ones and takes part in scheduling, and a blocked one is offered
  only alone, when nothing is free: it is parked for a reason other than a quota for at most ten
  seconds more, and no other such candidate recovers earlier.
\<close>

theorem getAvailableAuths_sound:
  assumes "0 \<le> now" "getAvailableAuths auths provider model now = Inr xs"
  shows "xs \<noteq> [] \<and> set xs \<subseteq> set auths \<and> (\<forall>x \<in> set xs. authParticipatesInSelection x) \<and>
    ((\<forall>x \<in> set xs. \<not> blocked x model now) \<or>
     (\<exists>b. xs = [b] \<and> optimistic_ok model now b \<and> (\<forall>x \<in> set auths. blocked x model now) \<and>
        (\<forall>x \<in> set auths. optimistic_ok model now x \<longrightarrow> block_until b model now \<le> block_until x model now)))"
  using assms by (rule available_sound)

definition shed :: auth where
  "shed = sample_auth\<lparr>aModelStates :=
     [(''m'', Some (newModelState\<lparr>msUnavailable := True, msNextRetryAfter := 9\<rparr>))]\<rparr>"

theorem getAvailableAuths_sound_witness:
  "getAvailableAuths [shed] ''codex'' ''m'' 5 = Inr [shed] \<and> blocked shed ''m'' 5 \<and> optimistic_ok ''m'' 5 shed"
proof -
  have v: "getAvailableAuths [shed] ''codex'' ''m'' 5 = Inr [shed]" "blocked shed ''m'' 5" by code_simp+
  with getAvailableAuths_sound [OF _ v(1)] show ?thesis by simp
qed

text \<open>
  When every candidate is cooling down on a quota, the caller is told so with status 429 and a waiting time that
  is positive and ends exactly when the first candidate recovers.
\<close>

theorem getAvailableAuths_cooldown:
  assumes "0 \<le> now" "auths \<noteq> []" "list_all (cooling model now) auths"
    and "\<forall>a \<in> set auths. block_until a model now - now \<le> maxInt64"
  shows "\<exists>a \<in> set auths. getAvailableAuths auths provider model now =
           Inl (ModelCooldown model (provider_for_error provider) (block_until a model now - now)) \<and>
         0 < block_until a model now - now \<and>
         (\<forall>b \<in> set auths. block_until a model now \<le> block_until b model now)"
proof -
  let ?T = "(\<lambda>a. block_until a model now) ` set auths"
  have cool: "cooling model now a" if "a \<in> set auths" for a
    using assms(3) that by (simp add: list_all_iff)
  have "now < t" if "t \<in> ?T" for t using that cool blocked_until(1) by fastforce
  then have e: "now < earliest_time ?T" "earliest_time ?T \<in> ?T" "\<forall>t \<in> ?T. earliest_time ?T \<le> t"
    using earliest_time_pos [of ?T now] assms(1,2) by simp_all
  then obtain a where a: "a \<in> set auths" "earliest_time ?T = block_until a model now" by auto
  have "{x \<in> set auths. cooling model now x} = set auths" "filter (cooling model now) auths = auths"
    "filter (\<lambda>x. \<not> blocked x model now) auths = []"
    using cool by (auto simp: filter_id_conv filter_empty_conv)
  then have "getAvailableAuths auths provider model now =
      Inl (newModelCooldownError model (provider_for_error provider) (max 0 (time_sub (earliest_time ?T) now)))"
    using e(1) assms(1,2)
    by (simp add: getAvailableAuths_def Let_def collectAvailableAuths_fields [OF assms(1)])
  moreover have "time_sub (earliest_time ?T) now = earliest_time ?T - now"
    using e(1) a assms(4) by (intro time_sub_exact) (auto simp: minInt64_def)
  ultimately show ?thesis using e a by (intro bexI [of _ a]) (simp_all add: newModelCooldownError_def)
qed

theorem getAvailableAuths_cooldown_witness:
  "\<exists>a \<in> set [sample_auth\<lparr>aModelStates := [(''m'', Some (sample_exhausted 9))]\<rparr>].
     getAvailableAuths [sample_auth\<lparr>aModelStates := [(''m'', Some (sample_exhausted 9))]\<rparr>] ''codex'' ''m'' 5 =
       Inl (ModelCooldown ''m'' (provider_for_error ''codex'') (block_until a ''m'' 5 - 5))"
proof -
  let ?as = "[sample_auth\<lparr>aModelStates := [(''m'', Some (sample_exhausted 9))]\<rparr>]"
  have "list_all (cooling ''m'' 5) ?as" "list_all (\<lambda>a. block_until a ''m'' 5 - 5 \<le> maxInt64) ?as"
    by code_simp+
  moreover have "0 \<le> (5 :: gotime)" "?as \<noteq> []" by simp_all
  ultimately show ?thesis
    using getAvailableAuths_cooldown [of 5 ?as "''m''" "''codex''"] unfolding list_all_iff by blast
qed

text \<open>
  Models that belong to neither of the two Antigravity pools are separate pools by
  \<^verbatim>\<open>AreAntigravityModelsSameFamily\<close>, but the block test treats them as one: a model that was never
  used is blocked because an unrelated one is exhausted.
\<close>

theorem antigravity_other_models_share_block:
  "let a = sample_auth\<lparr>aProvider := ''antigravity'',
             aModelStates := [(''tab-flash'', Some (sample_exhausted 9))]\<rparr>
   in \<not> AreAntigravityModelsSameFamily ''chat-20706'' ''tab-flash'' \<and>
      isAuthBlockedForModel a ''chat-20706'' 5 = (True, blockReasonCooldown, 9)"
  by code_simp

end
