(* ===== verification/Auth_Cooldown.thy ===== *)
theory Auth_Cooldown
  imports Claude_Health Auth_Availability
begin

text \<open>
  The cooldown service: \<^verbatim>\<open>src/sdk/cliproxy/auth/conductor_cooldown_service.go\<close>, the classification of errors in
  \<^verbatim>\<open>conductor_error_helpers.go\<close>, and the notices of \<^verbatim>\<open>conductor_cooldown_cluster.go\<close>. It records the outcome
  of a request in the credential that served it and decides whether, and after which wait, a failed request is
  tried again.

  A Go \<^verbatim>\<open>error\<close> is what the code reads from it: the status code (0 for an error that has none), the
  \<^verbatim>\<open>*Error\<close> in its chain, and its text. Decoding an error text as a JSON object (\<^verbatim>\<open>encoding/json\<close>) and
  rendering a value that is no string (\<^verbatim>\<open>fmt.Sprint\<close>) are parameters \<open>unmarshal\<close> and \<open>sprint\<close>. The flag
  \<open>off\<close> is the process-wide switch that disables quota cooldowns. Calls into the model registry are returned as
  a list; persistence and the result hook are not modelled.
\<close>

section \<open>Errors of the client's own making\<close>

record goerr =
  geStatus :: int
  geAuth :: "error option"
  geText :: string

text \<open>A \<^verbatim>\<open>*Error\<close> as an \<^verbatim>\<open>error\<close>.\<close>

definition auth_goerr :: "error \<Rightarrow> goerr" where
  "auth_goerr e = \<lparr>geStatus = eHTTPStatus e, geAuth = Some e, geText = error_text (Some e)\<rparr>"

definition isInvalidRequestSignal :: "string \<Rightarrow> bool" where
  "isInvalidRequestSignal raw =
     (let s = to_lower (trim_space raw)
      in s \<noteq> '''' \<and>
         (list_ex (contains s)
            [''invalid_request_error'', ''invalid-argument'', ''invalid_argument'', ''invalid request'',
             ''model is not supported'', ''model not supported'',
             ''not supported when using codex with a chatgpt account''] \<or>
          contains s ''below the minimum of'' \<and> contains s ''pixels'' \<or>
          contains s ''total pixels'' \<and> contains s ''minimum'' \<or>
          list_ex (contains s)
            [''context_length_exceeded'', ''prompt_too_long'', ''maximum context length'',
             ''maximum prompt length'', ''prompt is too long'', ''prompt too long'', ''too many tokens'',
             ''tokens > max'', ''tokens exceeds''] \<or>
          contains s ''maximum prompt'' \<and> contains s ''tokens'' \<or>
          contains s ''prompt length'' \<and> contains s ''tokens''))"

definition stringValue :: "(goany \<Rightarrow> string) \<Rightarrow> goany option \<Rightarrow> string" where
  "stringValue sprint v =
     (case v of
        None \<Rightarrow> ''''
      | Some ANil \<Rightarrow> ''''
      | Some (AStr s) \<Rightarrow> trim_space s
      | Some (ABytes s) \<Rightarrow> trim_space s
      | Some x \<Rightarrow> trim_space (sprint x))"

fun nested_value :: "goany option \<Rightarrow> string list \<Rightarrow> goany option" where
  "nested_value cur [] = cur"
| "nested_value cur (k # ks) =
     (case cur of Some (AMap m) \<Rightarrow> nested_value (map_of m k) ks | _ \<Rightarrow> None)"

definition nestedString :: "(goany \<Rightarrow> string) \<Rightarrow> (string, goany) gomap \<Rightarrow> string list \<Rightarrow> string" where
  "nestedString sprint payload keys =
     (if payload = [] \<or> keys = [] then '''' else stringValue sprint (nested_value (Some (AMap payload)) keys))"

definition payload_signals :: "(goany \<Rightarrow> string) \<Rightarrow> (string, goany) gomap \<Rightarrow> string list" where
  "payload_signals sprint p =
     map (\<lambda>k. stringValue sprint (map_of p k)) [''code'', ''type'', ''status'', ''detail'', ''error'', ''message''] @
     map (\<lambda>k. nestedString sprint p [''error'', k]) [''type'', ''code'', ''status'', ''message'']"

definition isRequestInvalidError ::
  "(string \<Rightarrow> (string, goany) gomap option) \<Rightarrow> (goany \<Rightarrow> string) \<Rightarrow> goerr \<Rightarrow> bool" where
  "isRequestInvalidError unmarshal sprint err =
     (if geStatus err \<noteq> 400 then False
      else if (case geAuth err of None \<Rightarrow> False
               | Some e \<Rightarrow> isInvalidRequestSignal (eCode e) \<or> isInvalidRequestSignal (eMessage e)) then True
      else
        let message = trim_space (geText err)
        in if message = '''' then False
           else if isInvalidRequestSignal message then True
           else (case unmarshal message of
                   None \<Rightarrow> False
                 | Some payload \<Rightarrow> list_ex isInvalidRequestSignal (payload_signals sprint payload)))"

definition isContentPolicyViolation :: "goerr \<Rightarrow> bool" where
  "isContentPolicyViolation err =
     (case geAuth err of None \<Rightarrow> False | Some e \<Rightarrow> eCode e = ''content_policy_violation'')"

section \<open>Classification of upstream errors\<close>

definition isResponseStreamIncompleteError :: "error option \<Rightarrow> bool" where
  "isResponseStreamIncompleteError e =
     (case e of None \<Rightarrow> False | Some x \<Rightarrow> trim_space (eCode x) = ''response_stream_incomplete'')"

definition isTransientRateLimitError :: "error option \<Rightarrow> bool" where
  "isTransientRateLimitError e =
     (case e of None \<Rightarrow> False
      | Some x \<Rightarrow>
          let body = to_lower (eMessage x)
          in body \<noteq> '''' \<and>
             \<not> list_ex (contains body)
               [''quota_exhausted'', ''quotaresetdelay'', ''quota reset'', ''quota limit'', ''daily quota'',
                ''usage balance exhausted'', ''balance exhausted''] \<and>
             list_ex (contains body)
               [''resource has been exhausted'', ''resource_exhausted'', ''rate limit'', ''too many requests''])"

definition isTransientUpstreamOverloadError :: "error option \<Rightarrow> bool" where
  "isTransientUpstreamOverloadError e =
     (case e of None \<Rightarrow> False
      | Some x \<Rightarrow>
          let haystack = to_lower (eCode x @ '' '' @ eMessage x)
          in trim_space haystack \<noteq> '''' \<and>
             list_ex (contains haystack)
               [''server_is_overloaded'', ''service_unavailable_error'', ''overloaded''])"

definition transientRateLimitCooldown :: duration where "transientRateLimitCooldown = minute"
definition transientUpstreamOverloadCooldown :: duration where "transientUpstreamOverloadCooldown = 5 * second"

section \<open>Recording a failure of a model\<close>

definition applyModelQuotaFailureLocked ::
  "bool \<Rightarrow> auth \<Rightarrow> model_state \<Rightarrow> result \<Rightarrow> gotime \<Rightarrow> effects \<Rightarrow> model_state \<times> effects" where
  "applyModelQuotaFailureLocked off a s r now fx =
     (case quotaFailureCooldown (rError r) (rRetryAfter r) (qBackoffLevel (msQuota s))
             (quotaCooldownDisabledForAuth off a) of
        (cooldown, level) \<Rightarrow>
          let next = (if 0 < cooldown then now + cooldown else 0);
              q = \<lparr>qExceeded = True, qRecoveryRequired = isXAIWeekBalanceExhaustedError (rError r),
                   qReason = ''quota'',
                   qWindow = (case rError r of None \<Rightarrow> '''' | Some e \<Rightarrow> eQuotaWindow e),
                   qWindowMinutes = (case rError r of None \<Rightarrow> 0 | Some e \<Rightarrow> eQuotaWindowMinutes e),
                   qNextRecoverAt = next, qBackoffLevel = level\<rparr>;
              msg = (case rError r of None \<Rightarrow> ''quota exhausted''
                     | Some e \<Rightarrow> if eMessage e \<noteq> '''' then eMessage e else ''quota exhausted'')
          in (s\<lparr>msNextRetryAfter := next, msQuota := q, msStatusMessage := msg\<rparr>,
              fx\<lparr>fSuspendReason := ''quota'', fShouldSuspend := True, fSetQuota := True\<rparr>))"

definition applyTransientRateLimitLocked ::
  "bool \<Rightarrow> auth \<Rightarrow> model_state \<Rightarrow> result \<Rightarrow> gotime \<Rightarrow> effects \<Rightarrow> auth \<times> effects" where
  "applyTransientRateLimitLocked off a s r now fx =
     (let c0 = (case rRetryAfter r of Some d \<Rightarrow> if 0 < d then d else transientRateLimitCooldown
                | None \<Rightarrow> transientRateLimitCooldown);
          cooldown = (if quotaCooldownDisabledForAuth off a then 0 else c0);
          s' = s\<lparr>msNextRetryAfter := (if 0 < cooldown then now + cooldown else 0), msQuota := zeroQuota\<rparr>;
          a' = (put_model_state a (rModel r) s')\<lparr>aStatus := StatusError, aUpdatedAt := now\<rparr>
      in (updateAggregatedAvailability a' now, fx\<lparr>fClearQuota := True\<rparr>))"

definition suspend :: "string \<Rightarrow> effects \<Rightarrow> effects" where
  "suspend reason fx = fx\<lparr>fSuspendReason := reason, fShouldSuspend := True\<rparr>"

text \<open>The \<^verbatim>\<open>switch\<close> on the status code; \<open>s\<close> is the state already marked as failed.\<close>

definition model_failure_switch ::
  "bool \<Rightarrow> auth \<Rightarrow> model_state \<Rightarrow> result \<Rightarrow> gotime \<Rightarrow> effects \<Rightarrow> auth \<times> effects" where
  "model_failure_switch off a s r now fx =
     (let code = statusCodeFromResult (rError r);
          retry_at = (\<lambda>t. put_model_state a (rModel r) (s\<lparr>msNextRetryAfter := t\<rparr>));
          quota = (case applyModelQuotaFailureLocked off a s r now fx of
                     (s', fx') \<Rightarrow> (put_model_state a (rModel r) s', fx'))
      in if code = 402 \<and> isQuotaExhaustionError (rError r) (rRetryAfter r) then quota
         else if code = 401 then (retry_at (now + 30 * minute), suspend ''unauthorized'' fx)
         else if code = 402 \<or> code = 403 then (retry_at (now + 30 * minute), suspend ''payment_required'' fx)
         else if code = 404 then (retry_at (now + 12 * hour), suspend ''not_found'' fx)
         else if code = 429 then
           (if isTransientRateLimitError (rError r) then applyTransientRateLimitLocked off a s r now fx
            else quota)
         else if code \<in> set [408, 500, 502, 503, 504] then
           (if quotaCooldownDisabledForAuth off a then (retry_at 0, fx)
            else if isTransientUpstreamOverloadError (rError r)
            then (retry_at (now + transientUpstreamOverloadCooldown), fx)
            else (retry_at (now + 1 * minute), fx))
         else (retry_at 0, fx))"

definition applyModelFailureLocked ::
  "bool \<Rightarrow> auth \<Rightarrow> result \<Rightarrow> gotime \<Rightarrow> effects \<Rightarrow> auth \<times> effects" where
  "applyModelFailureLocked off a r now fx =
     (let a1 = fst (ensureModelState a (rModel r));
          s0 = (get_model_state a (rModel r))
                 \<lparr>msUnavailable := True, msStatus := StatusError, msUpdatedAt := now\<rparr>;
          (a2, s) = (case rError r of None \<Rightarrow> (a1, s0)
                     | Some e \<Rightarrow> (a1\<lparr>aLastError := cloneError (rError r), aStatusMessage := eMessage e\<rparr>,
                                  s0\<lparr>msLastError := cloneError (rError r), msStatusMessage := eMessage e\<rparr>))
      in if isResponseStreamIncompleteError (rError r) then
           (updateAggregatedAvailability
              ((put_model_state a2 (rModel r) (s\<lparr>msUnavailable := False, msNextRetryAfter := 0\<rparr>))
                 \<lparr>aStatus := StatusError, aUpdatedAt := now\<rparr>) now, fx)
         else (case model_failure_switch off a2 s r now fx of
                 (a3, fx') \<Rightarrow>
                   (updateAggregatedAvailability (a3\<lparr>aStatus := StatusError, aUpdatedAt := now\<rparr>) now, fx')))"

section \<open>Recording a result\<close>

definition applySuccessLocked :: "auth \<Rightarrow> result \<Rightarrow> gotime \<Rightarrow> effects \<Rightarrow> auth \<times> effects" where
  "applySuccessLocked a0 r now fx =
     (let a = markClaudeOAuthHealthSuccessLocked a0 r now
      in if rModel r \<noteq> '''' then
           (let a1 = fst (ensureModelState a (rModel r)); s = get_model_state a (rModel r)
            in if activeModelQuotaCooldown (Some s) now \<and> \<not> quotaNeedsConfirmedRecovery (msQuota s) now
               then ((updateAggregatedAvailability a1 now)\<lparr>aUpdatedAt := now\<rparr>, fx)
               else
                 let a2 = updateAggregatedAvailability (put_model_state a1 (rModel r) (resetModelState s now)) now;
                     a3 = (if \<not> hasModelError a2 now
                           then a2\<lparr>aLastError := None, aStatusMessage := '''', aStatus := StatusActive\<rparr>
                           else a2)
                 in (a3\<lparr>aUpdatedAt := now\<rparr>, fx\<lparr>fShouldResume := True, fClearQuota := True\<rparr>))
         else if activeAuthQuotaCooldown a now \<and> \<not> quotaNeedsConfirmedRecovery (aQuota a) now
         then ((updateAggregatedAvailability a now)\<lparr>aUpdatedAt := now\<rparr>, fx)
         else (clearAuthStateOnSuccess a now, fx))"

definition applyFailureLocked ::
  "(string \<Rightarrow> (string, goany) gomap option) \<Rightarrow> (goany \<Rightarrow> string) \<Rightarrow> bool \<Rightarrow> auth \<Rightarrow> result \<Rightarrow> gotime \<Rightarrow>
   effects \<Rightarrow> auth \<times> effects" where
  "applyFailureLocked unmarshal sprint off a r now fx =
     (if (case rError r of None \<Rightarrow> False | Some e \<Rightarrow> isRequestInvalidError unmarshal sprint (auth_goerr e))
      then (a, fx)
      else case applyClaudeOAuthFailureLocked a r now fx of
             (a1, fx1, handled) \<Rightarrow>
               if handled then (a1, fx1)
               else if rModel r \<noteq> '''' then applyModelFailureLocked off a1 r now fx1
               else (applyAuthFailureState off a1 (rError r) (rRetryAfter r) now, fx1))"

definition applyResultLocked ::
  "(string \<Rightarrow> (string, goany) gomap option) \<Rightarrow> (goany \<Rightarrow> string) \<Rightarrow> bool \<Rightarrow> auth \<Rightarrow> result \<Rightarrow> gotime \<Rightarrow>
   auth \<times> effects" where
  "applyResultLocked unmarshal sprint off a r now =
     (if rSuccess r then applySuccessLocked a r now no_effects
      else applyFailureLocked unmarshal sprint off a r now no_effects)"

section \<open>The model registry's view\<close>

datatype registry_call =
  ClearModelQuotaExceeded string string
| SetModelQuotaExceeded string string
| ResumeClientModel string string
| SuspendClientModel string string string

definition applyRegistryEffects :: "result \<Rightarrow> effects \<Rightarrow> registry_call list" where
  "applyRegistryEffects r fx =
     (if fClearQuota fx \<and> rModel r \<noteq> '''' then [ClearModelQuotaExceeded (rAuthID r) (rModel r)] else []) @
     (if fSetQuota fx \<and> rModel r \<noteq> '''' then [SetModelQuotaExceeded (rAuthID r) (rModel r)] else []) @
     (if fShouldResume fx then [ResumeClientModel (rAuthID r) (rModel r)]
      else if fShouldSuspend fx then [SuspendClientModel (rAuthID r) (rModel r) (fSuspendReason fx)]
      else [])"

section \<open>Notices for other processes\<close>

record notice =
  nAuthID :: string
  nModel :: string
  nUntil :: gotime
  nStatusCode :: int
  nReason :: string
  nQuota :: bool
  nOrigin :: string

text \<open>The later of a retry time in force and a recovery time, when it lies ahead.\<close>

definition deadline_of :: "bool \<Rightarrow> gotime \<Rightarrow> quota_state \<Rightarrow> gotime \<Rightarrow> gotime \<times> bool" where
  "deadline_of unavailable retry q now =
     (let u0 = (if unavailable then retry else 0);
          until = (if qExceeded q \<and> u0 < qNextRecoverAt q then qNextRecoverAt q else u0)
      in if \<not> now < until then (0, False) else (until, qExceeded q))"

definition cooldownDeadline :: "auth \<Rightarrow> string \<Rightarrow> gotime \<Rightarrow> gotime \<times> bool" where
  "cooldownDeadline a model now =
     (if model \<noteq> '''' then
        (case map_of (aModelStates a) model of
           Some (Some s) \<Rightarrow> deadline_of (msUnavailable s) (msNextRetryAfter s) (msQuota s) now
         | _ \<Rightarrow> (0, False))
      else deadline_of (aUnavailable a) (aNextRetryAfter a) (aQuota a) now)"

definition cooldownBeforeLocked :: "bool \<Rightarrow> auth \<Rightarrow> result \<Rightarrow> gotime \<Rightarrow> gotime" where
  "cooldownBeforeLocked publishing a r now =
     (if \<not> publishing \<or> rSuccess r then 0 else fst (cooldownDeadline a (rModel r) now))"

definition cooldownNoticeLocked ::
  "bool \<Rightarrow> auth \<Rightarrow> result \<Rightarrow> effects \<Rightarrow> gotime \<Rightarrow> gotime \<Rightarrow> notice option" where
  "cooldownNoticeLocked publishing a r fx before now =
     (if \<not> publishing \<or> rSuccess r then None
      else case cooldownDeadline a (rModel r) now of
             (until, quota) \<Rightarrow>
               if until = 0 \<or> \<not> before < until then None
               else Some \<lparr>nAuthID = aID a, nModel = rModel r, nUntil = until,
                          nStatusCode = statusCodeFromResult (rError r), nReason = fSuspendReason fx,
                          nQuota = quota, nOrigin = ''''\<rparr>)"

section \<open>Recording the result of a request\<close>

text \<open>
  The credentials of the manager after the result, the registry calls, the published notice, and whether a
  quota probe is started.
\<close>

definition markResult ::
  "(string \<Rightarrow> (string, goany) gomap option) \<Rightarrow> (goany \<Rightarrow> string) \<Rightarrow> bool \<Rightarrow> bool \<Rightarrow>
   (string, auth option) gomap \<Rightarrow> result \<Rightarrow> gotime \<Rightarrow>
   (string, auth option) gomap \<times> registry_call list \<times> notice option \<times> bool" where
  "markResult unmarshal sprint off publishing auths r now =
     (if rAuthID r = '''' then (auths, [], None, False)
      else
        let probe = (\<not> rSuccess r \<and> rRetryAfter r = None \<and> isXAIWeekBalanceExhaustedError (rError r))
        in case map_of auths (rAuthID r) of
             Some (Some a) \<Rightarrow>
               let before = cooldownBeforeLocked publishing a r now;
                   (a', fx) = applyResultLocked unmarshal sprint off a r now
               in (map_put (rAuthID r) (Some a') auths, applyRegistryEffects r fx,
                   cooldownNoticeLocked publishing a' r fx before now, probe)
           | _ \<Rightarrow> (auths, applyRegistryEffects r no_effects, None, probe))"

section \<open>Trying again\<close>

definition pinnedAuthIDFromMetadata :: "(string, goany) gomap \<Rightarrow> string" where
  "pinnedAuthIDFromMetadata meta =
     (case map_of meta ''pinned_auth_id'' of
        Some (AStr s) \<Rightarrow> trim_space s
      | Some (ABytes s) \<Rightarrow> trim_space s
      | _ \<Rightarrow> '''')"

definition isSinglePickRouteRequest :: "(string, goany) gomap \<Rightarrow> bool" where
  "isSinglePickRouteRequest meta \<longleftrightarrow>
     pinnedAuthIDFromMetadata meta \<noteq> '''' \<or>
     (case map_of meta ''single_pick'' of None \<Rightarrow> False | Some v \<Rightarrow> parseBoolAny v = Some True)"

definition effective_retry :: "int \<Rightarrow> auth \<Rightarrow> int" where
  "effective_retry defaultRetry a =
     max 0 (case RequestRetryOverride a of Some n \<Rightarrow> n | None \<Rightarrow> max 0 defaultRetry)"

text \<open>The body of the loop: the wait of one credential, and the minimum so far.\<close>

definition auth_wait :: "int \<Rightarrow> string set \<Rightarrow> string \<Rightarrow> int \<Rightarrow> gotime \<Rightarrow> auth \<Rightarrow> duration option" where
  "auth_wait defaultRetry providers model attempt now a =
     (if trim_space (to_lower (aProvider a)) \<notin> providers then None
      else if effective_retry defaultRetry a \<le> attempt then None
      else case isAuthBlockedForModel a model now of
             (b, reason, next) \<Rightarrow>
               if \<not> b \<or> next = 0 \<or> reason = blockReasonDisabled then None
               else if time_sub next now < 0 then None
               else Some (time_sub next now))"

definition wait_step :: "('a \<Rightarrow> duration option) \<Rightarrow> 'a option \<Rightarrow> duration option \<Rightarrow> duration option" where
  "wait_step f x acc =
     (case x of None \<Rightarrow> acc
      | Some a \<Rightarrow>
          (case f a of None \<Rightarrow> acc
           | Some w \<Rightarrow> (case acc of None \<Rightarrow> Some w | Some m \<Rightarrow> if w < m then Some w else acc)))"

definition provider_set :: "string list \<Rightarrow> string set" where
  "provider_set providers = set (filter (\<lambda>k. k \<noteq> '''') (map (\<lambda>p. trim_space (to_lower p)) providers))"

definition closestWait ::
  "int \<Rightarrow> (string, auth option) gomap \<Rightarrow> string list \<Rightarrow> string \<Rightarrow> int \<Rightarrow> gotime \<Rightarrow> duration option" where
  "closestWait defaultRetry auths providers model attempt now =
     (if providers = [] then None
      else fold (wait_step (auth_wait defaultRetry (provider_set providers) model attempt now))
             (map snd auths) None)"

definition shouldRetryAfterError ::
  "(string \<Rightarrow> (string, goany) gomap option) \<Rightarrow> (goany \<Rightarrow> string) \<Rightarrow> int \<Rightarrow> (string, auth option) gomap \<Rightarrow>
   goerr option \<Rightarrow> int \<Rightarrow> string list \<Rightarrow> string \<Rightarrow> duration \<Rightarrow> (string, goany) gomap \<Rightarrow> gotime \<Rightarrow>
   duration option" where
  "shouldRetryAfterError unmarshal sprint defaultRetry auths err attempt providers model maxWait meta now =
     (case err of None \<Rightarrow> None
      | Some e \<Rightarrow>
          if maxWait \<le> 0 then None
          else if isSinglePickRouteRequest meta then None
          else if geStatus e = 200 then None
          else if isRequestInvalidError unmarshal sprint e then None
          else if isContentPolicyViolation e then None
          else case closestWait defaultRetry auths providers model attempt now of
                 None \<Rightarrow> None
               | Some w \<Rightarrow> if maxWait < w then None else Some w)"

section \<open>Lemmas on recorded failures\<close>

lemma map_of_settled:
  "map_of (settled now a) m = map_option (map_option (settle now)) (map_of (aModelStates a) m)"
  by (simp add: map_of_map)

lemma settle_set_retry:
  assumes "msUnavailable s" "t = 0 \<or> now < t" "msNextRetryAfter s = t" "0 \<le> now"
  shows "settle now s = s"
  using assms by (cases s) (auto simp: settle_def availability_step_def Let_def quotaNeedsConfirmedRecovery_def)

lemma zeroQuota_wf [simp]: "backoff_wf zeroQuota"
  by (simp add: backoff_wf_def zeroQuota_def)

text \<open>A retry time the service may set: none, or ahead and, unless the provider named it, within a week.\<close>

definition retry_ok :: "result \<Rightarrow> gotime \<Rightarrow> gotime \<Rightarrow> bool" where
  "retry_ok r now t \<longleftrightarrow>
     (t = 0 \<or> now < t) \<and> (rRetryAfter r = None \<longrightarrow> 0 \<le> now \<longrightarrow> t \<le> now + quotaWindowMaxCooldown)"

lemma retry_okI: "0 < d \<Longrightarrow> d \<le> quotaWindowMaxCooldown \<Longrightarrow> retry_ok r now (now + d)"
  by (simp add: retry_ok_def)

lemma retry_ok_0 [simp]: "retry_ok r now 0"
  by (simp add: retry_ok_def go_defs)

lemma quota_failure_state:
  assumes "applyModelQuotaFailureLocked off a s r now fx = (s', fx')" "backoff_wf (msQuota s)"
  shows "retry_ok r now (msNextRetryAfter s')" "backoff_wf (msQuota s')" "msUnavailable s' = msUnavailable s"
    "msStatus s' = msStatus s" "msLastError s' = msLastError s"
    "fx' = (suspend ''quota'' fx)\<lparr>fSetQuota := True\<rparr>"
proof -
  let ?d = "quotaCooldownDisabledForAuth off a"
  let ?q = "quotaFailureCooldown (rError r) (rRetryAfter r) (qBackoffLevel (msQuota s)) ?d"
  have le: "fst ?q \<le> quotaWindowMaxCooldown" if "rRetryAfter r = None"
    using that by (simp add: quotaFailureCooldown_le)
  have lv: "0 \<le> snd ?q \<and> snd ?q \<le> 11"
    using assms(2) quotaFailureCooldown_level by (simp add: backoff_wf_def)
  note eqs = assms(1)[unfolded applyModelQuotaFailureLocked_def Let_def]
  show "retry_ok r now (msNextRetryAfter s')"
    using eqs le by (auto simp: retry_ok_def go_defs split: prod.splits)
  show "backoff_wf (msQuota s')"
    using eqs lv by (auto simp: backoff_wf_def split: prod.splits)
  show "msUnavailable s' = msUnavailable s" "msStatus s' = msStatus s" "msLastError s' = msLastError s"
    "fx' = (suspend ''quota'' fx)\<lparr>fSetQuota := True\<rparr>"
    using eqs by (auto simp: suspend_def split: prod.splits)
qed

text \<open>
  What the switch leaves behind: the model has failed with an admissible retry time, and the states of the
  other models are as before, up to expired retry times.
\<close>

definition failed_like :: "model_state \<Rightarrow> result \<Rightarrow> gotime \<Rightarrow> model_state \<Rightarrow> bool" where
  "failed_like s r now s' \<longleftrightarrow>
     msUnavailable s' \<and> msStatus s' = msStatus s \<and> msLastError s' = msLastError s \<and>
     backoff_wf (msQuota s') \<and> retry_ok r now (msNextRetryAfter s')"

definition recorded :: "auth \<Rightarrow> model_state \<Rightarrow> result \<Rightarrow> gotime \<Rightarrow> auth \<Rightarrow> bool" where
  "recorded a s r now b \<longleftrightarrow>
     (\<exists>s'. map_of (aModelStates b) (rModel r) = Some (Some s') \<and> failed_like s r now s') \<and>
     (\<forall>n. n \<noteq> rModel r \<longrightarrow>
        map_option (map_option (settle now)) (map_of (aModelStates b) n) =
        map_option (map_option (settle now)) (map_of (aModelStates a) n))"

lemma recorded_put: "failed_like s r now s' \<Longrightarrow> recorded a s r now (put_model_state a (rModel r) s')"
  by (auto simp: recorded_def)

lemma settle_comp: "map_option (settle now) \<circ> map_option (settle now) = map_option (settle now)"
  by (auto simp: fun_eq_iff option.map_comp comp_def settle_settle)

lemma recorded_aggregate:
  assumes "recorded a s r now b" "0 \<le> now" "aModelStates c = aModelStates b"
  shows "recorded a s r now (updateAggregatedAvailability c now)"
proof -
  from assms(1) obtain s' where s': "map_of (aModelStates b) (rModel r) = Some (Some s')" "failed_like s r now s'"
    by (auto simp: recorded_def)
  have "settle now s' = s'"
    using s'(2) assms(2) by (intro settle_set_retry [where t = "msNextRetryAfter s'"])
      (auto simp: failed_like_def retry_ok_def)
  then show ?thesis
    using assms(1,3) s' unfolding recorded_def updateAggregatedAvailability_states map_of_settled
    by (auto simp: option.map_comp settle_comp)
qed

lemma failed_like_retry:
  assumes "msUnavailable s" "backoff_wf (msQuota s)" "retry_ok r now t"
  shows "failed_like s r now (s\<lparr>msNextRetryAfter := t\<rparr>)"
  using assms by (simp add: failed_like_def)

lemma transient_recorded:
  assumes "msUnavailable s" "backoff_wf (msQuota s)" "0 \<le> now"
  shows "recorded a s r now (fst (applyTransientRateLimitLocked off a s r now fx))"
proof -
  define c where "c = (if quotaCooldownDisabledForAuth off a then 0
     else case rRetryAfter r of Some d \<Rightarrow> if 0 < d then d else transientRateLimitCooldown
       | None \<Rightarrow> transientRateLimitCooldown)"
  define s' where "s' = s\<lparr>msNextRetryAfter := (if 0 < c then now + c else 0), msQuota := zeroQuota\<rparr>"
  have "retry_ok r now (if 0 < c then now + c else 0)"
    by (auto simp: retry_ok_def c_def transientRateLimitCooldown_def go_defs split: option.split)
  then have f: "failed_like s r now s'"
    using assms by (simp add: failed_like_def s'_def)
  show ?thesis
    unfolding applyTransientRateLimitLocked_def Let_def fst_conv
    by (rule recorded_aggregate [OF recorded_put [OF f] assms(3)])
      (simp add: s'_def c_def if_distrib)
qed

lemma switch_recorded:
  assumes "msUnavailable s" "backoff_wf (msQuota s)" "0 \<le> now"
  shows "recorded a s r now (fst (model_failure_switch off a s r now fx))"
proof -
  have retry: "recorded a s r now (put_model_state a (rModel r) (s\<lparr>msNextRetryAfter := t\<rparr>))"
    if "retry_ok r now t" for t
    by (intro recorded_put failed_like_retry assms that)
  have times: "retry_ok r now (now + 30 * minute)" "retry_ok r now (now + 12 * hour)"
    "retry_ok r now (now + transientUpstreamOverloadCooldown)" "retry_ok r now (now + 1 * minute)"
    by (auto intro!: retry_okI simp: go_defs transientUpstreamOverloadCooldown_def)
  obtain s' fx' where q: "applyModelQuotaFailureLocked off a s r now fx = (s', fx')"
    by (cases "applyModelQuotaFailureLocked off a s r now fx")
  have "failed_like s r now s'"
    using quota_failure_state [OF q assms(2)] assms(1) by (simp add: failed_like_def)
  then have quota: "recorded a s r now (put_model_state a (rModel r) s')" by (rule recorded_put)
  show ?thesis
    using transient_recorded [OF assms, of a r off fx] quota
      retry [OF times(1)] retry [OF times(2)] retry [OF times(3)] retry [OF times(4)] retry [OF retry_ok_0]
    unfolding model_failure_switch_def Let_def by (simp add: q)
qed

section \<open>Properties\<close>

text \<open>The state of the failed model after the whole transition.\<close>

lemma model_failure_recorded:
  fixes a :: auth and r :: result and now :: gotime
  defines "s0 \<equiv> (get_model_state a (rModel r))\<lparr>msUnavailable := True, msStatus := StatusError, msUpdatedAt := now\<rparr>"
  defines "s \<equiv> (case rError r of None \<Rightarrow> s0
             | Some e \<Rightarrow> s0\<lparr>msLastError := cloneError (rError r), msStatusMessage := eMessage e\<rparr>)"
  assumes "rModel r \<noteq> ''''" "0 \<le> now" "backoff_wf (msQuota (get_model_state a (rModel r)))"
    and "\<not> isResponseStreamIncompleteError (rError r)"
  shows "recorded a s r now (fst (applyModelFailureLocked off a r now fx))"
proof -
  let ?m = "rModel r"
  define a2 where "a2 = (case rError r of None \<Rightarrow> fst (ensureModelState a ?m)
      | Some e \<Rightarrow> (fst (ensureModelState a ?m))\<lparr>aLastError := cloneError (rError r), aStatusMessage := eMessage e\<rparr>)"
  obtain a3 fx' where sw: "model_failure_switch off a2 s r now fx = (a3, fx')"
    by (cases "model_failure_switch off a2 s r now fx")
  have other: "map_of (aModelStates a2) n = map_of (aModelStates a) n" if "n \<noteq> ?m" for n
    using that by (auto simp: a2_def ensureModelState_def split: option.split)
  have "msUnavailable s" "backoff_wf (msQuota s)"
    using assms(5) by (auto simp: s_def s0_def split: option.split)
  then have "recorded a2 s r now a3"
    using switch_recorded [of s now a2 r off fx] assms(4) by (simp add: sw)
  then have rec: "recorded a s r now a3" using other by (simp add: recorded_def)
  have "fst (applyModelFailureLocked off a r now fx) =
      updateAggregatedAvailability (a3\<lparr>aStatus := StatusError, aUpdatedAt := now\<rparr>) now"
    using assms(6) sw unfolding a2_def s_def s0_def
    by (cases "rError r") (simp_all add: applyModelFailureLocked_def)
  then show ?thesis using recorded_aggregate [OF rec assms(4)] by simp
qed

text \<open>A stream that ended early is recorded as an error but does not hold the model back.\<close>

lemma interrupted_recorded:
  fixes a :: auth and r :: result and now :: gotime
  defines "s0 \<equiv> (get_model_state a (rModel r))\<lparr>msUnavailable := True, msStatus := StatusError, msUpdatedAt := now\<rparr>"
  assumes m: "rModel r \<noteq> ''''" and inc: "isResponseStreamIncompleteError (rError r)" and e: "rError r = Some e"
    and res: "applyModelFailureLocked off a r now fx = (a', fx')"
  shows "map_of (aModelStates a') (rModel r) =
      Some (Some (settle now (s0\<lparr>msLastError := Some e, msStatusMessage := eMessage e, msUnavailable := False, msNextRetryAfter := 0\<rparr>)))"
    and "n \<noteq> rModel r \<Longrightarrow> map_of (aModelStates a') n = map_option (map_option (settle now)) (map_of (aModelStates a) n)"
    and "fx' = fx"
proof -
  have "map_of (aModelStates (fst (ensureModelState a (rModel r)))) k = map_of (aModelStates a) k" if "k \<noteq> rModel r" for k
    using that by (auto simp: ensureModelState_def split: option.split)
  then show "map_of (aModelStates a') (rModel r) =
      Some (Some (settle now (s0\<lparr>msLastError := Some e, msStatusMessage := eMessage e, msUnavailable := False, msNextRetryAfter := 0\<rparr>)))"
    "n \<noteq> rModel r \<Longrightarrow> map_of (aModelStates a') n = map_option (map_option (settle now)) (map_of (aModelStates a) n)" "fx' = fx"
    using res inc by (auto simp: applyModelFailureLocked_def Let_def e s0_def updateAggregatedAvailability_states map_of_map)
qed

lemma settle_interrupted:
  assumes "msStatus s \<noteq> StatusDisabled" "\<not> msUnavailable s"
  shows "settle now s = s\<lparr>msUnavailable := quotaNeedsConfirmedRecovery (msQuota s) now\<rparr>"
  using assms by (cases s) (simp add: settle_def availability_step_def Let_def)

text \<open>
  C31: A failed request marks its model, and only its model: the model is in error, with the error of the request if there is one, and its
  back-off level stays in range; the states of the other models are as before but for expired retry times. Unless the failure is a stream that
  ended early, the model is unavailable, and the time of the next attempt is either not set or ahead and, unless the provider
  named it, at most a week away. After a stream that ended early the model keeps its quota state and has no retry time; it is unavailable only
  if the quota needs a confirmed recovery, and nothing is suspended in the registry.
\<close>

theorem applyModelFailureLocked_sound:
  assumes "rModel r \<noteq> ''''" "0 \<le> now" and "backoff_wf (msQuota (get_model_state a (rModel r)))"
    and "applyModelFailureLocked off a r now fx = (a', fx')"
  shows "let s = get_model_state a' (rModel r); s0 = get_model_state a (rModel r)
         in msStatus s = StatusError \<and> msLastError s = (case rError r of None \<Rightarrow> msLastError s0 | Some e \<Rightarrow> Some e) \<and>
            backoff_wf (msQuota s) \<and>
            (if isResponseStreamIncompleteError (rError r)
             then msQuota s = msQuota s0 \<and> msNextRetryAfter s = 0 \<and> fx' = fx \<and>
               (msUnavailable s \<longleftrightarrow> quotaNeedsConfirmedRecovery (msQuota s0) now)
             else msUnavailable s \<and> (msNextRetryAfter s = 0 \<or> now < msNextRetryAfter s) \<and>
               (rRetryAfter r = None \<longrightarrow> msNextRetryAfter s \<le> now + quotaWindowMaxCooldown)) \<and>
            (\<forall>n. n \<noteq> rModel r \<longrightarrow> map_option (map_option (settle now)) (map_of (aModelStates a') n) =
                                 map_option (map_option (settle now)) (map_of (aModelStates a) n))"
proof (cases "isResponseStreamIncompleteError (rError r)")
  case True
  then obtain e where e: "rError r = Some e" by (auto simp: isResponseStreamIncompleteError_def split: option.splits)
  note I = interrupted_recorded [OF assms(1) True e assms(4)]
  have other: "map_option (map_option (settle now)) (map_of (aModelStates a') n) =
      map_option (map_option (settle now)) (map_of (aModelStates a) n)" if "n \<noteq> rModel r" for n
    using I(2) [OF that] by (simp add: option.map_comp settle_comp)
  show ?thesis
    using I(1,3) other True e assms(3) by (simp add: get_model_state_def [of a'] settle_interrupted Let_def)
next
  case False
  have "fst (applyModelFailureLocked off a r now fx) = a'" using assms(4) by simp
  with model_failure_recorded [where off = off and fx = fx, OF assms(1-3) False]
  have "recorded a (case rError r of None \<Rightarrow> (get_model_state a (rModel r))\<lparr>msUnavailable := True, msStatus := StatusError, msUpdatedAt := now\<rparr>
      | Some e \<Rightarrow> (get_model_state a (rModel r))\<lparr>msUnavailable := True, msStatus := StatusError, msUpdatedAt := now,
          msLastError := cloneError (rError r), msStatusMessage := eMessage e\<rparr>) r now a'"
    by simp
  then show ?thesis
    using False assms(2)
    by (auto simp: recorded_def failed_like_def retry_ok_def get_model_state_def Let_def split: option.splits)
qed

definition throttled :: result where
  "throttled = \<lparr>rAuthID = ''a'', rProvider = ''codex'', rModel = ''m'', rSuccess = False, rRetryAfter = None,
     rHeaders = [], rError = Some \<lparr>eCode = '''', eMessage = ''quota limit'', eRetryable = False, eHTTPStatus = 429,
       eQuotaWindow = '''', eQuotaWindowMinutes = 0\<rparr>\<rparr>"

theorem applyModelFailureLocked_sound_witness:
  "let s = get_model_state (fst (applyModelFailureLocked False sample_auth throttled 5 no_effects)) ''m''
   in msUnavailable s \<and> msStatus s = StatusError \<and> msNextRetryAfter s \<le> 5 + quotaWindowMaxCooldown"
proof -
  have "rModel throttled = ''m''" "rRetryAfter throttled = None" by code_simp+
  moreover have "\<not> isResponseStreamIncompleteError (rError throttled)"
    "backoff_wf (msQuota (get_model_state sample_auth (rModel throttled)))" by code_simp+
  ultimately show ?thesis
    using applyModelFailureLocked_sound [of throttled 5 sample_auth False no_effects]
    by (cases "applyModelFailureLocked False sample_auth throttled 5 no_effects") (simp add: Let_def)
qed

subsection \<open>Effects on the registry\<close>

text \<open>The four kinds of effects a result can have, beside none.\<close>

definition fx_shapes :: "effects set" where
  "fx_shapes = {no_effects, no_effects\<lparr>fClearQuota := True\<rparr>, no_effects\<lparr>fShouldResume := True, fClearQuota := True\<rparr>} \<union>
     {suspend reason no_effects | reason. reason \<noteq> ''''} \<union>
     {(suspend reason no_effects)\<lparr>fSetQuota := True\<rparr> | reason. reason \<noteq> ''''}"

lemma fx_shapesI:
  "no_effects \<in> fx_shapes" "no_effects\<lparr>fClearQuota := True\<rparr> \<in> fx_shapes"
  "no_effects\<lparr>fShouldResume := True, fClearQuota := True\<rparr> \<in> fx_shapes"
  "reason \<noteq> '''' \<Longrightarrow> suspend reason no_effects \<in> fx_shapes"
  "reason \<noteq> '''' \<Longrightarrow> (suspend reason no_effects)\<lparr>fSetQuota := True\<rparr> \<in> fx_shapes"
  by (auto simp: fx_shapes_def)

lemma quota_fx: "snd (applyModelQuotaFailureLocked off a s r now no_effects) = (suspend ''quota'' no_effects)\<lparr>fSetQuota := True\<rparr>"
  by (auto simp: applyModelQuotaFailureLocked_def Let_def suspend_def split: prod.split)

lemma switch_fx: "snd (model_failure_switch off a s r now no_effects) \<in> fx_shapes"
proof -
  have t: "snd (applyTransientRateLimitLocked off a s r now no_effects) = no_effects\<lparr>fClearQuota := True\<rparr>"
    by (simp add: applyTransientRateLimitLocked_def Let_def)
  obtain s' fx' where q: "applyModelQuotaFailureLocked off a s r now no_effects = (s', fx')"
    by (cases "applyModelQuotaFailureLocked off a s r now no_effects")
  with quota_fx [of off a s r now] have "fx' = (suspend ''quota'' no_effects)\<lparr>fSetQuota := True\<rparr>" by simp
  then show ?thesis
    using t by (simp add: model_failure_switch_def Let_def q fx_shapesI)
qed

lemma model_failure_fx: "snd (applyModelFailureLocked off a r now no_effects) \<in> fx_shapes"
  using switch_fx by (simp add: applyModelFailureLocked_def Let_def fx_shapesI split: prod.split option.split)
    (metis snd_conv)

lemma window_reason:
  assumes "parseClaudeOAuthRateLimitHeaders h now = (w, Some d)"
  shows "wdReason d \<noteq> ''''"
proof -
  have "wsReason spec5h \<noteq> ''''" "wsReason spec7d \<noteq> ''''"
    by (simp_all add: spec5h_def spec7d_def claudeOAuthRateLimitSpecs_def)
  moreover have "snd (parseClaudeOAuthRateLimitHeaders h now) = Some d" using assms by simp
  ultimately show ?thesis
    unfolding headers_decision by (auto simp: decide_def split: if_splits option.splits)
qed

lemma claude_failure_fx:
  assumes "applyClaudeOAuthFailureLocked a r now no_effects = (a', fx, handled)"
  shows "fx \<in> fx_shapes" "rModel r = '''' \<Longrightarrow> fx = no_effects" "\<not> handled \<Longrightarrow> fx = no_effects"
proof -
  have t: "snd (applyClaudeOAuthTemporaryFailureLocked b r now t msg reason no_effects) =
      (if rModel r = '''' then no_effects else suspend reason no_effects)" for b t msg reason
    by (simp add: applyClaudeOAuthTemporaryFailureLocked_def Let_def suspend_def)
  have q: "snd (applyClaudeOAuthQuotaFailureLocked b r now d no_effects) =
      (if rModel r = '''' then no_effects else (suspend (wdReason d) no_effects)\<lparr>fSetQuota := True\<rparr>)" for b d
    by (simp add: applyClaudeOAuthQuotaFailureLocked_def Let_def suspend_def)
  have w: "wdReason d \<noteq> ''''" if "mergeClaudeOAuthWindowHealth h hdr now = (h', Some d)" for h hdr h' d
    using that window_reason by (auto simp: mergeClaudeOAuthWindowHealth_def split: prod.splits if_splits)
  consider "fx = no_effects"
    | b t msg where "handled" "fx = snd (applyClaudeOAuthTemporaryFailureLocked b r now t msg ''oauth_401'' no_effects)"
    | b d where "handled" "wdReason d \<noteq> ''''" "fx = snd (applyClaudeOAuthQuotaFailureLocked b r now d no_effects)"
    using assms w unfolding applyClaudeOAuthFailureLocked_def Let_def
    by (auto split: if_splits prod.splits option.splits) (metis snd_conv)+
  then show "fx \<in> fx_shapes" "rModel r = '''' \<Longrightarrow> fx = no_effects" "\<not> handled \<Longrightarrow> fx = no_effects"
    by (cases; auto simp: t q fx_shapesI)+
qed

lemma result_fx:
  "snd (applyResultLocked unmarshal sprint off a r now) \<in> fx_shapes"
  "rModel r = '''' \<Longrightarrow> snd (applyResultLocked unmarshal sprint off a r now) = no_effects"
proof -
  obtain a1 fx1 h where c: "applyClaudeOAuthFailureLocked a r now no_effects = (a1, fx1, h)"
    by (cases "applyClaudeOAuthFailureLocked a r now no_effects")
  note f = claude_failure_fx [OF c]
  have s: "snd (applySuccessLocked a r now no_effects) \<in> fx_shapes"
    "rModel r = '''' \<Longrightarrow> snd (applySuccessLocked a r now no_effects) = no_effects"
    by (simp_all add: applySuccessLocked_def Let_def fx_shapesI)
  show "snd (applyResultLocked unmarshal sprint off a r now) \<in> fx_shapes"
    using s(1) f model_failure_fx by (auto simp: applyResultLocked_def applyFailureLocked_def c fx_shapesI)
  show "rModel r = '''' \<Longrightarrow> snd (applyResultLocked unmarshal sprint off a r now) = no_effects"
    using s(2) f by (auto simp: applyResultLocked_def applyFailureLocked_def c)
qed

lemma markResult_calls:
  "fst (snd (markResult unmarshal sprint off publishing auths r now)) =
     (if rAuthID r = '''' then []
      else case map_of auths (rAuthID r) of
             Some (Some a) \<Rightarrow> applyRegistryEffects r (snd (applyResultLocked unmarshal sprint off a r now))
           | _ \<Rightarrow> [])"
proof -
  have "applyRegistryEffects r no_effects = []" by (simp add: applyRegistryEffects_def no_effects_def)
  then show ?thesis by (auto simp: markResult_def Let_def split: option.split prod.split)
qed

text \<open>
  What recording a result tells the model registry is never contradictory: nothing, or that the quota
  mark of the model is withdrawn, alone or together with resuming the model, or that the model is suspended
  for a stated reason, alone or together with setting its quota mark; and always about the
  credential and the model of the result.
\<close>

theorem markResult_registry_calls:
  assumes "markResult unmarshal sprint off publishing auths r now = (auths', calls, n, probe)"
  shows "\<exists>reason. reason \<noteq> '''' \<and>
    calls \<in> {[], [ClearModelQuotaExceeded (rAuthID r) (rModel r)],
              [ClearModelQuotaExceeded (rAuthID r) (rModel r), ResumeClientModel (rAuthID r) (rModel r)],
              [SuspendClientModel (rAuthID r) (rModel r) reason],
              [SetModelQuotaExceeded (rAuthID r) (rModel r), SuspendClientModel (rAuthID r) (rModel r) reason]}"
proof -
  consider "calls = []"
    | a where "calls = applyRegistryEffects r (snd (applyResultLocked unmarshal sprint off a r now))"
    using markResult_calls [of unmarshal sprint off publishing auths r now] assms
    by (auto split: if_splits option.splits)
  then show ?thesis
  proof cases
    case 1
    then show ?thesis by (intro exI [of _ "''x''"]) simp
  next
    case (2 a)
    show ?thesis
    proof (cases "rModel r = ''''")
      case True
      with 2 result_fx(2) have "calls = []" by (simp add: applyRegistryEffects_def no_effects_def)
      then show ?thesis by (intro exI [of _ "''x''"]) simp
    next
      case False
      from result_fx(1) [of unmarshal sprint off a r now] obtain reason
        where "reason \<noteq> ''''" "snd (applyResultLocked unmarshal sprint off a r now) \<in>
            {no_effects, no_effects\<lparr>fClearQuota := True\<rparr>, no_effects\<lparr>fShouldResume := True, fClearQuota := True\<rparr>,
             suspend reason no_effects, (suspend reason no_effects)\<lparr>fSetQuota := True\<rparr>}"
        unfolding fx_shapes_def by fastforce
      then show ?thesis
        using 2 False by (intro exI [of _ reason]) (auto simp: applyRegistryEffects_def no_effects_def suspend_def)
    qed
  qed
qed

theorem markResult_registry_calls_witness:
  "\<exists>reason. reason \<noteq> '''' \<and>
     fst (snd (markResult (\<lambda>_. None) (\<lambda>_. '''') False False [(''a'', Some sample_auth)] throttled 5)) \<in>
       {[], [ClearModelQuotaExceeded ''a'' ''m''], [ClearModelQuotaExceeded ''a'' ''m'', ResumeClientModel ''a'' ''m''],
        [SuspendClientModel ''a'' ''m'' reason], [SetModelQuotaExceeded ''a'' ''m'', SuspendClientModel ''a'' ''m'' reason]}"
proof -
  have "rAuthID throttled = ''a''" "rModel throttled = ''m''" by code_simp+
  then show ?thesis
    using markResult_registry_calls [of "\<lambda>_. None" "\<lambda>_. ''''" False False "[(''a'', Some sample_auth)]" throttled 5]
    by (cases "markResult (\<lambda>_. None) (\<lambda>_. '''') False False [(''a'', Some sample_auth)] throttled 5") auto
qed

subsection \<open>Waiting and trying again\<close>

lemma wait_step_least:
  "case fold (wait_step f) xs acc of
     None \<Rightarrow> acc = None \<and> (\<forall>a. Some a \<in> set xs \<longrightarrow> f a = None)
   | Some w \<Rightarrow> (acc = Some w \<or> (\<exists>a. Some a \<in> set xs \<and> f a = Some w)) \<and>
       (\<forall>m. acc = Some m \<longrightarrow> w \<le> m) \<and> (\<forall>a w'. Some a \<in> set xs \<longrightarrow> f a = Some w' \<longrightarrow> w \<le> w')"
proof (induction xs arbitrary: acc)
  case Nil
  then show ?case by (simp split: option.split)
next
  case (Cons x xs)
  show ?case
  proof (cases "\<exists>a w. x = Some a \<and> f a = Some w \<and> (\<forall>m. acc = Some m \<longrightarrow> w < m)")
    case True
    then obtain a w where w: "x = Some a" "f a = Some w" "\<forall>m. acc = Some m \<longrightarrow> w < m" by blast
    then have "wait_step f x acc = Some w" by (simp add: wait_step_def split: option.split)
    then show ?thesis using w Cons.IH [of "Some w"] by (fastforce split: option.splits)
  next
    case False
    then have "wait_step f x acc = acc" by (auto simp: wait_step_def split: option.splits)
    moreover have "\<exists>m \<le> w. acc = Some m" if "x = Some a" "f a = Some w" for a w
      using False that by (metis linorder_not_less)
    ultimately show ?thesis using Cons.IH [of acc] by (fastforce split: option.splits)
  qed
qed

text \<open>
  A failed request is tried again only when a credential that could serve it recovers within the configured
  wait and has attempts left; the wait is exactly the time to the first such recovery. Requests the client got
  wrong, requests tied to one credential and moderated requests are never tried again.
\<close>

theorem shouldRetryAfterError_sound:
  assumes "shouldRetryAfterError unmarshal sprint defaultRetry auths (Some e) attempt providers model maxWait meta now = Some w"
    and "maxWait < maxInt64"
  shows "0 \<le> w \<and> w \<le> maxWait \<and> \<not> isSinglePickRouteRequest meta \<and> \<not> isRequestInvalidError unmarshal sprint e \<and>
    (\<exists>a. Some a \<in> snd ` set auths \<and> attempt < effective_retry defaultRetry a \<and> blocked a model now \<and>
       block_cause a model now \<noteq> blockReasonDisabled \<and> block_until a model now = now + w) \<and>
    (\<forall>b w'. Some b \<in> snd ` set auths \<longrightarrow>
       auth_wait defaultRetry (provider_set providers) model attempt now b = Some w' \<longrightarrow> w \<le> w')"
proof -
  let ?f = "auth_wait defaultRetry (provider_set providers) model attempt now"
  have c: "closestWait defaultRetry auths providers model attempt now = Some w" "w \<le> maxWait"
    "\<not> isSinglePickRouteRequest meta" "\<not> isRequestInvalidError unmarshal sprint e"
    using assms(1) by (auto simp: shouldRetryAfterError_def split: if_splits option.splits)
  then have f: "fold (wait_step ?f) (map snd auths) None = Some w" by (simp add: closestWait_def split: if_splits)
  from wait_step_least [where f = ?f and xs = "map snd auths" and acc = None, unfolded f]
  obtain a where a: "Some a \<in> snd ` set auths" "?f a = Some w"
    and least: "\<forall>b w'. Some b \<in> snd ` set auths \<longrightarrow> ?f b = Some w' \<longrightarrow> w \<le> w'"
    by auto
  then have "attempt < effective_retry defaultRetry a" "blocked a model now"
    "block_cause a model now \<noteq> blockReasonDisabled" "w = time_sub (block_until a model now) now" "0 \<le> w"
    by (auto simp: auth_wait_def split: if_splits prod.splits)
  moreover have "block_until a model now = now + w"
    using calculation(4,5) c(2) assms(2)
    by (auto simp: time_sub_def max_def min_def minInt64_def maxInt64_def split: if_splits)
  ultimately show ?thesis using a(1) least c by blast
qed

definition cooling_auth :: auth where
  "cooling_auth = sample_auth\<lparr>aModelStates := [(''m'', Some (sample_exhausted 9))]\<rparr>"

definition upstream_error :: goerr where
  "upstream_error = \<lparr>geStatus = 500, geAuth = None, geText = ''boom''\<rparr>"

theorem shouldRetryAfterError_sound_witness:
  "shouldRetryAfterError (\<lambda>_. None) (\<lambda>_. '''') 3 [(''a'', Some cooling_auth)] (Some upstream_error) 0
      [''codex''] ''m'' 100 [] 5 = Some 4 \<and> block_until cooling_auth ''m'' 5 = 5 + 4"
proof -
  have r: "shouldRetryAfterError (\<lambda>_. None) (\<lambda>_. '''') 3 [(''a'', Some cooling_auth)] (Some upstream_error) 0
      [''codex''] ''m'' 100 [] 5 = Some 4" by code_simp
  have "(100 :: duration) < maxInt64" by (simp add: maxInt64_def)
  with shouldRetryAfterError_sound [OF r] r show ?thesis by auto
qed

subsection \<open>Success and client errors\<close>

lemma markClaude_frame [simp]:
  "aModelStates (markClaudeOAuthHealthSuccessLocked a r now) = aModelStates a"
  "aProvider (markClaudeOAuthHealthSuccessLocked a r now) = aProvider a"
  "aDisabled (markClaudeOAuthHealthSuccessLocked a r now) = aDisabled a"
  "aStatus (markClaudeOAuthHealthSuccessLocked a r now) = aStatus a"
  "aQuota (markClaudeOAuthHealthSuccessLocked a r now) = aQuota a"
  "get_model_state (markClaudeOAuthHealthSuccessLocked a r now) m = get_model_state a m"
  "IsAntigravityAuth (markClaudeOAuthHealthSuccessLocked a r now) = IsAntigravityAuth a"
  by (auto simp: markClaudeOAuthHealthSuccessLocked_def Let_def set_claude_health_def get_model_state_def
      IsAntigravityAuth_def meta_string_def claude_health_key_def)

lemma aggregate_quota_free:
  assumes "0 \<le> now" "\<not> IsAntigravityAuth a" "\<forall>s \<in> set (live_states (aModelStates a)). \<not> qExceeded (msQuota s)"
    and "aModelStates a \<noteq> []"
  shows "\<not> qExceeded (aQuota (updateAggregatedAvailability a now))"
proof -
  have "exceeded_quotas (live_states (aModelStates a)) = []"
    using assms(3) by (auto simp: exceeded_quotas_def filter_empty_conv)
  then have "\<not> agExceeded (live_agg now a)" using live_agg_fields(3) [OF assms(1), of a] by simp
  then show ?thesis
    using assms(2,4)
    by (simp add: updateAggregatedAvailability_def fold_agg_step publish_aggregate_fields agg_quota_def zeroQuota_def)
qed

lemma live_states_put:
  assumes "map_wf ms" "s \<in> set (live_states (map_put m (Some s') ms))"
  shows "s = s' \<or> (\<exists>n. n \<noteq> m \<and> map_of ms n = Some (Some s))"
proof -
  from assms(2) obtain k where k: "(k, Some s) \<in> set (map_put m (Some s') ms)" by (auto simp: set_live_states)
  have "map_of (map_put m (Some s') ms) k = Some (Some s)"
    using map_wf_put [OF assms(1)] k by (rule map_of_is_SomeI)
  then show ?thesis by (auto split: if_splits)
qed

text \<open>No model of the quota family of \<open>m\<close> is exhausted once \<open>m\<close> is reset and the exhausted ones are of other families.\<close>

lemma not_exhausted_after:
  assumes "m \<noteq> ''''" "map_wf ms"
    and x: "aModelStates (x :: auth) = map (\<lambda>(k, st). (k, map_option (settle now) st)) (map_put m (Some rs) ms)" and "\<not> qExceeded (msQuota rs)"
    and others: "\<And>n s. n \<noteq> m \<Longrightarrow> map_of ms n = Some (Some s) \<Longrightarrow> qExceeded (msQuota s) \<Longrightarrow>
      ModelAntigravityQuotaFamily n \<noteq> ModelAntigravityQuotaFamily m"
  shows "\<not> isAntigravityExhaustedForModel x m T"
proof
  assume "isAntigravityExhaustedForModel x m T"
  then obtain n s where n: "(n, Some s) \<in> set (map_put m (Some rs) ms)" "qExceeded (msQuota (settle now s))"
    "ModelAntigravityQuotaFamily n = ModelAntigravityQuotaFamily m"
    using assms(1) by (auto simp: isAntigravityExhaustedForModel_def x list_ex_iff split: option.splits if_splits)
  have "map_of (map_put m (Some rs) ms) n = Some (Some s)"
    using map_wf_put [OF assms(2)] n(1) by (rule map_of_is_SomeI)
  with n(2,3) assms(4) others show False by (auto split: if_splits)
qed

text \<open>
  C32: A success makes the model usable again at once. Unless a declared quota window of the model is still running (one that does not need a
  confirmed recovery), whatever still blocks the model afterwards, now or later, is not the model itself: the credential is
  disabled, or another model of the credential has exhausted its quota, for an Antigravity credential one of the same quota family.
\<close>

theorem applySuccessLocked_restores:
  assumes "0 \<le> now" "rModel r \<noteq> ''''" "map_wf (aModelStates a)"
    and "let s = get_model_state a (rModel r)
         in activeModelQuotaCooldown (Some s) now \<longrightarrow> quotaNeedsConfirmedRecovery (msQuota s) now"
    and "blocked (fst (applySuccessLocked a r now fx)) (rModel r) T"
  shows "aDisabled a \<or> aStatus a = StatusDisabled \<or>
    (\<exists>n s. n \<noteq> rModel r \<and> map_of (aModelStates a) n = Some (Some s) \<and> qExceeded (msQuota s) \<and>
       (IsAntigravityAuth a \<longrightarrow> ModelAntigravityQuotaFamily n = ModelAntigravityQuotaFamily (rModel r)))"
proof (rule ccontr)
  assume "\<not> ?thesis"
  then have enabled: "\<not> aDisabled a" "aStatus a \<noteq> StatusDisabled"
    and others: "\<And>n s. n \<noteq> rModel r \<Longrightarrow> map_of (aModelStates a) n = Some (Some s) \<Longrightarrow> qExceeded (msQuota s) \<Longrightarrow>
       IsAntigravityAuth a \<and> ModelAntigravityQuotaFamily n \<noteq> ModelAntigravityQuotaFamily (rModel r)" by blast+
  let ?m = "rModel r"
  define b where "b = markClaudeOAuthHealthSuccessLocked a r now"
  define rs where "rs = resetModelState (get_model_state a ?m) now"
  define c where "c = put_model_state b ?m rs"
  define d where "d = updateAggregatedAvailability c now"
  have cs: "aModelStates c = map_put ?m (Some rs) (aModelStates a)" "aStatus c = aStatus a" "IsAntigravityAuth c = IsAntigravityAuth a"
    by (simp_all add: c_def b_def)
  have ne: "aModelStates c \<noteq> []" by (metis cs(1) set_keys_map_put image_is_empty insert_not_empty set_empty)
  have rq: "\<not> qExceeded (msQuota rs)" "msStatus rs = StatusActive" "msNextRetryAfter rs = 0" "\<not> msUnavailable rs"
    by (simp_all add: rs_def resetModelState_def zeroQuota_def)
  have q: "\<not> qExceeded (aQuota d)" if "\<not> IsAntigravityAuth a"
  proof -
    have "\<forall>s \<in> set (live_states (aModelStates c)). \<not> qExceeded (msQuota s)"
      using live_states_put [OF assms(3)] others that rq(1) unfolding cs by blast
    then show ?thesis using aggregate_quota_free [OF assms(1), of c] that ne by (simp add: d_def cs)
  qed
  have family: "\<not> isAntigravityExhaustedForModel x ?m T" if x: "aModelStates x = aModelStates d" for x :: auth
    by (rule not_exhausted_after [OF assms(2,3) _ rq(1)]) (use x others in \<open>auto simp: d_def cs updateAggregatedAvailability_states\<close>)
  have "map_of (aModelStates d) ?m = Some (Some (settle now rs))"
    by (simp add: d_def updateAggregatedAvailability_states map_of_map cs)
  then have ls: "lookup_state (x :: auth) ?m = Some (settle now rs)" if "aModelStates x = aModelStates d" for x
    by (simp add: lookup_state_def that)
  have "settle now rs = rs"
    using rq by (simp add: settle_def availability_step_def quotaNeedsConfirmedRecovery_def Let_def)
  then have sb: "state_block (settle now rs) T = (False, blockReasonNone, 0)"
    using rq by (simp add: state_block_def quotaNeedsConfirmedRecovery_def)
  have st: "aStatus d \<noteq> StatusDisabled" "\<not> aDisabled d"
    using enabled cs(2)
    by (auto simp: d_def c_def b_def updateAggregatedAvailability_def publish_aggregate_eq Let_def split: prod.split)
  have ag: "IsAntigravityAuth d = IsAntigravityAuth a"
    using cs(3) by (simp add: d_def updateAggregatedAvailability_def publish_aggregate_antigravity split: prod.split)
  have out: "fst (applySuccessLocked a r now fx) \<in>
      {d\<lparr>aUpdatedAt := now\<rparr>, d\<lparr>aLastError := None, aStatusMessage := '''', aStatus := StatusActive, aUpdatedAt := now\<rparr>}"
    using assms(2,4) by (auto simp: applySuccessLocked_def Let_def b_def [symmetric] ensureModelState_put
        d_def c_def rs_def) (auto simp: b_def)
  define x where "x = fst (applySuccessLocked a r now fx)"
  have x: "aModelStates x = aModelStates d" "aQuota x = aQuota d" "aStatus x \<noteq> StatusDisabled" "\<not> aDisabled x" "IsAntigravityAuth x = IsAntigravityAuth a"
    using out st ag unfolding x_def [symmetric] by (auto simp: IsAntigravityAuth_def)
  have "aModelStates d \<noteq> []" using ne by (simp add: d_def updateAggregatedAvailability_states)
  moreover have "\<not> (qExceeded (aQuota x) \<and> (\<not> IsAntigravityAuth x \<or> isAntigravityExhaustedForModel x ?m T))"
    using q x(2,5) family [OF x(1)] by auto
  ultimately have "\<not> blocked x ?m T"
    unfolding isAuthBlockedForModel_def using x(1,3,4) ls [OF x(1)] sb assms(2) by auto
  with assms(5) show False by (simp add: x_def)
qed

definition answered :: result where
  "answered = \<lparr>rAuthID = ''a'', rProvider = ''codex'', rModel = ''m'', rSuccess = True, rRetryAfter = None,
     rHeaders = [], rError = None\<rparr>"

definition failing_auth :: auth where
  "failing_auth = sample_auth\<lparr>aModelStates := [(''m'', Some (newModelState\<lparr>msUnavailable := True,
     msStatus := StatusError, msNextRetryAfter := 9\<rparr>))]\<rparr>"

theorem applySuccessLocked_restores_witness:
  "blocked failing_auth ''m'' 5 \<and> \<not> blocked (fst (applySuccessLocked failing_auth answered 5 no_effects)) ''m'' 5"
proof -
  have "blocked failing_auth ''m'' 5" "rModel answered = ''m''" "map_wf (aModelStates failing_auth)"
    "\<not> aDisabled failing_auth" "aStatus failing_auth \<noteq> StatusDisabled"
    "\<not> activeModelQuotaCooldown (Some (get_model_state failing_auth ''m'')) 5" by code_simp+
  moreover have "map_of (aModelStates failing_auth) n = None" if "n \<noteq> ''m''" for n
    using that by (simp add: failing_auth_def)
  ultimately show ?thesis
    using applySuccessLocked_restores [of 5 answered failing_auth no_effects 5] by (force simp: Let_def)
qed

text \<open>
  C35: A request the upstream rejects as malformed says nothing about the credential: recording it changes no
  credential, calls nothing in the registry and publishes no cooldown.
\<close>

theorem markResult_client_error:
  assumes "rError r = Some e" "isRequestInvalidError unmarshal sprint (auth_goerr e)" "\<not> rSuccess r"
    and "markResult unmarshal sprint off publishing auths r now = (auths', calls, n, probe)"
  shows "map_of auths' = map_of auths \<and> calls = [] \<and> n = None"
proof -
  have r: "applyResultLocked unmarshal sprint off a r now = (a, no_effects)" for a
    using assms(1-3) by (simp add: applyResultLocked_def applyFailureLocked_def)
  have fx: "applyRegistryEffects r no_effects = []" by (simp add: applyRegistryEffects_def no_effects_def)
  have "cooldownNoticeLocked publishing a r no_effects (cooldownBeforeLocked publishing a r now) now = None" for a
    using assms(3) by (auto simp: cooldownNoticeLocked_def cooldownBeforeLocked_def split: prod.split)
  then show ?thesis
    using assms(4) by (auto simp: markResult_def Let_def r fx fun_eq_iff split: if_splits option.splits)
qed

definition malformed :: result where
  "malformed = throttled\<lparr>rError := Some \<lparr>eCode = ''invalid_request_error'', eMessage = ''bad'', eRetryable = False,
     eHTTPStatus = 400, eQuotaWindow = '''', eQuotaWindowMinutes = 0\<rparr>\<rparr>"

theorem markResult_client_error_witness:
  "fst (snd (markResult (\<lambda>_. None) (\<lambda>_. '''') False True [(''a'', Some sample_auth)] malformed 5)) = []"
proof -
  obtain e where e: "rError malformed = Some e" "e = the (rError malformed)" by (simp add: malformed_def)
  have "isRequestInvalidError (\<lambda>_. None) (\<lambda>_. '''') (auth_goerr (the (rError malformed)))" "\<not> rSuccess malformed"
    by code_simp+
  with e markResult_client_error [of malformed e "\<lambda>_. None" "\<lambda>_. ''''" False True "[(''a'', Some sample_auth)]" 5]
  show ?thesis
    by (cases "markResult (\<lambda>_. None) (\<lambda>_. '''') False True [(''a'', Some sample_auth)] malformed 5") simp
qed

section \<open>Recording a result keeps the identity\<close>

text \<open>Everything of a credential that says whose it is and how it is configured; only the health entry is left out.\<close>

definition identity :: "auth \<Rightarrow> (string \<times> string \<times> string \<times> string \<times> string \<times> string) \<times> bool \<times> (string, string) gomap \<times>
    (string \<Rightarrow> goany option) \<times> string \<times> bool" where
  "identity a =
     ((aID a, aTenantID a, aProvider a, aPrefix a, aFileName a, aLabel a), aDisabled a, aAttributes a,
      (map_of (aMetadata a))(claude_health_key := None), aIndex a, aIndexAssigned a)"

named_theorems keeps_identity

lemma identity_put_model_state [keeps_identity]: "identity (put_model_state a m s) = identity a"
  by (simp add: identity_def put_model_state_def)

lemma identity_ensureModelState [keeps_identity]: "identity (fst (ensureModelState a m)) = identity a"
  by (simp add: ensureModelState_def identity_put_model_state split: option.split)

lemma identity_aggregate [keeps_identity]: "identity (updateAggregatedAvailability a now) = identity a"
  by (simp add: identity_def updateAggregatedAvailability_def publish_aggregate_eq Let_def split: prod.split)

lemma identity_set_claude_health [keeps_identity]: "identity (set_claude_health a h) = identity a"
  by (simp add: identity_def set_claude_health_def)

lemma identity_updates [keeps_identity]:
  "identity (a\<lparr>aUpdatedAt := t\<rparr>) = identity a" "identity (a\<lparr>aStatus := st\<rparr>) = identity a"
  "identity (a\<lparr>aStatusMessage := msg\<rparr>) = identity a" "identity (a\<lparr>aLastError := e\<rparr>) = identity a"
  "identity (a\<lparr>aNextRetryAfter := t\<rparr>) = identity a" "identity (a\<lparr>aNextRefreshAfter := t\<rparr>) = identity a"
  "identity (a\<lparr>aUnavailable := b\<rparr>) = identity a" "identity (a\<lparr>aQuota := q\<rparr>) = identity a"
  by (simp_all add: identity_def)

lemma identity_claude_success [keeps_identity]: "identity (markClaudeOAuthHealthSuccessLocked a r now) = identity a"
  by (simp add: markClaudeOAuthHealthSuccessLocked_def Let_def keeps_identity)

lemma identity_claude_temporary [keeps_identity]:
  "identity (fst (applyClaudeOAuthTemporaryFailureLocked a r now next msg reason fx)) = identity a"
  by (simp add: applyClaudeOAuthTemporaryFailureLocked_def Let_def keeps_identity)

lemma identity_claude_quota [keeps_identity]:
  "identity (fst (applyClaudeOAuthQuotaFailureLocked a r now d fx)) = identity a"
  by (simp add: applyClaudeOAuthQuotaFailureLocked_def Let_def keeps_identity)

lemma identity_claude_failure [keeps_identity]: "identity (fst (applyClaudeOAuthFailureLocked a r now fx)) = identity a"
  by (simp add: applyClaudeOAuthFailureLocked_def Let_def keeps_identity case_prod_unfold split: option.split)

lemma identity_auth_quota [keeps_identity]: "identity (applyAuthQuotaFailureState off a e ra now) = identity a"
  by (simp add: applyAuthQuotaFailureState_def Let_def keeps_identity case_prod_unfold split: option.split)

lemma identity_auth_failure [keeps_identity]: "identity (applyAuthFailureState off a e ra now) = identity a"
  by (simp add: applyAuthFailureState_def Let_def keeps_identity split: option.split)

lemma identity_transient [keeps_identity]: "identity (fst (applyTransientRateLimitLocked off a s r now fx)) = identity a"
  by (simp add: applyTransientRateLimitLocked_def Let_def keeps_identity)

lemma identity_switch [keeps_identity]: "identity (fst (model_failure_switch off a s r now fx)) = identity a"
  by (simp add: model_failure_switch_def Let_def keeps_identity case_prod_unfold)

lemma identity_model_failure [keeps_identity]: "identity (fst (applyModelFailureLocked off a r now fx)) = identity a"
  by (simp add: applyModelFailureLocked_def Let_def keeps_identity case_prod_unfold split: option.split)

lemma identity_success [keeps_identity]: "identity (fst (applySuccessLocked a r now fx)) = identity a"
  by (simp add: applySuccessLocked_def clearAuthStateOnSuccess_def Let_def keeps_identity)

lemma identity_failure [keeps_identity]: "identity (fst (applyFailureLocked unmarshal sprint off a r now fx)) = identity a"
  by (simp add: applyFailureLocked_def keeps_identity case_prod_unfold)

lemma identity_result: "identity (fst (applyResultLocked unmarshal sprint off a r now)) = identity a"
  by (simp add: applyResultLocked_def keeps_identity)

lemma markResult_lookup:
  "map_option (map_option identity) (map_of (fst (markResult unmarshal sprint off publishing auths r now)) k) =
   map_option (map_option identity) (map_of auths k)"
  using identity_result by (auto simp: markResult_def Let_def case_prod_unfold split: option.split)

text \<open>
  Recording the result of a request, whatever it was, never changes who a credential is: its name, tenant, provider,
  prefix, index, attributes, disabled flag and metadata stay as they were, up to the health entry of Claude
  accounts, and no credential appears or disappears.
\<close>

theorem markResult_keeps_identity:
  "map_option (map_option identity) \<circ> map_of (fst (markResult unmarshal sprint off publishing auths r now)) =
   map_option (map_option identity) \<circ> map_of auths"
  using markResult_lookup by (simp add: fun_eq_iff)

end
