(* ===== verification/Peer_Cooldown.thy ===== *)
theory Peer_Cooldown
  imports Auth_Cooldown
begin

text \<open>
  Cooldowns reported by other processes (\<^verbatim>\<open>ApplyPeerCooldown\<close> and its helpers in
  \<^verbatim>\<open>src/sdk/cliproxy/auth/conductor_cooldown_cluster.go\<close>). The code promises that notices may arrive late, twice
  or out of order; the locale \<open>latest_wins\<close> states the law behind the promise and is interpreted on the
  modelled operation.
\<close>

section \<open>Operations\<close>

definition maxPeerCooldown :: duration where "maxPeerCooldown = 30 * minute"

definition peerCooldownSuppressed :: "bool \<Rightarrow> auth \<Rightarrow> notice \<Rightarrow> bool" where
  "peerCooldownSuppressed off a n \<longleftrightarrow>
     quotaCooldownDisabledForAuth off a \<and>
     (nQuota n \<or> nStatusCode n \<in> set [429, 408, 500, 502, 503, 504])"

definition peerCooldownMessage :: "notice \<Rightarrow> string" where
  "peerCooldownMessage n =
     (let c1 = (if nReason n = '''' \<and> 0 < nStatusCode n then ''upstream status '' @ itoa (nStatusCode n)
                else nReason n);
          cause = (if c1 = '''' then ''upstream failure'' else c1)
      in if nOrigin n \<noteq> '''' then ''cooling down: '' @ cause @ '' (reported by node '' @ nOrigin n @ '')''
         else ''cooling down: '' @ cause @ '' (reported by another node)'')"

definition peerCooldownError :: "notice \<Rightarrow> string \<Rightarrow> error" where
  "peerCooldownError n message =
     \<lparr>eCode = ''peer_cooldown'', eMessage = message, eRetryable = True, eHTTPStatus = nStatusCode n,
      eQuotaWindow = '''', eQuotaWindowMinutes = 0\<rparr>"

definition extend_quota :: "notice \<Rightarrow> gotime \<Rightarrow> quota_state \<Rightarrow> quota_state" where
  "extend_quota n until q =
     (if nQuota n
      then q\<lparr>qExceeded := True, qReason := ''quota'',
             qNextRecoverAt := (if qNextRecoverAt q < until then until else qNextRecoverAt q)\<rparr>
      else q)"

definition extendModelCooldownLocked :: "auth \<Rightarrow> notice \<Rightarrow> gotime \<Rightarrow> gotime \<Rightarrow> auth \<times> bool" where
  "extendModelCooldownLocked a n until now =
     (case ensureModelState a (nModel n) of
        (a1, None) \<Rightarrow> (a1, False)
      | (a1, Some s) \<Rightarrow>
          if msStatus s = StatusDisabled then (a1, False)
          else if \<not> fst (cooldownDeadline a1 (nModel n) now) < until then (a1, False)
          else
            let message = peerCooldownMessage n;
                s' = s\<lparr>msUnavailable := True, msNextRetryAfter := until, msStatus := StatusError,
                       msStatusMessage := message, msUpdatedAt := now,
                       msLastError := (if msLastError s = None then Some (peerCooldownError n message)
                                       else msLastError s),
                       msQuota := extend_quota n until (msQuota s)\<rparr>
            in (updateAggregatedAvailability
                  ((put_model_state a1 (nModel n) s')\<lparr>aStatus := StatusError, aUpdatedAt := now\<rparr>) now, True))"

definition extendAuthCooldownLocked :: "auth \<Rightarrow> notice \<Rightarrow> gotime \<Rightarrow> gotime \<Rightarrow> auth \<times> bool" where
  "extendAuthCooldownLocked a n until now =
     (if \<not> fst (cooldownDeadline a '''' now) < until then (a, False)
      else
        let message = peerCooldownMessage n
        in (a\<lparr>aUnavailable := True, aNextRetryAfter := until, aStatus := StatusError,
              aStatusMessage := message,
              aLastError := (if aLastError a = None then Some (peerCooldownError n message) else aLastError a),
              aQuota := extend_quota n until (aQuota a), aUpdatedAt := now\<rparr>, True))"

text \<open>How long a notice blocks here: capped, and nothing once it has passed.\<close>

definition capped :: "notice \<Rightarrow> gotime \<Rightarrow> gotime" where
  "capped n now = (if now + maxPeerCooldown < nUntil n then now + maxPeerCooldown else nUntil n)"

definition ApplyPeerCooldown ::
  "bool \<Rightarrow> gotime \<Rightarrow> notice \<Rightarrow> (string, auth option) gomap \<Rightarrow>
   (string, auth option) gomap \<times> registry_call list \<times> bool" where
  "ApplyPeerCooldown off now n auths =
     (if trim_space (nAuthID n) = '''' then (auths, [], False)
      else
        let until = capped n now
        in if \<not> now < until then (auths, [], False)
           else (case map_of auths (nAuthID n) of
                   Some (Some a) \<Rightarrow>
                     if aDisabled a \<or> aStatus a = StatusDisabled \<or> peerCooldownSuppressed off a n
                     then (auths, [], False)
                     else
                       let (a', changed) = (if nModel n \<noteq> '''' then extendModelCooldownLocked a n until now
                                            else extendAuthCooldownLocked a n until now)
                       in (map_put (nAuthID n) (Some a') auths,
                           if changed \<and> nModel n \<noteq> ''''
                           then (if nQuota n then [SetModelQuotaExceeded (nAuthID n) (nModel n)] else []) @
                                (if nReason n \<noteq> '''' then [SuspendClientModel (nAuthID n) (nModel n) (nReason n)]
                                 else [])
                           else [],
                           changed)
                 | _ \<Rightarrow> (auths, [], False)))"

section \<open>Updates of which the latest deadline wins\<close>

text \<open>
  Updates to a state on which each sets a deadline: the deadline seen is the latest of the previous one
  and that of the update.
\<close>

locale latest_wins =
  fixes upd :: "'n \<Rightarrow> 's \<Rightarrow> 's"
    and seen :: "'s \<Rightarrow> int"
    and due :: "'n \<Rightarrow> int"
    and good :: "'s \<Rightarrow> bool"
    and ok :: "'n \<Rightarrow> bool"
  assumes good_upd: "good s \<Longrightarrow> ok n \<Longrightarrow> good (upd n s)"
    and seen_upd: "good s \<Longrightarrow> ok n \<Longrightarrow> seen (upd n s) = max (seen s) (due n)"
begin

lemma seen_fold:
  "good s \<Longrightarrow> list_all ok ns \<Longrightarrow> good (fold upd ns s) \<and> seen (fold upd ns s) = Max (insert (seen s) (due ` set ns))"
proof (induction ns arbitrary: s)
  case (Cons n ns)
  then have g: "good (upd n s)" and o: "list_all ok ns" and m: "seen (upd n s) = max (seen s) (due n)"
    by (auto intro: good_upd simp: seen_upd)
  have "Max (insert (max (seen s) (due n)) (due ` set ns)) = Max (insert (seen s) (due ` set (n # ns)))"
    by (cases "set ns = {}") (auto simp: Max.insert_not_elem max.assoc)
  with Cons.IH [OF g o] m show ?case by simp
qed simp

text \<open>The order and the number of deliveries do not matter.\<close>

lemma delivery_order:
  assumes "good s" "list_all ok ns" "set ns = set ms"
  shows "seen (fold upd ns s) = seen (fold upd ms s)"
proof -
  have "list_all ok ms" using assms(2,3) by (simp add: list_all_iff)
  with seen_fold [OF assms(1)] assms(2,3) show ?thesis by simp
qed

lemma redelivery: "good s \<Longrightarrow> ok n \<Longrightarrow> seen (upd n (upd n s)) = seen (upd n s)"
  by (simp add: seen_upd good_upd)

lemma seen_increases: "good s \<Longrightarrow> list_all ok ns \<Longrightarrow> seen s \<le> seen (fold upd ns s)"
  by (simp add: seen_fold)

end

section \<open>The modelled operation\<close>

text \<open>No recovery time is kept where the quota is not exceeded.\<close>

definition quota_clean :: "quota_state \<Rightarrow> bool" where
  "quota_clean q \<longleftrightarrow> (\<not> qExceeded q \<longrightarrow> qNextRecoverAt q = 0)"

lemma quota_clean_zero [simp]: "quota_clean zeroQuota"
  by (simp add: quota_clean_def zeroQuota_def)

lemma quota_clean_extend [simp]: "quota_clean q \<Longrightarrow> quota_clean (extend_quota n until q)"
  by (simp add: quota_clean_def extend_quota_def)

text \<open>The deadline that is in force as long as it lies ahead.\<close>

definition raw_deadline :: "bool \<Rightarrow> gotime \<Rightarrow> quota_state \<Rightarrow> gotime" where
  "raw_deadline u t q = (let u0 = (if u then t else 0) in if qExceeded q \<and> u0 < qNextRecoverAt q then qNextRecoverAt q else u0)"

lemma deadline_of_raw: "fst (deadline_of u t q now) = (if now < raw_deadline u t q then raw_deadline u t q else 0)"
  by (simp add: deadline_of_def raw_deadline_def Let_def)

lemma raw_deadline_extend:
  assumes "fst (deadline_of u t q now) < until" "now < until" "0 \<le> now" "quota_clean q"
  shows "raw_deadline True until (extend_quota n until q) = until"
  using assms by (auto simp: deadline_of_def raw_deadline_def extend_quota_def quota_clean_def Let_def split: if_splits)

text \<open>At a later time \<open>T\<close>, an extension at \<open>now\<close> has had its effect: the later of the two deadlines, unless it has passed.\<close>

lemma deadline_extended:
  assumes "fst (deadline_of u t q now) < until" "now < until" "0 \<le> now" "now \<le> T" "quota_clean q"
  shows "fst (deadline_of True until (extend_quota n until q) T) =
    max (fst (deadline_of u t q T)) (if T < until then until else 0)"
  using assms raw_deadline_extend [OF assms(1-3,5), of n] by (auto simp: deadline_of_raw max_def split: if_splits)

lemma deadline_kept:
  assumes "\<not> fst (deadline_of u t q now) < until" "now < until" "0 \<le> now" "now \<le> T"
  shows "fst (deadline_of u t q T) = max (fst (deadline_of u t q T)) (if T < until then until else 0)"
  using assms by (auto simp: deadline_of_raw max_def split: if_splits)

lemma deadline_nonneg: "0 \<le> now \<Longrightarrow> 0 \<le> fst (deadline_of u t q now)"
  by (simp add: deadline_of_def Let_def)

text \<open>The credential, its model \<open>m\<close> (or the credential as a whole) and the deadline in force.\<close>

definition model_ready :: "auth \<Rightarrow> string \<Rightarrow> bool" where
  "model_ready a m =
     (if m = '''' then quota_clean (aQuota a)
      else case map_of (aModelStates a) m of
             Some (Some s) \<Rightarrow> msStatus s \<noteq> StatusDisabled \<and> quota_clean (msQuota s)
           | _ \<Rightarrow> True)"

text \<open>
  A process that has the credential and the model enabled. \<open>off\<close> is its global switch for cooldowns, \<open>mute\<close> whether they are
  switched off for the credential: then notices of exhausted quotas and of errors that call for a back-off are ignored.
\<close>

definition peer_good :: "bool \<Rightarrow> bool \<Rightarrow> string \<Rightarrow> string \<Rightarrow> (string, auth option) gomap \<Rightarrow> bool" where
  "peer_good off mute i m auths \<longleftrightarrow>
     trim_space i \<noteq> '''' \<and>
     (case map_of auths i of
        Some (Some a) \<Rightarrow> \<not> aDisabled a \<and> aStatus a \<noteq> StatusDisabled \<and> quotaCooldownDisabledForAuth off a = mute \<and>
          model_ready a m
      | _ \<Rightarrow> False)"

definition peer_seen :: "gotime \<Rightarrow> string \<Rightarrow> string \<Rightarrow> (string, auth option) gomap \<Rightarrow> gotime" where
  "peer_seen now i m auths =
     (case map_of auths i of Some (Some a) \<Rightarrow> fst (cooldownDeadline a m now) | _ \<Rightarrow> 0)"

text \<open>What a notice that arrives at \<open>t\<close> asks for, as far as it still lies ahead at \<open>T\<close>.\<close>

definition peer_due :: "bool \<Rightarrow> gotime \<Rightarrow> gotime \<times> notice \<Rightarrow> gotime" where
  "peer_due mute T = (\<lambda>(t, n).
     if mute \<and> (nQuota n \<or> nStatusCode n \<in> set [429, 408, 500, 502, 503, 504]) then 0
     else if T < capped n t then capped n t else 0)"

definition peer_apply :: "bool \<Rightarrow> gotime \<Rightarrow> notice \<Rightarrow> (string, auth option) gomap \<Rightarrow> (string, auth option) gomap" where
  "peer_apply off now n auths = fst (ApplyPeerCooldown off now n auths)"

lemma aggregate_not_disabled:
  "aStatus a \<noteq> StatusDisabled \<Longrightarrow> aStatus (updateAggregatedAvailability a now) \<noteq> StatusDisabled"
  by (simp add: updateAggregatedAvailability_def publish_aggregate_eq Let_def split: prod.split)

lemma cooling_frame: "aMetadata a' = aMetadata a \<Longrightarrow> quotaCooldownDisabledForAuth off a' = quotaCooldownDisabledForAuth off a"
  by (simp add: quotaCooldownDisabledForAuth_def DisableCoolingOverride_def)

text \<open>One extension of the cooldown of a model.\<close>

lemma extend_model:
  assumes "nModel n = m" "m \<noteq> ''''" "model_ready a m" "now < until" "0 \<le> now"
    and "extendModelCooldownLocked a n until now = (a', changed)" and T: "now \<le> T"
  shows "fst (cooldownDeadline a' m T) = max (fst (cooldownDeadline a m T)) (if T < until then until else 0)"
    and "model_ready a' m" "aMetadata a' = aMetadata a" "aDisabled a' = aDisabled a"
    and "aStatus a \<noteq> StatusDisabled \<Longrightarrow> aStatus a' \<noteq> StatusDisabled"
proof -
  define s where "s = get_model_state a m"
  define a1 where "a1 = fst (ensureModelState a m)"
  have e: "ensureModelState a m = (a1, Some s)"
    using assms(2) by (metis a1_def ensureModelState_snd prod.collapse s_def)
  have a1: "map_of (aModelStates a1) m = Some (Some s)" "aMetadata a1 = aMetadata a" "aDisabled a1 = aDisabled a"
    "aStatus a1 = aStatus a"
    using assms(2) by (auto simp: a1_def s_def ensureModelState_def get_model_state_def split: option.splits)
  have s: "msStatus s \<noteq> StatusDisabled" "quota_clean (msQuota s)"
    using assms(2,3) by (auto simp: s_def model_ready_def get_model_state_def newModelState_def split: option.splits)
  have d: "fst (cooldownDeadline a m T) = fst (cooldownDeadline a1 m T)"
    using assms(2,5) T a1(1) by (auto simp: cooldownDeadline_def s_def get_model_state_def newModelState_def zeroQuota_def
        deadline_of_def split: option.splits)
  let ?d = "fst (cooldownDeadline a1 m now)"
  have "fst (cooldownDeadline a' m T) = max (fst (cooldownDeadline a m T)) (if T < until then until else 0) \<and> model_ready a' m \<and>
      aMetadata a' = aMetadata a \<and> aDisabled a' = aDisabled a \<and> (aStatus a \<noteq> StatusDisabled \<longrightarrow> aStatus a' \<noteq> StatusDisabled)"
  proof (cases "?d < until")
    case False
    then have "a' = a1" using assms(1,6) s(1) by (simp add: extendModelCooldownLocked_def e)
    moreover have "fst (cooldownDeadline a1 m T) = max (fst (cooldownDeadline a1 m T)) (if T < until then until else 0)"
      using False a1(1) assms(2,4,5) T deadline_kept [of "msUnavailable s" "msNextRetryAfter s" "msQuota s" now until T]
      by (simp add: cooldownDeadline_def)
    ultimately show ?thesis using d a1 s assms(2) by (simp add: model_ready_def)
  next
    case True
    define s' where "s' = s\<lparr>msUnavailable := True, msNextRetryAfter := until, msStatus := StatusError,
        msStatusMessage := peerCooldownMessage n, msUpdatedAt := now,
        msLastError := (if msLastError s = None then Some (peerCooldownError n (peerCooldownMessage n)) else msLastError s),
        msQuota := extend_quota n until (msQuota s)\<rparr>"
    define b where "b = (put_model_state a1 m s')\<lparr>aStatus := StatusError, aUpdatedAt := now\<rparr>"
    have a': "a' = updateAggregatedAvailability b now"
      using assms(1,6) s(1) True by (simp add: extendModelCooldownLocked_def e b_def s'_def Let_def)
    have "settle now s' = s'" using assms(4) by (intro settle_ahead) (simp_all add: s'_def)
    then have ms: "map_of (aModelStates a') m = Some (Some s')"
      by (simp add: a' updateAggregatedAvailability_states map_of_map b_def)
    have old: "fst (deadline_of (msUnavailable s) (msNextRetryAfter s) (msQuota s) now) < until"
      using True assms(2) a1(1) by (simp add: cooldownDeadline_def)
    have "fst (cooldownDeadline a' m T) = max (fst (cooldownDeadline a1 m T)) (if T < until then until else 0)"
      using deadline_extended [OF old assms(4,5) T s(2)] assms(2) ms a1(1) by (simp add: cooldownDeadline_def s'_def)
    moreover have "aStatus a' \<noteq> StatusDisabled"
      unfolding a' by (rule aggregate_not_disabled) (simp add: b_def)
    ultimately show ?thesis
      using d ms s(2) a1 assms(2) by (simp add: model_ready_def s'_def a' b_def)
  qed
  then show "fst (cooldownDeadline a' m T) = max (fst (cooldownDeadline a m T)) (if T < until then until else 0)"
    and "model_ready a' m" "aMetadata a' = aMetadata a" "aDisabled a' = aDisabled a"
    and "aStatus a \<noteq> StatusDisabled \<Longrightarrow> aStatus a' \<noteq> StatusDisabled"
    by blast+
qed

lemma extend_auth:
  assumes "model_ready a ''''" "now < until" "0 \<le> now" "extendAuthCooldownLocked a n until now = (a', changed)" and T: "now \<le> T"
  shows "fst (cooldownDeadline a' '''' T) = max (fst (cooldownDeadline a '''' T)) (if T < until then until else 0)"
    and "model_ready a' ''''" "aMetadata a' = aMetadata a" "aDisabled a' = aDisabled a"
    and "aStatus a \<noteq> StatusDisabled \<Longrightarrow> aStatus a' \<noteq> StatusDisabled"
proof -
  have q: "quota_clean (aQuota a)" using assms(1) by (simp add: model_ready_def)
  show "fst (cooldownDeadline a' '''' T) = max (fst (cooldownDeadline a '''' T)) (if T < until then until else 0)"
  proof (cases "fst (cooldownDeadline a '''' now) < until")
    case True
    with deadline_extended [OF _ assms(2,3) T q, of "aUnavailable a" "aNextRetryAfter a" n] assms(4)
    show ?thesis by (auto simp: extendAuthCooldownLocked_def cooldownDeadline_def Let_def)
  next
    case False
    with deadline_kept [OF _ assms(2,3) T, of "aUnavailable a" "aNextRetryAfter a" "aQuota a"] assms(4)
    show ?thesis by (auto simp: extendAuthCooldownLocked_def cooldownDeadline_def)
  qed
  show "model_ready a' ''''" "aMetadata a' = aMetadata a" "aDisabled a' = aDisabled a"
    "aStatus a \<noteq> StatusDisabled \<Longrightarrow> aStatus a' \<noteq> StatusDisabled"
    using assms(4) q by (auto simp: extendAuthCooldownLocked_def model_ready_def Let_def split: if_splits)
qed

text \<open>The law of the interface, for a notice that arrives at \<open>t\<close> and a later time \<open>T\<close>.\<close>

lemma peer_apply_law:
  assumes g: "peer_good off mute i m auths" and n: "nAuthID n = i" "nModel n = m" and t: "0 \<le> t" "t \<le> T"
  shows "peer_good off mute i m (peer_apply off t n auths) \<and>
    peer_seen T i m (peer_apply off t n auths) = max (peer_seen T i m auths) (peer_due mute T (t, n))"
proof -
  from g obtain a where a: "map_of auths i = Some (Some a)" "\<not> aDisabled a" "aStatus a \<noteq> StatusDisabled"
    "quotaCooldownDisabledForAuth off a = mute" "model_ready a m" "trim_space i \<noteq> ''''"
    by (auto simp: peer_good_def split: option.splits)
  have nn: "0 \<le> fst (cooldownDeadline a m T)"
    using deadline_nonneg [of T] t by (auto simp: cooldownDeadline_def split: option.split)
  show ?thesis
  proof (cases "t < capped n t \<and> \<not> peerCooldownSuppressed off a n")
    case False
    then have "peer_apply off t n auths = auths"
      using n a by (auto simp: peer_apply_def ApplyPeerCooldown_def Let_def)
    moreover have "peer_due mute T (t, n) = 0"
      using False a(4) t by (auto simp: peer_due_def peerCooldownSuppressed_def)
    ultimately show ?thesis using g a(1) nn by (simp add: peer_seen_def)
  next
    case True
    define r where "r = (if m \<noteq> '''' then extendModelCooldownLocked a n (capped n t) t else extendAuthCooldownLocked a n (capped n t) t)"
    have p: "peer_apply off t n auths = map_put i (Some (fst r)) auths"
      using n a True by (simp add: peer_apply_def ApplyPeerCooldown_def r_def Let_def split: prod.split)
    have "fst (cooldownDeadline (fst r) m T) = max (fst (cooldownDeadline a m T)) (if T < capped n t then capped n t else 0) \<and>
        model_ready (fst r) m \<and> aMetadata (fst r) = aMetadata a \<and> \<not> aDisabled (fst r) \<and> aStatus (fst r) \<noteq> StatusDisabled"
      using extend_model [OF n(2) _ a(5) _ t(1), of "capped n t" "fst r" "snd r" T]
        extend_auth [of a t "capped n t" n "fst r" "snd r" T] a True t
      by (cases "m = ''''") (auto simp: r_def)
    moreover have "peer_due mute T (t, n) = (if T < capped n t then capped n t else 0)"
      using True a(4) by (auto simp: peer_due_def peerCooldownSuppressed_def)
    ultimately show ?thesis
      using a cooling_frame [of "fst r" a off] by (simp add: p peer_good_def peer_seen_def)
  qed
qed

text \<open>What a notice leaves of the model: the extended cooldown, or a cooldown of its own that is as long, or the model disabled.\<close>

lemma extend_model_state:
  assumes "nModel n = m" "m \<noteq> ''''" "now < until" "0 \<le> now" "extendModelCooldownLocked a n until now = (a', changed)"
  shows "(\<exists>s. map_of (aModelStates a') m = Some (Some s) \<and>
            (msStatus s = StatusDisabled \<or> msUnavailable s \<and> msNextRetryAfter s = until)) \<or>
         a' = a \<and> until \<le> fst (cooldownDeadline a m now)"
proof -
  define s where "s = get_model_state a m"
  define a1 where "a1 = fst (ensureModelState a m)"
  have e: "ensureModelState a m = (a1, Some s)"
    using assms(2) by (metis a1_def ensureModelState_snd prod.collapse s_def)
  have a1: "map_of (aModelStates a1) m = Some (Some s)"
    using assms(2) by (auto simp: a1_def s_def ensureModelState_def get_model_state_def split: option.splits)
  have own: "a1 = a" if "until \<le> fst (cooldownDeadline a1 m now)"
    using that assms(2-4) by (auto simp: a1_def ensureModelState_def cooldownDeadline_def newModelState_def zeroQuota_def
        deadline_of_def split: option.splits if_splits)
  show ?thesis
  proof (cases "msStatus s = StatusDisabled \<or> \<not> fst (cooldownDeadline a1 m now) < until")
    case True
    then have "a' = a1" using assms(1,5) by (auto simp: extendModelCooldownLocked_def e split: if_splits)
    with True a1 own show ?thesis by auto
  next
    case False
    define s' where "s' = s\<lparr>msUnavailable := True, msNextRetryAfter := until, msStatus := StatusError,
        msStatusMessage := peerCooldownMessage n, msUpdatedAt := now,
        msLastError := (if msLastError s = None then Some (peerCooldownError n (peerCooldownMessage n)) else msLastError s),
        msQuota := extend_quota n until (msQuota s)\<rparr>"
    have a': "a' = updateAggregatedAvailability ((put_model_state a1 m s')\<lparr>aStatus := StatusError, aUpdatedAt := now\<rparr>) now"
      using assms(1,5) False by (simp add: extendModelCooldownLocked_def e s'_def Let_def)
    have "settle now s' = s'" using assms(3) by (intro settle_ahead) (simp_all add: s'_def)
    then have "map_of (aModelStates a') m = Some (Some s')"
      by (simp add: a' updateAggregatedAvailability_states map_of_map)
    moreover have "msUnavailable s'" "msNextRetryAfter s' = until" by (simp_all add: s'_def)
    ultimately show ?thesis by blast
  qed
qed

lemma state_holds_back:
  assumes "m \<noteq> ''''" "map_of (aModelStates a) m = Some (Some s)" "0 < until" "T < until"
    and "msStatus s = StatusDisabled \<or> msUnavailable s \<and> msNextRetryAfter s = until"
  shows "blocked a m T"
proof -
  have "aModelStates a \<noteq> []" "lookup_state a m = Some s" using assms(2) by (auto simp: lookup_state_def)
  moreover have "fst (state_block s T)" using assms(3-5) by (auto simp: state_block_def Let_def)
  ultimately show ?thesis using assms(1) by (simp add: isAuthBlockedForModel_def)
qed

lemma auth_holds_back: "aUnavailable a \<Longrightarrow> T < aNextRetryAfter a \<Longrightarrow> blocked a '''' T"
  by (simp add: isAuthBlockedForModel_def Let_def)

text \<open>A process that does not ignore the notice holds the credential back for the time the notice asks for.\<close>

lemma ApplyPeerCooldown_blocks:
  assumes a: "map_of auths (nAuthID n) = Some (Some a)" and id: "trim_space (nAuthID n) \<noteq> ''''" and t: "0 \<le> t"
    and s: "\<not> peerCooldownSuppressed off a n"
    and own: "\<forall>T. t \<le> T \<and> T < fst (cooldownDeadline a (nModel n) t) \<longrightarrow> blocked a (nModel n) T"
  shows "\<exists>a'. map_of (fst (ApplyPeerCooldown off t n auths)) (nAuthID n) = Some (Some a') \<and>
           (\<forall>T. t \<le> T \<and> T < capped n t \<longrightarrow> blocked a' (nModel n) T)"
proof (cases "t < capped n t \<and> \<not> aDisabled a \<and> aStatus a \<noteq> StatusDisabled")
  case False
  then have "fst (ApplyPeerCooldown off t n auths) = auths" using a id by (auto simp: ApplyPeerCooldown_def Let_def)
  with False a show ?thesis by (auto simp: isAuthBlockedForModel_def)
next
  case True
  define r where "r = (if nModel n \<noteq> '''' then extendModelCooldownLocked a n (capped n t) t
                       else extendAuthCooldownLocked a n (capped n t) t)"
  have p: "fst (ApplyPeerCooldown off t n auths) = map_put (nAuthID n) (Some (fst r)) auths"
    using a id s True by (simp add: ApplyPeerCooldown_def r_def Let_def split: prod.split)
  have "blocked (fst r) (nModel n) T" if T: "t \<le> T" "T < capped n t" for T
  proof (cases "nModel n = ''''")
    case True
    then have "fst r = a \<and> capped n t \<le> fst (cooldownDeadline a '''' t) \<or> aUnavailable (fst r) \<and> aNextRetryAfter (fst r) = capped n t"
      by (auto simp: r_def extendAuthCooldownLocked_def Let_def)
    then show ?thesis using True T own auth_holds_back [of "fst r" T] by auto
  next
    case False
    consider (extended) u where "map_of (aModelStates (fst r)) (nModel n) = Some (Some u)"
        "msStatus u = StatusDisabled \<or> msUnavailable u \<and> msNextRetryAfter u = capped n t"
      | (own) "fst r = a" "capped n t \<le> fst (cooldownDeadline a (nModel n) t)"
      using extend_model_state [OF refl False _ t, of "capped n t" a "fst r" "snd r"] True False by (auto simp: r_def)
    then show ?thesis
      by cases (use state_holds_back [OF False, of "fst r" _ "capped n t" T] T t own in auto)
  qed
  with p show ?thesis by simp
qed

abbreviation deliver :: "bool \<Rightarrow> gotime \<times> notice \<Rightarrow> (string, auth option) gomap \<Rightarrow> (string, auth option) gomap" where
  "deliver off d \<equiv> peer_apply off (fst d) (snd d)"

text \<open>Deliveries up to the time \<open>T\<close> of notices about a credential and a model.\<close>

definition delivery_ok :: "gotime \<Rightarrow> string \<Rightarrow> string \<Rightarrow> gotime \<times> notice \<Rightarrow> bool" where
  "delivery_ok T i m d \<longleftrightarrow> 0 \<le> fst d \<and> fst d \<le> T \<and> nAuthID (snd d) = i \<and> nModel (snd d) = m"

interpretation peer: latest_wins "deliver off" "peer_seen T i m" "peer_due mute T" "peer_good off mute i m" "delivery_ok T i m"
  for off mute T i m
  by unfold_locales (auto simp: delivery_ok_def peer_apply_law)

section \<open>Properties\<close>

text \<open>
  C36: Cooldown notices from other processes may arrive late, twice and out of order. Let a process have the credential and the model enabled, with
  recovery times recorded only for exhausted quotas. Whenever the notices about them arrive, the deadline in force at a later time is the
  latest of the one that was in force and those the notices ask for, each cut to thirty minutes from its own arrival and left out where cooldowns
  are switched off for the credential; what has passed by then does not count. So two deliveries of the same notices at different times, in
  different orders and numbers, leave the same deadline, provided no notice reaches further than thirty minutes beyond its arrival; a notice that
  does may be extended by arriving again, but never beyond what it asks for.
\<close>

theorem peer_notices_any_order:
  assumes "peer_good off mute i m auths" "list_all (delivery_ok T i m) ds" "list_all (delivery_ok T i m) ds'"
  shows "peer_seen T i m (fold (deliver off) ds auths) = Max (insert (peer_seen T i m auths) (peer_due mute T ` set ds)) \<and>
    (snd ` set ds = snd ` set ds' \<and> (\<forall>(t, n) \<in> set ds \<union> set ds'. nUntil n \<le> t + maxPeerCooldown) \<longrightarrow>
       peer_seen T i m (fold (deliver off) ds auths) = peer_seen T i m (fold (deliver off) ds' auths)) \<and>
    (\<forall>(t, n) \<in> set ds. peer_due mute T (t, n) \<le> max 0 (nUntil n))"
proof (intro conjI impI)
  show seen: "peer_seen T i m (fold (deliver off) ds auths) = Max (insert (peer_seen T i m auths) (peer_due mute T ` set ds))"
    using peer.seen_fold [OF assms(1,2)] by blast
  show "\<forall>(t, n) \<in> set ds. peer_due mute T (t, n) \<le> max 0 (nUntil n)"
    by (auto simp: peer_due_def capped_def)
  assume same: "snd ` set ds = snd ` set ds' \<and> (\<forall>(t, n) \<in> set ds \<union> set ds'. nUntil n \<le> t + maxPeerCooldown)"
  have uncut: "peer_due mute T ` set es = (\<lambda>n. peer_due mute T (nUntil n - maxPeerCooldown, n)) ` snd ` set es"
    if "\<forall>(t, n) \<in> set es. nUntil n \<le> t + maxPeerCooldown" for es
    unfolding image_image using that by (intro image_cong) (auto simp: peer_due_def capped_def)
  have "peer_due mute T ` set ds = peer_due mute T ` set ds'"
    using uncut [of ds] uncut [of ds'] same by auto
  with seen peer.seen_fold [OF assms(1,3)]
  show "peer_seen T i m (fold (deliver off) ds auths) = peer_seen T i m (fold (deliver off) ds' auths)" by simp
qed

text \<open>Two notices, delivered once at once and once late, the other way round and one of them twice.\<close>

definition two_notices :: "notice list" where
  "two_notices = (let n = \<lparr>nAuthID = ''a'', nModel = ''m'', nUntil = 90, nStatusCode = 429, nReason = ''quota'',
                          nQuota = True, nOrigin = ''b''\<rparr>
                  in [n, n\<lparr>nUntil := 70\<rparr>])"

definition prompt_delivery :: "(gotime \<times> notice) list" where
  "prompt_delivery = zip [5, 6] two_notices"

definition late_delivery :: "(gotime \<times> notice) list" where
  "late_delivery = zip [7, 20, 30] (rev two_notices @ [two_notices ! 1])"

theorem peer_notices_any_order_witness:
  "peer_seen 40 ''a'' ''m'' (fold (deliver False) prompt_delivery [(''a'', Some sample_auth)]) =
   peer_seen 40 ''a'' ''m'' (fold (deliver False) late_delivery [(''a'', Some sample_auth)]) \<and>
   peer_seen 40 ''a'' ''m'' (fold (deliver False) prompt_delivery [(''a'', Some sample_auth)]) = 90"
proof -
  have "peer_good False False ''a'' ''m'' [(''a'', Some sample_auth)]" "list_all (delivery_ok 40 ''a'' ''m'') prompt_delivery"
    "list_all (delivery_ok 40 ''a'' ''m'') late_delivery"
    "peer_seen 40 ''a'' ''m'' (fold (deliver False) prompt_delivery [(''a'', Some sample_auth)]) = 90" by code_simp+
  moreover have "snd ` set prompt_delivery = snd ` set late_delivery"
    "\<forall>(t, n) \<in> set prompt_delivery \<union> set late_delivery. nUntil n \<le> t + maxPeerCooldown"
    by (auto simp: prompt_delivery_def late_delivery_def two_notices_def Let_def maxPeerCooldown_def duration_defs)
  ultimately show ?thesis using peer_notices_any_order [of False False "''a''" "''m''"] by blast
qed

end
