(* ===== verification/Model_Registry.thy ===== *)
theory Model_Registry
  imports Model_Info "HOL-Library.Multiset"
begin

text \<open>
  The registry of models: \<^verbatim>\<open>src/internal/registry/model_registry.go\<close> and \<^verbatim>\<open>model_registry_queries.go\<close>. Clients
  register the models they serve; the registry counts, per model and per provider, how many registrations
  there are, and keeps the marks of exhausted and suspended clients.

  A nil map is the empty map. The registered hook, which runs in a goroutine of its own, and logging are left out. Where the
  code ranges over a map of model IDs, the model goes through the IDs in the order of their first occurrence.
\<close>

section \<open>State\<close>

record registration =
  rgInfo :: model_info
  rgInfoByProvider :: "(string, model_info) gomap"
  rgCount :: int
  rgLastUpdated :: gotime
  rgQuotaExceeded :: "(string, gotime) gomap"
  rgProviders :: "(string, int) gomap"
  rgSuspended :: "(string, string) gomap"

record registry =
  ryModels :: "(string, registration) gomap"
  ryClientModels :: "(string, string list) gomap"
  ryClientInfos :: "(string, (string, model_info) gomap) gomap"
  ryClientProviders :: "(string, string) gomap"

definition newRegistry :: registry where
  "newRegistry = \<lparr>ryModels = [], ryClientModels = [], ryClientInfos = [], ryClientProviders = []\<rparr>"

definition put_model :: "string \<Rightarrow> registration option \<Rightarrow> registry \<Rightarrow> registry" where
  "put_model i g r =
     r\<lparr>ryModels := (case g of None \<Rightarrow> map_del i (ryModels r) | Some x \<Rightarrow> map_put i x (ryModels r))\<rparr>"

section \<open>Registrations of one model\<close>

definition addModelRegistration :: "string \<Rightarrow> string \<Rightarrow> model_info \<Rightarrow> gotime \<Rightarrow> registry \<Rightarrow> registry" where
  "addModelRegistration modelID provider model now r =
     (if modelID = '''' then r
      else put_model modelID (Some (case map_of (ryModels r) modelID of
        Some g \<Rightarrow>
          let g1 = g\<lparr>rgCount := rgCount g + 1, rgLastUpdated := now, rgInfo := model\<rparr>
          in if provider = '''' then g1
             else g1\<lparr>rgProviders := map_put provider (map_get 0 (rgProviders g) provider + 1) (rgProviders g),
                     rgInfoByProvider := map_put provider model (rgInfoByProvider g)\<rparr>
      | None \<Rightarrow>
          \<lparr>rgInfo = model, rgInfoByProvider = (if provider = '''' then [] else [(provider, model)]), rgCount = 1,
           rgLastUpdated = now, rgQuotaExceeded = [], rgProviders = (if provider = '''' then [] else [(provider, 1)]),
           rgSuspended = []\<rparr>)) r)"

text \<open>One registration less for a provider; the last one also takes the provider's description along.\<close>

definition drop_provider :: "string \<Rightarrow> int \<Rightarrow> registration \<Rightarrow> registration" where
  "drop_provider provider n g =
     (case map_of (rgProviders g) provider of
        None \<Rightarrow> g
      | Some n0 \<Rightarrow>
          if n0 \<le> n
          then g\<lparr>rgProviders := map_del provider (rgProviders g), rgInfoByProvider := map_del provider (rgInfoByProvider g)\<rparr>
          else g\<lparr>rgProviders := map_put provider (n0 - n) (rgProviders g)\<rparr>)"

definition removeModelRegistration :: "string \<Rightarrow> string \<Rightarrow> string \<Rightarrow> gotime \<Rightarrow> registry \<Rightarrow> registry" where
  "removeModelRegistration clientID modelID provider now r =
     (case map_of (ryModels r) modelID of
        None \<Rightarrow> r
      | Some g \<Rightarrow>
          let g1 = g\<lparr>rgCount := max 0 (rgCount g - 1), rgLastUpdated := now,
                     rgQuotaExceeded := map_del clientID (rgQuotaExceeded g),
                     rgSuspended := map_del clientID (rgSuspended g)\<rparr>;
              g2 = (if provider = '''' then g1 else drop_provider provider 1 g1)
          in put_model modelID (if rgCount g2 \<le> 0 then None else Some g2) r)"

section \<open>Unregistering and registering a client\<close>

text \<open>The body of the loop of \<^verbatim>\<open>unregisterClientInternal\<close>.\<close>

definition unregister_model :: "string \<Rightarrow> string option \<Rightarrow> gotime \<Rightarrow> string \<Rightarrow> registry \<Rightarrow> registry" where
  "unregister_model clientID provider now modelID r =
     (case map_of (ryModels r) modelID of
        None \<Rightarrow> r
      | Some g \<Rightarrow>
          let g1 = g\<lparr>rgCount := rgCount g - 1, rgLastUpdated := now,
                     rgQuotaExceeded := map_del clientID (rgQuotaExceeded g),
                     rgSuspended := map_del clientID (rgSuspended g)\<rparr>;
              g2 = (case provider of None \<Rightarrow> g1 | Some p \<Rightarrow> drop_provider p 1 g1)
          in put_model modelID (if rgCount g2 \<le> 0 then None else Some g2) r)"

definition unregisterClientInternal :: "string \<Rightarrow> gotime \<Rightarrow> registry \<Rightarrow> registry" where
  "unregisterClientInternal clientID now r =
     (case map_of (ryClientModels r) clientID of
        None \<Rightarrow> r\<lparr>ryClientProviders := map_del clientID (ryClientProviders r)\<rparr>
      | Some models \<Rightarrow>
          let r1 = fold (unregister_model clientID (map_of (ryClientProviders r) clientID) now) models r
          in r1\<lparr>ryClientModels := map_del clientID (ryClientModels r1),
                ryClientInfos := map_del clientID (ryClientInfos r1),
                ryClientProviders := map_del clientID (ryClientProviders r1)\<rparr>)"

definition UnregisterClient :: "string \<Rightarrow> gotime \<Rightarrow> registry \<Rightarrow> registry" where
  "UnregisterClient = unregisterClientInternal"

text \<open>The models of a registration that carry an ID; the first one under an ID counts.\<close>

definition named_models :: "model_info option list \<Rightarrow> model_info list" where
  "named_models models =
     List.map_filter (\<lambda>m. case m of None \<Rightarrow> None | Some x \<Rightarrow> if miID x = '''' then None else Some x) models"

definition uniq :: "'a list \<Rightarrow> 'a list" where
  "uniq xs = rev (remdups (rev xs))"

definition new_model :: "model_info list \<Rightarrow> string \<Rightarrow> model_info" where
  "new_model ms i = (case List.find (\<lambda>m. miID m = i) ms of Some m \<Rightarrow> m | None \<Rightarrow> hd ms)"

definition client_infos :: "model_info list \<Rightarrow> (string, model_info) gomap" where
  "client_infos ms = map (\<lambda>i. (i, new_model ms i)) (uniq (map miID ms))"

definition book_client :: "string \<Rightarrow> string \<Rightarrow> model_info list \<Rightarrow> registry \<Rightarrow> registry" where
  "book_client clientID provider ms r =
     r\<lparr>ryClientModels := map_put clientID (map miID ms) (ryClientModels r),
       ryClientInfos := map_put clientID (client_infos ms) (ryClientInfos r),
       ryClientProviders := (if provider \<noteq> '''' then map_put clientID provider (ryClientProviders r)
                             else map_del clientID (ryClientProviders r))\<rparr>"

text \<open>The steps of the reconciliation, per model ID.\<close>

definition release_overlap :: "string \<Rightarrow> nat \<Rightarrow> nat \<Rightarrow> string \<Rightarrow> registry \<Rightarrow> registry" where
  "release_overlap oldProvider oldCount newCount i r =
     (if newCount = 0 \<or> oldCount = 0 then r
      else case map_of (ryModels r) i of
             None \<Rightarrow> r
           | Some g \<Rightarrow> put_model i (Some (drop_provider oldProvider (int (min newCount oldCount)) g)) r)"

definition refresh_model ::
  "string \<Rightarrow> bool \<Rightarrow> model_info \<Rightarrow> nat \<Rightarrow> nat \<Rightarrow> gotime \<Rightarrow> string \<Rightarrow> registry \<Rightarrow> registry" where
  "refresh_model provider providerChanged model oldCount newCount now i r =
     (case map_of (ryModels r) i of
        None \<Rightarrow> r
      | Some g \<Rightarrow>
          let g1 = g\<lparr>rgInfo := model, rgLastUpdated := now,
                     rgInfoByProvider := (if provider = '''' then rgInfoByProvider g
                                          else map_put provider model (rgInfoByProvider g))\<rparr>;
              overlap = int (min newCount oldCount);
              g2 = (if providerChanged \<and> provider \<noteq> '''' \<and> oldCount \<noteq> 0 \<and> 0 < overlap
                    then g1\<lparr>rgProviders := map_put provider (map_get 0 (rgProviders g) provider + overlap) (rgProviders g)\<rparr>
                    else g1)
          in put_model i (Some g2) r)"

definition reconcile ::
  "string \<Rightarrow> string \<Rightarrow> string \<Rightarrow> string list \<Rightarrow> model_info list \<Rightarrow> gotime \<Rightarrow> registry \<Rightarrow> registry" where
  "reconcile clientID oldProvider provider oldModels ms now r =
     (let raw = map miID ms;
          old = count_list oldModels; new = count_list raw;
          r1 = (if oldProvider \<noteq> provider \<and> oldProvider \<noteq> ''''
                then fold (\<lambda>i. release_overlap oldProvider (old i) (new i) i) (uniq raw) r else r);
          r2 = fold (\<lambda>i. if new i = 0 then removeModelRegistration clientID i oldProvider now ^^ old i else id)
                 (uniq oldModels) r1;
          r3 = fold (\<lambda>i. if new i = 0 \<or> old i \<le> new i then id
                         else removeModelRegistration clientID i oldProvider now ^^ (old i - new i)) (uniq oldModels) r2;
          r4 = fold (\<lambda>i. if new i \<le> old i then id
                         else addModelRegistration i provider (new_model ms i) now ^^ (new i - old i)) (uniq raw) r3
      in fold (\<lambda>i. refresh_model provider (oldProvider \<noteq> provider) (new_model ms i) (old i) (new i) now i) (uniq raw) r4)"

definition RegisterClient :: "string \<Rightarrow> string \<Rightarrow> model_info option list \<Rightarrow> gotime \<Rightarrow> registry \<Rightarrow> registry" where
  "RegisterClient clientID clientProvider models now r =
     (let provider = to_lower clientProvider; ms = named_models models
      in if ms = [] then
           let r1 = unregisterClientInternal clientID now r
           in r1\<lparr>ryClientModels := map_del clientID (ryClientModels r1), ryClientInfos := map_del clientID (ryClientInfos r1),
                 ryClientProviders := map_del clientID (ryClientProviders r1)\<rparr>
         else
           book_client clientID provider ms
             (case map_of (ryClientModels r) clientID of
                None \<Rightarrow> fold (\<lambda>i. addModelRegistration i provider (new_model ms i) now) (map miID ms) r
              | Some oldModels \<Rightarrow>
                  reconcile clientID (map_get '''' (ryClientProviders r) clientID) provider oldModels ms now r))"

section \<open>Marks\<close>

definition at_model :: "string \<Rightarrow> (registration \<Rightarrow> registration) \<Rightarrow> registry \<Rightarrow> registry" where
  "at_model i f r = (case map_of (ryModels r) i of None \<Rightarrow> r | Some g \<Rightarrow> put_model i (Some (f g)) r)"

definition registry_SetModelQuotaExceeded :: "string \<Rightarrow> string \<Rightarrow> gotime \<Rightarrow> registry \<Rightarrow> registry" where
  "registry_SetModelQuotaExceeded clientID modelID now =
     at_model modelID (\<lambda>g. g\<lparr>rgQuotaExceeded := map_put clientID now (rgQuotaExceeded g)\<rparr>)"

definition registry_ClearModelQuotaExceeded :: "string \<Rightarrow> string \<Rightarrow> registry \<Rightarrow> registry" where
  "registry_ClearModelQuotaExceeded clientID modelID =
     at_model modelID (\<lambda>g. g\<lparr>rgQuotaExceeded := map_del clientID (rgQuotaExceeded g)\<rparr>)"

definition registry_SuspendClientModel :: "string \<Rightarrow> string \<Rightarrow> string \<Rightarrow> gotime \<Rightarrow> registry \<Rightarrow> registry" where
  "registry_SuspendClientModel clientID modelID reason now r =
     (if clientID = '''' \<or> modelID = '''' then r
      else at_model modelID (\<lambda>g. if map_of (rgSuspended g) clientID \<noteq> None then g
             else g\<lparr>rgSuspended := map_put clientID reason (rgSuspended g), rgLastUpdated := now\<rparr>) r)"

definition registry_ResumeClientModel :: "string \<Rightarrow> string \<Rightarrow> gotime \<Rightarrow> registry \<Rightarrow> registry" where
  "registry_ResumeClientModel clientID modelID now r =
     (if clientID = '''' \<or> modelID = '''' then r
      else at_model modelID (\<lambda>g. if map_of (rgSuspended g) clientID = None then g
             else g\<lparr>rgSuspended := map_del clientID (rgSuspended g), rgLastUpdated := now\<rparr>) r)"

definition quotaExpiredDuration :: duration where
  "quotaExpiredDuration = 5 * minute"

definition CleanupExpiredQuotas :: "gotime \<Rightarrow> registry \<Rightarrow> registry" where
  "CleanupExpiredQuotas now r =
     r\<lparr>ryModels := map (\<lambda>(i, g). (i, g\<lparr>rgQuotaExceeded :=
         filter (\<lambda>(_, t). \<not> quotaExpiredDuration \<le> time_sub now t) (rgQuotaExceeded g)\<rparr>)) (ryModels r)\<rparr>"


section \<open>What the counters count\<close>

text \<open>
  The references to a model: for every registration of it, the provider of the client that holds it, where the empty name
  stands for a client without provider. \<open>counts\<close> relates the stored registration to that multiset.
\<close>

definition refs :: "registry \<Rightarrow> string \<Rightarrow> string multiset" where
  "refs r i = (\<Sum>(c, ids) \<leftarrow> ryClientModels r. replicate_mset (count_list ids i) (map_get '''' (ryClientProviders r) c))"

definition counts :: "registration option \<Rightarrow> string multiset \<Rightarrow> bool" where
  "counts g M =
     (case g of
        None \<Rightarrow> M = {#}
      | Some x \<Rightarrow> M \<noteq> {#} \<and> rgCount x = int (size M) \<and> map_wf (rgProviders x) \<and>
          map_of (rgProviders x) = (\<lambda>p. if p \<noteq> '''' \<and> 0 < count M p then Some (int (count M p)) else None))"

abbreviation model_at :: "registry \<Rightarrow> string \<Rightarrow> registration option" where
  "model_at r i \<equiv> map_of (ryModels r) i"

lemma model_at_put [simp]: "model_at (put_model i g r) j = (if j = i then g else model_at r j)"
  by (simp add: put_model_def split: option.split)

lemma countsD:
  assumes "counts (Some x) M"
  shows "M \<noteq> {#}" "rgCount x = int (size M)" "map_wf (rgProviders x)"
    "map_of (rgProviders x) p = (if p \<noteq> '''' \<and> 0 < count M p then Some (int (count M p)) else None)"
    "map_get 0 (rgProviders x) p = (if p = '''' then 0 else int (count M p))"
  using assms by (simp_all add: counts_def map_get_def count_eq_zero_iff)

lemma countsI:
  assumes "M \<noteq> {#}" "rgCount x = int (size M)" "map_wf (rgProviders x)"
    "\<And>p. map_of (rgProviders x) p = (if p \<noteq> '''' \<and> 0 < count M p then Some (int (count M p)) else None)"
  shows "counts (Some x) M"
  using assms by (simp add: counts_def fun_eq_iff)

lemma counts_add:
  assumes "counts (model_at r i) M" "i \<noteq> ''''"
  shows "counts (model_at (addModelRegistration i p m now r) i) (add_mset p M)"
proof (cases "model_at r i")
  case None
  then show ?thesis using assms by (auto simp: addModelRegistration_def counts_def fun_eq_iff)
next
  case (Some g)
  note c = countsD [OF assms(1) [unfolded Some]]
  show ?thesis
    using Some assms(2) c by (auto simp: addModelRegistration_def Let_def count_eq_zero_iff intro!: countsI)
qed

lemma drop_provider_frame [simp]:
  "rgCount (drop_provider p n g) = rgCount g" "rgQuotaExceeded (drop_provider p n g) = rgQuotaExceeded g"
  "rgSuspended (drop_provider p n g) = rgSuspended g" "rgInfo (drop_provider p n g) = rgInfo g"
  by (simp_all add: drop_provider_def split: option.split)

lemma drop_provider_counts:
  assumes "M' = M + replicate_mset n p" "map_wf (rgProviders g)"
    "\<And>q. map_of (rgProviders g) q = (if q \<noteq> '''' \<and> 0 < count M' q then Some (int (count M' q)) else None)"
  shows "map_wf (rgProviders (drop_provider p (int n) g)) \<and>
    map_of (rgProviders (drop_provider p (int n) g)) q =
      (if q \<noteq> '''' \<and> 0 < count M q then Some (int (count M q)) else None)"
  using assms(2) assms(3) [of p] assms(3) [of q]
  by (cases "p = ''''") (auto simp: assms(1) drop_provider_def count_eq_zero_iff split: if_splits)

lemma counts_remove:
  assumes "counts (model_at r i) (add_mset p M)"
  shows "counts (model_at (removeModelRegistration c i p now r) i) M"
proof -
  obtain g where g: "model_at r i = Some g" using assms by (cases "model_at r i") (auto simp: counts_def)
  note c = countsD [OF assms [unfolded g]]
  let ?g1 = "g\<lparr>rgCount := max 0 (rgCount g - 1), rgLastUpdated := now,
               rgQuotaExceeded := map_del c (rgQuotaExceeded g), rgSuspended := map_del c (rgSuspended g)\<rparr>"
  have d: "map_wf (rgProviders (drop_provider p 1 ?g1))"
    "map_of (rgProviders (drop_provider p 1 ?g1)) q = (if q \<noteq> '''' \<and> 0 < count M q then Some (int (count M q)) else None)" for q
    using drop_provider_counts [of "add_mset p M" M 1 p ?g1 q] c(3,4) by simp_all
  show ?thesis
  proof (cases "M = {#}")
    case True
    then show ?thesis using g c(2) by (simp add: removeModelRegistration_def Let_def counts_def)
  next
    case False
    then have "0 < size M" by (simp add: nonempty_has_size)
    with False show ?thesis
      using g c d by (auto simp: removeModelRegistration_def Let_def count_eq_zero_iff intro!: countsI)
  qed
qed


section \<open>Operations on one model at a time\<close>

definition clients_of :: "registry \<Rightarrow> (string, string list) gomap \<times> (string, (string, model_info) gomap) gomap \<times> (string, string) gomap" where
  "clients_of r = (ryClientModels r, ryClientInfos r, ryClientProviders r)"

definition local_at :: "string \<Rightarrow> (registry \<Rightarrow> registry) \<Rightarrow> bool" where
  "local_at i f \<longleftrightarrow>
     (\<forall>r j. j \<noteq> i \<longrightarrow> model_at (f r) j = model_at r j) \<and> (\<forall>r. clients_of (f r) = clients_of r) \<and>
     (\<forall>r s. model_at r i = model_at s i \<longrightarrow> model_at (f r) i = model_at (f s) i) \<and>
     (\<forall>r. map_wf (ryModels r) \<longrightarrow> map_wf (ryModels (f r)))"

named_theorems local_ops

lemma put_model_frame [simp]: "clients_of (put_model i g r) = clients_of r"
  by (simp add: put_model_def clients_of_def)

lemma put_model_wf [intro]: "map_wf (ryModels r) \<Longrightarrow> map_wf (ryModels (put_model i g r))"
  by (auto simp: put_model_def split: option.split)

lemma local_id [local_ops]: "local_at i id" "local_at i (\<lambda>r. r)"
  by (simp_all add: local_at_def)

lemma local_add [local_ops]: "local_at i (addModelRegistration i p m now)"
  by (auto simp: local_at_def addModelRegistration_def)

lemma local_remove [local_ops]: "local_at i (removeModelRegistration c i p now)"
  by (auto simp: local_at_def removeModelRegistration_def Let_def split: option.split)

lemma local_release [local_ops]: "local_at i (release_overlap q old new i)"
  by (auto simp: local_at_def release_overlap_def split: option.split)

lemma local_refresh [local_ops]: "local_at i (refresh_model p ch m old new now i)"
  by (auto simp: local_at_def refresh_model_def Let_def split: option.split)

lemma local_at_model [local_ops]: "local_at i (at_model i f)"
  by (auto simp: local_at_def at_model_def split: option.split)

lemma local_atD:
  assumes "local_at i f"
  shows "clients_of (f r) = clients_of r" "map_wf (ryModels r) \<Longrightarrow> map_wf (ryModels (f r))"
    "j \<noteq> i \<Longrightarrow> model_at (f r) j = model_at r j" "model_at r i = model_at s i \<Longrightarrow> model_at (f r) i = model_at (f s) i"
  using assms unfolding local_at_def by blast+

lemma local_atI:
  assumes "\<And>r. clients_of (f r) = clients_of r" "\<And>r. map_wf (ryModels r) \<Longrightarrow> map_wf (ryModels (f r))"
    "\<And>r j. j \<noteq> i \<Longrightarrow> model_at (f r) j = model_at r j"
    "\<And>r s. model_at r i = model_at s i \<Longrightarrow> model_at (f r) i = model_at (f s) i"
  shows "local_at i f"
  using assms unfolding local_at_def by blast

lemma local_compose:
  assumes "local_at i f" "local_at i g"
  shows "local_at i (\<lambda>r. f (g r))"
proof (rule local_atI)
  show "map_wf (ryModels (f (g r)))" if "map_wf (ryModels r)" for r
    by (intro local_atD(2) [OF assms(1)] local_atD(2) [OF assms(2)] that)
  show "model_at (f (g r)) i = model_at (f (g s)) i" if "model_at r i = model_at s i" for r s
    by (intro local_atD(4) [OF assms(1)] local_atD(4) [OF assms(2)] that)
qed (simp_all add: local_atD [OF assms(1)] local_atD [OF assms(2)])

lemma local_power [local_ops]: "local_at i f \<Longrightarrow> local_at i (f ^^ n)"
proof (induction n)
  case (Suc n)
  then show ?case using local_compose [of i f "f ^^ n"] by (simp add: o_def)
qed (simp add: local_ops)

lemma local_if [local_ops]: "local_at i f \<Longrightarrow> local_at i g \<Longrightarrow> local_at i (if b then f else g)"
  by simp

lemma fold_local_clients: "(\<And>i. local_at i (f i)) \<Longrightarrow> clients_of (fold f xs r) = clients_of r"
proof (induction xs arbitrary: r)
  case (Cons x xs)
  then show ?case using local_atD(1) [of x "f x"] by simp
qed simp

lemma fold_local_wf:
  assumes "\<And>i. local_at i (f i)" "map_wf (ryModels r)"
  shows "map_wf (ryModels (fold f xs r))"
  using assms(2)
proof (induction xs arbitrary: r)
  case (Cons x xs)
  then show ?case using local_atD(2) [OF assms(1)] by simp
qed simp

lemma fold_local:
  assumes "\<And>i. local_at i (f i)" "distinct xs"
  shows "model_at (fold f xs r) j = (if j \<in> set xs then model_at (f j r) j else model_at r j)"
  using assms(2)
proof (induction xs arbitrary: r)
  case (Cons x xs)
  have other: "model_at (f x r) j = model_at r j" if "j \<noteq> x" using assms(1) that by (auto simp: local_at_def)
  have "model_at (f j (f x r)) j = model_at (f j r) j" if "j \<noteq> x"
    using assms(1) [of j] other [OF that] unfolding local_at_def by blast
  then show ?case using Cons other by auto
qed simp

lemma set_uniq [simp]: "set (uniq xs) = set xs" and distinct_uniq [simp]: "distinct (uniq xs)"
  by (simp_all add: uniq_def)

section \<open>Counting through the operations\<close>

lemma counts_cong: "local_at i f \<Longrightarrow> model_at r i = model_at s i \<Longrightarrow> counts (model_at (f r) i) M = counts (model_at (f s) i) M"
  unfolding local_at_def by metis

lemma counts_add_power:
  "counts (model_at r i) M \<Longrightarrow> i \<noteq> '''' \<Longrightarrow>
   counts (model_at ((addModelRegistration i p m now ^^ n) r) i) (M + replicate_mset n p)"
  by (induction n) (simp_all add: counts_add)

lemma counts_remove_power:
  "counts (model_at r i) (M + replicate_mset n p) \<Longrightarrow> counts (model_at ((removeModelRegistration c i p now ^^ n) r) i) M"
proof (induction n arbitrary: r)
  case (Suc n)
  then have "counts (model_at (removeModelRegistration c i p now r) i) (M + replicate_mset n p)"
    using counts_remove by simp
  from Suc.IH [OF this] show ?case by (simp add: funpow_Suc_right del: funpow.simps)
qed simp

lemma counts_release:
  assumes "counts (model_at r i) (M + replicate_mset (min new old) q)" "q \<noteq> ''''"
  shows "counts (model_at (release_overlap q old new i r) i) (M + replicate_mset (min new old) '''')"
proof (cases "new = 0 \<or> old = 0 \<or> model_at r i = None")
  case True
  then have "replicate_mset (min new old) q = {#} \<and> replicate_mset (min new old) '''' = {#} \<or> model_at r i = None" by auto
  moreover have "release_overlap q old new i r = r" using True by (auto simp: release_overlap_def)
  ultimately show ?thesis using assms(1) by (auto simp: counts_def split: option.splits)
next
  case False
  then obtain g where g: "model_at r i = Some g" by blast
  let ?k = "min new old" and ?N = "M + replicate_mset (min new old) ''''"
  note c = countsD [OF assms(1) [unfolded g]]
  have d: "map_wf (rgProviders (drop_provider q (int ?k) g))"
    "map_of (rgProviders (drop_provider q (int ?k) g)) p = (if p \<noteq> '''' \<and> 0 < count M p then Some (int (count M p)) else None)" for p
    using drop_provider_counts [OF refl c(3), of M ?k q p] c(4) by simp_all
  have "counts (Some (drop_provider q (int ?k) g)) ?N"
    using c(1,2) d False by (intro countsI) (auto simp: count_eq_zero_iff)
  then show ?thesis using False g by (simp add: release_overlap_def)
qed

lemma counts_refresh:
  assumes "counts (model_at r i) (M + replicate_mset (min new old) q)" "ch \<Longrightarrow> q = ''''" "\<not> ch \<Longrightarrow> q = p"
  shows "counts (model_at (refresh_model p ch m old new now i r) i) (M + replicate_mset (min new old) p)"
proof (cases "model_at r i")
  case None
  then show ?thesis using assms(1) by (auto simp: refresh_model_def counts_def)
next
  case (Some g)
  note c = countsD [OF assms(1) [unfolded Some]]
  show ?thesis
  proof (cases "ch \<and> p \<noteq> '''' \<and> 0 < min new old")
    case True
    then show ?thesis
      using Some c assms(2) by (auto simp: refresh_model_def Let_def count_eq_zero_iff intro!: countsI)
  next
    case False
    then have "M + replicate_mset (min new old) q = M + replicate_mset (min new old) p" using assms(2,3) by auto
    then show ?thesis
      using False Some c by (auto simp: refresh_model_def Let_def count_eq_zero_iff intro!: countsI)
  qed
qed


text \<open>One model through the whole reconciliation: the references of the client are exchanged, those of others stay.\<close>

lemma reconcile_counts:
  fixes oldModels ms i
  defines "old \<equiv> count_list oldModels i" and "new \<equiv> count_list (map miID ms) i"
  assumes "counts (model_at r i) (M + replicate_mset old oldProvider)" "i \<in> set (map miID ms) \<Longrightarrow> i \<noteq> ''''"
  shows "counts (model_at (reconcile c oldProvider provider oldModels ms now r) i) (M + replicate_mset new provider)"
proof -
  let ?raw = "map miID ms" and ?ch = "oldProvider \<noteq> provider" and ?k = "min new old"
  let ?q = "if ?ch \<and> oldProvider \<noteq> '''' then '''' else oldProvider"
  let ?rel = "\<lambda>i. release_overlap oldProvider (count_list oldModels i) (count_list ?raw i) i"
  let ?rem = "\<lambda>i. if count_list ?raw i = 0 then removeModelRegistration c i oldProvider now ^^ count_list oldModels i else id"
  let ?ovr = "\<lambda>i. if count_list ?raw i = 0 \<or> count_list oldModels i \<le> count_list ?raw i then id
      else removeModelRegistration c i oldProvider now ^^ (count_list oldModels i - count_list ?raw i)"
  let ?add = "\<lambda>i. if count_list ?raw i \<le> count_list oldModels i then id
      else addModelRegistration i provider (new_model ms i) now ^^ (count_list ?raw i - count_list oldModels i)"
  let ?ref = "\<lambda>i. refresh_model provider ?ch (new_model ms i) (count_list oldModels i) (count_list ?raw i) now i"
  define r1 where "r1 = (if ?ch \<and> oldProvider \<noteq> '''' then fold ?rel (uniq ?raw) r else r)"
  define r2 where "r2 = fold ?rem (uniq oldModels) r1"
  define r3 where "r3 = fold ?ovr (uniq oldModels) r2"
  define r4 where "r4 = fold ?add (uniq ?raw) r3"
  have loc: "local_at i (?rel i)" "local_at i (?ref i)" for i by (rule local_release local_refresh)+
  have loc_rem: "local_at i (?rem i)" for i by (rule local_if [OF local_power [OF local_remove] local_id(1)])
  have loc_ovr: "local_at i (?ovr i)" for i by (rule local_if [OF local_id(1) local_power [OF local_remove]])
  have loc_add: "local_at i (?add i)" for i by (rule local_if [OF local_id(1) local_power [OF local_add]])
  have at1: "model_at (fold ?rel (uniq ?raw) r) i = (if i \<in> set ?raw then model_at (?rel i r) i else model_at r i)"
    by (rule fold_local [where f = ?rel, OF loc(1) distinct_uniq, unfolded set_uniq])
  have at2: "model_at r2 i = (if i \<in> set oldModels then model_at (?rem i r1) i else model_at r1 i)"
    unfolding r2_def by (rule fold_local [where f = ?rem, OF loc_rem distinct_uniq, unfolded set_uniq])
  have at3: "model_at r3 i = (if i \<in> set oldModels then model_at (?ovr i r2) i else model_at r2 i)"
    unfolding r3_def by (rule fold_local [where f = ?ovr, OF loc_ovr distinct_uniq, unfolded set_uniq])
  have at4: "model_at r4 i = (if i \<in> set ?raw then model_at (?add i r3) i else model_at r3 i)"
    unfolding r4_def by (rule fold_local [where f = ?add, OF loc_add distinct_uniq, unfolded set_uniq])
  have at5: "model_at (fold ?ref (uniq ?raw) r4) i = (if i \<in> set ?raw then model_at (?ref i r4) i else model_at r4 i)"
    by (rule fold_local [where f = ?ref, OF loc(2) distinct_uniq, unfolded set_uniq])
  have none: "i \<notin> set ?raw \<longleftrightarrow> new = 0" "i \<notin> set oldModels \<longleftrightarrow> old = 0"
    by (simp_all add: new_def old_def count_list_0_iff)
  have split: "replicate_mset old q = replicate_mset (old - ?k) q + replicate_mset ?k q" for q :: string
    by (simp add: multiset_eq_iff)
  have 1: "counts (model_at r1 i) (M + replicate_mset (old - ?k) oldProvider + replicate_mset ?k ?q)"
  proof (cases "?ch \<and> oldProvider \<noteq> '''' \<and> i \<in> set ?raw")
    case True
    then show ?thesis
      using counts_release [of r i "M + replicate_mset (old - ?k) oldProvider" new old oldProvider]
        assms(3) [unfolded split [of oldProvider] add.assoc [symmetric]] at1
      by (simp add: r1_def new_def [symmetric] old_def [symmetric])
  next
    case False
    then have "model_at r1 i = model_at r i" using at1 by (auto simp: r1_def)
    moreover have "replicate_mset ?k ?q = replicate_mset ?k oldProvider" using False none(1) by auto
    ultimately show ?thesis using assms(3) by (subst (asm) split) (simp add: add.assoc)
  qed
  have 3: "counts (model_at r3 i) (M + replicate_mset ?k ?q)"
  proof -
    consider "new = 0" | "new \<noteq> 0" "new < old" | "new \<noteq> 0" "old \<le> new" by linarith
    then show ?thesis
    proof cases
      case 1
      then show ?thesis
        using counts_remove_power [of r1 i M old oldProvider c now] \<open>counts (model_at r1 i) _\<close> at2 at3 none
        by (auto simp: new_def [symmetric] old_def [symmetric])
    next
      case 2
      then show ?thesis
        using counts_remove_power [of r2 i "M + replicate_mset ?k ?q" "old - new" oldProvider c now] 1 at2 at3 none
        by (auto simp: new_def [symmetric] old_def [symmetric] ac_simps)
    next
      case 3
      then show ?thesis using 1 at2 at3 by (auto simp: new_def [symmetric] old_def [symmetric])
    qed
  qed
  have 4: "counts (model_at r4 i) ((M + replicate_mset (new - old) provider) + replicate_mset ?k ?q)"
    using counts_add_power [OF 3, where p = provider and m = "new_model ms i" and now = now and n = "new - old"] 3 at4 none(1) assms(4)
    by (auto simp: new_def [symmetric] old_def [symmetric] ac_simps)
  have "counts (model_at (fold ?ref (uniq ?raw) r4) i) ((M + replicate_mset (new - old) provider) + replicate_mset ?k provider)"
    using counts_refresh [OF 4, where ch = ?ch and p = provider and m = "new_model ms i" and now = now] 4 at5 none(1)
    by (auto simp: new_def [symmetric] old_def [symmetric])
  moreover have "(M + replicate_mset (new - old) provider) + replicate_mset ?k provider = M + replicate_mset new provider"
    by (simp add: multiset_eq_iff)
  moreover have "reconcile c oldProvider provider oldModels ms now r = fold ?ref (uniq ?raw) r4"
    unfolding r4_def r3_def r2_def r1_def reconcile_def Let_def ..
  ultimately show ?thesis by simp
qed


lemma fold_local_count:
  assumes "\<And>i. local_at i (f i)"
  shows "model_at (fold f xs r) j = model_at ((f j ^^ count_list xs j) r) j"
proof (induction xs arbitrary: r)
  case (Cons x xs)
  have "local_at j (f j ^^ n)" for n by (rule local_power [OF assms])
  then have "model_at ((f j ^^ n) (f x r)) j = model_at ((f j ^^ n) r) j" if "x \<noteq> j" for n
    by (rule local_atD(4)) (rule local_atD(3) [OF assms that [symmetric]])
  note other = this
  show ?case
  proof (cases "x = j")
    case True
    then have "model_at (fold f (x # xs) r) j = model_at ((f j ^^ count_list xs j) (f j r)) j" by (simp add: Cons.IH)
    then show ?thesis using True by (simp add: funpow_swap1)
  next
    case False
    then show ?thesis using other [OF False] by (simp add: Cons.IH)
  qed
qed simp

lemma unregister_model_eq:
  "pr \<noteq> Some '''' \<Longrightarrow>
   unregister_model c pr now i = removeModelRegistration c i (case pr of None \<Rightarrow> '''' | Some p \<Rightarrow> p) now"
proof
  fix r
  assume pr: "pr \<noteq> Some ''''"
  show "unregister_model c pr now i r = removeModelRegistration c i (case pr of None \<Rightarrow> '''' | Some p \<Rightarrow> p) now r"
  proof (cases "model_at r i")
    case (Some g)
    show ?thesis
    proof (cases "rgCount g \<le> 1")
      case True
      then show ?thesis
        using Some pr by (simp add: unregister_model_def removeModelRegistration_def Let_def split: option.split)
    next
      case False
      then have "max 0 (rgCount g - 1) = rgCount g - 1" by simp
      then show ?thesis
        using Some pr by (simp only: unregister_model_def removeModelRegistration_def Let_def) (simp split: option.split)
    qed
  qed (simp add: unregister_model_def removeModelRegistration_def)
qed

section \<open>Clients and references\<close>

definition other_refs :: "string \<Rightarrow> registry \<Rightarrow> string \<Rightarrow> string multiset" where
  "other_refs c r i =
     (\<Sum>(d, ids) \<leftarrow> map_del c (ryClientModels r). replicate_mset (count_list ids i) (map_get '''' (ryClientProviders r) d))"

abbreviation own_refs :: "string \<Rightarrow> registry \<Rightarrow> string \<Rightarrow> string multiset" where
  "own_refs c r i \<equiv> replicate_mset (count_list (map_get [] (ryClientModels r) c) i) (map_get '''' (ryClientProviders r) c)"

lemma sum_list_map_del:
  fixes f :: "'k \<times> 'v list \<Rightarrow> 'm :: comm_monoid_add"
  assumes "map_wf m" "\<And>k. f (k, []) = 0"
  shows "(\<Sum>e \<leftarrow> m. f e) = (\<Sum>e \<leftarrow> map_del k m. f e) + f (k, map_get [] m k)"
  using assms(1)
proof (induction m)
  case (Cons e m)
  show ?case
  proof (cases "fst e = k")
    case True
    then have "k \<notin> fst ` set m" using Cons.prems by simp
    then have "map_get [] m k = []" by (simp add: map_get_def map_of_eq_None_iff [THEN iffD2])
    moreover have "map_del k m = m" using \<open>k \<notin> fst ` set m\<close> by (force simp: map_del_def filter_id_conv)
    ultimately show ?thesis using True by (cases e) (simp add: map_del_def map_get_def add.commute)
  next
    case False
    then show ?thesis using Cons by (cases e) (simp add: map_del_def map_get_def add.assoc)
  qed
qed (use assms(2) in \<open>simp add: map_del_def map_get_def\<close>)

lemma refs_split: "map_wf (ryClientModels r) \<Longrightarrow> refs r i = other_refs c r i + own_refs c r i"
  unfolding refs_def other_refs_def by (subst sum_list_map_del [where k = c]) simp_all

lemma map_del_put [simp]: "map_del k (map_put k v m) = map_del k m" "map_del k (map_del k m) = map_del k m"
  by (induction k v m rule: map_put.induct) (auto simp: map_del_def)

lemma other_refs_cong:
  assumes "map_del c (ryClientModels r) = map_del c (ryClientModels s)"
    "\<And>d. d \<noteq> c \<Longrightarrow> map_of (ryClientProviders r) d = map_of (ryClientProviders s) d"
  shows "other_refs c r i = other_refs c s i"
  unfolding other_refs_def assms(1)
  by (intro arg_cong [where f = sum_list] map_cong refl) (auto simp: map_del_def map_get_def assms(2))

definition registry_wf :: "registry \<Rightarrow> bool" where
  "registry_wf r \<longleftrightarrow>
     map_wf (ryModels r) \<and> map_wf (ryClientModels r) \<and> (\<forall>i. counts (model_at r i) (refs r i)) \<and>
     (\<forall>c. map_of (ryClientProviders r) c \<noteq> Some '''')"

lemma counts_of: "registry_wf r \<Longrightarrow> counts (model_at r i) (other_refs c r i + own_refs c r i)"
  using refs_split by (auto simp: registry_wf_def)

lemma unregister_counts:
  assumes "registry_wf r" "map_of (ryClientModels r) c = Some ids"
  shows "counts (model_at (fold (unregister_model c (map_of (ryClientProviders r) c) now) ids r) i) (other_refs c r i)"
proof -
  let ?p = "map_get '''' (ryClientProviders r) c"
  have p: "map_of (ryClientProviders r) c \<noteq> Some ''''" using assms(1) by (simp add: registry_wf_def)
  then have "unregister_model c (map_of (ryClientProviders r) c) now = (\<lambda>i. removeModelRegistration c i ?p now)"
    by (intro ext) (simp add: unregister_model_eq map_get_def)
  then have "model_at (fold (unregister_model c (map_of (ryClientProviders r) c) now) ids r) i =
      model_at ((removeModelRegistration c i ?p now ^^ count_list ids i) r) i"
    using fold_local_count [where f = "\<lambda>i. removeModelRegistration c i ?p now", OF local_remove] by simp
  then show ?thesis
    using counts_remove_power counts_of [OF assms(1), of i c] assms(2) by (simp add: map_get_def)
qed

lemma unregister_clients:
  assumes "map_of (ryClientProviders r) c \<noteq> Some ''''"
  shows "clients_of (fold (unregister_model c (map_of (ryClientProviders r) c) now) ids s) = clients_of s \<and>
    (map_wf (ryModels s) \<longrightarrow> map_wf (ryModels (fold (unregister_model c (map_of (ryClientProviders r) c) now) ids s)))"
proof -
  have "local_at i (unregister_model c (map_of (ryClientProviders r) c) now i)" for i
    by (simp only: unregister_model_eq [OF assms] local_remove)
  then show ?thesis by (simp add: fold_local_clients fold_local_wf)
qed


section \<open>Every operation keeps the counters right\<close>

lemma registry_wfI:
  assumes "map_wf (ryModels s)" "map_wf (ryClientModels s)" "\<And>d. map_of (ryClientProviders s) d \<noteq> Some ''''"
    "\<And>i. other_refs c s i = other_refs c r i" "\<And>i. counts (model_at s i) (other_refs c r i + own_refs c s i)"
  shows "registry_wf s"
  using assms refs_split [OF assms(2), of _ c] by (simp add: registry_wf_def)

lemma unregisterClientInternal_clients:
  assumes "registry_wf r"
  shows "ryClientModels (unregisterClientInternal c now r) = map_del c (ryClientModels r)"
    "ryClientInfos (unregisterClientInternal c now r) =
       (if map_of (ryClientModels r) c = None then ryClientInfos r else map_del c (ryClientInfos r))"
    "ryClientProviders (unregisterClientInternal c now r) = map_del c (ryClientProviders r)"
proof -
  have "map_of (ryClientProviders r) c \<noteq> Some ''''" using assms by (simp add: registry_wf_def)
  from unregister_clients [OF this, of now _ r]
  have f: "ryClientModels (fold (unregister_model c (map_of (ryClientProviders r) c) now) ids r) = ryClientModels r"
    "ryClientInfos (fold (unregister_model c (map_of (ryClientProviders r) c) now) ids r) = ryClientInfos r"
    "ryClientProviders (fold (unregister_model c (map_of (ryClientProviders r) c) now) ids r) = ryClientProviders r" for ids
    by (simp_all add: clients_of_def)
  have absent: "map_del c (ryClientModels r) = ryClientModels r" if "map_of (ryClientModels r) c = None"
    using that by (force simp: map_del_def filter_id_conv map_of_eq_None_iff)
  show "ryClientModels (unregisterClientInternal c now r) = map_del c (ryClientModels r)"
    "ryClientInfos (unregisterClientInternal c now r) =
       (if map_of (ryClientModels r) c = None then ryClientInfos r else map_del c (ryClientInfos r))"
    "ryClientProviders (unregisterClientInternal c now r) = map_del c (ryClientProviders r)"
    using f absent by (simp_all add: unregisterClientInternal_def Let_def split: option.split)
qed

lemma unregisterClientInternal_wf:
  assumes "registry_wf r"
  shows "registry_wf (unregisterClientInternal c now r)"
proof (rule registry_wfI [where c = c and r = r])
  let ?s = "unregisterClientInternal c now r"
  note cl = unregisterClientInternal_clients [OF assms, of c now]
  have ne: "map_of (ryClientProviders r) c \<noteq> Some ''''" using assms by (simp add: registry_wf_def)
  show "map_wf (ryClientModels ?s)" using assms by (auto simp: cl registry_wf_def)
  show "map_of (ryClientProviders ?s) d \<noteq> Some ''''" for d using assms by (simp add: cl registry_wf_def)
  show "other_refs c ?s i = other_refs c r i" for i by (rule other_refs_cong) (simp_all add: cl)
  show "map_wf (ryModels ?s)"
    using unregister_clients [OF ne, of now _ r] assms
    by (auto simp: unregisterClientInternal_def Let_def registry_wf_def split: option.split)
  have "model_at ?s i = (case map_of (ryClientModels r) c of None \<Rightarrow> model_at r i
      | Some ids \<Rightarrow> model_at (fold (unregister_model c (map_of (ryClientProviders r) c) now) ids r) i)" for i
    by (simp add: unregisterClientInternal_def Let_def split: option.split)
  then show "counts (model_at ?s i) (other_refs c r i + own_refs c ?s i)" for i
    using unregister_counts [OF assms] counts_of [OF assms, of i c]
    by (auto simp: cl map_get_def split: option.split)
qed

lemma named_models_named: "i \<in> set (map miID (named_models models)) \<Longrightarrow> i \<noteq> ''''"
  by (auto simp: named_models_def List.map_filter_def split: option.splits if_splits)

lemma reconcile_frame:
  "clients_of (reconcile c q p ids ms now r) = clients_of r \<and>
   (map_wf (ryModels r) \<longrightarrow> map_wf (ryModels (reconcile c q p ids ms now r)))"
  by (simp add: reconcile_def Let_def fold_local_clients fold_local_wf local_ops)

text \<open>The registry before the client is booked: the references of the new registration in place of the old ones.\<close>

definition replaced :: "string \<Rightarrow> string \<Rightarrow> model_info list \<Rightarrow> gotime \<Rightarrow> registry \<Rightarrow> registry" where
  "replaced c provider ms now r =
     (case map_of (ryClientModels r) c of
        None \<Rightarrow> fold (\<lambda>i. addModelRegistration i provider (new_model ms i) now) (map miID ms) r
      | Some ids \<Rightarrow> reconcile c (map_get '''' (ryClientProviders r) c) provider ids ms now r)"

lemma replaced_frame:
  "clients_of (replaced c p ms now r) = clients_of r \<and> (map_wf (ryModels r) \<longrightarrow> map_wf (ryModels (replaced c p ms now r)))"
  using reconcile_frame by (simp add: replaced_def fold_local_clients fold_local_wf local_ops split: option.split)

lemma replaced_counts:
  assumes "registry_wf r" "\<And>i. i \<in> set (map miID ms) \<Longrightarrow> i \<noteq> ''''"
  shows "counts (model_at (replaced c p ms now r) i) (other_refs c r i + replicate_mset (count_list (map miID ms) i) p)"
proof (cases "map_of (ryClientModels r) c")
  case None
  let ?add = "\<lambda>i. addModelRegistration i p (new_model ms i) now"
  have "counts (model_at r i) (other_refs c r i)" using counts_of [OF assms(1), of i c] None by (simp add: map_get_def)
  then have "counts (model_at ((?add i ^^ count_list (map miID ms) i) r) i)
      (other_refs c r i + replicate_mset (count_list (map miID ms) i) p)"
    using counts_add_power assms(2) by (cases "i \<in> set (map miID ms)") (auto simp: count_list_0_iff)
  moreover have "model_at (fold ?add (map miID ms) r) i = model_at ((?add i ^^ count_list (map miID ms) i) r) i"
    by (rule fold_local_count [where f = ?add, OF local_add])
  ultimately show ?thesis using None by (simp add: replaced_def)
next
  case (Some ids)
  then show ?thesis
    using reconcile_counts [OF _ assms(2)] counts_of [OF assms(1), of i c] by (simp add: replaced_def map_get_def)
qed

lemma RegisterClient_wf:
  assumes "registry_wf r"
  shows "registry_wf (RegisterClient c clientProvider models now r)"
proof (cases "named_models models = []")
  case True
  let ?u = "unregisterClientInternal c now r"
  have "registry_wf ?u" by (rule unregisterClientInternal_wf [OF assms])
  then show ?thesis
    using True assms unregisterClientInternal_clients [OF assms, of c now]
    by (simp add: RegisterClient_def Let_def registry_wf_def refs_def)
next
  case False
  let ?p = "to_lower clientProvider" and ?ms = "named_models models"
  let ?q = "replaced c ?p ?ms now r" and ?s = "RegisterClient c clientProvider models now r"
  have s: "?s = book_client c ?p ?ms ?q" using False by (simp add: RegisterClient_def Let_def replaced_def)
  have cl: "ryClientModels ?q = ryClientModels r" "ryClientProviders ?q = ryClientProviders r"
    using replaced_frame [of c ?p ?ms now r] by (simp_all add: clients_of_def)
  show ?thesis
  proof (rule registry_wfI [where c = c and r = r])
    show "map_wf (ryModels ?s)" using replaced_frame [of c ?p ?ms now r] assms by (simp add: s book_client_def registry_wf_def)
    show "map_wf (ryClientModels ?s)" using assms by (auto simp: s book_client_def cl registry_wf_def)
    have provs: "ryClientProviders ?s = (if ?p \<noteq> '''' then map_put c ?p (ryClientProviders r) else map_del c (ryClientProviders r))"
      unfolding s cl(2) [symmetric] by (simp add: book_client_def)
    show "map_of (ryClientProviders ?s) d \<noteq> Some ''''" for d using assms by (simp add: provs registry_wf_def)
    show "other_refs c ?s i = other_refs c r i" for i
      by (rule other_refs_cong) (simp_all add: provs, simp add: s book_client_def cl)
    have "own_refs c ?s i = replicate_mset (count_list (map miID ?ms) i) ?p" for i by (simp add: s book_client_def map_get_def)
    then show "counts (model_at ?s i) (other_refs c r i + own_refs c ?s i)" for i
      using replaced_counts [OF assms named_models_named] by (simp add: s book_client_def)
  qed
qed


section \<open>Marks keep the counters\<close>

lemma at_model_wf:
  assumes "registry_wf r" "\<And>g. rgCount (f g) = rgCount g \<and> rgProviders (f g) = rgProviders g"
  shows "registry_wf (at_model i f r)"
proof -
  have "clients_of (at_model i f r) = clients_of r" "map_wf (ryModels (at_model i f r))"
    using local_atD(1,2) [OF local_at_model] assms(1) by (auto simp: registry_wf_def)
  moreover have "counts (model_at (at_model i f r) j) M = counts (model_at r j) M" for j M
    using assms(2) by (simp add: at_model_def counts_def split: option.split)
  ultimately show ?thesis using assms(1) by (simp add: registry_wf_def clients_of_def refs_def)
qed

lemma marks_wf:
  assumes "registry_wf r"
  shows "registry_wf (registry_SetModelQuotaExceeded c i now r)" "registry_wf (registry_ClearModelQuotaExceeded c i r)"
    "registry_wf (registry_SuspendClientModel c i reason now r)" "registry_wf (registry_ResumeClientModel c i now r)"
  using assms
  by (simp_all add: registry_SetModelQuotaExceeded_def registry_ClearModelQuotaExceeded_def registry_SuspendClientModel_def
      registry_ResumeClientModel_def at_model_wf)

lemma map_of_map_values: "map_of (map (\<lambda>(k, v). (k, f v)) m) k = map_option f (map_of m k)"
  by (induction m) auto

lemma CleanupExpiredQuotas_wf: "registry_wf r \<Longrightarrow> registry_wf (CleanupExpiredQuotas now r)"
proof -
  assume wf: "registry_wf r"
  have "fst \<circ> (\<lambda>(i :: string, g). (i, f g)) = fst" for f :: "registration \<Rightarrow> registration"
    by (auto simp: fun_eq_iff)
  moreover have "counts (map_option (\<lambda>g. g\<lparr>rgQuotaExceeded := q g\<rparr>) x) M = counts x M" for q x M
    by (simp add: counts_def split: option.split)
  ultimately show ?thesis
    using wf by (simp add: registry_wf_def CleanupExpiredQuotas_def map_of_map_values refs_def)
qed

section \<open>Histories of the registry\<close>

text \<open>Every method that changes the registry holds its lock throughout, so a history is a sequence of whole calls.\<close>

inductive rstep :: "registry \<Rightarrow> registry \<Rightarrow> bool" where
  register: "rstep r (RegisterClient c p models now r)"
| unregister: "rstep r (UnregisterClient c now r)"
| exceeded: "rstep r (registry_SetModelQuotaExceeded c i now r)"
| cleared: "rstep r (registry_ClearModelQuotaExceeded c i r)"
| suspend: "rstep r (registry_SuspendClientModel c i reason now r)"
| resume: "rstep r (registry_ResumeClientModel c i now r)"
| cleanup: "rstep r (CleanupExpiredQuotas now r)"

lemma newRegistry_wf: "registry_wf newRegistry"
  by (simp add: registry_wf_def newRegistry_def refs_def counts_def)

lemma rstep_wf: "rstep r s \<Longrightarrow> registry_wf r \<Longrightarrow> registry_wf s"
  by (induction rule: rstep.induct)
    (simp_all add: RegisterClient_wf UnregisterClient_def unregisterClientInternal_wf marks_wf CleanupExpiredQuotas_wf)

interpretation reg: invariant_system "\<lambda>r. r = newRegistry" rstep registry_wf
  by unfold_locales (auto intro: newRegistry_wf rstep_wf)

lemma refs_sizes:
  "int (size (refs r i)) = (\<Sum>(c, ids) \<leftarrow> ryClientModels r. int (count_list ids i))"
  "int (count (refs r i) p) =
     (\<Sum>(c, ids) \<leftarrow> ryClientModels r. if map_get '''' (ryClientProviders r) c = p then int (count_list ids i) else 0)"
proof -
  have "int (size (\<Sum>(c, ids) \<leftarrow> m. replicate_mset (count_list ids i) (f c))) = (\<Sum>(c, ids) \<leftarrow> m. int (count_list ids i))"
    for m :: "(string, string list) gomap" and f :: "string \<Rightarrow> string"
    by (induction m) auto
  then show "int (size (refs r i)) = (\<Sum>(c, ids) \<leftarrow> ryClientModels r. int (count_list ids i))" by (simp add: refs_def)
  have "int (count (\<Sum>(c, ids) \<leftarrow> m. replicate_mset (count_list ids i) (f c)) p) =
      (\<Sum>(c, ids) \<leftarrow> m. if f c = p then int (count_list ids i) else 0)"
    for m :: "(string, string list) gomap" and f :: "string \<Rightarrow> string"
    by (induction m) auto
  then show "int (count (refs r i) p) =
     (\<Sum>(c, ids) \<leftarrow> ryClientModels r. if map_get '''' (ryClientProviders r) c = p then int (count_list ids i) else 0)"
    by (simp add: refs_def)
qed

lemma refs_mem:
  "p \<in># refs r i \<longleftrightarrow>
     (\<exists>c ids. (c, ids) \<in> set (ryClientModels r) \<and> i \<in> set ids \<and> map_get '''' (ryClientProviders r) c = p)"
proof -
  have "p \<in># (\<Sum>(c, ids) \<leftarrow> m. replicate_mset (count_list ids i) (f c)) \<longleftrightarrow> (\<exists>c ids. (c, ids) \<in> set m \<and> i \<in> set ids \<and> f c = p)"
    for m :: "(string, string list) gomap" and f :: "string \<Rightarrow> string"
  proof (induction m)
    case (Cons e m)
    have "i \<in> set ids \<longleftrightarrow> count_list ids i \<noteq> 0" for ids by (simp add: count_list_0_iff)
    then show ?case using Cons by (cases e) (auto simp: in_replicate_mset)
  qed simp
  then show ?thesis by (simp add: refs_def)
qed

lemma refs_empty: "refs r i = {#} \<longleftrightarrow> (\<forall>(c, ids) \<in> set (ryClientModels r). i \<notin> set ids)"
  by (simp add: multiset_eq_iff count_eq_zero_iff refs_mem) blast

text \<open>
  C7: whatever sequence of registrations, re-registrations, removals and marks the registry has gone through, a model
  is present in it exactly when some client currently lists it. Its counter is the number of current registrations, over all clients,
  and the counter of a named provider is the number held by the clients of that provider; a provider without
  any is absent. No registration is lost and none outlives its client.
\<close>

theorem registry_counts_exact:
  assumes "rstep\<^sup>*\<^sup>* newRegistry r"
  shows "(map_of (ryModels r) i \<noteq> None \<longleftrightarrow> (\<exists>c ids. (c, ids) \<in> set (ryClientModels r) \<and> i \<in> set ids)) \<and>
    (\<forall>g. map_of (ryModels r) i = Some g \<longrightarrow>
       rgCount g = (\<Sum>(c, ids) \<leftarrow> ryClientModels r. int (count_list ids i)) \<and>
       (\<forall>p. map_of (rgProviders g) p =
          (let n = (\<Sum>(c, ids) \<leftarrow> ryClientModels r.
                      if map_get '''' (ryClientProviders r) c = p then int (count_list ids i) else 0)
           in if p \<noteq> '''' \<and> 0 < n then Some n else None)))"
proof -
  have "registry_wf r" using assms by (rule reg.inv_reachable [OF refl])
  then have c: "counts (model_at r i) (refs r i)" by (simp add: registry_wf_def)
  have "model_at r i \<noteq> None \<longleftrightarrow> refs r i \<noteq> {#}" using c by (auto simp: counts_def split: option.splits)
  moreover have "rgCount g = int (size (refs r i)) \<and> (\<forall>p. map_of (rgProviders g) p =
      (let n = int (count (refs r i) p) in if p \<noteq> '''' \<and> 0 < n then Some n else None))" if "model_at r i = Some g" for g
    using countsD(2,4) [OF c [unfolded that]] by (simp add: Let_def)
  moreover have "refs r i \<noteq> {#} \<longleftrightarrow> (\<exists>c ids. (c, ids) \<in> set (ryClientModels r) \<and> i \<in> set ids)"
    unfolding refs_empty by blast
  ultimately show ?thesis unfolding refs_sizes by simp
qed

definition plain_model :: "string \<Rightarrow> model_info" where
  "plain_model i = \<lparr>miID = i, miObject = ''model'', miCreated = 1, miOwnedBy = ''o'', miType = '''', miDisplayName = '''',
     miUpstreamModelID = '''', miName = '''', miVersion = '''', miDescription = '''', miInputTokenLimit = 0, miOutputTokenLimit = 0,
     miSupportedGenerationMethods = [], miContextLength = 0, miMaxCompletionTokens = 0, miSupportedParameters = [],
     miThinking = None, miUserDefined = False\<rparr>"

text \<open>Two clients; the first one registers again under another provider and drops a model.\<close>

definition sample_registry :: registry where
  "sample_registry =
     RegisterClient ''c1'' ''Gemini'' [Some (plain_model ''m'')] 3
       (RegisterClient ''c2'' ''codex'' [Some (plain_model ''m''), None] 2
         (RegisterClient ''c1'' ''codex'' [Some (plain_model ''m''), Some (plain_model ''n'')] 1 newRegistry))"

lemma sample_registry_reachable: "rstep\<^sup>*\<^sup>* newRegistry sample_registry"
  unfolding sample_registry_def
  by (rule rtranclp.rtrancl_into_rtrancl, rule rtranclp.rtrancl_into_rtrancl, rule rtranclp.rtrancl_into_rtrancl,
      rule rtranclp.rtrancl_refl) (rule rstep.register)+

lemma sample_registry_clients:
  "ryClientModels sample_registry = [(''c1'', [''m'']), (''c2'', [''m''])]"
  "ryClientProviders sample_registry = [(''c1'', ''gemini''), (''c2'', ''codex'')]"
  by code_simp+

theorem registry_counts_exact_witness:
  "map_option rgCount (map_of (ryModels sample_registry) ''m'') = Some 2 \<and> map_of (ryModels sample_registry) ''n'' = None \<and>
   map_option (\<lambda>g. map_of (rgProviders g) ''codex'') (map_of (ryModels sample_registry) ''m'') = Some (Some 1)"
proof -
  note m = registry_counts_exact [OF sample_registry_reachable, of "''m''", unfolded sample_registry_clients]
  note n = registry_counts_exact [OF sample_registry_reachable, of "''n''", unfolded sample_registry_clients]
  have "\<exists>c ids. (c, ids) \<in> set [(''c1'', [''m'']), (''c2'', [''m''])] \<and> ''m'' \<in> set ids"
    by (intro exI [of _ "''c1''"] exI [of _ "[''m'']"]) simp
  with m obtain g where "map_of (ryModels sample_registry) ''m'' = Some g" by blast
  then show ?thesis using m n by (auto simp: map_get_def Let_def)
qed

section \<open>Re-registration\<close>

abbreviation tally :: "registry \<Rightarrow> string \<Rightarrow> (int \<times> (string \<rightharpoonup> int)) option" where
  "tally r i \<equiv> map_option (\<lambda>g. (rgCount g, map_of (rgProviders g))) (model_at r i)"

lemma counts_tally: "counts g M \<Longrightarrow> counts h M \<Longrightarrow>
    map_option (\<lambda>g. (rgCount g, map_of (rgProviders g))) g = map_option (\<lambda>g. (rgCount g, map_of (rgProviders g))) h"
  by (auto simp: counts_def split: option.splits)

lemma RegisterClient_clients:
  fixes c p now
  assumes "registry_wf r" and new: "named_models models \<noteq> []"
  defines "s \<equiv> RegisterClient c p models now r"
  shows "ryClientModels s = map_put c (map miID (named_models models)) (ryClientModels r)"
    "ryClientInfos s = map_put c (client_infos (named_models models)) (ryClientInfos r)"
    "ryClientProviders s =
       (if to_lower p \<noteq> '''' then map_put c (to_lower p) (ryClientProviders r) else map_del c (ryClientProviders r))"
proof -
  define q where "q = replaced c (to_lower p) (named_models models) now r"
  have s: "s = book_client c (to_lower p) (named_models models) q"
    using new by (simp add: s_def RegisterClient_def Let_def replaced_def q_def)
  have q: "ryClientModels q = ryClientModels r" "ryClientInfos q = ryClientInfos r" "ryClientProviders q = ryClientProviders r"
    using replaced_frame [of c "to_lower p" "named_models models" now r] by (simp_all add: q_def [symmetric] clients_of_def)
  show "ryClientModels s = map_put c (map miID (named_models models)) (ryClientModels r)"
    "ryClientInfos s = map_put c (client_infos (named_models models)) (ryClientInfos r)"
    "ryClientProviders s =
       (if to_lower p \<noteq> '''' then map_put c (to_lower p) (ryClientProviders r) else map_del c (ryClientProviders r))"
    by (simp_all add: s book_client_def q)
qed

text \<open>
  C8: a client that registers again, whatever it had registered before and under whichever provider, ends with
  the same counters as if it had been removed and registered anew: the incremental reconciliation of \<^verbatim>\<open>RegisterClient\<close>
  agrees with removal followed by registration on the presence and the count of every model, on every
  provider's count, and on what is stored about the clients.
\<close>

theorem reregistration_as_fresh:
  fixes c p now
  assumes "rstep\<^sup>*\<^sup>* newRegistry r" "named_models models \<noteq> []"
  defines "a \<equiv> RegisterClient c p models now r" and "b \<equiv> RegisterClient c p models now (UnregisterClient c now r)"
  shows "(\<forall>i. map_option (\<lambda>g. (rgCount g, map_of (rgProviders g))) (map_of (ryModels a) i) =
              map_option (\<lambda>g. (rgCount g, map_of (rgProviders g))) (map_of (ryModels b) i)) \<and>
    map_of (ryClientModels a) = map_of (ryClientModels b) \<and> map_of (ryClientInfos a) = map_of (ryClientInfos b) \<and>
    map_of (ryClientProviders a) = map_of (ryClientProviders b)"
proof -
  have wf: "registry_wf r" using assms(1) by (rule reg.inv_reachable [OF refl])
  let ?u = "unregisterClientInternal c now r"
  have wfu: "registry_wf ?u" by (rule unregisterClientInternal_wf [OF wf])
  note u = unregisterClientInternal_clients [OF wf, of c now]
  note ca = RegisterClient_clients [OF wf assms(2), of c p now, folded a_def]
  have b: "b = RegisterClient c p models now ?u" by (simp add: b_def UnregisterClient_def)
  note cb = RegisterClient_clients [OF wfu assms(2), of c p now, folded b, unfolded u]
  have "map_del c (ryClientModels a) = map_del c (ryClientModels b)" unfolding ca cb by simp
  moreover have provs: "map_of (ryClientProviders a) = map_of (ryClientProviders b)" unfolding ca cb by simp
  ultimately have other: "other_refs c a i = other_refs c b i" for i by (intro other_refs_cong) simp_all
  have models: "map_of (ryClientModels a) = map_of (ryClientModels b)" unfolding ca cb by simp
  have "own_refs c a i = own_refs c b i" for i using models provs by (simp add: map_get_def)
  moreover have "registry_wf a" "registry_wf b" using RegisterClient_wf wf wfu by (simp_all add: a_def b)
  ultimately have "tally a i = tally b i" for i
    using counts_of [of a i c] counts_of [of b i c] other by (intro counts_tally) simp_all
  moreover have "map_of (ryClientInfos a) = map_of (ryClientInfos b)" unfolding ca cb by simp
  ultimately show ?thesis using models provs by blast
qed

theorem reregistration_as_fresh_witness:
  "map_option rgCount (map_of (ryModels (RegisterClient ''c2'' ''Claude'' [Some (plain_model ''n'')] 4 sample_registry)) ''m'') =
   map_option rgCount (map_of (ryModels (RegisterClient ''c2'' ''Claude'' [Some (plain_model ''n'')] 4
     (UnregisterClient ''c2'' 4 sample_registry))) ''m'')"
proof -
  have "named_models [Some (plain_model ''n'')] \<noteq> []" by code_simp
  from reregistration_as_fresh [OF sample_registry_reachable this, of "''c2''" "''Claude''" 4]
  have "map_option fst (tally (RegisterClient ''c2'' ''Claude'' [Some (plain_model ''n'')] 4 sample_registry) ''m'') =
    map_option fst (tally (RegisterClient ''c2'' ''Claude'' [Some (plain_model ''n'')] 4
     (UnregisterClient ''c2'' 4 sample_registry)) ''m'')" by simp
  then show ?thesis by (simp add: option.map_comp o_def)
qed

end
