(* ===== verification/Registry_Queries.thy ===== *)
theory Registry_Queries
  imports Model_Registry "HOL-Library.Char_ord" "HOL-Library.List_Lexorder" "HOL-Library.Product_Lexorder"
begin

text \<open>
  What the registry answers: \<^verbatim>\<open>src/internal/registry/model_registry_queries.go\<close> and \<^verbatim>\<open>ClientSupportsModel\<close>. The lists
  that the code collects by ranging over a map come in the order of the association list; the properties do
  not depend on it. \<^verbatim>\<open>now\<close> is the reading of the clock.
\<close>

section \<open>Queries about a client\<close>

definition ClientSupportsModel :: "registry \<Rightarrow> string \<Rightarrow> string \<Rightarrow> bool" where
  "ClientSupportsModel r clientID modelID =
     (let clientID = trim_space clientID; modelID = trim_space modelID
      in if clientID = '''' \<or> modelID = '''' then False
         else case map_of (ryClientModels r) clientID of
                None \<Rightarrow> False
              | Some models \<Rightarrow> list_ex (\<lambda>i. equal_fold (trim_space i) modelID) models)"

definition GetModelsForClient :: "registry \<Rightarrow> string \<Rightarrow> model_info list" where
  "GetModelsForClient r clientID =
     (case map_of (ryClientModels r) clientID of
        None \<Rightarrow> []
      | Some modelIDs \<Rightarrow>
          List.map_filter (\<lambda>i. case map_of (map_get [] (ryClientInfos r) clientID) i of
              Some info \<Rightarrow> Some info
            | None \<Rightarrow> map_option rgInfo (map_of (ryModels r) i)) (uniq modelIDs))"

section \<open>Queries about a model\<close>

definition fresh_quota :: "gotime \<Rightarrow> gotime \<Rightarrow> bool" where
  "fresh_quota now t \<longleftrightarrow> time_sub now t < quotaExpiredDuration"

definition GetModelCount :: "registry \<Rightarrow> gotime \<Rightarrow> string \<Rightarrow> int" where
  "GetModelCount r now modelID =
     (case map_of (ryModels r) modelID of
        None \<Rightarrow> 0
      | Some g \<Rightarrow>
          let expiredClients = int (length (filter (\<lambda>(_, t). fresh_quota now t) (rgQuotaExceeded g)));
              suspendedClients = int (length (rgSuspended g));
              result = rgCount g - expiredClients - suspendedClients
          in if result < 0 then 0 else result)"

definition GetModelProviders :: "registry \<Rightarrow> string \<Rightarrow> string list" where
  "GetModelProviders r modelID =
     (case map_of (ryModels r) modelID of
        None \<Rightarrow> []
      | Some g \<Rightarrow> map fst (sort_key (\<lambda>(name, n). (- n, name)) (filter (\<lambda>(_, n). \<not> n \<le> 0) (rgProviders g))))"

definition GetModelInfo :: "registry \<Rightarrow> string \<Rightarrow> string \<Rightarrow> model_info option" where
  "GetModelInfo r modelID provider =
     (case map_of (ryModels r) modelID of
        None \<Rightarrow> None
      | Some g \<Rightarrow>
          Some (if provider \<noteq> '''' \<and> (case map_of (rgProviders g) provider of Some n \<Rightarrow> 0 < n | None \<Rightarrow> False)
                then case map_of (rgInfoByProvider g) provider of Some info \<Rightarrow> info | None \<Rightarrow> rgInfo g
                else rgInfo g))"

record model_client_source =
  csClientID :: string
  csProvider :: string
  csModelID :: string
  csUpstreamModelID :: string

definition client_sources :: "registry \<Rightarrow> string \<Rightarrow> string \<times> string list \<Rightarrow> model_client_source list" where
  "client_sources r target = (\<lambda>(clientID, modelIDs).
     if trim_space clientID = '''' then []
     else List.map_filter (\<lambda>i.
       let registeredID = trim_space i
       in if registeredID = '''' \<or> to_lower registeredID \<noteq> target then None
          else Some \<lparr>csClientID = clientID, csProvider = map_get '''' (ryClientProviders r) clientID, csModelID = registeredID,
                 csUpstreamModelID = (case map_of (map_get [] (ryClientInfos r) clientID) registeredID of
                    Some info \<Rightarrow> trim_space (miUpstreamModelID info) | None \<Rightarrow> '''')\<rparr>) modelIDs)"

definition GetModelClientSources :: "registry \<Rightarrow> string \<Rightarrow> model_client_source list" where
  "GetModelClientSources r modelID =
     (if trim_space modelID = '''' then []
      else sort_key (\<lambda>s. (csProvider s, csClientID s))
             (uniq (concat (map (client_sources r (to_lower (trim_space modelID))) (ryClientModels r)))))"

section \<open>Listings\<close>

text \<open>The test that both listings apply to a model with the given numbers of clients.\<close>

definition offered :: "int \<Rightarrow> int \<Rightarrow> int \<Rightarrow> int \<Rightarrow> bool" where
  "offered availableClients expiredClients cooldownSuspended otherSuspended \<longleftrightarrow>
     (let e = availableClients - expiredClients - otherSuspended; effectiveClients = (if e < 0 then 0 else e)
      in 0 < effectiveClients \<or>
         0 < availableClients \<and> (0 < expiredClients \<or> 0 < cooldownSuspended) \<and> otherSuspended = 0)"

definition is_cooldown :: "string \<times> string \<Rightarrow> bool" where
  "is_cooldown = (\<lambda>(_, reason). equal_fold reason ''quota'')"

datatype jfield = JString string | JNumber int | JStrings "string list"

definition opt_field :: "bool \<Rightarrow> string \<Rightarrow> jfield \<Rightarrow> (string, jfield) gomap" where
  "opt_field b k v = (if b then [(k, v)] else [])"

definition convertModelToMap :: "model_info \<Rightarrow> string \<Rightarrow> (string, jfield) gomap" where
  "convertModelToMap m handlerType =
     (if handlerType = ''openai'' then
        [(''id'', JString (miID m)), (''object'', JString ''model''), (''owned_by'', JString (miOwnedBy m))] @
        opt_field (0 < miCreated m) ''created'' (JNumber (miCreated m)) @
        opt_field (miType m \<noteq> '''') ''type'' (JString (miType m)) @
        opt_field (miDisplayName m \<noteq> '''') ''display_name'' (JString (miDisplayName m)) @
        opt_field (miVersion m \<noteq> '''') ''version'' (JString (miVersion m)) @
        opt_field (miDescription m \<noteq> '''') ''description'' (JString (miDescription m)) @
        opt_field (0 < miContextLength m) ''context_length'' (JNumber (miContextLength m)) @
        opt_field (0 < miMaxCompletionTokens m) ''max_completion_tokens'' (JNumber (miMaxCompletionTokens m)) @
        opt_field (miSupportedParameters m \<noteq> []) ''supported_parameters'' (JStrings (miSupportedParameters m))
      else if handlerType = ''claude'' then
        [(''id'', JString (miID m)), (''object'', JString ''model''), (''owned_by'', JString (miOwnedBy m))] @
        opt_field (0 < miCreated m) ''created_at'' (JNumber (miCreated m)) @
        opt_field (miType m \<noteq> '''') ''type'' (JString ''model'') @
        opt_field (miDisplayName m \<noteq> '''') ''display_name'' (JString (miDisplayName m))
      else if handlerType = ''gemini'' then
        [(''name'', JString (if miName m \<noteq> '''' then miName m else miID m))] @
        opt_field (miVersion m \<noteq> '''') ''version'' (JString (miVersion m)) @
        opt_field (miDisplayName m \<noteq> '''') ''displayName'' (JString (miDisplayName m)) @
        opt_field (miDescription m \<noteq> '''') ''description'' (JString (miDescription m)) @
        opt_field (0 < miInputTokenLimit m) ''inputTokenLimit'' (JNumber (miInputTokenLimit m)) @
        opt_field (0 < miOutputTokenLimit m) ''outputTokenLimit'' (JNumber (miOutputTokenLimit m)) @
        opt_field (miSupportedGenerationMethods m \<noteq> []) ''supportedGenerationMethods''
          (JStrings (miSupportedGenerationMethods m))
      else
        [(''id'', JString (miID m)), (''object'', JString ''model'')] @
        opt_field (miOwnedBy m \<noteq> '''') ''owned_by'' (JString (miOwnedBy m)) @
        opt_field (miType m \<noteq> '''') ''type'' (JString (miType m)) @
        opt_field (miCreated m \<noteq> 0) ''created'' (JNumber (miCreated m)))"

definition model_offered :: "gotime \<Rightarrow> registration \<Rightarrow> bool" where
  "model_offered now g =
     offered (rgCount g) (int (length (filter (\<lambda>(_, t). fresh_quota now t) (rgQuotaExceeded g))))
       (int (length (filter is_cooldown (rgSuspended g)))) (int (length (filter (\<lambda>s. \<not> is_cooldown s) (rgSuspended g))))"

definition GetAvailableModels :: "registry \<Rightarrow> gotime \<Rightarrow> string \<Rightarrow> (string, jfield) gomap list" where
  "GetAvailableModels r now handlerType =
     map (\<lambda>(_, g). convertModelToMap (rgInfo g) handlerType) (filter (\<lambda>(_, g). model_offered now g) (ryModels r))"

text \<open>
  \<^verbatim>\<open>GetFirstAvailableModel\<close>: models without a creation time are incomparable to all others, so \<^verbatim>\<open>sort.Slice\<close> may
  return them in any order; \<open>arrange\<close> is the permutation it applies. The result is the first model with a client.
\<close>

definition GetFirstAvailableModel ::
  "((string, jfield) gomap list \<Rightarrow> (string, jfield) gomap list) \<Rightarrow> registry \<Rightarrow> gotime \<Rightarrow> string \<Rightarrow> string + string" where
  "GetFirstAvailableModel arrange r now handlerType =
     (let models = GetAvailableModels r now handlerType
      in if models = [] then Inl (''no models available for handler type: '' @ handlerType)
         else case List.find (\<lambda>i. 0 < GetModelCount r now i)
                     (List.map_filter (\<lambda>m. case map_of m ''id'' of Some (JString i) \<Rightarrow> Some i | _ \<Rightarrow> None) (arrange models)) of
                Some i \<Rightarrow> Inr i
              | None \<Rightarrow> Inl (''no available clients for any model in handler type: '' @ handlerType))"

type_synonym provider_model = "int \<times> model_info option"

definition count_provider_model ::
  "registry \<Rightarrow> string \<Rightarrow> string \<Rightarrow> (string, provider_model) gomap \<Rightarrow> (string, provider_model) gomap" where
  "count_provider_model r clientID i acc =
     (let modelID = trim_space i
      in if modelID = '''' then acc
         else let (n, info) = map_get (0, None) acc modelID
              in map_put modelID
                   (n + 1, case info of
                      Some x \<Rightarrow> Some x
                    | None \<Rightarrow> (case map_of (map_get [] (ryClientInfos r) clientID) modelID of
                          Some x \<Rightarrow> Some x
                        | None \<Rightarrow> map_option rgInfo (map_of (ryModels r) modelID))) acc)"

definition providerModels :: "registry \<Rightarrow> string \<Rightarrow> (string, provider_model) gomap" where
  "providerModels r provider =
     fold (\<lambda>(clientID, clientProvider) acc.
         if clientProvider \<noteq> provider then acc
         else fold (count_provider_model r clientID) (map_get [] (ryClientModels r) clientID) acc)
       (ryClientProviders r) []"

definition provider_mark :: "registry \<Rightarrow> string \<Rightarrow> (string \<times> 'v \<Rightarrow> bool) \<Rightarrow> (string, 'v) gomap \<Rightarrow> int" where
  "provider_mark r provider P marks =
     int (length (filter (\<lambda>(c, v). c \<noteq> '''' \<and> map_of (ryClientProviders r) c = Some provider \<and> P (c, v)) marks))"

definition provider_offered :: "registry \<Rightarrow> string \<Rightarrow> gotime \<Rightarrow> string \<times> provider_model \<Rightarrow> bool" where
  "provider_offered r provider now = (\<lambda>(modelID, (n, _)).
     if n \<le> 0 then False
     else case map_of (ryModels r) modelID of
            None \<Rightarrow> offered n 0 0 0
          | Some g \<Rightarrow>
              offered n (provider_mark r provider (\<lambda>(_, t). fresh_quota now t) (rgQuotaExceeded g))
                (provider_mark r provider is_cooldown (rgSuspended g))
                (provider_mark r provider (\<lambda>s. \<not> is_cooldown s) (rgSuspended g)))"

definition GetAvailableModelsByProvider :: "registry \<Rightarrow> gotime \<Rightarrow> string \<Rightarrow> model_info list" where
  "GetAvailableModelsByProvider r now provider0 =
     (let provider = to_lower (trim_space provider0)
      in if provider = '''' then []
         else List.map_filter (\<lambda>(modelID, (n, info)).
             if provider_offered r provider now (modelID, (n, info))
             then (case info of Some x \<Rightarrow> Some x | None \<Rightarrow> map_option rgInfo (map_of (ryModels r) modelID))
             else None) (providerModels r provider))"

section \<open>Providers of a model\<close>

lemma sort_key_strict:
  fixes f :: "'a \<Rightarrow> 'b :: linorder"
  assumes "inj_on f (set xs)" "distinct xs"
  shows "sorted_wrt (\<lambda>x y. f x < f y) (sort_key f xs)"
proof -
  have "distinct (map f (sort_key f xs))" using assms by (simp add: distinct_map)
  then have "sorted_wrt (<) (map f (sort_key f xs))" by (simp add: strict_sorted_iff)
  then show ?thesis by (simp add: sorted_wrt_map)
qed

lemma reachable_wf: "rstep\<^sup>*\<^sup>* newRegistry r \<Longrightarrow> registry_wf r"
  by (rule reg.inv_reachable [OF refl])

text \<open>
  The providers reported for a model are exactly those of the clients that currently list it, each once, and
  they are ranked by the number of registrations, largest first, with equal ones in the order of their
  names. In particular the order does not depend on the order in which the map is traversed.
\<close>

theorem GetModelProviders_ranked:
  fixes i
  assumes "rstep\<^sup>*\<^sup>* newRegistry r"
  defines "n \<equiv> \<lambda>p. count (refs r i) p"
  shows "set (GetModelProviders r i) =
      {p. p \<noteq> '''' \<and> (\<exists>c ids. (c, ids) \<in> set (ryClientModels r) \<and> i \<in> set ids \<and> map_of (ryClientProviders r) c = Some p)} \<and>
    distinct (GetModelProviders r i) \<and>
    sorted_wrt (\<lambda>p q. n q < n p \<or> n p = n q \<and> p < q) (GetModelProviders r i)"
proof -
  have wf: "registry_wf r" using assms(1) by (rule reachable_wf)
  then have c: "counts (model_at r i) (refs r i)" by (simp add: registry_wf_def)
  have named: "p \<noteq> '''' \<and> map_get '''' (ryClientProviders r) c = p \<longleftrightarrow> p \<noteq> '''' \<and> map_of (ryClientProviders r) c = Some p" for c p
    by (auto simp: map_get_def split: option.splits)
  have members: "{p. p \<noteq> '''' \<and> (\<exists>c ids. (c, ids) \<in> set (ryClientModels r) \<and> i \<in> set ids \<and> map_of (ryClientProviders r) c = Some p)} =
      {p. p \<noteq> '''' \<and> p \<in># refs r i}"
    using named unfolding refs_mem by blast
  show ?thesis
  proof (cases "model_at r i")
    case None
    then have "refs r i = {#}" using c by (simp add: counts_def)
    then show ?thesis using None by (simp add: GetModelProviders_def members)
  next
    case (Some g)
    note cg = countsD [OF c [unfolded Some]]
    let ?k = "\<lambda>(name, n). (- n, name) :: int \<times> string" and ?xs = "filter (\<lambda>(_, n). \<not> n \<le> 0) (rgProviders g)"
    have entry: "(p, x) \<in> set ?xs \<longleftrightarrow> p \<noteq> '''' \<and> p \<in># refs r i \<and> x = int (n p)" for p x
    proof -
      have "(p, x) \<in> set (rgProviders g) \<longleftrightarrow> map_of (rgProviders g) p = Some x" using cg(3) by simp
      then show ?thesis unfolding cg(4) n_def by (auto simp: count_eq_zero_iff)
    qed
    have eq: "GetModelProviders r i = map fst (sort_key ?k ?xs)" using Some by (simp add: GetModelProviders_def)
    have "map_wf ?xs" using cg(3) by (simp add: distinct_map_filter)
    then have d: "distinct ?xs" and inj: "inj_on fst (set ?xs)" by (simp_all add: distinct_map)
    have "inj_on ?k (set ?xs)" by (auto simp: inj_on_def)
    from sort_key_strict [OF this d]
    have "sorted_wrt (\<lambda>x y. fst x \<in> fst ` set ?xs \<and> ?k x < ?k y \<and> x \<in> set ?xs \<and> y \<in> set ?xs) (sort_key ?k ?xs)"
      by (rule sorted_wrt_mono_rel [rotated]) simp
    then have "sorted_wrt (\<lambda>x y. n (fst y) < n (fst x) \<or> n (fst x) = n (fst y) \<and> fst x < fst y) (sort_key ?k ?xs)"
      by (rule sorted_wrt_mono_rel [rotated]) (auto simp: entry simp del: set_filter split: prod.splits)
    moreover have "distinct (map fst (sort_key ?k ?xs))" using d inj by (simp add: distinct_map)
    moreover have "fst ` set ?xs = {p. \<exists>x. (p, x) \<in> set ?xs}" by force
    then have "fst ` set ?xs = {p. p \<noteq> '''' \<and> p \<in># refs r i}" unfolding entry by simp
    ultimately show ?thesis unfolding eq members by (simp add: sorted_wrt_map)
  qed
qed

theorem GetModelProviders_ranked_witness:
  "GetModelProviders sample_registry ''m'' = [''codex'', ''gemini''] \<and>
   sorted_wrt (\<lambda>p q. count (refs sample_registry ''m'') q < count (refs sample_registry ''m'') p \<or>
     count (refs sample_registry ''m'') p = count (refs sample_registry ''m'') q \<and> p < q) (GetModelProviders sample_registry ''m'')"
proof
  show "GetModelProviders sample_registry ''m'' = [''codex'', ''gemini'']" by code_simp
qed (use GetModelProviders_ranked [OF sample_registry_reachable, of "''m''"] in blast)

section \<open>Infos carry the name of their model\<close>

definition infos_named :: "registry \<Rightarrow> bool" where
  "infos_named r \<longleftrightarrow> (\<forall>i g. map_of (ryModels r) i = Some g \<longrightarrow> miID (rgInfo g) = i)"

lemma fold_keeps: "(\<And>x s. x \<in> set xs \<Longrightarrow> Q s \<Longrightarrow> Q (f x s)) \<Longrightarrow> Q s \<Longrightarrow> Q (fold f xs s)"
  by (induction xs arbitrary: s) auto

lemma funpow_keeps: "(\<And>s. Q s \<Longrightarrow> Q (f s)) \<Longrightarrow> Q s \<Longrightarrow> Q ((f ^^ n) s)"
  by (induction n) auto

named_theorems named_ops

lemma add_named [named_ops]: "infos_named r \<Longrightarrow> miID m = i \<Longrightarrow> infos_named (addModelRegistration i p m now r)"
  by (auto simp: infos_named_def addModelRegistration_def Let_def split: option.split)

lemma remove_named [named_ops]: "infos_named r \<Longrightarrow> infos_named (removeModelRegistration c i p now r)"
  by (auto simp: infos_named_def removeModelRegistration_def Let_def split: option.split if_splits)

lemma release_named [named_ops]: "infos_named r \<Longrightarrow> infos_named (release_overlap q old new i r)"
  by (auto simp: infos_named_def release_overlap_def split: option.split if_splits)

lemma refresh_named [named_ops]: "infos_named r \<Longrightarrow> miID m = i \<Longrightarrow> infos_named (refresh_model p ch m old new now i r)"
  by (auto simp: infos_named_def refresh_model_def Let_def split: option.split if_splits)

lemma unregister_named [named_ops]: "infos_named r \<Longrightarrow> infos_named (unregister_model c q now i r)"
  by (auto simp: infos_named_def unregister_model_def Let_def split: option.split if_splits)

lemma new_model_named: "i \<in> set (map miID ms) \<Longrightarrow> miID (new_model ms i) = i"
proof -
  assume "i \<in> set (map miID ms)"
  then have "List.find (\<lambda>m. miID m = i) ms \<noteq> None" by (auto simp: find_None_iff)
  then obtain m where "List.find (\<lambda>m. miID m = i) ms = Some m" by blast
  with find_SomeD [OF this] show ?thesis by (simp add: new_model_def)
qed

lemma reconcile_named:
  assumes "infos_named r"
  shows "infos_named (reconcile c q p ids ms now r)"
proof -
  have rem: "infos_named (fold (\<lambda>i. if P i then removeModelRegistration c i q now ^^ k i else id) xs s)"
    "infos_named (fold (\<lambda>i. if P i then id else removeModelRegistration c i q now ^^ k i) xs s)"
    if "infos_named s" for P k xs s
    using that by (auto intro!: fold_keeps [where Q = infos_named] funpow_keeps [where Q = infos_named] remove_named)
  have add: "infos_named (fold (\<lambda>i. if P i then id else addModelRegistration i p (new_model ms i) now ^^ k i) (uniq (map miID ms)) s)"
    if "infos_named s" for P k s
  proof (rule fold_keeps [where Q = infos_named, OF _ that])
    fix i s
    assume "i \<in> set (uniq (map miID ms))" "infos_named s"
    then show "infos_named ((if P i then id else addModelRegistration i p (new_model ms i) now ^^ k i) s)"
      using funpow_keeps [where Q = infos_named and f = "addModelRegistration i p (new_model ms i) now"] add_named
        new_model_named [of i ms] by simp
  qed
  have rel: "infos_named (if b then fold (\<lambda>i. release_overlap q (k i) (l i) i) xs r else r)" for b k l xs
    using assms by (auto intro!: fold_keeps [where Q = infos_named] release_named)
  have ref: "infos_named (fold (\<lambda>i. refresh_model p ch (new_model ms i) (k i) (l i) now i) (uniq (map miID ms)) s)"
    if "infos_named s" for ch k l s
    using that new_model_named [of _ ms] by (intro fold_keeps [where Q = infos_named] refresh_named) auto
  show ?thesis unfolding reconcile_def Let_def by (rule ref, rule add, rule rem(2), rule rem(1), rule rel)
qed

lemma infos_named_clients [simp]:
  "infos_named (r\<lparr>ryClientModels := x\<rparr>) = infos_named r" "infos_named (r\<lparr>ryClientInfos := y\<rparr>) = infos_named r"
  "infos_named (r\<lparr>ryClientProviders := z\<rparr>) = infos_named r"
  by (simp_all add: infos_named_def)

lemma unregisterClientInternal_named: "infos_named r \<Longrightarrow> infos_named (unregisterClientInternal c now r)"
proof -
  assume "infos_named r"
  then have "infos_named (fold (unregister_model c q now) ids r)" for q ids
    by (intro fold_keeps [where Q = infos_named] unregister_named)
  then show ?thesis
    using \<open>infos_named r\<close> by (simp add: unregisterClientInternal_def Let_def split: option.split)
qed

lemma RegisterClient_named: "infos_named r \<Longrightarrow> infos_named (RegisterClient c p models now r)"
proof -
  assume r: "infos_named r"
  let ?ms = "named_models models"
  have "infos_named (fold (\<lambda>i. addModelRegistration i q (new_model ?ms i) now) (map miID ?ms) r)" for q
    using r by (intro fold_keeps [where Q = infos_named] add_named new_model_named)
  then show ?thesis
    using reconcile_named [OF r] unregisterClientInternal_named [OF r]
    by (simp add: RegisterClient_def Let_def book_client_def split: option.split)
qed

lemma at_model_named: "infos_named r \<Longrightarrow> (\<And>g. rgInfo (f g) = rgInfo g) \<Longrightarrow> infos_named (at_model i f r)"
  by (auto simp: infos_named_def at_model_def split: option.split)

lemma rstep_named: "rstep r s \<Longrightarrow> infos_named r \<Longrightarrow> infos_named s"
proof (induction rule: rstep.induct)
  case (cleanup r now)
  then show ?case by (auto simp: CleanupExpiredQuotas_def infos_named_def map_of_map_values)
qed (simp_all add: RegisterClient_named UnregisterClient_def unregisterClientInternal_named at_model_named
    registry_SetModelQuotaExceeded_def registry_ClearModelQuotaExceeded_def registry_SuspendClientModel_def
    registry_ResumeClientModel_def)

interpretation reg_named: invariant_system "\<lambda>r. r = newRegistry" rstep infos_named
  by unfold_locales (simp add: newRegistry_def infos_named_def, blast intro: rstep_named)

section \<open>Listed models and counted clients\<close>

lemma counted_offered:
  assumes "map_of (ryModels r) i = Some g" "0 < GetModelCount r now i"
  shows "model_offered now g"
proof -
  have enough: "offered a e k s" if "0 < a - e - s" for a e k s using that by (simp add: offered_def)
  have "length (filter (\<lambda>s. \<not> is_cooldown s) (rgSuspended g)) \<le> length (rgSuspended g)" by (rule length_filter_le)
  then have "int (length (filter (\<lambda>s. \<not> is_cooldown s) (rgSuspended g))) \<le> int (length (rgSuspended g))" by (simp only: of_nat_le_iff)
  moreover have "int (length (rgSuspended g)) < rgCount g - int (length (filter (\<lambda>(_, t). fresh_quota now t) (rgQuotaExceeded g)))"
    using assms by (simp add: GetModelCount_def Let_def split: if_splits)
  ultimately show ?thesis unfolding model_offered_def by (intro enough) linarith
qed

lemma opt_field_lookup [simp]: "map_of (opt_field b k v) j = (if b \<and> j = k then Some v else None)"
  by (simp add: opt_field_def)

lemma convertModelToMap_id:
  "map_of (convertModelToMap m handlerType) ''id'' = (if handlerType = ''gemini'' then None else Some (JString (miID m)))"
proof -
  consider "handlerType = ''openai''" | "handlerType = ''claude''" | "handlerType = ''gemini''"
    | "handlerType \<notin> {''openai'', ''claude'', ''gemini''}" by blast
  then show ?thesis by cases (simp_all add: convertModelToMap_def)
qed

text \<open>The names that \<^verbatim>\<open>GetFirstAvailableModel\<close> goes through.\<close>

lemma listed_ids:
  assumes "infos_named r" "handlerType \<noteq> ''gemini''" and n: "0 < GetModelCount r now i"
  shows "\<exists>m \<in> set (GetAvailableModels r now handlerType). map_of m ''id'' = Some (JString i)"
proof -
  obtain g where g: "map_of (ryModels r) i = Some g" using n by (auto simp: GetModelCount_def split: option.splits)
  have "(i, g) \<in> set (ryModels r)" using g by (rule map_of_SomeD)
  then have "convertModelToMap (rgInfo g) handlerType \<in> set (GetAvailableModels r now handlerType)"
    using counted_offered [OF g n] by (force simp: GetAvailableModels_def)
  moreover have "miID (rgInfo g) = i" using assms(1) g by (simp add: infos_named_def)
  ultimately show ?thesis using assms(2) by (intro bexI) (simp_all add: convertModelToMap_id)
qed

text \<open>
  For every handler type but \<open>gemini\<close>, and whichever order the sort puts incomparable models in, the first available model is
  one that has an available client, and the call fails only when no model has any.
\<close>

theorem GetFirstAvailableModel_complete:
  assumes "rstep\<^sup>*\<^sup>* newRegistry r" "\<And>ms. mset (arrange ms) = mset ms" "handlerType \<noteq> ''gemini''"
  shows "case GetFirstAvailableModel arrange r now handlerType of
           Inr i \<Rightarrow> 0 < GetModelCount r now i
         | Inl e \<Rightarrow> \<forall>i. GetModelCount r now i = 0"
proof -
  let ?ids = "List.map_filter (\<lambda>m. case map_of m ''id'' of Some (JString i) \<Rightarrow> Some i | _ \<Rightarrow> None)
      (arrange (GetAvailableModels r now handlerType))"
  have inv: "infos_named r" using assms(1) by (rule reg_named.inv_reachable [OF refl])
  have same: "set (arrange ms) = set ms" for ms using assms(2) [of ms] by (metis set_mset_mset)
  have mem: "i \<in> set ?ids" if n: "0 < GetModelCount r now i" for i
  proof -
    obtain m where m: "m \<in> set (arrange (GetAvailableModels r now handlerType))" "map_of m ''id'' = Some (JString i)"
      using listed_ids [OF inv assms(3) n] same by auto
    show ?thesis unfolding List.map_filter_def using m by (auto intro!: rev_image_eqI [of m])
  qed
  have nonneg: "0 \<le> GetModelCount r now i" for i by (simp add: GetModelCount_def Let_def split: option.split)
  show ?thesis
  proof (cases "GetFirstAvailableModel arrange r now handlerType")
    case (Inr i)
    then show ?thesis
      using find_SomeD [of "\<lambda>i. 0 < GetModelCount r now i" ?ids]
      by (auto simp: GetFirstAvailableModel_def Let_def split: if_splits option.splits)
  next
    case (Inl e)
    then have "List.find (\<lambda>i. 0 < GetModelCount r now i) ?ids = None \<or> GetAvailableModels r now handlerType = []"
      by (auto simp: GetFirstAvailableModel_def Let_def split: if_splits option.splits)
    then have "\<not> 0 < GetModelCount r now i" for i
      using mem [of i] listed_ids [OF inv assms(3), of now i] by (auto simp: find_None_iff)
    then show ?thesis using Inl nonneg by (simp add: order.antisym linorder_not_less)
  qed
qed

theorem GetFirstAvailableModel_complete_witness:
  "GetFirstAvailableModel id sample_registry 9 '''' = Inr ''m'' \<and> 0 < GetModelCount sample_registry 9 ''m''"
proof -
  have "GetFirstAvailableModel id sample_registry 9 '''' = Inr ''m''" by code_simp
  then show ?thesis
    using GetFirstAvailableModel_complete [OF sample_registry_reachable, of id "''''" 9] by simp
qed

text \<open>Descriptions for \<open>gemini\<close> have no \<^verbatim>\<open>id\<close>, so for that type the call always fails.\<close>

lemma GetFirstAvailableModel_gemini:
  assumes "\<And>ms. mset (arrange ms) = mset ms"
  shows "\<exists>e. GetFirstAvailableModel arrange r now ''gemini'' = Inl e"
proof -
  have "set (arrange ms) = set ms" for ms using assms [of ms] by (metis set_mset_mset)
  then have "List.map_filter (\<lambda>m. case map_of m ''id'' of Some (JString i) \<Rightarrow> Some i | _ \<Rightarrow> None)
      (arrange (GetAvailableModels r now ''gemini'')) = []"
    by (auto simp: List.map_filter_def filter_empty_conv GetAvailableModels_def convertModelToMap_id)
  then show ?thesis by (simp add: GetFirstAvailableModel_def Let_def)
qed

section \<open>What a client serves\<close>

text \<open>
  A client serves, up to case and surrounding blanks, the models of its latest registration and no other; registering or removing one client
  changes nothing for another.
\<close>

theorem ClientSupportsModel_latest:
  fixes c p models now r
  assumes "rstep\<^sup>*\<^sup>* newRegistry r"
  defines "s \<equiv> RegisterClient c p models now r"
  shows "(ClientSupportsModel s d m \<longleftrightarrow>
      (if trim_space d = c
       then c \<noteq> '''' \<and> trim_space m \<noteq> '''' \<and> (\<exists>x. Some x \<in> set models \<and> miID x \<noteq> '''' \<and> equal_fold (trim_space (miID x)) (trim_space m))
       else ClientSupportsModel r d m)) \<and>
    (ClientSupportsModel (UnregisterClient c now r) d m \<longleftrightarrow> trim_space d \<noteq> c \<and> ClientSupportsModel r d m)"
proof -
  have wf: "registry_wf r" using assms(1) by (rule reachable_wf)
  let ?ids = "map miID (named_models models)"
  have named: "x \<in> set (named_models models) \<longleftrightarrow> Some x \<in> set models \<and> miID x \<noteq> ''''" for x
    by (force simp: named_models_def List.map_filter_def split: option.splits if_splits)
  have reg: "map_of (ryClientModels s) = (map_of (ryClientModels r))(c := if ?ids = [] then None else Some ?ids)"
    unfolding s_def using RegisterClient_clients(1) [OF wf, of models c p now] unregisterClientInternal_clients(1) [OF wf, of c now]
    by (cases "named_models models = []") (simp_all add: RegisterClient_def Let_def fun_upd_idem)
  have unreg: "map_of (ryClientModels (UnregisterClient c now r)) = (map_of (ryClientModels r))(c := None)"
    using unregisterClientInternal_clients(1) [OF wf, of c now] by (simp add: UnregisterClient_def)
  have "(ClientSupportsModel s d m \<longleftrightarrow> c \<noteq> '''' \<and> trim_space m \<noteq> '''' \<and>
      list_ex (\<lambda>i. equal_fold (trim_space i) (trim_space m)) ?ids)" if "trim_space d = c"
    using that reg by (auto simp: ClientSupportsModel_def Let_def)
  moreover have "list_ex P ?ids \<longleftrightarrow> (\<exists>x. Some x \<in> set models \<and> miID x \<noteq> '''' \<and> P (miID x))" for P
    using named by (auto simp: list_ex_iff)
  moreover have "ClientSupportsModel s d m \<longleftrightarrow> ClientSupportsModel r d m" if "trim_space d \<noteq> c"
    using that reg by (simp add: ClientSupportsModel_def Let_def)
  moreover have "ClientSupportsModel (UnregisterClient c now r) d m \<longleftrightarrow> trim_space d \<noteq> c \<and> ClientSupportsModel r d m"
    using unreg by (auto simp: ClientSupportsModel_def Let_def)
  ultimately show ?thesis by simp
qed

theorem ClientSupportsModel_latest_witness:
  "ClientSupportsModel (RegisterClient ''c1'' ''x'' [Some (plain_model ''K'')] 5 sample_registry) '' c1'' ''k'' \<and>
   \<not> ClientSupportsModel (UnregisterClient ''c1'' 5 sample_registry) ''c1'' ''m''"
proof -
  have t: "trim_space '' c1'' = ''c1''" "trim_space ''k'' = ''k''" "trim_space ''K'' = ''K''" "trim_space ''c1'' = ''c1''"
    "equal_fold ''K'' ''k''" "miID (plain_model ''K'') = ''K''" by code_simp+
  show ?thesis
    using ClientSupportsModel_latest [OF sample_registry_reachable, of "''c1''" "''x''" "[Some (plain_model ''K'')]" 5 "'' c1''" "''k''"]
      ClientSupportsModel_latest [OF sample_registry_reachable, of "''c1''" "''x''" "[]" 5 "''c1''" "''m''"]
    by (simp add: t)
qed

end
