(* ===== verification/Quota_Reconcile.thy ===== *)
theory Quota_Reconcile
  imports Auth_Cooldown
begin

text \<open>
  Reconciling the quota state of a credential with what the provider reports, and keeping it across restarts:
  \<^verbatim>\<open>src/sdk/cliproxy/auth/quota_reconcile.go\<close> and \<^verbatim>\<open>quota_persistence.go\<close>.

  The manager's part of the state is the table of credentials and the table \<^verbatim>\<open>quotaProbeAfter\<close>. What is persisted and
  whether that fails, the answer of a probe, and which executors can probe are arguments; the hook is left out. A nil
  \<^verbatim>\<open>Metadata\<close> is the empty map.
\<close>

section \<open>Results of a probe\<close>

record probe_model_result =
  pmRecovered :: bool
  pmNextRecoverAt :: gotime

record probe_result =
  prRecovered :: bool
  prWindowExhausted :: bool
  prWindow :: string
  prWindowMinutes :: int
  prNextRecoverAt :: gotime
  prModels :: "(string, probe_model_result) gomap"

definition quotaProbePendingBackoff :: duration where "quotaProbePendingBackoff = 30 * second"
definition quotaProbeFailureBackoff :: duration where "quotaProbeFailureBackoff = 2 * minute"
definition quotaProbeMinInterval :: duration where "quotaProbeMinInterval = minute"
definition quotaProbeMaxInterval :: duration where "quotaProbeMaxInterval = 15 * minute"

definition quotaRecoveryGateArmed :: "quota_state \<Rightarrow> bool" where
  "quotaRecoveryGateArmed q \<longleftrightarrow> qExceeded q \<and> qRecoveryRequired q"

definition probeWindowFallbackCooldown :: "int \<Rightarrow> duration" where
  "probeWindowFallbackCooldown windowMinutes =
     (let window = wrap64 (windowMinutes * minute)
      in if 0 < windowMinutes \<and> window < quotaWindowMaxCooldown then window else quotaWindowMaxCooldown)"

section \<open>One model state or credential\<close>

definition clearQuotaModelState :: "model_state \<Rightarrow> gotime \<Rightarrow> model_state \<times> bool" where
  "clearQuotaModelState s now =
     (s\<lparr>msUnavailable := False, msStatus := StatusActive, msStatusMessage := '''', msNextRetryAfter := 0,
        msLastError := None, msQuota := zeroQuota, msUpdatedAt := now\<rparr>,
      msUnavailable s \<or> msStatus s \<noteq> StatusActive \<or> msStatusMessage s \<noteq> '''' \<or> msNextRetryAfter s \<noteq> 0 \<or>
      msLastError s \<noteq> None \<or> msQuota s \<noteq> zeroQuota)"

definition clearManualModelRuntimeState :: "model_state \<Rightarrow> gotime \<Rightarrow> model_state \<times> bool" where
  "clearManualModelRuntimeState s now =
     (let preserveDisabled = (msStatus s = StatusDisabled);
          changed = (msUnavailable s \<or> msNextRetryAfter s \<noteq> 0 \<or> msLastError s \<noteq> None \<or> msQuota s \<noteq> zeroQuota \<or>
                     \<not> preserveDisabled \<and> (msStatus s \<noteq> StatusActive \<or> msStatusMessage s \<noteq> ''''));
          s1 = s\<lparr>msUnavailable := False, msNextRetryAfter := 0, msLastError := None, msQuota := zeroQuota\<rparr>;
          s2 = (if preserveDisabled then s1 else s1\<lparr>msStatus := StatusActive, msStatusMessage := ''''\<rparr>)
      in if \<not> changed then (s, False) else (s2\<lparr>msUpdatedAt := now\<rparr>, True))"

definition updateQuotaModelRecoverAt :: "model_state \<Rightarrow> gotime \<Rightarrow> gotime \<Rightarrow> model_state \<times> bool" where
  "updateQuotaModelRecoverAt s next now =
     (if next = 0 then
        (if \<not> quotaRecoveryGateArmed (msQuota s) then (s, False)
         else
           let deadline = now + probeWindowFallbackCooldown (qWindowMinutes (msQuota s))
           in (s\<lparr>msUnavailable := True, msNextRetryAfter := deadline,
                 msQuota := (msQuota s)\<lparr>qNextRecoverAt := deadline\<rparr>, msUpdatedAt := now\<rparr>,
               \<not> msUnavailable s \<or> qNextRecoverAt (msQuota s) \<noteq> deadline))
      else
        (s\<lparr>msUnavailable := True, msNextRetryAfter := next,
           msQuota := (msQuota s)\<lparr>qExceeded := True, qReason := ''quota'', qNextRecoverAt := next\<rparr>, msUpdatedAt := now\<rparr>,
         msNextRetryAfter s \<noteq> next \<or> qNextRecoverAt (msQuota s) \<noteq> next \<or> \<not> msUnavailable s \<or> \<not> qExceeded (msQuota s) \<or>
         qReason (msQuota s) \<noteq> ''quota''))"

definition clearQuotaAuthState :: "auth \<Rightarrow> gotime \<Rightarrow> auth \<times> bool" where
  "clearQuotaAuthState a now =
     (a\<lparr>aUnavailable := False, aStatus := StatusActive, aStatusMessage := '''', aNextRetryAfter := 0, aLastError := None,
        aQuota := zeroQuota, aUpdatedAt := now\<rparr>,
      aUnavailable a \<or> aStatus a \<noteq> StatusActive \<or> aStatusMessage a \<noteq> '''' \<or> aNextRetryAfter a \<noteq> 0 \<or> aLastError a \<noteq> None \<or>
      aQuota a \<noteq> zeroQuota)"

definition clearManualAuthRuntimeState :: "auth \<Rightarrow> gotime \<Rightarrow> auth \<times> bool" where
  "clearManualAuthRuntimeState a now =
     (let preserveDisabled = (aStatus a = StatusDisabled);
          changed = (aUnavailable a \<or> aNextRetryAfter a \<noteq> 0 \<or> aNextRefreshAfter a \<noteq> 0 \<or> aLastError a \<noteq> None \<or>
                     aQuota a \<noteq> zeroQuota \<or>
                     \<not> preserveDisabled \<and> (aStatus a \<noteq> StatusActive \<or> aStatusMessage a \<noteq> ''''));
          a1 = a\<lparr>aUnavailable := False, aNextRetryAfter := 0, aNextRefreshAfter := 0, aLastError := None, aQuota := zeroQuota\<rparr>;
          a2 = (if preserveDisabled then a1 else a1\<lparr>aStatus := StatusActive, aStatusMessage := ''''\<rparr>)
      in if \<not> changed then (a, False) else (a2\<lparr>aUpdatedAt := now\<rparr>, True))"

definition updateQuotaAuthRecoverAt :: "auth \<Rightarrow> gotime \<Rightarrow> gotime \<Rightarrow> auth \<times> bool" where
  "updateQuotaAuthRecoverAt a next now =
     (if next = 0 then
        (if \<not> quotaRecoveryGateArmed (aQuota a) then (a, False)
         else
           let deadline = now + probeWindowFallbackCooldown (qWindowMinutes (aQuota a))
           in (a\<lparr>aUnavailable := True, aNextRetryAfter := deadline,
                 aQuota := (aQuota a)\<lparr>qNextRecoverAt := deadline\<rparr>, aUpdatedAt := now\<rparr>,
               \<not> aUnavailable a \<or> qNextRecoverAt (aQuota a) \<noteq> deadline))
      else
        (a\<lparr>aUnavailable := True, aNextRetryAfter := next,
           aQuota := (aQuota a)\<lparr>qExceeded := True, qReason := ''quota'', qNextRecoverAt := next\<rparr>, aUpdatedAt := now\<rparr>,
         aNextRetryAfter a \<noteq> next \<or> qNextRecoverAt (aQuota a) \<noteq> next \<or> \<not> aUnavailable a \<or> \<not> qExceeded (aQuota a) \<or>
         qReason (aQuota a) \<noteq> ''quota''))"

section \<open>Applying the result of a probe\<close>

definition normalizeQuotaProbeModels :: "(string, probe_model_result) gomap \<Rightarrow> (string, probe_model_result) gomap" where
  "normalizeQuotaProbeModels ms =
     fold (\<lambda>(m, r) out. let key = canonicalModelKey m in if key = '''' then out else map_put key r out) ms []"

definition hasQuotaExceededModel :: "auth \<Rightarrow> bool" where
  "hasQuotaExceededModel a = list_ex (\<lambda>(_, st). case st of None \<Rightarrow> False | Some s \<Rightarrow> qExceeded (msQuota s)) (aModelStates a)"

text \<open>The credential-wide gate of an exhausted window.\<close>

definition exhausted_gate :: "auth \<Rightarrow> probe_result \<Rightarrow> gotime \<Rightarrow> auth \<times> bool" where
  "exhausted_gate a res now =
     (let recoverAt = (if prNextRecoverAt res = 0 then now + probeWindowFallbackCooldown (prWindowMinutes res)
                       else prNextRecoverAt res);
          changed = (\<not> aUnavailable a \<or> aStatus a \<noteq> StatusError \<or> aStatusMessage a \<noteq> ''quota exhausted'' \<or>
                     aNextRetryAfter a \<noteq> recoverAt \<or> \<not> qExceeded (aQuota a) \<or> \<not> qRecoveryRequired (aQuota a) \<or>
                     qReason (aQuota a) \<noteq> ''quota'' \<or> qWindow (aQuota a) \<noteq> prWindow res \<or>
                     qWindowMinutes (aQuota a) \<noteq> prWindowMinutes res \<or> qNextRecoverAt (aQuota a) \<noteq> recoverAt)
      in (a\<lparr>aUnavailable := True, aStatus := StatusError, aStatusMessage := ''quota exhausted'', aNextRetryAfter := recoverAt,
            aQuota := \<lparr>qExceeded = True, qRecoveryRequired = True, qReason = ''quota'', qWindow = prWindow res,
                       qWindowMinutes = prWindowMinutes res, qNextRecoverAt = recoverAt, qBackoffLevel = 0\<rparr>,
            aUpdatedAt := now\<rparr>, changed))"

text \<open>The body of the loop over the model states: the new state, whether it changed, whether the model recovered.\<close>

definition probe_model :: "probe_result \<Rightarrow> gotime \<Rightarrow> string \<Rightarrow> model_state \<Rightarrow> model_state \<times> bool \<times> bool" where
  "probe_model res now modelID s =
     (let models = normalizeQuotaProbeModels (prModels res)
      in if \<not> qExceeded (msQuota s) then (s, False, False)
         else
           case (case map_of models (canonicalModelKey modelID) of
                   Some o1 \<Rightarrow> Some o1
                 | None \<Rightarrow> if models \<noteq> [] then None
                           else Some \<lparr>pmRecovered = prRecovered res, pmNextRecoverAt = prNextRecoverAt res\<rparr>) of
             None \<Rightarrow> (s, False, False)
           | Some outcome \<Rightarrow>
               if pmRecovered outcome then (case clearQuotaModelState s now of (s', c) \<Rightarrow> (s', c, True))
               else
                 let stale = prWindowExhausted res \<and>
                       (\<not> qRecoveryRequired (msQuota s) \<or> qWindow (msQuota s) \<noteq> prWindow res \<or>
                        qWindowMinutes (msQuota s) \<noteq> prWindowMinutes res);
                     s1 = (if stale
                           then s\<lparr>msQuota := (msQuota s)\<lparr>qRecoveryRequired := True, qWindow := prWindow res,
                                                         qWindowMinutes := prWindowMinutes res\<rparr>, msUpdatedAt := now\<rparr>
                           else s)
                 in (case updateQuotaModelRecoverAt s1 (pmNextRecoverAt outcome) now of (s2, c) \<Rightarrow> (s2, stale \<or> c, False)))"

definition probe_models ::
  "probe_result \<Rightarrow> gotime \<Rightarrow> (string, model_state option) gomap \<Rightarrow> (string, model_state option) gomap \<times> bool \<times> string list" where
  "probe_models res now states =
     (map (\<lambda>(m, st). (m, map_option (\<lambda>s. fst (probe_model res now m s)) st)) states,
      list_ex (\<lambda>(m, st). case st of None \<Rightarrow> False | Some s \<Rightarrow> fst (snd (probe_model res now m s))) states,
      map fst (filter (\<lambda>(m, st). case st of None \<Rightarrow> False | Some s \<Rightarrow> snd (snd (probe_model res now m s))) states))"

definition applyQuotaProbeResult :: "auth \<Rightarrow> probe_result \<Rightarrow> gotime \<Rightarrow> auth \<times> bool \<times> string list" where
  "applyQuotaProbeResult a res now =
     (if prWindowExhausted res \<and> \<not> hasQuotaExceededModel a
      then (case exhausted_gate a res now of (a', changed) \<Rightarrow> (a', changed, []))
      else if hasQuotaExceededModel a then
        (case probe_models res now (aModelStates a) of
           (states, c1, recovered) \<Rightarrow>
             let a2 = updateAggregatedAvailability (a\<lparr>aModelStates := states\<rparr>) now;
                 c2 = (aUnavailable a2 \<noteq> aUnavailable a \<or> aNextRetryAfter a2 \<noteq> aNextRetryAfter a \<or> aQuota a2 \<noteq> aQuota a);
                 a3 = (if hasModelError a2 now then a2
                       else a2\<lparr>aStatus := StatusActive, aStatusMessage := '''', aLastError := None\<rparr>);
                 c3 = (aStatus a3 \<noteq> aStatus a \<or> aStatusMessage a3 \<noteq> aStatusMessage a \<or>
                       \<not> errorsEqual (aLastError a3) (cloneError (aLastError a)))
             in (a3, c1 \<or> c2 \<or> c3, recovered))
      else if \<not> qExceeded (aQuota a) then (a, False, [])
      else if prRecovered res then (case clearQuotaAuthState a now of (a', c) \<Rightarrow> (a', c, []))
      else (case updateQuotaAuthRecoverAt a (prNextRecoverAt res) now of (a', c) \<Rightarrow> (a', c, [])))"

definition clearManualRuntimeStatusForAuth :: "auth \<Rightarrow> gotime \<Rightarrow> auth \<times> bool \<times> string list" where
  "clearManualRuntimeStatusForAuth a now =
     (let cleared = map (\<lambda>(m, st). (m, map_option (\<lambda>s. clearManualModelRuntimeState s now) st)) (aModelStates a);
          changed = filter (\<lambda>(m, st). case st of None \<Rightarrow> False | Some (s, c) \<Rightarrow> c) cleared;
          recovered = map fst (filter (\<lambda>(m, st). case st of None \<Rightarrow> False | Some (s, c) \<Rightarrow> msStatus s \<noteq> StatusDisabled) changed);
          a1 = a\<lparr>aModelStates := map (\<lambda>(m, st). (m, map_option fst st)) cleared\<rparr>;
          (a2, c2) = clearManualAuthRuntimeState a1 now;
          (a3, c3) = clearClaudeOAuthRuntimeRestrictionLocked a2 now
      in (a3, changed \<noteq> [] \<or> c2 \<or> c3, recovered))"

section \<open>When to probe\<close>

definition authHasActiveQuotaCooldown :: "auth \<Rightarrow> gotime \<Rightarrow> bool" where
  "authHasActiveQuotaCooldown a now \<longleftrightarrow>
     \<not> aDisabled a \<and> (activeAuthQuotaCooldown a now \<or> list_ex (\<lambda>(_, st). activeModelQuotaCooldown st now) (aModelStates a))"

text \<open>The earlier of the two times that lie ahead, or the zero time.\<close>

definition ahead_of :: "gotime \<Rightarrow> gotime \<Rightarrow> gotime \<Rightarrow> gotime" where
  "ahead_of now retry recover =
     (let c = (if now < retry then retry else 0)
      in if now < recover \<and> (c = 0 \<or> recover < c) then recover else c)"

definition nextQuotaProbeTime :: "auth \<Rightarrow> gotime \<Rightarrow> gotime" where
  "nextQuotaProbeTime a now =
     (let n0 = (if activeAuthQuotaCooldown a now then ahead_of now (aNextRetryAfter a) (qNextRecoverAt (aQuota a)) else 0);
          nextRecover = fold (\<lambda>(_, st) n.
              case st of
                None \<Rightarrow> n
              | Some s \<Rightarrow>
                  if \<not> activeModelQuotaCooldown st now then n
                  else let c = ahead_of now (msNextRetryAfter s) (qNextRecoverAt (msQuota s))
                       in if c \<noteq> 0 \<and> (n = 0 \<or> c < n) then c else n) (aModelStates a) n0;
          remaining = time_sub nextRecover now;
          interval = remaining div 4
      in if nextRecover = 0 then now + quotaProbeMinInterval
         else if quotaRecoveryGateArmed (aQuota a) then now + quotaProbeMinInterval
         else if remaining \<le> 0 then now + quotaProbeMinInterval
         else now + (if interval < quotaProbeMinInterval then quotaProbeMinInterval
                     else if quotaProbeMaxInterval < interval then quotaProbeMaxInterval else interval))"

section \<open>Persistence\<close>

definition persistedQuotaRuntimeMetadataKey :: string where
  "persistedQuotaRuntimeMetadataKey = ''_cli_proxy_runtime_quota''"

definition persisted_models :: "(string, model_state option) gomap \<Rightarrow> (string, quota_model_runtime) gomap" where
  "persisted_models states =
     List.map_filter (\<lambda>(m, st). case st of None \<Rightarrow> None | Some s \<Rightarrow>
       if quotaRecoveryGateArmed (msQuota s)
       then Some (m, \<lparr>qmStatus = msStatus s, qmStatusMessage = msStatusMessage s, qmNextRetryAfter = msNextRetryAfter s,
                      qmQuota = msQuota s\<rparr>)
       else None) states"

definition syncPersistedQuotaRuntime :: "auth \<Rightarrow> auth" where
  "syncPersistedQuotaRuntime a =
     (let models = persisted_models (aModelStates a)
      in if aMetadata a = [] then a
         else if \<not> quotaRecoveryGateArmed (aQuota a) \<and> models = []
         then a\<lparr>aMetadata := map_del persistedQuotaRuntimeMetadataKey (aMetadata a)\<rparr>
         else a\<lparr>aMetadata := map_put persistedQuotaRuntimeMetadataKey
                  (AQuotaRuntime \<lparr>qrStatus = aStatus a, qrStatusMessage = aStatusMessage a, qrNextRetryAfter = aNextRetryAfter a,
                                  qrQuota = aQuota a, qrModelStates = models\<rparr>) (aMetadata a)\<rparr>)"

definition gated_status :: "status \<Rightarrow> status" where
  "gated_status s = (if s \<in> {StatusEmpty, StatusActive, StatusUnknown} then StatusError else s)"

definition gated_message :: "string \<Rightarrow> string" where
  "gated_message m = (if m = '''' then ''quota exhausted'' else m)"

definition restore_model :: "string \<times> quota_model_runtime \<Rightarrow> (string, model_state option) gomap \<Rightarrow> (string, model_state option) gomap" where
  "restore_model = (\<lambda>(m, p) states.
     if \<not> quotaRecoveryGateArmed (qmQuota p) then states
     else map_put m (Some \<lparr>msStatus = gated_status (qmStatus p), msStatusMessage = gated_message (qmStatusMessage p),
            msUnavailable = True, msNextRetryAfter = qmNextRetryAfter p, msLastError = None, msQuota = qmQuota p,
            msUpdatedAt = 0\<rparr>) states)"

text \<open>\<open>decode\<close> is the way of a value through \<^verbatim>\<open>json.Marshal\<close> and \<^verbatim>\<open>json.Unmarshal\<close> into the struct.\<close>

definition restorePersistedQuotaRuntime :: "(goany \<Rightarrow> quota_runtime option) \<Rightarrow> gotime \<Rightarrow> auth \<Rightarrow> auth" where
  "restorePersistedQuotaRuntime decode now a =
     (if aDisabled a \<or> aStatus a = StatusDisabled then a
      else case map_of (aMetadata a) persistedQuotaRuntimeMetadataKey of
             None \<Rightarrow> a
           | Some raw \<Rightarrow>
               if raw = ANil then a
               else (case decode raw of
                       None \<Rightarrow> a
                     | Some rt \<Rightarrow>
                         let a1 = (if quotaRecoveryGateArmed (qrQuota rt)
                                   then a\<lparr>aQuota := qrQuota rt, aNextRetryAfter := qrNextRetryAfter rt, aUnavailable := True,
                                          aStatus := gated_status (qrStatus rt), aStatusMessage := gated_message (qrStatusMessage rt)\<rparr>
                                   else a)
                         in if qrModelStates rt = [] then a1
                            else updateAggregatedAvailability
                                   (a1\<lparr>aModelStates := fold restore_model (qrModelStates rt) (aModelStates a1)\<rparr>) now))"

section \<open>Operations of the manager\<close>

definition resumeRecoveredQuotaModels :: "string \<Rightarrow> string list \<Rightarrow> registry_call list" where
  "resumeRecoveredQuotaModels authID models =
     (if models = [] \<or> trim_space authID = '''' then []
      else concat (map (\<lambda>m. let model = trim_space m
                            in if model = '''' then []
                               else [ClearModelQuotaExceeded authID model, ResumeClientModel authID model]) models))"

record probe_tables =
  ptAuths :: "(string, auth option) gomap"
  ptAfter :: "(string, gotime) gomap"

text \<open>
  What an operation returns beside the tables: the registry calls, whether the credential changed, and whether saving it failed.
  \<open>fails\<close> tells whether \<^verbatim>\<open>persist\<close> does.
\<close>

type_synonym probe_answer = "probe_tables \<times> registry_call list \<times> bool \<times> bool"

definition save_and_resume ::
  "(auth \<Rightarrow> bool) \<Rightarrow> probe_tables \<Rightarrow> string \<Rightarrow> auth \<Rightarrow> bool \<Rightarrow> string list \<Rightarrow> gotime \<Rightarrow> probe_answer" where
  "save_and_resume fails t ident a changed models now =
     (let a' = (if changed then syncPersistedQuotaRuntime (a\<lparr>aUpdatedAt := now\<rparr>) else a);
          t' = t\<lparr>ptAuths := map_put ident (Some a') (ptAuths t)\<rparr>
      in if changed \<and> fails a' then (t', [], True, True)
         else (t', resumeRecoveredQuotaModels ident models, changed, False))"

definition UpdateQuotaFromProbe ::
  "(auth \<Rightarrow> bool) \<Rightarrow> gotime \<Rightarrow> string \<Rightarrow> probe_result option \<Rightarrow> probe_tables \<Rightarrow> probe_answer" where
  "UpdateQuotaFromProbe fails now id0 res t =
     (let ident = trim_space id0
      in case res of
           None \<Rightarrow> (t, [], False, False)
         | Some r \<Rightarrow>
             if ident = '''' then (t, [], False, False)
             else (case map_of (ptAuths t) ident of
                     Some (Some a) \<Rightarrow>
                       let (a', changed, models) = applyQuotaProbeResult a r now;
                           after = (if authHasActiveQuotaCooldown a' now then map_put ident (nextQuotaProbeTime a' now) (ptAfter t)
                                    else map_del ident (ptAfter t))
                       in save_and_resume fails (t\<lparr>ptAfter := after\<rparr>) ident a' changed models now
                   | _ \<Rightarrow> (t\<lparr>ptAfter := map_del ident (ptAfter t)\<rparr>, [], False, False)))"

definition ClearQuotaStatus :: "(auth \<Rightarrow> bool) \<Rightarrow> gotime \<Rightarrow> string \<Rightarrow> probe_tables \<Rightarrow> probe_answer" where
  "ClearQuotaStatus fails now id0 t =
     (let ident = trim_space id0; t1 = t\<lparr>ptAfter := map_del ident (ptAfter t)\<rparr>
      in if ident = '''' then (t, [], False, False)
         else case map_of (ptAuths t) ident of
                Some (Some a) \<Rightarrow>
                  (case clearManualRuntimeStatusForAuth a now of
                     (a', changed, models) \<Rightarrow> save_and_resume fails t1 ident a' changed models now)
              | _ \<Rightarrow> (t1, [], False, False))"

definition shouldProbeQuota :: "(string \<Rightarrow> string \<Rightarrow> bool) \<Rightarrow> probe_tables \<Rightarrow> auth \<Rightarrow> gotime \<Rightarrow> bool" where
  "shouldProbeQuota prober t a now \<longleftrightarrow>
     \<not> aDisabled a \<and> trim_space (aID a) \<noteq> '''' \<and> authHasActiveQuotaCooldown a now \<and> prober (aTenantID a) (aProvider a) \<and>
     (let next = map_get 0 (ptAfter t) (aID a) in next = 0 \<or> \<not> now < next)"

text \<open>\<^verbatim>\<open>probeQuotaRecovery\<close> holds the lock before and after the call of the provider: two steps.\<close>

definition start_probe :: "bool \<Rightarrow> gotime \<Rightarrow> string \<Rightarrow> probe_tables \<Rightarrow> probe_tables \<times> auth option" where
  "start_probe force now id0 t =
     (let ident = trim_space id0; next = map_get 0 (ptAfter t) ident
      in if ident = '''' then (t, None)
         else case map_of (ptAuths t) ident of
                Some (Some a) \<Rightarrow>
                  if \<not> force \<and> next \<noteq> 0 \<and> now < next then (t, None)
                  else (t\<lparr>ptAfter := map_put ident (now + quotaProbePendingBackoff) (ptAfter t)\<rparr>, Some a)
              | _ \<Rightarrow> (t\<lparr>ptAfter := map_del ident (ptAfter t)\<rparr>, None))"

datatype probe_outcome = NoProber | ProbeCancelled | ProbeFailed | ProbeAnswer "probe_result option"

definition finish_probe ::
  "(auth \<Rightarrow> bool) \<Rightarrow> gotime \<Rightarrow> string \<Rightarrow> probe_outcome \<Rightarrow> probe_tables \<Rightarrow> probe_answer" where
  "finish_probe fails now id0 outcome t =
     (let ident = trim_space id0
      in case outcome of
           NoProber \<Rightarrow> (t\<lparr>ptAfter := map_del ident (ptAfter t)\<rparr>, [], False, False)
         | ProbeCancelled \<Rightarrow> (t, [], False, True)
         | ProbeFailed \<Rightarrow> (t\<lparr>ptAfter := map_put ident (now + quotaProbeFailureBackoff) (ptAfter t)\<rparr>, [], False, True)
         | ProbeAnswer None \<Rightarrow> (t\<lparr>ptAfter := map_put ident (now + quotaProbeFailureBackoff) (ptAfter t)\<rparr>, [], False, False)
         | ProbeAnswer (Some r) \<Rightarrow> UpdateQuotaFromProbe fails now ident (Some r) t)"

section \<open>Clearing by hand\<close>

lemma cleared_model:
  "let s' = fst (clearManualModelRuntimeState s now)
   in \<not> msUnavailable s' \<and> msQuota s' = zeroQuota \<and> (msStatus s' = StatusDisabled \<longleftrightarrow> msStatus s = StatusDisabled)"
  by (auto simp: clearManualModelRuntimeState_def Let_def)

lemma cleared_auth:
  assumes "aStatus a \<noteq> StatusDisabled"
  shows "let a' = fst (clearManualAuthRuntimeState a now)
    in \<not> aUnavailable a' \<and> aQuota a' = zeroQuota \<and> aStatus a' \<noteq> StatusDisabled \<and> aDisabled a' = aDisabled a \<and>
       aModelStates a' = aModelStates a \<and> aMetadata a' = aMetadata a"
  using assms by (auto simp: clearManualAuthRuntimeState_def Let_def)

lemma claude_restriction_frame:
  "let a' = fst (clearClaudeOAuthRuntimeRestrictionLocked a now)
   in aUnavailable a' = aUnavailable a \<and> aQuota a' = aQuota a \<and> aStatus a' = aStatus a \<and> aDisabled a' = aDisabled a \<and>
      aModelStates a' = aModelStates a"
  by (simp add: clearClaudeOAuthRuntimeRestrictionLocked_def set_claude_health_def Let_def)

lemma sync_frame:
  "let a' = syncPersistedQuotaRuntime a
   in aUnavailable a' = aUnavailable a \<and> aQuota a' = aQuota a \<and> aStatus a' = aStatus a \<and> aDisabled a' = aDisabled a \<and>
      aModelStates a' = aModelStates a"
  by (simp add: syncPersistedQuotaRuntime_def Let_def)

text \<open>A credential without marks of its own and of its models is not blocked, at whatever time.\<close>

lemma unmarked_not_blocked:
  assumes "\<not> aDisabled a" "aStatus a \<noteq> StatusDisabled" "aQuota a = zeroQuota" "\<not> aUnavailable a"
    and "\<And>m s. (m, Some s) \<in> set (aModelStates a) \<Longrightarrow> \<not> msUnavailable s \<and> msQuota s = zeroQuota"
    and "\<And>s. lookup_state a model = Some s \<Longrightarrow> msStatus s \<noteq> StatusDisabled"
  shows "\<not> blocked a model u"
proof -
  have z: "\<not> qExceeded (msQuota s)" if "(m, Some s) \<in> set (aModelStates a)" for m s
    using assms(5) [OF that] by (simp add: zeroQuota_def)
  have fam: "\<not> fst (family_block a model u)"
    unfolding family_block_def using z by (auto split: option.splits dest!: find_SomeD)
  have st: "\<not> fst (state_block s u)" if s: "lookup_state a model = Some s" for s
  proof -
    obtain m where "(m, Some s) \<in> set (aModelStates a)" using lookup_state_live [OF s] by (auto simp: set_live_states)
    then show ?thesis
      using assms(5) assms(6) [OF s] by (simp add: state_block_def quotaNeedsConfirmedRecovery_def zeroQuota_def)
  qed
  have "\<not> qExceeded (aQuota a)" using assms(3) by (simp add: zeroQuota_def)
  then show ?thesis using assms(1,2,4) fam st by (simp add: isAuthBlockedForModel_def split: option.split)
qed

abbreviation clear_states :: "gotime \<Rightarrow> (string, model_state option) gomap \<Rightarrow> (string, model_state option) gomap" where
  "clear_states now \<equiv> map (\<lambda>(m, st). (m, map_option (\<lambda>s. fst (clearManualModelRuntimeState s now)) st))"

lemma clearManual_facts:
  assumes "aStatus a \<noteq> StatusDisabled" "clearManualRuntimeStatusForAuth a now = (a', changed, models)"
  shows "aStatus a' \<noteq> StatusDisabled \<and> aDisabled a' = aDisabled a \<and> aQuota a' = zeroQuota \<and> \<not> aUnavailable a' \<and>
    aModelStates a' = clear_states now (aModelStates a)"
proof -
  let ?a1 = "a\<lparr>aModelStates := map (\<lambda>(m, st). (m, map_option fst st))
      (map (\<lambda>(m, st). (m, map_option (\<lambda>s. clearManualModelRuntimeState s now) st)) (aModelStates a))\<rparr>"
  let ?a2 = "fst (clearManualAuthRuntimeState ?a1 now)"
  have a': "a' = fst (clearClaudeOAuthRuntimeRestrictionLocked ?a2 now)"
    using assms(2) by (auto simp: clearManualRuntimeStatusForAuth_def Let_def split: prod.splits)
  have states: "aModelStates ?a1 = clear_states now (aModelStates a)"
    by (auto simp: option.map_comp comp_def split: option.split)
  show ?thesis
    using assms(1) cleared_auth [of ?a1 now] claude_restriction_frame [of ?a2 now] states by (simp add: a' Let_def)
qed

lemma lookup_state_cleared:
  "aModelStates a' = clear_states now (aModelStates a) \<Longrightarrow>
   lookup_state a' model = map_option (\<lambda>s. fst (clearManualModelRuntimeState s now)) (lookup_state a model)"
proof -
  assume "aModelStates a' = clear_states now (aModelStates a)"
  then have "map_of (aModelStates a') m =
      map_option (map_option (\<lambda>s. fst (clearManualModelRuntimeState s now))) (map_of (aModelStates a) m)" for m
    by (simp add: map_of_map)
  then show ?thesis by (auto simp: lookup_state_def Let_def split: option.splits)
qed

text \<open>
  C33: clearing the status of a credential by hand lifts every restriction at once, also those that saving it would have kept: as
  long as neither the credential nor the state of the model is disabled, it is not held back for the model, at that
  time or later, until something new is recorded, and no probe of it is pending. A disabled credential or model stays so.
\<close>

theorem ClearQuotaStatus_unblocks:
  assumes "trim_space ident \<noteq> ''''" "map_of (ptAuths t) (trim_space ident) = Some (Some a)"
    and "\<not> aDisabled a" "aStatus a \<noteq> StatusDisabled"
    and "ClearQuotaStatus fails now ident t = (t', calls, changed, failed)"
  shows "\<exists>a'. map_of (ptAuths t') (trim_space ident) = Some (Some a') \<and> map_of (ptAfter t') (trim_space ident) = None \<and>
    (\<forall>model u. blocked a' model u \<longleftrightarrow> (\<exists>s. model \<noteq> '''' \<and> lookup_state a model = Some s \<and> msStatus s = StatusDisabled))"
proof -
  obtain b c ms where b: "clearManualRuntimeStatusForAuth a now = (b, c, ms)" by (metis prod_cases3)
  define a' where "a' = (if c then syncPersistedQuotaRuntime (b\<lparr>aUpdatedAt := now\<rparr>) else b)"
  have t': "ptAuths t' = map_put (trim_space ident) (Some a') (ptAuths t)" "ptAfter t' = map_del (trim_space ident) (ptAfter t)"
    using assms(1,2,5) b by (auto simp: ClearQuotaStatus_def save_and_resume_def a'_def Let_def split: if_splits)
  have f: "aStatus a' \<noteq> StatusDisabled" "\<not> aDisabled a'" "aQuota a' = zeroQuota" "\<not> aUnavailable a'"
    "aModelStates a' = clear_states now (aModelStates a)"
    using clearManual_facts [OF assms(4) b] assms(3) sync_frame [of "b\<lparr>aUpdatedAt := now\<rparr>"] by (auto simp: a'_def Let_def)
  note look = lookup_state_cleared [OF f(5)]
  have clean: "\<not> msUnavailable s \<and> msQuota s = zeroQuota" if "(m, Some s) \<in> set (aModelStates a')" for m s
    using that cleared_model [where now = now] by (auto simp: f(5) Let_def map_option_case split: option.splits)
  have "blocked a' model u \<longleftrightarrow> (\<exists>s. model \<noteq> '''' \<and> lookup_state a model = Some s \<and> msStatus s = StatusDisabled)" for model u
  proof (cases "\<exists>s. model \<noteq> '''' \<and> lookup_state a model = Some s \<and> msStatus s = StatusDisabled")
    case True
    then obtain s where s: "model \<noteq> ''''" "lookup_state a' model = Some s" "msStatus s = StatusDisabled"
      using look cleared_model [where now = now] by (auto simp: Let_def)
    then have "aModelStates a' \<noteq> []" by (auto simp: lookup_state_def Let_def split: if_splits)
    then have "blocked a' model u"
      using s by (simp add: isAuthBlockedForModel_def state_block_def)
    then show ?thesis using True by blast
  next
    case False
    show ?thesis
    proof (cases "model = ''''")
      case True
      then show ?thesis using f by (simp add: isAuthBlockedForModel_def zeroQuota_def)
    next
      case model: False
      have "msStatus s \<noteq> StatusDisabled" if "lookup_state a' model = Some s" for s
        using that False model look cleared_model [where now = now] by (auto simp: Let_def)
      then have "\<not> blocked a' model u" using f clean by (intro unmarked_not_blocked) auto
      then show ?thesis using False by blast
    qed
  qed
  then show ?thesis using t' by auto
qed

definition probe_desk :: probe_tables where
  "probe_desk = \<lparr>ptAuths = [(''a'', Some (sample_auth\<lparr>aUnavailable := True, aNextRetryAfter := 90,
     aModelStates := [(''m'', Some (sample_exhausted 90))]\<rparr>))], ptAfter = [(''a'', 50)]\<rparr>"

theorem ClearQuotaStatus_unblocks_witness:
  "\<exists>a'. map_of (ptAuths (fst (ClearQuotaStatus (\<lambda>_. False) 5 '' a'' probe_desk))) ''a'' = Some (Some a') \<and>
     (\<forall>u. \<not> blocked a' ''m'' u)"
proof -
  obtain a where a: "map_of (ptAuths probe_desk) ''a'' = Some (Some a)" "\<not> aDisabled a" "aStatus a \<noteq> StatusDisabled"
    "lookup_state a ''m'' = Some (sample_exhausted 90)"
    by (simp add: probe_desk_def sample_auth_def lookup_state_def)
  have "trim_space '' a'' = ''a''" "''a'' \<noteq> ''''" "msStatus (sample_exhausted 90) \<noteq> StatusDisabled" by code_simp+
  then show ?thesis
    using ClearQuotaStatus_unblocks [of "'' a''" probe_desk a "\<lambda>_. False" 5] a
    by (cases "ClearQuotaStatus (\<lambda>_. False) 5 '' a'' probe_desk") auto
qed

section \<open>The gate of an exhausted window\<close>

lemma fallback_range:
  assumes "windowMinutes \<le> maxInt64 div minute"
  shows "0 < probeWindowFallbackCooldown windowMinutes \<and> probeWindowFallbackCooldown windowMinutes \<le> quotaWindowMaxCooldown"
proof (cases "0 < windowMinutes")
  case True
  have "windowMinutes * minute \<le> (maxInt64 div minute) * minute"
    using assms by (intro mult_right_mono) (simp_all add: duration_defs)
  also have "\<dots> \<le> maxInt64" by (simp add: duration_defs maxInt64_def)
  finally have "wrap64 (windowMinutes * minute) = windowMinutes * minute"
    using True by (intro wrap64_id) (simp_all add: duration_defs minInt64_def)
  then show ?thesis using True by (simp add: probeWindowFallbackCooldown_def cooldown_defs duration_defs)
qed (simp add: probeWindowFallbackCooldown_def cooldown_defs duration_defs)

text \<open>With a longer window the product wraps around and the deadline lies in the past.\<close>

lemma probeWindowFallbackCooldown_wraps: "probeWindowFallbackCooldown 200000000 < 0"
  by code_simp

text \<open>
  When a probe finds the window of a credential exhausted and no model of it is marked yet, the credential is held back for every model
  from then on until a definite time, the one the provider names or one derived from the length of the window, at most seven
  days ahead; at that time the gate opens by itself, whether or not another probe succeeds.
\<close>

theorem exhausted_window_gate:
  assumes "prWindowExhausted res" "\<not> hasQuotaExceededModel a" "\<not> aDisabled a" "\<not> IsAntigravityAuth a" "0 \<le> now"
    and "prNextRecoverAt res = 0 \<or> now < prNextRecoverAt res" "prWindowMinutes res \<le> maxInt64 div minute"
    and "applyQuotaProbeResult a res now = (a', changed, models)"
  shows "\<exists>t. now < t \<and> (prNextRecoverAt res = 0 \<longrightarrow> t \<le> now + quotaWindowMaxCooldown) \<and>
    (\<forall>model u. now \<le> u \<and> u < t \<longrightarrow> isAuthBlockedForModel a' model u = (True, blockReasonCooldown, t)) \<and>
    (\<forall>u. t \<le> u \<longrightarrow> \<not> activeAuthQuotaCooldown a' u \<and> \<not> blocked a' '''' u)"
proof -
  define t where "t = (if prNextRecoverAt res = 0 then now + probeWindowFallbackCooldown (prWindowMinutes res) else prNextRecoverAt res)"
  have ahead: "now < t" "prNextRecoverAt res = 0 \<longrightarrow> t \<le> now + quotaWindowMaxCooldown"
    using fallback_range [OF assms(7)] assms(6) by (auto simp: t_def)
  have a': "a' = fst (exhausted_gate a res now)"
    using assms(1,2,8) by (auto simp: applyQuotaProbeResult_def split: prod.splits)
  have f: "\<not> aDisabled a'" "aStatus a' = StatusError" "aNextRetryAfter a' = t" "\<not> IsAntigravityAuth a'" "aUnavailable a'"
    "aQuota a' = \<lparr>qExceeded = True, qRecoveryRequired = True, qReason = ''quota'', qWindow = prWindow res,
       qWindowMinutes = prWindowMinutes res, qNextRecoverAt = t, qBackoffLevel = 0\<rparr>"
    using assms(3,4) by (simp_all add: a' exhausted_gate_def t_def Let_def IsAntigravityAuth_def)
  have "isAuthBlockedForModel a' model u = (True, blockReasonCooldown, t)" if "now \<le> u" "u < t" for model u
    using f that by (simp add: isAuthBlockedForModel_def quotaNeedsConfirmedRecovery_def quota_next_def not_past_def Let_def)
  moreover have "\<not> activeAuthQuotaCooldown a' u \<and> \<not> blocked a' '''' u" if "t \<le> u" for u
    using f that ahead assms(5)
    by (simp add: activeAuthQuotaCooldown_def activeQuotaCooldown_def quotaNeedsConfirmedRecovery_def isAuthBlockedForModel_def)
  ultimately show ?thesis using ahead by blast
qed

definition weekly_exhausted :: probe_result where
  "weekly_exhausted = \<lparr>prRecovered = False, prWindowExhausted = True, prWindow = ''week'', prWindowMinutes = 10080,
     prNextRecoverAt = 0, prModels = []\<rparr>"

theorem exhausted_window_gate_witness:
  "\<exists>t. 5 < t \<and> t \<le> 5 + quotaWindowMaxCooldown \<and>
     isAuthBlockedForModel (fst (applyQuotaProbeResult sample_auth weekly_exhausted 5)) ''m'' 5 = (True, blockReasonCooldown, t)"
proof -
  have "prWindowExhausted weekly_exhausted" "\<not> hasQuotaExceededModel sample_auth" "\<not> aDisabled sample_auth"
    "\<not> IsAntigravityAuth sample_auth" "prNextRecoverAt weekly_exhausted = 0" "prWindowMinutes weekly_exhausted \<le> maxInt64 div minute"
    by code_simp+
  then show ?thesis
    using exhausted_window_gate [of weekly_exhausted sample_auth 5]
    by (cases "applyQuotaProbeResult sample_auth weekly_exhausted 5") fastforce
qed

text \<open>
  The gate is kept at the credential, and the next result of any model replaces it by the aggregate of the models: after a
  passing server error the credential is offered again a minute later, with the window still exhausted.
\<close>

definition gated_auth :: auth where
  "gated_auth = fst (applyQuotaProbeResult (sample_auth\<lparr>aModelStates := [(''m'', Some newModelState)]\<rparr>) weekly_exhausted 5)"

definition server_error :: result where
  "server_error = \<lparr>rAuthID = ''a'', rProvider = ''codex'', rModel = ''m'', rSuccess = False, rRetryAfter = None, rHeaders = [],
     rError = Some \<lparr>eCode = '''', eMessage = ''boom'', eRetryable = False, eHTTPStatus = 500, eQuotaWindow = '''', eQuotaWindowMinutes = 0\<rparr>\<rparr>"

lemma exhausted_gate_lost:
  "blocked gated_auth ''m'' (6 + minute) \<and>
   \<not> blocked (fst (applyModelFailureLocked False gated_auth server_error 6 no_effects)) ''m'' (6 + minute)"
  by code_simp

section \<open>A recovered quota\<close>

lemma probe_model_recovered:
  assumes "prRecovered res" "prModels res = []"
  shows "\<not> qExceeded (msQuota (fst (probe_model res now m s)))" "snd (snd (probe_model res now m s)) \<longleftrightarrow> qExceeded (msQuota s)"
  using assms by (auto simp: probe_model_def normalizeQuotaProbeModels_def clearQuotaModelState_def zeroQuota_def Let_def)

lemma applyQuotaProbeResult_models:
  assumes "hasQuotaExceededModel a"
  defines "a2 \<equiv> \<lambda>res now. updateAggregatedAvailability (a\<lparr>aModelStates := fst (probe_models res now (aModelStates a))\<rparr>) now"
  shows "fst (applyQuotaProbeResult a res now) = (if hasModelError (a2 res now) now then a2 res now
      else (a2 res now)\<lparr>aStatus := StatusActive, aStatusMessage := '''', aLastError := None\<rparr>)"
    "snd (snd (applyQuotaProbeResult a res now)) = snd (snd (probe_models res now (aModelStates a)))"
  unfolding applyQuotaProbeResult_def Let_def case_prod_unfold a2_def using assms(1) by simp_all

text \<open>
  A probe that reports recovery for the credential as a whole clears every quota mark, of the credential and
  of its models, and names exactly the marked models as recovered, so that the registry resumes them.
\<close>

theorem recovered_probe_clears:
  assumes "prRecovered res" "prModels res = []" "\<not> prWindowExhausted res" "0 \<le> now" "\<not> IsAntigravityAuth a"
    and "applyQuotaProbeResult a res now = (a', changed, models)"
  shows "\<not> qExceeded (aQuota a') \<and> (\<forall>m s. (m, Some s) \<in> set (aModelStates a') \<longrightarrow> \<not> qExceeded (msQuota s)) \<and>
    set models = {m. \<exists>s. (m, Some s) \<in> set (aModelStates a) \<and> qExceeded (msQuota s)}"
proof (cases "hasQuotaExceededModel a")
  case False
  then have none: "(m, Some s) \<in> set (aModelStates a) \<Longrightarrow> \<not> qExceeded (msQuota s)" for m s
    by (force simp: hasQuotaExceededModel_def list_ex_iff)
  then show ?thesis
    using False assms(1,3,6) by (auto simp: applyQuotaProbeResult_def clearQuotaAuthState_def zeroQuota_def split: if_splits)
next
  case True
  let ?states = "fst (probe_models res now (aModelStates a))" and ?b = "a\<lparr>aModelStates := fst (probe_models res now (aModelStates a))\<rparr>"
  let ?a2 = "updateAggregatedAvailability ?b now"
  have clean: "\<not> qExceeded (msQuota s)" if "(m, Some s) \<in> set ?states" for m s
    using that probe_model_recovered(1) [OF assms(1,2)] by (auto simp: probe_models_def map_option_case split: option.splits)
  have ne: "aModelStates ?b \<noteq> []" using True by (auto simp: hasQuotaExceededModel_def probe_models_def)
  have "\<not> qExceeded (aQuota ?a2)"
    using aggregate_quota_free [OF assms(4), of ?b] assms(5) clean ne by (auto simp: set_live_states)
  moreover have "\<not> qExceeded (msQuota s)" if "(m, Some s) \<in> set (aModelStates ?a2)" for m s
    using that clean by (auto simp: updateAggregatedAvailability_states map_option_case split: option.splits)
  moreover have a': "a' = (if hasModelError ?a2 now then ?a2 else ?a2\<lparr>aStatus := StatusActive, aStatusMessage := '''', aLastError := None\<rparr>)"
    and models: "models = snd (snd (probe_models res now (aModelStates a)))"
    using applyQuotaProbeResult_models [OF True, of res now] assms(6) by simp_all
  moreover have "aQuota a' = aQuota ?a2" "aModelStates a' = aModelStates ?a2" by (simp_all add: a')
  moreover have "set (snd (snd (probe_models res now (aModelStates a)))) = {m. \<exists>s. (m, Some s) \<in> set (aModelStates a) \<and> qExceeded (msQuota s)}"
    using probe_model_recovered(2) [OF assms(1,2)] by (force simp: probe_models_def split: option.splits)
  ultimately show ?thesis by simp
qed

definition all_recovered :: probe_result where
  "all_recovered = weekly_exhausted\<lparr>prRecovered := True, prWindowExhausted := False\<rparr>"

theorem recovered_probe_clears_witness:
  "let (a', c, models) = applyQuotaProbeResult (sample_auth\<lparr>aModelStates := [(''m'', Some (sample_exhausted 90)), (''n'', Some newModelState)]\<rparr>) all_recovered 5
   in \<not> qExceeded (aQuota a') \<and> set models = {''m''}"
proof -
  let ?a = "sample_auth\<lparr>aModelStates := [(''m'', Some (sample_exhausted 90)), (''n'', Some newModelState)]\<rparr>"
  have "prRecovered all_recovered" "prModels all_recovered = []" "\<not> prWindowExhausted all_recovered" "\<not> IsAntigravityAuth ?a"
    "qExceeded (msQuota (sample_exhausted 90))" "\<not> qExceeded (msQuota newModelState)"
    by code_simp+
  then show ?thesis
    using recovered_probe_clears [of all_recovered 5 ?a] by (cases "applyQuotaProbeResult ?a all_recovered 5") auto
qed

section \<open>Pacing of probes\<close>

text \<open>
  However long a quota will stay exhausted, the next probe is between one and fifteen minutes away, and one minute under a confirmed gate;
  a probe that was started keeps others of the same credential, unless forced, from starting for half a minute.
\<close>

theorem probes_paced:
  "now + quotaProbeMinInterval \<le> nextQuotaProbeTime a now \<and> nextQuotaProbeTime a now \<le> now + quotaProbeMaxInterval \<and>
   (quotaRecoveryGateArmed (aQuota a) \<longrightarrow> nextQuotaProbeTime a now = now + quotaProbeMinInterval) \<and>
   (start_probe force now ident t = (t', Some b) \<and> 0 \<le> now \<and> now \<le> u \<and> u < now + quotaProbePendingBackoff \<longrightarrow>
      start_probe False u ident t' = (t', None))"
proof (intro conjI impI)
  show "now + quotaProbeMinInterval \<le> nextQuotaProbeTime a now" "nextQuotaProbeTime a now \<le> now + quotaProbeMaxInterval"
    "quotaRecoveryGateArmed (aQuota a) \<Longrightarrow> nextQuotaProbeTime a now = now + quotaProbeMinInterval"
    by (simp_all add: nextQuotaProbeTime_def Let_def quotaProbeMinInterval_def quotaProbeMaxInterval_def duration_defs)
  assume s: "start_probe force now ident t = (t', Some b) \<and> 0 \<le> now \<and> now \<le> u \<and> u < now + quotaProbePendingBackoff"
  then have "t' = t\<lparr>ptAfter := map_put (trim_space ident) (now + quotaProbePendingBackoff) (ptAfter t)\<rparr>"
    "map_of (ptAuths t) (trim_space ident) = Some (Some b)" "trim_space ident \<noteq> ''''"
    by (auto simp: start_probe_def Let_def split: if_splits option.splits)
  then show "start_probe False u ident t' = (t', None)"
    using s by (simp add: start_probe_def Let_def quotaProbePendingBackoff_def duration_defs)
qed

theorem probes_paced_witness:
  "let t' = fst (start_probe False 60 ''a'' probe_desk) in start_probe False 70 ''a'' t' = (t', None)"
proof -
  obtain t' b where s: "start_probe False 60 ''a'' probe_desk = (t', Some b)"
    by (simp add: start_probe_def probe_desk_def Let_def trim_space_def is_space_def map_get_def)
  have "(70 :: int) < 60 + quotaProbePendingBackoff" by code_simp
  then show ?thesis using probes_paced [of 60 sample_auth False "''a''" probe_desk t' b 70] s by (simp add: Let_def)
qed

section \<open>Gates survive a restart\<close>

text \<open>A credential as it comes back from the store: its description and its metadata, without any runtime state.\<close>

definition reloaded :: "(goany \<Rightarrow> goany) \<Rightarrow> auth \<Rightarrow> auth" where
  "reloaded stored a =
     a\<lparr>aStatus := StatusActive, aStatusMessage := '''', aUnavailable := False, aQuota := zeroQuota, aLastError := None,
       aNextRetryAfter := 0, aModelStates := [], aMetadata := map (\<lambda>(k, v). (k, stored v)) (aMetadata a)\<rparr>"

lemma persisted_models_simps [simp]:
  "persisted_models [] = []"
  "persisted_models ((k, st) # states) =
     (case st of
        None \<Rightarrow> persisted_models states
      | Some s \<Rightarrow> if quotaRecoveryGateArmed (msQuota s)
          then (k, \<lparr>qmStatus = msStatus s, qmStatusMessage = msStatusMessage s, qmNextRetryAfter = msNextRetryAfter s, qmQuota = msQuota s\<rparr>)
                 # persisted_models states
          else persisted_models states)"
  by (simp_all add: persisted_models_def List.map_filter_def split: option.split)

lemma map_of_persisted:
  assumes "map_wf states"
  shows "map_of (persisted_models states) m =
     (case map_of states m of
        Some (Some s) \<Rightarrow> if quotaRecoveryGateArmed (msQuota s)
          then Some \<lparr>qmStatus = msStatus s, qmStatusMessage = msStatusMessage s, qmNextRetryAfter = msNextRetryAfter s, qmQuota = msQuota s\<rparr>
          else None
      | _ \<Rightarrow> None)"
  using assms
proof (induction states)
  case (Cons e states)
  obtain k st where e: "e = (k, st)" by force
  have "map_of states k = None" using Cons.prems by (simp add: e map_of_eq_None_iff)
  then show ?case
    using Cons e by (cases st) (auto split: option.split)
qed simp

lemma persisted_wf: "map_wf states \<Longrightarrow> map_wf (persisted_models states)"
proof (induction states)
  case (Cons e states)
  have "fst ` set (persisted_models xs) \<subseteq> fst ` set xs" for xs
  proof (induction xs)
    case (Cons x xs)
    then show ?case by (cases x; cases "snd x") (simp_all, blast+)
  qed simp
  then show ?case using Cons by (cases e) (auto split: option.split)
qed simp

lemma restored_models:
  assumes "map_wf ps" "map_of ps m = Some p" "quotaRecoveryGateArmed (qmQuota p)"
  shows "map_of (fold restore_model ps states) m =
    Some (Some \<lparr>msStatus = gated_status (qmStatus p), msStatusMessage = gated_message (qmStatusMessage p),
       msUnavailable = True, msNextRetryAfter = qmNextRetryAfter p, msLastError = None, msQuota = qmQuota p, msUpdatedAt = 0\<rparr>)"
  using assms(1,2)
proof (induction ps arbitrary: states)
  case (Cons e ps)
  have keep: "map_of (fold restore_model xs st) m = map_of st m" if "m \<notin> fst ` set xs" for xs st
    using that by (induction xs arbitrary: st) (auto simp: restore_model_def)
  obtain k p' where e: "e = (k, p')" by force
  show ?case
  proof (cases "k = m")
    case True
    then show ?thesis using Cons.prems keep [of ps] assms(3) by (simp add: e restore_model_def)
  next
    case False
    then show ?thesis using Cons by (simp add: e)
  qed
qed simp

text \<open>
  C34: a gate that a probe has confirmed outlives the process. After the credential is saved, dropped and loaded again, at any later time
  the model it was armed for is still held back until the same deadline, provided the stored value
  reads back as what was written; with a gate on the credential alone its whole quota state comes back.
\<close>

theorem gates_survive_restart:
  fixes now
  assumes "\<And>rt. decode (stored (AQuotaRuntime rt)) = Some rt" "\<And>rt. stored (AQuotaRuntime rt) \<noteq> ANil"
    and "aMetadata a \<noteq> []" "\<not> aDisabled a" "map_wf (aModelStates a)"
  defines "a' \<equiv> restorePersistedQuotaRuntime decode now (reloaded stored (syncPersistedQuotaRuntime a))"
  shows "(map_of (aModelStates a) m = Some (Some s) \<and> quotaRecoveryGateArmed (msQuota s) \<and> m \<noteq> '''' \<and> now \<le> u \<and>
            u < qNextRecoverAt (msQuota s) \<longrightarrow> blocked a' m u \<and> msQuota (get_model_state a' m) = msQuota s) \<and>
         (quotaRecoveryGateArmed (aQuota a) \<and> aStatus a \<noteq> StatusDisabled \<and> persisted_models (aModelStates a) = [] \<longrightarrow>
            aQuota a' = aQuota a \<and> aNextRetryAfter a' = aNextRetryAfter a)"
proof -
  let ?ms = "persisted_models (aModelStates a)" and ?r = "reloaded stored (syncPersistedQuotaRuntime a)"
  let ?rt = "\<lparr>qrStatus = aStatus a, qrStatusMessage = aStatusMessage a, qrNextRetryAfter = aNextRetryAfter a,
              qrQuota = aQuota a, qrModelStates = ?ms\<rparr>"
  have reload: "\<not> aDisabled ?r" "aStatus ?r \<noteq> StatusDisabled" "aModelStates ?r = []"
    using assms(4) sync_frame [of a] by (simp_all add: reloaded_def Let_def)
  have found: "map_of (aMetadata ?r) persistedQuotaRuntimeMetadataKey = Some (stored (AQuotaRuntime ?rt))"
    if "quotaRecoveryGateArmed (aQuota a) \<or> ?ms \<noteq> []"
    using that assms(3) by (auto simp: reloaded_def syncPersistedQuotaRuntime_def map_of_map Let_def)
  let ?b = "if quotaRecoveryGateArmed (aQuota a)
      then ?r\<lparr>aQuota := aQuota a, aNextRetryAfter := aNextRetryAfter a, aUnavailable := True,
              aStatus := gated_status (aStatus a), aStatusMessage := gated_message (aStatusMessage a)\<rparr> else ?r"
  have eq: "a' = (if ?ms = [] then ?b else updateAggregatedAvailability (?b\<lparr>aModelStates := fold restore_model ?ms []\<rparr>) now)"
    if "quotaRecoveryGateArmed (aQuota a) \<or> ?ms \<noteq> []"
    unfolding a'_def restorePersistedQuotaRuntime_def using reload found [OF that] assms(1,2) by (simp add: Let_def)
  show ?thesis
  proof (intro conjI impI; elim conjE)
    assume s: "map_of (aModelStates a) m = Some (Some s)" "quotaRecoveryGateArmed (msQuota s)" "m \<noteq> ''''" "now \<le> u"
      "u < qNextRecoverAt (msQuota s)"
    let ?p = "\<lparr>qmStatus = msStatus s, qmStatusMessage = msStatusMessage s, qmNextRetryAfter = msNextRetryAfter s, qmQuota = msQuota s\<rparr>"
    have p: "map_of ?ms m = Some ?p" using s(1,2) by (simp add: map_of_persisted [OF assms(5)])
    then have ne: "?ms \<noteq> []" by auto
    let ?c = "?b\<lparr>aModelStates := fold restore_model ?ms []\<rparr>"
    obtain s0 where s0: "map_of (aModelStates ?c) m = Some (Some s0)" "msQuota s0 = msQuota s"
      using restored_models [OF persisted_wf [OF assms(5)] p] s(2) by simp
    have a': "a' = updateAggregatedAvailability ?c now" using eq ne by simp
    have st: "map_of (aModelStates a') m = Some (Some (settle now s0))"
      using s0(1) by (simp add: a' updateAggregatedAvailability_states map_of_map)
    then have look: "lookup_state a' m = Some (settle now s0)" "aModelStates a' \<noteq> []" by (auto simp: lookup_state_def)
    have "fst (state_block (settle now s0) u)"
      using s(2,4,5) s0(2) by (simp add: state_block_def quotaNeedsConfirmedRecovery_def quotaRecoveryGateArmed_def)
    then show "blocked a' m u" using look s(3) by (simp add: isAuthBlockedForModel_def)
    show "msQuota (get_model_state a' m) = msQuota s" using st s0(2) by (simp add: get_model_state_def)
  next
    assume "quotaRecoveryGateArmed (aQuota a)" "?ms = []"
    then show "aQuota a' = aQuota a" "aNextRetryAfter a' = aNextRetryAfter a" using eq by simp_all
  qed
qed

theorem gates_survive_restart_witness:
  "blocked (restorePersistedQuotaRuntime (\<lambda>v. case v of AQuotaRuntime rt \<Rightarrow> Some rt | _ \<Rightarrow> None) 7
     (reloaded id (syncPersistedQuotaRuntime (sample_auth\<lparr>aMetadata := [(''type'', AStr ''codex'')],
        aModelStates := [(''m'', Some ((sample_exhausted 90)\<lparr>msQuota := zeroQuota\<lparr>qExceeded := True, qRecoveryRequired := True, qNextRecoverAt := 90\<rparr>\<rparr>))]\<rparr>))))
     ''m'' 50"
proof -
  let ?s = "(sample_exhausted 90)\<lparr>msQuota := zeroQuota\<lparr>qExceeded := True, qRecoveryRequired := True, qNextRecoverAt := 90\<rparr>\<rparr>"
  let ?a = "sample_auth\<lparr>aMetadata := [(''type'', AStr ''codex'')], aModelStates := [(''m'', Some ?s)]\<rparr>"
  have "aMetadata ?a \<noteq> []" "map_wf (aModelStates ?a)" "map_of (aModelStates ?a) ''m'' = Some (Some ?s)" by simp_all
  moreover have "\<not> aDisabled ?a" "quotaRecoveryGateArmed (msQuota ?s)" "qNextRecoverAt (msQuota ?s) = 90" by code_simp+
  ultimately show ?thesis
    using gates_survive_restart [where decode = "\<lambda>v. case v of AQuotaRuntime rt \<Rightarrow> Some rt | _ \<Rightarrow> None"
        and stored = id and a = ?a and now = 7 and m = "''m''" and s = ?s and u = 50] by simp
qed

text \<open>When saving fails, the credential is already cleared but the registry is not told to resume its models.\<close>

lemma failed_save_keeps_suspension:
  assumes "trim_space ident \<noteq> ''''" "ClearQuotaStatus fails now ident t = (t', calls, changed, True)"
  shows "calls = [] \<and> changed"
  using assms by (auto simp: ClearQuotaStatus_def save_and_resume_def Let_def split: if_splits option.splits prod.splits)

end
