(* ===== verification/Routing_Scheduling.thy ===== *)
theory Routing_Scheduling
  imports Complex_Main Routing_Models
begin

text \<open>
  The configuration of channel groups: \<^verbatim>\<open>src/internal/config/routing_scheduling.go\<close>, \<^verbatim>\<open>routing_groups.go\<close>, and
  the snapshot the runtime takes of it (\<^verbatim>\<open>src/sdk/cliproxy/auth/conductor_runtime_snapshot.go\<close>).

  A floating-point release threshold is a rational. The path routes of the configuration are left out.
\<close>

section \<open>Data\<close>

record sticky_config =
  stEnabled :: bool
  stMaxRequests :: int
  stReleaseAtLoad :: rat

record group_scheduling =
  gsDistribution :: string
  gsSticky :: sticky_config
  gsChannelWeights :: "(string, int) gomap"

record channel_match =
  cmPrefixes :: "string list"
  cmChannels :: "string list"
  cmTags :: "string list"

record channel_group =
  cgName :: string
  cgDescription :: string
  cgStrategy :: string
  cgScheduling :: group_scheduling
  cgMatch :: channel_match
  cgExcludeFromDefault :: bool
  cgPriority :: int
  cgChannelPriorities :: "(string, int) gomap"
  cgAllowedModels :: "string list"
  cgExcludedModels :: "string list"

definition DefaultStickyMaxRequests :: int where "DefaultStickyMaxRequests = 200"

definition no_sticky :: sticky_config where
  "no_sticky = \<lparr>stEnabled = False, stMaxRequests = 0, stReleaseAtLoad = 0\<rparr>"

section \<open>Normalisation\<close>

text \<open>\<^verbatim>\<open>strings.Fields\<close>: the maximal pieces without white space.\<close>

fun str_fields_acc :: "string \<Rightarrow> string \<Rightarrow> string list" where
  "str_fields_acc cur [] = (if cur = [] then [] else [rev cur])"
| "str_fields_acc cur (c # cs) =
     (if is_space c then (if cur = [] then str_fields_acc [] cs else rev cur # str_fields_acc [] cs)
      else str_fields_acc (c # cur) cs)"

definition str_fields :: "string \<Rightarrow> string list" where "str_fields s = str_fields_acc [] s"

definition NormalizeRoutingTag :: "string \<Rightarrow> string" where
  "NormalizeRoutingTag v =
     (let t = trim_space (to_lower v) in if t = '''' then '''' else join ''-'' (str_fields t))"

definition NormalizeDistribution :: "string \<Rightarrow> string" where
  "NormalizeDistribution v =
     (let t = trim_space (to_lower v)
      in if t \<in> set [''least-load'', ''leastload'', ''ll''] then ''least-load''
         else if t \<in> set [''fill-first'', ''fillfirst'', ''ff''] then ''fill-first''
         else ''weighted'')"

definition NormalizeRoutingStrategy :: "string \<Rightarrow> string" where
  "NormalizeRoutingStrategy v =
     (let t = trim_space (to_lower v)
      in if t \<in> set [''session-sticky'', ''sessionsticky'', ''sticky'', ''ss''] then ''session-sticky''
         else if t \<in> set [''fill-first'', ''fillfirst'', ''ff''] then ''fill-first''
         else ''round-robin'')"

definition normalizeOptionalRoutingStrategy :: "string \<Rightarrow> string" where
  "normalizeOptionalRoutingStrategy v = (if trim_space v = '''' then '''' else NormalizeRoutingStrategy v)"

definition weight_step :: "string \<times> int \<Rightarrow> (string, int) gomap \<Rightarrow> (string, int) gomap" where
  "weight_step e out =
     (case e of (key, weight) \<Rightarrow>
        let name = trim_space key
        in if name = '''' \<or> weight < 0 then out
           else if (case map_of out name of Some old \<Rightarrow> weight \<le> old | None \<Rightarrow> False) then out
           else map_put name weight out)"

definition normalizeChannelWeights :: "(string, int) gomap \<Rightarrow> (string, int) gomap" where
  "normalizeChannelWeights values = fold weight_step values []"

definition priority_step :: "string \<times> int \<Rightarrow> (string, int) gomap \<Rightarrow> (string, int) gomap" where
  "priority_step e out =
     (case e of (key, priority) \<Rightarrow>
        let name = trim_space key
        in if name = '''' \<or> priority < 0 then out
           else (case map_of out name of
                   Some old \<Rightarrow> if old < priority then map_put name priority out else out
                 | None \<Rightarrow> map_put name priority out))"

definition normalizeChannelPriorities :: "(string, int) gomap \<Rightarrow> (string, int) gomap" where
  "normalizeChannelPriorities values = fold priority_step values []"

text \<open>\<open>seen\<close> holds the lower-cased values already kept.\<close>

fun normalize_list :: "(string \<Rightarrow> string) \<Rightarrow> string list \<Rightarrow> string set \<Rightarrow> string list" where
  "normalize_list f [] seen = []"
| "normalize_list f (v # vs) seen =
     (let n = f (trim_space v)
      in if n = '''' \<or> to_lower n \<in> seen then normalize_list f vs seen
         else n # normalize_list f vs (insert (to_lower n) seen))"

definition normalizeStringList :: "string list \<Rightarrow> (string \<Rightarrow> string) \<Rightarrow> string list" where
  "normalizeStringList values f = normalize_list f values {}"

definition legacyStrategyForScheduling :: "group_scheduling \<Rightarrow> string" where
  "legacyStrategyForScheduling s =
     (if stEnabled (gsSticky s) then ''session-sticky''
      else if gsDistribution s = ''fill-first'' then ''fill-first''
      else ''round-robin'')"

definition MigrateLegacyPriorities :: "(string, int) gomap \<Rightarrow> (string, int) gomap" where
  "MigrateLegacyPriorities priorities = (if list_ex (\<lambda>(_, p). 0 < p) priorities then priorities else [])"

definition schedulingFromLegacy :: "string \<Rightarrow> (string, int) gomap \<Rightarrow> group_scheduling" where
  "schedulingFromLegacy strategy priorities =
     (let s = NormalizeRoutingStrategy strategy
      in \<lparr>gsDistribution = (if s = ''fill-first'' then ''fill-first'' else ''weighted''),
          gsSticky = no_sticky\<lparr>stEnabled := (s = ''session-sticky'')\<rparr>,
          gsChannelWeights = MigrateLegacyPriorities priorities\<rparr>)"

definition SchedulingFromLegacyGroup :: "channel_group \<Rightarrow> group_scheduling" where
  "SchedulingFromLegacyGroup g =
     (let s = schedulingFromLegacy (cgStrategy g) (cgChannelPriorities g)
      in if stEnabled (gsSticky s) \<and> stMaxRequests (gsSticky s) = 0
         then s\<lparr>gsSticky := (gsSticky s)\<lparr>stMaxRequests := DefaultStickyMaxRequests\<rparr>\<rparr> else s)"

definition legacy_only :: "group_scheduling \<Rightarrow> bool" where
  "legacy_only s \<longleftrightarrow>
     trim_space (gsDistribution s) = '''' \<and> \<not> stEnabled (gsSticky s) \<and> gsChannelWeights s = []"

definition sanitize_sticky :: "sticky_config \<Rightarrow> sticky_config" where
  "sanitize_sticky st =
     (if \<not> stEnabled st then no_sticky
      else
        let m1 = (if stMaxRequests st = 0 then DefaultStickyMaxRequests else stMaxRequests st);
            m2 = (if m1 < 0 then 0 else m1);
            r1 = (if stReleaseAtLoad st < 0 then 0 else stReleaseAtLoad st);
            r2 = (if 1 < r1 then 1 else r1)
        in st\<lparr>stMaxRequests := m2, stReleaseAtLoad := r2\<rparr>)"

definition sanitizeScheduling :: "channel_group \<Rightarrow> channel_group" where
  "sanitizeScheduling g =
     (let migrated = legacy_only (cgScheduling g);
          s0 = (if migrated then schedulingFromLegacy (cgStrategy g) (cgChannelPriorities g) else cgScheduling g);
          w1 = normalizeChannelWeights (gsChannelWeights s0);
          w2 = (if \<not> migrated \<and> w1 = [] \<and> cgChannelPriorities g \<noteq> []
                then normalizeChannelWeights (MigrateLegacyPriorities (cgChannelPriorities g)) else w1);
          s = \<lparr>gsDistribution = NormalizeDistribution (gsDistribution s0),
               gsSticky = sanitize_sticky (gsSticky s0), gsChannelWeights = w2\<rparr>
      in g\<lparr>cgScheduling := s, cgStrategy := legacyStrategyForScheduling s,
           cgChannelPriorities := normalizeChannelWeights w2\<rparr>)"

text \<open>The body of the loop over groups of \<^verbatim>\<open>SanitizeRouting\<close>, and the loop.\<close>

definition sanitize_group :: "channel_group \<Rightarrow> channel_group" where
  "sanitize_group g0 =
     (let name = NormalizeGroupName (cgName g0);
          m = cgMatch g0;
          g1 = g0\<lparr>cgName := name, cgDescription := trim_space (cgDescription g0),
                  cgStrategy := normalizeOptionalRoutingStrategy (cgStrategy g0),
                  cgExcludeFromDefault := (if name = ''default'' then False else cgExcludeFromDefault g0),
                  cgMatch := \<lparr>cmPrefixes = normalizeStringList (cmPrefixes m) NormalizeGroupName,
                              cmChannels = normalizeStringList (cmChannels m) trim_space,
                              cmTags = normalizeStringList (cmTags m) NormalizeRoutingTag\<rparr>,
                  cgChannelPriorities := normalizeChannelPriorities (cgChannelPriorities g0)\<rparr>;
          g2 = sanitizeScheduling g1
      in g2\<lparr>cgAllowedModels := normalizeStringList (cgAllowedModels g2) trim_space,
            cgExcludedModels := normalizeStringList (cgExcludedModels g2) trim_space\<rparr>)"

fun sanitize_groups :: "channel_group list \<Rightarrow> string set \<Rightarrow> channel_group list" where
  "sanitize_groups [] seen = []"
| "sanitize_groups (g # gs) seen =
     (let h = sanitize_group g
      in if cgName h = '''' \<or> cgName h \<in> seen then sanitize_groups gs seen
         else h # sanitize_groups gs (insert (cgName h) seen))"

record routing_config =
  rcStrategy :: string
  rcIncludeDefaultGroup :: bool
  rcChannelGroups :: "channel_group list"

definition SanitizeRouting :: "routing_config \<Rightarrow> routing_config" where
  "SanitizeRouting cfg =
     cfg\<lparr>rcStrategy := NormalizeRoutingStrategy (rcStrategy cfg),
         rcChannelGroups := sanitize_groups (rcChannelGroups cfg) {}\<rparr>"

definition ExplicitWeightsAllZero :: "group_scheduling \<Rightarrow> bool" where
  "ExplicitWeightsAllZero s \<longleftrightarrow>
     gsChannelWeights s \<noteq> [] \<and> \<not> list_ex (\<lambda>(_, w). 0 < w) (gsChannelWeights s)"

section \<open>The runtime snapshot\<close>

definition normalizeOptionalRuntimeRoutingStrategy :: "string \<Rightarrow> string" where
  "normalizeOptionalRuntimeRoutingStrategy v =
     (let t = to_lower (trim_space v)
      in if t = '''' then ''''
         else if t \<in> set [''session-sticky'', ''sessionsticky'', ''sticky'', ''ss''] then ''session-sticky''
         else if t \<in> set [''fill-first'', ''fillfirst'', ''ff''] then ''fill-first''
         else ''round-robin'')"

definition cloneRuntimeGroupScheduling :: "channel_group \<Rightarrow> group_scheduling" where
  "cloneRuntimeGroupScheduling g =
     (let s0 = cgScheduling g;
          strat = normalizeOptionalRuntimeRoutingStrategy (cgStrategy g);
          s = (if legacy_only s0
               then \<lparr>gsDistribution = (if strat = ''fill-first'' then ''fill-first'' else ''weighted''),
                     gsSticky = (if strat = ''session-sticky''
                                 then (gsSticky s0)\<lparr>stEnabled := True, stMaxRequests := DefaultStickyMaxRequests\<rparr>
                                 else gsSticky s0),
                     gsChannelWeights = MigrateLegacyPriorities (cgChannelPriorities g)\<rparr>
               else s0)
      in s\<lparr>gsDistribution := NormalizeDistribution (gsDistribution s)\<rparr>)"

definition newRuntimeRouting :: "routing_config \<Rightarrow> routing_config" where
  "newRuntimeRouting cfg =
     cfg\<lparr>rcStrategy := normalizeOptionalRuntimeRoutingStrategy (rcStrategy cfg),
         rcChannelGroups := map (\<lambda>g. g\<lparr>cgStrategy := normalizeOptionalRuntimeRoutingStrategy (cgStrategy g),
                                       cgScheduling := cloneRuntimeGroupScheduling g\<rparr>) (rcChannelGroups cfg)\<rparr>"

section \<open>Order-independent normalisation\<close>

text \<open>The largest admissible weight configured for a name, over all spellings that trim to it.\<close>

definition weights_for :: "string \<Rightarrow> (string, int) gomap \<Rightarrow> int set" where
  "weights_for name vs = {w. \<exists>k. (k, w) \<in> set vs \<and> trim_space k = name \<and> 0 \<le> w}"

definition largest_weight :: "string \<Rightarrow> (string, int) gomap \<Rightarrow> int option" where
  "largest_weight name vs =
     (if name = '''' \<or> weights_for name vs = {} then None else Some (Max (weights_for name vs)))"

lemma finite_weights_for [simp]: "finite (weights_for name vs)"
proof (rule finite_subset)
  show "weights_for name vs \<subseteq> snd ` set vs" by (force simp: weights_for_def image_iff)
qed simp

lemma weights_for_Nil [simp]: "weights_for name [] = {}"
  by (simp add: weights_for_def)

lemma weights_for_snoc:
  "weights_for name (vs @ [(k, w)]) =
     (if trim_space k = name \<and> 0 \<le> w then insert w (weights_for name vs) else weights_for name vs)"
  by (auto simp: weights_for_def)

lemma weight_step_largest:
  assumes "map_of out = (\<lambda>n. largest_weight n vs)"
  shows "map_of (weight_step (k, w) out) = (\<lambda>n. largest_weight n (vs @ [(k, w)]))"
proof
  fix n
  show "map_of (weight_step (k, w) out) n = largest_weight n (vs @ [(k, w)])"
    using assms
    by (auto simp: weight_step_def Let_def largest_weight_def weights_for_snoc max_def fun_eq_iff
        split: option.splits if_splits)
qed

lemma normalizeChannelWeights_largest:
  "map_of (normalizeChannelWeights vs) = (\<lambda>n. largest_weight n vs)"
proof (induction vs rule: rev_induct)
  case Nil
  show ?case by (simp add: normalizeChannelWeights_def largest_weight_def fun_eq_iff)
next
  case (snoc e vs)
  then show ?case
    using weight_step_largest [of "normalizeChannelWeights vs" vs "fst e" "snd e"]
    by (simp add: normalizeChannelWeights_def)
qed

lemma normalizeChannelWeights_wf: "map_wf (normalizeChannelWeights vs)"
proof (induction vs rule: rev_induct)
  case (snoc e vs)
  then show ?case
    by (auto simp: normalizeChannelWeights_def weight_step_def Let_def split: prod.splits option.splits)
qed (simp add: normalizeChannelWeights_def)

text \<open>A table that is in normal form is a fixed point.\<close>

definition weights_normal :: "(string, int) gomap \<Rightarrow> bool" where
  "weights_normal vs \<longleftrightarrow> map_wf vs \<and> (\<forall>(k, w) \<in> set vs. trim_space k = k \<and> k \<noteq> '''' \<and> 0 \<le> w)"

lemma map_put_fresh: "k \<notin> fst ` set m \<Longrightarrow> map_put k v m = m @ [(k, v)]"
  by (induction k v m rule: map_put.induct) auto

lemma weights_normal_snoc:
  "weights_normal (vs @ [(k, w)]) \<longleftrightarrow>
     weights_normal vs \<and> k \<notin> fst ` set vs \<and> trim_space k = k \<and> k \<noteq> '''' \<and> 0 \<le> w"
  by (auto simp: weights_normal_def)

lemma weight_step_entries:
  "set (weight_step e out) \<subseteq> set out \<union> {(k, w). trim_space k = k \<and> k \<noteq> '''' \<and> 0 \<le> w}"
proof (cases e)
  case (Pair k w)
  have "weight_step e out = out \<or>
        weight_step e out = map_put (trim_space k) w out \<and> trim_space k \<noteq> '''' \<and> 0 \<le> w"
    by (simp add: Pair weight_step_def Let_def)
  then show ?thesis by (auto dest!: in_set_map_put)
qed

lemma normalizeChannelWeights_normal: "weights_normal (normalizeChannelWeights vs)"
proof (induction vs rule: rev_induct)
  case (snoc e vs)
  have wf: "map_wf (normalizeChannelWeights (vs @ [e]))" by (rule normalizeChannelWeights_wf)
  have "set (normalizeChannelWeights (vs @ [e])) \<subseteq>
        set (normalizeChannelWeights vs) \<union> {(k, w). trim_space k = k \<and> k \<noteq> '''' \<and> 0 \<le> w}"
    using weight_step_entries [of e "normalizeChannelWeights vs"] by (simp add: normalizeChannelWeights_def)
  with wf snoc show ?case by (auto simp: weights_normal_def)
qed (simp add: normalizeChannelWeights_def weights_normal_def)

lemma normalizeChannelWeights_fix: "weights_normal vs \<Longrightarrow> normalizeChannelWeights vs = vs"
proof (induction vs rule: rev_induct)
  case (snoc e vs)
  obtain k w where e: "e = (k, w)" by force
  from snoc have "normalizeChannelWeights vs = vs" and k: "k \<notin> fst ` set vs" "trim_space k = k" "k \<noteq> ''''" "0 \<le> w"
    by (simp_all add: e weights_normal_snoc)
  moreover from k have "map_of vs k = None" by (simp add: map_of_eq_None_iff)
  ultimately show ?case
    by (simp add: e normalizeChannelWeights_def weight_step_def Let_def map_put_fresh)
qed (simp add: normalizeChannelWeights_def)

lemma normalizeChannelWeights_idem [simp]:
  "normalizeChannelWeights (normalizeChannelWeights vs) = normalizeChannelWeights vs"
  by (rule normalizeChannelWeights_fix) (rule normalizeChannelWeights_normal)

text \<open>
  The weights a group is scheduled with do not depend on the order in which Go enumerates the configured map:
  of all the spellings that trim to a channel name the largest non-negative weight wins, blank names and negative
  weights are dropped, and an explicit 0 is kept.
\<close>

theorem normalizeChannelWeights_order:
  assumes "set vs = set us"
  shows "map_of (normalizeChannelWeights vs) = map_of (normalizeChannelWeights us) \<and>
         map_of (normalizeChannelWeights vs) n = largest_weight n vs"
proof -
  have "largest_weight m vs = largest_weight m us" for m
    using assms by (simp add: largest_weight_def weights_for_def)
  then show ?thesis by (simp add: normalizeChannelWeights_largest)
qed

theorem normalizeChannelWeights_order_witness:
  "map_of (normalizeChannelWeights [('' a'', 3), (''a'', 5), (''b'', 0), (''c'', -1)]) =
   map_of (normalizeChannelWeights [(''c'', -1), (''b'', 0), (''a'', 5), ('' a'', 3)]) \<and>
   normalizeChannelWeights [('' a'', 3), (''a'', 5), (''b'', 0), (''c'', -1)] = [(''a'', 5), (''b'', 0)]"
proof
  show "map_of (normalizeChannelWeights [('' a'', 3), (''a'', 5), (''b'', 0), (''c'', -1)]) =
        map_of (normalizeChannelWeights [(''c'', -1), (''b'', 0), (''a'', 5), ('' a'', 3)])"
    using normalizeChannelWeights_order
      [of "[('' a'', 3), (''a'', 5), (''b'', 0), (''c'', -1)]" "[(''c'', -1), (''b'', 0), (''a'', 5), ('' a'', 3)]"]
    by auto
qed code_simp

section \<open>Sanitizing is stable\<close>

lemma normal_distribution: "NormalizeDistribution d \<in> {''weighted'', ''least-load'', ''fill-first''}"
  by (simp add: NormalizeDistribution_def Let_def)

lemma distribution_modes:
  "NormalizeDistribution ''weighted'' = ''weighted''" "NormalizeDistribution ''least-load'' = ''least-load''"
  "NormalizeDistribution ''fill-first'' = ''fill-first''"
  "trim_space ''weighted'' = ''weighted''" "trim_space ''least-load'' = ''least-load''"
  "trim_space ''fill-first'' = ''fill-first''"
  by code_simp+

lemma trim_NormalizeDistribution [simp]:
  "trim_space (NormalizeDistribution d) \<noteq> ''''" "NormalizeDistribution (NormalizeDistribution d) = NormalizeDistribution d"
  using normal_distribution [of d] by (auto simp: distribution_modes)

lemma sanitize_sticky_idem:
  "\<not> stEnabled st \<or> 0 \<le> stMaxRequests st \<Longrightarrow> sanitize_sticky (sanitize_sticky st) = sanitize_sticky st"
  by (auto simp: sanitize_sticky_def no_sticky_def Let_def DefaultStickyMaxRequests_def)

lemma sanitizeScheduling_scheduling:
  "\<exists>d st ws. cgScheduling (sanitizeScheduling g) =
     \<lparr>gsDistribution = NormalizeDistribution d, gsSticky = sanitize_sticky st, gsChannelWeights = normalizeChannelWeights ws\<rparr>"
  by (simp add: sanitizeScheduling_def Let_def split: if_split) blast

lemma sanitizeScheduling_mirror:
  "cgChannelPriorities (sanitizeScheduling g) = gsChannelWeights (cgScheduling (sanitizeScheduling g))"
  "cgStrategy (sanitizeScheduling g) = legacyStrategyForScheduling (cgScheduling (sanitizeScheduling g))"
  by (simp_all add: sanitizeScheduling_def Let_def)

lemma sanitize_sticky_range:
  "0 \<le> stMaxRequests (sanitize_sticky st) \<and> 0 \<le> stReleaseAtLoad (sanitize_sticky st) \<and>
   stReleaseAtLoad (sanitize_sticky st) \<le> 1"
  by (simp add: sanitize_sticky_def no_sticky_def Let_def DefaultStickyMaxRequests_def)

lemma sanitizeScheduling_normal:
  "gsDistribution (cgScheduling (sanitizeScheduling g)) \<in> {''weighted'', ''least-load'', ''fill-first''} \<and>
   0 \<le> stMaxRequests (gsSticky (cgScheduling (sanitizeScheduling g))) \<and>
   0 \<le> stReleaseAtLoad (gsSticky (cgScheduling (sanitizeScheduling g))) \<and>
   stReleaseAtLoad (gsSticky (cgScheduling (sanitizeScheduling g))) \<le> 1 \<and>
   weights_normal (gsChannelWeights (cgScheduling (sanitizeScheduling g))) \<and>
   cgChannelPriorities (sanitizeScheduling g) = gsChannelWeights (cgScheduling (sanitizeScheduling g)) \<and>
   cgStrategy (sanitizeScheduling g) = legacyStrategyForScheduling (cgScheduling (sanitizeScheduling g))"
proof -
  obtain d st ws where s: "cgScheduling (sanitizeScheduling g) =
     \<lparr>gsDistribution = NormalizeDistribution d, gsSticky = sanitize_sticky st, gsChannelWeights = normalizeChannelWeights ws\<rparr>"
    using sanitizeScheduling_scheduling by blast
  show ?thesis
    using normal_distribution [of d] sanitize_sticky_range [of st] normalizeChannelWeights_normal [of ws]
    by (simp add: s sanitizeScheduling_mirror)
qed

text \<open>A block in normal form is left alone.\<close>

lemma sanitizeScheduling_fix:
  assumes "cgScheduling g = \<lparr>gsDistribution = NormalizeDistribution d, gsSticky = st, gsChannelWeights = ws\<rparr>"
    and "sanitize_sticky st = st" and "weights_normal ws" and "cgChannelPriorities g = ws"
    and "cgStrategy g = legacyStrategyForScheduling (cgScheduling g)"
  shows "sanitizeScheduling g = g"
  using assms
  by (cases "ws = []")
    (simp_all add: sanitizeScheduling_def legacy_only_def Let_def normalizeChannelWeights_fix)

lemma sanitizeScheduling_sticky_fix:
  assumes "\<not> stEnabled (gsSticky (cgScheduling g)) \<or> 0 \<le> stMaxRequests (gsSticky (cgScheduling g))"
  shows "sanitize_sticky (gsSticky (cgScheduling (sanitizeScheduling g))) =
         gsSticky (cgScheduling (sanitizeScheduling g))"
  using assms sanitize_sticky_idem
  by (simp add: sanitizeScheduling_def schedulingFromLegacy_def no_sticky_def Let_def)

lemma sanitizeScheduling_twice:
  assumes "\<not> stEnabled (gsSticky (cgScheduling g)) \<or> 0 \<le> stMaxRequests (gsSticky (cgScheduling g))"
  shows "sanitizeScheduling (sanitizeScheduling g) = sanitizeScheduling g"
proof -
  obtain d st ws where s: "cgScheduling (sanitizeScheduling g) =
     \<lparr>gsDistribution = NormalizeDistribution d, gsSticky = sanitize_sticky st, gsChannelWeights = normalizeChannelWeights ws\<rparr>"
    using sanitizeScheduling_scheduling by blast
  show ?thesis
    using sanitizeScheduling_sticky_fix [OF assms]
    by (intro sanitizeScheduling_fix [OF s])
      (simp_all add: s normalizeChannelWeights_normal sanitizeScheduling_mirror)
qed

text \<open>
  Sanitizing the scheduling block of a group is idempotent, so the load-sanitize-save-load cycle of the routing
  store settles after one pass, provided the sticky request bound is not negative. The block it leaves always has a
  supported distribution mode, a bound and a threshold in range, and a legacy mirror derived from it.
\<close>

theorem sanitizeScheduling_idempotent:
  assumes "\<not> stEnabled (gsSticky (cgScheduling g)) \<or> 0 \<le> stMaxRequests (gsSticky (cgScheduling g))"
  shows "sanitizeScheduling (sanitizeScheduling g) = sanitizeScheduling g \<and>
         (let s = cgScheduling (sanitizeScheduling g)
          in gsDistribution s \<in> {''weighted'', ''least-load'', ''fill-first''} \<and>
             0 \<le> stMaxRequests (gsSticky s) \<and> 0 \<le> stReleaseAtLoad (gsSticky s) \<and> stReleaseAtLoad (gsSticky s) \<le> 1 \<and>
             weights_normal (gsChannelWeights s) \<and>
             cgChannelPriorities (sanitizeScheduling g) = gsChannelWeights s \<and>
             cgStrategy (sanitizeScheduling g) = legacyStrategyForScheduling s)"
  using assms sanitizeScheduling_twice sanitizeScheduling_normal by (simp add: Let_def)

definition sticky_group :: "int \<Rightarrow> channel_group" where
  "sticky_group m =
     \<lparr>cgName = ''pro'', cgDescription = [], cgStrategy = [],
      cgScheduling = \<lparr>gsDistribution = ''LL'', gsSticky = \<lparr>stEnabled = True, stMaxRequests = m, stReleaseAtLoad = 2\<rparr>,
                      gsChannelWeights = [('' a '', 3)]\<rparr>,
      cgMatch = \<lparr>cmPrefixes = [], cmChannels = [], cmTags = []\<rparr>, cgExcludeFromDefault = False, cgPriority = 0,
      cgChannelPriorities = [], cgAllowedModels = [], cgExcludedModels = []\<rparr>"

theorem sanitizeScheduling_idempotent_witness:
  "sanitizeScheduling (sanitizeScheduling (sticky_group 7)) = sanitizeScheduling (sticky_group 7) \<and>
   cgScheduling (sanitizeScheduling (sticky_group 7)) =
     \<lparr>gsDistribution = ''least-load'', gsSticky = \<lparr>stEnabled = True, stMaxRequests = 7, stReleaseAtLoad = 1\<rparr>,
      gsChannelWeights = [(''a'', 3)]\<rparr>"
proof
  show "sanitizeScheduling (sanitizeScheduling (sticky_group 7)) = sanitizeScheduling (sticky_group 7)"
    using sanitizeScheduling_idempotent [of "sticky_group 7"] by (simp add: sticky_group_def)
qed code_simp

text \<open>
  A negative request bound, documented as unbounded, does not survive: the first pass stores it as 0, and the
  next pass reads that 0 as ``use the default'' and bounds the conversation at 200 requests.
\<close>

theorem sanitizeScheduling_unbounded_lost:
  "stMaxRequests (gsSticky (cgScheduling (sanitizeScheduling (sticky_group (-1))))) = 0 \<and>
   stMaxRequests (gsSticky (cgScheduling (sanitizeScheduling (sanitizeScheduling (sticky_group (-1)))))) = 200"
  by code_simp

end
