(* ===== verification/Auth_Selectors.thy ===== *)
theory Auth_Selectors
  imports Auth_Availability
begin

text \<open>
  The distribution modes: smooth weighted round-robin with its two-level variant for virtual
  credentials, fill-first and least-load (\<^verbatim>\<open>src/sdk/cliproxy/auth/selector.go\<close>,
  \<^verbatim>\<open>selector_weighted.go\<close>, \<^verbatim>\<open>selector_least_load.go\<close>, \<^verbatim>\<open>account_load.go\<close>), and the contract they share.

  Floating-point loads and scores are rationals; \<^verbatim>\<open>math.Exp2\<close> is a parameter \<open>exp2\<close>.  Go's random
  start offset \<^verbatim>\<open>rand.IntN(n)\<close> is a parameter \<open>rnd\<close>.
\<close>

section \<open>Smooth weighted round-robin\<close>

record weighted_state =
  wcCurrent :: "(string, int) gomap"
  wcTie :: nat

definition newWeightedState :: weighted_state where
  "newWeightedState = \<lparr>wcCurrent = [], wcTie = 0\<rparr>"

definition tie_limit :: nat where "tie_limit = 2147483640"

definition add_weight :: "auth \<Rightarrow> int \<times> (string, int) gomap \<Rightarrow> int \<times> (string, int) gomap" where
  "add_weight a acc =
     (case acc of (tw, cur) \<Rightarrow>
        let w = authSelectionWeight a
        in if w \<le> 0 then (tw, cur)
           else (wrap64 (tw + w), map_put (aID a) (wrap64 (map_get 0 cur (aID a) + w)) cur))"

definition best_step ::
  "auth list \<Rightarrow> (string, int) gomap \<Rightarrow> nat \<Rightarrow> nat \<Rightarrow> (nat \<times> int) option \<Rightarrow> (nat \<times> int) option" where
  "best_step available cur start offset best =
     (let index = (start + offset) mod length available;
          score = map_get 0 cur (aID (available ! index))
      in case best of
           None \<Rightarrow> Some (index, score)
         | Some (_, bestScore) \<Rightarrow> if bestScore < score then Some (index, score) else best)"

definition best_index :: "auth list \<Rightarrow> (string, int) gomap \<Rightarrow> nat \<Rightarrow> nat" where
  "best_index available cur start =
     (case fold (best_step available cur start) [0..<length available] None of
        None \<Rightarrow> 0 | Some (i, _) \<Rightarrow> i)"

definition pickWeightedAvailable :: "weighted_state \<Rightarrow> auth list \<Rightarrow> weighted_state \<times> auth option" where
  "pickWeightedAvailable st available =
     (if available = [] then (st, None)
      else
        let (totalWeight, cur0) = fold add_weight available (0, wcCurrent st);
            activeIDs = map aID available;
            cur = filter (\<lambda>(id, _). id \<in> set activeIDs) cur0
        in if totalWeight \<le> 0 then (st\<lparr>wcCurrent := cur\<rparr>, None)
           else
             let start = wcTie st mod length available;
                 selected = available ! best_index available cur start;
                 tie = (if tie_limit \<le> wcTie st then 0 else wcTie st)
             in (\<lparr>wcCurrent = map_put (aID selected)
                    (wrap64 (map_get 0 cur (aID selected) - totalWeight)) cur,
                  wcTie = tie + 1\<rparr>,
                 Some selected))"

definition ensureWeightedState ::
  "(string, weighted_state) gomap \<Rightarrow> string \<Rightarrow> int \<Rightarrow> (string, weighted_state) gomap" where
  "ensureWeightedState states key limit =
     (let s1 = (if map_of states key = None \<and> limit \<le> int (length states) then [] else states)
      in if map_of s1 key = None then map_put key newWeightedState s1 else s1)"

section \<open>The search for the highest score\<close>

lemma fold_best_step:
  fixes cur :: "(string, int) gomap"
  assumes "m \<le> length xs" "xs \<noteq> []"
  defines "score \<equiv> \<lambda>i. map_get 0 cur (aID (xs ! i))"
  shows "case fold (best_step xs cur start) [0..<m] None of
           None \<Rightarrow> m = 0
         | Some (i, s) \<Rightarrow> i < length xs \<and> s = score i \<and> (\<forall>o' < m. score ((start + o') mod length xs) \<le> s)"
  using assms(1)
proof (induction m)
  case (Suc m)
  define r where "r = fold (best_step xs cur start) [0..<m] None"
  have pos: "(start + m) mod length xs < length xs" using assms(2) by simp
  from Suc have IH: "case r of None \<Rightarrow> m = 0
      | Some (i, s) \<Rightarrow> i < length xs \<and> s = score i \<and> (\<forall>o' < m. score ((start + o') mod length xs) \<le> s)"
    by (simp add: r_def)
  have step: "fold (best_step xs cur start) [0..<Suc m] None = best_step xs cur start m r"
    by (simp add: r_def)
  show ?case
    unfolding step using IH pos
    by (cases r) (auto simp: best_step_def Let_def score_def less_Suc_eq, (meson less_imp_le order_trans)?)
qed simp

lemma mod_cover:
  assumes "j < n"
  shows "\<exists>o' < n. (start + o') mod n = (j :: nat)"
proof -
  let ?o = "(j + (n - start mod n)) mod n"
  have "(start + ?o) mod n = (start mod n + (j + (n - start mod n))) mod n"
    by (metis mod_add_left_eq mod_add_right_eq)
  also have "start mod n + (j + (n - start mod n)) = j + n"
    using assms mod_less_divisor [of n start] by linarith
  finally have "(start + ?o) mod n = j" using assms by simp
  then show ?thesis using assms by (intro exI [of _ ?o]) simp
qed

lemma best_index_max:
  assumes "xs \<noteq> []"
  shows "best_index xs cur start < length xs \<and>
    (\<forall>a \<in> set xs. map_get 0 cur (aID a) \<le> map_get 0 cur (aID (xs ! best_index xs cur start)))"
proof -
  from fold_best_step [of "length xs" xs cur start] assms
  obtain i s where r: "fold (best_step xs cur start) [0..<length xs] None = Some (i, s)"
    and i: "i < length xs" "s = map_get 0 cur (aID (xs ! i))"
      "\<forall>o' < length xs. map_get 0 cur (aID (xs ! ((start + o') mod length xs))) \<le> s"
    by (cases "fold (best_step xs cur start) [0..<length xs] None") auto
  have "map_get 0 cur (aID (xs ! j)) \<le> s" if "j < length xs" for j
    using i(3) mod_cover [OF that, of start] by auto
  with r i show ?thesis by (auto simp: best_index_def in_set_conv_nth)
qed

section \<open>Fair shares\<close>

text \<open>
  A fixed pool: distinct names, positive weights, and a total weight for which no sum the selector
  forms leaves the 64-bit range.
\<close>

definition pool_weight :: "auth list \<Rightarrow> int" where
  "pool_weight xs = sum_list (map authSelectionWeight xs)"

definition pool_ok :: "auth list \<Rightarrow> bool" where
  "pool_ok xs \<longleftrightarrow>
     xs \<noteq> [] \<and> distinct (map aID xs) \<and> (\<forall>a \<in> set xs. 0 < authSelectionWeight a) \<and>
     (int (length xs) + 1) * pool_weight xs \<le> maxInt64"

abbreviation score_of :: "weighted_state \<Rightarrow> auth \<Rightarrow> int" where
  "score_of st a \<equiv> map_get 0 (wcCurrent st) (aID a)"

text \<open>Between picks the scores of the pool add up to zero and none has fallen a full round behind.\<close>

definition balanced :: "auth list \<Rightarrow> weighted_state \<Rightarrow> bool" where
  "balanced xs st \<longleftrightarrow>
     sum_list (map (score_of st) xs) = 0 \<and> (\<forall>a \<in> set xs. - pool_weight xs < score_of st a)"

lemma pool_weight_pos: "pool_ok xs \<Longrightarrow> 0 < pool_weight xs"
proof -
  have "(\<forall>a \<in> set xs. 0 < authSelectionWeight a) \<Longrightarrow> xs \<noteq> [] \<Longrightarrow> 0 < sum_list (map authSelectionWeight xs)" for xs
    by (induction xs) (force simp: add_pos_nonneg intro: sum_list_nonneg)+
  then show "pool_ok xs \<Longrightarrow> ?thesis" by (simp add: pool_ok_def pool_weight_def)
qed

lemma member_le_sum_list_int:
  fixes f :: "'a \<Rightarrow> int"
  assumes "a \<in> set xs" "\<And>x. x \<in> set xs \<Longrightarrow> - W < f x" "0 < W"
  shows "f a \<le> sum_list (map f xs) + (int (length xs) - 1) * W"
  using assms(1,2)
proof (induction xs)
  case (Cons x xs)
  have low: "- (int (length xs) * W) \<le> sum_list (map f xs)"
    using Cons.prems(2)
  proof (induction xs)
    case (Cons y ys)
    then have "- W < f y" "- (int (length ys) * W) \<le> sum_list (map f ys)" by auto
    then show ?case by (simp add: algebra_simps)
  qed simp
  show ?case
  proof (cases "a = x")
    case True
    with low show ?thesis by (simp add: algebra_simps)
  next
    case False
    with Cons have "f a \<le> sum_list (map f xs) + (int (length xs) - 1) * W" "- W < f x" by auto
    then show ?thesis by (simp add: algebra_simps)
  qed
qed simp

lemma pool_weight_le: "pool_ok xs \<Longrightarrow> pool_weight xs \<le> maxInt64"
proof -
  assume ok: "pool_ok xs"
  have "1 * pool_weight xs \<le> (int (length xs) + 1) * pool_weight xs"
    using pool_weight_pos [OF ok] by (intro mult_right_mono) simp_all
  with ok show ?thesis by (simp add: pool_ok_def)
qed

lemma balanced_bounds:
  assumes "pool_ok xs" "balanced xs st" "a \<in> set xs"
  shows "- pool_weight xs < score_of st a"
    and "score_of st a + authSelectionWeight a \<le> maxInt64"
proof -
  note W = pool_weight_pos [OF assms(1)]
  show "- pool_weight xs < score_of st a" using assms(2,3) by (simp add: balanced_def)
  have "score_of st a \<le> (int (length xs) - 1) * pool_weight xs"
    using member_le_sum_list_int [OF assms(3), of "pool_weight xs" "score_of st"] assms(2) W
    by (simp add: balanced_def)
  moreover have "authSelectionWeight a \<le> pool_weight xs"
    using assms(1,3) unfolding pool_weight_def pool_ok_def
    by (intro member_le_sum_list) (auto simp: less_imp_le)
  ultimately show "score_of st a + authSelectionWeight a \<le> maxInt64"
    using assms(1) W by (simp add: pool_ok_def algebra_simps)
qed

text \<open>Adding the weights: the total is exact, and each score of the pool grows by its weight.\<close>

lemma fold_add_weight:
  assumes "distinct (map aID xs)" "\<forall>a \<in> set xs. 0 < authSelectionWeight a"
    and "0 \<le> t" "t + pool_weight xs \<le> maxInt64"
    and "\<forall>a \<in> set xs. minInt64 \<le> map_get 0 cur (aID a) \<and>
           map_get 0 cur (aID a) + authSelectionWeight a \<le> maxInt64"
  shows "fst (fold add_weight xs (t, cur)) = t + pool_weight xs \<and>
    (\<forall>id. map_get 0 (snd (fold add_weight xs (t, cur))) id =
       map_get 0 cur id + (\<Sum>a \<leftarrow> xs. if aID a = id then authSelectionWeight a else 0))"
  using assms
proof (induction xs arbitrary: t cur)
  case (Cons a xs)
  let ?w = "authSelectionWeight a"
  have w: "0 < ?w" using Cons.prems(2) by simp
  have pw: "0 \<le> pool_weight xs" "pool_weight (a # xs) = ?w + pool_weight xs"
    using Cons.prems(2) by (auto simp: pool_weight_def less_imp_le intro!: sum_list_nonneg)
  have "wrap64 (t + ?w) = t + ?w"
    using Cons.prems(3,4) w pw by (intro wrap64_id) (auto simp: minInt64_def)
  moreover have "wrap64 (map_get 0 cur (aID a) + ?w) = map_get 0 cur (aID a) + ?w"
    using Cons.prems(5) w by (intro wrap64_id) auto
  ultimately have step: "add_weight a (t, cur) = (t + ?w, map_put (aID a) (map_get 0 cur (aID a) + ?w) cur)"
    using w by (simp add: add_weight_def Let_def)
  let ?cur = "map_put (aID a) (map_get 0 cur (aID a) + ?w) cur"
  have "\<forall>b \<in> set xs. aID b \<noteq> aID a" using Cons.prems(1) by (auto simp: image_iff)
  then have "\<forall>b \<in> set xs. map_get 0 ?cur (aID b) = map_get 0 cur (aID b)" by simp
  with Cons.prems Cons.IH [of "t + ?w" ?cur] w pw show ?case by (simp add: step)
qed (simp add: pool_weight_def)

lemma sum_list_single:
  fixes f :: "'a \<Rightarrow> int"
  assumes "distinct (map g xs)" "a \<in> set xs"
  shows "(\<Sum>b \<leftarrow> xs. if g b = g a then f b else 0) = f a"
  using assms
proof (induction xs)
  case (Cons x xs)
  show ?case
  proof (cases "x = a")
    case True
    then have "\<forall>b \<in> set xs. g b \<noteq> g a" using Cons.prems(1) by (auto simp: image_iff)
    then have "map (\<lambda>b. if g b = g a then f b else 0) xs = map (\<lambda>_. 0) xs" by simp
    with True show ?thesis by (simp only: list.map sum_list.Cons) (simp add: sum_list_triv)
  next
    case False
    with Cons have "a \<in> set xs" "g x \<noteq> g a" by (auto simp: image_iff)
    with Cons show ?thesis by simp
  qed
qed simp

lemma sum_list_change:
  fixes f :: "'a \<Rightarrow> int"
  assumes "distinct (map g xs)" "a \<in> set xs"
  shows "(\<Sum>b \<leftarrow> xs. f b - (if g b = g a then d else 0)) = sum_list (map f xs) - d"
  using sum_list_single [OF assms, of "\<lambda>_. d"] by (simp add: sum_list_subtractf)

lemma map_get_filter_keys:
  "map_get z (filter (\<lambda>(k, _). k \<in> K) m) k = (if k \<in> K then map_get z m k else z)"
  by (induction m) (auto simp: map_get_def)

text \<open>One pick from a fixed pool.\<close>

lemma pick_balanced:
  assumes ok: "pool_ok xs" and bal: "balanced xs st"
  obtains a st' where "pickWeightedAvailable st xs = (st', Some a)" "a \<in> set xs" "balanced xs st'"
    and "\<forall>b \<in> set xs. score_of st' b =
           score_of st b + authSelectionWeight b - (if aID b = aID a then pool_weight xs else 0)"
proof -
  let ?W = "pool_weight xs"
  note W = pool_weight_pos [OF ok] pool_weight_le [OF ok]
  have ne: "xs \<noteq> []" and dist: "distinct (map aID xs)" and pos: "\<forall>a \<in> set xs. 0 < authSelectionWeight a"
    using ok by (simp_all add: pool_ok_def)
  define r where "r = fold add_weight xs (0, wcCurrent st)"
  define cur where "cur = filter (\<lambda>(id, _). id \<in> set (map aID xs)) (snd r)"
  have "\<forall>a \<in> set xs. minInt64 \<le> score_of st a \<and> score_of st a + authSelectionWeight a \<le> maxInt64"
    using balanced_bounds [OF ok bal] W by (fastforce simp: minInt64_def maxInt64_def)
  then have r: "fst r = ?W"
    "map_get 0 (snd r) id = map_get 0 (wcCurrent st) id + (\<Sum>a \<leftarrow> xs. if aID a = id then authSelectionWeight a else 0)" for id
    using fold_add_weight [OF dist pos, of 0 "wcCurrent st"] W by (simp_all add: r_def)
  have cur: "map_get 0 cur (aID b) = score_of st b + authSelectionWeight b" if "b \<in> set xs" for b
    using that sum_list_single [OF dist that] r(2) by (simp add: cur_def map_get_filter_keys)
  define a where "a = xs ! best_index xs cur (wcTie st mod length xs)"
  have a: "a \<in> set xs" "\<forall>b \<in> set xs. map_get 0 cur (aID b) \<le> map_get 0 cur (aID a)"
    using best_index_max [OF ne, of cur "wcTie st mod length xs"] by (simp_all add: a_def)
  have "(\<Sum>b \<leftarrow> xs. map_get 0 cur (aID b)) = (\<Sum>b \<leftarrow> xs. score_of st b + authSelectionWeight b)"
    using cur by (metis (no_types, lifting) map_eq_conv)
  also have "\<dots> = ?W" using bal by (simp add: sum_list_addf balanced_def pool_weight_def)
  finally have top: "0 < map_get 0 cur (aID a)"
    using a(2) W(1) sum_list_nonpos [of "map (\<lambda>b. map_get 0 cur (aID b)) xs"] by force
  define st' where "st' = \<lparr>wcCurrent = map_put (aID a) (wrap64 (map_get 0 cur (aID a) - ?W)) cur,
      wcTie = (if tie_limit \<le> wcTie st then 0 else wcTie st) + 1\<rparr>"
  have "map_get 0 cur (aID a) \<le> maxInt64"
    using balanced_bounds(2) [OF ok bal a(1)] cur [OF a(1)] by simp
  with top W have wr: "wrap64 (map_get 0 cur (aID a) - ?W) = map_get 0 cur (aID a) - ?W"
    by (intro wrap64_id) (auto simp: minInt64_def maxInt64_def)
  have sc: "score_of st' b = score_of st b + authSelectionWeight b - (if aID b = aID a then ?W else 0)"
    if "b \<in> set xs" for b
    using cur [OF that] by (auto simp: st'_def wr)
  have "pickWeightedAvailable st xs = (st', Some a)"
    using ne r(1) W(1)
    by (simp add: pickWeightedAvailable_def Let_def case_prod_unfold r_def [symmetric] a_def cur_def st'_def)
  moreover have "balanced xs st'"
  proof -
    have "map (score_of st') xs =
        map (\<lambda>b. (score_of st b + authSelectionWeight b) - (if aID b = aID a then ?W else 0)) xs"
      using sc by simp
    then have "sum_list (map (score_of st') xs) =
        (\<Sum>b \<leftarrow> xs. (score_of st b + authSelectionWeight b) - (if aID b = aID a then ?W else 0))"
      by (rule arg_cong)
    also have "\<dots> = sum_list (map (\<lambda>b. score_of st b + authSelectionWeight b) xs) - ?W"
      by (rule sum_list_change [OF dist a(1)])
    also have "\<dots> = 0" using bal by (simp add: sum_list_addf balanced_def pool_weight_def)
    finally have "sum_list (map (score_of st') xs) = 0" .
    moreover have "- ?W < score_of st' b" if b: "b \<in> set xs" for b
    proof (cases "aID b = aID a")
      case True
      with top cur [OF b] sc [OF b] show ?thesis by simp
    next
      case False
      with sc [OF b] balanced_bounds(1) [OF ok bal b] pos b show ?thesis by auto
    qed
    ultimately show ?thesis by (simp add: balanced_def)
  qed
  ultimately show ?thesis using that a(1) sc by blast
qed

text \<open>A run of requests served from a fixed pool: the final state and the credentials selected.\<close>

fun serve :: "nat \<Rightarrow> weighted_state \<Rightarrow> auth list \<Rightarrow> weighted_state \<times> auth list" where
  "serve 0 st xs = (st, [])"
| "serve (Suc n) st xs =
     (case serve n st xs of (st', ps) \<Rightarrow>
        (case pickWeightedAvailable st' xs of
           (st'', None) \<Rightarrow> (st'', ps)
         | (st'', Some a) \<Rightarrow> (st'', ps @ [a])))"

definition served :: "nat \<Rightarrow> auth list \<Rightarrow> auth \<Rightarrow> int" where
  "served n xs a = int (length (filter (\<lambda>b. aID b = aID a) (snd (serve n newWeightedState xs))))"

lemma serve_balanced:
  assumes "pool_ok xs"
  shows "balanced xs (fst (serve n newWeightedState xs)) \<and>
    length (snd (serve n newWeightedState xs)) = n \<and>
    (\<forall>a \<in> set xs. score_of (fst (serve n newWeightedState xs)) a =
       int n * authSelectionWeight a - pool_weight xs * served n xs a)"
proof (induction n)
  case 0
  have "sum_list (map (\<lambda>_. 0) xs) = (0 :: int)" by (simp add: sum_list_triv)
  with pool_weight_pos [OF assms] show ?case
    by (simp add: balanced_def newWeightedState_def served_def)
next
  case (Suc n)
  define st where "st = fst (serve n newWeightedState xs)"
  have "balanced xs st" using Suc unfolding st_def by (rule conjunct1)
  from pick_balanced [OF assms this]
  obtain a st' where p: "pickWeightedAvailable st xs = (st', Some a)" "a \<in> set xs" "balanced xs st'"
    and sc: "\<forall>b \<in> set xs. score_of st' b =
           score_of st b + authSelectionWeight b - (if aID b = aID a then pool_weight xs else 0)" .
  then have s: "serve (Suc n) newWeightedState xs = (st', snd (serve n newWeightedState xs) @ [a])"
    by (simp add: st_def case_prod_unfold)
  have c: "served (Suc n) xs b = served n xs b + (if aID b = aID a then 1 else 0)" for b
    unfolding served_def s by auto
  have "score_of st' b = int (Suc n) * authSelectionWeight b - pool_weight xs * served (Suc n) xs b"
    if "b \<in> set xs" for b
  proof -
    have "score_of st b = int n * authSelectionWeight b - pool_weight xs * served n xs b"
      using Suc that unfolding st_def by blast
    then show ?thesis using bspec [OF sc that] by (simp only: c) (simp add: algebra_simps)
  qed
  with Suc p(3) show ?case unfolding s by simp
qed

text \<open>
  C38: Smooth weighted round-robin is fair: serving one full round of as many requests as the total weight, or any
  number of rounds, gives every credential exactly its weight in each; and at no moment has a
  credential received a whole request more than its proportional share.
\<close>

theorem weighted_round_robin_fair:
  assumes "pool_ok xs" "a \<in> set xs"
  shows "served (rounds * nat (pool_weight xs)) xs a = int rounds * authSelectionWeight a \<and>
         pool_weight xs * served n xs a < int n * authSelectionWeight a + pool_weight xs"
proof -
  let ?W = "pool_weight xs" and ?m = "rounds * nat (pool_weight xs)"
  note W = pool_weight_pos [OF assms(1)]
  note inv = serve_balanced [OF assms(1)]
  let ?s = "score_of (fst (serve ?m newWeightedState xs))"
  have bal: "balanced xs (fst (serve ?m newWeightedState xs))" using inv by blast
  have m: "?s b = ?W * (int rounds * authSelectionWeight b - served ?m xs b)" if "b \<in> set xs" for b
  proof -
    have "?s b = int ?m * authSelectionWeight b - ?W * served ?m xs b" using inv that by blast
    moreover have "int ?m = int rounds * ?W" using W by simp
    ultimately show ?thesis by (simp only: algebra_simps)
  qed
  have ge: "0 \<le> ?s b" if "b \<in> set xs" for b
  proof -
    have "- ?W < ?s b" using bal that unfolding balanced_def by blast
    then have "?W * (- 1) < ?W * (int rounds * authSelectionWeight b - served ?m xs b)"
      unfolding m [OF that] by simp
    then have "- 1 < int rounds * authSelectionWeight b - served ?m xs b"
      using W by (simp only: mult_less_cancel_left_pos)
    then show ?thesis unfolding m [OF that] using W by simp
  qed
  have "sum_list (map ?s xs) = 0" using bal unfolding balanced_def by blast
  then have "?s a = 0"
    using ge assms(2) sum_list_nonneg_eq_0_iff [of "map ?s xs"] by auto
  then have "served ?m xs a = int rounds * authSelectionWeight a"
    unfolding m [OF assms(2)] using W by simp
  moreover have "pool_weight xs * served n xs a < int n * authSelectionWeight a + pool_weight xs"
  proof -
    have "score_of (fst (serve n newWeightedState xs)) a = int n * authSelectionWeight a - ?W * served n xs a"
      "- ?W < score_of (fst (serve n newWeightedState xs)) a"
      using inv [of n] assms(2) unfolding balanced_def by blast+
    then show ?thesis by linarith
  qed
  ultimately show ?thesis by simp
qed

definition heavy :: auth where
  "heavy = sample_auth\<lparr>aID := ''h'', aAttributes := [(''selection_weight'', ''3'')]\<rparr>"

theorem weighted_round_robin_fair_witness:
  "served (5 * nat (pool_weight [heavy, sample_auth])) [heavy, sample_auth] heavy = 15"
proof -
  have w: "authSelectionWeight heavy = 3" "authSelectionWeight sample_auth = 1" by code_simp+
  have "pool_ok [heavy, sample_auth]"
    by (simp add: pool_ok_def pool_weight_def w maxInt64_def) (simp add: heavy_def sample_auth_def)
  from weighted_round_robin_fair [OF this, of heavy 5 0] show ?thesis by (simp add: w)
qed

section \<open>Load signals\<close>

text \<open>
  \<^verbatim>\<open>selectionPressureTracker\<close>: the counters of \<^verbatim>\<open>decayCounter\<close>s as pairs of value and time.  \<open>exp2\<close>
  stands for \<^verbatim>\<open>math.Exp2\<close>; both durations are in nanoseconds, so their quotient is that of the seconds.
\<close>

definition selectionDecayHalfLife :: duration where "selectionDecayHalfLife = 5 * minute"
definition selectionTrackerMaxKeys :: int where "selectionTrackerMaxKeys = 4096"

record tracker =
  trCounters :: "(string, rat \<times> gotime) gomap"
  trMaxKeys :: int

definition decayedValue :: "(rat \<Rightarrow> rat) \<Rightarrow> rat \<times> gotime \<Rightarrow> gotime \<Rightarrow> rat" where
  "decayedValue exp2 c now =
     (case c of (value, updatedAt) \<Rightarrow>
        if value = 0 \<or> updatedAt = 0 then 0
        else let elapsed = time_sub now updatedAt
             in if elapsed \<le> 0 then value
                else value * exp2 (- (of_int elapsed / of_int selectionDecayHalfLife)))"

definition tracker_limit :: "tracker \<Rightarrow> int" where
  "tracker_limit t = (if trMaxKeys t \<le> 0 then selectionTrackerMaxKeys else trMaxKeys t)"

definition tracker_evict :: "(rat \<Rightarrow> rat) \<Rightarrow> tracker \<Rightarrow> string \<Rightarrow> gotime \<Rightarrow> tracker" where
  "tracker_evict exp2 t incoming now =
     t\<lparr>trCounters := make_room (\<lambda>c. decayedValue exp2 c now < 1 / 100) snd (tracker_limit t) incoming (trCounters t)\<rparr>"

definition observe :: "(rat \<Rightarrow> rat) \<Rightarrow> tracker \<Rightarrow> string \<Rightarrow> gotime \<Rightarrow> tracker" where
  "observe exp2 t authID now =
     (if authID = '''' then t
      else
        let t1 = tracker_evict exp2 t authID now;
            current = map_get (0, 0) (trCounters t1) authID
        in t1\<lparr>trCounters := map_put authID (decayedValue exp2 current now + 1, now) (trCounters t1)\<rparr>)"

definition pressure :: "(rat \<Rightarrow> rat) \<Rightarrow> tracker \<Rightarrow> string \<Rightarrow> gotime \<Rightarrow> rat" where
  "pressure exp2 t authID now =
     (if authID = '''' then 0 else decayedValue exp2 (map_get (0, 0) (trCounters t) authID) now)"

text \<open>
  \<open>active\<close> is the in-flight table of the concurrency limiter and \<open>quota\<close> the injected
  \<^verbatim>\<open>QuotaLoadSource\<close>, \<^term>\<open>None\<close> where it reports no data.
\<close>

definition GetLoadRate :: "(string, int) gomap \<Rightarrow> string \<Rightarrow> int \<Rightarrow> rat" where
  "GetLoadRate active authID maxLimit =
     (if maxLimit \<le> 0 then 0
      else of_int (if authID = '''' then 0 else map_get 0 active authID) / of_int maxLimit)"

definition accountLoadRatio :: "auth \<Rightarrow> (string, int) gomap \<Rightarrow> (auth \<Rightarrow> rat option) \<Rightarrow> rat" where
  "accountLoadRatio a active quota =
     (let r0 = GetLoadRate active (aID a) (ConcurrencyLimit a);
          ratio = (case quota a of Some q \<Rightarrow> if r0 < q then q else r0 | None \<Rightarrow> r0)
      in if ratio < 0 then 0 else if 1 < ratio then 1 else ratio)"

lemma accountLoadRatio_range: "0 \<le> accountLoadRatio a active quota \<and> accountLoadRatio a active quota \<le> 1"
  by (simp add: accountLoadRatio_def Let_def)

definition tracker_wf :: "tracker \<Rightarrow> bool" where
  "tracker_wf t \<longleftrightarrow> map_wf (trCounters t) \<and> '''' \<notin> fst ` set (trCounters t) \<and>
     int (length (trCounters t)) \<le> tracker_limit t"

lemma tracker_limit_pos: "0 < tracker_limit t"
  by (simp add: tracker_limit_def selectionTrackerMaxKeys_def)

lemma tracker_evict_wf:
  assumes "tracker_wf t" and "incoming \<notin> fst ` set (trCounters t)"
  shows "map_wf (trCounters (tracker_evict exp2 t incoming now)) \<and>
    fst ` set (trCounters (tracker_evict exp2 t incoming now)) \<subseteq> fst ` set (trCounters t) \<and>
    int (length (trCounters (tracker_evict exp2 t incoming now))) < tracker_limit t"
proof -
  have "map_wf (trCounters t)" "int (length (trCounters t)) \<le> tracker_limit t" "'''' \<notin> fst ` set (trCounters t)"
    using assms(1) by (simp_all add: tracker_wf_def)
  from make_room_bound [OF this assms(2) tracker_limit_pos] show ?thesis
    by (simp add: tracker_evict_def)
qed

text \<open>
  The selection-pressure table never outgrows its configured bound, whatever sequence of selections it
  observes, and the credential just selected is always in it.
\<close>

theorem observe_bounded:
  assumes "tracker_wf t"
  shows "tracker_wf (observe exp2 t authID now) \<and>
         (authID \<noteq> '''' \<longrightarrow> authID \<in> fst ` set (trCounters (observe exp2 t authID now)))"
proof (cases "authID = '''' \<or> authID \<in> fst ` set (trCounters t)")
  case True
  then show ?thesis
    using assms map_of_eq_None_iff [of "trCounters t" authID]
    by (auto simp: observe_def tracker_wf_def tracker_evict_def make_room_known tracker_limit_def length_map_put map_wf_put)
next
  case False
  have "trMaxKeys (tracker_evict exp2 t authID now) = trMaxKeys t"
    by (simp add: tracker_evict_def case_prod_unfold Let_def)
  with False tracker_evict_wf [OF assms, of authID exp2 now] assms show ?thesis
    by (auto simp: observe_def tracker_wf_def Let_def tracker_limit_def length_map_put map_wf_put)
qed

theorem observe_bounded_witness:
  "tracker_wf (observe (\<lambda>_. 1 / 2) \<lparr>trCounters = [(''a'', 1, 5), (''b'', 1, 4)], trMaxKeys = 2\<rparr> ''c'' 9)"
  using observe_bounded [of "\<lparr>trCounters = [(''a'', 1, 5), (''b'', 1, 4)], trMaxKeys = 2\<rparr>" "\<lambda>_. 1 / 2" "''c''" 9]
  by (simp add: tracker_wf_def tracker_limit_def)

section \<open>Round-robin\<close>

text \<open>Reading string values from the options' metadata (\<^verbatim>\<open>routing_groups_metadata.go\<close>).\<close>

fun metadataStringValue :: "(string, goany) gomap \<Rightarrow> string list \<Rightarrow> string" where
  "metadataStringValue meta [] = ''''"
| "metadataStringValue meta (k # ks) =
     (if meta_trimmed meta k \<noteq> '''' then meta_trimmed meta k else metadataStringValue meta ks)"

definition defaultTenantID :: string where
  "defaultTenantID = ''00000000-0000-0000-0000-000000000001''"

definition normalizedTenantID :: "string \<Rightarrow> string" where
  "normalizedTenantID t = (if trim_space t = '''' then defaultTenantID else trim_space t)"

definition tenantIDFromMetadata :: "(string, goany) gomap \<Rightarrow> string" where
  "tenantIDFromMetadata meta =
     (if meta = [] then defaultTenantID
      else normalizedTenantID (metadataStringValue meta [''tenant_id'']))"

definition tenantSelectionPrefix :: "(string, goany) gomap \<Rightarrow> string" where
  "tenantSelectionPrefix meta = tenantIDFromMetadata meta @ '':''"

definition weightedSelectionKey :: "string \<Rightarrow> string \<Rightarrow> (string, goany) gomap \<Rightarrow> string" where
  "weightedSelectionKey provider model meta =
     tenantSelectionPrefix meta @ provider @ '':'' @ canonicalModelKey model @ '':'' @
     weightedSelectionScope meta"

definition virtual_parent :: "auth \<Rightarrow> string" where
  "virtual_parent a = trim_space (map_get '''' (aAttributes a) ''gemini_virtual_parent'')"

definition groupByVirtualParent :: "auth list \<Rightarrow> (string, auth list) gomap \<times> string list" where
  "groupByVirtualParent auths =
     (if auths = [] \<or> list_ex (\<lambda>a. virtual_parent a = '''') auths then ([], [])
      else
        let groups = fold (\<lambda>a g. map_put (virtual_parent a)
                             (map_get [] g (virtual_parent a) @ [a]) g) auths []
        in (groups, sort (map fst groups)))"

record rr_state =
  rrCursors :: "(string, nat) gomap"
  rrWeighted :: "(string, weighted_state) gomap"
  rrMaxKeys :: int

definition rr_limit :: "rr_state \<Rightarrow> int" where
  "rr_limit st = (if rrMaxKeys st \<le> 0 then 4096 else rrMaxKeys st)"

definition ensureCursorKey :: "(string, nat) gomap \<Rightarrow> string \<Rightarrow> int \<Rightarrow> (string, nat) gomap" where
  "ensureCursorKey cursors key limit =
     (if map_of cursors key = None \<and> limit \<le> int (length cursors) then [] else cursors)"

definition bump :: "nat \<Rightarrow> nat" where
  "bump i = (if tie_limit \<le> i then 0 else i)"

text \<open>The two-level turn over credential groups; \<open>rnd n\<close> is \<^verbatim>\<open>rand.IntN(n)\<close>.\<close>

definition pick_grouped ::
  "(nat \<Rightarrow> nat) \<Rightarrow> string \<Rightarrow> int \<Rightarrow> (string, auth list) gomap \<Rightarrow> string list \<Rightarrow> (string, nat) gomap \<Rightarrow>
   (string, nat) gomap \<times> auth" where
  "pick_grouped rnd key limit groups parentOrder cursors =
     (let groupKey = key @ ''::group'';
          c1 = ensureCursorKey cursors groupKey limit;
          c2 = (if map_of c1 groupKey = None then map_put groupKey (rnd (length parentOrder)) c1 else c1);
          groupIndex = bump (map_get 0 c2 groupKey);
          c3 = map_put groupKey (groupIndex + 1) c2;
          selectedParent = parentOrder ! (groupIndex mod length parentOrder);
          group = map_get [] groups selectedParent;
          innerKey = key @ ''::cred:'' @ selectedParent;
          c4 = ensureCursorKey c3 innerKey limit;
          innerIndex = bump (map_get 0 c4 innerKey);
          c5 = map_put innerKey (innerIndex + 1) c4
      in (c5, group ! (innerIndex mod length group)))"

definition RoundRobin_Pick ::
  "(rat \<Rightarrow> rat) \<Rightarrow> (nat \<Rightarrow> nat) \<Rightarrow> bool \<Rightarrow> (string, goany) gomap \<Rightarrow> string \<Rightarrow> string \<Rightarrow>
   rr_state \<times> tracker \<Rightarrow> gotime \<Rightarrow> auth list \<Rightarrow> (rr_state \<times> tracker) \<times> (pick_error + auth)" where
  "RoundRobin_Pick exp2 rnd ws meta provider model s now auths =
     (case s of (st, tr) \<Rightarrow>
      case getAvailableAuths auths provider model now of
        Inl e \<Rightarrow> (s, Inl e)
      | Inr avail0 \<Rightarrow>
          let available = preferCodexWebsocketAuths ws provider avail0;
              key = tenantSelectionPrefix meta @ provider @ '':'' @ canonicalModelKey model;
              limit = rr_limit st;
              (groups, parentOrder) = groupByVirtualParent available
          in if 1 < length parentOrder then
               (let (cursors, selected) = pick_grouped rnd key limit groups parentOrder (rrCursors st)
                in ((st\<lparr>rrCursors := cursors\<rparr>, observe exp2 tr (aID selected) now), Inr selected))
             else
               let wkey = weightedSelectionKey provider model meta;
                   states = ensureWeightedState (rrWeighted st) wkey limit;
                   (w, sel) = pickWeightedAvailable (map_get newWeightedState states wkey) available;
                   st' = st\<lparr>rrWeighted := map_put wkey w states\<rparr>
               in case sel of
                    None \<Rightarrow> ((st', tr), Inl (AuthError ''auth_not_found'' ''selector returned no auth''))
                  | Some a \<Rightarrow> ((st', observe exp2 tr (aID a) now), Inr a))"

section \<open>Fill-first and least-load\<close>

text \<open>The loop of \<^verbatim>\<open>FillFirstSelector.Pick\<close>, with the fallback and its load.\<close>

fun fill_loop :: "(auth \<Rightarrow> rat) \<Rightarrow> auth list \<Rightarrow> (auth \<times> rat) option \<Rightarrow> auth option" where
  "fill_loop load [] fb = map_option fst fb"
| "fill_loop load (c # cs) fb =
     (if load c < 9 / 10 then Some c
      else fill_loop load cs
        (case fb of None \<Rightarrow> Some (c, load c)
         | Some (_, l) \<Rightarrow> if load c < l then Some (c, load c) else fb))"

definition FillFirst_Pick ::
  "(rat \<Rightarrow> rat) \<Rightarrow> bool \<Rightarrow> (auth \<Rightarrow> rat) \<Rightarrow> string \<Rightarrow> string \<Rightarrow>
   tracker \<Rightarrow> gotime \<Rightarrow> auth list \<Rightarrow> tracker \<times> (pick_error + auth)" where
  "FillFirst_Pick exp2 ws load provider model tr now auths =
     (case getAvailableAuths auths provider model now of
        Inl e \<Rightarrow> (tr, Inl e)
      | Inr avail0 \<Rightarrow>
          let available = preferCodexWebsocketAuths ws provider avail0;
              ordered = sort_key (\<lambda>a. - authSelectionWeight a) available;
              selected = (case fill_loop load ordered None of Some a \<Rightarrow> a | None \<Rightarrow> ordered ! 0)
          in (observe exp2 tr (aID selected) now, Inr selected))"

definition quotaLoadPenalty :: rat where "quotaLoadPenalty = 4"

definition least_load_score ::
  "(rat \<Rightarrow> rat) \<Rightarrow> tracker \<Rightarrow> (string, int) gomap \<Rightarrow> (auth \<Rightarrow> rat) \<Rightarrow> gotime \<Rightarrow> auth \<Rightarrow> rat" where
  "least_load_score exp2 tr active load now a =
     (let w0 = authSelectionWeight a;
          weight = (if w0 \<le> 0 then 1 else w0);
          l = pressure exp2 tr (aID a) now + of_int (if aID a = '''' then 0 else map_get 0 active (aID a));
          score = l / of_int weight
      in score * (1 + quotaLoadPenalty * load a))"

fun least_loop :: "(auth \<Rightarrow> rat) \<Rightarrow> auth list \<Rightarrow> (auth \<times> rat) option \<Rightarrow> auth option" where
  "least_loop score [] best = map_option fst best"
| "least_loop score (c # cs) best =
     least_loop score cs
       (case best of None \<Rightarrow> Some (c, score c)
        | Some (_, s) \<Rightarrow> if score c < s then Some (c, score c) else best)"

definition LeastLoad_Pick ::
  "(rat \<Rightarrow> rat) \<Rightarrow> bool \<Rightarrow> (string, int) gomap \<Rightarrow> (auth \<Rightarrow> rat) \<Rightarrow> string \<Rightarrow> string \<Rightarrow>
   tracker \<Rightarrow> gotime \<Rightarrow> auth list \<Rightarrow> tracker \<times> (pick_error + auth)" where
  "LeastLoad_Pick exp2 ws active load provider model tr now auths =
     (case getAvailableAuths auths provider model now of
        Inl e \<Rightarrow> (tr, Inl e)
      | Inr avail0 \<Rightarrow>
          let available = preferCodexWebsocketAuths ws provider avail0
          in case least_loop (least_load_score exp2 tr active load now) available None of
               None \<Rightarrow> (tr, Inl (AuthError ''auth_not_found'' ''selector returned no auth''))
             | Some a \<Rightarrow> (observe exp2 tr (aID a) now, Inr a))"

section \<open>The contract of a selector\<close>

text \<open>
  What the callers of \<^verbatim>\<open>Selector.Pick\<close> rely on: an error is exactly the error of the availability test, and
  otherwise one of the available candidates is returned.  \<open>good\<close> names the pools the promise is made
  for.
\<close>

locale selector =
  fixes provider model :: string
    and pick :: "'s \<Rightarrow> gotime \<Rightarrow> auth list \<Rightarrow> 's \<times> (pick_error + auth)"
    and good :: "auth list \<Rightarrow> bool"
  assumes pick_error: "0 \<le> now \<Longrightarrow> getAvailableAuths auths provider model now = Inl e \<Longrightarrow>
            snd (pick s now auths) = Inl e"
    and pick_available: "0 \<le> now \<Longrightarrow> getAvailableAuths auths provider model now = Inr xs \<Longrightarrow> good xs \<Longrightarrow>
            \<exists>a \<in> set xs. snd (pick s now auths) = Inr a"
    and pick_sound: "0 \<le> now \<Longrightarrow> getAvailableAuths auths provider model now = Inr xs \<Longrightarrow>
            snd (pick s now auths) = Inr a \<Longrightarrow> a \<in> set xs"
begin

lemma pick_Inr:
  assumes "0 \<le> now" "snd (pick s now auths) = Inr a"
  shows "\<exists>xs. getAvailableAuths auths provider model now = Inr xs \<and> a \<in> set xs"
proof (cases "getAvailableAuths auths provider model now")
  case (Inl e)
  with pick_error [OF assms(1) Inl, of s] assms(2) show ?thesis by simp
next
  case (Inr xs)
  with pick_sound [OF assms(1) Inr assms(2)] show ?thesis by auto
qed

text \<open>A successful pick is a given credential that takes part in scheduling.\<close>

lemma pick_member:
  assumes "0 \<le> now" "snd (pick s now auths) = Inr a"
  shows "a \<in> set auths \<and> authParticipatesInSelection a \<and> (\<not> blocked a model now \<or> optimistic_ok model now a)"
proof -
  obtain xs where "getAvailableAuths auths provider model now = Inr xs" "a \<in> set xs"
    using pick_Inr [OF assms] by blast
  with available_member [OF assms(1)] show ?thesis by blast
qed

end

lemma preferCodexWebsocketAuths_subset:
  "set (preferCodexWebsocketAuths ws provider xs) \<subseteq> set xs"
  "xs \<noteq> [] \<Longrightarrow> preferCodexWebsocketAuths ws provider xs \<noteq> []"
  by (auto simp: preferCodexWebsocketAuths_def Let_def filter_empty_conv)

lemma fill_loop_in: "fill_loop load xs fb = Some a \<Longrightarrow> a \<in> set xs \<or> (\<exists>l. fb = Some (a, l))"
  by (induction xs arbitrary: fb) (fastforce split: if_split_asm option.split_asm)+

lemma fill_loop_None: "fill_loop load xs fb = None \<longleftrightarrow> xs = [] \<and> fb = None"
  by (induction xs arbitrary: fb) (auto split: option.split)

interpretation fill_first: selector provider model "FillFirst_Pick exp2 ws load provider model" "\<lambda>_. True"
  for exp2 ws load provider model
proof -
  have ex: "\<exists>a \<in> set xs. snd (FillFirst_Pick exp2 ws load provider model s now auths) = Inr a"
    if now: "0 \<le> now" and av: "getAvailableAuths auths provider model now = Inr xs" for now auths xs s
  proof -
    let ?ord = "sort_key (\<lambda>a. - authSelectionWeight a) (preferCodexWebsocketAuths ws provider xs)"
    have "xs \<noteq> []" using getAvailableAuths_nonempty [OF now av] .
    then have ne: "?ord \<noteq> []"
      using preferCodexWebsocketAuths_subset(2) [of xs ws provider] by (metis set_empty set_sort)
    then obtain a where a: "fill_loop load ?ord None = Some a"
      using fill_loop_None [of load ?ord None] by (cases "fill_loop load ?ord None") auto
    then have "a \<in> set ?ord" using fill_loop_in [of load ?ord None a] by simp
    then have "a \<in> set xs" using preferCodexWebsocketAuths_subset(1) by fastforce
    with a av show ?thesis by (simp add: FillFirst_Pick_def Let_def)
  qed
  show "selector provider model (FillFirst_Pick exp2 ws load provider model) (\<lambda>_. True)"
    by unfold_locales (simp add: FillFirst_Pick_def, use ex in blast, metis ex sum.inject(2))
qed

lemma least_loop_best:
  "least_loop score xs best = Some a \<Longrightarrow>
     (\<forall>b s. best = Some (b, s) \<longrightarrow> s = score b) \<Longrightarrow>
     (a \<in> set xs \<or> (\<exists>s. best = Some (a, s))) \<and> (\<forall>x \<in> set xs. score a \<le> score x) \<and>
     (\<forall>b s. best = Some (b, s) \<longrightarrow> score a \<le> s)"
proof (induction xs arbitrary: best)
  case (Cons c cs)
  let ?b = "case best of None \<Rightarrow> Some (c, score c) | Some (_, s) \<Rightarrow> if score c < s then Some (c, score c) else best"
  have "least_loop score cs ?b = Some a" "\<forall>b s. ?b = Some (b, s) \<longrightarrow> s = score b"
    using Cons.prems by (auto split: option.split)
  from Cons.IH [OF this] Cons.prems(2) show ?case
    by (cases best) (auto split: if_split_asm)
qed auto

lemma least_loop_None: "least_loop score xs best = None \<longleftrightarrow> xs = [] \<and> best = None"
  by (induction xs arbitrary: best) (auto split: option.split)

interpretation least_load: selector provider model "LeastLoad_Pick exp2 ws active load provider model" "\<lambda>_. True"
  for exp2 ws active load provider model
proof -
  have ex: "\<exists>a \<in> set xs. snd (LeastLoad_Pick exp2 ws active load provider model s now auths) = Inr a"
    if now: "0 \<le> now" and av: "getAvailableAuths auths provider model now = Inr xs" for now auths xs s
  proof -
    let ?ord = "preferCodexWebsocketAuths ws provider xs" and ?score = "least_load_score exp2 s active load now"
    have "?ord \<noteq> []" using getAvailableAuths_nonempty [OF now av] preferCodexWebsocketAuths_subset(2) by simp
    then obtain a where a: "least_loop ?score ?ord None = Some a"
      using least_loop_None [of ?score ?ord None] by (cases "least_loop ?score ?ord None") auto
    then have "a \<in> set ?ord" using least_loop_best [OF a] by simp
    then have "a \<in> set xs" using preferCodexWebsocketAuths_subset(1) by fastforce
    with a av show ?thesis by (simp add: LeastLoad_Pick_def Let_def)
  qed
  show "selector provider model (LeastLoad_Pick exp2 ws active load provider model) (\<lambda>_. True)"
    by unfold_locales (simp add: LeastLoad_Pick_def, use ex in blast, metis ex sum.inject(2))
qed

lemma group_fold:
  "map_get [] (fold (\<lambda>a g. map_put (virtual_parent a) (map_get [] g (virtual_parent a) @ [a]) g) xs g0) p =
     map_get [] g0 p @ filter (\<lambda>a. virtual_parent a = p) xs"
  "fst ` set (fold (\<lambda>a g. map_put (virtual_parent a) (map_get [] g (virtual_parent a) @ [a]) g) xs g0) =
     fst ` set g0 \<union> virtual_parent ` set xs"
  by (induction xs arbitrary: g0) auto

lemma pick_grouped_in:
  assumes "groupByVirtualParent xs = (groups, parents)" "parents \<noteq> []"
  shows "snd (pick_grouped rnd key limit groups parents cursors) \<in> set xs"
proof -
  have g: "groups = fold (\<lambda>a g. map_put (virtual_parent a) (map_get [] g (virtual_parent a) @ [a]) g) xs []"
    "parents = sort (map fst groups)"
    using assms by (auto simp: groupByVirtualParent_def Let_def split: if_split_asm)
  have ne: "map_get [] groups p \<noteq> [] \<and> set (map_get [] groups p) \<subseteq> set xs" if "p \<in> set parents" for p
    using that unfolding g(2) set_sort set_map
    by (auto simp: g(1) group_fold filter_empty_conv)
  have nth: "map_get [] groups (parents ! (i mod length parents)) !
      (j mod length (map_get [] groups (parents ! (i mod length parents)))) \<in> set xs" for i j
  proof -
    have "parents ! (i mod length parents) \<in> set parents" using assms(2) by simp
    from ne [OF this] show ?thesis by (meson length_greater_0_conv mod_less_divisor nth_mem subsetD)
  qed
  then show ?thesis by (simp add: pick_grouped_def Let_def)
qed

lemma fold_add_weight_total:
  "\<forall>a \<in> set xs. 0 < authSelectionWeight a \<Longrightarrow> 0 \<le> t \<Longrightarrow> t + pool_weight xs \<le> maxInt64 \<Longrightarrow>
     fst (fold add_weight xs (t, cur)) = t + pool_weight xs"
proof (induction xs arbitrary: t cur)
  case (Cons a xs)
  let ?w = "authSelectionWeight a"
  have pw: "0 \<le> pool_weight xs" "pool_weight (a # xs) = ?w + pool_weight xs" "0 < ?w"
    using Cons.prems(1) by (auto simp: pool_weight_def less_imp_le intro!: sum_list_nonneg)
  have "wrap64 (t + ?w) = t + ?w"
    using Cons.prems(2,3) pw by (intro wrap64_id) (auto simp: minInt64_def)
  with pw Cons show ?case by (simp add: add_weight_def Let_def)
qed (simp add: pool_weight_def)

lemma pickWeightedAvailable_in:
  assumes "xs \<noteq> []" "\<forall>a \<in> set xs. 0 < authSelectionWeight a" "pool_weight xs \<le> maxInt64"
  shows "\<exists>a \<in> set xs. snd (pickWeightedAvailable st xs) = Some a"
proof -
  have "0 < pool_weight xs"
    using assms(1,2) unfolding pool_weight_def
    by (cases xs) (auto simp: less_imp_le intro!: add_pos_nonneg sum_list_nonneg)
  moreover have "fst (fold add_weight xs (0, wcCurrent st)) = pool_weight xs"
    using fold_add_weight_total [OF assms(2), of 0 "wcCurrent st"] assms(3) by simp
  ultimately have "snd (pickWeightedAvailable st xs) = Some (xs ! best_index xs
      (filter (\<lambda>(id, _). id \<in> set (map aID xs)) (snd (fold add_weight xs (0, wcCurrent st)))) (wcTie st mod length xs))"
    using assms(1) by (simp add: pickWeightedAvailable_def Let_def case_prod_unfold)
  then show ?thesis using best_index_max [OF assms(1)] by (metis nth_mem)
qed

lemma pickWeightedAvailable_member:
  assumes "snd (pickWeightedAvailable st xs) = Some a"
  shows "a \<in> set xs"
proof -
  have "xs \<noteq> []" using assms by (auto simp: pickWeightedAvailable_def)
  moreover from this obtain cur start where "a = xs ! best_index xs cur start"
    using assms by (auto simp: pickWeightedAvailable_def Let_def case_prod_unfold split: if_split_asm)
  ultimately show ?thesis using best_index_max by simp
qed

lemma sum_list_filter_le:
  fixes f :: "'a \<Rightarrow> int"
  assumes "\<forall>a \<in> set xs. 0 \<le> f a"
  shows "sum_list (map f (filter P xs)) \<le> sum_list (map f xs)"
  using assms by (induction xs) auto

lemma pool_weight_prefer:
  "pool_weight (preferCodexWebsocketAuths ws provider xs) \<le> pool_weight xs"
  using sum_list_filter_le [of xs authSelectionWeight authWebsocketsEnabled]
  by (simp add: preferCodexWebsocketAuths_def Let_def pool_weight_def authSelectionWeight_nonneg)

interpretation round_robin: selector provider model "RoundRobin_Pick exp2 rnd ws meta provider model"
    "\<lambda>xs. pool_weight xs \<le> maxInt64"
  for exp2 rnd ws meta provider model
proof
  fix now auths xs and s :: "rr_state \<times> tracker"
  assume now: "0 \<le> now" and av: "getAvailableAuths auths provider model now = Inr xs"
    and good: "pool_weight xs \<le> maxInt64"
  define ys where "ys = preferCodexWebsocketAuths ws provider xs"
  have ys: "set ys \<subseteq> set xs" "ys \<noteq> []" "pool_weight ys \<le> maxInt64"
    using preferCodexWebsocketAuths_subset(1) [of ws provider xs] getAvailableAuths_nonempty [OF now av]
      pool_weight_prefer [of ws provider xs] good preferCodexWebsocketAuths_subset(2) [of xs ws provider]
    by (auto simp: ys_def)
  have "\<forall>a \<in> set ys. 0 < authSelectionWeight a"
    using available_member [OF now av] ys(1) unfolding authParticipatesInSelection_def by blast
  note picked = pickWeightedAvailable_in [OF ys(2) this ys(3)]
  obtain groups parents where g: "groupByVirtualParent ys = (groups, parents)" by (cases "groupByVirtualParent ys")
  obtain st tr where s: "s = (st, tr)" by (cases s)
  show "\<exists>a \<in> set xs. snd (RoundRobin_Pick exp2 rnd ws meta provider model s now auths) = Inr a"
  proof (cases "1 < length parents")
    case True
    then have "parents \<noteq> []" by auto
    with True pick_grouped_in [OF g] ys(1) show ?thesis
      by (force simp: RoundRobin_Pick_def s av ys_def [symmetric] g Let_def case_prod_unfold)
  next
    case False
    define w where "w = pickWeightedAvailable (map_get newWeightedState
        (ensureWeightedState (rrWeighted st) (weightedSelectionKey provider model meta) (rr_limit st))
        (weightedSelectionKey provider model meta)) ys"
    obtain a where "a \<in> set ys" "snd w = Some a" using picked unfolding w_def by blast
    with False ys(1) show ?thesis
      by (auto simp: RoundRobin_Pick_def s av ys_def [symmetric] g Let_def case_prod_unfold w_def [symmetric])
  qed
next
  fix now auths xs a and s :: "rr_state \<times> tracker"
  assume av: "getAvailableAuths auths provider model now = Inr xs"
    and p: "snd (RoundRobin_Pick exp2 rnd ws meta provider model s now auths) = Inr a"
  define ys where "ys = preferCodexWebsocketAuths ws provider xs"
  have ys: "set ys \<subseteq> set xs" unfolding ys_def by (rule preferCodexWebsocketAuths_subset)
  obtain groups parents where g: "groupByVirtualParent ys = (groups, parents)" by (cases "groupByVirtualParent ys")
  obtain st tr where s: "s = (st, tr)" by (cases s)
  show "a \<in> set xs"
  proof (cases "1 < length parents")
    case True
    then have "parents \<noteq> []" by auto
    with True pick_grouped_in [OF g] ys p show ?thesis
      by (auto simp: RoundRobin_Pick_def s av ys_def [symmetric] g Let_def case_prod_unfold)
  next
    case False
    with p obtain w where "snd (pickWeightedAvailable w ys) = Some a"
      by (auto simp: RoundRobin_Pick_def s av ys_def [symmetric] g Let_def case_prod_unfold split: option.split_asm)
    from pickWeightedAvailable_member [OF this] ys show ?thesis by blast
  qed
qed (simp add: RoundRobin_Pick_def split: prod.split)

section \<open>Properties of the selectors\<close>

text \<open>
  A round-robin pick fails only with the error of the availability test and otherwise returns one of the
  available candidates, in the flat and in the two-level mode, provided the total weight of the pool
  fits in 64 bits.
\<close>

theorem RoundRobin_Pick_contract:
  assumes "0 \<le> now"
    and "\<And>xs. getAvailableAuths auths provider model now = Inr xs \<Longrightarrow> pool_weight xs \<le> maxInt64"
  shows "case getAvailableAuths auths provider model now of
           Inl e \<Rightarrow> snd (RoundRobin_Pick exp2 rnd ws meta provider model s now auths) = Inl e
         | Inr xs \<Rightarrow> \<exists>a \<in> set xs. snd (RoundRobin_Pick exp2 rnd ws meta provider model s now auths) = Inr a"
proof (cases "getAvailableAuths auths provider model now")
  case (Inl e)
  with round_robin.pick_error [OF assms(1) Inl] show ?thesis by simp
next
  case (Inr xs)
  with round_robin.pick_available [OF assms(1) Inr assms(2) [OF Inr]] show ?thesis by simp
qed

definition fresh_rr :: "rr_state \<times> tracker" where
  "fresh_rr = (\<lparr>rrCursors = [], rrWeighted = [], rrMaxKeys = 0\<rparr>, \<lparr>trCounters = [], trMaxKeys = 0\<rparr>)"

theorem RoundRobin_Pick_contract_witness:
  "\<exists>a \<in> set [sample_auth]. snd (RoundRobin_Pick (\<lambda>_. 1) (\<lambda>_. 0) False [] ''codex'' ''m'' fresh_rr 5 [sample_auth]) = Inr a"
proof -
  have v: "getAvailableAuths [sample_auth] ''codex'' ''m'' 5 = Inr [sample_auth]" by code_simp
  have "pool_weight [sample_auth] \<le> maxInt64" by code_simp
  with RoundRobin_Pick_contract [of 5 "[sample_auth]" "''codex''" "''m''"] v show ?thesis by simp
qed

text \<open>
  Without that bound the promise fails: two credentials with weight \<^verbatim>\<open>2^62\<close> each make the sum wrap to a
  negative number, and round-robin reports that there is no credential although both are available.
\<close>

theorem RoundRobin_weight_overflow:
  "let a = sample_auth\<lparr>aAttributes := [(''selection_weight'', ''4611686018427387904'')]\<rparr>;
       b = a\<lparr>aID := ''b''\<rparr>
   in getAvailableAuths [a, b] ''codex'' ''m'' 5 = Inr [a, b] \<and>
      snd (RoundRobin_Pick (\<lambda>_. 1) (\<lambda>_. 0) False [] ''codex'' ''m'' fresh_rr 5 [a, b]) =
        Inl (AuthError ''auth_not_found'' ''selector returned no auth'')"
  by code_simp

text \<open>
  Least-load returns the available candidate with the smallest score, that is with the least recent and
  current work relative to its weight, scaled up as it nears its quota.
\<close>

theorem LeastLoad_Pick_minimal:
  assumes "0 \<le> now" "getAvailableAuths auths provider model now = Inr xs"
  shows "\<exists>a \<in> set xs. snd (LeastLoad_Pick exp2 False active load provider model tr now auths) = Inr a \<and>
           (\<forall>x \<in> set xs. least_load_score exp2 tr active load now a \<le> least_load_score exp2 tr active load now x)"
proof -
  obtain a where a: "a \<in> set xs" "snd (LeastLoad_Pick exp2 False active load provider model tr now auths) = Inr a"
    using least_load.pick_available [OF assms] by blast
  have "preferCodexWebsocketAuths False provider xs = xs" by (simp add: preferCodexWebsocketAuths_def)
  with a(2) assms(2) have "least_loop (least_load_score exp2 tr active load now) xs None = Some a"
    by (auto simp: LeastLoad_Pick_def Let_def split: option.split_asm)
  from least_loop_best [OF this] a show ?thesis by auto
qed

theorem LeastLoad_Pick_minimal_witness:
  "\<exists>a \<in> set [sample_auth, sample_auth\<lparr>aID := ''b''\<rparr>].
     snd (LeastLoad_Pick (\<lambda>_. 1) False [(''a'', 2)] (\<lambda>_. 0) ''codex'' ''m'' \<lparr>trCounters = [], trMaxKeys = 0\<rparr> 5
        [sample_auth, sample_auth\<lparr>aID := ''b''\<rparr>]) = Inr a"
proof -
  have v: "getAvailableAuths [sample_auth, sample_auth\<lparr>aID := ''b''\<rparr>] ''codex'' ''m'' 5 =
      Inr [sample_auth, sample_auth\<lparr>aID := ''b''\<rparr>]" by code_simp
  show ?thesis
    using LeastLoad_Pick_minimal [OF _ v, of "\<lambda>_. 1" "[(''a'', 2)]" "\<lambda>_. 0"] by auto
qed

lemma fill_loop_spec:
  "fill_loop load xs fb = Some a \<Longrightarrow> (\<forall>b l. fb = Some (b, l) \<longrightarrow> l = load b) \<Longrightarrow>
     (\<exists>ys zs. xs = ys @ a # zs \<and> load a < 9 / 10 \<and> (\<forall>y \<in> set ys. 9 / 10 \<le> load y)) \<or>
     (\<forall>x \<in> set xs. 9 / 10 \<le> load x \<and> load a \<le> load x) \<and> (\<forall>b l. fb = Some (b, l) \<longrightarrow> load a \<le> l)"
proof (induction xs arbitrary: fb)
  case (Cons c cs)
  show ?case
  proof (cases "load c < 9 / 10")
    case True
    with Cons.prems show ?thesis by (intro disjI1 exI [of _ "[]"] exI [of _ cs]) simp
  next
    case False
    let ?fb = "case fb of None \<Rightarrow> Some (c, load c) | Some (_, l) \<Rightarrow> if load c < l then Some (c, load c) else fb"
    have "fill_loop load cs ?fb = Some a" "\<forall>b l. ?fb = Some (b, l) \<longrightarrow> l = load b"
      using Cons.prems False by (auto split: option.split)
    from Cons.IH [OF this] show ?thesis
    proof
      assume "\<exists>ys zs. cs = ys @ a # zs \<and> load a < 9 / 10 \<and> (\<forall>y \<in> set ys. 9 / 10 \<le> load y)"
      then obtain ys zs where "cs = ys @ a # zs" "load a < 9 / 10" "\<forall>y \<in> set ys. 9 / 10 \<le> load y" by blast
      with False show ?thesis by (intro disjI1 exI [of _ "c # ys"] exI [of _ zs]) auto
    next
      assume "(\<forall>x \<in> set cs. 9 / 10 \<le> load x \<and> load a \<le> load x) \<and> (\<forall>b l. ?fb = Some (b, l) \<longrightarrow> load a \<le> l)"
      with False show ?thesis by (intro disjI2) (cases fb; force split: if_split_asm)
    qed
  qed
qed auto

text \<open>
  Fill-first returns, among the available candidates below nine tenths of their capacity, one of highest
  weight; when none is below, one of least load.
\<close>

theorem FillFirst_Pick_headroom:
  assumes "0 \<le> now" "getAvailableAuths auths provider model now = Inr xs"
  shows "\<exists>a \<in> set xs. snd (FillFirst_Pick exp2 False load provider model tr now auths) = Inr a \<and>
           (if \<exists>x \<in> set xs. load x < 9 / 10
            then load a < 9 / 10 \<and>
                 (\<forall>x \<in> set xs. load x < 9 / 10 \<longrightarrow> authSelectionWeight x \<le> authSelectionWeight a)
            else \<forall>x \<in> set xs. load a \<le> load x)"
proof -
  define ord where "ord = sort_key (\<lambda>a. - authSelectionWeight a) xs"
  have ord: "set ord = set xs" "sorted (map (\<lambda>a. - authSelectionWeight a) ord)" by (simp_all add: ord_def)
  have "ord \<noteq> []" using getAvailableAuths_nonempty [OF assms] ord(1) by auto
  then obtain a where a: "fill_loop load ord None = Some a"
    using fill_loop_None [of load ord None] by (cases "fill_loop load ord None") auto
  have "preferCodexWebsocketAuths False provider xs = xs" by (simp add: preferCodexWebsocketAuths_def)
  then have p: "snd (FillFirst_Pick exp2 False load provider model tr now auths) = Inr a"
    using a assms(2) by (simp add: FillFirst_Pick_def Let_def ord_def)
  have "a \<in> set xs" using fill_loop_in [OF a] ord(1) by simp
  moreover have "authSelectionWeight x \<le> authSelectionWeight a"
    if "ord = ys @ a # zs" "\<forall>y \<in> set ys. 9 / 10 \<le> load y" "x \<in> set xs" "load x < 9 / 10" for ys zs x
  proof -
    have "x \<notin> set ys" using that(2,4) by auto
    then have "x = a \<or> x \<in> set zs" using that(1,3) ord(1) by auto
    with ord(2) that(1) show ?thesis by (auto simp: sorted_append)
  qed
  moreover have "(\<exists>ys zs. ord = ys @ a # zs \<and> load a < 9 / 10 \<and> (\<forall>y \<in> set ys. 9 / 10 \<le> load y)) \<or>
      (\<forall>x \<in> set xs. 9 / 10 \<le> load x \<and> load a \<le> load x)"
    using fill_loop_spec [OF a] ord(1) by auto
  ultimately show ?thesis using p by (intro bexI [of _ a]) (auto simp: not_less)
qed

theorem FillFirst_Pick_headroom_witness:
  "\<exists>a \<in> set [sample_auth, heavy]. snd (FillFirst_Pick (\<lambda>_. 1) False (\<lambda>_. 0) ''codex'' ''m''
      \<lparr>trCounters = [], trMaxKeys = 0\<rparr> 5 [sample_auth, heavy]) = Inr a \<and>
      authSelectionWeight heavy \<le> authSelectionWeight a"
proof -
  have v: "getAvailableAuths [sample_auth, heavy] ''codex'' ''m'' 5 = Inr [sample_auth, heavy]" by code_simp
  have t: "(\<exists>x \<in> set [sample_auth, heavy]. (0 :: rat) < 9 / 10) = True" by auto
  from FillFirst_Pick_headroom [OF _ v, of "\<lambda>_. 1" "\<lambda>_. 0" "\<lparr>trCounters = [], trMaxKeys = 0\<rparr>"]
  have "\<exists>a \<in> set [sample_auth, heavy]. snd (FillFirst_Pick (\<lambda>_. 1) False (\<lambda>_. 0) ''codex'' ''m''
      \<lparr>trCounters = [], trMaxKeys = 0\<rparr> 5 [sample_auth, heavy]) = Inr a \<and>
      (\<forall>x \<in> set [sample_auth, heavy]. authSelectionWeight x \<le> authSelectionWeight a)"
    by (simp only: t if_True) simp
  then show ?thesis by auto
qed

end
