(* ===== verification/Routing_Groups.thy ===== *)
theory Routing_Groups
  imports Routing_Scheduling Auth_Selectors
begin

text \<open>
  Channel groups at run time: which groups a credential belongs to, which scheduling block and which weight a request
  sees, and which models a group serves (\<^verbatim>\<open>src/sdk/cliproxy/auth/routing_groups.go\<close>, \<^verbatim>\<open>routing_groups_scope.go\<close>,
  \<^verbatim>\<open>routing_groups_metadata.go\<close>, \<^verbatim>\<open>routing_groups_display_tags.go\<close>, \<^verbatim>\<open>scheduling_metadata.go\<close>,
  \<^verbatim>\<open>alpha_search.go\<close> and the channel half of \<^verbatim>\<open>conductor_selection.go\<close>).

  A \<^verbatim>\<open>map[string]struct{}\<close> is a \<^typ>\<open>string set\<close>; a \<^verbatim>\<open>nil\<close> set and an empty one are not told apart by the code. The
  snapshot of the configuration is a \<^typ>\<open>routing_config option\<close>, \<^term>\<open>None\<close> for \<^verbatim>\<open>nil\<close>. The model registry and
  the lookup of discovered models are reached through interfaces; they are arguments.
\<close>

section \<open>Request and credential metadata\<close>

definition normalizeRoutingTag :: "string \<Rightarrow> string" where
  "normalizeRoutingTag v =
     (let t = trim_space (to_lower v) in if t = '''' then '''' else join ''-'' (str_fields t))"

definition normalizeGroupName :: "string \<Rightarrow> string" where
  "normalizeGroupName v = trim_char CHR ''/'' (to_lower (trim_space v))"

definition normalizeRouteFallback :: "string \<Rightarrow> string" where
  "normalizeRouteFallback v = (if to_lower (trim_space v) = ''default'' then ''default'' else ''none'')"

text \<open>The \<^verbatim>\<open>switch\<close> on the type of a list-valued entry; the items of an \<^verbatim>\<open>[]any\<close> are already printed.\<close>

definition metadata_values :: "goany \<Rightarrow> string list option" where
  "metadata_values v =
     (case v of AStr s \<Rightarrow> Some (split_on CHR '','' s) | AStrs xs \<Rightarrow> Some xs | AAnys xs \<Rightarrow> Some xs | _ \<Rightarrow> None)"

definition metadataStringSet :: "(string, goany) gomap \<Rightarrow> string \<Rightarrow> (string \<Rightarrow> string) \<Rightarrow> string set" where
  "metadataStringSet meta key normalizer =
     (case map_of meta key of None \<Rightarrow> {}
      | Some raw \<Rightarrow>
          (case metadata_values raw of None \<Rightarrow> {}
           | Some values \<Rightarrow> set (filter (\<lambda>n. n \<noteq> '''') (map (\<lambda>v. normalizer (trim_space v)) values))))"

fun tag_list :: "string list \<Rightarrow> string list \<Rightarrow> string list" where
  "tag_list [] seen = []"
| "tag_list (v # vs) seen =
     (let tag = normalizeRoutingTag v
      in if tag = '''' \<or> tag \<in> set seen then tag_list vs seen else tag # tag_list vs (tag # seen))"

definition metadataTagList :: "(string, goany) gomap \<Rightarrow> string \<Rightarrow> string list \<times> bool" where
  "metadataTagList meta key =
     (case map_of meta key of None \<Rightarrow> ([], False)
      | Some raw \<Rightarrow>
          (case metadata_values raw of None \<Rightarrow> ([], True) | Some values \<Rightarrow> (tag_list values [], True)))"

definition appendUniqueTag :: "string list \<Rightarrow> string \<Rightarrow> string list" where
  "appendUniqueTag values tag =
     (let n = normalizeRoutingTag tag in if n = '''' \<or> n \<in> set values then values else values @ [n])"

definition allowedChannelGroupsFromMetadata :: "(string, goany) gomap \<Rightarrow> string set" where
  "allowedChannelGroupsFromMetadata meta = metadataStringSet meta ''allowed-channel-groups'' normalizeGroupName"

definition allowedChannelsFromMetadata :: "(string, goany) gomap \<Rightarrow> string set" where
  "allowedChannelsFromMetadata meta =
     (case map_of meta ''allowed-channels'' of None \<Rightarrow> {}
      | Some raw \<Rightarrow>
          (case metadata_values raw of None \<Rightarrow> {}
           | Some values \<Rightarrow> set (filter (\<lambda>n. n \<noteq> '''') (map (\<lambda>v. to_lower (trim_space v)) values))))"

definition routeGroupFromMetadata :: "(string, goany) gomap \<Rightarrow> string" where
  "routeGroupFromMetadata meta =
     (case map_of meta ''route_group'' of
        Some (AStr s) \<Rightarrow> normalizeGroupName s | Some (ABytes s) \<Rightarrow> normalizeGroupName s | _ \<Rightarrow> '''')"

definition routeFallbackFromMetadata :: "(string, goany) gomap \<Rightarrow> string" where
  "routeFallbackFromMetadata meta =
     (case map_of meta ''route_fallback'' of
        Some (AStr s) \<Rightarrow> normalizeRouteFallback s | Some (ABytes s) \<Rightarrow> normalizeRouteFallback s | _ \<Rightarrow> ''none'')"

section \<open>Display tags\<close>

definition routingCodexPlanDisplayTags :: "string list" where
  "routingCodexPlanDisplayTags =
     [''business'', ''edu'', ''enterprise'', ''free'', ''plus'', ''pro'', ''team'']"

definition isStaleCodexRoutingPlanDisplayTag :: "string \<Rightarrow> string \<Rightarrow> string \<Rightarrow> bool" where
  "isStaleCodexRoutingPlanDisplayTag providerTag currentPlan tag \<longleftrightarrow>
     \<not> (providerTag \<noteq> ''codex'' \<or> currentPlan = '''' \<or> tag = currentPlan) \<and>
     currentPlan \<in> set routingCodexPlanDisplayTags \<and> tag \<in> set routingCodexPlanDisplayTags"

definition plan_tag :: "auth \<Rightarrow> string" where
  "plan_tag a = normalizeRoutingTag (metadataStringValue (aMetadata a) [''plan_type'', ''planType''])"

definition explicit_step :: "string set \<Rightarrow> string \<Rightarrow> string \<Rightarrow> string \<Rightarrow> string list \<Rightarrow> string list" where
  "explicit_step allowed providerTag currentPlan tag out =
     (if tag \<in> allowed then appendUniqueTag out tag
      else if isStaleCodexRoutingPlanDisplayTag providerTag currentPlan tag \<and> currentPlan \<in> allowed
      then appendUniqueTag out currentPlan
      else out)"

definition authDisplayTags :: "auth \<Rightarrow> string list" where
  "authDisplayTags a =
     (let provider = normalizeRoutingTag (aProvider a);
          d1 = (if provider \<noteq> '''' \<and> provider \<noteq> ''unknown'' then appendUniqueTag [] provider else []);
          defaultTags = (if plan_tag a \<noteq> '''' then appendUniqueTag d1 (plan_tag a) else d1);
          customTags = fst (metadataTagList (aMetadata a) ''custom_tags'');
          hidden = fst (metadataTagList (aMetadata a) ''hidden_default_tags'');
          (explicit, hasExplicit) = metadataTagList (aMetadata a) ''display_tags''
      in if hasExplicit
         then fold (explicit_step (set defaultTags \<union> set customTags) provider (plan_tag a)) explicit []
         else fold (\<lambda>tag out. if tag \<in> set hidden then out else appendUniqueTag out tag) (defaultTags @ customTags) [])"

definition authMatchesAnyTag :: "auth \<Rightarrow> string list \<Rightarrow> bool" where
  "authMatchesAnyTag a tags \<longleftrightarrow>
     (let displayTags = filter (\<lambda>t. t \<noteq> '''') (map normalizeRoutingTag (authDisplayTags a))
      in list_ex (\<lambda>tag. normalizeRoutingTag tag \<in> set displayTags) tags)"

section \<open>Group membership\<close>

definition includeDefaultGroup :: "routing_config option \<Rightarrow> bool" where
  "includeDefaultGroup cfg = (case cfg of None \<Rightarrow> True | Some c \<Rightarrow> rcIncludeDefaultGroup c)"

definition routingChannelGroupMatchesAuth :: "auth \<Rightarrow> channel_group \<Rightarrow> string \<Rightarrow> bool" where
  "routingChannelGroupMatchesAuth a g authPrefix0 \<longleftrightarrow>
     (let authPrefix = (if authPrefix0 = '''' then normalizeGroupName (aPrefix a) else authPrefix0)
      in list_ex (\<lambda>p. authPrefix \<noteq> '''' \<and> normalizeGroupName p = authPrefix) (cmPrefixes (cgMatch g)) \<or>
         list_ex (authMatchesChannelName a) (cmChannels (cgMatch g)) \<or>
         authMatchesAnyTag a (cmTags (cgMatch g)))"

definition matching_groups :: "routing_config \<Rightarrow> auth \<Rightarrow> channel_group list" where
  "matching_groups c a =
     filter (\<lambda>g. normalizeGroupName (cgName g) \<noteq> '''' \<and>
                 routingChannelGroupMatchesAuth a g (normalizeGroupName (aPrefix a))) (rcChannelGroups c)"

definition authGroups :: "routing_config option \<Rightarrow> auth \<Rightarrow> string set" where
  "authGroups cfg a =
     (let authPrefix = normalizeGroupName (aPrefix a)
      in case cfg of
           None \<Rightarrow> if authPrefix \<noteq> '''' then {authPrefix} else if includeDefaultGroup cfg then {''default''} else {}
         | Some c \<Rightarrow>
             let gs = matching_groups c a;
                 excludeFromDefault =
                   list_ex (\<lambda>g. normalizeGroupName (cgName g) \<noteq> ''default'' \<and> cgExcludeFromDefault g) gs;
                 base = (if authPrefix \<noteq> '''' then {authPrefix}
                         else if includeDefaultGroup cfg \<and> \<not> excludeFromDefault then {''default''} else {})
             in base \<union> set (map (\<lambda>g. normalizeGroupName (cgName g)) gs))"

definition authAllowedByGroups :: "routing_config option \<Rightarrow> auth \<Rightarrow> string set \<Rightarrow> bool" where
  "authAllowedByGroups cfg a allowed \<longleftrightarrow> allowed = {} \<or> (\<exists>g \<in> authGroups cfg a. g \<in> allowed)"

definition authAllowedByChannels :: "auth \<Rightarrow> string set \<Rightarrow> bool" where
  "authAllowedByChannels a allowed \<longleftrightarrow>
     allowed = {} \<or> list_ex (\<lambda>i. to_lower (trim_space i) \<in> allowed) (ChannelIdentifiers a)"

definition authInRouteGroup :: "routing_config option \<Rightarrow> auth \<Rightarrow> string \<Rightarrow> bool" where
  "authInRouteGroup cfg a grp \<longleftrightarrow>
     normalizeGroupName grp = '''' \<or> normalizeGroupName grp \<in> authGroups cfg a"

section \<open>Scheduling block and weight\<close>

fun find_group :: "string \<Rightarrow> channel_group list \<Rightarrow> channel_group option" where
  "find_group name [] = None"
| "find_group name (g # gs) = (if normalizeGroupName (cgName g) = name then Some g else find_group name gs)"

definition channelGroupScheduling :: "routing_config option \<Rightarrow> string \<Rightarrow> group_scheduling option" where
  "channelGroupScheduling cfg groupName =
     (case cfg of None \<Rightarrow> None
      | Some c \<Rightarrow>
          let name = normalizeGroupName groupName
          in if name = '''' then None else map_option cgScheduling (find_group name (rcChannelGroups c)))"

definition onlyAllowedGroupName :: "string set \<Rightarrow> string" where
  "onlyAllowedGroupName allowed =
     (case sorted_list_of_set allowed of [g] \<Rightarrow> normalizeGroupName g | _ \<Rightarrow> '''')"

definition globalScheduling :: "routing_config option \<Rightarrow> group_scheduling" where
  "globalScheduling cfg =
     (let s = \<lparr>gsDistribution = ''weighted'', gsSticky = no_sticky, gsChannelWeights = []\<rparr>
      in case cfg of None \<Rightarrow> s
         | Some c \<Rightarrow>
             let strat = trim_space (rcStrategy c)
             in if strat = ''session-sticky''
                then s\<lparr>gsSticky := no_sticky\<lparr>stEnabled := True, stMaxRequests := DefaultStickyMaxRequests\<rparr>\<rparr>
                else if strat = ''fill-first'' then s\<lparr>gsDistribution := ''fill-first''\<rparr> else s)"

definition scopedScheduling :: "routing_config option \<Rightarrow> string \<Rightarrow> string set \<Rightarrow> group_scheduling" where
  "scopedScheduling cfg routeGroup0 allowedGroups =
     (let routeGroup = normalizeGroupName routeGroup0;
          allowedGroup = onlyAllowedGroupName allowedGroups
      in if routeGroup \<noteq> '''' then
           (case channelGroupScheduling cfg routeGroup of Some s \<Rightarrow> s | None \<Rightarrow> globalScheduling cfg)
         else if allowedGroup \<noteq> '''' then
           (case channelGroupScheduling cfg allowedGroup of Some s \<Rightarrow> s | None \<Rightarrow> globalScheduling cfg)
         else globalScheduling cfg)"

definition priorityScopeGroups :: "string \<Rightarrow> string set \<Rightarrow> string set" where
  "priorityScopeGroups routeGroup0 allowedGroups =
     (let routeGroup = normalizeGroupName routeGroup0
      in if routeGroup \<noteq> '''' then {routeGroup}
         else Set.filter (\<lambda>g. g \<noteq> '''') (normalizeGroupName ` allowedGroups))"

definition weight_better :: "auth \<Rightarrow> string \<times> int \<Rightarrow> int option \<Rightarrow> int option" where
  "weight_better a e best =
     (case e of (name, weight) \<Rightarrow>
        if authMatchesChannelName a name \<and> (case best of None \<Rightarrow> True | Some b \<Rightarrow> b < weight)
        then Some weight else best)"

definition derivedGroupWeight :: "routing_config option \<Rightarrow> auth \<Rightarrow> string set \<Rightarrow> int option" where
  "derivedGroupWeight cfg a scopedGroups =
     (case cfg of None \<Rightarrow> None
      | Some c \<Rightarrow>
          let groups = authGroups cfg a
          in if scopedGroups = {} \<or> groups = {} then None
             else fold (\<lambda>g best.
                    if normalizeGroupName (cgName g) \<in> groups \<and> normalizeGroupName (cgName g) \<in> scopedGroups
                    then fold (weight_better a) (gsChannelWeights (cgScheduling g)) best else best)
                  (rcChannelGroups c) None)"

definition prepareCandidateForSelection :: "routing_config option \<Rightarrow> auth \<Rightarrow> string \<Rightarrow> string set \<Rightarrow> auth" where
  "prepareCandidateForSelection cfg a routeGroup allowedGroups =
     (let cloned = Auth_Clone a
      in case derivedGroupWeight cfg cloned (priorityScopeGroups routeGroup allowedGroups) of
           None \<Rightarrow> cloned
         | Some w \<Rightarrow> cloned\<lparr>aAttributes := map_put ''selection_weight'' (itoa w) (aAttributes cloned)\<rparr>)"

section \<open>Which models a group serves\<close>

definition requestedModelHasRoutingPrefix :: "string \<Rightarrow> bool" where
  "requestedModelHasRoutingPrefix model0 =
     (let model = trim_space model0
      in case str_index model ''/'' of None \<Rightarrow> False
         | Some i \<Rightarrow> normalizeGroupName (take i model) \<noteq> '''' \<and> trim_space (drop (i + 1) model) \<noteq> '''')"

definition defaultRouteGroupForSelection :: "routing_config option \<Rightarrow> string \<Rightarrow> string" where
  "defaultRouteGroupForSelection cfg model =
     (case cfg of None \<Rightarrow> ''''
      | Some c \<Rightarrow> if \<not> rcIncludeDefaultGroup c \<or> requestedModelHasRoutingPrefix model then '''' else ''default'')"

definition effectiveRouteGroupForSelection :: "routing_config option \<Rightarrow> string \<Rightarrow> string set \<Rightarrow> string \<Rightarrow> string" where
  "effectiveRouteGroupForSelection cfg routeGroup allowedGroups model =
     (if normalizeGroupName routeGroup \<noteq> '''' then normalizeGroupName routeGroup
      else if allowedGroups \<noteq> {} then ''''
      else defaultRouteGroupForSelection cfg model)"

definition routingGroupAllowsModel :: "string \<Rightarrow> string list \<Rightarrow> string \<Rightarrow> bool" where
  "routingGroupAllowsModel groupName allowedModels modelID0 =
     (let modelID = trim_space modelID0;
          pre = groupName @ ''/'';
          unprefixed = (if groupName \<noteq> '''' \<and> prefix (to_lower pre) (to_lower modelID)
                        then drop (length pre) modelID else modelID)
      in modelID \<noteq> '''' \<and>
         list_ex (\<lambda>raw. let allowed = trim_space raw
                        in allowed \<noteq> '''' \<and> (equal_fold allowed modelID \<or> equal_fold allowed unprefixed)) allowedModels)"

definition routingGroupModelAllowed ::
  "(string \<Rightarrow> string \<Rightarrow> bool) \<Rightarrow> string \<Rightarrow> string list \<Rightarrow> string list \<Rightarrow> string \<Rightarrow> string \<Rightarrow> bool" where
  "routingGroupModelAllowed discovered groupName allowedModels excludedModels modelID tenantID =
     (if ChannelGroupExcludesModel excludedModels modelID then False
      else if allowedModels = [] then trim_space modelID \<noteq> ''''
      else if routingGroupAllowsModel groupName allowedModels modelID then True
      else normalizeGroupName groupName = ''default'' \<and> discovered tenantID modelID)"

definition scopedRouteGroupNames :: "string set \<Rightarrow> string \<Rightarrow> string set \<Rightarrow> string set" where
  "scopedRouteGroupNames candidateGroups routeGroup allowedGroups =
     (if routeGroup \<noteq> '''' \<and> normalizeGroupName routeGroup \<in> candidateGroups
      then {normalizeGroupName routeGroup} else {}) \<union> (candidateGroups \<inter> allowedGroups)"

fun gate_loop ::
  "(string \<Rightarrow> string \<Rightarrow> bool) \<Rightarrow> string \<Rightarrow> string \<Rightarrow> string set \<Rightarrow> channel_group list \<Rightarrow> bool \<Rightarrow> bool" where
  "gate_loop discovered tenantID modelID scoped [] foundRestricted = (\<not> foundRestricted)"
| "gate_loop discovered tenantID modelID scoped (g # gs) foundRestricted =
     (let name = normalizeGroupName (cgName g)
      in if name \<notin> scoped then gate_loop discovered tenantID modelID scoped gs foundRestricted
         else if cgAllowedModels g = [] \<and> cgExcludedModels g = [] then True
         else if routingGroupModelAllowed discovered name (cgAllowedModels g) (cgExcludedModels g) modelID tenantID
         then True
         else gate_loop discovered tenantID modelID scoped gs True)"

definition modelAllowedByRoutingGroupScopes ::
  "(string \<Rightarrow> string \<Rightarrow> bool) \<Rightarrow> routing_config option \<Rightarrow> string \<Rightarrow> string \<Rightarrow> string set \<Rightarrow> string \<Rightarrow> string set \<Rightarrow>
   bool" where
  "modelAllowedByRoutingGroupScopes discovered cfg tenantID modelID0 candidateGroups routeGroup allowedGroups =
     (let modelID = trim_space modelID0
      in case cfg of None \<Rightarrow> True
         | Some c \<Rightarrow>
             if modelID = '''' \<or> candidateGroups = {} then True
             else
               let scoped = scopedRouteGroupNames candidateGroups routeGroup allowedGroups
               in if scoped = {} then True
                  else gate_loop discovered tenantID modelID scoped (rcChannelGroups c) False)"

definition authHasDisableAllModelsRule :: "auth \<Rightarrow> bool" where
  "authHasDisableAllModelsRule a \<longleftrightarrow>
     list_ex (\<lambda>key. list_ex (\<lambda>raw. trim_space raw = ''*'') (split_on CHR '','' (map_get '''' (aAttributes a) key)))
       [''excluded_models'', ''excluded-models'']"

text \<open>The two methods of the registry the selection calls.\<close>

record model_registry =
  mrModels :: "string \<Rightarrow> string list"
  mrSupports :: "string \<Rightarrow> string \<Rightarrow> bool"

definition try_groups :: "string set \<Rightarrow> string \<Rightarrow> string set \<Rightarrow> string set" where
  "try_groups groups routeGroup allowedGroups =
     (let t = (if routeGroup \<noteq> '''' \<and> routeGroup \<in> groups then {routeGroup} else {}) \<union> (groups \<inter> allowedGroups)
      in if t = {} then groups else t)"

definition candidateSupportsModelOpts ::
  "(string \<Rightarrow> string \<Rightarrow> bool) \<Rightarrow> routing_config option \<Rightarrow> model_registry option \<Rightarrow> auth \<Rightarrow> string \<Rightarrow> string \<Rightarrow>
   string set \<Rightarrow> bool \<Rightarrow> bool" where
  "candidateSupportsModelOpts discovered cfg registryRef a modelID0 routeGroup allowedGroups ignoreAllowed =
     (let modelID = trim_space modelID0;
          groups = authGroups cfg a
      in if modelID = '''' then False
         else if \<not> ignoreAllowed \<and>
           \<not> modelAllowedByRoutingGroupScopes discovered cfg (aTenantID a) modelID groups routeGroup allowedGroups
         then False
         else (case registryRef of None \<Rightarrow> True
               | Some r \<Rightarrow>
                   if mrModels r (aID a) = [] then \<not> authHasDisableAllModelsRule a
                   else if mrSupports r (aID a) modelID then True
                   else (\<exists>g \<in> try_groups groups routeGroup allowedGroups.
                           g \<noteq> ''default'' \<and> mrSupports r (aID a) (g @ ''/'' @ modelID))))"

definition candidateSupportsModel ::
  "(string \<Rightarrow> string \<Rightarrow> bool) \<Rightarrow> routing_config option \<Rightarrow> model_registry option \<Rightarrow> auth \<Rightarrow> string \<Rightarrow> string \<Rightarrow>
   string set \<Rightarrow> bool" where
  "candidateSupportsModel discovered cfg registryRef a modelID routeGroup allowedGroups =
     candidateSupportsModelOpts discovered cfg registryRef a modelID routeGroup allowedGroups False"

definition SupportsCodexAlphaSearch :: "auth \<Rightarrow> bool" where
  "SupportsCodexAlphaSearch a =
     (if aProvider a \<noteq> ''codex'' then False
      else if trim_space (map_get '''' (aAttributes a) ''api_key'') \<noteq> ''''
      then map_get '''' (aAttributes a) ''alpha_search'' = ''true'' \<and>
           trim_space (map_get '''' (aAttributes a) ''base_url'') \<noteq> ''''
      else meta_trimmed (aMetadata a) ''access_token'' \<noteq> '''')"

section \<open>Queries of the manager\<close>

definition KnownChannelGroupsForTenant ::
  "(string \<Rightarrow> routing_config option) \<Rightarrow> (string, auth option) gomap \<Rightarrow> string \<Rightarrow> string set" where
  "KnownChannelGroupsForTenant config auths tenantID0 =
     (let tenantID = normalizedTenantID tenantID0;
          cfg = config tenantID;
          explicit = (case cfg of None \<Rightarrow> {}
                      | Some c \<Rightarrow> set (filter (\<lambda>n. n \<noteq> '''') (map (\<lambda>g. normalizeGroupName (cgName g)) (rcChannelGroups c))))
      in fold (\<lambda>e out. case snd e of None \<Rightarrow> out
                 | Some a \<Rightarrow> if normalizedTenantID (aTenantID a) = tenantID then out \<union> authGroups cfg a else out)
           auths explicit)"

definition CanServeModelWithScopesForTenantOpts ::
  "(string \<Rightarrow> string \<Rightarrow> bool) \<Rightarrow> (string \<Rightarrow> routing_config option) \<Rightarrow> model_registry option \<Rightarrow>
   (string, auth option) gomap \<Rightarrow> string \<Rightarrow> string \<Rightarrow> string set \<Rightarrow> string set \<Rightarrow> string \<Rightarrow> bool \<Rightarrow> bool" where
  "CanServeModelWithScopesForTenantOpts discovered config registryRef auths tenantID0 modelID0 allowedChannels
      allowedGroups routeGroup ignoreAllowed =
     (let tenantID = normalizedTenantID tenantID0;
          modelID = trim_space modelID0;
          cfg = config tenantID;
          rg = effectiveRouteGroupForSelection cfg routeGroup allowedGroups modelID
      in modelID \<noteq> '''' \<and>
         list_ex (\<lambda>(_, c). case c of None \<Rightarrow> False
           | Some a \<Rightarrow>
               normalizedTenantID (aTenantID a) = tenantID \<and> \<not> aDisabled a \<and> aStatus a \<noteq> StatusDisabled \<and>
               authAllowedByChannels a allowedChannels \<and> authAllowedByGroups cfg a allowedGroups \<and>
               authInRouteGroup cfg a rg \<and>
               candidateSupportsModelOpts discovered cfg registryRef a modelID rg allowedGroups ignoreAllowed) auths)"

section \<open>The weight of a candidate\<close>

text \<open>The weights the scoped groups configure for channels the credential answers to.\<close>

definition group_weights :: "routing_config \<Rightarrow> auth \<Rightarrow> string set \<Rightarrow> int set" where
  "group_weights c a scoped =
     {w. \<exists>g n. g \<in> set (rcChannelGroups c) \<and> normalizeGroupName (cgName g) \<in> authGroups (Some c) a \<inter> scoped \<and>
               (n, w) \<in> set (gsChannelWeights (cgScheduling g)) \<and> authMatchesChannelName a n}"

text \<open>An accumulator holds the largest weight seen so far.\<close>

definition largest_of :: "int set \<Rightarrow> int option" where
  "largest_of W = (if W = {} then None else Some (Max W))"

lemma largest_of_insert:
  "finite W \<Longrightarrow>
   largest_of (insert w W) = (case largest_of W of None \<Rightarrow> Some w | Some b \<Rightarrow> Some (if b < w then w else b))"
  by (cases "W = {}") (auto simp: largest_of_def max_def simp del: Max_less_iff)

lemma fold_weight_better:
  "finite W \<Longrightarrow>
   fold (weight_better a) ws (largest_of W) =
   largest_of (W \<union> {w. \<exists>n. (n, w) \<in> set ws \<and> authMatchesChannelName a n})"
proof (induction ws arbitrary: W)
  case (Cons e ws)
  obtain n w where e: "e = (n, w)" by force
  show ?case
  proof (cases "authMatchesChannelName a n")
    case True
    have "weight_better a e (largest_of W) = largest_of (insert w W)"
      using True Cons.prems by (simp add: e weight_better_def largest_of_insert split: option.split)
    moreover have "insert w W \<union> {w. \<exists>n. (n, w) \<in> set ws \<and> authMatchesChannelName a n} =
      W \<union> {w. \<exists>n. (n, w) \<in> set (e # ws) \<and> authMatchesChannelName a n}"
      using True by (auto simp: e)
    ultimately show ?thesis using Cons.IH [of "insert w W"] Cons.prems by simp
  next
    case False
    have "{w. \<exists>n. (n, w) \<in> set ws \<and> authMatchesChannelName a n} =
          {w. \<exists>n. (n, w) \<in> set (e # ws) \<and> authMatchesChannelName a n}"
      using False by (auto simp: e)
    with Cons False show ?thesis by (simp add: e weight_better_def)
  qed
qed simp

lemma finite_matched_weights [simp]: "finite {w. \<exists>n. (n, w) \<in> set ws \<and> P n}"
  by (rule finite_subset [of _ "snd ` set ws"]) (force, simp)

lemma fold_groups_largest:
  "finite W \<Longrightarrow>
   fold (\<lambda>g best. if P g then fold (weight_better a) (gsChannelWeights (cgScheduling g)) best else best) gs (largest_of W) =
   largest_of (W \<union> {w. \<exists>g n. g \<in> set gs \<and> P g \<and> (n, w) \<in> set (gsChannelWeights (cgScheduling g)) \<and>
                              authMatchesChannelName a n})"
proof (induction gs arbitrary: W)
  case (Cons g gs)
  let ?W = "{w. \<exists>n. (n, w) \<in> set (gsChannelWeights (cgScheduling g)) \<and> authMatchesChannelName a n}"
  let ?R = "\<lambda>hs. {w. \<exists>h n. h \<in> set hs \<and> P h \<and> (n, w) \<in> set (gsChannelWeights (cgScheduling h)) \<and>
                            authMatchesChannelName a n}"
  have split: "?R (g # gs) = (if P g then ?W else {}) \<union> ?R gs" by auto
  have "fold (\<lambda>g best. if P g then fold (weight_better a) (gsChannelWeights (cgScheduling g)) best else best)
          (g # gs) (largest_of W) =
        largest_of ((W \<union> (if P g then ?W else {})) \<union> ?R gs)"
    using Cons by (simp add: fold_weight_better)
  then show ?case by (simp only: split Un_assoc)
qed simp

lemma derivedGroupWeight_largest:
  "derivedGroupWeight (Some c) a scoped = largest_of (group_weights c a scoped)"
proof (cases "scoped = {} \<or> authGroups (Some c) a = {}")
  case True
  then have "group_weights c a scoped = {}" by (auto simp: group_weights_def)
  with True show ?thesis by (auto simp: derivedGroupWeight_def largest_of_def Let_def)
next
  case False
  then show ?thesis
    using fold_groups_largest [of "{}" "\<lambda>g. normalizeGroupName (cgName g) \<in> authGroups (Some c) a \<and>
      normalizeGroupName (cgName g) \<in> scoped" a "rcChannelGroups c"]
    by (simp add: derivedGroupWeight_def group_weights_def largest_of_def Let_def conj_ac)
qed

text \<open>Copying a credential changes nothing that selection reads of its identity.\<close>

lemma Auth_Clone_frame [simp]:
  "aID (Auth_Clone a) = aID a" "aTenantID (Auth_Clone a) = aTenantID a" "aProvider (Auth_Clone a) = aProvider a"
  "aPrefix (Auth_Clone a) = aPrefix a" "aAttributes (Auth_Clone a) = aAttributes a"
  "aMetadata (Auth_Clone a) = aMetadata a" "aDisabled (Auth_Clone a) = aDisabled a" "aStatus (Auth_Clone a) = aStatus a"
  "aLabel (Auth_Clone a) = aLabel a" "aFileName (Auth_Clone a) = aFileName a"
  by (simp_all add: Auth_Clone_def)

lemma ChannelIdentifiers_Clone [simp]: "ChannelIdentifiers (Auth_Clone a) = ChannelIdentifiers a"
  by (simp add: ChannelIdentifiers_def ChannelName_def)

lemma plan_tag_Clone [simp]: "plan_tag (Auth_Clone a) = plan_tag a"
  by (simp add: plan_tag_def)

lemma authDisplayTags_Clone [simp]: "authDisplayTags (Auth_Clone a) = authDisplayTags a"
  by (simp only: authDisplayTags_def Auth_Clone_frame plan_tag_Clone)

lemma authMatchesChannelName_Clone [simp]: "authMatchesChannelName (Auth_Clone a) n = authMatchesChannelName a n"
  by (simp add: authMatchesChannelName_def)

lemma routingChannelGroupMatchesAuth_Clone [simp]:
  "routingChannelGroupMatchesAuth (Auth_Clone a) g p = routingChannelGroupMatchesAuth a g p"
  by (simp add: routingChannelGroupMatchesAuth_def authMatchesAnyTag_def list_ex_iff)

lemma matching_groups_Clone [simp]: "matching_groups c (Auth_Clone a) = matching_groups c a"
  by (simp add: matching_groups_def)

lemma authGroups_Clone [simp]: "authGroups cfg (Auth_Clone a) = authGroups cfg a"
  by (simp only: authGroups_def matching_groups_Clone Auth_Clone_frame)

lemma group_weights_Clone [simp]: "group_weights c (Auth_Clone a) scoped = group_weights c a scoped"
  by (simp add: group_weights_def)

lemma prepared_weight:
  assumes "derivedGroupWeight cfg a (priorityScopeGroups routeGroup allowed) = Some w"
    and "minInt64 \<le> w" and "w \<le> maxInt64"
  shows "authSelectionWeight (prepareCandidateForSelection cfg a routeGroup allowed) = max 0 w"
proof -
  have "derivedGroupWeight cfg (Auth_Clone a) = derivedGroupWeight cfg a"
    by (cases cfg) (auto simp: derivedGroupWeight_def [of None] derivedGroupWeight_largest fun_eq_iff)
  moreover have "itoa w \<noteq> ''''" using nat_digits_props by (simp add: itoa_def)
  ultimately show ?thesis
    using assms
    by (simp add: prepareCandidateForSelection_def authSelectionWeight_def parseWeightAttribute_def max_def)
qed

text \<open>
  The group configuration decides the share of a credential: the prepared candidate carries the largest weight
  that the groups in scope configure for a channel it answers to, whatever weight the credential itself was stored
  with, and a weight of 0 or less takes it out of the rotation.
\<close>

theorem prepareCandidateForSelection_weight:
  assumes "W = group_weights c a (priorityScopeGroups routeGroup allowed)" and "W \<noteq> {}"
    and "minInt64 \<le> Max W" and "Max W \<le> maxInt64"
  shows "authSelectionWeight (prepareCandidateForSelection (Some c) a routeGroup allowed) = max 0 (Max W) \<and>
         (authParticipatesInSelection (prepareCandidateForSelection (Some c) a routeGroup allowed) \<longleftrightarrow> (\<exists>w \<in> W. 0 < w))"
proof -
  have fin: "finite W"
    unfolding assms(1) group_weights_def
    by (rule finite_subset [of _ "\<Union>g \<in> set (rcChannelGroups c). snd ` set (gsChannelWeights (cgScheduling g))"])
      (force, simp)
  have "derivedGroupWeight (Some c) a (priorityScopeGroups routeGroup allowed) = Some (Max W)"
    using assms(1,2) by (simp add: derivedGroupWeight_largest largest_of_def)
  from prepared_weight [OF this assms(3,4)]
  have w: "authSelectionWeight (prepareCandidateForSelection (Some c) a routeGroup allowed) = max 0 (Max W)" .
  moreover have "0 < Max W \<longleftrightarrow> (\<exists>w \<in> W. 0 < w)"
    using fin assms(2) by (simp add: Max_gr_iff)
  ultimately show ?thesis by (auto simp: authParticipatesInSelection_def)
qed

definition vip_config :: routing_config where
  "vip_config =
     \<lparr>rcStrategy = ''round-robin'', rcIncludeDefaultGroup = True,
      rcChannelGroups = [(sticky_group 7)\<lparr>cgMatch := \<lparr>cmPrefixes = [], cmChannels = [''Alice''], cmTags = []\<rparr>,
        cgScheduling := \<lparr>gsDistribution = ''weighted'', gsSticky = no_sticky,
                         gsChannelWeights = [(''alice'', 5), (''bob'', 9)]\<rparr>,
        cgAllowedModels := [''gpt-5''], cgExcludedModels := [''*-mini'']\<rparr>]\<rparr>"

definition alice :: auth where
  "alice = sample_auth\<lparr>aID := ''a1'', aLabel := ''alice'', aAttributes := [(''selection_weight'', ''1'')]\<rparr>"

lemma vip_weights: "group_weights vip_config alice (priorityScopeGroups ''pro'' {}) = {5}"
proof -
  have "largest_of {5} = derivedGroupWeight (Some vip_config) alice (priorityScopeGroups ''pro'' {})" by code_simp
  have g: "normalizeGroupName ''pro'' \<in> authGroups (Some vip_config) alice \<inter> priorityScopeGroups ''pro'' {}" by code_simp
  have m: "authMatchesChannelName alice ''alice''" "\<not> authMatchesChannelName alice ''bob''" by code_simp+
  show ?thesis
    using g m by (auto simp: group_weights_def vip_config_def sticky_group_def)
qed

theorem prepareCandidateForSelection_weight_witness:
  "authSelectionWeight alice = 1 \<and>
   authSelectionWeight (prepareCandidateForSelection (Some vip_config) alice ''pro'' {}) = 5"
proof
  show "authSelectionWeight alice = 1" by code_simp
  show "authSelectionWeight (prepareCandidateForSelection (Some vip_config) alice ''pro'' {}) = 5"
    using prepareCandidateForSelection_weight [OF vip_weights [symmetric]]
    by (simp add: minInt64_def maxInt64_def)
qed

section \<open>The model gate\<close>

text \<open>The groups of the configuration that the gate consults for a request.\<close>

definition scoped_groups :: "routing_config \<Rightarrow> string set \<Rightarrow> string \<Rightarrow> string set \<Rightarrow> channel_group set" where
  "scoped_groups c groups routeGroup allowed =
     {g \<in> set (rcChannelGroups c). normalizeGroupName (cgName g) \<in> scopedRouteGroupNames groups routeGroup allowed}"

definition group_admits :: "(string \<Rightarrow> string \<Rightarrow> bool) \<Rightarrow> string \<Rightarrow> string \<Rightarrow> channel_group \<Rightarrow> bool" where
  "group_admits discovered tenantID modelID g \<longleftrightarrow>
     cgAllowedModels g = [] \<and> cgExcludedModels g = [] \<or>
     routingGroupModelAllowed discovered (normalizeGroupName (cgName g)) (cgAllowedModels g) (cgExcludedModels g)
       modelID tenantID"

lemma gate_loop_iff:
  "gate_loop discovered tenantID modelID scoped gs found \<longleftrightarrow>
     (\<exists>g \<in> set gs. normalizeGroupName (cgName g) \<in> scoped \<and> group_admits discovered tenantID modelID g) \<or>
     \<not> found \<and> (\<forall>g \<in> set gs. normalizeGroupName (cgName g) \<notin> scoped)"
  by (induction gs arbitrary: found) (auto simp: Let_def group_admits_def)

text \<open>
  The model gate of channel groups: a model passes iff no configured group is in scope for the credential, or some
  group in scope admits it. An exclusion always beats an allow entry, whatever the two lists say.
\<close>

theorem modelAllowedByRoutingGroupScopes_iff:
  assumes "trim_space modelID = modelID" and "modelID \<noteq> ''''"
  shows "(modelAllowedByRoutingGroupScopes discovered (Some c) tenantID modelID groups routeGroup allowed \<longleftrightarrow>
            scoped_groups c groups routeGroup allowed = {} \<or>
            (\<exists>g \<in> scoped_groups c groups routeGroup allowed. group_admits discovered tenantID modelID g)) \<and>
         (group_admits discovered tenantID modelID g \<longrightarrow> \<not> ChannelGroupExcludesModel (cgExcludedModels g) modelID)"
proof
  have "scopedRouteGroupNames {} routeGroup allowed = {}" by (simp add: scopedRouteGroupNames_def)
  then show "modelAllowedByRoutingGroupScopes discovered (Some c) tenantID modelID groups routeGroup allowed \<longleftrightarrow>
        scoped_groups c groups routeGroup allowed = {} \<or>
        (\<exists>g \<in> scoped_groups c groups routeGroup allowed. group_admits discovered tenantID modelID g)"
    using assms
    by (auto simp: modelAllowedByRoutingGroupScopes_def gate_loop_iff scoped_groups_def Let_def)
  show "group_admits discovered tenantID modelID g \<longrightarrow> \<not> ChannelGroupExcludesModel (cgExcludedModels g) modelID"
    by (auto simp: group_admits_def routingGroupModelAllowed_def ChannelGroupExcludesModel_def Let_def split: if_splits)
qed

theorem modelAllowedByRoutingGroupScopes_iff_witness:
  "(modelAllowedByRoutingGroupScopes (\<lambda>_ _. False) (Some vip_config) ''t'' ''gpt-5'' {''pro''} ''pro'' {} \<longleftrightarrow>
      scoped_groups vip_config {''pro''} ''pro'' {} = {} \<or>
      (\<exists>g \<in> scoped_groups vip_config {''pro''} ''pro'' {}. group_admits (\<lambda>_ _. False) ''t'' ''gpt-5'' g)) \<and>
   modelAllowedByRoutingGroupScopes (\<lambda>_ _. False) (Some vip_config) ''t'' ''gpt-5'' {''pro''} ''pro'' {} \<and>
   \<not> modelAllowedByRoutingGroupScopes (\<lambda>_ _. True) (Some vip_config) ''t'' ''gpt-5-mini'' {''pro''} ''pro'' {}"
proof (intro conjI)
  have "trim_space ''gpt-5'' = ''gpt-5''" by code_simp
  then show "modelAllowedByRoutingGroupScopes (\<lambda>_ _. False) (Some vip_config) ''t'' ''gpt-5'' {''pro''} ''pro'' {} \<longleftrightarrow>
      scoped_groups vip_config {''pro''} ''pro'' {} = {} \<or>
      (\<exists>g \<in> scoped_groups vip_config {''pro''} ''pro'' {}. group_admits (\<lambda>_ _. False) ''t'' ''gpt-5'' g)"
    using modelAllowedByRoutingGroupScopes_iff by blast
qed code_simp+

end
