(* ===== verification/Session_Sticky.thy ===== *)
theory Session_Sticky
  imports Routing_Groups Claude_Health
begin

text \<open>
  Session stickiness: \<^verbatim>\<open>src/sdk/cliproxy/auth/selector_session_sticky.go\<close>, its shared part
  \<^verbatim>\<open>selector_session_sticky_shared.go\<close>, and the store of bindings that the nodes of a cluster share
  (\<^verbatim>\<open>src/internal/cluster/sharedstate/affinity.go\<close>, reached through the adapter in
  \<^verbatim>\<open>src/internal/cluster/clusterruntime/runtime.go\<close>).

  A selection reads one clock instant. The bindings map never holds a \<^verbatim>\<open>nil\<close> pointer, because \<^verbatim>\<open>bind\<close> is its only writer.
  The digests are arguments: \<open>seRef\<close> is \<^verbatim>\<open>AffinityAccountRef\<close> and \<open>seKey\<close> is \<^verbatim>\<open>affinityKey\<close>. The session identity that is
  read off a request body without any session header is the argument \<open>bodyKey\<close>.

  The Redis behind the store is a table from keys to an account, a request count and the instant the entry expires;
  each Lua script is one step on it. \<open>seStore\<close> is \<^term>\<open>None\<close> when no store is installed and otherwise tells whether the
  store can be reached.
\<close>

section \<open>State\<close>

record binding =
  bAuthID :: string
  bExpiresAt :: gotime
  bRequests :: int
  bLastUsedAt :: gotime

record sticky_state =
  ssBindings :: "(string, binding) gomap"
  ssMaxKeys :: int

record sticky_limits =
  slMaxRequests :: int
  slReleaseAtLoad :: rat

type_synonym redis = "(string, string \<times> int \<times> gotime) gomap"

record sched =
  scRR :: rr_state
  scTracker :: tracker
  scSticky :: sticky_state
  scRedis :: redis

record sched_env =
  seExp2 :: "rat \<Rightarrow> rat"
  seRnd :: "nat \<Rightarrow> nat"
  seWs :: bool
  seActive :: "(string, int) gomap"
  seQuota :: "auth \<Rightarrow> rat option"
  seRef :: "string \<Rightarrow> string"
  seKey :: "string \<Rightarrow> string"
  seStore :: "bool option"

definition sessionStickyTTL :: duration where "sessionStickyTTL = hour"
definition sessionStickyMaxKeys :: int where "sessionStickyMaxKeys = 4096"

definition loadRatio :: "sched_env \<Rightarrow> auth \<Rightarrow> rat" where
  "loadRatio env a = accountLoadRatio a (seActive env) (seQuota env)"

definition observeSelection :: "sched_env \<Rightarrow> auth \<Rightarrow> gotime \<Rightarrow> sched \<Rightarrow> sched" where
  "observeSelection env a now s = s\<lparr>scTracker := observe (seExp2 env) (scTracker s) (aID a) now\<rparr>"

section \<open>Scheduling settings in the metadata\<close>

definition distributionFromMetadata :: "(string, goany) gomap \<Rightarrow> string" where
  "distributionFromMetadata meta = NormalizeDistribution (metadataStringValue meta [''scheduling_distribution''])"

definition stickyEnabledFromMetadata :: "(string, goany) gomap \<Rightarrow> bool" where
  "stickyEnabledFromMetadata meta =
     (let v = trim_space (metadataStringValue meta [''sticky_enabled''])
      in v \<noteq> '''' \<and> parse_bool v = Some True)"

definition stickyLimitsFromMetadata :: "(string, goany) gomap \<Rightarrow> sticky_limits" where
  "stickyLimitsFromMetadata meta =
     (let m = trim_space (metadataStringValue meta [''sticky_max_requests'']);
          r = trim_space (metadataStringValue meta [''sticky_release_at_load''])
      in \<lparr>slMaxRequests = (if m = '''' then 0 else case atoi m of Some n \<Rightarrow> if 0 < n then n else 0 | None \<Rightarrow> 0),
          slReleaseAtLoad = (if r = '''' then 0 else case parse_float r of Some x \<Rightarrow> if 0 < x then x else 0 | None \<Rightarrow> 0)\<rparr>)"

definition sessionStickySelectionKey :: "string \<Rightarrow> (string, goany) gomap \<Rightarrow> string \<Rightarrow> string \<Rightarrow> string" where
  "sessionStickySelectionKey provider meta sourceFormat sessionKey0 =
     (let sessionKey = trim_space sessionKey0;
          s1 = trim_space (metadataStringValue meta [''route_group'']);
          s2 = (if s1 = '''' then trim_space (metadataStringValue meta [''allowed-channel-groups'']) else s1);
          scope = (if s2 = '''' then ''default'' else s2)
      in if sessionKey = '''' then ''''
         else tenantIDFromMetadata meta @ ''|'' @ to_lower (trim_space provider) @ ''|'' @ trim_space sourceFormat @ ''|'' @
              scope @ ''|'' @ sessionKey)"

definition sessionStickyKey :: "(string, goany) gomap \<Rightarrow> string \<Rightarrow> string" where
  "sessionStickyKey meta bodyKey =
     (let k = metadataStringValue meta [''session_sticky_key''];
          e = metadataStringValue meta [''execution_session_id'']
      in if k \<noteq> '''' then k else if e \<noteq> '''' then ''execution:'' @ e else bodyKey)"

section \<open>The bindings of one process\<close>

definition sticky_limit :: "sticky_state \<Rightarrow> int" where
  "sticky_limit st = (if ssMaxKeys st \<le> 0 then sessionStickyMaxKeys else ssMaxKeys st)"

definition binding_expired :: "gotime \<Rightarrow> binding \<Rightarrow> bool" where
  "binding_expired now b \<longleftrightarrow> bExpiresAt b \<noteq> 0 \<and> bExpiresAt b < now"

definition sticky_evictIfNeeded :: "string \<Rightarrow> gotime \<Rightarrow> sticky_state \<Rightarrow> sticky_state" where
  "sticky_evictIfNeeded incoming now st =
     st\<lparr>ssBindings := make_room (binding_expired now) bLastUsedAt (sticky_limit st) incoming (ssBindings st)\<rparr>"

definition sticky_bind :: "string \<Rightarrow> string \<Rightarrow> gotime \<Rightarrow> sticky_state \<Rightarrow> sticky_state" where
  "sticky_bind key authID now st =
     (if key = '''' \<or> authID = '''' then st
      else
        let st1 = sticky_evictIfNeeded key now st
        in st1\<lparr>ssBindings := map_put key \<lparr>bAuthID = authID, bExpiresAt = now + sessionStickyTTL, bRequests = 1,
                                        bLastUsedAt = now\<rparr> (ssBindings st1)\<rparr>)"

definition deleteBinding :: "string \<Rightarrow> sticky_state \<Rightarrow> sticky_state" where
  "deleteBinding key st = (if key = '''' then st else st\<lparr>ssBindings := map_del key (ssBindings st)\<rparr>)"

definition mirrorBinding :: "string \<Rightarrow> string \<Rightarrow> int \<Rightarrow> gotime \<Rightarrow> sticky_state \<Rightarrow> sticky_state" where
  "mirrorBinding key authID requests now st =
     (let st1 = sticky_bind key authID now st
      in case map_of (ssBindings st1) key of None \<Rightarrow> st1
         | Some b \<Rightarrow> st1\<lparr>ssBindings := map_put key (b\<lparr>bRequests := requests\<rparr>) (ssBindings st1)\<rparr>)"

definition over_budget :: "sticky_limits \<Rightarrow> int \<Rightarrow> bool" where
  "over_budget limits requests \<longleftrightarrow> 0 < slMaxRequests limits \<and> slMaxRequests limits \<le> requests"

definition too_loaded :: "sched_env \<Rightarrow> sticky_limits \<Rightarrow> auth \<Rightarrow> bool" where
  "too_loaded env limits a \<longleftrightarrow> 0 < slReleaseAtLoad limits \<and> slReleaseAtLoad limits \<le> loadRatio env a"

definition honourBinding ::
  "sched_env \<Rightarrow> string \<Rightarrow> auth list \<Rightarrow> sticky_limits \<Rightarrow> gotime \<Rightarrow> sched \<Rightarrow> sched \<times> auth option" where
  "honourBinding env key available limits now s =
     (let st = scSticky s;
          dropped = s\<lparr>scSticky := st\<lparr>ssBindings := map_del key (ssBindings st)\<rparr>\<rparr>
      in if key = '''' then (s, None)
         else case map_of (ssBindings st) key of None \<Rightarrow> (s, None)
         | Some b \<Rightarrow>
             if binding_expired now b then (dropped, None)
             else if over_budget limits (bRequests b) then (dropped, None)
             else (case List.find (\<lambda>a. aID a = bAuthID b) available of None \<Rightarrow> (dropped, None)
                   | Some bound \<Rightarrow>
                       if too_loaded env limits bound then (dropped, None)
                       else
                         let b' = b\<lparr>bRequests := bRequests b + 1, bLastUsedAt := now,
                                    bExpiresAt := now + sessionStickyTTL\<rparr>;
                             s' = s\<lparr>scSticky := st\<lparr>ssBindings := map_put key b' (ssBindings st)\<rparr>\<rparr>
                         in (observeSelection env bound now s', Some bound)))"

section \<open>The bindings all processes share\<close>

record shared_binding =
  sbAccountRef :: string
  sbServed :: int
  sbFound :: bool

definition redis_live :: "redis \<Rightarrow> gotime \<Rightarrow> string \<Rightarrow> (string \<times> int) option" where
  "redis_live r now k =
     (case map_of r k of None \<Rightarrow> None | Some (acct, n, expires) \<Rightarrow> if now < expires then Some (acct, n) else None)"

definition ms_floor :: "duration \<Rightarrow> duration" where
  "ms_floor d = d div millisecond * millisecond"

text \<open>\<^term>\<open>None\<close> is an error of the store.\<close>

definition AffinityLookup ::
  "sched_env \<Rightarrow> bool \<Rightarrow> string \<Rightarrow> duration \<Rightarrow> gotime \<Rightarrow> redis \<Rightarrow> redis \<times> shared_binding option" where
  "AffinityLookup env up sessionKey ttl now r =
     (let k = seKey env sessionKey
      in if \<not> up then (r, None)
         else case redis_live r now k of
           None \<Rightarrow> (r, Some \<lparr>sbAccountRef = '''', sbServed = 0, sbFound = False\<rparr>)
         | Some (acct, n) \<Rightarrow>
             (map_put k (acct, n + 1, now + ms_floor ttl) r, Some \<lparr>sbAccountRef = acct, sbServed = n, sbFound = True\<rparr>))"

definition AffinityBind ::
  "sched_env \<Rightarrow> bool \<Rightarrow> string \<Rightarrow> string \<Rightarrow> duration \<Rightarrow> gotime \<Rightarrow> redis \<Rightarrow> redis \<times> shared_binding option" where
  "AffinityBind env up sessionKey account ttl now r =
     (let k = seKey env sessionKey
      in if \<not> up then (r, None)
         else case redis_live r now k of
           Some (acct, n) \<Rightarrow>
             (map_put k (acct, n + 1, now + ms_floor ttl) r, Some \<lparr>sbAccountRef = acct, sbServed = n, sbFound = True\<rparr>)
         | None \<Rightarrow>
             (map_put k (account, 1, now + ms_floor ttl) r,
              Some \<lparr>sbAccountRef = account, sbServed = 0, sbFound = True\<rparr>))"

definition AffinityRelease ::
  "sched_env \<Rightarrow> bool \<Rightarrow> string \<Rightarrow> string \<Rightarrow> gotime \<Rightarrow> redis \<Rightarrow> redis" where
  "AffinityRelease env up sessionKey account now r =
     (let k = seKey env sessionKey
      in if \<not> up then r
         else case redis_live r now k of Some (acct, _) \<Rightarrow> if acct = account then map_del k r else r | None \<Rightarrow> r)"

definition findAuthByRef :: "sched_env \<Rightarrow> auth list \<Rightarrow> string \<Rightarrow> auth option" where
  "findAuthByRef env auths ref = (if ref = '''' then None else List.find (\<lambda>a. seRef env (aID a) = ref) auths)"

definition bindShared ::
  "sched_env \<Rightarrow> bool \<Rightarrow> string \<Rightarrow> auth \<Rightarrow> auth list \<Rightarrow> gotime \<Rightarrow> sched \<Rightarrow> sched \<times> auth" where
  "bindShared env up key picked available now s =
     (let ref = seRef env (aID picked);
          (r, winner) = AffinityBind env up key ref sessionStickyTTL now (scRedis s);
          s1 = s\<lparr>scRedis := r\<rparr>;
          mine = (s1\<lparr>scSticky := sticky_bind key (aID picked) now (scSticky s1)\<rparr>, picked)
      in case winner of None \<Rightarrow> mine
         | Some w \<Rightarrow>
             if sbAccountRef w = '''' \<or> sbAccountRef w = ref then mine
             else case findAuthByRef env available (sbAccountRef w) of
               Some other \<Rightarrow>
                 let s2 = observeSelection env other now s1
                 in (s2\<lparr>scSticky := mirrorBinding key (aID other) (sbServed w + 1) now (scSticky s2)\<rparr>, other)
             | None \<Rightarrow> (s1\<lparr>scSticky := deleteBinding key (scSticky s1)\<rparr>, picked))"

definition honour ::
  "sched_env \<Rightarrow> string \<Rightarrow> auth list \<Rightarrow> sticky_limits \<Rightarrow> gotime \<Rightarrow> sched \<Rightarrow> sched \<times> auth option" where
  "honour env key available limits now s =
     (case seStore env of None \<Rightarrow> honourBinding env key available limits now s
      | Some up \<Rightarrow>
          let (r, reply) = AffinityLookup env up key sessionStickyTTL now (scRedis s); s1 = s\<lparr>scRedis := r\<rparr>
          in case reply of None \<Rightarrow> honourBinding env key available limits now s1
             | Some b \<Rightarrow>
                 if \<not> sbFound b then
                   (case honourBinding env key available limits now s1 of
                      (s2, None) \<Rightarrow> (s2, None)
                    | (s2, Some bound) \<Rightarrow>
                        (case bindShared env up key bound available now s2 of (s3, a) \<Rightarrow> (s3, Some a)))
                 else
                   let released = s1\<lparr>scRedis := AffinityRelease env up key (sbAccountRef b) now (scRedis s1),
                                     scSticky := deleteBinding key (scSticky s1)\<rparr>
                   in case findAuthByRef env available (sbAccountRef b) of None \<Rightarrow> (released, None)
                      | Some bound \<Rightarrow>
                          if over_budget limits (sbServed b) \<or> too_loaded env limits bound then (released, None)
                          else
                            let s2 = observeSelection env bound now s1
                            in (s2\<lparr>scSticky := mirrorBinding key (aID bound) (sbServed b + 1) now (scSticky s2)\<rparr>,
                                Some bound))"

definition bindSelected ::
  "sched_env \<Rightarrow> string \<Rightarrow> auth \<Rightarrow> auth list \<Rightarrow> gotime \<Rightarrow> sched \<Rightarrow> sched \<times> auth" where
  "bindSelected env key selected available now s =
     (case seStore env of
        None \<Rightarrow> (s\<lparr>scSticky := sticky_bind key (aID selected) now (scSticky s)\<rparr>, selected)
      | Some up \<Rightarrow> bindShared env up key selected available now s)"

section \<open>The selectors behind one interface\<close>

text \<open>
  \<^verbatim>\<open>distributionSelectorLocked\<close> followed by \<^verbatim>\<open>Pick\<close>: the three distribution modes share the pressure tracker of the
  scheduler. \<^verbatim>\<open>pickFallback\<close> resolves the mode from the metadata, the manager having wired the resolver.
\<close>

definition distribution_Pick ::
  "sched_env \<Rightarrow> string \<Rightarrow> (string, goany) gomap \<Rightarrow> string \<Rightarrow> string \<Rightarrow> sched \<Rightarrow> gotime \<Rightarrow> auth list \<Rightarrow>
   sched \<times> (pick_error + auth)" where
  "distribution_Pick env mode meta provider model s now auths =
     (let d = NormalizeDistribution mode
      in if d = ''fill-first'' then
           (case FillFirst_Pick (seExp2 env) (seWs env) (loadRatio env) provider model (scTracker s) now auths of
              (tr, res) \<Rightarrow> (s\<lparr>scTracker := tr\<rparr>, res))
         else if d = ''least-load'' then
           (case LeastLoad_Pick (seExp2 env) (seWs env) (seActive env) (loadRatio env) provider model (scTracker s) now auths of
              (tr, res) \<Rightarrow> (s\<lparr>scTracker := tr\<rparr>, res))
         else
           (case RoundRobin_Pick (seExp2 env) (seRnd env) (seWs env) meta provider model (scRR s, scTracker s) now auths of
              ((rr, tr), res) \<Rightarrow> (s\<lparr>scRR := rr, scTracker := tr\<rparr>, res)))"

definition pickFallback ::
  "sched_env \<Rightarrow> (string, goany) gomap \<Rightarrow> string \<Rightarrow> string \<Rightarrow> sched \<Rightarrow> gotime \<Rightarrow> auth list \<Rightarrow>
   sched \<times> (pick_error + auth)" where
  "pickFallback env meta = distribution_Pick env (distributionFromMetadata meta) meta"

definition SessionSticky_Pick ::
  "sched_env \<Rightarrow> (string, goany) gomap \<Rightarrow> string \<Rightarrow> string \<Rightarrow> string \<Rightarrow> string \<Rightarrow> sched \<Rightarrow> gotime \<Rightarrow> auth list \<Rightarrow>
   sched \<times> (pick_error + auth)" where
  "SessionSticky_Pick env meta sourceFormat bodyKey provider model s now auths =
     (let key = sessionStickySelectionKey provider meta sourceFormat (sessionStickyKey meta bodyKey)
      in if key = '''' then pickFallback env meta provider model s now auths
         else case getAvailableAuths auths provider model now of
           Inl e \<Rightarrow> (s, Inl e)
         | Inr avail0 \<Rightarrow>
             let available = preferCodexWebsocketAuths (seWs env) provider avail0
             in case honour env key available (stickyLimitsFromMetadata meta) now s of
                  (s1, Some bound) \<Rightarrow> (s1, Inr bound)
                | (s1, None) \<Rightarrow>
                    (case pickFallback env meta provider model s1 now available of
                       (s2, Inl e) \<Rightarrow> (s2, Inl e)
                     | (s2, Inr selected) \<Rightarrow>
                         if trim_space (aID selected) = '''' then (s2, Inr selected)
                         else (case bindSelected env key selected available now s2 of (s3, a) \<Rightarrow> (s3, Inr a))))"

section \<open>The contract of a selector\<close>

interpretation distribution: selector provider model "distribution_Pick env mode meta provider model"
    "\<lambda>xs. pool_weight xs \<le> maxInt64"
  for env mode meta provider model
proof
  fix now auths e s
  assume "0 \<le> now" and e: "getAvailableAuths auths provider model now = Inl e"
  then show "snd (distribution_Pick env mode meta provider model s now auths) = Inl e"
    using fill_first.pick_error [of now auths provider model e "seExp2 env" "seWs env" "loadRatio env" "scTracker s"]
      least_load.pick_error [of now auths provider model e "seExp2 env" "seWs env" "seActive env" "loadRatio env" "scTracker s"]
      round_robin.pick_error [of now auths provider model e "seExp2 env" "seRnd env" "seWs env" meta "(scRR s, scTracker s)"]
    by (simp add: distribution_Pick_def Let_def case_prod_unfold)
next
  fix now auths xs s
  assume "0 \<le> now" and "getAvailableAuths auths provider model now = Inr xs" and "pool_weight xs \<le> maxInt64"
  then show "\<exists>a \<in> set xs. snd (distribution_Pick env mode meta provider model s now auths) = Inr a"
    using fill_first.pick_available [of now auths provider model xs "seExp2 env" "seWs env" "loadRatio env" "scTracker s"]
      least_load.pick_available [of now auths provider model xs "seExp2 env" "seWs env" "seActive env" "loadRatio env" "scTracker s"]
      round_robin.pick_available [of now auths provider model xs "seExp2 env" "seRnd env" "seWs env" meta "(scRR s, scTracker s)"]
    by (simp add: distribution_Pick_def Let_def case_prod_unfold)
next
  fix now auths xs s a
  assume "0 \<le> now" and "getAvailableAuths auths provider model now = Inr xs"
    and "snd (distribution_Pick env mode meta provider model s now auths) = Inr a"
  then show "a \<in> set xs"
    using fill_first.pick_sound [of now auths provider model xs "seExp2 env" "seWs env" "loadRatio env" "scTracker s" a]
      least_load.pick_sound [of now auths provider model xs "seExp2 env" "seWs env" "seActive env" "loadRatio env" "scTracker s" a]
      round_robin.pick_sound [of now auths provider model xs "seExp2 env" "seRnd env" "seWs env" meta "(scRR s, scTracker s)" a]
    by (simp add: distribution_Pick_def Let_def case_prod_unfold split: if_splits)
qed

text \<open>What was offered once is offered again when the selection is repeated on it.\<close>

lemma pool_weight_mset: "mset xs = mset ys \<Longrightarrow> pool_weight xs = pool_weight ys"
  by (metis mset_map pool_weight_def sum_mset_sum_list)

lemma pool_weight_filter: "pool_weight (filter P xs) \<le> pool_weight xs"
  using authSelectionWeight_nonneg by (induction xs) (auto simp: pool_weight_def intro: add_increasing)

lemma offered_again:
  assumes "0 \<le> now" and av: "getAvailableAuths auths provider model now = Inr xs"
    and ys: "ys = preferCodexWebsocketAuths ws provider xs"
  shows "\<exists>zs. getAvailableAuths ys provider model now = Inr zs \<and> mset zs = mset ys"
proof -
  have sub: "set ys \<subseteq> set xs" "ys \<noteq> []"
    using preferCodexWebsocketAuths_subset getAvailableAuths_nonempty [OF assms(1,2)] by (auto simp: ys)
  consider (free) "\<forall>x \<in> set ys. \<not> blocked x model now \<and> authParticipatesInSelection x"
    | (opt) b where "xs = [b]" "optimistic_ok model now b"
    using available_sound [OF assms(1,2)] sub by blast
  then show ?thesis
  proof cases
    case free
    moreover obtain a where "a \<in> set ys" using sub(2) by (cases ys) auto
    ultimately have "getAvailableAuths ys provider model now =
        Inr (sort_key aID (filter (\<lambda>x. \<not> blocked x model now \<and> authParticipatesInSelection x) ys))"
      using available_ready [OF assms(1)] by blast
    moreover have "filter (\<lambda>x. \<not> blocked x model now \<and> authParticipatesInSelection x) ys = ys"
      using free by (simp add: filter_id_conv)
    ultimately show ?thesis by simp
  next
    case opt
    then have "ys = [b]" using sub by (auto simp: ys preferCodexWebsocketAuths_def Let_def split: if_splits)
    with available_single_optimistic [OF opt(2)] show ?thesis by simp
  qed
qed

lemma honourBinding_member: "honourBinding env key available limits now s = (s', Some a) \<Longrightarrow> a \<in> set available"
  by (auto simp: honourBinding_def Let_def split: if_splits option.splits dest: find_SomeD)

lemma findAuthByRef_member: "findAuthByRef env auths r = Some a \<Longrightarrow> a \<in> set auths \<and> seRef env (aID a) = r"
  by (auto simp: findAuthByRef_def split: if_splits dest: find_SomeD)

lemma bindShared_member:
  "bindShared env up key picked available now s = (s', a) \<Longrightarrow> picked \<in> set available \<Longrightarrow> a \<in> set available"
  by (auto simp: bindShared_def Let_def split: prod.splits option.splits if_splits dest: findAuthByRef_member)

lemma honour_member:
  assumes "honour env key available limits now s = (s', Some a)"
  shows "a \<in> set available"
proof (cases "seStore env")
  case None
  with assms show ?thesis by (auto simp: honour_def dest: honourBinding_member)
next
  case (Some up)
  with assms show ?thesis
    by (auto simp: honour_def Let_def split: prod.splits option.splits if_splits
        dest: honourBinding_member findAuthByRef_member bindShared_member)
qed

lemma bindSelected_member:
  "bindSelected env key selected available now s = (s', a) \<Longrightarrow> selected \<in> set available \<Longrightarrow> a \<in> set available"
  by (auto simp: bindSelected_def split: option.splits dest: bindShared_member)

interpretation session_sticky: selector provider model "SessionSticky_Pick env meta sourceFormat bodyKey provider model"
    "\<lambda>xs. pool_weight xs \<le> maxInt64"
  for env meta sourceFormat bodyKey provider model
proof
  fix now auths e s
  assume "0 \<le> now" and "getAvailableAuths auths provider model now = Inl e"
  then show "snd (SessionSticky_Pick env meta sourceFormat bodyKey provider model s now auths) = Inl e"
    using distribution.pick_error by (simp add: SessionSticky_Pick_def pickFallback_def Let_def)
next
  fix now auths xs s
  assume now: "0 \<le> now" and av: "getAvailableAuths auths provider model now = Inr xs" and w: "pool_weight xs \<le> maxInt64"
  let ?ys = "preferCodexWebsocketAuths (seWs env) provider xs"
  let ?key = "sessionStickySelectionKey provider meta sourceFormat (sessionStickyKey meta bodyKey)"
  have fb: "\<exists>a \<in> set ?ys. snd (pickFallback env meta provider model s1 now ?ys) = Inr a" for s1
  proof -
    obtain zs where zs: "getAvailableAuths ?ys provider model now = Inr zs" "mset zs = mset ?ys"
      using offered_again [OF now av refl] by blast
    have "pool_weight zs \<le> pool_weight xs"
      using pool_weight_mset [OF zs(2)] pool_weight_filter [of authWebsocketsEnabled xs]
      by (auto simp: preferCodexWebsocketAuths_def Let_def)
    with w distribution.pick_available [OF now zs(1)] mset_eq_setD [OF zs(2)] show ?thesis
      by (fastforce simp: pickFallback_def)
  qed
  have sub: "set ?ys \<subseteq> set xs" by (rule preferCodexWebsocketAuths_subset)
  obtain s1 h where h: "honour env ?key ?ys (stickyLimitsFromMetadata meta) now s = (s1, h)" by fastforce
  obtain s2 a where a: "pickFallback env meta provider model s1 now ?ys = (s2, Inr a)" "a \<in> set ?ys"
    using fb [of s1] by (metis prod.collapse)
  obtain s3 c where c: "bindSelected env ?key a ?ys now s2 = (s3, c)" by fastforce
  have base: "\<exists>a \<in> set xs. snd (pickFallback env meta provider model s now auths) = Inr a"
    using distribution.pick_available [OF now av w] by (simp add: pickFallback_def)
  show "\<exists>a \<in> set xs. snd (SessionSticky_Pick env meta sourceFormat bodyKey provider model s now auths) = Inr a"
  proof (cases "?key = ''''")
    case True
    with base show ?thesis by (simp add: SessionSticky_Pick_def)
  next
    case False
    show ?thesis
    proof (cases h)
      case None
      have "c \<in> set ?ys" using bindSelected_member [OF c a(2)] .
      with None False a c h sub show ?thesis by (auto simp: SessionSticky_Pick_def av Let_def)
    next
      case (Some b)
      with honour_member [of env ?key ?ys] False h sub show ?thesis by (auto simp: SessionSticky_Pick_def av Let_def)
    qed
  qed
next
  fix now auths xs s a
  assume now: "0 \<le> now" and av: "getAvailableAuths auths provider model now = Inr xs"
    and p: "snd (SessionSticky_Pick env meta sourceFormat bodyKey provider model s now auths) = Inr a"
  let ?ys = "preferCodexWebsocketAuths (seWs env) provider xs"
  let ?key = "sessionStickySelectionKey provider meta sourceFormat (sessionStickyKey meta bodyKey)"
  have sub: "set ?ys \<subseteq> set xs" by (rule preferCodexWebsocketAuths_subset)
  show "a \<in> set xs"
  proof (cases "?key = ''''")
    case True
    with p distribution.pick_sound [OF now av] show ?thesis by (simp add: SessionSticky_Pick_def pickFallback_def)
  next
    case False
    obtain s1 h where h: "honour env ?key ?ys (stickyLimitsFromMetadata meta) now s = (s1, h)" by fastforce
    show ?thesis
    proof (cases h)
      case None
      obtain zs where zs: "getAvailableAuths ?ys provider model now = Inr zs" "mset zs = mset ?ys"
        using offered_again [OF now av refl] by blast
      obtain s2 r where r: "pickFallback env meta provider model s1 now ?ys = (s2, r)" by fastforce
      with None False p h obtain c where c: "r = Inr c" "trim_space (aID c) = '''' \<and> a = c \<or>
          (\<exists>s3. bindSelected env ?key c ?ys now s2 = (s3, a))"
        by (auto simp: SessionSticky_Pick_def av Let_def split: sum.splits if_splits prod.splits)
      have "c \<in> set zs" using distribution.pick_sound [OF now zs(1)] r c(1) by (metis pickFallback_def snd_conv)
      then have "c \<in> set ?ys" using mset_eq_setD [OF zs(2)] by blast
      with c(2) bindSelected_member sub show ?thesis by blast
    next
      case (Some b)
      with honour_member [of env ?key ?ys] False h p sub show ?thesis by (auto simp: SessionSticky_Pick_def av Let_def)
    qed
  qed
qed

section \<open>One conversation, one account\<close>

text \<open>What the distribution modes leave alone.\<close>

lemma pickFallback_frame [simp]:
  "scSticky (fst (pickFallback env meta provider model s now auths)) = scSticky s"
  "scRedis (fst (pickFallback env meta provider model s now auths)) = scRedis s"
  by (simp_all add: pickFallback_def distribution_Pick_def Let_def case_prod_unfold)

lemma pickFallback_result:
  "pickFallback env meta provider model s now auths = (s', r) \<Longrightarrow> scSticky s' = scSticky s \<and> scRedis s' = scRedis s"
  using pickFallback_frame [of env meta provider model s now auths] by simp

lemma observeSelection_frame [simp]:
  "scSticky (observeSelection env a now s) = scSticky s" "scRedis (observeSelection env a now s) = scRedis s"
  by (simp_all add: observeSelection_def)

lemma honourBinding_redis:
  "honourBinding env key available limits now s = (s', r) \<Longrightarrow> scRedis s' = scRedis s"
  by (auto simp: honourBinding_def Let_def split: if_splits option.splits)

lemma sticky_bind_lookup:
  "key \<noteq> '''' \<Longrightarrow> authID \<noteq> '''' \<Longrightarrow>
   map_of (ssBindings (sticky_bind key authID now st)) key =
     Some \<lparr>bAuthID = authID, bExpiresAt = now + sessionStickyTTL, bRequests = 1, bLastUsedAt = now\<rparr>"
  by (simp add: sticky_bind_def Let_def)

definition session_key :: "string \<Rightarrow> (string, goany) gomap \<Rightarrow> string \<Rightarrow> string \<Rightarrow> string" where
  "session_key provider meta sourceFormat bodyKey =
     sessionStickySelectionKey provider meta sourceFormat (sessionStickyKey meta bodyKey)"

text \<open>A pick for a session either honours a binding or places the conversation with the distribution mode.\<close>

lemma SessionSticky_Pick_cases:
  assumes "SessionSticky_Pick env meta sourceFormat bodyKey provider model s now auths = (s', Inr a)"
    and "session_key provider meta sourceFormat bodyKey = key" and "key \<noteq> ''''" and "trim_space (aID a) \<noteq> ''''"
  obtains (bound) available where
      "honour env key available (stickyLimitsFromMetadata meta) now s = (s', Some a)"
  | (placed) available s1 s2 c where
      "honour env key available (stickyLimitsFromMetadata meta) now s = (s1, None)"
      "pickFallback env meta provider model s1 now available = (s2, Inr c)"
      "bindSelected env key c available now s2 = (s', a)" "trim_space (aID c) \<noteq> ''''"
  using assms
  by (auto simp: SessionSticky_Pick_def session_key_def Let_def
      split: sum.splits prod.splits option.splits if_splits)

definition continues :: "sticky_limits \<Rightarrow> gotime \<Rightarrow> binding \<Rightarrow> binding \<Rightarrow> bool" where
  "continues limits now b0 b \<longleftrightarrow>
     \<not> binding_expired now b0 \<and> bAuthID b = bAuthID b0 \<and> bRequests b = bRequests b0 + 1 \<and>
     (0 < slMaxRequests limits \<longrightarrow> bRequests b \<le> slMaxRequests limits)"

lemma honourBinding_Some:
  assumes "honourBinding env key available limits now s = (s', Some a)"
  shows "\<exists>b0 b. map_of (ssBindings (scSticky s)) key = Some b0 \<and> map_of (ssBindings (scSticky s')) key = Some b \<and>
           bAuthID b = aID a \<and> bExpiresAt b = now + sessionStickyTTL \<and> continues limits now b0 b \<and>
           \<not> too_loaded env limits a"
  using assms
  by (auto simp: honourBinding_def continues_def over_budget_def Let_def
      split: if_splits option.splits dest!: find_SomeD)

text \<open>
  Session stickiness in one process. After a pick for a session the conversation is bound to the account just
  returned, for an hour from now. Either the binding is new, or it continues one that had not expired on that same
  account, and then the number of requests it has carried stays within the configured bound.
\<close>

theorem SessionSticky_Pick_binds:
  assumes "SessionSticky_Pick env meta sourceFormat bodyKey provider model s now auths = (s', Inr a)"
    and "session_key provider meta sourceFormat bodyKey = key" "key \<noteq> ''''" "trim_space (aID a) \<noteq> ''''"
    and "seStore env = None"
  shows "\<exists>b. map_of (ssBindings (scSticky s')) key = Some b \<and> bAuthID b = aID a \<and> bExpiresAt b = now + sessionStickyTTL \<and>
           (bRequests b = 1 \<or>
            (\<exists>b0. map_of (ssBindings (scSticky s)) key = Some b0 \<and> continues (stickyLimitsFromMetadata meta) now b0 b))"
  using assms(1-4)
proof (cases rule: SessionSticky_Pick_cases)
  case (bound available)
  then have "honourBinding env key available (stickyLimitsFromMetadata meta) now s = (s', Some a)"
    using assms(5) by (simp add: honour_def)
  from honourBinding_Some [OF this] show ?thesis by blast
next
  case (placed available s1 s2 c)
  from placed(3) assms(5) have "a = c" "s' = s2\<lparr>scSticky := sticky_bind key (aID c) now (scSticky s2)\<rparr>"
    by (auto simp: bindSelected_def)
  moreover have "aID c \<noteq> ''''" using placed(4) by auto
  ultimately show ?thesis using assms(3) by (simp add: sticky_bind_lookup)
qed

definition plain_env :: "bool option \<Rightarrow> sched_env" where
  "plain_env store =
     \<lparr>seExp2 = (\<lambda>_. 1), seRnd = (\<lambda>_. 0), seWs = False, seActive = [], seQuota = (\<lambda>_. None), seRef = (\<lambda>i. ''ref-'' @ i),
      seKey = (\<lambda>k. ''sticky:'' @ k), seStore = store\<rparr>"

definition fresh_sched :: sched where
  "fresh_sched =
     \<lparr>scRR = \<lparr>rrCursors = [], rrWeighted = [], rrMaxKeys = 0\<rparr>, scTracker = \<lparr>trCounters = [], trMaxKeys = 0\<rparr>,
      scSticky = \<lparr>ssBindings = [], ssMaxKeys = 0\<rparr>, scRedis = []\<rparr>"

definition session_meta :: "(string, goany) gomap" where
  "session_meta = [(''session_sticky_key'', AStr ''chat-1''), (''sticky_max_requests'', AStr ''2'')]"

abbreviation chat_pick :: "bool option \<Rightarrow> sched \<Rightarrow> gotime \<Rightarrow> sched \<times> (pick_error + auth)" where
  "chat_pick store s now \<equiv>
     SessionSticky_Pick (plain_env store) session_meta ''openai'' '''' ''codex'' ''m'' s now [sample_auth, heavy]"

abbreviation chat_key :: string where
  "chat_key \<equiv> session_key ''codex'' session_meta ''openai'' ''''"

lemma chat_ids: "chat_key \<noteq> ''''" "trim_space (aID heavy) \<noteq> ''''" "trim_space (aID sample_auth) \<noteq> ''''"
  by code_simp+

lemma chat_pick_succeeds:
  assumes "now = 5 \<or> now = 6"
  shows "\<exists>s' a. chat_pick store s now = (s', Inr a) \<and> a \<in> {sample_auth, heavy}"
proof -
  have "getAvailableAuths [sample_auth, heavy] ''codex'' ''m'' 5 = Inr [sample_auth, heavy]"
    "getAvailableAuths [sample_auth, heavy] ''codex'' ''m'' 6 = Inr [sample_auth, heavy]" by code_simp+
  then have v: "getAvailableAuths [sample_auth, heavy] ''codex'' ''m'' now = Inr [sample_auth, heavy]" using assms by auto
  have "pool_weight [sample_auth, heavy] \<le> maxInt64" by code_simp
  with session_sticky.pick_available [OF _ v] assms show ?thesis by (metis (no_types, lifting) list.simps(15)
    empty_set insert_iff prod.collapse order.refl zero_le_numeral)
qed

theorem SessionSticky_Pick_binds_witness:
  "\<exists>s' a b. chat_pick None fresh_sched 5 = (s', Inr a) \<and> a \<in> {sample_auth, heavy} \<and>
     map_of (ssBindings (scSticky s')) chat_key = Some b \<and> bAuthID b = aID a \<and> bExpiresAt b = 5 + sessionStickyTTL"
proof -
  obtain s' a where a: "chat_pick None fresh_sched 5 = (s', Inr a)" "a \<in> {sample_auth, heavy}"
    using chat_pick_succeeds [of 5] by blast
  from chat_ids a(2) have "trim_space (aID a) \<noteq> ''''" by auto
  from SessionSticky_Pick_binds [OF a(1) refl chat_ids(1) this] a show ?thesis by (auto simp: plain_env_def)
qed

section \<open>The table of bindings stays bounded\<close>

definition sticky_wf :: "sticky_state \<Rightarrow> bool" where
  "sticky_wf st \<longleftrightarrow> map_wf (ssBindings st) \<and> '''' \<notin> fst ` set (ssBindings st) \<and>
     int (length (ssBindings st)) \<le> sticky_limit st"

lemma sticky_limit_pos: "0 < sticky_limit st"
  by (simp add: sticky_limit_def sessionStickyMaxKeys_def)

lemma sticky_limit_bindings [simp]: "sticky_limit (st\<lparr>ssBindings := m\<rparr>) = sticky_limit st"
  by (simp add: sticky_limit_def)

lemma sticky_wf_del [intro]: "sticky_wf st \<Longrightarrow> sticky_wf (st\<lparr>ssBindings := map_del k (ssBindings st)\<rparr>)"
  by (auto simp: sticky_wf_def map_wf_del intro: order_trans [OF of_nat_mono [OF length_map_del_le]])

lemma sticky_wf_put:
  "sticky_wf st \<Longrightarrow> map_of (ssBindings st) k = Some b0 \<Longrightarrow> sticky_wf (st\<lparr>ssBindings := map_put k b (ssBindings st)\<rparr>)"
  by (auto simp: sticky_wf_def map_wf_put length_map_put dest!: map_of_SomeD) force+

lemma sticky_wf_bind:
  assumes "sticky_wf st"
  shows "sticky_wf (sticky_bind key authID now st)"
proof (cases "key = '''' \<or> authID = ''''")
  case True
  with assms show ?thesis by (auto simp: sticky_bind_def)
next
  case False
  let ?m = "make_room (binding_expired now) bLastUsedAt (sticky_limit st) key (ssBindings st)"
  have "map_wf ?m \<and> fst ` set ?m \<subseteq> fst ` set (ssBindings st) \<and>
        int (length ?m) + (if key \<in> fst ` set ?m then 0 else 1) \<le> sticky_limit st"
  proof (cases "key \<in> fst ` set (ssBindings st)")
    case True
    then have "?m = ssBindings st" by (intro make_room_known) (simp add: map_of_eq_None_iff)
    with True assms show ?thesis by (simp add: sticky_wf_def)
  next
    case False
    with make_room_bound [of "ssBindings st" "sticky_limit st" key "binding_expired now" bLastUsedAt] assms sticky_limit_pos
    show ?thesis by (auto simp: sticky_wf_def)
  qed
  then have "map_wf ?m" "fst ` set ?m \<subseteq> fst ` set (ssBindings st)"
    "int (length (map_put key b ?m)) \<le> sticky_limit st" for b
    by (simp_all add: length_map_put split: if_splits)
  with False assms show ?thesis
    by (auto simp: sticky_bind_def sticky_evictIfNeeded_def sticky_wf_def Let_def map_wf_put)
qed

lemma sticky_wf_delete: "sticky_wf st \<Longrightarrow> sticky_wf (deleteBinding key st)"
  by (auto simp: deleteBinding_def)

lemma sticky_wf_mirror: "sticky_wf st \<Longrightarrow> sticky_wf (mirrorBinding key authID n now st)"
  by (auto simp: mirrorBinding_def Let_def sticky_wf_bind intro: sticky_wf_put split: option.split)

lemma sticky_wf_honourBinding:
  "honourBinding env key available limits now s = (s', r) \<Longrightarrow> sticky_wf (scSticky s) \<Longrightarrow> sticky_wf (scSticky s')"
  by (auto simp: honourBinding_def Let_def sticky_wf_put split: if_splits option.splits)

lemma sticky_wf_bindShared:
  "bindShared env up key picked available now s = (s', r) \<Longrightarrow> sticky_wf (scSticky s) \<Longrightarrow> sticky_wf (scSticky s')"
  by (auto simp: bindShared_def Let_def sticky_wf_bind sticky_wf_mirror sticky_wf_delete
      split: prod.splits option.splits if_splits)

lemma sticky_wf_honour:
  assumes "honour env key available limits now s = (s', r)" "sticky_wf (scSticky s)"
  shows "sticky_wf (scSticky s')"
  using assms
  by (auto simp: honour_def Let_def sticky_wf_mirror sticky_wf_delete
      split: prod.splits option.splits if_splits dest!: sticky_wf_honourBinding sticky_wf_bindShared)

lemma sticky_wf_bindSelected:
  "bindSelected env key c available now s = (s', r) \<Longrightarrow> sticky_wf (scSticky s) \<Longrightarrow> sticky_wf (scSticky s')"
  by (auto simp: bindSelected_def sticky_wf_bind split: option.splits dest: sticky_wf_bindShared)

text \<open>
  However many conversations there are, the table of bindings of a process stays well-formed and within its bound:
  a pick that needs room drops expired bindings and then the least recently used one, never the whole table.
\<close>

theorem SessionSticky_Pick_bounded:
  assumes "sticky_wf (scSticky s)"
  shows "sticky_wf (scSticky (fst (SessionSticky_Pick env meta sourceFormat bodyKey provider model s now auths)))"
proof -
  obtain s' r where p: "SessionSticky_Pick env meta sourceFormat bodyKey provider model s now auths = (s', r)"
    by fastforce
  then have "sticky_wf (scSticky s')"
    using assms
    by (auto simp: SessionSticky_Pick_def Let_def split: if_splits sum.splits prod.splits option.splits
        dest!: sticky_wf_honour sticky_wf_bindSelected pickFallback_result)
  with p show ?thesis by simp
qed

theorem SessionSticky_Pick_bounded_witness: "sticky_wf (scSticky (fst (chat_pick None fresh_sched 5)))"
  using SessionSticky_Pick_bounded [of fresh_sched]
  by (simp add: fresh_sched_def sticky_wf_def sticky_limit_def sessionStickyMaxKeys_def)

section \<open>Across processes\<close>

text \<open>With no shared binding yet, the process that serves the first turn publishes the account it used.\<close>

lemma ms_floor_ttl [simp]: "ms_floor sessionStickyTTL = sessionStickyTTL"
  by (simp add: ms_floor_def sessionStickyTTL_def duration_defs)

lemma bindShared_first:
  assumes "bindShared env True key picked available now s = (s', a)"
    and "redis_live (scRedis s) now (seKey env key) = None"
  shows "a = picked \<and> map_of (scRedis s') (seKey env key) = Some (seRef env (aID a), 1, now + sessionStickyTTL)"
  using assms by (auto simp: bindShared_def AffinityBind_def Let_def split: if_splits)

lemma first_turn_publishes:
  assumes pick: "SessionSticky_Pick env meta sourceFormat bodyKey provider model s now auths = (s', Inr a)"
    and key: "session_key provider meta sourceFormat bodyKey = key" "key \<noteq> ''''" "trim_space (aID a) \<noteq> ''''"
    and store: "seStore env = Some True" and fresh: "redis_live (scRedis s) now (seKey env key) = None"
  shows "map_of (scRedis s') (seKey env key) = Some (seRef env (aID a), 1, now + sessionStickyTTL)"
proof -
  have honoured: "(\<exists>s1 c. bindShared env True key c available now s1 = (t, x) \<and> scRedis s1 = scRedis s)"
    if "honour env key available (stickyLimitsFromMetadata meta) now s = (t, Some x)" for available t x
    using that store fresh
    by (auto simp: honour_def AffinityLookup_def Let_def split: prod.splits option.splits dest!: honourBinding_redis)
  have missed: "scRedis t = scRedis s"
    if "honour env key available (stickyLimitsFromMetadata meta) now s = (t, None)" for available t
    using that store fresh
    by (auto simp: honour_def AffinityLookup_def Let_def split: prod.splits option.splits dest!: honourBinding_redis)
  show ?thesis
    using pick key
  proof (cases rule: SessionSticky_Pick_cases)
    case (bound available)
    with honoured obtain s1 c where "bindShared env True key c available now s1 = (s', a)" "scRedis s1 = scRedis s"
      by blast
    with bindShared_first fresh show ?thesis by metis
  next
    case (placed available s1 s2 c)
    then have "bindShared env True key c available now s2 = (s', a)" "scRedis s2 = scRedis s"
      using missed store pickFallback_result by (simp_all add: bindSelected_def)
    with bindShared_first fresh show ?thesis by metis
  qed
qed

text \<open>Every process that reads a standing binding follows it.\<close>

lemma standing_binding_followed:
  assumes "session_key provider meta sourceFormat bodyKey = key" "key \<noteq> ''''"
    and "seStore env = Some True" and "redis_live (scRedis s) now (seKey env key) = Some (acct, n)"
    and "getAvailableAuths auths provider model now = Inr xs"
    and "findAuthByRef env (preferCodexWebsocketAuths (seWs env) provider xs) acct = Some b"
    and "\<not> over_budget (stickyLimitsFromMetadata meta) n" "\<not> too_loaded env (stickyLimitsFromMetadata meta) b"
  shows "\<exists>s'. SessionSticky_Pick env meta sourceFormat bodyKey provider model s now auths = (s', Inr b)"
  using assms by (auto simp: SessionSticky_Pick_def session_key_def honour_def AffinityLookup_def Let_def)

lemma findAuthByRef_exists:
  assumes "c \<in> set xs" "seRef env (aID c) = r" "r \<noteq> ''''"
  shows "\<exists>b. findAuthByRef env xs r = Some b \<and> seRef env (aID b) = r"
  using assms by (induction xs) (auto simp: findAuthByRef_def)

text \<open>
  C37: A conversation keeps its account across the processes of a cluster. When the first turn of a session is served
  by one process and the next turn reaches another one within the lifetime of a binding, the second process picks the
  credential with the same account reference, provided it may use that account and neither the request bound nor the
  load threshold releases it.
\<close>

theorem session_follows_across_processes:
  assumes first: "SessionSticky_Pick env1 meta1 fmt1 body1 provider model1 s1 t1 auths1 = (s1', Inr a)"
    and keys: "session_key provider meta1 fmt1 body1 = key" "session_key provider meta2 fmt2 body2 = key" "key \<noteq> ''''"
    and named: "trim_space (aID a) \<noteq> ''''" "seRef env1 (aID a) \<noteq> ''''"
    and stores: "seStore env1 = Some True" "seStore env2 = Some True" "seKey env2 = seKey env1" "seRef env2 = seRef env1"
    and fresh: "redis_live (scRedis s1) t1 (seKey env1 key) = None"
    and shared: "scRedis s2 = scRedis s1'" and "t2 < t1 + sessionStickyTTL"
    and offered: "getAvailableAuths auths2 provider model2 t2 = Inr xs"
      "c \<in> set (preferCodexWebsocketAuths (seWs env2) provider xs)" "seRef env2 (aID c) = seRef env1 (aID a)"
    and stands: "\<not> over_budget (stickyLimitsFromMetadata meta2) 1"
      "\<forall>b \<in> set xs. \<not> too_loaded env2 (stickyLimitsFromMetadata meta2) b"
  shows "\<exists>s2' b. SessionSticky_Pick env2 meta2 fmt2 body2 provider model2 s2 t2 auths2 = (s2', Inr b) \<and>
           seRef env1 (aID b) = seRef env1 (aID a)"
proof -
  have "map_of (scRedis s1') (seKey env1 key) = Some (seRef env1 (aID a), 1, t1 + sessionStickyTTL)"
    by (rule first_turn_publishes [OF first keys(1,3) named(1) stores(1) fresh])
  then have live: "redis_live (scRedis s2) t2 (seKey env2 key) = Some (seRef env1 (aID a), 1)"
    using shared stores(3) assms(13) by (simp add: redis_live_def)
  obtain b where b: "findAuthByRef env2 (preferCodexWebsocketAuths (seWs env2) provider xs) (seRef env1 (aID a)) = Some b"
    "seRef env2 (aID b) = seRef env1 (aID a)"
    using findAuthByRef_exists [OF offered(2,3) named(2)] by blast
  have "b \<in> set xs" using findAuthByRef_member [OF b(1)] preferCodexWebsocketAuths_subset(1) by blast
  with standing_binding_followed [OF keys(2,3) stores(2) live offered(1) b(1) stands(1)] stands(2) b(2) stores(4)
  show ?thesis by auto
qed

theorem session_follows_across_processes_witness:
  "\<exists>s1' a s2' b. chat_pick (Some True) fresh_sched 5 = (s1', Inr a) \<and>
     chat_pick (Some True) (fresh_sched\<lparr>scRedis := scRedis s1'\<rparr>) 6 = (s2', Inr b) \<and> aID b = aID a"
proof -
  obtain s1' a where a: "chat_pick (Some True) fresh_sched 5 = (s1', Inr a)" "a \<in> {sample_auth, heavy}"
    using chat_pick_succeeds [of 5] by blast
  have named: "trim_space (aID a) \<noteq> ''''" using chat_ids a(2) by auto
  have offered: "getAvailableAuths [sample_auth, heavy] ''codex'' ''m'' 6 = Inr [sample_auth, heavy]" by code_simp
  have "stickyLimitsFromMetadata session_meta = \<lparr>slMaxRequests = 2, slReleaseAtLoad = 0\<rparr>" by code_simp
  then have stands: "\<not> over_budget (stickyLimitsFromMetadata session_meta) 1"
    "\<not> too_loaded (plain_env (Some True)) (stickyLimitsFromMetadata session_meta) b" for b
    by (simp_all add: over_budget_def too_loaded_def)
  have "a \<in> set (preferCodexWebsocketAuths (seWs (plain_env (Some True))) ''codex'' [sample_auth, heavy])"
    using a(2) by (auto simp: plain_env_def preferCodexWebsocketAuths_def)
  from session_follows_across_processes [where ?s2.0 = "fresh_sched\<lparr>scRedis := scRedis s1'\<rparr>",
      OF a(1) refl refl chat_ids(1) named _ _ _ _ _ _ _ _ offered this]
  obtain s2' b where "chat_pick (Some True) (fresh_sched\<lparr>scRedis := scRedis s1'\<rparr>) 6 = (s2', Inr b)" "aID b = aID a"
    using stands
    by (auto simp: plain_env_def fresh_sched_def redis_live_def sessionStickyTTL_def duration_defs)
  with a(1) show ?thesis by blast
qed

end
