(* ===== verification/Concurrency.thy ===== *)
theory Concurrency
  imports Auth_State
begin

text \<open>
  Per-account concurrency slots and the queue for them:
  \<^verbatim>\<open>src/sdk/cliproxy/auth/account_concurrency.go\<close>, \<^verbatim>\<open>account_concurrency_queue.go\<close> and, for limits that hold
  across the processes of a cluster, \<^verbatim>\<open>account_concurrency_cluster.go\<close>.

  The limiter's maps are association lists.  A \<^verbatim>\<open>*slotWaiter\<close> is an index into a table of waiters, which
  holds the flag \<^verbatim>\<open>claimed\<close> and the content of the channel \<^verbatim>\<open>granted\<close>.  Each section that runs under the
  mutex \<^verbatim>\<open>l.mu\<close>, each compare-and-swap of \<^verbatim>\<open>claimed\<close>, each receive from \<^verbatim>\<open>granted\<close> and each call to the
  coordinator is one atomic operation; the goroutines' interleaving is the step relation \<open>lstep\<close> over these operations.

  The coordinator is an interface (\<^verbatim>\<open>AccountSlotCoordinator\<close>) to a service outside the process. A value of type \<open>coord\<close> is
  what it answers at one moment; the answers may change from step to step.
\<close>

section \<open>State\<close>

record waiter =
  wAuthIDs :: "string list"
  wAuths :: "auth list"
  wClaimed :: bool
  wGranted :: "string option"

record limiter =
  lActive :: "(string, int) gomap"
  lWaiters :: "(string, nat list) gomap"
  lClustered :: "(string, int) gomap"
  lUnshared :: "(string, int) gomap"
  lTable :: "waiter list"

text \<open>
  The coordinator, if one is installed: whether counting is shared, a node's share of a limit, and the answer to the request for a
  slot that counts in the whole cluster, \<^term>\<open>None\<close> for an error.
\<close>

record coord =
  coShared :: bool
  coNodeShare :: "int \<Rightarrow> int"
  coAcquire :: "string \<Rightarrow> int \<Rightarrow> bool option"

type_synonym coordinator = "coord option"

definition effectiveLimit :: "coordinator \<Rightarrow> int \<Rightarrow> int" where
  "effectiveLimit c limit =
     (if limit \<le> 0 then limit
      else (case c of
              Some co \<Rightarrow> if \<not> coShared co \<and> 0 < coNodeShare co limit then coNodeShare co limit else limit
            | None \<Rightarrow> limit))"

definition newLimiter :: limiter where
  "newLimiter = \<lparr>lActive = [], lWaiters = [], lClustered = [], lUnshared = [], lTable = []\<rparr>"

record concurrency_error =
  ceAuthID :: string
  ceActive :: int
  ceLimit :: int
  ceWaited :: duration

section \<open>Operations under the lock\<close>

definition GetInFlight :: "limiter \<Rightarrow> string \<Rightarrow> int" where
  "GetInFlight l authID = (if authID = '''' then 0 else map_get 0 (lActive l) authID)"

definition QueueDepth :: "limiter \<Rightarrow> string \<Rightarrow> nat" where
  "QueueDepth l authID = (if authID = '''' then 0 else length (map_get [] (lWaiters l) authID))"

definition HasAvailableSlot :: "coordinator \<Rightarrow> limiter \<Rightarrow> auth \<Rightarrow> bool" where
  "HasAvailableSlot c l a =
     (let limit = effectiveLimit c (ConcurrencyLimit a)
      in if limit \<le> 0 then True else map_get 0 (lActive l) (aID a) < limit)"

definition FilterAvailableCandidates :: "coordinator \<Rightarrow> limiter \<Rightarrow> auth list \<Rightarrow> auth list" where
  "FilterAvailableCandidates c l candidates =
     (if length candidates \<le> 1 then candidates
      else
        let available = filter (\<lambda>a. let limit = effectiveLimit c (ConcurrencyLimit a)
                                    in limit \<le> 0 \<or> map_get 0 (lActive l) (aID a) < limit) candidates
        in if available \<noteq> [] then available else candidates)"

definition saturatedErrorLocked :: "coordinator \<Rightarrow> limiter \<Rightarrow> auth \<Rightarrow> duration \<Rightarrow> concurrency_error" where
  "saturatedErrorLocked c l a waited =
     \<lparr>ceAuthID = aID a, ceActive = map_get 0 (lActive l) (aID a),
      ceLimit = effectiveLimit c (ConcurrencyLimit a), ceWaited = waited\<rparr>"

definition tryAcquireLocked :: "coordinator \<Rightarrow> limiter \<Rightarrow> auth \<Rightarrow> limiter \<times> bool" where
  "tryAcquireLocked c l a =
     (if aID a = '''' then (l, False)
      else
        let limit = effectiveLimit c (ConcurrencyLimit a)
        in if 0 < limit \<and> limit \<le> map_get 0 (lActive l) (aID a) then (l, False)
           else (l\<lparr>lActive := map_put (aID a) (map_get 0 (lActive l) (aID a) + 1) (lActive l)\<rparr>, True))"

definition unreserveLocked :: "limiter \<Rightarrow> string \<Rightarrow> limiter" where
  "unreserveLocked l authID =
     (let current = map_get 0 (lActive l) authID
      in l\<lparr>lActive := (if current \<le> 1 then map_del authID (lActive l) else map_put authID (current - 1) (lActive l))\<rparr>)"

text \<open>
  \<^verbatim>\<open>claimClusterSlot\<close> asks the coordinator without holding the lock and then settles the reservation under the lock; an error, or counting that
  is not shared, falls back to the share of the process.
\<close>

definition ask_cluster :: "coord \<Rightarrow> auth \<Rightarrow> bool option" where
  "ask_cluster co a = (if coShared co then coAcquire co (aID a) (ConcurrencyLimit a) else None)"

definition settle_claim :: "coord \<Rightarrow> bool option \<Rightarrow> limiter \<Rightarrow> auth \<Rightarrow> limiter \<times> bool" where
  "settle_claim co answer l a =
     (case answer of
        Some True \<Rightarrow> (l\<lparr>lClustered := map_put (aID a) (map_get 0 (lClustered l) (aID a) + 1) (lClustered l)\<rparr>, True)
      | Some False \<Rightarrow> (unreserveLocked l (aID a), False)
      | None \<Rightarrow>
          if coNodeShare co (ConcurrencyLimit a) < map_get 0 (lActive l) (aID a) then (unreserveLocked l (aID a), False)
          else (l\<lparr>lUnshared := map_put (aID a) (map_get 0 (lUnshared l) (aID a) + 1) (lUnshared l)\<rparr>, True))"

definition claimClusterSlot :: "coordinator \<Rightarrow> limiter \<Rightarrow> auth \<Rightarrow> limiter \<times> bool" where
  "claimClusterSlot c l a =
     (case c of
        None \<Rightarrow> (l, True)
      | Some co \<Rightarrow> if ConcurrencyLimit a \<le> 0 then (l, True) else settle_claim co (ask_cluster co a) l a)"

text \<open>Run without interruption; \<open>lstep\<close> interleaves the reservation, the question and its settlement with other requests.\<close>

fun tryAcquireAny :: "coordinator \<Rightarrow> limiter \<Rightarrow> auth list \<Rightarrow> limiter \<times> string option" where
  "tryAcquireAny c l [] = (l, None)"
| "tryAcquireAny c l (a # as) =
     (if aID a = '''' then tryAcquireAny c l as
      else (case tryAcquireLocked c l a of
              (l1, False) \<Rightarrow> tryAcquireAny c l1 as
            | (l1, True) \<Rightarrow>
                (case claimClusterSlot c l1 a of
                   (l2, True) \<Rightarrow> (l2, Some (aID a))
                 | (l2, False) \<Rightarrow> tryAcquireAny c l2 as)))"

definition acquireSlotCluster :: "coordinator \<Rightarrow> limiter \<Rightarrow> auth \<Rightarrow> limiter \<times> (concurrency_error + string)" where
  "acquireSlotCluster c l a =
     (case tryAcquireAny c l [a] of
        (l', Some authID) \<Rightarrow> (l', Inr authID)
      | (l', None) \<Rightarrow> (l', Inl (saturatedErrorLocked c l' a 0)))"

definition AcquireSlot :: "coordinator \<Rightarrow> limiter \<Rightarrow> auth \<Rightarrow> limiter \<times> (concurrency_error + string)" where
  "AcquireSlot c l a =
     (if c \<noteq> None then acquireSlotCluster c l a
      else (case tryAcquireLocked c l a of
              (l', True) \<Rightarrow> (l', Inr (aID a))
            | (l', False) \<Rightarrow> (l', Inl (saturatedErrorLocked c l a 0))))"

definition limitFor :: "waiter \<Rightarrow> string \<Rightarrow> int" where
  "limitFor w authID =
     (case List.find (\<lambda>a. aID a = authID) (rev (wAuths w)) of
        Some a \<Rightarrow> ConcurrencyLimit a | None \<Rightarrow> 0)"

definition newSlotWaiter :: "auth list \<Rightarrow> waiter" where
  "newSlotWaiter auths = \<lparr>wAuthIDs = map aID auths, wAuths = auths, wClaimed = False, wGranted = None\<rparr>"

definition enqueue_ids :: "nat \<Rightarrow> string list \<Rightarrow> (string, nat list) gomap \<Rightarrow> (string, nat list) gomap" where
  "enqueue_ids w ids q = fold (\<lambda>authID q. map_put authID (map_get [] q authID @ [w]) q) ids q"

definition enqueueLocked ::
  "coordinator \<Rightarrow> limiter \<Rightarrow> auth list \<Rightarrow> int \<Rightarrow> limiter \<times> (concurrency_error + nat)" where
  "enqueueLocked c l candidates maxQueueDepth =
     (let queueable = (if 0 < maxQueueDepth
            then filter (\<lambda>a. int (length (map_get [] (lWaiters l) (aID a))) < maxQueueDepth) candidates
            else candidates)
      in if 0 < maxQueueDepth \<and> queueable = []
         then (l, Inl (saturatedErrorLocked c l (candidates ! 0) 0))
         else
           let w = length (lTable l)
           in (l\<lparr>lTable := lTable l @ [newSlotWaiter queueable],
                 lWaiters := enqueue_ids w (map aID queueable) (lWaiters l)\<rparr>,
               Inr w))"

text \<open>The outcome of \<^verbatim>\<open>acquireOrEnqueue\<close>: a slot, a place in the queues, or an error.\<close>

datatype acquire_result = GotSlot string | Queued nat | Saturated concurrency_error

fun try_each :: "coordinator \<Rightarrow> limiter \<Rightarrow> auth list \<Rightarrow> (limiter \<times> string) option" where
  "try_each c l [] = None"
| "try_each c l (a # as) =
     (case tryAcquireLocked c l a of
        (l', True) \<Rightarrow> Some (l', aID a)
      | (l', False) \<Rightarrow> try_each c l' as)"

definition acquireOrEnqueue ::
  "coordinator \<Rightarrow> limiter \<Rightarrow> auth list \<Rightarrow> duration \<Rightarrow> int \<Rightarrow> limiter \<times> acquire_result" where
  "acquireOrEnqueue c l candidates timeout maxQueueDepth =
     (case try_each c l candidates of
        Some (l', authID) \<Rightarrow> (l', GotSlot authID)
      | None \<Rightarrow>
          if timeout \<le> 0 then (l, Saturated (saturatedErrorLocked c l (candidates ! 0) 0))
          else (case enqueueLocked c l candidates maxQueueDepth of
                  (l', Inl e) \<Rightarrow> (l', Saturated e)
                | (l', Inr w) \<Rightarrow> (l', Queued w)))"

text \<open>\<^verbatim>\<open>acquireSlotWaitCluster\<close> up to the point where it waits.\<close>

definition acquireOrEnqueueCluster ::
  "coordinator \<Rightarrow> limiter \<Rightarrow> auth list \<Rightarrow> duration \<Rightarrow> int \<Rightarrow> limiter \<times> acquire_result" where
  "acquireOrEnqueueCluster c l candidates timeout maxQueueDepth =
     (case tryAcquireAny c l candidates of
        (l1, Some authID) \<Rightarrow> (l1, GotSlot authID)
      | (l1, None) \<Rightarrow>
          if timeout \<le> 0 then (l1, Saturated (saturatedErrorLocked c l1 (candidates ! 0) 0))
          else (case enqueueLocked c l1 candidates maxQueueDepth of
                  (l2, Inl e) \<Rightarrow> (l2, Saturated e)
                | (l2, Inr w) \<Rightarrow> (l2, Queued w)))"

text \<open>Storing a queue: an empty one is deleted from the map.\<close>

definition put_queue :: "string \<Rightarrow> nat list \<Rightarrow> (string, nat list) gomap \<Rightarrow> (string, nat list) gomap" where
  "put_queue authID q m = (if q = [] then map_del authID m else map_put authID q m)"

definition tryGrant :: "waiter \<Rightarrow> string \<Rightarrow> waiter \<times> bool" where
  "tryGrant w authID =
     (if wClaimed w then (w, False) else (w\<lparr>wClaimed := True, wGranted := Some authID\<rparr>, True))"

text \<open>
  The loop of \<^verbatim>\<open>ReleaseSlot\<close> over the queue of an account: peek, check the limit, pop, try to grant.
\<close>

fun handoff ::
  "coordinator \<Rightarrow> string \<Rightarrow> int \<Rightarrow> nat list \<Rightarrow> waiter list \<Rightarrow> nat list \<times> waiter list \<times> bool" where
  "handoff c authID current [] tab = ([], tab, False)"
| "handoff c authID current (w # ws) tab =
     (let limit = effectiveLimit c (limitFor (tab ! w) authID)
      in if 0 < limit \<and> limit < current then (w # ws, tab, False)
         else (case tryGrant (tab ! w) authID of
                 (w', True) \<Rightarrow> (ws, tab[w := w'], True)
               | (_, False) \<Rightarrow> handoff c authID current ws tab))"

definition decrementCount :: "(string, int) gomap \<Rightarrow> string \<Rightarrow> (string, int) gomap \<times> bool" where
  "decrementCount counts key =
     (let n = map_get 0 counts key
      in if n \<le> 0 then (counts, False)
         else if n = 1 then (map_del key counts, True)
         else (map_put key (n - 1) counts, True))"

text \<open>The second component of the result tells whether the coordinator's \<^verbatim>\<open>Release\<close> is called.\<close>

definition releaseClusterSlotLocked :: "coordinator \<Rightarrow> limiter \<Rightarrow> string \<Rightarrow> limiter \<times> bool" where
  "releaseClusterSlotLocked c l authID =
     (if c = None then (l, False)
      else (case decrementCount (lUnshared l) authID of
              (u, True) \<Rightarrow> (l\<lparr>lUnshared := u\<rparr>, False)
            | (u, False) \<Rightarrow>
                (case decrementCount (lClustered l) authID of
                   (n, True) \<Rightarrow> (l\<lparr>lClustered := n\<rparr>, True)
                 | (n, False) \<Rightarrow> (l, False))))"

definition ReleaseSlot :: "coordinator \<Rightarrow> limiter \<Rightarrow> string \<Rightarrow> limiter \<times> bool" where
  "ReleaseSlot c l authID =
     (if authID = '''' then (l, False)
      else
        let current = map_get 0 (lActive l) authID
        in if current \<le> 0 then (l, False)
           else
             case handoff c authID current (map_get [] (lWaiters l) authID) (lTable l) of
               (q, tab, granted) \<Rightarrow>
                 let l1 = l\<lparr>lWaiters := put_queue authID q (lWaiters l), lTable := tab\<rparr>
                 in if granted then (l1, False)
                    else releaseClusterSlotLocked c
                      (l1\<lparr>lActive := (if current \<le> 1 then map_del authID (lActive l1)
                                     else map_put authID (current - 1) (lActive l1))\<rparr>) authID)"

definition abandon :: "limiter \<Rightarrow> nat \<Rightarrow> limiter \<times> bool" where
  "abandon l w =
     (if wClaimed (lTable l ! w) then (l, False)
      else (l\<lparr>lTable := (lTable l)[w := (lTable l ! w)\<lparr>wClaimed := True\<rparr>]\<rparr>, True))"

definition dequeue :: "limiter \<Rightarrow> nat \<Rightarrow> limiter" where
  "dequeue l w =
     l\<lparr>lWaiters := fold (\<lambda>authID m. put_queue authID (remove1 w (map_get [] m authID)) m)
                     (wAuthIDs (lTable l ! w)) (lWaiters l)\<rparr>"

definition receive :: "limiter \<Rightarrow> nat \<Rightarrow> (limiter \<times> string) option" where
  "receive l w =
     (case wGranted (lTable l ! w) of
        None \<Rightarrow> None
      | Some authID \<Rightarrow> Some (l\<lparr>lTable := (lTable l)[w := (lTable l ! w)\<lparr>wGranted := None\<rparr>]\<rparr>, authID))"

text \<open>
  \<^verbatim>\<open>giveUp\<close>, run to completion: the error is the context's (\<open>cause\<close>) or the saturation of the first
  candidate.
\<close>

definition giveUp ::
  "coordinator \<Rightarrow> limiter \<Rightarrow> nat \<Rightarrow> auth list \<Rightarrow> string option \<Rightarrow> duration \<Rightarrow>
   limiter \<times> ((string + concurrency_error) + string) option" where
  "giveUp c l w candidates cause waited =
     (case abandon l w of
        (l1, False) \<Rightarrow>
          (case receive l1 w of
             Some (l2, authID) \<Rightarrow> (l2, Some (Inr authID))
           | None \<Rightarrow> (l1, None))
      | (l1, True) \<Rightarrow>
          let l2 = dequeue l1 w
          in (l2, Some (Inl (case cause of
                               Some e \<Rightarrow> Inl e
                             | None \<Rightarrow> Inr (saturatedErrorLocked c l2 (candidates ! 0) waited)))))"

text \<open>
  One round of polling by a queued request of a cluster process. \<^term>\<open>None\<close> is \<^verbatim>\<open>continue\<close>. A request that was handed a slot meanwhile keeps that
  one and gives the polled one back; the last component is whether the coordinator's \<^verbatim>\<open>Release\<close> is called. A waiter that it cannot abandon has
  been granted a slot, so \<open>receive\<close> does not block there.
\<close>

definition poll_slot :: "coordinator \<Rightarrow> limiter \<Rightarrow> nat \<Rightarrow> auth list \<Rightarrow> limiter \<times> string option \<times> bool" where
  "poll_slot c l w candidates =
     (case tryAcquireAny c l candidates of
        (l1, None) \<Rightarrow> (l1, None, False)
      | (l1, Some authID) \<Rightarrow>
          (case abandon l1 w of
             (l2, True) \<Rightarrow> (dequeue l2 w, Some authID, False)
           | (l2, False) \<Rightarrow>
               (case receive l2 w of
                  None \<Rightarrow> (l2, Some authID, False)
                | Some (l3, granted) \<Rightarrow>
                    (case ReleaseSlot c (dequeue l3 w) authID of (l4, released) \<Rightarrow> (l4, Some granted, released)))))"

section \<open>Interleavings\<close>

text \<open>
  The state of the system: the limiter, the slots whose release function is outstanding, the reservations of requests that are still
  asking the coordinator, and the slots that the coordinator granted to this process and was not given back.

  \<open>V\<close> is the set of coordinators, as they may answer, that a step can meet: \<open>{None}\<close> for a process on its own. \<open>ok\<close> says which credentials occur; a
  limit may differ from request to request, and the limit a queued request reads may change while it waits.
\<close>

datatype pending = Asking auth | Answered auth "bool option"

fun pending_auth :: "pending \<Rightarrow> auth" where
  "pending_auth (Asking a) = a"
| "pending_auth (Answered a answer) = a"

record sys =
  sysL :: limiter
  sysHeld :: "string multiset"
  sysPending :: "pending multiset"
  sysRemote :: "string multiset"

definition slot_if :: "bool \<Rightarrow> string \<Rightarrow> string multiset" where
  "slot_if b k = (if b then {#k#} else {#})"

inductive lstep :: "coordinator set \<Rightarrow> (auth \<Rightarrow> bool) \<Rightarrow> sys \<Rightarrow> sys \<Rightarrow> bool" for V ok where
  acquire: "None \<in> V \<Longrightarrow> ok a \<Longrightarrow> AcquireSlot None (sysL s) a = (l', Inr k) \<Longrightarrow>
    lstep V ok s (s\<lparr>sysL := l', sysHeld := add_mset k (sysHeld s)\<rparr>)"
| acquire_wait: "None \<in> V \<Longrightarrow> list_all (\<lambda>a. ok a \<and> aID a \<noteq> '''') candidates \<Longrightarrow> candidates \<noteq> [] \<Longrightarrow>
    acquireOrEnqueue None (sysL s) candidates timeout depth = (l', r) \<Longrightarrow>
    lstep V ok s (s\<lparr>sysL := l', sysHeld := sysHeld s + (case r of GotSlot k \<Rightarrow> {#k#} | _ \<Rightarrow> {#})\<rparr>)"
| reserve: "Some co \<in> V \<Longrightarrow> ok a \<Longrightarrow> tryAcquireLocked (Some co) (sysL s) a = (l', True) \<Longrightarrow>
    lstep V ok s (s\<lparr>sysL := l', sysPending := add_mset (Asking a) (sysPending s)\<rparr>)"
| claim_free: "Asking a \<in># sysPending s \<Longrightarrow> c \<in> V \<Longrightarrow> c = None \<or> ConcurrencyLimit a \<le> 0 \<Longrightarrow>
    lstep V ok s (s\<lparr>sysPending := sysPending s - {#Asking a#}, sysHeld := add_mset (aID a) (sysHeld s)\<rparr>)"
| ask: "Asking a \<in># sysPending s \<Longrightarrow> Some co \<in> V \<Longrightarrow> 0 < ConcurrencyLimit a \<Longrightarrow> answer = ask_cluster co a \<Longrightarrow>
    lstep V ok s (s\<lparr>sysPending := add_mset (Answered a answer) (sysPending s - {#Asking a#}),
                     sysRemote := sysRemote s + slot_if (answer = Some True) (aID a)\<rparr>)"
| settle: "Answered a answer \<in># sysPending s \<Longrightarrow> Some co \<in> V \<Longrightarrow> settle_claim co answer (sysL s) a = (l', b) \<Longrightarrow>
    lstep V ok s (s\<lparr>sysL := l', sysPending := sysPending s - {#Answered a answer#}, sysHeld := sysHeld s + slot_if b (aID a)\<rparr>)"
| enqueue: "Some co \<in> V \<Longrightarrow> list_all (\<lambda>a. ok a \<and> aID a \<noteq> '''') candidates \<Longrightarrow> candidates \<noteq> [] \<Longrightarrow>
    enqueueLocked (Some co) (sysL s) candidates depth = (l', Inr w) \<Longrightarrow> lstep V ok s (s\<lparr>sysL := l'\<rparr>)"
| release: "c \<in> V \<Longrightarrow> k \<in># sysHeld s \<Longrightarrow> ReleaseSlot c (sysL s) k = (l', b) \<Longrightarrow>
    lstep V ok s (s\<lparr>sysL := l', sysHeld := sysHeld s - {#k#}, sysRemote := sysRemote s - slot_if b k\<rparr>)"
| take: "w < length (lTable (sysL s)) \<Longrightarrow> receive (sysL s) w = Some (l', k) \<Longrightarrow>
    lstep V ok s (s\<lparr>sysL := l', sysHeld := add_mset k (sysHeld s)\<rparr>)"
| quit: "w < length (lTable (sysL s)) \<Longrightarrow> abandon (sysL s) w = (l', True) \<Longrightarrow> lstep V ok s (s\<lparr>sysL := l'\<rparr>)"
| leave: "w < length (lTable (sysL s)) \<Longrightarrow> wClaimed (lTable (sysL s) ! w) \<Longrightarrow>
    lstep V ok s (s\<lparr>sysL := dequeue (sysL s) w\<rparr>)"
| relimit: "w < length (lTable (sysL s)) \<Longrightarrow> map aID as = wAuthIDs (lTable (sysL s) ! w) \<Longrightarrow> list_all ok as \<Longrightarrow>
    lstep V ok s (s\<lparr>sysL := (sysL s)\<lparr>lTable := (lTable (sysL s))[w := (lTable (sysL s) ! w)\<lparr>wAuths := as\<rparr>]\<rparr>\<rparr>)"

inductive_cases lstepE: "lstep V ok s t"

definition initial :: "sys \<Rightarrow> bool" where
  "initial s \<longleftrightarrow> s = \<lparr>sysL = newLimiter, sysHeld = {#}, sysPending = {#}, sysRemote = {#}\<rparr>"

abbreviation queue :: "limiter \<Rightarrow> string \<Rightarrow> nat list" where
  "queue l authID \<equiv> map_get [] (lWaiters l) authID"

abbreviation active :: "limiter \<Rightarrow> string \<Rightarrow> int" where
  "active l authID \<equiv> map_get 0 (lActive l) authID"

abbreviation clustered :: "limiter \<Rightarrow> string \<Rightarrow> int" where
  "clustered l authID \<equiv> map_get 0 (lClustered l) authID"

abbreviation unshared :: "limiter \<Rightarrow> string \<Rightarrow> int" where
  "unshared l authID \<equiv> map_get 0 (lUnshared l) authID"

abbreviation held :: "sys \<Rightarrow> string \<Rightarrow> int" where
  "held s authID \<equiv> int (count (sysHeld s) authID)"

text \<open>Slots handed to a waiter that has not received them yet, reservations, and granted questions that are not settled.\<close>

definition in_transit :: "limiter \<Rightarrow> string \<Rightarrow> int" where
  "in_transit l authID = int (length (filter (\<lambda>w. wGranted w = Some authID) (lTable l)))"

definition reserved :: "sys \<Rightarrow> string \<Rightarrow> int" where
  "reserved s authID = int (size (filter_mset (\<lambda>p. aID (pending_auth p) = authID) (sysPending s)))"

fun answered_yes :: "string \<Rightarrow> pending \<Rightarrow> bool" where
  "answered_yes k (Asking a) \<longleftrightarrow> False"
| "answered_yes k (Answered a answer) \<longleftrightarrow> aID a = k \<and> answer = Some True"

definition unsettled :: "sys \<Rightarrow> string \<Rightarrow> int" where
  "unsettled s authID = int (size (filter_mset (answered_yes authID) (sysPending s)))"

text \<open>A request that waits for an account.\<close>

definition waiting :: "limiter \<Rightarrow> nat \<Rightarrow> string \<Rightarrow> bool" where
  "waiting l w k \<longleftrightarrow> w < length (lTable l) \<and> \<not> wClaimed (lTable l ! w) \<and> k \<in> set (wAuthIDs (lTable l ! w))"

lemma length_filter_update:
  "w < length xs \<Longrightarrow>
     int (length (filter P (xs[w := x]))) =
     int (length (filter P xs)) - (if P (xs ! w) then 1 else 0) + (if P x then 1 else 0)"
proof (induction xs arbitrary: w)
  case (Cons y ys)
  show ?case
  proof (cases w)
    case (Suc v)
    with Cons.IH [of v] Cons.prems show ?thesis by (cases "P (ys ! v)"; cases "P x") simp_all
  qed simp
qed simp

lemma size_filter_diff:
  "x \<in># M \<Longrightarrow> int (size (filter_mset P (M - {#x#}))) = int (size (filter_mset P M)) - (if P x then 1 else 0)"
proof -
  assume "x \<in># M"
  then obtain N where "M = add_mset x N" by (metis multi_member_split)
  then show ?thesis by simp
qed

lemma count_slot_if [simp]: "int (count (slot_if b k) k') = (if b \<and> k' = k then 1 else 0)"
  by (simp add: slot_if_def)

lemma int_count_diff: "k \<in># M \<Longrightarrow> int (count (M - {#k#}) k') = int (count M k') - (if k' = k then 1 else 0)"
  by (auto simp: Suc_le_eq)

section \<open>What the operations change\<close>

lemma tryAcquireLocked_True:
  "tryAcquireLocked c l a = (l', True) \<Longrightarrow>
     l' = l\<lparr>lActive := map_put (aID a) (active l (aID a) + 1) (lActive l)\<rparr> \<and> aID a \<noteq> '''' \<and>
     \<not> (0 < effectiveLimit c (ConcurrencyLimit a) \<and> effectiveLimit c (ConcurrencyLimit a) \<le> active l (aID a))"
  by (auto simp: tryAcquireLocked_def Let_def split: if_split_asm)

lemma tryAcquireLocked_False: "tryAcquireLocked c l a = (l', False) \<Longrightarrow> l' = l"
  by (auto simp: tryAcquireLocked_def Let_def split: if_split_asm)

lemma try_each_Some:
  "try_each c l as = Some (l', authID) \<Longrightarrow> \<exists>a \<in> set as. aID a = authID \<and> tryAcquireLocked c l a = (l', True)"
  by (induction as) (auto split: prod.split_asm bool.split_asm dest: tryAcquireLocked_False)

lemma try_each_None:
  "try_each c l as = None \<Longrightarrow> a \<in> set as \<Longrightarrow> tryAcquireLocked c l a = (l, False)"
  by (induction as) (auto split: prod.split_asm bool.split_asm dest: tryAcquireLocked_False)

abbreviation grant :: "waiter \<Rightarrow> string \<Rightarrow> waiter" where
  "grant w authID \<equiv> w\<lparr>wClaimed := True, wGranted := Some authID\<rparr>"

text \<open>
  The loop skips waiters that are already served or gone; it stops at the first that still waits,
  which it grants the slot, unless the account is above its limit.
\<close>

lemma handoff_spec:
  assumes "handoff c authID current q tab = (q', tab', granted)"
  shows "\<exists>pre. list_all (\<lambda>w. wClaimed (tab ! w)) pre \<and>
    (if granted then \<exists>w. q = pre @ w # q' \<and> \<not> wClaimed (tab ! w) \<and> tab' = tab[w := grant (tab ! w) authID]
     else q = pre @ q' \<and> tab' = tab \<and>
       (q' = [] \<or> (\<exists>w. w = hd q' \<and> 0 < effectiveLimit c (limitFor (tab ! w) authID) \<and>
                        effectiveLimit c (limitFor (tab ! w) authID) < current)))"
  using assms
proof (induction q)
  case (Cons w ws)
  let ?limit = "effectiveLimit c (limitFor (tab ! w) authID)"
  consider (over) "0 < ?limit \<and> ?limit < current" | (skip) "\<not> (0 < ?limit \<and> ?limit < current)" "wClaimed (tab ! w)"
    | (grant) "\<not> (0 < ?limit \<and> ?limit < current)" "\<not> wClaimed (tab ! w)" by blast
  then show ?case
  proof cases
    case over
    with Cons.prems show ?thesis by (intro exI [of _ "[]"]) (auto simp: Let_def)
  next
    case grant
    with Cons.prems show ?thesis by (intro exI [of _ "[]"]) (auto simp: Let_def tryGrant_def)
  next
    case skip
    with Cons.prems have "handoff c authID current ws tab = (q', tab', granted)"
      by (auto simp: Let_def tryGrant_def)
    from Cons.IH [OF this] skip(2) show ?thesis
      by (elim exE) (rule_tac x = "w # pre" in exI, simp split: if_split_asm)
  qed
qed auto

lemma map_get_put_queue [simp]: "map_get [] (put_queue k q m) k' = (if k' = k then q else map_get [] m k')"
  by (simp add: put_queue_def)

lemma queue_enqueue_ids:
  "set (map_get [] (enqueue_ids w ids q) authID) =
     set (map_get [] q authID) \<union> (if authID \<in> set ids then {w} else {})"
  unfolding enqueue_ids_def by (induction ids arbitrary: q) auto

lemma queue_dequeue:
  "set (queue (dequeue l w) authID) \<subseteq> set (queue l authID)"
  "v \<noteq> w \<Longrightarrow> v \<in> set (queue l authID) \<Longrightarrow> v \<in> set (queue (dequeue l w) authID)"
proof -
  have "set (map_get [] (fold (\<lambda>k m. put_queue k (remove1 w (map_get [] m k)) m) ids m) authID) \<subseteq> set (map_get [] m authID) \<and>
    (v \<noteq> w \<longrightarrow> v \<in> set (map_get [] m authID) \<longrightarrow>
     v \<in> set (map_get [] (fold (\<lambda>k m. put_queue k (remove1 w (map_get [] m k)) m) ids m) authID))" for ids m
  proof (induction ids arbitrary: m)
    case (Cons k ids)
    from Cons [of "put_queue k (remove1 w (map_get [] m k)) m"] show ?case
      using set_remove1_subset [of w "map_get [] m k"] by (auto split: if_split_asm)
  qed simp
  then show "set (queue (dequeue l w) authID) \<subseteq> set (queue l authID)"
    "v \<noteq> w \<Longrightarrow> v \<in> set (queue l authID) \<Longrightarrow> v \<in> set (queue (dequeue l w) authID)"
    by (simp_all add: dequeue_def)
qed

lemma unreserveLocked_facts:
  "active (unreserveLocked l k) k' = (if k' = k then (if active l k \<le> 1 then 0 else active l k - 1) else active l k')"
  "lTable (unreserveLocked l k) = lTable l" "lWaiters (unreserveLocked l k) = lWaiters l"
  "lClustered (unreserveLocked l k) = lClustered l" "lUnshared (unreserveLocked l k) = lUnshared l"
  by (simp_all add: unreserveLocked_def Let_def)

text \<open>Settling a claim either keeps the reservation as a slot, counted as clustered or unshared, or drops it.\<close>

lemma settle_claim_facts:
  assumes "settle_claim co answer l a = (l', b)"
  shows "lTable l' = lTable l" "lWaiters l' = lWaiters l"
    and "\<not> b \<Longrightarrow> answer \<noteq> Some True \<and> l' = unreserveLocked l (aID a)"
    and "b \<Longrightarrow> lActive l' = lActive l"
    and "clustered l' k = clustered l k + (if answer = Some True \<and> k = aID a then 1 else 0)"
    and "unshared l' k = unshared l k + (if b \<and> answer \<noteq> Some True \<and> k = aID a then 1 else 0)"
  using assms
  by (auto simp: settle_claim_def unreserveLocked_facts split: option.split_asm bool.split_asm if_split_asm)

lemma decrementCount_facts:
  "map_get 0 (fst (decrementCount m k)) k' = map_get 0 m k' - (if snd (decrementCount m k) \<and> k' = k then 1 else 0)"
  "snd (decrementCount m k) \<longleftrightarrow> 0 < map_get 0 m k"
  by (simp_all add: decrementCount_def Let_def)

lemma releaseClusterSlotLocked_facts:
  assumes "releaseClusterSlotLocked c l k = (l', b)"
  shows "lTable l' = lTable l" "lWaiters l' = lWaiters l" "lActive l' = lActive l"
    and "clustered l' k' = clustered l k' - (if b \<and> k' = k then 1 else 0)"
    and "b \<Longrightarrow> 0 < clustered l k"
    and "k' \<noteq> k \<Longrightarrow> unshared l' k' = unshared l k'"
    and "c \<noteq> None \<Longrightarrow> 0 < clustered l k + unshared l k \<Longrightarrow> clustered l' k + unshared l' k = clustered l k + unshared l k - 1"
  using assms decrementCount_facts [of "lUnshared l" k] decrementCount_facts [of "lClustered l" k]
  by (cases "decrementCount (lUnshared l) k"; cases "decrementCount (lClustered l) k";
      auto simp: releaseClusterSlotLocked_def split: if_split_asm bool.split_asm)+

text \<open>A release hands the slot to the first request of the queue that still waits, or gives it back.\<close>

definition handed :: "limiter \<Rightarrow> string \<Rightarrow> nat list \<Rightarrow> nat \<Rightarrow> nat list \<Rightarrow> limiter \<Rightarrow> bool" where
  "handed l k pre w q l' \<longleftrightarrow>
     queue l k = pre @ w # q \<and> \<not> wClaimed (lTable l ! w) \<and> lTable l' = (lTable l)[w := grant (lTable l ! w) k] \<and>
     lActive l' = lActive l \<and> lClustered l' = lClustered l \<and> lUnshared l' = lUnshared l"

definition drained :: "coordinator \<Rightarrow> limiter \<Rightarrow> string \<Rightarrow> nat list \<Rightarrow> nat list \<Rightarrow> bool \<Rightarrow> limiter \<Rightarrow> bool" where
  "drained c l k pre q b l' \<longleftrightarrow>
     queue l k = pre @ q \<and> lTable l' = lTable l \<and>
     (\<forall>k'. active l' k' = active l k' - (if k' = k then 1 else 0)) \<and>
     (q = [] \<or> (\<exists>w \<in> set q. 0 < effectiveLimit c (limitFor (lTable l ! w) k) \<and>
                           effectiveLimit c (limitFor (lTable l ! w) k) < active l k)) \<and>
     (\<forall>k'. clustered l' k' = clustered l k' - (if b \<and> k' = k then 1 else 0)) \<and> (b \<longrightarrow> 0 < clustered l k) \<and>
     (\<forall>k'. k' \<noteq> k \<longrightarrow> unshared l' k' = unshared l k') \<and>
     (c \<noteq> None \<longrightarrow> 0 < clustered l k + unshared l k \<longrightarrow> clustered l' k + unshared l' k = clustered l k + unshared l k - 1)"

lemma ReleaseSlot_cases:
  assumes rel: "ReleaseSlot c l k = (l', b)" and k: "k \<noteq> ''''" "0 < active l k"
  obtains pre w q where "list_all (\<lambda>w. wClaimed (lTable l ! w)) pre" "handed l k pre w q l'" "\<not> b"
      "\<And>k'. queue l' k' = (if k' = k then q else queue l k')"
    | pre q where "list_all (\<lambda>w. wClaimed (lTable l ! w)) pre" "drained c l k pre q b l'"
      "\<And>k'. queue l' k' = (if k' = k then q else queue l k')"
proof -
  obtain q tab granted where h: "handoff c k (active l k) (queue l k) (lTable l) = (q, tab, granted)"
    by (cases "handoff c k (active l k) (queue l k) (lTable l)")
  from handoff_spec [OF h] obtain pre where pre: "list_all (\<lambda>w. wClaimed (lTable l ! w)) pre"
    and spec: "if granted then \<exists>w. queue l k = pre @ w # q \<and> \<not> wClaimed (lTable l ! w) \<and> tab = (lTable l)[w := grant (lTable l ! w) k]
     else queue l k = pre @ q \<and> tab = lTable l \<and>
       (q = [] \<or> (\<exists>w. w = hd q \<and> 0 < effectiveLimit c (limitFor (lTable l ! w) k) \<and>
                        effectiveLimit c (limitFor (lTable l ! w) k) < active l k))"
    by blast
  show ?thesis
  proof (cases granted)
    case True
    with spec obtain w where w: "queue l k = pre @ w # q" "\<not> wClaimed (lTable l ! w)" "tab = (lTable l)[w := grant (lTable l ! w) k]"
      by auto
    with that(1) [OF pre, of w q] show ?thesis using rel k h True by (auto simp: ReleaseSlot_def Let_def handed_def)
  next
    case False
    define l2 where "l2 = l\<lparr>lWaiters := put_queue k q (lWaiters l), lTable := tab,
      lActive := (if active l k \<le> 1 then map_del k (lActive l) else map_put k (active l k - 1) (lActive l))\<rparr>"
    have "releaseClusterSlotLocked c l2 k = (l', b)"
      using rel k h False by (cases "active l k \<le> 1") (simp_all add: ReleaseSlot_def Let_def l2_def)
    note R = releaseClusterSlotLocked_facts [OF this]
    from spec False have q: "queue l k = pre @ q" "tab = lTable l"
      "q = [] \<or> (\<exists>w \<in> set q. 0 < effectiveLimit c (limitFor (lTable l ! w) k) \<and> effectiveLimit c (limitFor (lTable l ! w) k) < active l k)"
      by auto
    have "drained c l k pre q b l'"
      unfolding drained_def using q R(1,3,5-7) k R(4) by (auto simp: l2_def)
    then show ?thesis using that(2) [OF pre] R(2) by (simp add: l2_def)
  qed
qed

section \<open>No slot is lost, none is granted twice\<close>

text \<open>Waiters and queues: a waiter knows the accounts it asked for, and waits in the queue of each of them until it is claimed.\<close>

definition table_ok :: "(auth \<Rightarrow> bool) \<Rightarrow> limiter \<Rightarrow> bool" where
  "table_ok ok l \<longleftrightarrow>
     (\<forall>w \<in> set (lTable l). wAuthIDs w = map aID (wAuths w) \<and> list_all ok (wAuths w) \<and> '''' \<notin> set (wAuthIDs w) \<and>
        (wGranted w \<noteq> None \<longrightarrow> wClaimed w) \<and> wGranted w \<noteq> Some '''')"

definition queues_ok :: "limiter \<Rightarrow> bool" where
  "queues_ok l \<longleftrightarrow>
     (\<forall>k. \<forall>w \<in> set (queue l k). w < length (lTable l) \<and> k \<in> set (wAuthIDs (lTable l ! w))) \<and>
     (\<forall>w k. waiting l w k \<longrightarrow> w \<in> set (queue l k))"

definition counted :: "sys \<Rightarrow> bool" where
  "counted s \<longleftrightarrow>
     (\<forall>k. active (sysL s) k = held s k + in_transit (sysL s) k + reserved s k) \<and>
     (\<forall>k. int (count (sysRemote s) k) = clustered (sysL s) k + unsettled s k) \<and>
     '''' \<notin># sysHeld s"

definition pending_ok :: "(auth \<Rightarrow> bool) \<Rightarrow> sys \<Rightarrow> bool" where
  "pending_ok ok s \<longleftrightarrow> (\<forall>p \<in># sysPending s. ok (pending_auth p) \<and> aID (pending_auth p) \<noteq> '''' \<and>
     (\<forall>a answer. p = Answered a answer \<longrightarrow> 0 < ConcurrencyLimit a))"

definition base_inv :: "(auth \<Rightarrow> bool) \<Rightarrow> sys \<Rightarrow> bool" where
  "base_inv ok s \<longleftrightarrow> table_ok ok (sysL s) \<and> queues_ok (sysL s) \<and> counted s \<and> pending_ok ok s"

lemma base_invD:
  assumes "base_inv ok s"
  shows "table_ok ok (sysL s)" "queues_ok (sysL s)" "counted s" "pending_ok ok s"
  using assms by (simp_all add: base_inv_def)

lemma countedD:
  assumes "counted s"
  shows "active (sysL s) k = held s k + in_transit (sysL s) k + reserved s k"
    and "int (count (sysRemote s) k) = clustered (sysL s) k + unsettled s k" and "'''' \<notin># sysHeld s"
  using assms by (simp_all add: counted_def)

lemma table_okD:
  assumes "table_ok ok l" "w < length (lTable l)"
  shows "wAuthIDs (lTable l ! w) = map aID (wAuths (lTable l ! w))" "list_all ok (wAuths (lTable l ! w))"
    "'''' \<notin> set (wAuthIDs (lTable l ! w))" "\<not> wClaimed (lTable l ! w) \<Longrightarrow> wGranted (lTable l ! w) = None"
    "wGranted (lTable l ! w) \<noteq> Some ''''"
  using assms nth_mem [OF assms(2)] unfolding table_ok_def by blast+

lemma table_ok_update:
  assumes "table_ok ok l" "lTable l' = (lTable l)[w := x]"
    "wAuthIDs x = map aID (wAuths x)" "list_all ok (wAuths x)" "'''' \<notin> set (wAuthIDs x)"
    "wGranted x \<noteq> None \<longrightarrow> wClaimed x" "wGranted x \<noteq> Some ''''"
  shows "table_ok ok l'"
  using assms set_update_subset_insert [of "lTable l" w x] unfolding table_ok_def by auto

lemma queues_ok_keep:
  assumes "queues_ok l" "length (lTable l') = length (lTable l)"
    and "\<And>w. w < length (lTable l) \<Longrightarrow> wAuthIDs (lTable l' ! w) = wAuthIDs (lTable l ! w)"
    and "\<And>k. set (queue l' k) \<subseteq> set (queue l k)"
    and "\<And>w k. waiting l' w k \<Longrightarrow> \<not> wClaimed (lTable l ! w) \<and> (w \<in> set (queue l k) \<longrightarrow> w \<in> set (queue l' k))"
  shows "queues_ok l'"
proof -
  have "waiting l w k" if "waiting l' w k" for w k
    using that assms(2,3) assms(5) [OF that] by (auto simp: waiting_def)
  then have "w \<in> set (queue l' k)" if "waiting l' w k" for w k
    using that assms(1) assms(5) [OF that] by (auto simp: queues_ok_def)
  moreover have "w < length (lTable l') \<and> k \<in> set (wAuthIDs (lTable l' ! w))" if "w \<in> set (queue l' k)" for w k
    using that assms(1-4) unfolding queues_ok_def by (metis subsetD)
  ultimately show ?thesis unfolding queues_ok_def by blast
qed

lemma queues_ok_cong: "lTable l' = lTable l \<Longrightarrow> lWaiters l' = lWaiters l \<Longrightarrow> queues_ok l' = queues_ok l"
  by (simp add: queues_ok_def waiting_def)

lemma table_ok_cong: "lTable l' = lTable l \<Longrightarrow> table_ok ok l' = table_ok ok l"
  by (simp add: table_ok_def)

lemma in_transit_cong: "lTable l' = lTable l \<Longrightarrow> in_transit l' = in_transit l"
  by (simp add: in_transit_def fun_eq_iff)

lemma in_transit_update:
  assumes "w < length (lTable l)" "lTable l' = (lTable l)[w := x]"
  shows "in_transit l' k = in_transit l k - (if wGranted (lTable l ! w) = Some k then 1 else 0) + (if wGranted x = Some k then 1 else 0)"
  using length_filter_update [OF assms(1), of "\<lambda>w. wGranted w = Some k" x] assms(2) by (simp add: in_transit_def)

lemma held_active:
  assumes "counted s" "k \<in># sysHeld s"
  shows "k \<noteq> ''''" "0 < active (sysL s) k"
  using assms countedD [OF assms(1)] by (auto simp: in_transit_def reserved_def simp flip: count_greater_zero_iff)

lemma pending_active:
  assumes "counted s" "p \<in># sysPending s"
  shows "0 < active (sysL s) (aID (pending_auth p))"
proof -
  have "0 < reserved s (aID (pending_auth p))"
    using assms(2) unfolding reserved_def by (metis (mono_tags, lifting) nonempty_has_size filter_mset_eq_conv mem_Collect_eq of_nat_0_less_iff set_mset_filter empty_iff set_mset_empty)
  then show ?thesis using countedD(1) [OF assms(1), of "aID (pending_auth p)"] by (simp add: in_transit_def)
qed

text \<open>Each step keeps the invariant.\<close>

lemma base_acquired:
  assumes inv: "base_inv ok s" and acq: "tryAcquireLocked c (sysL s) a = (l', True)"
  shows "base_inv ok (s\<lparr>sysL := l', sysHeld := add_mset (aID a) (sysHeld s)\<rparr>)"
    and "ok a \<Longrightarrow> base_inv ok (s\<lparr>sysL := l', sysPending := add_mset (Asking a) (sysPending s)\<rparr>)"
proof -
  note D = base_invD [OF inv] and C = countedD [OF base_invD(3) [OF inv]]
  have a: "aID a \<noteq> ''''" and l': "l' = (sysL s)\<lparr>lActive := map_put (aID a) (active (sysL s) (aID a) + 1) (lActive (sysL s))\<rparr>"
    using tryAcquireLocked_True [OF acq] by auto
  have Q: "table_ok ok l'" "queues_ok l'" "in_transit l' = in_transit (sysL s)"
    using D(1,2) table_ok_cong [of l' "sysL s"] queues_ok_cong [of l' "sysL s"] in_transit_cong [of l' "sysL s"] by (simp_all add: l')
  show "base_inv ok (s\<lparr>sysL := l', sysHeld := add_mset (aID a) (sysHeld s)\<rparr>)"
    using Q D(4) C a by (simp add: base_inv_def counted_def pending_ok_def reserved_def unsettled_def l')
  show "base_inv ok (s\<lparr>sysL := l', sysPending := add_mset (Asking a) (sysPending s)\<rparr>)" if "ok a"
    using Q D(4) C a that by (simp add: base_inv_def counted_def pending_ok_def reserved_def unsettled_def l')
qed

lemma base_queued:
  assumes inv: "base_inv ok s" and cands: "list_all (\<lambda>a. ok a \<and> aID a \<noteq> '''') candidates"
    and enq: "enqueueLocked c (sysL s) candidates depth = (l', Inr w)"
  shows "base_inv ok (s\<lparr>sysL := l'\<rparr>)" and "lActive l' = lActive (sysL s)"
    and "\<exists>xs. set xs \<subseteq> set candidates \<and> w = length (lTable (sysL s)) \<and> lTable l' = lTable (sysL s) @ [newSlotWaiter xs]"
proof -
  define xs where "xs = (if 0 < depth
      then filter (\<lambda>a. int (length (queue (sysL s) (aID a))) < depth) candidates else candidates)"
  have xs: "set xs \<subseteq> set candidates" by (auto simp: xs_def)
  have w: "w = length (lTable (sysL s))"
    and l': "l' = (sysL s)\<lparr>lTable := lTable (sysL s) @ [newSlotWaiter xs],
                 lWaiters := enqueue_ids w (map aID xs) (lWaiters (sysL s))\<rparr>"
    using enq unfolding enqueueLocked_def Let_def xs_def [symmetric] by (auto split: if_split_asm)
  note D = base_invD [OF inv]
  have "table_ok ok l'"
    using D(1) xs cands by (force simp: table_ok_def l' newSlotWaiter_def list_all_iff)
  moreover have "queues_ok l'"
    unfolding queues_ok_def
  proof (intro conjI allI ballI impI)
    fix v k assume "v \<in> set (queue l' k)"
    then have "v \<in> set (queue (sysL s) k) \<or> v = w \<and> k \<in> aID ` set xs"
      by (auto simp: l' queue_enqueue_ids split: if_split_asm)
    then show "v < length (lTable l')" "k \<in> set (wAuthIDs (lTable l' ! v))"
      using D(2) w by (auto simp: queues_ok_def l' nth_append newSlotWaiter_def dest: less_SucI)
  next
    fix v k assume "waiting l' v k"
    then have "waiting (sysL s) v k \<or> v = w \<and> k \<in> aID ` set xs"
      using w by (auto simp: waiting_def l' nth_append newSlotWaiter_def less_Suc_eq split: if_split_asm)
    then show "v \<in> set (queue l' k)" using D(2) by (auto simp: queues_ok_def l' queue_enqueue_ids)
  qed
  ultimately show "base_inv ok (s\<lparr>sysL := l'\<rparr>)"
    using D(3,4) by (simp add: base_inv_def counted_def pending_ok_def reserved_def unsettled_def in_transit_def l' newSlotWaiter_def)
  show "lActive l' = lActive (sysL s)" by (simp add: l')
  show "\<exists>xs. set xs \<subseteq> set candidates \<and> w = length (lTable (sysL s)) \<and> lTable l' = lTable (sysL s) @ [newSlotWaiter xs]"
    using xs w by (auto simp: l')
qed

lemma base_released:
  assumes inv: "base_inv ok s" and k: "k \<in># sysHeld s" and rel: "ReleaseSlot c (sysL s) k = (l', b)"
  shows "base_inv ok (s\<lparr>sysL := l', sysHeld := sysHeld s - {#k#}, sysRemote := sysRemote s - slot_if b k\<rparr>)"
proof -
  let ?l = "sysL s"
  note D = base_invD [OF inv] and C = countedD [OF base_invD(3) [OF inv]] and A = held_active [OF base_invD(3) [OF inv] k]
  have no: "'''' \<notin># sysHeld s - {#k#}" using C(3) by (meson in_diffD)
  from rel A show ?thesis
  proof (cases rule: ReleaseSlot_cases)
    case (1 pre w q)
    note H = 1(2) [unfolded handed_def]
    have w: "w < length (lTable ?l)" using D(2) H unfolding queues_ok_def by (metis in_set_conv_decomp)
    note T = table_okD [OF D(1) w]
    have "table_ok ok l'" by (rule table_ok_update [OF D(1), where w = w and x = "grant (lTable ?l ! w) k"]) (use H T A in auto)
    moreover have "queues_ok l'"
    proof (rule queues_ok_keep [OF D(2)])
      show "\<not> wClaimed (lTable ?l ! v) \<and> (v \<in> set (queue ?l k') \<longrightarrow> v \<in> set (queue l' k'))" if "waiting l' v k'" for v k'
      proof -
        have "v \<noteq> w" "\<not> wClaimed (lTable ?l ! v)" using that w H by (auto simp: waiting_def nth_list_update split: if_split_asm)
        then show ?thesis using 1(1,4) H by (auto simp: list_all_iff)
      qed
    qed (use 1(4) H w in \<open>auto simp: nth_list_update\<close>)
    moreover have "in_transit l' k' = in_transit ?l k' + (if k' = k then 1 else 0)" for k'
      using in_transit_update [OF w, of l' "grant (lTable ?l ! w) k" k'] H T(4) by auto
    ultimately show ?thesis
      using D(4) C 1(3) H no int_count_diff [OF k]
      by (simp add: base_inv_def counted_def pending_ok_def reserved_def unsettled_def slot_if_def)
  next
    case (2 pre q)
    note H = 2(2) [unfolded drained_def]
    have "queues_ok l'"
    proof (rule queues_ok_keep [OF D(2)])
      show "\<not> wClaimed (lTable ?l ! v) \<and> (v \<in> set (queue ?l k') \<longrightarrow> v \<in> set (queue l' k'))" if "waiting l' v k'" for v k'
        using that 2(1,3) H by (auto simp: waiting_def list_all_iff)
    qed (use 2(3) H in auto)
    moreover have "int (count (sysRemote s - slot_if b k) k') = int (count (sysRemote s) k') - (if b \<and> k' = k then 1 else 0)" for k'
    proof (cases b)
      case True
      then have "0 < int (count (sysRemote s) k)" using C(2) [of k] H unfolding unsettled_def by linarith
      then have "k \<in># sysRemote s" by simp
      then show ?thesis using True int_count_diff [of k "sysRemote s" k'] by (simp only: slot_if_def if_True simp_thms)
    qed (simp add: slot_if_def)
    ultimately show ?thesis
      using D(1,4) C H no int_count_diff [OF k] table_ok_cong [of l' ?l] in_transit_cong [of l' ?l]
      by (simp add: base_inv_def counted_def pending_ok_def reserved_def unsettled_def)
  qed
qed

text \<open>A reservation that goes on to the next stage, becomes a slot, or is dropped.\<close>

lemma base_pending:
  assumes inv: "base_inv ok s"
  shows "Asking a \<in># sysPending s \<Longrightarrow>
      base_inv ok (s\<lparr>sysPending := sysPending s - {#Asking a#}, sysHeld := add_mset (aID a) (sysHeld s)\<rparr>)"
    and "Asking a \<in># sysPending s \<Longrightarrow> 0 < ConcurrencyLimit a \<Longrightarrow>
      base_inv ok (s\<lparr>sysPending := add_mset (Answered a answer) (sysPending s - {#Asking a#}),
                     sysRemote := sysRemote s + slot_if (answer = Some True) (aID a)\<rparr>)"
proof -
  note D = base_invD [OF inv] and C = countedD [OF base_invD(3) [OF inv]]
  assume a: "Asking a \<in># sysPending s"
  then obtain N where N: "sysPending s = add_mset (Asking a) N" by (metis multi_member_split)
  have P: "pending_ok ok (s\<lparr>sysPending := sysPending s - {#Asking a#}\<rparr>)" "ok a" "aID a \<noteq> ''''"
    using D(4) a unfolding pending_ok_def by (force dest: in_diffD)+
  show "base_inv ok (s\<lparr>sysPending := sysPending s - {#Asking a#}, sysHeld := add_mset (aID a) (sysHeld s)\<rparr>)"
    using D(1,2) C P by (simp add: base_inv_def counted_def pending_ok_def reserved_def unsettled_def N)
  show "base_inv ok (s\<lparr>sysPending := add_mset (Answered a answer) (sysPending s - {#Asking a#}),
                     sysRemote := sysRemote s + slot_if (answer = Some True) (aID a)\<rparr>)" if "0 < ConcurrencyLimit a"
    using D(1,2) C P that
    by (auto simp: base_inv_def counted_def pending_ok_def reserved_def unsettled_def N slot_if_def)
qed

lemma base_settled:
  assumes inv: "base_inv ok s" and p: "Answered a answer \<in># sysPending s" and settle: "settle_claim co answer (sysL s) a = (l', b)"
  shows "base_inv ok (s\<lparr>sysL := l', sysPending := sysPending s - {#Answered a answer#}, sysHeld := sysHeld s + slot_if b (aID a)\<rparr>)"
proof -
  note D = base_invD [OF inv] and C = countedD [OF base_invD(3) [OF inv]] and S = size_filter_diff [OF p]
  note F = settle_claim_facts [OF settle]
  have P: "pending_ok ok (s\<lparr>sysPending := sysPending s - {#Answered a answer#}\<rparr>)" "aID a \<noteq> ''''"
    using D(4) p unfolding pending_ok_def by (force dest: in_diffD)+
  have act: "active l' k = active (sysL s) k - (if \<not> b \<and> k = aID a then 1 else 0)" for k
    using F(3,4) pending_active [OF D(3) p] by (cases b) (auto simp: unreserveLocked_facts)
  show ?thesis
    using D(1,2) C P F(1,2) F(5) table_ok_cong [OF F(1)] queues_ok_cong [OF F(1,2)] in_transit_cong [OF F(1)]
    by (auto simp: base_inv_def counted_def pending_ok_def reserved_def unsettled_def S act slot_if_def simp del: filter_diff_mset)
qed

lemma base_taken:
  assumes inv: "base_inv ok s" and w: "w < length (lTable (sysL s))" and r: "receive (sysL s) w = Some (l', k)"
  shows "base_inv ok (s\<lparr>sysL := l', sysHeld := add_mset k (sysHeld s)\<rparr>)"
proof -
  let ?l = "sysL s" and ?w = "(lTable (sysL s) ! w)\<lparr>wGranted := None\<rparr>"
  note D = base_invD [OF inv] and C = countedD [OF base_invD(3) [OF inv]] and T = table_okD [OF base_invD(1) [OF inv] w]
  have g: "wGranted (lTable ?l ! w) = Some k" and l': "l' = ?l\<lparr>lTable := (lTable ?l)[w := ?w]\<rparr>"
    using r by (auto simp: receive_def split: option.split_asm)
  have "table_ok ok l'" by (rule table_ok_update [OF D(1), where w = w and x = ?w]) (use T in \<open>auto simp: l'\<close>)
  moreover have "queues_ok l'"
    by (rule queues_ok_keep [OF D(2)]) (use w in \<open>auto simp: l' waiting_def nth_list_update split: if_split_asm\<close>)
  moreover have "in_transit l' k' = in_transit ?l k' - (if k' = k then 1 else 0)" for k'
    using in_transit_update [OF w, of l' ?w k'] g by (auto simp: l')
  ultimately show ?thesis using D(4) C T(5) g
    by (auto simp: base_inv_def counted_def pending_ok_def reserved_def unsettled_def l')
qed

text \<open>Steps that only change what is known of a waiter, or shorten queues.\<close>

lemma base_waiter:
  assumes inv: "base_inv ok s" and w: "w < length (lTable (sysL s))"
    and l': "lTable l' = (lTable (sysL s))[w := x]" "lWaiters l' = lWaiters (sysL s)" "lActive l' = lActive (sysL s)"
      "lClustered l' = lClustered (sysL s)"
    and x: "wAuthIDs x = wAuthIDs (lTable (sysL s) ! w)" "wAuthIDs x = map aID (wAuths x)" "list_all ok (wAuths x)"
      "wGranted x = wGranted (lTable (sysL s) ! w)" "wClaimed (lTable (sysL s) ! w) \<longrightarrow> wClaimed x"
  shows "base_inv ok (s\<lparr>sysL := l'\<rparr>)"
proof -
  note D = base_invD [OF inv] and C = countedD [OF base_invD(3) [OF inv]] and T = table_okD [OF base_invD(1) [OF inv] w]
  have "wGranted x \<noteq> None \<longrightarrow> wClaimed x" using T(4) x(4,5) by auto
  then have "table_ok ok l'" using T x by (intro table_ok_update [OF D(1) l'(1)]) auto
  moreover have "queues_ok l'"
    by (rule queues_ok_keep [OF D(2)]) (use w x in \<open>auto simp: l' waiting_def nth_list_update split: if_split_asm\<close>)
  moreover have "in_transit l' k' = in_transit (sysL s) k'" for k'
    using in_transit_update [OF w l'(1), of k'] x(4) by auto
  ultimately show ?thesis using D(4) C
    by (auto simp: base_inv_def counted_def pending_ok_def reserved_def unsettled_def l')
qed

lemma base_left:
  assumes inv: "base_inv ok s" and w: "wClaimed (lTable (sysL s) ! w)"
  shows "base_inv ok (s\<lparr>sysL := dequeue (sysL s) w\<rparr>)"
proof -
  let ?l = "sysL s" and ?l' = "dequeue (sysL s) w"
  note D = base_invD [OF inv] and C = countedD [OF base_invD(3) [OF inv]]
  have l': "lTable ?l' = lTable ?l" "lActive ?l' = lActive ?l" "lClustered ?l' = lClustered ?l" by (simp_all add: dequeue_def)
  have "queues_ok ?l'"
  proof (rule queues_ok_keep [OF D(2)])
    show "\<not> wClaimed (lTable ?l ! v) \<and> (v \<in> set (queue ?l k) \<longrightarrow> v \<in> set (queue ?l' k))" if "waiting ?l' v k" for v k
      using that w queue_dequeue(2) [of v w ?l k] by (auto simp: waiting_def l')
  qed (use queue_dequeue(1) [of ?l w] in \<open>auto simp: l'\<close>)
  then show ?thesis
    using D(1,4) C table_ok_cong [OF l'(1)] in_transit_cong [OF l'(1)]
    by (auto simp: base_inv_def counted_def pending_ok_def reserved_def unsettled_def l')
qed

lemma base_step:
  assumes "base_inv ok s" "lstep V ok s t"
  shows "base_inv ok t"
  using assms(2)
proof cases
  case (acquire a l' k)
  then have "tryAcquireLocked None (sysL s) a = (l', True)" "k = aID a"
    by (auto simp: AcquireSlot_def split: prod.split_asm bool.split_asm)
  with base_acquired(1) [OF assms(1)] acquire show ?thesis by simp
next
  case (acquire_wait candidates timeout depth l' r)
  show ?thesis
  proof (cases "try_each None (sysL s) candidates")
    case (Some p)
    obtain l2 k where p: "p = (l2, k)" by (cases p)
    from try_each_Some [OF Some [unfolded p]] obtain a where "aID a = k" "tryAcquireLocked None (sysL s) a = (l2, True)" by blast
    with base_acquired(1) [OF assms(1), of None a l2] acquire_wait Some p show ?thesis by (auto simp: acquireOrEnqueue_def)
  next
    case None
    have err: "l2 = sysL s" if "enqueueLocked None (sysL s) candidates depth = (l2, Inl e)" for l2 e
      using that by (auto simp: enqueueLocked_def Let_def split: if_split_asm)
    from None acquire_wait base_queued(1) [OF assms(1) acquire_wait(3)] assms(1) show ?thesis
      by (auto simp: acquireOrEnqueue_def split: if_split_asm prod.split_asm sum.split_asm dest: err)
  qed
next
  case (quit w l')
  then have "l' = (sysL s)\<lparr>lTable := (lTable (sysL s))[w := (lTable (sysL s) ! w)\<lparr>wClaimed := True\<rparr>]\<rparr>"
    by (auto simp: abandon_def split: if_split_asm)
  with quit base_waiter [OF assms(1) quit(2), of l' "(lTable (sysL s) ! w)\<lparr>wClaimed := True\<rparr>"]
    table_okD [OF base_invD(1) [OF assms(1)] quit(2)]
  show ?thesis by simp
next
  case (relimit w as)
  let ?x = "(lTable (sysL s) ! w)\<lparr>wAuths := as\<rparr>"
  from relimit base_waiter [OF assms(1) relimit(2), of "(sysL s)\<lparr>lTable := (lTable (sysL s))[w := ?x]\<rparr>" ?x] show ?thesis by simp
next
  case (reserve co a l')
  with base_acquired(2) [OF assms(1)] show ?thesis by simp
next
  case (claim_free a c)
  with base_pending(1) [OF assms(1)] show ?thesis by simp
next
  case (ask a co answer)
  with base_pending(2) [OF assms(1)] show ?thesis by simp
next
  case (settle a answer co l' b)
  with base_settled [OF assms(1)] show ?thesis by simp
next
  case (enqueue co candidates depth l' w)
  with base_queued(1) [OF assms(1) enqueue(3,5)] show ?thesis by simp
next
  case (release c k l' b)
  with base_released [OF assms(1)] show ?thesis by simp
next
  case (take w l' k)
  with base_taken [OF assms(1)] show ?thesis by simp
next
  case (leave w)
  with base_left [OF assms(1)] show ?thesis by simp
qed

section \<open>Limits, waiting, and slots of the cluster\<close>

definition shares_ok :: "coordinator set \<Rightarrow> bool" where
  "shares_ok V \<longleftrightarrow> (\<forall>co. Some co \<in> V \<longrightarrow> (\<forall>n > 0. coNodeShare co n \<le> n))"

text \<open>The share that the coordinator of the cluster gives a node (\<^verbatim>\<open>src/internal/cluster/clusterruntime/runtime.go\<close>).\<close>

definition splitLimit :: "int \<Rightarrow> int \<Rightarrow> int" where
  "splitLimit limit nodes = (if limit \<le> 0 \<or> nodes \<le> 1 then limit else (limit + nodes - 1) div nodes)"

lemma splitLimit_share:
  assumes "0 < n"
  shows "0 < splitLimit n nodes \<and> splitLimit n nodes \<le> n"
proof (cases "nodes \<le> 1")
  case False
  have "0 \<le> (n - 1) * (nodes - 1)" using assms False by (intro mult_nonneg_nonneg) auto
  then have "n + nodes - 1 \<le> n * nodes" by (simp add: algebra_simps)
  then have "(n + nodes - 1) div nodes \<le> n * nodes div nodes" using False by (intro zdiv_mono1) auto
  moreover have "nodes div nodes \<le> (n + nodes - 1) div nodes" using assms False by (intro zdiv_mono1) auto
  ultimately show ?thesis using assms False by (simp add: splitLimit_def)
qed (use assms in \<open>simp add: splitLimit_def\<close>)

lemma effectiveLimit_le: "shares_ok V \<Longrightarrow> c \<in> V \<Longrightarrow> 0 < n \<Longrightarrow> 0 < effectiveLimit c n \<and> effectiveLimit c n \<le> n"
  by (auto simp: effectiveLimit_def shares_ok_def split: option.splits)

lemma limitFor_ok:
  assumes "base_inv ok s" "w \<in> set (queue (sysL s) k)"
  shows "\<exists>a. ok a \<and> aID a = k \<and> limitFor (lTable (sysL s) ! w) k = ConcurrencyLimit a"
proof -
  let ?w = "lTable (sysL s) ! w"
  have w: "w < length (lTable (sysL s))" "k \<in> set (wAuthIDs ?w)"
    using base_invD(2) [OF assms(1)] assms(2) by (auto simp: queues_ok_def)
  note T = table_okD(1,2) [OF base_invD(1) [OF assms(1)] w(1)]
  from w(2) T(1) obtain a where a: "List.find (\<lambda>a. aID a = k) (rev (wAuths ?w)) = Some a"
    by (cases "List.find (\<lambda>a. aID a = k) (rev (wAuths ?w))") (auto simp: find_None_iff)
  from find_SomeD [OF this] T(2) have "ok a" "aID a = k" by (auto simp: list_all_iff)
  with a show ?thesis by (auto simp: limitFor_def)
qed

text \<open>The limits of an account lie between \<open>lo\<close> and \<open>hi\<close> throughout the run.\<close>

definition limits_in :: "(auth \<Rightarrow> bool) \<Rightarrow> string \<Rightarrow> int \<Rightarrow> int \<Rightarrow> bool" where
  "limits_in ok k lo hi \<longleftrightarrow> 0 < lo \<and> lo \<le> hi \<and> (\<forall>a. ok a \<and> aID a = k \<longrightarrow> lo \<le> ConcurrencyLimit a \<and> ConcurrencyLimit a \<le> hi)"

definition under_limit :: "string \<Rightarrow> int \<Rightarrow> sys \<Rightarrow> bool" where
  "under_limit k hi s \<longleftrightarrow> active (sysL s) k \<le> hi"

definition no_idle :: "string \<Rightarrow> int \<Rightarrow> sys \<Rightarrow> bool" where
  "no_idle k lo s \<longleftrightarrow> (\<forall>w. waiting (sysL s) w k \<longrightarrow> lo \<le> active (sysL s) k)"

definition backed :: "string \<Rightarrow> sys \<Rightarrow> bool" where
  "backed k s \<longleftrightarrow> clustered (sysL s) k + unshared (sysL s) k = held s k + in_transit (sysL s) k"

lemma step_frame:
  assumes "lstep V ok s t"
  shows "(\<exists>c a. c \<in> V \<and> ok a \<and> tryAcquireLocked c (sysL s) a = (sysL t, True)) \<or>
         (\<exists>c k b. c \<in> V \<and> k \<in># sysHeld s \<and> ReleaseSlot c (sysL s) k = (sysL t, b)) \<or>
         (\<exists>co a answer b. Some co \<in> V \<and> Answered a answer \<in># sysPending s \<and> settle_claim co answer (sysL s) a = (sysL t, b)) \<or>
         lActive (sysL t) = lActive (sysL s)"
  using assms
proof cases
  case (acquire a l' k)
  then have "tryAcquireLocked None (sysL s) a = (l', True)"
    by (auto simp: AcquireSlot_def split: prod.split_asm bool.split_asm)
  with acquire show ?thesis by auto
next
  case (acquire_wait candidates timeout depth l' r)
  show ?thesis
  proof (cases "try_each None (sysL s) candidates")
    case (Some p)
    obtain l2 k where p: "p = (l2, k)" by (cases p)
    from try_each_Some [OF Some [unfolded p]] obtain a where "a \<in> set candidates" "tryAcquireLocked None (sysL s) a = (l2, True)" by blast
    with acquire_wait Some p show ?thesis by (auto simp: acquireOrEnqueue_def list_all_iff)
  next
    case None
    with acquire_wait show ?thesis
      by (auto simp: acquireOrEnqueue_def enqueueLocked_def Let_def split: if_split_asm prod.split_asm sum.split_asm)
  qed
next
  case (enqueue co candidates depth l' w)
  then show ?thesis by (auto simp: enqueueLocked_def Let_def split: if_split_asm)
next
  case (take w l' k)
  then show ?thesis by (auto simp: receive_def split: option.split_asm)
next
  case (quit w l')
  then show ?thesis by (auto simp: abandon_def split: if_split_asm)
next
  case (leave w)
  then show ?thesis by (simp add: dequeue_def)
next
  case (reserve co a l')
  then have "\<exists>c a. c \<in> V \<and> ok a \<and> tryAcquireLocked c (sysL s) a = (sysL t, True)" by auto
  then show ?thesis ..
next
  case (settle a answer co l' b)
  then have "Some co \<in> V \<and> Answered a answer \<in># sysPending s \<and> settle_claim co answer (sysL s) a = (sysL t, b)" by simp
  then show ?thesis by blast
next
  case (release c k l' b)
  then have "c \<in> V \<and> k \<in># sysHeld s \<and> ReleaseSlot c (sysL s) k = (sysL t, b)" by simp
  then show ?thesis by blast
qed simp_all

text \<open>The in-flight count grows only where the limit in force allows it.\<close>

lemma under_limit_step:
  assumes inv: "base_inv ok s" and "lstep V ok s t" and V: "shares_ok V" and lim: "limits_in ok k lo hi" and "under_limit k hi s"
  shows "under_limit k hi t"
proof -
  note act = step_frame [OF assms(2)]
  have le: "active (sysL s) k \<le> hi" using assms(5) by (simp add: under_limit_def)
  have "active (sysL t) k \<le> hi"
    using act
  proof (elim disjE exE conjE)
    fix c a assume a: "c \<in> V" "ok a" "tryAcquireLocked c (sysL s) a = (sysL t, True)"
    note T = tryAcquireLocked_True [OF a(3)]
    show ?thesis
    proof (cases "aID a = k")
      case True
      then have "0 < ConcurrencyLimit a" "ConcurrencyLimit a \<le> hi" using lim a(2) by (auto simp: limits_in_def)
      with effectiveLimit_le [OF V a(1)] T True have "active (sysL s) k < ConcurrencyLimit a" by fastforce
      moreover have "active (sysL t) k = active (sysL s) k + 1"
        using True by (subst conjunct1 [OF T]) simp
      ultimately show ?thesis using \<open>ConcurrencyLimit a \<le> hi\<close> by linarith
    next
      case False
      have "active (sysL t) k = active (sysL s) k" using False by (subst conjunct1 [OF T]) simp
      then show ?thesis using le by simp
    qed
  next
    fix c k' b assume r: "k' \<in># sysHeld s" "ReleaseSlot c (sysL s) k' = (sysL t, b)"
    from r(2) held_active [OF base_invD(3) [OF inv] r(1)] show ?thesis
      by (cases rule: ReleaseSlot_cases) (use le in \<open>auto simp: handed_def drained_def\<close>)
  next
    fix co a answer b assume p: "Answered a answer \<in># sysPending s" "settle_claim co answer (sysL s) a = (sysL t, b)"
    note F = settle_claim_facts(3,4) [OF p(2)]
    show ?thesis using F le pending_active [OF base_invD(3) [OF inv] p(1)] by (cases b) (auto simp: unreserveLocked_facts)
  qed (use le in simp)
  then show ?thesis by (simp add: under_limit_def)
qed

text \<open>Without a coordinator, a request waits for an account only while the account is busy.\<close>

lemma no_idle_mono:
  assumes "no_idle k lo s" "lTable (sysL t) = lTable (sysL s)" "active (sysL s) k \<le> active (sysL t) k"
  shows "no_idle k lo t"
  using assms by (force simp: no_idle_def waiting_def)

lemma no_idle_waiter:
  assumes "no_idle k lo s" "w < length (lTable (sysL s))" "lTable (sysL t) = (lTable (sysL s))[w := x]" "lActive (sysL t) = lActive (sysL s)"
    "wAuthIDs x = wAuthIDs (lTable (sysL s) ! w)" "wClaimed (lTable (sysL s) ! w) \<Longrightarrow> wClaimed x"
  shows "no_idle k lo t"
proof -
  have "waiting (sysL s) v k" if "waiting (sysL t) v k" for v
    using that assms by (auto simp: waiting_def nth_list_update split: if_split_asm)
  with assms(1,4) show ?thesis unfolding no_idle_def by fastforce
qed

lemma no_idle_queued:
  assumes inv: "base_inv ok s" and cands: "list_all (\<lambda>a. ok a \<and> aID a \<noteq> '''') candidates"
    and full: "try_each None (sysL s) candidates = None" and lim: "limits_in ok k lo hi" and idle: "no_idle k lo s"
    and enq: "enqueueLocked None (sysL s) candidates depth = (l', Inr w)" and t: "sysL t = l'"
  shows "no_idle k lo t"
  unfolding no_idle_def t
proof (intro allI impI)
  fix v assume v: "waiting l' v k"
  note Q = base_queued(2,3) [OF inv cands enq]
  from Q(2) obtain xs where xs: "set xs \<subseteq> set candidates" "lTable l' = lTable (sysL s) @ [newSlotWaiter xs]" by blast
  show "lo \<le> active l' k"
  proof (cases "waiting (sysL s) v k")
    case True
    then have "lo \<le> active (sysL s) k" using idle unfolding no_idle_def by blast
    then show ?thesis using Q(1) by simp
  next
    case False
    with v xs(2) have "k \<in> aID ` set xs"
      by (auto simp: waiting_def nth_append newSlotWaiter_def less_Suc_eq split: if_split_asm)
    then obtain a where a: "a \<in> set candidates" "aID a = k" using xs(1) by auto
    then have "ok a" "lo \<le> ConcurrencyLimit a" "0 < ConcurrencyLimit a" using cands lim by (auto simp: list_all_iff limits_in_def)
    with try_each_None [OF full a(1)] a(2) cands a(1) have "ConcurrencyLimit a \<le> active (sysL s) k"
      by (auto simp: tryAcquireLocked_def Let_def effectiveLimit_def list_all_iff split: if_split_asm)
    with \<open>lo \<le> ConcurrencyLimit a\<close> Q(1) show ?thesis by simp
  qed
qed

lemma no_idle_released:
  assumes inv: "base_inv ok s" and "k' \<in># sysHeld s" and rel: "ReleaseSlot None (sysL s) k' = (sysL t, b)"
    and qt: "queues_ok (sysL t)" and lim: "limits_in ok k lo hi" and idle: "no_idle k lo s"
  shows "no_idle k lo t"
proof -
  note A = held_active [OF base_invD(3) [OF inv] assms(2)]
  from rel A show ?thesis
  proof (cases rule: ReleaseSlot_cases)
    case (1 pre w q)
    note H = 1(2) [unfolded handed_def]
    have "w < length (lTable (sysL s))" using base_invD(2) [OF inv] H unfolding queues_ok_def by (metis in_set_conv_decomp)
    from no_idle_waiter [OF idle this, of t "grant (lTable (sysL s) ! w) k'"] H show ?thesis by simp
  next
    case (2 pre q)
    note H = 2(2) [unfolded drained_def]
    show ?thesis
      unfolding no_idle_def
    proof (intro allI impI)
      fix v assume v: "waiting (sysL t) v k"
      then have vs: "lo \<le> active (sysL s) k" using idle H by (auto simp: no_idle_def waiting_def)
      show "lo \<le> active (sysL t) k"
      proof (cases "k' = k")
        case True
        have "v \<in> set (queue (sysL t) k)" using qt v unfolding queues_ok_def by blast
        then have "v \<in> set q" using 2(3) [of k] True by simp
        then obtain w where w: "w \<in> set q" "effectiveLimit None (limitFor (lTable (sysL s) ! w) k) < active (sysL s) k"
          using H True by auto
        have "w \<in> set (queue (sysL s) k)" using w(1) H True by simp
        from limitFor_ok [OF inv this] lim have "lo \<le> limitFor (lTable (sysL s) ! w) k" by (auto simp: limits_in_def)
        with w(2) H True show ?thesis by (auto simp: effectiveLimit_def split: if_split_asm)
      qed (use vs H in simp)
    qed
  qed
qed

lemma no_idle_step:
  assumes inv: "base_inv ok s" and step: "lstep V ok s t" and V: "V \<subseteq> {None}" and lim: "limits_in ok k lo hi" and idle: "no_idle k lo s"
  shows "no_idle k lo t"
  using step
proof cases
  case (acquire a l' k')
  then have "tryAcquireLocked None (sysL s) a = (l', True)"
    by (auto simp: AcquireSlot_def split: prod.split_asm bool.split_asm)
  from tryAcquireLocked_True [OF this] acquire show ?thesis by (intro no_idle_mono [OF idle]) auto
next
  case (acquire_wait candidates timeout depth l' r)
  show ?thesis
  proof (cases "try_each None (sysL s) candidates")
    case (Some p)
    obtain l2 k' where p: "p = (l2, k')" by (cases p)
    from try_each_Some [OF Some [unfolded p]] obtain a where "tryAcquireLocked None (sysL s) a = (l2, True)" by blast
    from tryAcquireLocked_True [OF this] Some p acquire_wait show ?thesis
      by (intro no_idle_mono [OF idle]) (auto simp: acquireOrEnqueue_def)
  next
    case None
    have err: "l2 = sysL s" if "enqueueLocked None (sysL s) candidates depth = (l2, Inl e)" for l2 e
      using that by (auto simp: enqueueLocked_def Let_def split: if_split_asm)
    have "no_idle k lo t" if "enqueueLocked None (sysL s) candidates depth = (l', Inr w)" for w
      using no_idle_queued [OF inv acquire_wait(3) None lim idle that] acquire_wait(1) by simp
    moreover have "l' = sysL s \<or> (\<exists>w. enqueueLocked None (sysL s) candidates depth = (l', Inr w))"
      using None acquire_wait(5) by (auto simp: acquireOrEnqueue_def split: if_split_asm prod.split_asm sum.split_asm dest: err)
    moreover have "no_idle k lo t" if "l' = sysL s" using idle that acquire_wait(1) by (simp add: no_idle_def)
    ultimately show ?thesis by blast
  qed
next
  case (release c k' l' b)
  then have "ReleaseSlot None (sysL s) k' = (sysL t, b)" using V by auto
  with no_idle_released [OF inv release(3) _ base_invD(2) [OF base_step [OF inv step]] lim idle] show ?thesis by blast
next
  case (take w l' k')
  then show ?thesis
    by (intro no_idle_waiter [OF idle, of w t "(lTable (sysL s) ! w)\<lparr>wGranted := None\<rparr>"])
      (auto simp: receive_def split: option.split_asm)
next
  case (quit w l')
  then show ?thesis
    by (intro no_idle_waiter [OF idle, of w t "(lTable (sysL s) ! w)\<lparr>wClaimed := True\<rparr>"])
      (auto simp: abandon_def split: if_split_asm)
next
  case (leave w)
  then show ?thesis by (intro no_idle_mono [OF idle]) (auto simp: dequeue_def)
next
  case (relimit w as)
  then show ?thesis by (intro no_idle_waiter [OF idle, of w t "(lTable (sysL s) ! w)\<lparr>wAuths := as\<rparr>"]) auto
qed (use V idle in \<open>auto simp: no_idle_def\<close>)

text \<open>In a process of a cluster, every slot of an account with a limit is counted by the cluster or as taken while the count was out of reach.\<close>

lemma backed_keep:
  assumes "backed k s" "lClustered (sysL t) = lClustered (sysL s)" "lUnshared (sysL t) = lUnshared (sysL s)"
    "held t k + in_transit (sysL t) k = held s k + in_transit (sysL s) k"
  shows "backed k t"
  using assms by (simp add: backed_def)

lemma backed_step:
  assumes inv: "base_inv ok s" and step: "lstep V ok s t" and V: "None \<notin> V"
    and lim: "\<forall>a. ok a \<and> aID a = k \<longrightarrow> 0 < ConcurrencyLimit a" and b: "backed k s"
  shows "backed k t"
  using step
proof cases
  case (acquire a l' k')
  with V show ?thesis by simp
next
  case (acquire_wait candidates timeout depth l' r)
  with V show ?thesis by simp
next
  case (reserve co a l')
  from tryAcquireLocked_True [OF reserve(4)] reserve in_transit_cong [of l' "sysL s"] show ?thesis
    by (intro backed_keep [OF b]) auto
next
  case (claim_free a c)
  then have "aID a \<noteq> k" using V base_invD(4) [OF inv] lim by (fastforce simp: pending_ok_def)
  with claim_free show ?thesis by (intro backed_keep [OF b]) auto
next
  case (ask a co answer)
  then show ?thesis by (intro backed_keep [OF b]) auto
next
  case (settle a answer co l' ok')
  note F = settle_claim_facts [OF settle(4)]
  have "in_transit l' = in_transit (sysL s)" by (rule in_transit_cong [OF F(1)])
  with b F(3) F(5,6) [of k] settle(1) show ?thesis by (auto simp: backed_def slot_if_def)
next
  case (enqueue co candidates depth l' w)
  then show ?thesis
    by (intro backed_keep [OF b]) (auto simp: enqueueLocked_def Let_def in_transit_def newSlotWaiter_def split: if_split_asm)
next
  case (release c k' l' b')
  note A = held_active [OF base_invD(3) [OF inv] release(3)]
  from release(4) A show ?thesis
  proof (cases rule: ReleaseSlot_cases)
    case (1 pre w q)
    note H = 1(2) [unfolded handed_def]
    have w: "w < length (lTable (sysL s))" using base_invD(2) [OF inv] H unfolding queues_ok_def by (metis in_set_conv_decomp)
    have "in_transit l' k = in_transit (sysL s) k + (if k = k' then 1 else 0)"
      using in_transit_update [OF w, of l' "grant (lTable (sysL s) ! w) k'" k] H table_okD(4) [OF base_invD(1) [OF inv] w] by auto
    with H release(1) int_count_diff [OF release(3), of k] show ?thesis
      by (intro backed_keep [OF b]) (simp_all only: sys.simps, auto)
  next
    case (2 pre q)
    note H = 2(2) [unfolded drained_def]
    have it: "in_transit l' = in_transit (sysL s)" using H by (intro in_transit_cong) simp
    show ?thesis
    proof (cases "k = k'")
      case True
      have "0 < held s k'" using release(3) by simp
      moreover have "0 \<le> in_transit (sysL s) k'" by (simp add: in_transit_def)
      ultimately have "0 < clustered (sysL s) k' + unshared (sysL s) k'" using b unfolding True backed_def by linarith
      then have "clustered l' k' + unshared l' k' = clustered (sysL s) k' + unshared (sysL s) k' - 1"
        using H V release(2) by metis
      then show ?thesis using b it True release(1) int_count_diff [OF release(3), of k] by (simp add: backed_def)
    next
      case False
      then show ?thesis using b H it release(1) int_count_diff [OF release(3), of k] by (simp add: backed_def)
    qed
  qed
next
  case (take w l' k')
  then have "in_transit l' k = in_transit (sysL s) k - (if k' = k then 1 else 0)"
    using in_transit_update [OF take(2), of l' "(lTable (sysL s) ! w)\<lparr>wGranted := None\<rparr>" k]
    by (auto simp: receive_def split: option.split_asm)
  with take show ?thesis by (intro backed_keep [OF b]) (auto simp: receive_def split: option.split_asm)
next
  case (quit w l')
  then have l': "l' = (sysL s)\<lparr>lTable := (lTable (sysL s))[w := (lTable (sysL s) ! w)\<lparr>wClaimed := True\<rparr>]\<rparr>"
    by (auto simp: abandon_def split: if_split_asm)
  with quit in_transit_update [OF quit(2), of l' "(lTable (sysL s) ! w)\<lparr>wClaimed := True\<rparr>" k] show ?thesis
    by (intro backed_keep [OF b]) auto
next
  case (leave w)
  then show ?thesis by (intro backed_keep [OF b]) (auto simp: dequeue_def in_transit_def)
next
  case (relimit w as)
  with in_transit_update [OF relimit(2), of "sysL t" "(lTable (sysL s) ! w)\<lparr>wAuths := as\<rparr>" k] show ?thesis
    by (intro backed_keep [OF b]) auto
qed

text \<open>The slots of a process form a system with this invariant.\<close>

definition slots_inv :: "coordinator set \<Rightarrow> (auth \<Rightarrow> bool) \<Rightarrow> string \<Rightarrow> int \<Rightarrow> int \<Rightarrow> sys \<Rightarrow> bool" where
  "slots_inv V ok k lo hi s \<longleftrightarrow>
     base_inv ok s \<and>
     (limits_in ok k lo hi \<longrightarrow>
        (shares_ok V \<longrightarrow> under_limit k hi s) \<and> (V \<subseteq> {None} \<longrightarrow> no_idle k lo s)) \<and>
     (None \<notin> V \<longrightarrow> (\<forall>a. ok a \<and> aID a = k \<longrightarrow> 0 < ConcurrencyLimit a) \<longrightarrow> backed k s)"

lemma slots_inv_initial: "initial s \<Longrightarrow> slots_inv V ok k lo hi s"
  by (simp add: initial_def slots_inv_def base_inv_def table_ok_def queues_ok_def waiting_def counted_def pending_ok_def newLimiter_def
      in_transit_def reserved_def unsettled_def under_limit_def limits_in_def no_idle_def backed_def)

interpretation slots: invariant_system initial "lstep V ok" "slots_inv V ok k lo hi" for V ok k lo hi
proof unfold_locales
  show "slots_inv V ok k lo hi s" if "initial s" for s using that by (rule slots_inv_initial)
  show "slots_inv V ok k lo hi t" if "slots_inv V ok k lo hi s" "lstep V ok s t" for s t
  proof -
    have inv: "base_inv ok s" using that(1) by (simp add: slots_inv_def)
    show ?thesis
      using that(1) base_step [OF inv that(2)] under_limit_step [OF inv that(2)] no_idle_step [OF inv that(2)] backed_step [OF inv that(2)]
      unfolding slots_inv_def by metis
  qed
qed

section \<open>The operations as runs\<close>

text \<open>Run without interruption, the operations that consist of several atomic steps are runs of the relation.\<close>

abbreviation sys_of :: "limiter \<Rightarrow> string multiset \<Rightarrow> pending multiset \<Rightarrow> string multiset \<Rightarrow> sys" where
  "sys_of l H P R \<equiv> \<lparr>sysL = l, sysHeld = H, sysPending = P, sysRemote = R\<rparr>"

lemma two_steps: "r a b \<Longrightarrow> r b c \<Longrightarrow> r\<^sup>*\<^sup>* a c"
  by (meson converse_rtranclp_into_rtranclp rtranclp.rtrancl_refl)

lemma claim_runs:
  assumes V: "Some co \<in> V" "ok a" and res: "tryAcquireLocked (Some co) l a = (l1, True)"
    and claim: "claimClusterSlot (Some co) l1 a = (l2, b)"
  shows "\<exists>R'. (lstep V ok)\<^sup>*\<^sup>* (sys_of l H P R) (sys_of l2 (H + slot_if b (aID a)) P R')"
proof -
  have 1: "lstep V ok (sys_of l H P R) (sys_of l1 H (add_mset (Asking a) P) R)"
    using lstep.reserve [of co V ok a "sys_of l H P R" l1] V res by simp
  show ?thesis
  proof (cases "ConcurrencyLimit a \<le> 0")
    case True
    have "lstep V ok (sys_of l1 H (add_mset (Asking a) P) R) (sys_of l2 (H + slot_if b (aID a)) P R)"
      using lstep.claim_free [of a "sys_of l1 H (add_mset (Asking a) P) R" "Some co" V ok] V(1) True claim
      by (simp add: claimClusterSlot_def slot_if_def)
    with 1 show ?thesis by (meson two_steps)
  next
    case False
    define answer where "answer = ask_cluster co a"
    define R' where "R' = R + slot_if (answer = Some True) (aID a)"
    have 2: "lstep V ok (sys_of l1 H (add_mset (Asking a) P) R) (sys_of l1 H (add_mset (Answered a answer) P) R')"
      using lstep.ask [of a "sys_of l1 H (add_mset (Asking a) P) R" co V answer ok] V(1) False by (simp add: answer_def R'_def)
    have "lstep V ok (sys_of l1 H (add_mset (Answered a answer) P) R') (sys_of l2 (H + slot_if b (aID a)) P R')"
      using lstep.settle [of a answer "sys_of l1 H (add_mset (Answered a answer) P) R'" co V l2 b ok] V(1) claim False
      by (simp add: claimClusterSlot_def answer_def)
    with two_steps [of "lstep V ok", OF 1 2] show ?thesis by (meson rtranclp.rtrancl_into_rtrancl)
  qed
qed

abbreviation slot_of :: "string option \<Rightarrow> string multiset" where
  "slot_of r \<equiv> (case r of None \<Rightarrow> {#} | Some k \<Rightarrow> {#k#})"

lemma tryAcquireAny_runs:
  assumes "Some co \<in> V" "list_all ok candidates" "tryAcquireAny (Some co) l candidates = (l', r)"
  shows "\<exists>R'. (lstep V ok)\<^sup>*\<^sup>* (sys_of l H P R) (sys_of l' (H + slot_of r) P R')"
  using assms(2,3)
proof (induction candidates arbitrary: l R)
  case Nil
  then show ?case by auto
next
  case (Cons a as)
  obtain l1 b1 where t: "tryAcquireLocked (Some co) l a = (l1, b1)" by (cases "tryAcquireLocked (Some co) l a")
  obtain l2 b where c: "claimClusterSlot (Some co) l1 a = (l2, b)" by (cases "claimClusterSlot (Some co) l1 a")
  show ?case
  proof (cases "aID a = '''' \<or> \<not> b1")
    case True
    then have "tryAcquireAny (Some co) l as = (l', r)"
      using Cons.prems t tryAcquireLocked_False [of "Some co" l a l1] by (cases b1) (auto split: if_split_asm)
    then show ?thesis using Cons.IH [of l R] Cons.prems(1) by simp
  next
    case False
    with t have "tryAcquireLocked (Some co) l a = (l1, True)" by simp
    from claim_runs [where V = V and ok = ok, OF assms(1) _ this c, of H P R] Cons.prems(1) obtain R'
      where R: "(lstep V ok)\<^sup>*\<^sup>* (sys_of l H P R) (sys_of l2 (H + slot_if b (aID a)) P R')" by auto
    show ?thesis
    proof (cases b)
      case True
      with R False Cons.prems t c show ?thesis by (auto simp: slot_if_def)
    next
      case b: False
      have "tryAcquireAny (Some co) l2 as = (l', r)" using Cons.prems False t c b by simp
      with Cons.IH [of l2 R'] Cons.prems(1) obtain R'' where "(lstep V ok)\<^sup>*\<^sup>* (sys_of l2 H P R') (sys_of l' (H + slot_of r) P R'')" by auto
      with R b show ?thesis by (auto simp: slot_if_def intro: rtranclp_trans)
    qed
  qed
qed

lemma tryAcquireAny_table: "tryAcquireAny c l as = (l', r) \<Longrightarrow> lTable l' = lTable l"
proof (induction as arbitrary: l)
  case (Cons a as)
  obtain l1 b1 where t: "tryAcquireLocked c l a = (l1, b1)" by (cases "tryAcquireLocked c l a")
  obtain l2 b where cl: "claimClusterSlot c l1 a = (l2, b)" by (cases "claimClusterSlot c l1 a")
  have "lTable l1 = lTable l" using t by (auto simp: tryAcquireLocked_def Let_def split: if_split_asm)
  moreover have "lTable l2 = lTable l1"
    using cl settle_claim_facts(1) by (auto simp: claimClusterSlot_def split: option.split_asm if_split_asm)
  ultimately show ?case using Cons t cl by (auto split: if_split_asm bool.split_asm)
qed simp

lemma AcquireSlot_runs:
  assumes "c \<in> V" "ok a" "AcquireSlot c l a = (l', r)"
  shows "\<exists>R'. (lstep V ok)\<^sup>*\<^sup>* (sys_of l H P R) (sys_of l' (H + (case r of Inl e \<Rightarrow> {#} | Inr k \<Rightarrow> {#k#})) P R')"
proof (cases c)
  case None
  show ?thesis
  proof (cases r)
    case (Inl e)
    then have "l' = l" using None assms(3) by (auto simp: AcquireSlot_def split: prod.split_asm bool.split_asm dest: tryAcquireLocked_False)
    then show ?thesis using Inl by auto
  next
    case (Inr k)
    have "lstep V ok (sys_of l H P R) (sys_of l' (add_mset k H) P R)"
      using lstep.acquire [of V ok a "sys_of l H P R" l' k] assms None Inr by simp
    then show ?thesis using Inr by auto
  qed
next
  case (Some co)
  obtain l1 r1 where t: "tryAcquireAny c l [a] = (l1, r1)" by (cases "tryAcquireAny c l [a]")
  with tryAcquireAny_runs [of co V ok "[a]" l l1 r1 H P R] assms(1,2) Some obtain R'
    where R: "(lstep V ok)\<^sup>*\<^sup>* (sys_of l H P R) (sys_of l1 (H + slot_of r1) P R')" by auto
  have "l' = l1 \<and> (case r of Inl e \<Rightarrow> {#} | Inr k \<Rightarrow> {#k#}) = slot_of r1"
    using assms(3) t Some by (auto simp: AcquireSlot_def acquireSlotCluster_def split: option.split_asm)
  then show ?thesis using R by metis
qed

lemma acquireOrEnqueueCluster_runs:
  assumes V: "Some co \<in> V" "list_all (\<lambda>a. ok a \<and> aID a \<noteq> '''') candidates" "candidates \<noteq> []"
    and acq: "acquireOrEnqueueCluster (Some co) l candidates timeout depth = (l', r)"
  shows "\<exists>R'. (lstep V ok)\<^sup>*\<^sup>* (sys_of l H P R) (sys_of l' (H + (case r of GotSlot k \<Rightarrow> {#k#} | _ \<Rightarrow> {#})) P R')"
proof -
  obtain l1 r1 where t: "tryAcquireAny (Some co) l candidates = (l1, r1)" by (cases "tryAcquireAny (Some co) l candidates")
  have ok: "list_all ok candidates" using V(2) by (simp add: list_all_iff)
  from tryAcquireAny_runs [OF V(1) ok t] obtain R'
    where R: "(lstep V ok)\<^sup>*\<^sup>* (sys_of l H P R) (sys_of l1 (H + slot_of r1) P R')" by blast
  have err: "l2 = l1" if "enqueueLocked (Some co) l1 candidates depth = (l2, Inl e)" for l2 e
    using that by (auto simp: enqueueLocked_def Let_def split: if_split_asm)
  consider "l' = l1" "(case r of GotSlot k \<Rightarrow> {#k#} | _ \<Rightarrow> {#}) = slot_of r1"
    | w where "r1 = None" "enqueueLocked (Some co) l1 candidates depth = (l', Inr w)" "r = Queued w"
    using acq t by (auto simp: acquireOrEnqueueCluster_def split: option.split_asm if_split_asm prod.split_asm sum.split_asm dest: err)
  then show ?thesis
  proof cases
    case 1
    then show ?thesis using R by metis
  next
    case (2 w)
    then have "lstep V ok (sys_of l1 (H + slot_of r1) P R') (sys_of l' (H + slot_of r1) P R')"
      using lstep.enqueue [of co V ok candidates "sys_of l1 (H + slot_of r1) P R'" depth l' w] V by simp
    with R have "(lstep V ok)\<^sup>*\<^sup>* (sys_of l H P R) (sys_of l' (H + slot_of r1) P R')" by (rule rtranclp.rtrancl_into_rtrancl)
    then show ?thesis using 2 by auto
  qed
qed

text \<open>A request that stops waiting, and one that takes the slot it was handed.\<close>

lemma quit_runs:
  assumes "w < length (lTable l)" "abandon l w = (l1, True)"
  shows "(lstep V ok)\<^sup>*\<^sup>* (sys_of l H P R) (sys_of (dequeue l1 w) H P R)"
proof -
  have l1: "length (lTable l1) = length (lTable l)" "wClaimed (lTable l1 ! w)"
    using assms by (auto simp: abandon_def split: if_split_asm)
  have "lstep V ok (sys_of l H P R) (sys_of l1 H P R)" using lstep.quit [of w "sys_of l H P R" l1 V ok] assms by simp
  moreover have "lstep V ok (sys_of l1 H P R) (sys_of (dequeue l1 w) H P R)" using lstep.leave [of w "sys_of l1 H P R" V ok] assms l1 by simp
  ultimately show ?thesis by (rule two_steps)
qed

lemma take_runs:
  assumes "w < length (lTable l)" "receive l w = Some (l1, k)"
  shows "lstep V ok (sys_of l H P R) (sys_of l1 (add_mset k H) P R)"
    and "wClaimed (lTable l ! w) \<Longrightarrow> lstep V ok (sys_of l1 H P R) (sys_of (dequeue l1 w) H P R)"
proof -
  have l1: "length (lTable l1) = length (lTable l)" "wClaimed (lTable l ! w) \<Longrightarrow> wClaimed (lTable l1 ! w)"
    using assms by (auto simp: receive_def split: option.split_asm)
  show "lstep V ok (sys_of l H P R) (sys_of l1 (add_mset k H) P R)" using lstep.take [of w "sys_of l H P R" l1 k V ok] assms by simp
  show "lstep V ok (sys_of l1 H P R) (sys_of (dequeue l1 w) H P R)" if "wClaimed (lTable l ! w)"
    using lstep.leave [of w "sys_of l1 H P R" V ok] assms l1 that by simp
qed

lemma poll_slot_runs:
  assumes V: "Some co \<in> V" "list_all ok candidates" and w: "w < length (lTable l)"
    and poll: "poll_slot (Some co) l w candidates = (l', r, b)"
  shows "\<exists>R'. (lstep V ok)\<^sup>*\<^sup>* (sys_of l H P R) (sys_of l' (H + slot_of r) P R')"
proof -
  obtain l1 r1 where t: "tryAcquireAny (Some co) l candidates = (l1, r1)" by (cases "tryAcquireAny (Some co) l candidates")
  from tryAcquireAny_runs [OF V t] obtain R' where R: "(lstep V ok)\<^sup>*\<^sup>* (sys_of l H P R) (sys_of l1 (H + slot_of r1) P R')" by blast
  have w1: "w < length (lTable l1)" using w tryAcquireAny_table [OF t] by simp
  obtain l2 gone where ab: "abandon l1 w = (l2, gone)" by (cases "abandon l1 w")
  consider "r1 = None \<or> (\<not> gone \<and> receive l2 w = None)" | k where "r1 = Some k" gone
    | k l3 g where "r1 = Some k" "\<not> gone" "receive l2 w = Some (l3, g)" by (cases r1; cases "receive l2 w"; fastforce)
  then show ?thesis
  proof cases
    case 1
    then have "l' = l1 \<and> r = r1" using poll t ab by (auto simp: poll_slot_def abandon_def split: if_split_asm option.split_asm)
    then show ?thesis using R by blast
  next
    case (2 k)
    from quit_runs [OF w1, of l2 V ok "H + slot_of r1" P R'] ab 2(2) R
    have "(lstep V ok)\<^sup>*\<^sup>* (sys_of l H P R) (sys_of (dequeue l2 w) (H + slot_of r1) P R')" by (auto intro: rtranclp_trans)
    then show ?thesis using poll t ab 2 by (auto simp: poll_slot_def)
  next
    case (3 k l3 g)
    have l2: "l2 = l1" "wClaimed (lTable l1 ! w)" using ab 3(2) by (auto simp: abandon_def split: if_split_asm)
    obtain l4 b4 where rel: "ReleaseSlot (Some co) (dequeue l3 w) k = (l4, b4)" by (cases "ReleaseSlot (Some co) (dequeue l3 w) k")
    let ?H = "add_mset g (add_mset k H)"
    have s1: "lstep V ok (sys_of l1 (add_mset k H) P R') (sys_of l3 ?H P R')"
      using take_runs(1) [OF w1, of l3 g V ok "add_mset k H" P R'] 3(3) l2(1) by simp
    have s2: "lstep V ok (sys_of l3 ?H P R') (sys_of (dequeue l3 w) ?H P R')"
      using take_runs(2) [OF w1, of l3 g V ok ?H P R'] 3(3) l2 by simp
    have s3: "lstep V ok (sys_of (dequeue l3 w) ?H P R') (sys_of l4 (add_mset g H) P (R' - slot_if b4 k))"
      using lstep.release [of "Some co" V k "sys_of (dequeue l3 w) ?H P R'" l4 b4 ok] V(1) rel
      by (simp add: add_mset_commute [of g])
    from R have "(lstep V ok)\<^sup>*\<^sup>* (sys_of l H P R) (sys_of l1 (add_mset k H) P R')" using 3(1) by simp
    with s1 s2 s3 have "(lstep V ok)\<^sup>*\<^sup>* (sys_of l H P R) (sys_of l4 (add_mset g H) P (R' - slot_if b4 k))"
      by (meson rtranclp.rtrancl_into_rtrancl)
    then show ?thesis using poll t ab 3 l2 rel by (auto simp: poll_slot_def)
  qed
qed

lemma giveUp_runs:
  assumes w: "w < length (lTable l)" and give: "giveUp c l w candidates cause waited = (l', r)"
  shows "(lstep V ok)\<^sup>*\<^sup>* (sys_of l H P R) (sys_of l' (H + (case r of Some (Inr k) \<Rightarrow> {#k#} | _ \<Rightarrow> {#})) P R)"
proof -
  obtain l1 gone where ab: "abandon l w = (l1, gone)" by (cases "abandon l w")
  show ?thesis
  proof (cases gone)
    case True
    with quit_runs [OF w, of l1 V ok H P R] ab give show ?thesis by (auto simp: giveUp_def Let_def)
  next
    case False
    then have l1: "l1 = l" using ab by (auto simp: abandon_def split: if_split_asm)
    then show ?thesis
      using give ab False take_runs(1) [OF w, of l' _ V ok H P R] by (auto simp: giveUp_def split: option.split_asm)
  qed
qed

section \<open>Properties\<close>

text \<open>
  C1: No concurrency slot is lost and none is granted twice, with or without a coordinator and whatever it answers: however requests reserve,
  queue, poll, time out, are cancelled and release, and however limits change, the in-flight count of an account is the number of slots held by
  running requests, of those just handed to a waiting one, and of reservations that still ask the coordinator. The process holds at the
  coordinator exactly the slots it counts as clustered and those just granted. In a process of a cluster, every slot of an account that always has
  a limit is counted as clustered or as taken while the shared count was out of reach.
\<close>

theorem slots_conserved:
  assumes "initial s" "(lstep V ok)\<^sup>*\<^sup>* s t"
  shows "active (sysL t) k = held t k + in_transit (sysL t) k + reserved t k \<and>
         int (count (sysRemote t) k) = clustered (sysL t) k + unsettled t k \<and>
         (None \<notin> V \<longrightarrow> (\<forall>a. ok a \<and> aID a = k \<longrightarrow> 0 < ConcurrencyLimit a) \<longrightarrow>
            clustered (sysL t) k + unshared (sysL t) k = held t k + in_transit (sysL t) k)"
  using slots.inv_reachable [OF assms, of k 0 0] by (auto simp: slots_inv_def base_inv_def counted_def backed_def)

text \<open>
  C2: Limits may change while requests run and wait. If every limit of an account that a request reads lies between \<open>lo\<close> and \<open>hi\<close>, the account never runs
  more than \<open>hi\<close> requests, in a process on its own as in one of a cluster whose shares do not exceed the limits. A waiting request is in the
  queue of every account it waits for, and in a process on its own it waits only while at least \<open>lo\<close> slots of each are taken: never for an idle account, and
  with a limit that does not change only while the account is exactly full.
\<close>

theorem slots_limit_and_work_conserving:
  assumes "initial s" "(lstep V ok)\<^sup>*\<^sup>* s t" "limits_in ok k lo hi"
  shows "(shares_ok V \<longrightarrow> active (sysL t) k \<le> hi) \<and>
         (\<forall>w. waiting (sysL t) w k \<longrightarrow> w \<in> set (queue (sysL t) k) \<and> (V = {None} \<longrightarrow> lo \<le> active (sysL t) k))"
proof -
  have inv: "slots_inv V ok k lo hi t" by (rule slots.inv_reachable [OF assms(1,2)])
  then have "queues_ok (sysL t)" by (simp add: slots_inv_def base_inv_def)
  with inv assms(3) show ?thesis by (auto simp: slots_inv_def under_limit_def no_idle_def queues_ok_def)
qed

lemma handoff_first:
  assumes "list_all (\<lambda>v. wClaimed (tab ! v)) pre" "\<not> wClaimed (tab ! w)"
    and "\<And>v. v \<in> set (pre @ w # post) \<Longrightarrow> \<not> (0 < effectiveLimit c (limitFor (tab ! v) authID) \<and>
         effectiveLimit c (limitFor (tab ! v) authID) < n)"
  shows "handoff c authID n (pre @ w # post) tab = (post, tab[w := grant (tab ! w) authID], True)"
  using assms by (induction pre) (auto simp: Let_def tryGrant_def)

text \<open>
  Releasing a slot serves the queue of the account in order: unless the account is above its limit, the
  first request in its queue that still waits receives the slot, the in-flight count does not change,
  and only entries of requests already served or gone are skipped.
\<close>

theorem ReleaseSlot_fifo:
  assumes "authID \<noteq> ''''" "0 < active l authID"
    and "queue l authID = pre @ w # post" "list_all (\<lambda>v. wClaimed (lTable l ! v)) pre"
    and "\<not> wClaimed (lTable l ! w)"
    and "\<And>v. v \<in> set (queue l authID) \<Longrightarrow> effectiveLimit c (limitFor (lTable l ! v) authID) \<le> 0 \<or>
              active l authID \<le> effectiveLimit c (limitFor (lTable l ! v) authID)"
  shows "lTable (fst (ReleaseSlot c l authID)) = (lTable l)[w := grant (lTable l ! w) authID] \<and>
         queue (fst (ReleaseSlot c l authID)) authID = post \<and>
         active (fst (ReleaseSlot c l authID)) authID = active l authID"
proof -
  have "handoff c authID (active l authID) (queue l authID) (lTable l) =
      (post, (lTable l)[w := grant (lTable l ! w) authID], True)"
    unfolding assms(3)
  proof (rule handoff_first [OF assms(4,5)])
    fix v assume "v \<in> set (pre @ w # post)"
    with assms(3,6) have "effectiveLimit c (limitFor (lTable l ! v) authID) \<le> 0 \<or>
        active l authID \<le> effectiveLimit c (limitFor (lTable l ! v) authID)" by simp
    then show "\<not> (0 < effectiveLimit c (limitFor (lTable l ! v) authID) \<and>
        effectiveLimit c (limitFor (lTable l ! v) authID) < active l authID)" by linarith
  qed
  then show ?thesis using assms(1,2) by (simp add: ReleaseSlot_def Let_def)
qed

text \<open>A small run: account \<^verbatim>\<open>a\<close> with one slot, taken; a second request waits and is served by the release.\<close>

definition one_slot :: auth where
  "one_slot = sample_auth\<lparr>aAttributes := [(''concurrency'', ''1'')]\<rparr>"

definition demo_ok :: "auth \<Rightarrow> bool" where "demo_ok a \<longleftrightarrow> a = one_slot"

definition demo1 :: limiter where "demo1 = fst (AcquireSlot None newLimiter one_slot)"

definition demo2 :: limiter where "demo2 = fst (acquireOrEnqueue None demo1 [one_slot] 5 0)"

lemma one_slot_facts: "ConcurrencyLimit one_slot = 1" "aID one_slot = ''a''"
  by code_simp+

lemma demo_run: "(lstep {None} demo_ok)\<^sup>*\<^sup>* (sys_of newLimiter {#} {#} {#}) (sys_of demo2 {#''a''#} {#} {#})"
proof -
  have "AcquireSlot None newLimiter one_slot = (demo1, Inr ''a'')" unfolding demo1_def by code_simp
  then have "lstep {None} demo_ok (sys_of newLimiter {#} {#} {#}) (sys_of demo1 {#''a''#} {#} {#})"
    using lstep.acquire [of "{None}" demo_ok one_slot "sys_of newLimiter {#} {#} {#}"] by (simp add: demo_ok_def)
  moreover have "acquireOrEnqueue None demo1 [one_slot] 5 0 = (demo2, Queued 0)" unfolding demo2_def by code_simp
  then have "lstep {None} demo_ok (sys_of demo1 {#''a''#} {#} {#}) (sys_of demo2 {#''a''#} {#} {#})"
    using lstep.acquire_wait [of "{None}" demo_ok "[one_slot]" "sys_of demo1 {#''a''#} {#} {#}" 5 0]
    by (simp add: demo_ok_def one_slot_facts)
  ultimately show ?thesis by (rule two_steps)
qed

text \<open>The same account in a cluster of two processes: the reservation is granted by the coordinator and becomes a slot.\<close>

definition demo_co :: coord where
  "demo_co = \<lparr>coShared = True, coNodeShare = (\<lambda>n. splitLimit n 2), coAcquire = (\<lambda>_ _. Some True)\<rparr>"

definition demo3 :: limiter where "demo3 = fst (tryAcquireLocked (Some demo_co) newLimiter one_slot)"

definition demo4 :: limiter where "demo4 = fst (settle_claim demo_co (Some True) demo3 one_slot)"

lemma demo_cluster_run: "(lstep {Some demo_co} demo_ok)\<^sup>*\<^sup>* (sys_of newLimiter {#} {#} {#}) (sys_of demo4 {#''a''#} {#} {#''a''#})"
proof -
  let ?lstep = "lstep {Some demo_co} demo_ok"
  have r: "tryAcquireLocked (Some demo_co) newLimiter one_slot = (demo3, True)" unfolding demo3_def by code_simp
  have 1: "?lstep (sys_of newLimiter {#} {#} {#}) (sys_of demo3 {#} {#Asking one_slot#} {#})"
    using lstep.reserve [of demo_co "{Some demo_co}" demo_ok one_slot "sys_of newLimiter {#} {#} {#}" demo3] r by (simp add: demo_ok_def)
  have a: "ask_cluster demo_co one_slot = Some True" by (simp add: ask_cluster_def demo_co_def)
  have 2: "?lstep (sys_of demo3 {#} {#Asking one_slot#} {#}) (sys_of demo3 {#} {#Answered one_slot (Some True)#} {#''a''#})"
    using lstep.ask [of one_slot "sys_of demo3 {#} {#Asking one_slot#} {#}" demo_co "{Some demo_co}" "Some True" demo_ok] a
    by (simp add: one_slot_facts slot_if_def)
  have s: "settle_claim demo_co (Some True) demo3 one_slot = (demo4, True)" unfolding demo4_def by code_simp
  have 3: "?lstep (sys_of demo3 {#} {#Answered one_slot (Some True)#} {#''a''#}) (sys_of demo4 {#''a''#} {#} {#''a''#})"
    using lstep.settle [of one_slot "Some True" "sys_of demo3 {#} {#Answered one_slot (Some True)#} {#''a''#}" demo_co "{Some demo_co}" demo4 True demo_ok] s
    by (simp add: one_slot_facts slot_if_def)
  show ?thesis using two_steps [of ?lstep, OF 1 2] 3 by (rule rtranclp.rtrancl_into_rtrancl)
qed

theorem slots_conserved_witness:
  "active demo4 ''a'' = 1 \<and> clustered demo4 ''a'' = 1 \<and> unshared demo4 ''a'' = 0 \<and>
   active demo4 ''a'' = int (count {#''a''#} ''a'') + in_transit demo4 ''a'' + reserved (sys_of demo4 {#''a''#} {#} {#''a''#}) ''a'' \<and>
   clustered demo4 ''a'' + unshared demo4 ''a'' = int (count {#''a''#} ''a'') + in_transit demo4 ''a''"
proof -
  have "active demo4 ''a'' = 1" "clustered demo4 ''a'' = 1" "unshared demo4 ''a'' = 0" by code_simp+
  moreover have "demo_ok a \<and> aID a = ''a'' \<longrightarrow> 0 < ConcurrencyLimit a" for a by (simp add: demo_ok_def one_slot_facts)
  ultimately show ?thesis using slots_conserved [OF _ demo_cluster_run, of "''a''"] by (auto simp: initial_def)
qed

theorem slots_limit_and_work_conserving_witness:
  "active demo2 ''a'' \<le> 1 \<and> 1 \<le> active demo2 ''a'' \<and> waiting demo2 0 ''a'' \<and> 0 \<in> set (queue demo2 ''a'')"
proof -
  have "waiting demo2 0 ''a''" unfolding waiting_def by code_simp
  moreover have "limits_in demo_ok ''a'' 1 1" by (simp add: limits_in_def demo_ok_def one_slot_facts)
  moreover have "shares_ok {None}" by (simp add: shares_ok_def)
  moreover have "initial (sys_of newLimiter {#} {#} {#})" by (simp add: initial_def)
  ultimately show ?thesis
    using slots_limit_and_work_conserving [OF _ demo_run, of "''a''" 1 1] by force
qed

theorem ReleaseSlot_fifo_witness:
  "wGranted (lTable (fst (ReleaseSlot None demo2 ''a'')) ! 0) = Some ''a'' \<and> active (fst (ReleaseSlot None demo2 ''a'')) ''a'' = 1"
proof -
  have q: "queue demo2 ''a'' = [] @ 0 # []" "0 < active demo2 ''a''" "\<not> wClaimed (lTable demo2 ! 0)"
    "active demo2 ''a'' = 1" "effectiveLimit None (limitFor (lTable demo2 ! 0) ''a'') = 1"
    "length (lTable demo2) = 1" by code_simp+
  with ReleaseSlot_fifo [of "''a''" demo2 "[]" 0 "[]" None] show ?thesis by simp
qed

text \<open>
  A request that gives up at the moment a slot is handed to it takes the slot but stays in the queues of the
  other accounts it asked for: with a queue depth of one, the next request for such an account is turned
  away although nobody waits there.
\<close>

theorem giveUp_leaves_stale_entry:
  "let a = one_slot; b = one_slot\<lparr>aID := ''b''\<rparr>;
       l1 = fst (AcquireSlot None (fst (AcquireSlot None newLimiter a)) b);
       (l2, r2) = acquireOrEnqueue None l1 [a, b] 5 1;
       l3 = fst (ReleaseSlot None l2 ''a'');
       (l4, r4) = giveUp None l3 0 [a, b] None 5
   in r2 = Queued 0 \<and> r4 = Some (Inr ''a'') \<and> wClaimed (lTable l4 ! 0) \<and> QueueDepth l4 ''b'' = 1 \<and>
      snd (acquireOrEnqueue None l4 [b] 5 1) = Saturated (saturatedErrorLocked None l4 b 0)"
  by code_simp

end
