(* ===== verification/Selection.thy ===== *)
theory Selection
  imports Session_Sticky Concurrency Auth_Cooldown
begin

text \<open>
  How the conductor picks the credential of a request: \<^verbatim>\<open>src/sdk/cliproxy/auth/conductor_selector_service.go\<close>,
  \<^verbatim>\<open>selection_diagnostics.go\<close>, the selector choice of \<^verbatim>\<open>conductor_selection.go\<close> and the lookups of
  \<^verbatim>\<open>conductor_runtime_snapshot.go\<close> and \<^verbatim>\<open>conductor_registry.go\<close> it makes.

  The manager is a record of the tables these functions read. An executor is represented by the presence of its key.
  The digest behind the index of a credential is the argument \<open>mgDigest\<close>.
\<close>

section \<open>The manager and the scope of a request\<close>

record manager =
  mgAuths :: "(string, auth option) gomap"
  mgConfigs :: "(string, routing_config) gomap"
  mgExecutors :: "string list"
  mgTenantExecutors :: "(string, string list) gomap"
  mgRegistry :: "model_registry option"
  mgDiscovered :: "string \<Rightarrow> string \<Rightarrow> bool"
  mgCoord :: coordinator
  mgLimiter :: limiter
  mgDigest :: "string \<Rightarrow> string"

record options =
  opMeta :: "(string, goany) gomap"
  opAlt :: string
  opFormat :: string
  opBodyKey :: string

record selection_scope =
  scoTenantID :: string
  scoCfg :: "routing_config option"
  scoModel :: string
  scoModelKey :: string
  scoPinned :: string
  scoChannels :: "string set"
  scoGroups :: "string set"
  scoRouteGroup :: string
  scoFallback :: string

definition emptyRuntimeConfigSnapshot :: routing_config where
  "emptyRuntimeConfigSnapshot = \<lparr>rcStrategy = '''', rcIncludeDefaultGroup = False, rcChannelGroups = []\<rparr>"

definition currentRuntimeConfigForTenant :: "manager \<Rightarrow> string \<Rightarrow> routing_config" where
  "currentRuntimeConfigForTenant m tenantID =
     map_get emptyRuntimeConfigSnapshot (mgConfigs m) (normalizedTenantID tenantID)"

definition executorForTenant :: "manager \<Rightarrow> string \<Rightarrow> string \<Rightarrow> bool" where
  "executorForTenant m tenantID0 provider0 =
     (let tenantID = normalizedTenantID tenantID0;
          provider = to_lower (trim_space provider0)
      in if tenantID = defaultTenantID then provider \<in> set (mgExecutors m)
         else provider \<in> set (map_get [] (mgTenantExecutors m) tenantID))"

definition normalizeSelectionModelKey :: "string \<Rightarrow> string" where
  "normalizeSelectionModelKey model0 =
     (let model = trim_space model0
      in if model = '''' then ''''
         else let name = ModelName (parseModelSuffix model) in if name \<noteq> '''' then trim_space name else model)"

definition newSelectionScope :: "routing_config \<Rightarrow> string \<Rightarrow> (string, goany) gomap \<Rightarrow> selection_scope" where
  "newSelectionScope cfg model meta =
     \<lparr>scoTenantID = tenantIDFromMetadata meta, scoCfg = Some cfg, scoModel = model,
      scoModelKey = normalizeSelectionModelKey model, scoPinned = pinnedAuthIDFromMetadata meta,
      scoChannels = allowedChannelsFromMetadata meta, scoGroups = allowedChannelGroupsFromMetadata meta,
      scoRouteGroup = routeGroupFromMetadata meta, scoFallback = routeFallbackFromMetadata meta\<rparr>"

definition initialRouteGroup :: "selection_scope \<Rightarrow> string" where
  "initialRouteGroup sc = effectiveRouteGroupForSelection (scoCfg sc) (scoRouteGroup sc) (scoGroups sc) (scoModelKey sc)"

definition fallbackRouteGroup :: "selection_scope \<Rightarrow> string" where
  "fallbackRouteGroup sc =
     (if scoRouteGroup sc = '''' \<or> scoFallback sc \<noteq> ''default'' then ''''
      else defaultRouteGroupForSelection (scoCfg sc) (scoModelKey sc))"

definition routeGroupsToTry :: "selection_scope \<Rightarrow> string list" where
  "routeGroupsToTry sc =
     (let initial = initialRouteGroup sc; fallback = fallbackRouteGroup sc
      in if fallback = '''' \<or> fallback = initial then [initial] else [initial, fallback])"

definition allowsCandidate :: "manager \<Rightarrow> selection_scope \<Rightarrow> auth \<Rightarrow> string \<Rightarrow> string set \<Rightarrow> bool" where
  "allowsCandidate m sc a scopedRouteGroup tried =
     (if aDisabled a \<or> aStatus a = StatusDisabled then False
      else if normalizedTenantID (aTenantID a) \<noteq> scoTenantID sc then False
      else if scoPinned sc \<noteq> '''' \<and> aID a \<noteq> scoPinned sc then False
      else if \<not> authAllowedByChannels a (scoChannels sc) then False
      else if \<not> authAllowedByGroups (scoCfg sc) a (scoGroups sc) then False
      else if scopedRouteGroup \<noteq> '''' \<and> \<not> authInRouteGroup (scoCfg sc) a scopedRouteGroup then False
      else if aID a \<in> tried then False
      else if scoModelKey sc \<noteq> '''' \<and>
        \<not> candidateSupportsModel (mgDiscovered m) (scoCfg sc) (mgRegistry m) a (scoModelKey sc) scopedRouteGroup (scoGroups sc)
      then False
      else True)"

definition buildCandidatesLocked ::
  "manager \<Rightarrow> selection_scope \<Rightarrow> string \<Rightarrow> string set \<Rightarrow> (auth \<Rightarrow> bool) \<Rightarrow> auth list" where
  "buildCandidatesLocked m sc grp tried incl =
     map (\<lambda>a. prepareCandidateForSelection (scoCfg sc) a grp (scoGroups sc))
       (filter (\<lambda>a. allowsCandidate m sc a grp tried \<and> incl a) (List.map_filter snd (mgAuths m)))"

section \<open>Scheduling settings for the selector\<close>

fun frac_digits :: "nat \<Rightarrow> rat \<Rightarrow> string" where
  "frac_digits 0 r = ''''"
| "frac_digits (Suc n) r =
     (if r = 0 then '''' else char_of (48 + nat \<lfloor>10 * r\<rfloor>) # frac_digits n (10 * r - of_int \<lfloor>10 * r\<rfloor>))"

text \<open>\<^verbatim>\<open>strconv.FormatFloat(x, 'f', -1, 64)\<close> for \<open>x > 0\<close>: the decimal notation, of at most seventeen decimals.\<close>

definition format_float :: "rat \<Rightarrow> string" where
  "format_float x =
     (let d = frac_digits 17 (x - of_int \<lfloor>x\<rfloor>) in itoa \<lfloor>x\<rfloor> @ (if d = '''' then '''' else ''.'' @ d))"

definition optionsForSelectionScope :: "options \<Rightarrow> string \<Rightarrow> group_scheduling \<Rightarrow> options" where
  "optionsForSelectionScope opts routeGroup sch =
     (let m0 = opMeta opts;
          m1 = (if routeGroup \<noteq> '''' then map_put ''route_group'' (AStr routeGroup) m0 else map_del ''route_group'' m0);
          m2 = map_put ''scheduling_distribution'' (AStr (gsDistribution sch)) m1;
          st = gsSticky sch;
          m3 = (if stEnabled st then map_put ''sticky_enabled'' (AStr ''true'') m2 else m2);
          m4 = (if stEnabled st \<and> 0 < stMaxRequests st
                then map_put ''sticky_max_requests'' (AStr (itoa (stMaxRequests st))) m3 else m3);
          m5 = (if stEnabled st \<and> 0 < stReleaseAtLoad st
                then map_put ''sticky_release_at_load'' (AStr (format_float (stReleaseAtLoad st))) m4 else m4)
      in opts\<lparr>opMeta := m5\<rparr>)"

text \<open>\<^verbatim>\<open>selectorForRoutingScopeLocked\<close> followed by \<^verbatim>\<open>Pick\<close>: stickiness wraps the distribution mode of the group.\<close>

definition scoped_Pick ::
  "sched_env \<Rightarrow> group_scheduling \<Rightarrow> options \<Rightarrow> string \<Rightarrow> string \<Rightarrow> sched \<Rightarrow> gotime \<Rightarrow> auth list \<Rightarrow>
   sched \<times> (pick_error + auth)" where
  "scoped_Pick env sch opts provider model =
     (if stEnabled (gsSticky sch)
      then SessionSticky_Pick env (opMeta opts) (opFormat opts) (opBodyKey opts) provider model
      else distribution_Pick env (gsDistribution sch) (opMeta opts) provider model)"

section \<open>Why nothing was found\<close>

definition hex_digit :: "nat \<Rightarrow> char" where
  "hex_digit n = (if n < 10 then char_of (48 + n) else char_of (87 + n))"

definition quote_char :: "char \<Rightarrow> string" where
  "quote_char c =
     (let n = (of_char c :: nat)
      in if n = 34 then [char_of (92 :: nat), char_of (34 :: nat)]
         else if n = 92 then [char_of (92 :: nat), char_of (92 :: nat)]
         else case map_of [(7, CHR ''a''), (8, CHR ''b''), (9, CHR ''t''), (10, CHR ''n''), (11, CHR ''v''),
                           (12, CHR ''f''), (13, CHR ''r'')] n of
                Some e \<Rightarrow> [char_of (92 :: nat), e]
              | None \<Rightarrow> if n < 32 \<or> 126 < n
                        then [char_of (92 :: nat), CHR ''x'', hex_digit (n div 16), hex_digit (n mod 16)] else [c])"

text \<open>The verb \<^verbatim>\<open>%q\<close>, on ASCII.\<close>

definition quote :: "string \<Rightarrow> string" where
  "quote s = [char_of (34 :: nat)] @ concat (map quote_char s) @ [char_of (34 :: nat)]"

definition describeScopeNames :: "string set \<Rightarrow> string" where
  "describeScopeNames names = (if names = {} then ''none'' else join '', '' (map quote (sorted_list_of_set names)))"

definition candidateServesModel :: "model_registry option \<Rightarrow> auth \<Rightarrow> string \<Rightarrow> bool" where
  "candidateServesModel registryRef a modelID =
     (case registryRef of None \<Rightarrow> True
      | Some r \<Rightarrow> if mrModels r (aID a) = [] then \<not> authHasDisableAllModelsRule a else mrSupports r (aID a) modelID)"

definition blocking :: "(string \<Rightarrow> string \<Rightarrow> bool) \<Rightarrow> string \<Rightarrow> string \<Rightarrow> string set \<Rightarrow> channel_group \<Rightarrow> bool" where
  "blocking discovered tenantID modelID scoped g \<longleftrightarrow>
     normalizeGroupName (cgName g) \<in> scoped \<and> \<not> (cgAllowedModels g = [] \<and> cgExcludedModels g = []) \<and>
     \<not> routingGroupModelAllowed discovered (normalizeGroupName (cgName g)) (cgAllowedModels g) (cgExcludedModels g)
         modelID tenantID"

definition blockingRouteGroups ::
  "(string \<Rightarrow> string \<Rightarrow> bool) \<Rightarrow> routing_config option \<Rightarrow> string \<Rightarrow> string \<Rightarrow> string set \<Rightarrow> string \<Rightarrow> string set \<Rightarrow>
   string list \<times> string list" where
  "blockingRouteGroups discovered cfg tenantID modelID candidateGroups routeGroup allowedGroups =
     (case cfg of None \<Rightarrow> ([], [])
      | Some c \<Rightarrow>
          let scoped = scopedRouteGroupNames candidateGroups routeGroup allowedGroups;
              bs = filter (blocking discovered tenantID modelID scoped) (rcChannelGroups c)
          in if candidateGroups = {} \<or> scoped = {} then ([], [])
             else (map cgName (filter (\<lambda>g. ChannelGroupExcludesModel (cgExcludedModels g) modelID) bs),
                   map cgName (filter (\<lambda>g. \<not> ChannelGroupExcludesModel (cgExcludedModels g) modelID) bs)))"

record rejection =
  rjBlocked :: "string set"
  rjExcluded :: "string set"
  rjSawTenant :: bool
  rjSawServing :: bool
  rjByChannels :: bool
  rjByGroups :: bool
  rjServingGroups :: "string set"

definition reject_step ::
  "manager \<Rightarrow> selection_scope \<Rightarrow> string \<Rightarrow> (auth \<Rightarrow> bool) \<Rightarrow> auth \<Rightarrow> rejection \<Rightarrow> rejection" where
  "reject_step m sc grp incl a r =
     (if aDisabled a \<or> aStatus a = StatusDisabled \<or> normalizedTenantID (aTenantID a) \<noteq> scoTenantID sc \<or> \<not> incl a
      then r
      else
        let r1 = r\<lparr>rjSawTenant := True\<rparr>;
            r2 = r1\<lparr>rjSawServing := True\<rparr>;
            groups = authGroups (scoCfg sc) a;
            (excludedBy, notAllowedBy) =
              blockingRouteGroups (mgDiscovered m) (scoCfg sc) (aTenantID a) (scoModelKey sc) groups grp (scoGroups sc)
        in if \<not> candidateServesModel (mgRegistry m) a (scoModelKey sc) then r1
           else if \<not> authAllowedByChannels a (scoChannels sc) then r2\<lparr>rjByChannels := True\<rparr>
           else if \<not> authAllowedByGroups (scoCfg sc) a (scoGroups sc)
           then r2\<lparr>rjByGroups := True, rjServingGroups := rjServingGroups r2 \<union> groups\<rparr>
           else if modelAllowedByRoutingGroupScopes (mgDiscovered m) (scoCfg sc) (aTenantID a) (scoModelKey sc) groups grp
             (scoGroups sc) then r2
           else r2\<lparr>rjExcluded := rjExcluded r2 \<union> set excludedBy, rjBlocked := rjBlocked r2 \<union> set notAllowedBy\<rparr>)"

definition refuse :: "string \<Rightarrow> string \<Rightarrow> int \<Rightarrow> error" where
  "refuse code message status =
     \<lparr>eCode = code, eMessage = message, eRetryable = False, eHTTPStatus = status, eQuotaWindow = '''', eQuotaWindowMinutes = 0\<rparr>"

definition rejection_error :: "selection_scope \<Rightarrow> rejection \<Rightarrow> error option" where
  "rejection_error sc r =
     (let model = quote (scoModelKey sc)
      in if \<not> rjSawTenant r then None
         else if rjSawServing r \<and> rjByGroups r then
           Some (refuse ''model_outside_allowed_channel_groups''
             (''model '' @ model @ '' is served by credentials in channel group '' @ describeScopeNames (rjServingGroups r) @
              '', which this credential may not use (allowed: '' @ describeScopeNames (scoGroups sc) @
              ''); add a serving group to the allowed channel groups, or move a serving account into an allowed one'') 0)
         else if rjSawServing r \<and> rjByChannels r then
           Some (refuse ''model_outside_allowed_channels''
             (''model '' @ model @ '' is served only by credentials outside the channels this credential may use ('' @
              describeScopeNames (scoChannels sc) @ ''); widen the allowed channels or use an account in one of them'') 0)
         else if rjExcluded r = {} \<and> rjBlocked r = {} then None
         else Some (refuse ''model_not_allowed_by_channel_group''
           (if rjExcluded r = {} then
              ''model '' @ model @ '' is not in the allowed models of channel group '' @ describeScopeNames (rjBlocked r) @
              ''; add it there or route the request to a group that permits it''
            else if rjBlocked r = {} then
              ''model '' @ model @ '' is excluded by channel group '' @ describeScopeNames (rjExcluded r) @
              ''; remove it from the group's excluded models or route the request to a group that permits it''
            else
              ''model '' @ model @ '' is excluded by channel group '' @ describeScopeNames (rjExcluded r) @
              '' and not in the allowed models of channel group '' @ describeScopeNames (rjBlocked r) @
              ''; change the group's model list or route the request to a group that permits it'') 0))"

definition no_rejection :: rejection where
  "no_rejection = \<lparr>rjBlocked = {}, rjExcluded = {}, rjSawTenant = False, rjSawServing = False, rjByChannels = False,
                   rjByGroups = False, rjServingGroups = {}\<rparr>"

definition diagnoseEmptyCandidates ::
  "manager \<Rightarrow> selection_scope \<Rightarrow> string \<Rightarrow> (auth \<Rightarrow> bool) \<Rightarrow> error option" where
  "diagnoseEmptyCandidates m sc grp incl =
     (if scoModelKey sc = '''' then None
      else rejection_error sc (fold (reject_step m sc grp incl) (List.map_filter snd (mgAuths m)) no_rejection))"

section \<open>Picking\<close>

text \<open>Either the selector fails, or the service refuses with an error of its own.\<close>

datatype select_error = PickFailed pick_error | Refused error

fun pick_groups ::
  "sched_env \<Rightarrow> manager \<Rightarrow> selection_scope \<Rightarrow> string \<Rightarrow> options \<Rightarrow> string set \<Rightarrow> (auth \<Rightarrow> bool) \<Rightarrow> gotime \<Rightarrow>
   string list \<Rightarrow> error option \<Rightarrow> sched \<Rightarrow> sched \<times> (select_error + auth \<times> string)" where
  "pick_groups env m sc provider opts tried incl now [] diagnosis s =
     (s, Inl (Refused (case diagnosis of Some e \<Rightarrow> e
        | None \<Rightarrow>
            if opAlt opts = ''alpha/search''
            then refuse ''alpha_search_auth_unavailable''
              ''no eligible Codex Alpha Search credential for this model and scope; use Codex OAuth or an API key with alpha-search enabled and a base-url''
              503
            else refuse ''auth_not_found'' ''no auth available'' 0)))"
| "pick_groups env m sc provider opts tried incl now (grp # grps) diagnosis s =
     (let candidates = buildCandidatesLocked m sc grp tried incl
      in if candidates = [] then
           pick_groups env m sc provider opts tried incl now grps
             (case diagnosis of None \<Rightarrow> diagnoseEmptyCandidates m sc grp incl | Some e \<Rightarrow> Some e) s
         else
           let sch = scopedScheduling (scoCfg sc) grp (scoGroups sc)
           in case scoped_Pick env sch (optionsForSelectionScope opts grp sch) provider (scoModel sc) s now
                     (FilterAvailableCandidates (mgCoord m) (mgLimiter m) candidates) of
                (s', Inl e) \<Rightarrow> (s', Inl (PickFailed e))
              | (s', Inr a) \<Rightarrow> (s', Inr (a, grp)))"

definition pickLocked ::
  "sched_env \<Rightarrow> manager \<Rightarrow> selection_scope \<Rightarrow> string \<Rightarrow> options \<Rightarrow> string set \<Rightarrow> (auth \<Rightarrow> bool) \<Rightarrow> gotime \<Rightarrow>
   sched \<Rightarrow> sched \<times> (select_error + auth \<times> string)" where
  "pickLocked env m sc provider opts tried incl0 now s =
     (let incl = (if opAlt opts = ''alpha/search'' then (\<lambda>a. SupportsCodexAlphaSearch a \<and> incl0 a) else incl0)
      in pick_groups env m sc provider opts tried incl now (routeGroupsToTry sc) None s)"

definition EnsureIndex :: "(string \<Rightarrow> string) \<Rightarrow> auth \<Rightarrow> auth" where
  "EnsureIndex digest a =
     (if aIndexAssigned a \<and> aIndex a \<noteq> '''' then a
      else
        let s1 = trim_space (aFileName a);
            k = trim_space (map_get '''' (aAttributes a) ''api_key'');
            i = trim_space (aID a);
            seed = (if s1 \<noteq> '''' then ''file:'' @ s1 else if k \<noteq> '''' then ''api_key:'' @ k
                    else if i \<noteq> '''' then ''id:'' @ i else '''')
        in if seed = '''' then a else a\<lparr>aIndex := digest (trim_space seed), aIndexAssigned := True\<rparr>)"

definition ensureSelectedAuthIndex :: "manager \<Rightarrow> auth \<Rightarrow> auth \<Rightarrow> manager \<times> auth" where
  "ensureSelectedAuthIndex m authCopy selected =
     (if aIndexAssigned selected then (m, authCopy)
      else (case map_of (mgAuths m) (aID authCopy) of
              Some (Some current) \<Rightarrow>
                if aIndexAssigned current then (m, authCopy)
                else let c = EnsureIndex (mgDigest m) current
                     in (m\<lparr>mgAuths := map_put (aID authCopy) (Some c) (mgAuths m)\<rparr>, Auth_Clone c)
            | _ \<Rightarrow> (m, authCopy)))"

definition pickProvider ::
  "sched_env \<Rightarrow> manager \<Rightarrow> string \<Rightarrow> string \<Rightarrow> options \<Rightarrow> string set \<Rightarrow> gotime \<Rightarrow> sched \<Rightarrow>
   manager \<times> sched \<times> (select_error + auth)" where
  "pickProvider env m provider model opts tried now s =
     (let cfg = currentRuntimeConfigForTenant m (tenantIDFromMetadata (opMeta opts));
          sc = newSelectionScope cfg model (opMeta opts)
      in if \<not> executorForTenant m (scoTenantID sc) provider
         then (m, s, Inl (Refused (refuse ''executor_not_found'' ''executor not registered'' 0)))
         else case pickLocked env m sc provider opts tried (\<lambda>a. aProvider a = provider) now s of
           (s', Inl e) \<Rightarrow> (m, s', Inl e)
         | (s', Inr (a, _)) \<Rightarrow> (case ensureSelectedAuthIndex m (Auth_Clone a) a of (m', c) \<Rightarrow> (m', s', Inr c)))"

definition provider_key :: "auth \<Rightarrow> string" where
  "provider_key a = trim_space (to_lower (aProvider a))"

definition pickMixed ::
  "sched_env \<Rightarrow> manager \<Rightarrow> string list \<Rightarrow> string \<Rightarrow> options \<Rightarrow> string set \<Rightarrow> gotime \<Rightarrow> sched \<Rightarrow>
   manager \<times> sched \<times> (select_error + auth \<times> string)" where
  "pickMixed env m providers model opts tried now s =
     (let cfg = currentRuntimeConfigForTenant m (tenantIDFromMetadata (opMeta opts));
          sc = newSelectionScope cfg model (opMeta opts);
          ps = provider_set providers;
          incl = (\<lambda>a. provider_key a \<noteq> '''' \<and> provider_key a \<in> ps \<and> executorForTenant m (scoTenantID sc) (provider_key a))
      in if ps = {} then (m, s, Inl (Refused (refuse ''provider_not_found'' ''no provider supplied'' 0)))
         else case pickLocked env m sc ''mixed'' opts tried incl now s of
           (s', Inl e) \<Rightarrow> (m, s', Inl e)
         | (s', Inr (a, _)) \<Rightarrow>
             if \<not> executorForTenant m (scoTenantID sc) (provider_key a)
             then (m, s', Inl (Refused (refuse ''executor_not_found'' ''executor not registered'' 0)))
             else (case ensureSelectedAuthIndex m (Auth_Clone a) a of (m', c) \<Rightarrow> (m', s', Inr (c, provider_key a))))"

section \<open>The picked credential respects the scope\<close>

lemma prepareCandidate_frame [simp]:
  "aID (prepareCandidateForSelection cfg a g gs) = aID a"
  "aProvider (prepareCandidateForSelection cfg a g gs) = aProvider a"
  "aIndexAssigned (prepareCandidateForSelection cfg a g gs) = aIndexAssigned a"
  by (simp_all add: prepareCandidateForSelection_def Auth_Clone_def Let_def split: option.split)

lemma Auth_Clone_index [simp]: "aIndexAssigned (Auth_Clone a) = aIndexAssigned a"
  by (simp add: Auth_Clone_def)

lemma EnsureIndex_frame [simp]: "aID (EnsureIndex digest a) = aID a"
  by (simp add: EnsureIndex_def Let_def)

lemma FilterAvailableCandidates_subset:
  "set (FilterAvailableCandidates c l xs) \<subseteq> set xs" "xs \<noteq> [] \<Longrightarrow> FilterAvailableCandidates c l xs \<noteq> []"
  by (auto simp: FilterAvailableCandidates_def Let_def)

interpretation scoped: selector provider model "scoped_Pick env sch opts provider model" "\<lambda>xs. pool_weight xs \<le> maxInt64"
  for env sch opts provider model
  using session_sticky.selector_axioms distribution.selector_axioms by (cases "stEnabled (gsSticky sch)") (simp_all add: scoped_Pick_def)

text \<open>A credential of the manager that a route group of the scope admits.\<close>

definition admitted :: "manager \<Rightarrow> selection_scope \<Rightarrow> string set \<Rightarrow> (auth \<Rightarrow> bool) \<Rightarrow> string \<Rightarrow> auth \<Rightarrow> bool" where
  "admitted m sc tried incl grp x \<longleftrightarrow>
     (\<exists>k. (k, Some x) \<in> set (mgAuths m)) \<and> allowsCandidate m sc x grp tried \<and> incl x"

lemma set_map_filter_snd: "x \<in> set (List.map_filter snd m) \<longleftrightarrow> (\<exists>k. (k, Some x) \<in> set m)"
  by (auto simp: map_filter_def image_iff) force+

lemma buildCandidatesLocked_set:
  "set (buildCandidatesLocked m sc grp tried incl) =
     (\<lambda>x. prepareCandidateForSelection (scoCfg sc) x grp (scoGroups sc)) ` {x. admitted m sc tried incl grp x}"
  by (auto simp: buildCandidatesLocked_def admitted_def set_map_filter_snd)

lemma pick_groups_sound:
  assumes "0 \<le> now" "pick_groups env m sc provider opts tried incl now grps diagnosis s = (s', Inr (a, grp))"
  shows "grp \<in> set grps \<and>
    (\<exists>x. admitted m sc tried incl grp x \<and> a = prepareCandidateForSelection (scoCfg sc) x grp (scoGroups sc)) \<and>
    authParticipatesInSelection a \<and> (\<not> blocked a (scoModel sc) now \<or> optimistic_ok (scoModel sc) now a)"
  using assms(2)
proof (induction grps arbitrary: diagnosis)
  case (Cons g grps)
  show ?case
  proof (cases "buildCandidatesLocked m sc g tried incl = []")
    case True
    with Cons show ?thesis by (auto simp: Let_def)
  next
    case False
    let ?cs = "FilterAvailableCandidates (mgCoord m) (mgLimiter m) (buildCandidatesLocked m sc g tried incl)"
    obtain sch o' where p: "scoped_Pick env sch o' provider (scoModel sc) s now ?cs = (s', Inr a)" and g: "g = grp"
      using False Cons.prems by (auto simp: Let_def split: prod.splits sum.splits)
    from p have p': "snd (scoped_Pick env sch o' provider (scoModel sc) s now ?cs) = Inr a" by simp
    have "a \<in> set (buildCandidatesLocked m sc g tried incl)"
      using scoped.pick_member [OF assms(1) p'] FilterAvailableCandidates_subset(1) by blast
    with scoped.pick_member [OF assms(1) p'] g show ?thesis by (auto simp: buildCandidatesLocked_set)
  qed
qed simp

text \<open>The service refuses only when no route group of the scope admits a credential.\<close>

lemma pick_groups_refused:
  assumes "pick_groups env m sc provider opts tried incl now grps diagnosis s = (s', Inl (Refused e))"
    and "grp \<in> set grps"
  shows "\<not> admitted m sc tried incl grp x"
  using assms
proof (induction grps arbitrary: diagnosis)
  case (Cons g grps)
  have "buildCandidatesLocked m sc g tried incl = []"
    using Cons.prems(1) by (auto simp: Let_def split: if_splits prod.splits sum.splits)
  moreover from this have "\<not> admitted m sc tried incl g x"
    using buildCandidatesLocked_set [of m sc g tried incl] by auto
  ultimately show ?case using Cons by (auto simp: Let_def)
qed simp

text \<open>The table of credentials: every entry is filed under its own name.\<close>

definition manager_wf :: "manager \<Rightarrow> bool" where
  "manager_wf m \<longleftrightarrow> map_wf (mgAuths m) \<and> (\<forall>(k, a) \<in> set (mgAuths m). case a of None \<Rightarrow> True | Some x \<Rightarrow> aID x = k)"

lemma manager_wf_lookup: "manager_wf m \<Longrightarrow> (k, Some x) \<in> set (mgAuths m) \<Longrightarrow> map_of (mgAuths m) (aID x) = Some (Some x)"
  by (fastforce simp: manager_wf_def)

lemma manager_wf_put:
  assumes "manager_wf m" "aID x = k"
  shows "manager_wf (m\<lparr>mgAuths := map_put k (Some x) (mgAuths m)\<rparr>)"
proof -
  have "aID y = j" if "(j, Some y) \<in> set (map_put k (Some x) (mgAuths m))" for j y
    using in_set_map_put [OF that] assms by (fastforce simp: manager_wf_def)
  then show ?thesis using assms(1) by (auto simp: manager_wf_def map_wf_put split: option.split)
qed

lemma ensureSelectedAuthIndex_cases:
  assumes "ensureSelectedAuthIndex m c a = (m', r)"
  obtains "m' = m" "r = c"
  | x where "map_of (mgAuths m) (aID c) = Some (Some x)" "r = Auth_Clone (EnsureIndex (mgDigest m) x)"
      "m' = m\<lparr>mgAuths := map_put (aID c) (Some (EnsureIndex (mgDigest m) x)) (mgAuths m)\<rparr>"
proof (cases "ensureSelectedAuthIndex m c a = (m, c)")
  case False
  then obtain x where x: "map_of (mgAuths m) (aID c) = Some (Some x)" "\<not> aIndexAssigned a" "\<not> aIndexAssigned x"
    unfolding ensureSelectedAuthIndex_def by (cases "map_of (mgAuths m) (aID c)") (auto split: option.splits if_splits)
  with that(2) [OF x(1)] assms(1) show ?thesis by (simp add: ensureSelectedAuthIndex_def Let_def)
qed (use assms(1) that(1) in simp)

lemma ensureSelectedAuthIndex_ids:
  assumes "ensureSelectedAuthIndex m c a = (m', r)" "manager_wf m"
  shows "aID r = aID c \<and> manager_wf m'"
  using assms(1)
proof (cases rule: ensureSelectedAuthIndex_cases)
  case (2 x)
  have "aID x = aID c" using assms(2) map_of_SomeD [OF 2(1)] by (fastforce simp: manager_wf_def)
  with 2 assms(2) manager_wf_put show ?thesis by simp
qed (use assms(2) in simp)

lemma pickMixed_manager:
  assumes "pickMixed env m providers model opts tried now s = (m', s', r)"
  obtains "m' = m"
  | k x where "map_of (mgAuths m) k = Some (Some x)"
      "m' = m\<lparr>mgAuths := map_put k (Some (EnsureIndex (mgDigest m) x)) (mgAuths m)\<rparr>"
proof -
  consider "m' = m" | c a d where "ensureSelectedAuthIndex m c a = (m', d)"
    using assms by (auto simp: pickMixed_def Let_def split: if_splits prod.splits sum.splits)
  then show thesis
  proof cases
    case (2 c a d)
    from 2 that show ?thesis by (cases rule: ensureSelectedAuthIndex_cases) blast+
  qed (use that in blast)
qed

text \<open>What \<^const>\<open>allowsCandidate\<close> asks, in the terms of the request.\<close>

abbreviation request_scope :: "manager \<Rightarrow> string \<Rightarrow> options \<Rightarrow> selection_scope" where
  "request_scope m model opts \<equiv>
     newSelectionScope (currentRuntimeConfigForTenant m (tenantIDFromMetadata (opMeta opts))) model (opMeta opts)"

text \<open>
  The route groups a request may be placed in: the one it is routed to, or, when it names a group and asks for it, the default group.
\<close>

definition placed_in :: "manager \<Rightarrow> string \<Rightarrow> options \<Rightarrow> string \<Rightarrow> bool" where
  "placed_in m model opts grp \<longleftrightarrow>
     grp = initialRouteGroup (request_scope m model opts) \<or>
     routeGroupFromMetadata (opMeta opts) \<noteq> '''' \<and> routeFallbackFromMetadata (opMeta opts) = ''default'' \<and> grp \<noteq> '''' \<and>
     grp = defaultRouteGroupForSelection (Some (currentRuntimeConfigForTenant m (tenantIDFromMetadata (opMeta opts))))
             (normalizeSelectionModelKey model)"

lemma placed_in_groups: "grp \<in> set (routeGroupsToTry (request_scope m model opts)) \<Longrightarrow> placed_in m model opts grp"
  by (auto simp: routeGroupsToTry_def fallbackRouteGroup_def placed_in_def newSelectionScope_def Let_def split: if_splits)

definition in_scope :: "manager \<Rightarrow> string \<Rightarrow> (string, goany) gomap \<Rightarrow> string \<Rightarrow> string set \<Rightarrow> auth \<Rightarrow> bool" where
  "in_scope m model meta grp tried x \<longleftrightarrow>
     (let cfg = Some (currentRuntimeConfigForTenant m (tenantIDFromMetadata meta)) in
      \<not> aDisabled x \<and> aStatus x \<noteq> StatusDisabled \<and> aID x \<notin> tried \<and>
      normalizedTenantID (aTenantID x) = tenantIDFromMetadata meta \<and>
      (pinnedAuthIDFromMetadata meta = '''' \<or> aID x = pinnedAuthIDFromMetadata meta) \<and>
      authAllowedByChannels x (allowedChannelsFromMetadata meta) \<and>
      authAllowedByGroups cfg x (allowedChannelGroupsFromMetadata meta) \<and>
      (grp = '''' \<or> authInRouteGroup cfg x grp) \<and>
      (normalizeSelectionModelKey model = '''' \<or>
       candidateSupportsModel (mgDiscovered m) cfg (mgRegistry m) x (normalizeSelectionModelKey model) grp
         (allowedChannelGroupsFromMetadata meta)))"

lemma allowsCandidate_iff:
  "allowsCandidate m (newSelectionScope (currentRuntimeConfigForTenant m (tenantIDFromMetadata meta)) model meta) x grp tried \<longleftrightarrow>
     in_scope m model meta grp tried x"
  by (auto simp: allowsCandidate_def newSelectionScope_def in_scope_def Let_def)

lemma pickMixed_scope:
  assumes "0 \<le> now" and "manager_wf m"
    and "pickMixed env m providers model opts tried now s = (m', s', Inr (a, provider))"
  shows "\<exists>x grp. map_of (mgAuths m) (aID a) = Some (Some x) \<and> provider = provider_key x \<and>
           provider \<in> provider_set providers \<and> executorForTenant m (tenantIDFromMetadata (opMeta opts)) provider \<and>
           in_scope m model (opMeta opts) grp tried x \<and> manager_wf m' \<and> placed_in m model opts grp"
proof -
  let ?cfg = "currentRuntimeConfigForTenant m (tenantIDFromMetadata (opMeta opts))"
  let ?sc = "newSelectionScope ?cfg model (opMeta opts)"
  have tenant: "scoTenantID ?sc = tenantIDFromMetadata (opMeta opts)" by (simp add: newSelectionScope_def)
  from assms(3) obtain incl s1 c grp where p: "pickLocked env m ?sc ''mixed'' opts tried incl now s = (s1, Inr (c, grp))"
    and inc: "\<And>x. incl x \<Longrightarrow> provider_key x \<in> provider_set providers"
    and c: "executorForTenant m (tenantIDFromMetadata (opMeta opts)) (provider_key c)" "provider = provider_key c"
      "ensureSelectedAuthIndex m (Auth_Clone c) c = (m', a)"
    by (auto simp: pickMixed_def Let_def tenant split: if_splits prod.splits sum.splits)
  from p obtain incl' where "pick_groups env m ?sc ''mixed'' opts tried incl' now (routeGroupsToTry ?sc) None s =
      (s1, Inr (c, grp))" and inc': "\<And>x. incl' x \<Longrightarrow> incl x"
    by (auto simp: pickLocked_def Let_def split: if_splits)
  from pick_groups_sound [OF assms(1) this(1)] obtain x where x: "admitted m ?sc tried incl' grp x"
    and cx: "c = prepareCandidateForSelection (scoCfg ?sc) x grp (scoGroups ?sc)" and g: "placed_in m model opts grp"
    using placed_in_groups by blast
  have ids: "aID a = aID x" "manager_wf m'"
    using ensureSelectedAuthIndex_ids [OF c(3) assms(2)] by (simp_all add: cx)
  have "map_of (mgAuths m) (aID x) = Some (Some x)"
    using x manager_wf_lookup [OF assms(2)] by (auto simp: admitted_def)
  moreover have "in_scope m model (opMeta opts) grp tried x" "provider_key x \<in> provider_set providers"
    using x allowsCandidate_iff inc inc' by (auto simp: admitted_def)
  moreover have "provider_key c = provider_key x" by (simp add: cx provider_key_def)
  ultimately show ?thesis using ids c g by metis
qed

text \<open>
  C28: A pick never leaves the scope of the request. The credential it returns is one of the manager's, enabled, of the
  tenant of the request, of a requested provider that the tenant has an executor for, not tried before; it honours the
  pinned credential, the allowed channels and the allowed channel groups, lies in the route group the request was
  placed in, and serves the model there. The route group is the one the request is routed to or, where the request names a group and
  asks for the fallback, the default group.
\<close>

theorem pickMixed_in_scope:
  assumes "0 \<le> now" and "manager_wf m"
    and "pickMixed env m providers model opts tried now s = (m', s', Inr (a, provider))"
  shows "\<exists>x grp. map_of (mgAuths m) (aID a) = Some (Some x) \<and> provider = provider_key x \<and>
           provider \<in> provider_set providers \<and> executorForTenant m (tenantIDFromMetadata (opMeta opts)) provider \<and>
           in_scope m model (opMeta opts) grp tried x \<and> manager_wf m' \<and> placed_in m model opts grp"
  using assms by (rule pickMixed_scope)

section \<open>A free credential is found\<close>

lemma scoped_finds:
  assumes "0 \<le> now" "a \<in> set cs" "\<not> blocked a model now" "authParticipatesInSelection a" "pool_weight cs \<le> maxInt64"
  shows "\<exists>s' b. scoped_Pick env sch opts provider model s now cs = (s', Inr b)"
proof -
  let ?free = "filter (\<lambda>x. \<not> blocked x model now \<and> authParticipatesInSelection x) cs"
  have av: "getAvailableAuths cs provider model now = Inr (sort_key aID ?free)"
    by (rule available_ready [OF assms(1-4)])
  have "pool_weight (sort_key aID ?free) \<le> maxInt64"
    using pool_weight_filter [of "\<lambda>x. \<not> blocked x model now \<and> authParticipatesInSelection x" cs]
      pool_weight_mset [of "sort_key aID ?free" ?free] assms(5) by simp
  from scoped.pick_available [OF assms(1) av this] show ?thesis by (metis prod.collapse)
qed

lemma FilterAvailableCandidates_keeps:
  "a \<in> set xs \<Longrightarrow> HasAvailableSlot c l a \<Longrightarrow> a \<in> set (FilterAvailableCandidates c l xs)"
  by (auto simp: FilterAvailableCandidates_def HasAvailableSlot_def Let_def filter_empty_conv not_le split: if_splits)

lemma pool_weight_FilterAvailable: "pool_weight (FilterAvailableCandidates c l xs) \<le> pool_weight xs"
  by (simp add: FilterAvailableCandidates_def Let_def pool_weight_filter)

lemma pick_groups_finds:
  assumes "0 \<le> now" and "admitted m sc tried incl grp x"
    and "a = prepareCandidateForSelection (scoCfg sc) x grp (scoGroups sc)"
    and "\<not> blocked a (scoModel sc) now" "authParticipatesInSelection a" "HasAvailableSlot (mgCoord m) (mgLimiter m) a"
    and "pool_weight (buildCandidatesLocked m sc grp tried incl) \<le> maxInt64"
  shows "\<exists>s' b. pick_groups env m sc provider opts tried incl now (grp # grps) diagnosis s = (s', Inr (b, grp))"
proof -
  let ?cs = "buildCandidatesLocked m sc grp tried incl"
  let ?sch = "scopedScheduling (scoCfg sc) grp (scoGroups sc)"
  have a: "a \<in> set ?cs" using assms(2,3) by (auto simp: buildCandidatesLocked_set)
  have w: "pool_weight (FilterAvailableCandidates (mgCoord m) (mgLimiter m) ?cs) \<le> maxInt64"
    using pool_weight_FilterAvailable assms(7) order_trans by blast
  from scoped_finds [OF assms(1) FilterAvailableCandidates_keeps [OF a assms(6)] assms(4,5) w]
  obtain s' b where "scoped_Pick env ?sch (optionsForSelectionScope opts grp ?sch) provider (scoModel sc) s now
      (FilterAvailableCandidates (mgCoord m) (mgLimiter m) ?cs) = (s', Inr b)" by blast
  moreover have "?cs \<noteq> []" using a by auto
  ultimately show ?thesis by (simp add: Let_def)
qed

definition mixed_include :: "manager \<Rightarrow> string list \<Rightarrow> options \<Rightarrow> auth \<Rightarrow> bool" where
  "mixed_include m providers opts a \<longleftrightarrow>
     provider_key a \<in> provider_set providers \<and>
     executorForTenant m (tenantIDFromMetadata (opMeta opts)) (provider_key a) \<and>
     (opAlt opts = ''alpha/search'' \<longrightarrow> SupportsCodexAlphaSearch a)"

lemma provider_set_nonblank: "p \<in> provider_set ps \<Longrightarrow> p \<noteq> ''''"
  by (auto simp: provider_set_def)

lemma pickMixed_groups:
  assumes "provider_set providers \<noteq> {}"
    and "pick_groups env m (request_scope m model opts) ''mixed'' opts tried (mixed_include m providers opts) now
           (routeGroupsToTry (request_scope m model opts)) None s = (s1, r)"
  shows "pickLocked env m (request_scope m model opts) ''mixed'' opts tried
           (\<lambda>a. provider_key a \<noteq> '''' \<and> provider_key a \<in> provider_set providers \<and>
                executorForTenant m (scoTenantID (request_scope m model opts)) (provider_key a)) now s = (s1, r)"
proof -
  have t: "scoTenantID (request_scope m model opts) = tenantIDFromMetadata (opMeta opts)"
    by (simp add: newSelectionScope_def)
  have "(if opAlt opts = ''alpha/search''
     then (\<lambda>a. SupportsCodexAlphaSearch a \<and> provider_key a \<noteq> '''' \<and> provider_key a \<in> provider_set providers \<and>
            executorForTenant m (scoTenantID (request_scope m model opts)) (provider_key a))
     else (\<lambda>a. provider_key a \<noteq> '''' \<and> provider_key a \<in> provider_set providers \<and>
            executorForTenant m (scoTenantID (request_scope m model opts)) (provider_key a))) =
     mixed_include m providers opts"
    using provider_set_nonblank by (auto simp: mixed_include_def t fun_eq_iff)
  then show ?thesis using assms by (simp add: pickLocked_def Let_def)
qed

lemma pickMixed_succeeds:
  assumes "0 \<le> now" and "map_of (mgAuths m) k = Some (Some x)"
    and "grp = initialRouteGroup (request_scope m model opts)" and "in_scope m model (opMeta opts) grp tried x"
    and "mixed_include m providers opts x"
    and "a = prepareCandidateForSelection (scoCfg (request_scope m model opts)) x grp (scoGroups (request_scope m model opts))"
    and "\<not> blocked a model now" "authParticipatesInSelection a" "HasAvailableSlot (mgCoord m) (mgLimiter m) a"
    and "pool_weight (buildCandidatesLocked m (request_scope m model opts) grp tried (mixed_include m providers opts)) \<le> maxInt64"
  shows "\<exists>m' s' b. pickMixed env m providers model opts tried now s = (m', s', Inr b)"
proof -
  let ?sc = "request_scope m model opts"
  have adm: "admitted m ?sc tried (mixed_include m providers opts) grp x"
    using assms(2,4,5) allowsCandidate_iff map_of_SomeD by (fastforce simp: admitted_def)
  have model: "scoModel ?sc = model" by (simp add: newSelectionScope_def)
  have "\<exists>grps. routeGroupsToTry ?sc = grp # grps"
    using assms(3) by (simp add: routeGroupsToTry_def Let_def)
  then obtain grps where grps: "routeGroupsToTry ?sc = grp # grps" by blast
  obtain s1 b where b: "pick_groups env m ?sc ''mixed'' opts tried (mixed_include m providers opts) now
      (routeGroupsToTry ?sc) None s = (s1, Inr (b, grp))"
    using pick_groups_finds [OF assms(1) adm assms(6)] assms(7-10) unfolding grps model by blast
  have ps: "provider_set providers \<noteq> {}" using assms(5) by (auto simp: mixed_include_def)
  obtain y where y: "admitted m ?sc tried (mixed_include m providers opts) grp y"
    "b = prepareCandidateForSelection (scoCfg ?sc) y grp (scoGroups ?sc)"
    using pick_groups_sound [OF assms(1) b] by blast
  have "executorForTenant m (scoTenantID ?sc) (provider_key b)"
    using y by (simp add: admitted_def mixed_include_def newSelectionScope_def provider_key_def)
  with pickMixed_groups [OF ps b] ps show ?thesis
    by (cases "ensureSelectedAuthIndex m (Auth_Clone b) b") (simp add: pickMixed_def Let_def)
qed

text \<open>
  C29: A pick succeeds whenever the first route group of the request admits a credential that is free, has a weight and
  a free concurrency slot: no other credential, saturated, cooling down or excluded, can make it fail.
\<close>

theorem pickMixed_finds:
  assumes "0 \<le> now" and "map_of (mgAuths m) k = Some (Some x)"
    and "grp = initialRouteGroup (request_scope m model opts)" and "in_scope m model (opMeta opts) grp tried x"
    and "mixed_include m providers opts x"
    and "a = prepareCandidateForSelection (scoCfg (request_scope m model opts)) x grp (scoGroups (request_scope m model opts))"
    and "\<not> blocked a model now" "authParticipatesInSelection a" "HasAvailableSlot (mgCoord m) (mgLimiter m) a"
    and "pool_weight (buildCandidatesLocked m (request_scope m model opts) grp tried (mixed_include m providers opts)) \<le> maxInt64"
  shows "\<exists>m' s' b. pickMixed env m providers model opts tried now s = (m', s', Inr b)"
  using assms by (rule pickMixed_succeeds)

definition desk_alice :: auth where
  "desk_alice = alice\<lparr>aIndexAssigned := True\<rparr>"

definition desk :: manager where
  "desk =
     \<lparr>mgAuths = [(''a1'', Some desk_alice), (''b1'', Some (alice\<lparr>aID := ''b1'', aTenantID := ''other''\<rparr>))],
      mgConfigs = [(defaultTenantID, vip_config)], mgExecutors = [''codex''], mgTenantExecutors = [],
      mgRegistry = None, mgDiscovered = (\<lambda>_ _. False), mgCoord = None, mgLimiter = newLimiter, mgDigest = (\<lambda>s. s)\<rparr>"

definition desk_opts :: options where
  "desk_opts = \<lparr>opMeta = [(''route_group'', AStr ''Pro'')], opAlt = '''', opFormat = ''openai'', opBodyKey = ''''\<rparr>"

definition desk_candidate :: auth where
  "desk_candidate = prepareCandidateForSelection (scoCfg (request_scope desk ''gpt-5'' desk_opts)) desk_alice ''pro''
     (scoGroups (request_scope desk ''gpt-5'' desk_opts))"

lemma desk_facts:
  "map_of (mgAuths desk) ''a1'' = Some (Some desk_alice)"
  "''pro'' = initialRouteGroup (request_scope desk ''gpt-5'' desk_opts)"
  "in_scope desk ''gpt-5'' (opMeta desk_opts) ''pro'' {} desk_alice"
  "mixed_include desk [''codex''] desk_opts desk_alice"
  "\<not> blocked desk_candidate ''gpt-5'' 5" "authParticipatesInSelection desk_candidate"
  "HasAvailableSlot (mgCoord desk) (mgLimiter desk) desk_candidate"
  "pool_weight (buildCandidatesLocked desk (request_scope desk ''gpt-5'' desk_opts) ''pro'' {}
     (mixed_include desk [''codex''] desk_opts)) \<le> maxInt64"
  by code_simp+

theorem pickMixed_finds_witness:
  "\<exists>m' s' b. pickMixed (plain_env None) desk [''codex''] ''gpt-5'' desk_opts {} 5 fresh_sched = (m', s', Inr b)"
  using pickMixed_finds [OF _ desk_facts(1-4) desk_candidate_def desk_facts(5-8)] by simp

theorem pickMixed_in_scope_witness:
  "\<exists>m' s' a p. pickMixed (plain_env None) desk [''codex''] ''gpt-5'' desk_opts {} 5 fresh_sched = (m', s', Inr (a, p)) \<and>
     aID a = ''a1'' \<and> p = ''codex''"
proof -
  obtain m' s' a p where pick: "pickMixed (plain_env None) desk [''codex''] ''gpt-5'' desk_opts {} 5 fresh_sched = (m', s', Inr (a, p))"
    using pickMixed_succeeds [OF _ desk_facts(1-4) desk_candidate_def desk_facts(5-8)] by force
  have "manager_wf desk" by code_simp
  from pickMixed_in_scope [OF _ this pick] obtain x grp where x: "map_of (mgAuths desk) (aID a) = Some (Some x)"
    "p = provider_key x" "in_scope desk ''gpt-5'' (opMeta desk_opts) grp {} x" by auto
  have "normalizedTenantID ''other'' \<noteq> tenantIDFromMetadata (opMeta desk_opts)" by code_simp
  then have "aID a = ''a1''" "x = desk_alice"
    using x(1,3) by (auto simp: desk_def in_scope_def alice_def Let_def split: if_splits)
  moreover have "provider_key desk_alice = ''codex''" by code_simp
  ultimately show ?thesis using pick x(2) by blast
qed

section \<open>The diagnosis of an empty selection\<close>

lemma normalizeSelectionModelKey_trimmed [simp]:
  "trim_space (normalizeSelectionModelKey model) = normalizeSelectionModelKey model"
  by (simp add: normalizeSelectionModelKey_def Let_def)

text \<open>Whenever the gate turns a model down, the diagnosis names a group that did it.\<close>

lemma gate_rejection_blamed:
  assumes "\<not> modelAllowedByRoutingGroupScopes discovered cfg tenantID modelID groups grp allowed"
    and "trim_space modelID = modelID"
    and "blockingRouteGroups discovered cfg tenantID modelID groups grp allowed = (ex, no)"
  shows "ex \<noteq> [] \<or> no \<noteq> []"
proof -
  obtain c where c: "cfg = Some c" using assms(1) by (cases cfg) (auto simp: modelAllowedByRoutingGroupScopes_def)
  let ?scoped = "scopedRouteGroupNames groups grp allowed"
  have ne: "modelID \<noteq> ''''" "groups \<noteq> {}" "?scoped \<noteq> {}"
    and loop: "\<not> gate_loop discovered tenantID modelID ?scoped (rcChannelGroups c) False"
    using assms(1,2) by (auto simp: c modelAllowedByRoutingGroupScopes_def Let_def split: if_splits)
  from loop obtain g where "g \<in> set (rcChannelGroups c)" "blocking discovered tenantID modelID ?scoped g"
    by (auto simp: gate_loop_iff blocking_def group_admits_def)
  then have "filter (blocking discovered tenantID modelID ?scoped) (rcChannelGroups c) \<noteq> []"
    by (auto simp: filter_empty_conv)
  with ne assms(3) show ?thesis by (auto simp: c blockingRouteGroups_def Let_def filter_empty_conv)
qed

text \<open>What the pass over the credentials has collected only grows.\<close>

definition blamed :: "rejection \<Rightarrow> bool" where
  "blamed r \<longleftrightarrow> rjSawTenant r \<and> rjExcluded r \<union> rjBlocked r \<noteq> {}"

lemma reject_step_blamed: "blamed r \<Longrightarrow> blamed (reject_step m sc grp incl a r)"
  by (auto simp: reject_step_def blamed_def Let_def split: prod.split)

lemma fold_reject_blamed: "blamed r \<Longrightarrow> blamed (fold (reject_step m sc grp incl) xs r)"
  by (induction xs arbitrary: r) (auto simp: reject_step_blamed)

text \<open>A credential that would serve the request, were it not for the model lists of its groups.\<close>

definition gate_rejected :: "manager \<Rightarrow> selection_scope \<Rightarrow> string \<Rightarrow> (auth \<Rightarrow> bool) \<Rightarrow> auth \<Rightarrow> bool" where
  "gate_rejected m sc grp incl a \<longleftrightarrow>
     \<not> aDisabled a \<and> aStatus a \<noteq> StatusDisabled \<and> normalizedTenantID (aTenantID a) = scoTenantID sc \<and> incl a \<and>
     candidateServesModel (mgRegistry m) a (scoModelKey sc) \<and> authAllowedByChannels a (scoChannels sc) \<and>
     authAllowedByGroups (scoCfg sc) a (scoGroups sc) \<and>
     \<not> modelAllowedByRoutingGroupScopes (mgDiscovered m) (scoCfg sc) (aTenantID a) (scoModelKey sc)
         (authGroups (scoCfg sc) a) grp (scoGroups sc)"

lemma reject_step_blames:
  assumes "gate_rejected m sc grp incl a" "trim_space (scoModelKey sc) = scoModelKey sc"
  shows "blamed (reject_step m sc grp incl a r)"
proof -
  obtain ex no where b: "blockingRouteGroups (mgDiscovered m) (scoCfg sc) (aTenantID a) (scoModelKey sc)
      (authGroups (scoCfg sc) a) grp (scoGroups sc) = (ex, no)" by fastforce
  have "ex \<noteq> [] \<or> no \<noteq> []"
    using gate_rejection_blamed [OF _ assms(2) b] assms(1) by (simp add: gate_rejected_def)
  with assms(1) b show ?thesis by (auto simp: reject_step_def gate_rejected_def blamed_def)
qed

lemma fold_reject_blames:
  assumes "x \<in> set xs" "gate_rejected m sc grp incl x" "trim_space (scoModelKey sc) = scoModelKey sc"
  shows "blamed (fold (reject_step m sc grp incl) xs r)"
  using assms(1)
proof (induction xs arbitrary: r)
  case (Cons y ys)
  then show ?case using reject_step_blames [OF assms(2,3)] fold_reject_blamed by (cases "x = y") auto
qed simp

definition diagnosis_codes :: "string list" where
  "diagnosis_codes =
     [''model_outside_allowed_channel_groups'', ''model_outside_allowed_channels'', ''model_not_allowed_by_channel_group'']"

lemma blamed_error: "blamed r \<Longrightarrow> \<exists>e. rejection_error sc r = Some e \<and> eCode e \<in> set diagnosis_codes"
  by (auto simp: blamed_def rejection_error_def refuse_def diagnosis_codes_def Let_def)

text \<open>
  When the model lists of channel groups are the reason that nothing serves a request, the caller is told so. If a
  credential of the tenant would serve the model and only the gate of its groups turned it down, the refusal carries
  one of the three specific codes, never the generic message that no credential is available.
\<close>

theorem pickLocked_diagnosed:
  assumes "sc = newSelectionScope cfg model meta" and "scoModelKey sc \<noteq> ''''" and "opAlt opts \<noteq> ''alpha/search''"
    and "(k, Some x) \<in> set (mgAuths m)" and "gate_rejected m sc (initialRouteGroup sc) incl x"
    and "pickLocked env m sc provider opts tried incl now s = (s', Inl (Refused e))"
  shows "eCode e \<in> set diagnosis_codes"
proof -
  have trimmed: "trim_space (scoModelKey sc) = scoModelKey sc" by (simp add: assms(1) newSelectionScope_def)
  have "x \<in> set (List.map_filter snd (mgAuths m))" using assms(4) by (auto simp: set_map_filter_snd)
  from blamed_error [OF fold_reject_blames [OF this assms(5) trimmed]] obtain d where
    d: "diagnoseEmptyCandidates m sc (initialRouteGroup sc) incl = Some d" "eCode d \<in> set diagnosis_codes"
    using assms(2) unfolding diagnoseEmptyCandidates_def by fastforce
  have keep: "e' = d" if "pick_groups env m sc provider opts tried incl now grps (Some d) s = (s', Inl (Refused e'))" for grps e'
    using that by (induction grps) (auto simp: Let_def split: if_splits prod.splits sum.splits)
  have "\<exists>grps. routeGroupsToTry sc = initialRouteGroup sc # grps"
    by (simp add: routeGroupsToTry_def Let_def)
  then obtain grps where "routeGroupsToTry sc = initialRouteGroup sc # grps" by blast
  with assms(3,6) have "pick_groups env m sc provider opts tried incl now grps (Some d) s = (s', Inl (Refused e))"
    using d(1) by (auto simp: pickLocked_def Let_def split: if_splits prod.splits sum.splits)
  from keep [OF this] d(2) show ?thesis by simp
qed

definition refusal_code :: "'s \<times> (select_error + 'a) \<Rightarrow> string" where
  "refusal_code r = (case snd r of Inl (Refused e) \<Rightarrow> eCode e | _ \<Rightarrow> '''')"

theorem pickLocked_diagnosed_witness:
  "\<exists>s' e. pickLocked (plain_env None) desk (request_scope desk ''gpt-5-mini'' desk_opts) ''mixed'' desk_opts {} (\<lambda>_. True) 5
     fresh_sched = (s', Inl (Refused e)) \<and> eCode e = ''model_not_allowed_by_channel_group''"
proof -
  let ?sc = "request_scope desk ''gpt-5-mini'' desk_opts"
  let ?p = "pickLocked (plain_env None) desk ?sc ''mixed'' desk_opts {} (\<lambda>_. True) 5 fresh_sched"
  have f: "refusal_code ?p = ''model_not_allowed_by_channel_group''" by code_simp
  then obtain s' e where p: "?p = (s', Inl (Refused e))"
    by (cases ?p) (auto simp: refusal_code_def split: sum.splits select_error.splits)
  have "scoModelKey ?sc \<noteq> ''''" "opAlt desk_opts \<noteq> ''alpha/search''" "gate_rejected desk ?sc (initialRouteGroup ?sc) (\<lambda>_. True) desk_alice"
    by code_simp+
  moreover have "(''a1'', Some desk_alice) \<in> set (mgAuths desk)" by (simp add: desk_def)
  ultimately have "eCode e \<in> set diagnosis_codes"
    using pickLocked_diagnosed [OF refl _ _ _ _ p] by blast
  with f p show ?thesis by (auto simp: refusal_code_def)
qed

section \<open>A saturated credential beside a cooling one\<close>

definition cold_auth :: auth where
  "cold_auth = sample_auth\<lparr>aID := ''cold'', aModelStates := [(''m'', Some (sample_exhausted 9))]\<rparr>"

definition busy_desk :: manager where
  "busy_desk = desk\<lparr>mgAuths := [(aID one_slot, Some one_slot), (''cold'', Some cold_auth)], mgConfigs := [],
     mgLimiter := fst (AcquireSlot None newLimiter one_slot)\<rparr>"

definition busy_opts :: options where
  "busy_opts = desk_opts\<lparr>opMeta := []\<rparr>"

text \<open>
  Filtering saturated credentials out before looking at cooldowns can hide the only usable one: with a healthy
  credential at its concurrency limit and another one that has a free slot but is cooling down, the pick fails with the
  cooldown error, and the healthy credential is never reached, so the request does not queue for its slot either.
\<close>

theorem saturated_hides_healthy:
  "(case snd (snd (pickMixed (plain_env None) busy_desk [''codex''] ''m'' busy_opts {} 5 fresh_sched)) of
      Inl (PickFailed (ModelCooldown _ _ d)) \<Rightarrow> d = 4 | _ \<Rightarrow> False) \<and>
   in_scope busy_desk ''m'' (opMeta busy_opts) '''' {} one_slot \<and> \<not> blocked one_slot ''m'' 5 \<and>
   authParticipatesInSelection one_slot \<and> QueueDepth (mgLimiter busy_desk) (aID one_slot) = 0"
  by code_simp

end
