(* ===== verification/Execution.thy ===== *)
theory Execution
  imports Selection "HOL-Library.Monad_Syntax"
begin

text \<open>
  Running a request: \<^verbatim>\<open>src/sdk/cliproxy/auth/conductor_execution_service.go\<close>, \<^verbatim>\<open>conductor_execution.go\<close>,
  \<^verbatim>\<open>request_moderator.go\<close> and the error views of \<^verbatim>\<open>conductor_error_helpers.go\<close>.

  The shared state is the manager and the scheduler. Between any two steps of a request other goroutines may change the
  manager: \<open>xeOther\<close> is an arbitrary function of the step number. The clock, the context, the moderator, the upstream
  calls and the blocking part of the wait for a slot are answered by the environment in the same way. Model aliases
  (\<^verbatim>\<open>oauth_model_alias.go\<close>, \<^verbatim>\<open>conductor_api_key_alias.go\<close>) are the argument \<open>xeAlias\<close>, and \<open>xeText\<close> renders an error of a
  selector or of the limiter.

  The loops need not end if credentials keep being added, so they are \<open>partial_function\<close>s into \<open>option\<close>; that they do end
  on a bounded pool is \<open>executeMixedOnce_total\<close> and \<open>runExecutionWithRetry_total\<close>.
\<close>

section \<open>Errors of an execution\<close>

record xerr =
  xGo :: goerr
  xRetry :: "duration option"
  xHeaders :: headers
  xWindow :: "(string \<times> int) option"

definition errorFromExecution :: "xerr \<Rightarrow> error" where
  "errorFromExecution x =
     (case geAuth (xGo x) of
        Some e \<Rightarrow>
          let e1 = (if eMessage e = '''' then e\<lparr>eMessage := geText (xGo x)\<rparr> else e)
          in (case xWindow x of
                Some (w, mins) \<Rightarrow>
                  if eQuotaWindow e1 = '''' \<and> eQuotaWindowMinutes e1 = 0
                  then e1\<lparr>eQuotaWindow := w, eQuotaWindowMinutes := mins\<rparr> else e1
              | None \<Rightarrow> e1)
      | None \<Rightarrow>
          let e1 = (refuse '''' (geText (xGo x)) (geStatus (xGo x)))
          in (case xWindow x of Some (w, mins) \<Rightarrow> e1\<lparr>eQuotaWindow := w, eQuotaWindowMinutes := mins\<rparr> | None \<Rightarrow> e1))"

record verdict =
  mvBlocked :: bool
  mvStatus :: int
  mvMessage :: string

definition moderateRequest :: "(nat \<Rightarrow> auth \<Rightarrow> verdict) option \<Rightarrow> nat \<Rightarrow> auth \<Rightarrow> error option" where
  "moderateRequest moderator n a =
     (case moderator of None \<Rightarrow> None
      | Some f \<Rightarrow>
          let v = f n a;
              status = (if mvStatus v < 400 \<or> 599 < mvStatus v then 403 else mvStatus v);
              message = (if trim_space (mvMessage v) = ''''
                         then ''Your request was blocked by the content moderation policy.'' else trim_space (mvMessage v))
          in if \<not> mvBlocked v then None else Some (refuse ''content_policy_violation'' message status))"

section \<open>Environment, world and scope\<close>

datatype 'r outcome = Done 'r headers | Fail xerr

record 'r xenv =
  xeSched :: sched_env
  xeClock :: "nat \<Rightarrow> gotime"
  xeOther :: "nat \<Rightarrow> manager \<Rightarrow> manager"
  xeCtx :: "nat \<Rightarrow> goerr option"
  xeModerator :: "(nat \<Rightarrow> auth \<Rightarrow> verdict) option"
  xeWait :: "nat \<Rightarrow> auth list \<Rightarrow> goerr + string"
  xeRun :: "nat \<Rightarrow> auth \<Rightarrow> string \<Rightarrow> 'r outcome"
  xeAlias :: "auth \<Rightarrow> string \<Rightarrow> string"
  xeText :: "select_error + concurrency_error \<Rightarrow> string"
  xeUnmarshal :: "string \<Rightarrow> (string, goany) gomap option"
  xeSprint :: "goany \<Rightarrow> string"
  xeOff :: bool
  xePublishing :: bool

text \<open>
  \<open>wCalls\<close>, \<open>wMarks\<close> and \<open>wSlots\<close> are the history of one request: the upstream calls, the results handed to the
  cooldown service, and the slots the request took from and gave back to the limiter.
\<close>

datatype slot_event = Acquired string | Released string

record world =
  wMgr :: manager
  wSched :: sched
  wStep :: nat
  wCalls :: "string list"
  wMarks :: "result list"
  wSlots :: "slot_event list"

record candidate =
  cdAuth :: auth
  cdProvider :: string
  cdModel :: string

record xscope =
  xsProviders :: "string list"
  xsRouteModel :: string
  xsOpts :: options
  xsSinglePick :: bool
  xsTried :: "string set"
  xsSaturated :: "candidate list"
  xsLastErr :: "goerr option"

text \<open>Other goroutines run, and time passes.\<close>

definition tick :: "('r, 'x) xenv_scheme \<Rightarrow> world \<Rightarrow> world" where
  "tick E w = w\<lparr>wMgr := xeOther E (wStep w) (wMgr w), wStep := wStep w + 1\<rparr>"

definition now_at :: "('r, 'x) xenv_scheme \<Rightarrow> world \<Rightarrow> gotime" where
  "now_at E w = xeClock E (wStep w)"

definition select_goerr :: "('r, 'x) xenv_scheme \<Rightarrow> select_error \<Rightarrow> goerr" where
  "select_goerr E e =
     (case e of
        Refused r \<Rightarrow> auth_goerr r
      | PickFailed (AuthError code message) \<Rightarrow> auth_goerr (refuse code message 0)
      | PickFailed p \<Rightarrow> \<lparr>geStatus = pick_error_StatusCode p, geAuth = None, geText = xeText E (Inl e)\<rparr>)"

definition slot_goerr :: "('r, 'x) xenv_scheme \<Rightarrow> concurrency_error \<Rightarrow> goerr" where
  "slot_goerr E e = \<lparr>geStatus = 429, geAuth = None, geText = xeText E (Inr e)\<rparr>"

section \<open>Metadata of the request\<close>

definition hasRequestedModelMetadata :: "(string, goany) gomap \<Rightarrow> bool" where
  "hasRequestedModelMetadata meta \<longleftrightarrow>
     (case map_of meta ''requested_model'' of
        Some (AStr s) \<Rightarrow> trim_space s \<noteq> '''' | Some (ABytes s) \<Rightarrow> trim_space s \<noteq> '''' | _ \<Rightarrow> False)"

definition ensureRequestedModelMetadata :: "options \<Rightarrow> string \<Rightarrow> options" where
  "ensureRequestedModelMetadata opts requestedModel =
     (let r = trim_space requestedModel
      in if r = '''' \<or> hasRequestedModelMetadata (opMeta opts) then opts
         else opts\<lparr>opMeta := map_put ''requested_model'' (AStr r) (opMeta opts)\<rparr>)"

definition publishSelectedAuthMetadata :: "(string, goany) gomap \<Rightarrow> string \<Rightarrow> (string, goany) gomap" where
  "publishSelectedAuthMetadata meta authID =
     (if meta = [] \<or> trim_space authID = '''' then meta
      else map_put ''selected_auth_id'' (AStr (trim_space authID)) meta)"

definition rewriteModelForAuth :: "string \<Rightarrow> auth \<Rightarrow> string" where
  "rewriteModelForAuth model a =
     (let pre = trim_space (aPrefix a)
      in if model = '''' \<or> pre = '''' \<or> \<not> prefix (pre @ ''/'') model then model else drop (length pre + 1) model)"

fun normalize_providers :: "string list \<Rightarrow> string list \<Rightarrow> string list" where
  "normalize_providers [] seen = []"
| "normalize_providers (p # ps) seen =
     (let k = trim_space (to_lower p)
      in if k = '''' \<or> k \<in> set seen then normalize_providers ps seen else k # normalize_providers ps (k # seen))"

definition normalizeProviders :: "string list \<Rightarrow> string list" where
  "normalizeProviders providers = normalize_providers providers []"

definition newMixedScope :: "string list \<Rightarrow> string \<Rightarrow> options \<Rightarrow> error + xscope" where
  "newMixedScope providers model opts0 =
     (let opts = ensureRequestedModelMetadata opts0 model
      in if providers = [] then Inl (refuse ''provider_not_found'' ''no provider supplied'' 0)
         else Inr \<lparr>xsProviders = providers, xsRouteModel = model, xsOpts = opts,
                   xsSinglePick = isSinglePickRouteRequest (opMeta opts), xsTried = {}, xsSaturated = [],
                   xsLastErr = None\<rparr>)"

section \<open>The next candidate that owns a slot\<close>

definition nextMixedCandidate ::
  "('r, 'x) xenv_scheme \<Rightarrow> xscope \<Rightarrow> world \<Rightarrow> xscope \<times> world \<times> (select_error + candidate)" where
  "nextMixedCandidate E sc w0 =
     (let w = tick E w0;
          m = wMgr w;
          env = (xeSched E)\<lparr>seActive := lActive (mgLimiter m)\<rparr>
      in case pickMixed env m (xsProviders sc) (xsRouteModel sc) (xsOpts sc) (xsTried sc) (now_at E w) (wSched w) of
           (m', s', Inl e) \<Rightarrow> (sc, w\<lparr>wMgr := m', wSched := s'\<rparr>, Inl e)
         | (m', s', Inr (a, p)) \<Rightarrow>
             (sc\<lparr>xsOpts := (xsOpts sc)\<lparr>opMeta := publishSelectedAuthMetadata (opMeta (xsOpts sc)) (aID a)\<rparr>,
                 xsTried := insert (aID a) (xsTried sc)\<rparr>,
              w\<lparr>wMgr := m', wSched := s'\<rparr>,
              Inr \<lparr>cdAuth = a, cdProvider = p, cdModel = xeAlias E a (rewriteModelForAuth (xsRouteModel sc) a)\<rparr>))"

text \<open>
  \<^verbatim>\<open>acquireAccountSlot\<close> and \<^verbatim>\<open>releaseSlot\<close> on the limiter of the manager. With a coordinator other requests may run while the process asks
  for the slot; what they do to the limiter is part of the changes before the next step.
\<close>

definition acquire_slot :: "('r, 'x) xenv_scheme \<Rightarrow> world \<Rightarrow> auth \<Rightarrow> world \<times> concurrency_error option" where
  "acquire_slot E w0 a =
     (let w = tick E w0; m = wMgr w
      in case AcquireSlot (mgCoord m) (mgLimiter m) a of
           (l, Inr _) \<Rightarrow> (w\<lparr>wMgr := m\<lparr>mgLimiter := l\<rparr>, wSlots := wSlots w @ [Acquired (aID a)]\<rparr>, None)
         | (l, Inl e) \<Rightarrow> (w\<lparr>wMgr := m\<lparr>mgLimiter := l\<rparr>\<rparr>, Some e))"

definition release_slot :: "('r, 'x) xenv_scheme \<Rightarrow> world \<Rightarrow> string \<Rightarrow> world" where
  "release_slot E w0 authID =
     (let w = tick E w0; m = wMgr w
      in w\<lparr>wMgr := m\<lparr>mgLimiter := fst (ReleaseSlot (mgCoord m) (mgLimiter m) authID)\<rparr>, wSlots := wSlots w @ [Released authID]\<rparr>)"

datatype wait_outcome = NoSaturatedCandidate | WaitFailed goerr | SlotGranted candidate

fun take_candidate :: "string \<Rightarrow> candidate list \<Rightarrow> (candidate \<times> candidate list) option" where
  "take_candidate i [] = None"
| "take_candidate i (c # cs) =
     (if aID (cdAuth c) = i then Some (c, cs) else map_option (\<lambda>(d, ds). (d, c # ds)) (take_candidate i cs))"

definition waitForSaturatedSlot :: "('r, 'x) xenv_scheme \<Rightarrow> xscope \<Rightarrow> world \<Rightarrow> xscope \<times> world \<times> wait_outcome" where
  "waitForSaturatedSlot E sc w0 =
     (if xsSaturated sc = [] then (sc, w0, NoSaturatedCandidate)
      else
        let w = tick E w0
        in case xeWait E (wStep w) (map cdAuth (xsSaturated sc)) of
             Inl e \<Rightarrow> (sc, w, WaitFailed e)
           | Inr i \<Rightarrow>
               (let w' = w\<lparr>wSlots := wSlots w @ [Acquired i]\<rparr>
                in case take_candidate i (xsSaturated sc) of
                     Some (c, rest) \<Rightarrow> (sc\<lparr>xsSaturated := rest\<rparr>, w', SlotGranted c)
                   | None \<Rightarrow> (sc, release_slot E w' i, NoSaturatedCandidate)))"

definition resolveMixedPickError :: "goerr option \<Rightarrow> goerr \<Rightarrow> goerr" where
  "resolveMixedPickError lastErr errPick = (case lastErr of Some e \<Rightarrow> e | None \<Rightarrow> errPick)"

partial_function (option) nextReadyCandidate ::
  "('r, 'x) xenv_scheme \<Rightarrow> xscope \<Rightarrow> world \<Rightarrow> (xscope \<times> world \<times> (goerr + candidate)) option" where
  "nextReadyCandidate E sc w =
     (case nextMixedCandidate E sc w of
        (sc1, w1, Inl errPick) \<Rightarrow>
          (case waitForSaturatedSlot E sc1 w1 of
             (sc2, w2, SlotGranted c) \<Rightarrow> Some (sc2, w2, Inr c)
           | (sc2, w2, WaitFailed e) \<Rightarrow>
               Some (sc2\<lparr>xsLastErr := Some e\<rparr>, w2, Inl (resolveMixedPickError (Some e) (select_goerr E errPick)))
           | (sc2, w2, NoSaturatedCandidate) \<Rightarrow>
               Some (sc2, w2, Inl (resolveMixedPickError (xsLastErr sc2) (select_goerr E errPick))))
      | (sc1, w1, Inr c) \<Rightarrow>
          (case moderateRequest (xeModerator E) (wStep w1) (cdAuth c) of
             Some e \<Rightarrow> Some (sc1, w1, Inl (auth_goerr e))
           | None \<Rightarrow>
               (case acquire_slot E w1 (cdAuth c) of
                  (w2, None) \<Rightarrow> Some (sc1, w2, Inr c)
                | (w2, Some e) \<Rightarrow>
                    if isRequestInvalidError (xeUnmarshal E) (xeSprint E) (slot_goerr E e)
                    then Some (sc1, w2, Inl (slot_goerr E e))
                    else nextReadyCandidate E
                      (sc1\<lparr>xsSaturated := xsSaturated sc1 @ [c], xsLastErr := Some (slot_goerr E e)\<rparr>) w2)))"

section \<open>One attempt\<close>

definition mark_result :: "('r, 'x) xenv_scheme \<Rightarrow> result \<Rightarrow> world \<Rightarrow> world" where
  "mark_result E r w0 =
     (let w = tick E w0; m = wMgr w
      in case markResult (xeUnmarshal E) (xeSprint E) (xeOff E) (xePublishing E) (mgAuths m) r (now_at E w) of
           (auths, _) \<Rightarrow> w\<lparr>wMgr := m\<lparr>mgAuths := auths\<rparr>, wMarks := wMarks w @ [r]\<rparr>)"

definition result_of :: "xscope \<Rightarrow> candidate \<Rightarrow> 'r outcome \<Rightarrow> result" where
  "result_of sc c out =
     \<lparr>rAuthID = aID (cdAuth c), rProvider = cdProvider c, rModel = xsRouteModel sc,
      rSuccess = (case out of Done _ _ \<Rightarrow> True | Fail _ \<Rightarrow> False),
      rRetryAfter = (case out of Done _ _ \<Rightarrow> None | Fail x \<Rightarrow> xRetry x),
      rHeaders = (case out of Done _ h \<Rightarrow> h | Fail x \<Rightarrow> xHeaders x),
      rError = (case out of Done _ _ \<Rightarrow> None | Fail x \<Rightarrow> Some (errorFromExecution x))\<rparr>"

text \<open>
  The three entry points differ in what they do around the upstream call: \<^verbatim>\<open>executeMixedOnce\<close> records every result,
  \<^verbatim>\<open>executeCountMixedOnce\<close> none, and \<^verbatim>\<open>executeStreamMixedOnce\<close> only a failure to start, keeping the slot of a started
  stream for the goroutine that forwards it.
\<close>

datatype call_kind = Generate | CountTokens | Stream

definition call_upstream :: "('r, 'x) xenv_scheme \<Rightarrow> candidate \<Rightarrow> world \<Rightarrow> world \<times> 'r outcome" where
  "call_upstream E c w0 =
     (let w = tick E w0
      in (w\<lparr>wCalls := wCalls w @ [aID (cdAuth c)]\<rparr>, xeRun E (wStep w) (cdAuth c) (cdModel c)))"

partial_function (option) execution_loop ::
  "('r, 'x) xenv_scheme \<Rightarrow> call_kind \<Rightarrow> xscope \<Rightarrow> world \<Rightarrow> (world \<times> (goerr + 'r)) option" where
  "execution_loop E kind sc w =
     do { (sc1, w1, ready) \<leftarrow> nextReadyCandidate E sc w;
          case ready of
            Inl e \<Rightarrow> Some (w1, Inl e)
          | Inr c \<Rightarrow>
              (case call_upstream E c w1 of
                 (w2, Done r h) \<Rightarrow>
                   Some (case kind of
                           Generate \<Rightarrow> mark_result E (result_of sc1 c (Done r h)) (release_slot E w2 (aID (cdAuth c)))
                         | CountTokens \<Rightarrow> release_slot E w2 (aID (cdAuth c))
                         | Stream \<Rightarrow> w2, Inr r)
               | (w2, Fail x) \<Rightarrow>
                   (let w3 = release_slot E w2 (aID (cdAuth c))
                    in case xeCtx E (wStep w3) of
                         Some errCtx \<Rightarrow> Some (w3, Inl errCtx)
                       | None \<Rightarrow>
                           (let w4 = (if kind = CountTokens then w3
                                      else mark_result E (result_of sc1 c (Fail x :: 'r outcome)) w3)
                            in if isRequestInvalidError (xeUnmarshal E) (xeSprint E) (xGo x) \<or> xsSinglePick sc1
                               then Some (w4, Inl (xGo x))
                               else execution_loop E kind (sc1\<lparr>xsLastErr := Some (xGo x)\<rparr>) w4))) }"

definition execute_once ::
  "('r, 'x) xenv_scheme \<Rightarrow> call_kind \<Rightarrow> string list \<Rightarrow> string \<Rightarrow> options \<Rightarrow> world \<Rightarrow> (world \<times> (goerr + 'r)) option" where
  "execute_once E kind providers model opts w =
     (case newMixedScope providers model opts of
        Inl e \<Rightarrow> Some (w, Inl (auth_goerr e))
      | Inr sc \<Rightarrow> execution_loop E kind sc w)"

definition executeMixedOnce ::
  "('r, 'x) xenv_scheme \<Rightarrow> string list \<Rightarrow> string \<Rightarrow> options \<Rightarrow> world \<Rightarrow> (world \<times> (goerr + 'r)) option" where
  "executeMixedOnce E = execute_once E Generate"

definition executeCountMixedOnce ::
  "('r, 'x) xenv_scheme \<Rightarrow> string list \<Rightarrow> string \<Rightarrow> options \<Rightarrow> world \<Rightarrow> (world \<times> (goerr + 'r)) option" where
  "executeCountMixedOnce E = execute_once E CountTokens"

definition executeStreamMixedOnce ::
  "('r, 'x) xenv_scheme \<Rightarrow> string list \<Rightarrow> string \<Rightarrow> options \<Rightarrow> world \<Rightarrow> (world \<times> (goerr + 'r)) option" where
  "executeStreamMixedOnce E = execute_once E Stream"

section \<open>Attempts until success\<close>

record retry_settings =
  rsRequestRetry :: int
  rsMaxInterval :: duration

text \<open>\<^verbatim>\<open>waitForCooldown\<close>: the context may end while the request waits.\<close>

definition waitForCooldown :: "('r, 'x) xenv_scheme \<Rightarrow> duration \<Rightarrow> world \<Rightarrow> world \<times> goerr option" where
  "waitForCooldown E wait w0 = (if wait \<le> 0 then (w0, None) else let w = tick E w0 in (w, xeCtx E (wStep w)))"

partial_function (option) retry_loop ::
  "('r, 'x) xenv_scheme \<Rightarrow> retry_settings \<Rightarrow> call_kind \<Rightarrow> string list \<Rightarrow> string \<Rightarrow> options \<Rightarrow> nat \<Rightarrow> world \<Rightarrow>
   (world \<times> (goerr + 'r)) option" where
  "retry_loop E cfg kind providers model opts attempt w =
     do { (w1, res) \<leftarrow> execute_once E kind providers model opts w;
          case res of
            Inr r \<Rightarrow> Some (w1, Inr r)
          | Inl e \<Rightarrow>
              (let w2 = tick E w1
               in case shouldRetryAfterError (xeUnmarshal E) (xeSprint E) (rsRequestRetry cfg) (mgAuths (wMgr w2)) (Some e)
                         (int attempt) providers model (rsMaxInterval cfg) (opMeta opts) (now_at E w2) of
                    None \<Rightarrow> Some (w2, Inl e)
                  | Some wait \<Rightarrow>
                      (case waitForCooldown E wait w2 of
                         (w3, Some errWait) \<Rightarrow> Some (w3, Inl errWait)
                       | (w3, None) \<Rightarrow> retry_loop E cfg kind providers model opts (attempt + 1) w3)) }"

definition runExecutionWithRetry ::
  "('r, 'x) xenv_scheme \<Rightarrow> retry_settings \<Rightarrow> call_kind \<Rightarrow> string list \<Rightarrow> string \<Rightarrow> options \<Rightarrow> world \<Rightarrow>
   (world \<times> (goerr + 'r)) option" where
  "runExecutionWithRetry E cfg kind providers model opts w =
     (let normalized = normalizeProviders providers
      in if normalized = [] then Some (w, Inl (auth_goerr (refuse ''provider_not_found'' ''no provider supplied'' 0)))
         else retry_loop E cfg kind normalized model opts 0 w)"

section \<open>A bounded pool of credentials\<close>

text \<open>
  The names of the credentials come from a set \<open>U\<close> and no credential asks for more than \<open>N\<close> retries. What other
  goroutines do may change everything else.
\<close>

definition bounded_pool :: "string set \<Rightarrow> int \<Rightarrow> int \<Rightarrow> manager \<Rightarrow> bool" where
  "bounded_pool U d N m \<longleftrightarrow>
     manager_wf m \<and> fst ` set (mgAuths m) \<subseteq> U \<and>
     (\<forall>(k, a) \<in> set (mgAuths m). case a of None \<Rightarrow> True | Some x \<Rightarrow> effective_retry d x \<le> N)"

definition steady :: "('r, 'x) xenv_scheme \<Rightarrow> string set \<Rightarrow> int \<Rightarrow> int \<Rightarrow> bool" where
  "steady E U d N \<longleftrightarrow>
     finite U \<and> (\<forall>n. 0 \<le> xeClock E n) \<and> (\<forall>n m. bounded_pool U d N m \<longrightarrow> bounded_pool U d N (xeOther E n m))"

lemma bounded_pool_put:
  assumes "bounded_pool U d N m" "map_of (mgAuths m) k = Some (Some x)" "aID y = aID x" "effective_retry d y \<le> N"
  shows "bounded_pool U d N (m\<lparr>mgAuths := map_put k (Some y) (mgAuths m)\<rparr>)"
proof -
  have k: "(k, Some x) \<in> set (mgAuths m)" using assms(2) by (rule map_of_SomeD)
  have "aID y = k" using k assms(1,3) by (fastforce simp: bounded_pool_def manager_wf_def)
  then have "manager_wf (m\<lparr>mgAuths := map_put k (Some y) (mgAuths m)\<rparr>)"
    using assms(1) manager_wf_put by (simp add: bounded_pool_def)
  moreover have "k \<in> U" using k assms(1) by (force simp: bounded_pool_def)
  ultimately show ?thesis
    using assms(1,4) by (auto simp: bounded_pool_def dest!: in_set_map_put)
qed

lemma bounded_pool_limiter [simp]: "bounded_pool U d N (m\<lparr>mgLimiter := l\<rparr>) \<longleftrightarrow> bounded_pool U d N m"
  by (simp add: bounded_pool_def manager_wf_def)

lemma first_parsed_cong: "(\<And>k. k \<in> set ks \<Longrightarrow> map_of m k = map_of m' k) \<Longrightarrow> first_parsed p m ks = first_parsed p m' ks"
  by (induction ks) (auto split: option.split)

lemma effective_retry_identity: "identity x = identity y \<Longrightarrow> effective_retry d x = effective_retry d y"
proof -
  assume i: "identity x = identity y"
  have "map_of (aMetadata x) k = map_of (aMetadata y) k" if "k \<noteq> claude_health_key" for k
    using i that by (simp add: identity_def) (metis fun_upd_other)
  then have "first_parsed parseIntAny (aMetadata x) [''request_retry'', ''request-retry''] =
             first_parsed parseIntAny (aMetadata y) [''request_retry'', ''request-retry'']"
    by (intro first_parsed_cong) (auto simp: claude_health_key_def)
  then show ?thesis unfolding effective_retry_def RequestRetryOverride_def by (rule arg_cong)
qed

lemma EnsureIndex_metadata [simp]: "aMetadata (EnsureIndex digest x) = aMetadata x"
  by (simp add: EnsureIndex_def Let_def)

lemma effective_retry_EnsureIndex [simp]: "effective_retry d (EnsureIndex digest x) = effective_retry d x"
  unfolding effective_retry_def RequestRetryOverride_def EnsureIndex_metadata ..

lemma bounded_retry: "bounded_pool U d N m \<Longrightarrow> map_of (mgAuths m) k = Some (Some x) \<Longrightarrow> effective_retry d x \<le> N"
  by (fastforce simp: bounded_pool_def dest: map_of_SomeD)

lemma pickMixed_bounded:
  assumes "pickMixed env m providers model opts tried now s = (m', s', r)" "bounded_pool U d N m"
  shows "bounded_pool U d N m'"
  using assms(1)
proof (cases rule: pickMixed_manager)
  case (2 k x)
  then show ?thesis using bounded_pool_put [OF assms(2)] bounded_retry [OF assms(2)] by simp
qed (use assms(2) in simp)

lemma pickMixed_fresh:
  assumes "pickMixed env m providers model opts tried now s = (m', s', Inr (a, p))" "bounded_pool U d N m" "0 \<le> now"
  shows "aID a \<in> U" "aID a \<notin> tried"
proof -
  have "manager_wf m" using assms(2) by (simp add: bounded_pool_def)
  from pickMixed_scope [OF assms(3) this assms(1)] obtain x grp where
    x: "map_of (mgAuths m) (aID a) = Some (Some x)" "in_scope m model (opMeta opts) grp tried x" by blast
  have "(aID a, Some x) \<in> set (mgAuths m)" using x(1) by (rule map_of_SomeD)
  then have "aID x = aID a" "aID a \<in> U" using assms(2) by (fastforce simp: bounded_pool_def manager_wf_def)+
  with x(2) show "aID a \<in> U" "aID a \<notin> tried" by (simp_all add: in_scope_def Let_def)
qed

section \<open>What the steps change\<close>

abbreviation wPool :: "string set \<Rightarrow> int \<Rightarrow> int \<Rightarrow> world \<Rightarrow> bool" where
  "wPool U d N w \<equiv> bounded_pool U d N (wMgr w)"

text \<open>\<open>held\<close> counts the slots of a credential that the request has taken and not given back.\<close>

definition held :: "slot_event list \<Rightarrow> string \<Rightarrow> int" where
  "held evs i = int (count_list evs (Acquired i)) - int (count_list evs (Released i))"

lemma held_append [simp]: "held (xs @ ys) i = held xs i + held ys i"
  by (simp add: held_def)

lemma held_Cons [simp]:
  "held [] i = 0" "held (Acquired j # xs) i = of_bool (j = i) + held xs i"
  "held (Released j # xs) i = held xs i - of_bool (j = i)"
  by (simp_all add: held_def)

lemma tick_frame [simp]: "wCalls (tick E w) = wCalls w" "wMarks (tick E w) = wMarks w" "wSlots (tick E w) = wSlots w"
  by (simp_all add: tick_def)

lemma tick_pool: "steady E U d N \<Longrightarrow> wPool U d N w \<Longrightarrow> wPool U d N (tick E w)"
  by (simp add: tick_def steady_def)

lemma acquire_slot_frame:
  "acquire_slot E w a = (w', r) \<Longrightarrow> steady E U d N \<Longrightarrow> wPool U d N w \<Longrightarrow>
   wPool U d N w' \<and> wCalls w' = wCalls w \<and> wMarks w' = wMarks w \<and>
   held (wSlots w') i = held (wSlots w) i + of_bool (r = None \<and> aID a = i)"
  using tick_pool by (auto simp: acquire_slot_def Let_def split: prod.splits sum.splits)

lemma release_slot_frame [simp]:
  "wCalls (release_slot E w i) = wCalls w" "wMarks (release_slot E w i) = wMarks w"
  "wSlots (release_slot E w i) = wSlots w @ [Released i]"
  by (simp_all add: release_slot_def Let_def)

lemma release_slot_pool: "steady E U d N \<Longrightarrow> wPool U d N w \<Longrightarrow> wPool U d N (release_slot E w i)"
  using tick_pool by (simp add: release_slot_def Let_def)

lemma mark_result_frame [simp]:
  "wCalls (mark_result E r w) = wCalls w" "wMarks (mark_result E r w) = wMarks w @ [r]"
  "wSlots (mark_result E r w) = wSlots w"
  by (simp_all add: mark_result_def Let_def split: prod.split)

lemma markResult_pool:
  assumes "bounded_pool U d N m"
  shows "bounded_pool U d N (m\<lparr>mgAuths := fst (markResult unmarshal sprint off publishing (mgAuths m) r now)\<rparr>)"
proof (cases "\<exists>x. rAuthID r \<noteq> '''' \<and> map_of (mgAuths m) (rAuthID r) = Some (Some x)")
  case True
  then obtain x where x: "rAuthID r \<noteq> ''''" "map_of (mgAuths m) (rAuthID r) = Some (Some x)" by blast
  let ?y = "fst (applyResultLocked unmarshal sprint off x r now)"
  have i: "identity ?y = identity x" by (rule identity_result)
  then have "aID ?y = aID x" by (simp add: identity_def)
  moreover have "effective_retry d ?y \<le> N" using effective_retry_identity [OF i] bounded_retry [OF assms x(2)] by simp
  moreover have "fst (markResult unmarshal sprint off publishing (mgAuths m) r now) = map_put (rAuthID r) (Some ?y) (mgAuths m)"
    using x by (simp add: markResult_def Let_def case_prod_unfold)
  ultimately show ?thesis using bounded_pool_put [OF assms x(2)] by simp
next
  case False
  then have "fst (markResult unmarshal sprint off publishing (mgAuths m) r now) = mgAuths m"
    by (auto simp: markResult_def Let_def split: option.splits)
  with assms show ?thesis by simp
qed

lemma mark_result_pool: "steady E U d N \<Longrightarrow> wPool U d N w \<Longrightarrow> wPool U d N (mark_result E r w)"
  using markResult_pool [OF tick_pool] by (simp add: mark_result_def Let_def case_prod_unfold)


lemma nextMixedCandidate_frame:
  assumes "nextMixedCandidate E sc w = (sc', w', r)" "steady E U d N" "wPool U d N w"
  shows "wPool U d N w' \<and> wCalls w' = wCalls w \<and> wMarks w' = wMarks w \<and> wSlots w' = wSlots w"
    "case r of Inl _ \<Rightarrow> sc' = sc
     | Inr c \<Rightarrow> aID (cdAuth c) \<in> U - xsTried sc \<and> xsTried sc' = insert (aID (cdAuth c)) (xsTried sc) \<and>
               xsSaturated sc' = xsSaturated sc \<and> xsSinglePick sc' = xsSinglePick sc"
proof -
  let ?w = "tick E w"
  let ?env = "(xeSched E)\<lparr>seActive := lActive (mgLimiter (wMgr ?w))\<rparr>"
  obtain m' s' x where p: "pickMixed ?env (wMgr ?w) (xsProviders sc) (xsRouteModel sc) (xsOpts sc) (xsTried sc)
      (now_at E ?w) (wSched ?w) = (m', s', x)" by (rule prod_cases3)
  have pool: "bounded_pool U d N (wMgr ?w)" by (rule tick_pool [OF assms(2,3)])
  have now: "0 \<le> now_at E ?w" using assms(2) by (simp add: steady_def now_at_def)
  have w': "w' = ?w\<lparr>wMgr := m', wSched := s'\<rparr>"
    using assms(1) p by (auto simp: nextMixedCandidate_def Let_def split: sum.splits prod.splits)
  then show "wPool U d N w' \<and> wCalls w' = wCalls w \<and> wMarks w' = wMarks w \<and> wSlots w' = wSlots w"
    using pickMixed_bounded [OF p pool] by simp
  show "case r of Inl _ \<Rightarrow> sc' = sc
     | Inr c \<Rightarrow> aID (cdAuth c) \<in> U - xsTried sc \<and> xsTried sc' = insert (aID (cdAuth c)) (xsTried sc) \<and>
               xsSaturated sc' = xsSaturated sc \<and> xsSinglePick sc' = xsSinglePick sc"
    using assms(1) p pickMixed_fresh [OF _ pool now] by (auto simp: nextMixedCandidate_def Let_def split: sum.splits prod.splits)
qed

lemma take_candidate_SomeD:
  "take_candidate i cs = Some (c, rest) \<Longrightarrow> \<exists>us vs. cs = us @ c # vs \<and> rest = us @ vs \<and> aID (cdAuth c) = i"
proof (induction cs arbitrary: rest)
  case (Cons x xs)
  show ?case
  proof (cases "aID (cdAuth x) = i")
    case True
    with Cons.prems have "x # xs = [] @ c # xs \<and> rest = [] @ xs \<and> aID (cdAuth c) = i" by simp
    then show ?thesis by blast
  next
    case False
    with Cons.prems obtain ds where ds: "take_candidate i xs = Some (c, ds)" "rest = x # ds" by auto
    from Cons.IH [OF ds(1)] obtain us vs where "xs = us @ c # vs" "ds = us @ vs" "aID (cdAuth c) = i" by blast
    with ds(2) have "x # xs = (x # us) @ c # vs \<and> rest = (x # us) @ vs \<and> aID (cdAuth c) = i" by simp
    then show ?thesis by blast
  qed
qed simp

section \<open>An attempt ends\<close>

text \<open>
  The credentials an attempt called and the ones it keeps as saturated are different credentials, all of them tried
  and all of the pool. Taking a candidate makes \<open>budget\<close> smaller.
\<close>

abbreviation cid :: "candidate \<Rightarrow> string" where
  "cid c \<equiv> aID (cdAuth c)"

definition track :: "string set \<Rightarrow> xscope \<Rightarrow> string list \<Rightarrow> bool" where
  "track U sc calls \<longleftrightarrow>
     distinct (calls @ map cid (xsSaturated sc)) \<and> set calls \<union> cid ` set (xsSaturated sc) \<subseteq> xsTried sc \<and> xsTried sc \<subseteq> U"

definition budget :: "string set \<Rightarrow> xscope \<Rightarrow> nat" where
  "budget U sc = 2 * card (U - xsTried sc) + length (xsSaturated sc)"

lemma track_err [simp]: "track U (sc\<lparr>xsLastErr := e\<rparr>) calls = track U sc calls" "budget U (sc\<lparr>xsLastErr := e\<rparr>) = budget U sc"
  by (simp_all add: track_def budget_def)

lemma card_tried: "finite U \<Longrightarrow> i \<in> U - T \<Longrightarrow> card (U - insert i T) < card (U - T)"
  by (rule psubset_card_mono) auto

lemma waitForSaturatedSlot_frame:
  assumes "waitForSaturatedSlot E sc w = (sc', w', out)" "steady E U d N" "wPool U d N w" "track U sc calls"
  shows "wPool U d N w' \<and> wCalls w' = wCalls w \<and> wMarks w' = wMarks w \<and> xsSinglePick sc' = xsSinglePick sc"
    "held (wSlots w') i = held (wSlots w) i + (case out of SlotGranted c \<Rightarrow> of_bool (cid c = i) | _ \<Rightarrow> 0)"
    "out = SlotGranted c \<Longrightarrow> track U sc' (calls @ [cid c]) \<and> budget U sc' < budget U sc"
proof -
  show "wPool U d N w' \<and> wCalls w' = wCalls w \<and> wMarks w' = wMarks w \<and> xsSinglePick sc' = xsSinglePick sc"
    using assms(1-3)
    by (auto simp: waitForSaturatedSlot_def Let_def intro!: tick_pool release_slot_pool
        split: if_splits sum.splits option.splits)
  show "held (wSlots w') i = held (wSlots w) i + (case out of SlotGranted c \<Rightarrow> of_bool (cid c = i) | _ \<Rightarrow> 0)"
    using assms(1) by (auto simp: waitForSaturatedSlot_def Let_def split: if_splits sum.splits option.splits
        dest!: take_candidate_SomeD)
  assume "out = SlotGranted c"
  then obtain j rest where "take_candidate j (xsSaturated sc) = Some (c, rest)" "sc' = sc\<lparr>xsSaturated := rest\<rparr>"
    using assms(1) by (auto simp: waitForSaturatedSlot_def Let_def split: if_splits sum.splits option.splits)
  then show "track U sc' (calls @ [cid c]) \<and> budget U sc' < budget U sc"
    using assms(4) by (auto simp: track_def budget_def dest!: take_candidate_SomeD)
qed


definition ready_ok ::
  "string set \<Rightarrow> int \<Rightarrow> int \<Rightarrow> xscope \<Rightarrow> world \<Rightarrow> string list \<Rightarrow> xscope \<times> world \<times> (goerr + candidate) \<Rightarrow> bool" where
  "ready_ok U d N sc w calls res =
     (case res of (sc', w', r) \<Rightarrow>
        wPool U d N w' \<and> wCalls w' = wCalls w \<and> wMarks w' = wMarks w \<and> xsSinglePick sc' = xsSinglePick sc \<and>
        (\<forall>i. held (wSlots w') i = held (wSlots w) i + (case r of Inl _ \<Rightarrow> 0 | Inr c \<Rightarrow> of_bool (cid c = i))) \<and>
        (case r of Inl _ \<Rightarrow> True | Inr c \<Rightarrow> track U sc' (calls @ [cid c]) \<and> budget U sc' < budget U sc))"

lemma nextReadyCandidate_wait:
  assumes "nextMixedCandidate E sc w = (sc1, w1, Inl errPick)" "steady E U d N" "wPool U d N w" "track U sc calls"
  shows "\<exists>res. nextReadyCandidate E sc w = Some res \<and> ready_ok U d N sc w calls res"
proof -
  note f1 = nextMixedCandidate_frame [OF assms(1-3)]
  have sc1: "sc1 = sc" using f1(2) by simp
  obtain sc2 w2 out where s: "waitForSaturatedSlot E sc1 w1 = (sc2, w2, out)" by (rule prod_cases3)
  have "wPool U d N w1" "track U sc1 calls" using f1(1) sc1 assms(4) by simp_all
  note f2 = waitForSaturatedSlot_frame [OF s assms(2) this]
  show ?thesis
    using assms(1) s f1(1) f2(1,2) f2(3) sc1
    by (subst nextReadyCandidate.simps, cases out) (simp_all add: ready_ok_def)
qed

lemma nextReadyCandidate_total:
  assumes "steady E U d N" "wPool U d N w" "track U sc calls"
  shows "\<exists>res. nextReadyCandidate E sc w = Some res \<and> ready_ok U d N sc w calls res"
  using assms(2,3)
proof (induction "card (U - xsTried sc)" arbitrary: sc w rule: less_induct)
  case less
  obtain sc1 w1 r1 where n: "nextMixedCandidate E sc w = (sc1, w1, r1)" by (rule prod_cases3)
  note f1 = nextMixedCandidate_frame [OF n assms(1) less.prems(1)]
  show ?case
  proof (cases r1)
    case (Inl errPick)
    with n show ?thesis using nextReadyCandidate_wait assms(1) less.prems by blast
  next
    case (Inr c)
    have fresh: "cid c \<in> U - xsTried sc" and sc1: "xsTried sc1 = insert (cid c) (xsTried sc)"
      "xsSaturated sc1 = xsSaturated sc" "xsSinglePick sc1 = xsSinglePick sc" using f1(2) Inr by simp_all
    have fin: "finite U" using assms(1) by (simp add: steady_def)
    have smaller: "card (U - xsTried sc1) < card (U - xsTried sc)" using card_tried [OF fin fresh] sc1(1) by simp
    have ready: "track U sc1 (calls @ [cid c])" "budget U sc1 < budget U sc"
      using less.prems(2) fresh sc1 smaller by (auto simp: track_def budget_def)
    obtain w2 full where a: "acquire_slot E w1 (cdAuth c) = (w2, full)" by fastforce
    have f2: "wPool U d N w2" "wCalls w2 = wCalls w" "wMarks w2 = wMarks w"
      "\<And>i. held (wSlots w2) i = held (wSlots w) i + of_bool (full = None \<and> cid c = i)"
      using acquire_slot_frame [OF a assms(1)] f1(1) by auto
    let ?sc = "\<lambda>e. sc1\<lparr>xsSaturated := xsSaturated sc1 @ [c], xsLastErr := Some (slot_goerr E e)\<rparr>"
    have "track U (?sc e) calls" "budget U (?sc e) < budget U sc" for e
      using less.prems(2) fresh sc1 smaller by (auto simp: track_def budget_def)
    with less.hyps [of "?sc e" w2 for e] f2(1) smaller
    have again: "\<exists>res. nextReadyCandidate E (?sc e) w2 = Some res \<and> ready_ok U d N (?sc e) w2 calls res" for e by simp
    have lift: "ready_ok U d N (?sc e) w2 calls res \<Longrightarrow> full = Some e \<Longrightarrow> ready_ok U d N sc w calls res" for e res
      using f2 sc1 \<open>\<And>e. budget U (?sc e) < budget U sc\<close> by (fastforce simp: ready_ok_def split: prod.splits sum.splits)
    show ?thesis
    proof (cases "moderateRequest (xeModerator E) (wStep w1) (cdAuth c)")
      case (Some e)
      then show ?thesis using n Inr f1(1) sc1(3) by (subst nextReadyCandidate.simps) (simp add: ready_ok_def)
    next
      case None
      show ?thesis
      proof (cases full)
        case None': None
        then show ?thesis
          using n Inr None a f2 ready sc1(3) by (subst nextReadyCandidate.simps) (simp add: ready_ok_def)
      next
        case (Some e)
        let ?bad = "isRequestInvalidError (xeUnmarshal E) (xeSprint E) (slot_goerr E e)"
        have "nextReadyCandidate E sc w =
            (if ?bad then Some (sc1, w2, Inl (slot_goerr E e)) else nextReadyCandidate E (?sc e) w2)"
          using n Inr None a Some by (subst nextReadyCandidate.simps) simp
        moreover have "ready_ok U d N sc w calls (sc1, w2, Inl (slot_goerr E e))"
          using f2 sc1(3) Some by (simp add: ready_ok_def)
        ultimately show ?thesis using again [of e] lift [OF _ Some] by metis
      qed
    qed
  qed
qed


text \<open>
  What one attempt does upstream and to the books, as a relation: it gives up without a call, is cancelled during a call,
  is served, is refused for good, or records the failure and goes on with another credential.
\<close>

inductive history :: "call_kind \<Rightarrow> bool \<Rightarrow> bool \<Rightarrow> string list \<Rightarrow> result list \<Rightarrow> bool" for kind single where
  gave_up: "history kind single False [] []"
| cancelled: "history kind single False [i] []"
| served: "rAuthID m = i \<Longrightarrow> rSuccess m \<Longrightarrow> history kind single True [i] (if kind = Generate then [m] else [])"
| refused: "rAuthID m = i \<Longrightarrow> \<not> rSuccess m \<Longrightarrow> history kind single False [i] (if kind = CountTokens then [] else [m])"
| again: "\<not> single \<Longrightarrow> history kind single ok calls marks \<Longrightarrow> rAuthID m = i \<Longrightarrow> \<not> rSuccess m \<Longrightarrow>
    history kind single ok (i # calls) (if kind = CountTokens then marks else m # marks)"

lemma history_calls:
  "history kind single ok calls marks \<Longrightarrow> (single \<longrightarrow> length calls \<le> 1) \<and> (ok \<longrightarrow> calls \<noteq> [])"
  by (induction rule: history.induct) auto

lemma history_served:
  "history Generate single ok calls marks \<Longrightarrow> ok \<Longrightarrow>
   marks \<noteq> [] \<and> map rAuthID marks = calls \<and> rSuccess (last marks) \<and> (\<forall>m \<in> set (butlast marks). \<not> rSuccess m)"
  by (induction rule: history.induct) auto

lemma history_failed:
  "history Generate single ok calls marks \<Longrightarrow> \<not> ok \<Longrightarrow>
   (map rAuthID marks = calls \<or> map rAuthID marks = butlast calls) \<and> (\<forall>m \<in> set marks. \<not> rSuccess m)"
  by (induction rule: history.induct) auto

definition attempt_ok ::
  "string set \<Rightarrow> int \<Rightarrow> int \<Rightarrow> call_kind \<Rightarrow> bool \<Rightarrow> string list \<Rightarrow> world \<Rightarrow> world \<times> (goerr + 'r) \<Rightarrow> bool" where
  "attempt_ok U d N kind single before w res =
     (case res of (w', r) \<Rightarrow>
        wPool U d N w' \<and>
        (\<exists>calls marks. wCalls w' = wCalls w @ calls \<and> wMarks w' = wMarks w @ marks \<and>
           distinct (before @ calls) \<and> set calls \<subseteq> U \<and> history kind single (\<not> isl r) calls marks \<and>
           (\<forall>i. held (wSlots w') i = held (wSlots w) i + of_bool (kind = Stream \<and> \<not> isl r \<and> last calls = i))))"

lemma call_upstream_frame:
  "call_upstream E c w = (w', out) \<Longrightarrow> steady E U d N \<Longrightarrow> wPool U d N w \<Longrightarrow>
   wPool U d N w' \<and> wCalls w' = wCalls w @ [cid c] \<and> wMarks w' = wMarks w \<and> wSlots w' = wSlots w"
  using tick_pool by (fastforce simp: call_upstream_def Let_def)

lemma result_of_simps [simp]:
  "rAuthID (result_of sc c out) = cid c" "rSuccess (result_of sc c out) \<longleftrightarrow> (case out of Done _ _ \<Rightarrow> True | Fail _ \<Rightarrow> False)"
  by (simp_all add: result_of_def)

lemma track_call: "track U sc (calls @ [i]) \<Longrightarrow> distinct (calls @ [i]) \<and> i \<in> U"
  by (auto simp: track_def)

lemma attempt_ok_again:
  assumes "attempt_ok U d N kind False (before @ [i]) w2 res" "wCalls w2 = wCalls w @ [i]"
    "wMarks w2 = (if kind = CountTokens then wMarks w else wMarks w @ [m])" "rAuthID m = i" "\<not> rSuccess m"
    "\<And>j. held (wSlots w2) j = held (wSlots w) j" "i \<in> U"
  shows "attempt_ok U d N kind False before w res"
proof -
  obtain w' r where res: "res = (w', r)" by fastforce
  obtain calls marks where h: "wPool U d N w'" "wCalls w' = wCalls w2 @ calls" "wMarks w' = wMarks w2 @ marks"
    "distinct ((before @ [i]) @ calls)" "set calls \<subseteq> U" "history kind False (\<not> isl r) calls marks"
    "\<And>j. held (wSlots w') j = held (wSlots w2) j + of_bool (kind = Stream \<and> \<not> isl r \<and> last calls = j)"
    using assms(1) unfolding attempt_ok_def res by auto
  let ?marks = "if kind = CountTokens then marks else m # marks"
  have "history kind False (\<not> isl r) (i # calls) ?marks" using h(6) assms(4,5) by (intro history.again) auto
  moreover have "\<not> isl r \<Longrightarrow> last (i # calls) = last calls" using history_calls [OF h(6)] by auto
  ultimately show ?thesis
    unfolding attempt_ok_def res using h assms(2,3,6,7)
    by (auto intro!: exI [of _ "i # calls"] exI [of _ ?marks])
qed


lemma attempt_ok_stop:
  assumes "wPool U d N w'" "wCalls w' = wCalls w @ calls" "wMarks w' = wMarks w @ marks" "distinct (before @ calls)"
    "set calls \<subseteq> U" "history kind single (\<not> isl r) calls marks"
    "\<And>i. held (wSlots w') i = held (wSlots w) i + of_bool (kind = Stream \<and> \<not> isl r \<and> last calls = i)"
  shows "attempt_ok U d N kind single before w (w', r)"
  unfolding attempt_ok_def using assms by auto

text \<open>The call of a candidate that owns a slot, when the attempt ends with it.\<close>

lemma execution_loop_served:
  assumes "steady E U d N" "wPool U d N w1" "wCalls w1 = wCalls w" "wMarks w1 = wMarks w"
    "\<And>i. held (wSlots w1) i = held (wSlots w) i + of_bool (cid c = i)" "distinct (before @ [cid c])" "cid c \<in> U"
    "call_upstream E c w1 = (w2, Done r h)"
  shows "attempt_ok U d N kind single before w
    (case kind of Generate \<Rightarrow> mark_result E (result_of sc c (Done r h)) (release_slot E w2 (cid c))
     | CountTokens \<Rightarrow> release_slot E w2 (cid c) | Stream \<Rightarrow> w2, Inr r)" (is "attempt_ok _ _ _ _ _ _ _ (?w, _)")
proof (rule attempt_ok_stop [where calls = "[cid c]" and
      marks = "if kind = Generate then [result_of sc c (Done r h)] else []"])
  note f = call_upstream_frame [OF assms(8,1,2)]
  show "wPool U d N ?w"
    using f assms(1) by (simp add: release_slot_pool mark_result_pool split: call_kind.split)
  show "wCalls ?w = wCalls w @ [cid c]" using f assms(3) by (simp split: call_kind.split)
  show "wMarks ?w = wMarks w @ (if kind = Generate then [result_of sc c (Done r h)] else [])"
    using f assms(4) by (simp split: call_kind.split)
  show "history kind single (\<not> isl (Inr r)) [cid c] (if kind = Generate then [result_of sc c (Done r h)] else [])"
    using history.served [of "result_of sc c (Done r h)" "cid c" kind single] by simp
  show "held (wSlots ?w) i = held (wSlots w) i + of_bool (kind = Stream \<and> \<not> isl (Inr r) \<and> last [cid c] = i)" for i
    using f assms(5) by (simp split: call_kind.split)
qed (use assms(6,7) in simp_all)

text \<open>A call that fails: the attempt is cancelled, refused, or goes on in a smaller scope.\<close>

lemma execution_loop_failed:
  fixes x :: xerr and E :: "('r, 'x) xenv_scheme"
  assumes "nextReadyCandidate E sc w = Some (sc1, w1, Inr c)" "call_upstream E c w1 = (w2, Fail x)"
    "steady E U d N" "wPool U d N w1" "wCalls w1 = wCalls w" "wMarks w1 = wMarks w"
    "\<And>i. held (wSlots w1) i = held (wSlots w) i + of_bool (cid c = i)" "distinct (before @ [cid c])" "cid c \<in> U"
    and on: "\<And>w4. wPool U d N w4 \<Longrightarrow> \<exists>res. execution_loop E kind (sc1\<lparr>xsLastErr := Some (xGo x)\<rparr>) w4 = Some res \<and>
               attempt_ok U d N kind (xsSinglePick sc1) (before @ [cid c]) w4 res"
  shows "\<exists>res. execution_loop E kind sc w = Some res \<and> attempt_ok U d N kind (xsSinglePick sc1) before w res"
proof -
  note f2 = call_upstream_frame [OF assms(2-4)]
  let ?w3 = "release_slot E w2 (cid c)" and ?m = "result_of sc1 c (Fail x :: 'r outcome)"
  let ?w4 = "if kind = CountTokens then ?w3 else mark_result E ?m ?w3"
  let ?stop = "isRequestInvalidError (xeUnmarshal E) (xeSprint E) (xGo x) \<or> xsSinglePick sc1"
  have pool: "wPool U d N ?w3" "wPool U d N ?w4" using f2 assms(3) by (simp_all add: release_slot_pool mark_result_pool)
  have w4: "wCalls ?w4 = wCalls w @ [cid c]" "wMarks ?w4 = (if kind = CountTokens then wMarks w else wMarks w @ [?m])"
    "\<And>i. held (wSlots ?w4) i = held (wSlots w) i" using assms(5-7) f2 by simp_all
  have stop3: "attempt_ok U d N kind (xsSinglePick sc1) before w (?w3, Inl e)" for e :: goerr
    using assms(5-9) f2 pool(1)
    by (intro attempt_ok_stop [where calls = "[cid c]" and marks = "[]"]) (auto intro: history.intros)
  have stop4: "attempt_ok U d N kind (xsSinglePick sc1) before w (?w4, Inl (xGo x))"
    using assms(8,9) pool(2) w4 history.refused [of ?m "cid c" kind "xsSinglePick sc1"]
    by (intro attempt_ok_stop [where calls = "[cid c]" and marks = "if kind = CountTokens then [] else [?m]"]) auto
  have go_on: "\<exists>res. execution_loop E kind (sc1\<lparr>xsLastErr := Some (xGo x)\<rparr>) ?w4 = Some res \<and>
      attempt_ok U d N kind (xsSinglePick sc1) before w res" if "\<not> xsSinglePick sc1"
    using on [OF pool(2)] attempt_ok_again [OF _ w4(1,2) _ _ w4(3) assms(9)] that by auto
  have step: "execution_loop E kind sc w =
      (case xeCtx E (wStep ?w3) of
         Some errCtx \<Rightarrow> Some (?w3, Inl errCtx)
       | None \<Rightarrow> if ?stop then Some (?w4, Inl (xGo x)) else execution_loop E kind (sc1\<lparr>xsLastErr := Some (xGo x)\<rparr>) ?w4)"
    using assms(1,2) by (subst execution_loop.simps, unfold Let_def) (simp split del: if_split)
  consider e where "xeCtx E (wStep ?w3) = Some e" | "xeCtx E (wStep ?w3) = None" "?stop"
    | "xeCtx E (wStep ?w3) = None" "\<not> ?stop" by blast
  then show ?thesis
  proof cases
    case 1
    then show ?thesis unfolding step using stop3 by simp
  next
    case 2
    then show ?thesis unfolding step using stop4 by simp
  next
    case 3
    then show ?thesis unfolding step using go_on by simp
  qed
qed

lemma execution_loop_total:
  assumes "steady E U d N" "wPool U d N w" "track U sc before"
  shows "\<exists>res. execution_loop E kind sc w = Some res \<and> attempt_ok U d N kind (xsSinglePick sc) before w res"
  using assms(2,3)
proof (induction "budget U sc" arbitrary: sc w before rule: less_induct)
  case less
  from nextReadyCandidate_total [OF assms(1) less.prems] obtain sc1 w1 r where
    n: "nextReadyCandidate E sc w = Some (sc1, w1, r)" "ready_ok U d N sc w before (sc1, w1, r)" by (metis prod_cases3)
  then have f1: "wPool U d N w1" "wCalls w1 = wCalls w" "wMarks w1 = wMarks w" "xsSinglePick sc1 = xsSinglePick sc"
    by (simp_all add: ready_ok_def)
  show ?case
  proof (cases r)
    case (Inl e)
    then have "attempt_ok U d N kind (xsSinglePick sc) before w (w1, Inl e)"
      using n(2) less.prems(2)
      by (intro attempt_ok_stop [where calls = "[]" and marks = "[]"]) (auto simp: ready_ok_def track_def intro: history.intros)
    then show ?thesis using n(1) Inl by (subst execution_loop.simps) simp
  next
    case (Inr c)
    with n(2) have slot: "\<And>i. held (wSlots w1) i = held (wSlots w) i + of_bool (cid c = i)"
      and t: "track U sc1 (before @ [cid c])" and smaller: "budget U sc1 < budget U sc" by (simp_all add: ready_ok_def)
    note new = track_call [OF t, THEN conjunct1] track_call [OF t, THEN conjunct2]
    obtain w2 out where c: "call_upstream E c w1 = (w2, out)" by fastforce
    show ?thesis
    proof (cases out)
      case (Done x h)
      note served = execution_loop_served [OF assms(1) f1(1-3) slot new c [unfolded Done]]
      show ?thesis using n(1) Inr c Done served by (subst execution_loop.simps) simp
    next
      case (Fail x)
      have "\<exists>res. execution_loop E kind (sc1\<lparr>xsLastErr := Some (xGo x)\<rparr>) w4 = Some res \<and>
          attempt_ok U d N kind (xsSinglePick sc1) (before @ [cid c]) w4 res" if "wPool U d N w4" for w4
        using less.hyps [of "sc1\<lparr>xsLastErr := Some (xGo x)\<rparr>" w4 "before @ [cid c]"] smaller that t by simp
      from execution_loop_failed [OF n(1) [unfolded Inr] c [unfolded Fail] assms(1) f1(1-3) slot new this]
      show ?thesis by (simp add: f1(4))
    qed
  qed
qed

lemma requested_model_single [simp]:
  "isSinglePickRouteRequest (opMeta (ensureRequestedModelMetadata opts model)) = isSinglePickRouteRequest (opMeta opts)"
  by (simp add: ensureRequestedModelMetadata_def isSinglePickRouteRequest_def pinnedAuthIDFromMetadata_def Let_def)

lemma execute_once_total:
  assumes "steady E U d N" "wPool U d N w"
  shows "\<exists>res. execute_once E kind providers model opts w = Some res \<and>
           attempt_ok U d N kind (isSinglePickRouteRequest (opMeta opts)) [] w res"
proof (cases "newMixedScope providers model opts")
  case (Inl e)
  have "attempt_ok U d N kind (isSinglePickRouteRequest (opMeta opts)) [] w (w, Inl (auth_goerr e))"
    using assms(2) by (intro attempt_ok_stop [where calls = "[]" and marks = "[]"]) (auto intro: history.intros)
  then show ?thesis using Inl by (simp add: execute_once_def)
next
  case (Inr sc)
  then have sc: "xsSinglePick sc = isSinglePickRouteRequest (opMeta opts)" "track U sc []"
    by (auto simp: newMixedScope_def track_def Let_def split: if_splits)
  from execution_loop_total [OF assms sc(2)] show ?thesis using Inr sc(1) by (simp add: execute_once_def)
qed

text \<open>
  C3: One attempt of \<^verbatim>\<open>executeMixedOnce\<close> ends whatever other requests, the moderator, the limiter and the providers do,
  as long as the credentials come from a finite pool. It calls every credential at most once, and only one when the request is
  tied to a credential. Every call is recorded with the cooldown service, in order, as a failure except for the last call of a
  served request; the only call that may go unrecorded is the last one of a request that was cancelled. All slots it took are
  given back.
\<close>

theorem executeMixedOnce_total:
  assumes "steady E U d N" "bounded_pool U d N (wMgr w)"
  shows "\<exists>w' r calls marks. executeMixedOnce E providers model opts w = Some (w', r) \<and>
    wCalls w' = wCalls w @ calls \<and> wMarks w' = wMarks w @ marks \<and> distinct calls \<and> set calls \<subseteq> U \<and>
    (isSinglePickRouteRequest (opMeta opts) \<longrightarrow> length calls \<le> 1) \<and> (\<forall>i. held (wSlots w') i = held (wSlots w) i) \<and>
    (case r of
       Inr _ \<Rightarrow> calls \<noteq> [] \<and> map rAuthID marks = calls \<and> rSuccess (last marks) \<and> (\<forall>m \<in> set (butlast marks). \<not> rSuccess m)
     | Inl _ \<Rightarrow> (map rAuthID marks = calls \<or> map rAuthID marks = butlast calls) \<and> (\<forall>m \<in> set marks. \<not> rSuccess m))"
proof -
  let ?single = "isSinglePickRouteRequest (opMeta opts)"
  obtain w' r where e: "executeMixedOnce E providers model opts w = Some (w', r)"
    "attempt_ok U d N Generate ?single [] w (w', r)"
    using execute_once_total [OF assms] unfolding executeMixedOnce_def by (metis surj_pair)
  then obtain calls marks where h: "wCalls w' = wCalls w @ calls" "wMarks w' = wMarks w @ marks" "distinct calls"
    "set calls \<subseteq> U" "history Generate ?single (\<not> isl r) calls marks" "\<forall>i. held (wSlots w') i = held (wSlots w) i"
    by (auto simp: attempt_ok_def)
  note facts = history_calls [OF h(5)] history_served [OF h(5)] history_failed [OF h(5)]
  have "case r of
       Inr _ \<Rightarrow> calls \<noteq> [] \<and> map rAuthID marks = calls \<and> rSuccess (last marks) \<and> (\<forall>m \<in> set (butlast marks). \<not> rSuccess m)
     | Inl _ \<Rightarrow> (map rAuthID marks = calls \<or> map rAuthID marks = butlast calls) \<and> (\<forall>m \<in> set marks. \<not> rSuccess m)"
    using facts by (cases r) simp_all
  then show ?thesis using e(1) h facts(1) by blast
qed


section \<open>Retries end\<close>

lemma shouldRetryAfterError_attempts:
  assumes "shouldRetryAfterError unmarshal sprint d auths err attempt providers model maxWait meta now = Some wait"
  shows "\<exists>a. Some a \<in> snd ` set auths \<and> attempt < effective_retry d a"
proof -
  let ?f = "auth_wait d (provider_set providers) model attempt now"
  have f: "fold (wait_step ?f) (map snd auths) None = Some wait"
    using assms by (auto simp: shouldRetryAfterError_def closestWait_def split: if_splits option.splits)
  from wait_step_least [where f = ?f and xs = "map snd auths" and acc = None, unfolded f]
  obtain a where "Some a \<in> snd ` set auths" "?f a = Some wait" by auto
  then show ?thesis by (auto simp: auth_wait_def split: if_splits)
qed

lemma retries_left:
  assumes "bounded_pool U d N m"
    "shouldRetryAfterError unmarshal sprint d (mgAuths m) err (int attempt) providers model maxWait meta now = Some wait"
  shows "attempt < nat N"
proof -
  from shouldRetryAfterError_attempts [OF assms(2)] obtain k a where
    "(k, Some a) \<in> set (mgAuths m)" "int attempt < effective_retry d a" by auto
  with assms(1) show ?thesis by (fastforce simp: bounded_pool_def)
qed

lemma waitForCooldown_frame:
  "waitForCooldown E wait w = (w', r) \<Longrightarrow> steady E U d N \<Longrightarrow> wPool U d N w \<Longrightarrow>
   wPool U d N w' \<and> wCalls w' = wCalls w \<and> wSlots w' = wSlots w"
  using tick_pool by (fastforce simp: waitForCooldown_def Let_def split: if_splits)

definition retries_ok :: "string set \<Rightarrow> int \<Rightarrow> int \<Rightarrow> call_kind \<Rightarrow> nat \<Rightarrow> world \<Rightarrow> world \<times> (goerr + 'r) \<Rightarrow> bool" where
  "retries_ok U d N kind tries w res =
     (case res of (w', r) \<Rightarrow>
        wPool U d N w' \<and>
        (\<exists>calls. wCalls w' = wCalls w @ calls \<and> set calls \<subseteq> U \<and> (\<forall>i. count_list calls i \<le> tries) \<and>
           (\<not> isl r \<longrightarrow> calls \<noteq> []) \<and>
           (\<forall>i. held (wSlots w') i = held (wSlots w) i + of_bool (kind = Stream \<and> \<not> isl r \<and> last calls = i))))"

lemma count_list_distinct: "distinct xs \<Longrightarrow> count_list xs i \<le> 1"
  by (induction xs) (auto simp: count_list_0_iff)

lemma attempt_retries:
  assumes "attempt_ok U d N kind single [] w res" "1 \<le> tries"
  shows "retries_ok U d N kind tries w res"
proof -
  obtain w' r where res: "res = (w', r)" by fastforce
  with assms(1) obtain calls marks where h: "wPool U d N w'" "wCalls w' = wCalls w @ calls" "distinct calls" "set calls \<subseteq> U"
    "history kind single (\<not> isl r) calls marks"
    "\<forall>i. held (wSlots w') i = held (wSlots w) i + of_bool (kind = Stream \<and> \<not> isl r \<and> last calls = i)"
    by (auto simp: attempt_ok_def)
  have "\<forall>i. count_list calls i \<le> tries" using count_list_distinct [OF h(3)] assms(2) le_trans by blast
  with h history_calls [OF h(5)] show ?thesis by (auto simp: retries_ok_def res)
qed

lemma retries_ok_again:
  assumes "retries_ok U d N kind 1 w (w1, Inl e)" "wCalls w2 = wCalls w1" "wSlots w2 = wSlots w1"
    "retries_ok U d N kind tries w2 res"
  shows "retries_ok U d N kind (Suc tries) w res"
proof -
  obtain w' r where res: "res = (w', r)" by fastforce
  obtain c1 where c1: "wCalls w1 = wCalls w @ c1" "set c1 \<subseteq> U" "\<forall>i. count_list c1 i \<le> 1"
    "\<forall>i. held (wSlots w1) i = held (wSlots w) i" using assms(1) by (auto simp: retries_ok_def)
  obtain c2 where c2: "wPool U d N w'" "wCalls w' = wCalls w2 @ c2" "set c2 \<subseteq> U" "\<forall>i. count_list c2 i \<le> tries"
    "\<not> isl r \<longrightarrow> c2 \<noteq> []" "\<forall>i. held (wSlots w') i = held (wSlots w2) i + of_bool (kind = Stream \<and> \<not> isl r \<and> last c2 = i)"
    using assms(4) by (auto simp: retries_ok_def res)
  have "count_list (c1 @ c2) i \<le> Suc tries" for i using add_mono [OF spec [OF c1(3)] spec [OF c2(4)], of i i] by simp
  then show ?thesis
    unfolding retries_ok_def res using c1 c2 assms(2,3) by (auto intro!: exI [of _ "c1 @ c2"])
qed

lemma retry_loop_total:
  fixes E :: "('r, 'x) xenv_scheme"
  assumes "steady E U d N" "wPool U d N w" "rsRequestRetry cfg = d"
  shows "\<exists>res. retry_loop E cfg kind providers model opts attempt w = Some res \<and>
           retries_ok U d N kind (Suc (nat N - attempt)) w res"
  using assms(2)
proof (induction "nat N - attempt" arbitrary: attempt w rule: less_induct)
  case less
  let ?tries = "Suc (nat N - attempt)"
  from execute_once_total [OF assms(1) less.prems] obtain w1 r where
    e: "execute_once E kind providers model opts w = Some (w1, r)"
      "attempt_ok U d N kind (isSinglePickRouteRequest (opMeta opts)) [] w (w1, r)" by (metis surj_pair)
  note once = attempt_retries [OF e(2) le_refl]
  let ?w2 = "tick E w1"
  have w2: "wPool U d N ?w2" using once tick_pool [OF assms(1)] by (simp add: retries_ok_def)
  show ?case
  proof (cases r)
    case (Inr x)
    then show ?thesis using e(1) attempt_retries [OF e(2), of ?tries] by (subst retry_loop.simps) simp
  next
    case (Inl err)
    let ?retry = "shouldRetryAfterError (xeUnmarshal E) (xeSprint E) d (mgAuths (wMgr ?w2)) (Some err) (int attempt)
        providers model (rsMaxInterval cfg) (opMeta opts) (now_at E ?w2)"
    have stop: "retries_ok U d N kind ?tries w (w3, Inl e3 :: goerr + 'r)"
      if "wPool U d N w3" "wCalls w3 = wCalls w1" "wSlots w3 = wSlots w1" for w3 and e3 :: goerr
      using attempt_retries [OF e(2), of ?tries] that by (simp add: retries_ok_def Inl)
    show ?thesis
    proof (cases ?retry)
      case None
      then show ?thesis using e(1) Inl assms(3) stop [OF w2] by (subst retry_loop.simps) (simp add: Let_def)
    next
      case (Some wait)
      have left: "attempt < nat N" by (rule retries_left [OF w2 Some])
      obtain w3 cancelled where c: "waitForCooldown E wait ?w2 = (w3, cancelled)" by fastforce
      note f3 = waitForCooldown_frame [OF c assms(1) w2, simplified]
      show ?thesis
      proof (cases cancelled)
        case (Some e3)
        then show ?thesis using e(1) Inl assms(3) \<open>?retry = Some wait\<close> c stop f3 by (subst retry_loop.simps) (simp add: Let_def)
      next
        case None
        have "\<exists>res. retry_loop E cfg kind providers model opts (attempt + 1) w3 = Some res \<and>
            retries_ok U d N kind (Suc (nat N - (attempt + 1))) w3 res"
          using less.hyps [of "attempt + 1" w3] left f3 by simp
        then obtain res where res: "retry_loop E cfg kind providers model opts (attempt + 1) w3 = Some res"
          "retries_ok U d N kind (nat N - attempt) w3 res" using left by (auto simp: Suc_diff_Suc)
        have "retry_loop E cfg kind providers model opts attempt w = Some res"
          using e(1) Inl assms(3) Some c None res(1) by (subst retry_loop.simps) (simp add: Let_def)
        then show ?thesis using retries_ok_again [OF once [unfolded Inl] _ _ res(2)] f3 by simp
      qed
    qed
  qed
qed


text \<open>
  C4: A request ends: \<^verbatim>\<open>runExecutionWithRetry\<close> returns, with a result or an error, whatever the rest of the system does
  with a finite pool of credentials that ask for at most \<open>N\<close> retries. No credential is called more than \<open>N + 1\<close> times, and
  when the request returns it holds no slot, except the one of a stream that has started.
\<close>

theorem runExecutionWithRetry_total:
  assumes "steady E U (rsRequestRetry cfg) N" "bounded_pool U (rsRequestRetry cfg) N (wMgr w)"
  shows "\<exists>w' r calls. runExecutionWithRetry E cfg kind providers model opts w = Some (w', r) \<and>
    wCalls w' = wCalls w @ calls \<and> set calls \<subseteq> U \<and> (\<forall>i. count_list calls i \<le> nat N + 1) \<and>
    (\<forall>i. held (wSlots w') i = held (wSlots w) i + of_bool (kind = Stream \<and> \<not> isl r \<and> last calls = i))"
proof (cases "normalizeProviders providers = []")
  case True
  then show ?thesis by (simp add: runExecutionWithRetry_def)
next
  case False
  from retry_loop_total [OF assms refl, of kind "normalizeProviders providers" model opts 0] obtain w' r where
    "retry_loop E cfg kind (normalizeProviders providers) model opts 0 w = Some (w', r)"
    "retries_ok U (rsRequestRetry cfg) N kind (nat N + 1) w (w', r)" by auto
  then show ?thesis using False by (auto simp: runExecutionWithRetry_def retries_ok_def)
qed

definition desk_env :: "string xenv" where
  "desk_env =
     \<lparr>xeSched = plain_env None, xeClock = (\<lambda>_. 5), xeOther = (\<lambda>_ m. m), xeCtx = (\<lambda>_. None), xeModerator = None,
      xeWait = (\<lambda>_ _. Inl upstream_error), xeRun = (\<lambda>_ _ _. Fail \<lparr>xGo = upstream_error, xRetry = None, xHeaders = [], xWindow = None\<rparr>),
      xeAlias = (\<lambda>_ model. model), xeText = (\<lambda>_. ''busy''), xeUnmarshal = (\<lambda>_. None), xeSprint = (\<lambda>_. ''''),
      xeOff = False, xePublishing = False\<rparr>"

definition desk_world :: world where
  "desk_world = \<lparr>wMgr = desk, wSched = fresh_sched, wStep = 0, wCalls = [], wMarks = [], wSlots = []\<rparr>"

lemma desk_steady: "steady desk_env {''a1'', ''b1''} 3 3"
  by (simp add: steady_def desk_env_def)

lemma desk_bounded: "bounded_pool {''a1'', ''b1''} 3 3 (wMgr desk_world)"
  by code_simp

theorem executeMixedOnce_total_witness:
  "\<exists>w' r. executeMixedOnce desk_env [''codex''] ''gpt-5'' desk_opts desk_world = Some (w', r) \<and> length (wCalls w') \<le> 2 \<and>
     held (wSlots w') ''a1'' = 0"
proof -
  have e: "wCalls desk_world = []" "wSlots desk_world = []" by (simp_all add: desk_world_def)
  from executeMixedOnce_total [OF desk_steady desk_bounded, of "[''codex'']" "''gpt-5''" desk_opts] obtain w' r calls where
    w: "executeMixedOnce desk_env [''codex''] ''gpt-5'' desk_opts desk_world = Some (w', r)" "wCalls w' = calls"
      "distinct calls" "set calls \<subseteq> {''a1'', ''b1''}" "\<forall>i. held (wSlots w') i = 0" by (auto simp: e)
  have "length calls \<le> card {''a1'', ''b1''}"
    unfolding distinct_card [OF w(3), symmetric] using w(4) by (intro card_mono) auto
  then show ?thesis using w by simp
qed

theorem runExecutionWithRetry_total_witness:
  "\<exists>w' r. runExecutionWithRetry desk_env \<lparr>rsRequestRetry = 3, rsMaxInterval = 60\<rparr> Generate [''codex''] ''gpt-5'' desk_opts desk_world
     = Some (w', r) \<and> count_list (wCalls w') ''a1'' \<le> 4 \<and> held (wSlots w') ''a1'' = 0"
proof -
  let ?cfg = "\<lparr>rsRequestRetry = 3, rsMaxInterval = 60\<rparr>"
  have h: "steady desk_env {''a1'', ''b1''} (rsRequestRetry ?cfg) 3"
    "bounded_pool {''a1'', ''b1''} (rsRequestRetry ?cfg) 3 (wMgr desk_world)"
    using desk_steady desk_bounded by simp_all
  have e: "wCalls desk_world = []" "wSlots desk_world = []" by (simp_all add: desk_world_def)
  from runExecutionWithRetry_total [OF h, of Generate "[''codex'']" "''gpt-5''" desk_opts] show ?thesis
    by (auto simp: e)
qed

end
