(* ===== verification/Stream_Forward.thy ===== *)
theory Stream_Forward
  imports Execution
begin

text \<open>
  A started stream: the goroutine of \<^verbatim>\<open>wrapStreamResult\<close> in \<^verbatim>\<open>src/sdk/cliproxy/auth/conductor_execution_service.go\<close>, and the
  tracker of \<^verbatim>\<open>responses_stream_completion.go\<close> that decides whether a Responses stream has come to its end.

  \<open>json_valid\<close> is \<^verbatim>\<open>json.Valid\<close>, and \<open>json_into\<close> is \<^verbatim>\<open>json.Unmarshal\<close> into a payload with the given contents: the contents
  afterwards and whether there was no error.
\<close>

section \<open>Terminal events\<close>

record terminal_error =
  teType :: string
  teCode :: string
  teMessage :: string

record payload =
  plType :: string
  plCode :: string
  plMessage :: string
  plError :: terminal_error
  plResponseError :: terminal_error

record json_codec =
  json_valid :: "string \<Rightarrow> bool"
  json_into :: "payload \<Rightarrow> string \<Rightarrow> payload \<times> bool"

definition empty_payload :: payload where
  "empty_payload = (let e = \<lparr>teType = '''', teCode = '''', teMessage = ''''\<rparr>
                    in \<lparr>plType = '''', plCode = '''', plMessage = '''', plError = e, plResponseError = e\<rparr>)"

definition firstNonEmpty :: "string list \<Rightarrow> string" where
  "firstNonEmpty values = (case List.find (\<lambda>v. trim_space v \<noteq> '''') values of Some v \<Rightarrow> trim_space v | None \<Rightarrow> '''')"

definition responsesStreamTerminalHTTPStatus :: "string \<Rightarrow> string \<Rightarrow> int" where
  "responsesStreamTerminalHTTPStatus code errType =
     (let lower = to_lower (code @ '' '' @ errType); has = contains lower
      in if has ''rate_limit'' \<or> has ''quota'' then 429
         else if has ''invalid_request'' then 400
         else if has ''invalid_api_key'' \<or> has ''unauthorized'' \<or> has ''authentication'' then 401
         else if has ''forbidden'' \<or> has ''permission'' then 403
         else if has ''timeout'' then 408
         else 502)"

definition responsesStreamTerminalRetryable :: "string \<Rightarrow> string \<Rightarrow> bool" where
  "responsesStreamTerminalRetryable code errType =
     (let status = responsesStreamTerminalHTTPStatus code errType in status = 429 \<or> status = 408 \<or> 500 \<le> status)"

definition responsesStreamTerminalError :: "json_codec \<Rightarrow> string \<Rightarrow> string \<Rightarrow> error" where
  "responsesStreamTerminalError J eventType data =
     (let p0 = empty_payload\<lparr>plType := eventType\<rparr>;
          p = (if trim_space data \<noteq> '''' \<and> json_valid J data then fst (json_into J p0 data) else p0);
          code = firstNonEmpty [teCode (plResponseError p), teCode (plError p), plCode p];
          errType = firstNonEmpty [teType (plResponseError p), teType (plError p), plType p, eventType];
          m0 = firstNonEmpty [teMessage (plResponseError p), teMessage (plError p), plMessage p];
          message = (if m0 = '''' then ''upstream responses stream ended with '' @ firstNonEmpty [plType p, eventType, ''error''] else m0)
      in \<lparr>eCode = firstNonEmpty [code, errType, ''response_stream_terminal_error''], eMessage = message,
          eRetryable = responsesStreamTerminalRetryable code errType,
          eHTTPStatus = responsesStreamTerminalHTTPStatus code errType, eQuotaWindow = '''', eQuotaWindowMinutes = 0\<rparr>)"

text \<open>The state an event leaves: \<^verbatim>\<open>completed\<close>, or an error that ended the stream, or neither.\<close>

datatype terminal = Running | Completed | Ended error

definition responsesSSEEventTerminalState :: "json_codec \<Rightarrow> string \<Rightarrow> string \<Rightarrow> terminal" where
  "responsesSSEEventTerminalState J eventType data =
     (if eventType = ''response.completed'' then Completed
      else if eventType = ''response.failed'' \<or> eventType = ''error''
      then (if trim_space data = '''' then Running else Ended (responsesStreamTerminalError J eventType data))
      else if data = '''' \<or> data = ''[DONE]'' then Running
      else case json_into J empty_payload data of
             (p, ok) \<Rightarrow>
               if \<not> ok then Running
               else let t = trim_space (plType p)
                    in if t = ''response.completed'' then Completed
                       else if t = ''response.failed'' \<or> t = ''error'' then Ended (responsesStreamTerminalError J t data)
                       else Running)"

section \<open>Server-sent events\<close>

abbreviation newline :: char where "newline \<equiv> CHR 0x0A"
abbreviation return :: char where "return \<equiv> CHR 0x0D"

definition responsesSSEDataLooksStandaloneEvent :: "json_codec \<Rightarrow> string \<Rightarrow> bool" where
  "responsesSSEDataLooksStandaloneEvent J data0 =
     (let data = trim_space data0
      in if data = '''' \<or> data = ''[DONE]'' then True
         else if \<not> json_valid J data then False
         else case json_into J empty_payload data of
                (p, ok) \<Rightarrow> ok \<and> (trim_space (plType p) \<noteq> '''' \<or> trim_space (teMessage (plResponseError p)) \<noteq> '''' \<or>
                                trim_space (teMessage (plError p)) \<noteq> ''''))"

type_synonym sse_event = "string \<times> string"

text \<open>The events so far, the type of the current one and its data lines.\<close>

type_synonym sse_parse = "sse_event list \<times> string \<times> string list"

definition sse_flush :: "sse_parse \<Rightarrow> sse_parse" where
  "sse_flush = (\<lambda>(events, eventType, dataLines).
     if eventType = '''' \<and> dataLines = [] then (events, eventType, dataLines)
     else (events @ [(trim_space eventType, trim_space (join [newline] dataLines))], '''', []))"

definition cut_prefix :: "string \<Rightarrow> string \<Rightarrow> string option" where
  "cut_prefix p s = (if take (length p) s = p then Some (drop (length p) s) else None)"

definition trim_return :: "string \<Rightarrow> string" where
  "trim_return s = (if s \<noteq> [] \<and> last s = return then butlast s else s)"

definition sse_line :: "json_codec \<Rightarrow> string \<Rightarrow> sse_parse \<Rightarrow> sse_parse" where
  "sse_line J rawLine st =
     (let line = trim_space (trim_return rawLine)
      in if line = '''' then sse_flush st
         else if hd line = CHR '':'' then st
         else case cut_prefix ''event:'' line of
                Some v \<Rightarrow>
                  (case sse_flush st of (events, _, dataLines) \<Rightarrow> (events, trim_space v, dataLines))
              | None \<Rightarrow>
                  (case cut_prefix ''data:'' line of
                     Some v \<Rightarrow>
                       let data = trim_space v;
                           (events, eventType, dataLines) =
                             (case st of (es, t, ds) \<Rightarrow>
                                if t = '''' \<and> ds \<noteq> [] \<and> responsesSSEDataLooksStandaloneEvent J (join [newline] ds) \<and>
                                   responsesSSEDataLooksStandaloneEvent J data
                                then sse_flush st else st)
                       in (events, eventType, dataLines @ [data])
                   | None \<Rightarrow> st))"

definition parseResponsesSSEEvents :: "json_codec \<Rightarrow> string \<Rightarrow> sse_event list" where
  "parseResponsesSSEEvents J block = fst (sse_flush (fold (sse_line J) (split_on newline block) ([], '''', [])))"

fun first_terminal :: "json_codec \<Rightarrow> sse_event list \<Rightarrow> terminal" where
  "first_terminal J [] = Running"
| "first_terminal J ((t, d) # es) =
     (case responsesSSEEventTerminalState J t d of Running \<Rightarrow> first_terminal J es | x \<Rightarrow> x)"

definition responsesSSEBlockTerminalState :: "json_codec \<Rightarrow> string \<Rightarrow> terminal" where
  "responsesSSEBlockTerminalState J block = first_terminal J (parseResponsesSSEEvents J block)"

definition delimiters :: "string list" where
  "delimiters = [[newline, newline], [return, newline, return, newline], [return, return]]"

definition firstSSEBlockEnd :: "string \<Rightarrow> (nat \<times> nat) option" where
  "firstSSEBlockEnd buffer =
     fold (\<lambda>d best.
         case str_index buffer d of
           None \<Rightarrow> best
         | Some i \<Rightarrow> (case best of None \<Rightarrow> Some (i, length d) | Some (b, l) \<Rightarrow> if i < b then Some (i, length d) else best))
       delimiters None"

definition takeSSEBlock :: "string \<Rightarrow> (string \<times> string) option" where
  "takeSSEBlock buffer =
     (case firstSSEBlockEnd buffer of None \<Rightarrow> None | Some (e, l) \<Rightarrow> Some (take e buffer, drop (e + l) buffer))"

section \<open>The tracker\<close>

record completion_tracker =
  trBuffer :: string
  trState :: terminal

definition newTracker :: completion_tracker where
  "newTracker = \<lparr>trBuffer = '''', trState = Running\<rparr>"

definition newResponsesStreamCompletionTracker :: "string \<Rightarrow> completion_tracker option" where
  "newResponsesStreamCompletionTracker sourceFormat = (if sourceFormat \<noteq> ''openai-response'' then None else Some newTracker)"

lemma str_index_bound: "str_index s d = Some i \<Longrightarrow> i + length d \<le> length s"
proof -
  assume "str_index s d = Some i"
  then obtain w where "s = take i s @ d @ w" using str_index_SomeD by blast
  then have "length s = length (take i s) + length d + length w" by (metis append.assoc length_append)
  moreover have "i \<le> length s" using \<open>str_index s d = Some i\<close> by (induction s d arbitrary: i rule: str_index.induct) (auto split: if_splits)
  ultimately show ?thesis by simp
qed

lemma firstSSEBlockEnd_cases:
  "firstSSEBlockEnd buffer = Some (e, l) \<Longrightarrow> \<exists>d \<in> set delimiters. str_index buffer d = Some e \<and> l = length d"
  by (auto simp: firstSSEBlockEnd_def delimiters_def split: option.splits if_splits)

lemma takeSSEBlock_shorter: "takeSSEBlock buffer = Some (block, rest) \<Longrightarrow> length rest < length buffer"
  using firstSSEBlockEnd_cases str_index_bound
  by (fastforce simp: takeSSEBlock_def delimiters_def split: option.splits)

text \<open>The inner loop of \<^verbatim>\<open>Observe\<close>: blocks are taken from the buffer until one is terminal or none is left.\<close>

function drain :: "json_codec \<Rightarrow> string \<Rightarrow> completion_tracker" where
  "drain J buffer =
     (case takeSSEBlock buffer of
        None \<Rightarrow> \<lparr>trBuffer = buffer, trState = Running\<rparr>
      | Some (block, rest) \<Rightarrow>
          (case responsesSSEBlockTerminalState J block of
             Running \<Rightarrow> drain J rest
           | x \<Rightarrow> \<lparr>trBuffer = rest, trState = x\<rparr>))"
  by auto
termination by (relation "measure (length \<circ> snd)") (auto dest: takeSSEBlock_shorter)

declare drain.simps [simp del]

definition Observe :: "json_codec \<Rightarrow> string \<Rightarrow> completion_tracker \<Rightarrow> completion_tracker" where
  "Observe J chunk t =
     (if trState t \<noteq> Running \<or> chunk = '''' then t
      else case responsesSSEBlockTerminalState J chunk of
             Running \<Rightarrow> drain J (trBuffer t @ chunk)
           | x \<Rightarrow> t\<lparr>trState := x\<rparr>)"

definition newResponsesStreamIncompleteError :: error where
  "newResponsesStreamIncompleteError =
     \<lparr>eCode = ''response_stream_incomplete'', eMessage = ''upstream responses stream closed before response.completed'',
      eRetryable = True, eHTTPStatus = 502, eQuotaWindow = '''', eQuotaWindowMinutes = 0\<rparr>"

definition ErrIfIncomplete :: "json_codec \<Rightarrow> completion_tracker \<Rightarrow> error option" where
  "ErrIfIncomplete J t =
     (case trState t of
        Completed \<Rightarrow> None
      | Ended e \<Rightarrow> Some e
      | Running \<Rightarrow>
          (case (if trim_space (trBuffer t) \<noteq> '''' then responsesSSEBlockTerminalState J (trBuffer t) else Running) of
             Completed \<Rightarrow> None
           | Ended e \<Rightarrow> Some e
           | Running \<Rightarrow> Some newResponsesStreamIncompleteError))"

section \<open>Forwarding\<close>

record chunk =
  ckPayload :: string
  ckErr :: "xerr option"

record forwarding =
  fwFailed :: bool
  fwForward :: bool
  fwTracker :: "completion_tracker option"
  fwOut :: "chunk list"
  fwWorld :: world

record stream_source =
  ssAuthID :: string
  ssProvider :: string
  ssModel :: string
  ssHeaders :: headers

definition stream_result :: "stream_source \<Rightarrow> bool \<Rightarrow> error option \<Rightarrow> duration option \<Rightarrow> headers \<Rightarrow> result" where
  "stream_result S ok e retry h =
     \<lparr>rAuthID = ssAuthID S, rProvider = ssProvider S, rModel = ssModel S, rSuccess = ok, rRetryAfter = retry, rHeaders = h,
      rError = e\<rparr>"

text \<open>One chunk from upstream; \<open>done\<close> tells whether the \<^verbatim>\<open>select\<close> finds the context done instead of sending.\<close>

definition forward_chunk ::
  "('r, 'x) xenv_scheme \<Rightarrow> json_codec \<Rightarrow> stream_source \<Rightarrow> chunk \<times> bool \<Rightarrow> forwarding \<Rightarrow> forwarding" where
  "forward_chunk E J S ev st =
     (case ev of (c, done) \<Rightarrow>
        let st1 = (if ckErr c = None \<and> ckPayload c \<noteq> ''''
                   then st\<lparr>fwTracker := map_option (Observe J (ckPayload c)) (fwTracker st)\<rparr> else st);
            st2 = (case ckErr c of
                     None \<Rightarrow> st1
                   | Some x \<Rightarrow>
                       if fwFailed st1 then st1
                       else st1\<lparr>fwFailed := True,
                                fwWorld := mark_result E (stream_result S False (Some (errorFromExecution x)) (xRetry x)
                                             (if xHeaders x = [] then ssHeaders S else xHeaders x)) (fwWorld st1)\<rparr>)
        in if \<not> fwForward st2 then st2
           else if done then st2\<lparr>fwForward := False\<rparr>
           else st2\<lparr>fwOut := fwOut st2 @ [c]\<rparr>)"

text \<open>The error of the tracker as an error of the execution.\<close>

definition incomplete_xerr :: "error \<Rightarrow> xerr" where
  "incomplete_xerr e = \<lparr>xGo = auth_goerr e, xRetry = None, xHeaders = [], xWindow = None\<rparr>"

definition finish_stream ::
  "('r, 'x) xenv_scheme \<Rightarrow> json_codec \<Rightarrow> stream_source \<Rightarrow> bool \<Rightarrow> forwarding \<Rightarrow> forwarding" where
  "finish_stream E J S done st =
     (let st1 = (case (if fwFailed st then None else Option.bind (fwTracker st) (ErrIfIncomplete J)) of
                   None \<Rightarrow> st
                 | Some e \<Rightarrow>
                     let x = incomplete_xerr e;
                         st' = st\<lparr>fwFailed := True,
                                  fwWorld := mark_result E (stream_result S False (Some (errorFromExecution x)) (xRetry x) (ssHeaders S))
                                               (fwWorld st)\<rparr>
                     in if fwForward st \<and> \<not> done then st'\<lparr>fwOut := fwOut st' @ [\<lparr>ckPayload = '''', ckErr = Some x\<rparr>]\<rparr> else st')
      in if fwFailed st1 then st1
         else st1\<lparr>fwWorld := mark_result E (stream_result S True None None (ssHeaders S)) (fwWorld st1)\<rparr>)"

text \<open>
  The whole stream: the chunks and the choices of the \<^verbatim>\<open>select\<close>s, the choice at the end, and whether a slot is held. The
  result is what the client receives and the world after the slot has been given back.
\<close>

definition wrapStreamResult ::
  "('r, 'x) xenv_scheme \<Rightarrow> json_codec \<Rightarrow> stream_source \<Rightarrow> string \<Rightarrow> (chunk \<times> bool) list \<Rightarrow> bool \<Rightarrow> bool \<Rightarrow> world \<Rightarrow> chunk list \<times> world" where
  "wrapStreamResult E J S sourceFormat events done holdsSlot w =
     (let st0 = \<lparr>fwFailed = False, fwForward = True, fwTracker = newResponsesStreamCompletionTracker sourceFormat, fwOut = [], fwWorld = w\<rparr>;
          st = finish_stream E J S done (fold (forward_chunk E J S) events st0)
      in (fwOut st, if holdsSlot then release_slot E (fwWorld st) (ssAuthID S) else fwWorld st))"

section \<open>How the bytes are split does not matter\<close>

lemma str_index_nth:
  assumes "str_index s d = Some i" "k < length d"
  shows "s ! (i + k) = d ! k"
proof -
  obtain w where w: "s = take i s @ d @ w" using str_index_SomeD [OF assms(1)] by blast
  have "length (take i s) = i" using str_index_bound [OF assms(1)] by simp
  then show ?thesis using assms(2) by (subst w) (simp add: nth_append)
qed

lemma str_index_None: "str_index s d = None \<Longrightarrow> s \<noteq> u @ d @ w"
  using str_index_le by fastforce

lemma str_index_within:
  assumes "str_index (s @ c) d = Some j" "j + length d \<le> length s"
  shows "\<exists>w. s = take j s @ d @ w"
proof -
  obtain v where v: "s @ c = take j (s @ c) @ d @ v" using str_index_SomeD [OF assms(1)] by blast
  have "d = take (length d) (drop j (take j (s @ c) @ d @ v))" using str_index_bound [OF assms(1)] by simp
  also have "\<dots> = take (length d) (drop j s)" using assms(2) by (subst v [symmetric]) simp
  finally have "drop j s = d @ drop (length d) (drop j s)" by (metis append_take_drop_id)
  then show ?thesis by (metis append_take_drop_id)
qed

lemma str_index_append:
  assumes "str_index s d = Some i"
  shows "str_index (s @ c) d = Some i"
proof -
  have bound: "i + length d \<le> length s" by (rule str_index_bound [OF assms])
  obtain w where "s = take i s @ d @ w" using str_index_SomeD [OF assms] by blast
  then have "s @ c = take i s @ d @ (w @ c)" by (metis append.assoc)
  from str_index_le [OF this] obtain j where j: "str_index (s @ c) d = Some j" "j \<le> i" using bound by auto
  obtain w' where "s = take j s @ d @ w'" using str_index_within [OF j(1)] j(2) bound by auto
  from str_index_le [OF this] obtain k where "str_index s d = Some k" "k \<le> j" by auto
  then show ?thesis using assms j by simp
qed

text \<open>A delimiter that only appears with the bytes that follow starts after one that is already complete.\<close>

lemma later_delimiter:
  assumes "d \<in> set delimiters" "d' \<in> set delimiters"
    and "str_index b d' = Some e" "str_index b d = None" "str_index (b @ c) d = Some j"
  shows "e < j"
proof (rule ccontr)
  assume "\<not> e < j"
  then have le: "j \<le> e" by simp
  have bound: "e + length d' \<le> length b" by (rule str_index_bound [OF assms(3)])
  have over: "length b < j + length d"
    using str_index_within [OF assms(5)] str_index_None [OF assms(4)] by (meson not_le)
  have at: "k < length d' \<Longrightarrow> b ! (e + k) = d' ! k" "k < length d \<Longrightarrow> j + k < length b \<Longrightarrow> b ! (j + k) = d ! k" for k
    using str_index_nth [OF assms(3)] str_index_nth [OF assms(5), of k] by (auto simp: nth_append)
  have "d = [return, newline, return, newline]" "length d' = 2" "e = j \<or> e = Suc j"
    using assms(1,2) le bound over by (auto simp: delimiters_def)
  then show False using at(1) [of 0] at(1) [of 1] at(2) [of 0] at(2) [of 1] at(2) [of 2] assms(2) bound
    by (auto simp: delimiters_def numeral_2_eq_2)
qed

definition better :: "nat option \<Rightarrow> nat \<Rightarrow> (nat \<times> nat) option \<Rightarrow> (nat \<times> nat) option" where
  "better i l best =
     (case i of None \<Rightarrow> best
      | Some i \<Rightarrow> (case best of None \<Rightarrow> Some (i, l) | Some (b, l') \<Rightarrow> if i < b then Some (i, l) else best))"

lemma better_extend:
  assumes "\<And>i. o1 = Some i \<Longrightarrow> p1 = Some i" "\<And>i. o2 = Some i \<Longrightarrow> p2 = Some i" "\<And>i. o3 = Some i \<Longrightarrow> p3 = Some i"
    and "\<forall>j. o1 = None \<and> p1 = Some j \<longrightarrow> (\<forall>e. o2 = Some e \<longrightarrow> e < j) \<and> (\<forall>e. o3 = Some e \<longrightarrow> e < j)"
    and "\<forall>j. o2 = None \<and> p2 = Some j \<longrightarrow> (\<forall>e. o1 = Some e \<longrightarrow> e < j) \<and> (\<forall>e. o3 = Some e \<longrightarrow> e < j)"
    and "\<forall>j. o3 = None \<and> p3 = Some j \<longrightarrow> (\<forall>e. o1 = Some e \<longrightarrow> e < j) \<and> (\<forall>e. o2 = Some e \<longrightarrow> e < j)"
    and "better o3 l3 (better o2 l2 (better o1 l1 None)) = Some x"
  shows "better p3 l3 (better p2 l2 (better p1 l1 None)) = Some x"
proof -
  consider "o1 = p1" | j where "o1 = None" "p1 = Some j" using assms(1) by (cases o1; cases p1) auto
  note c1 = this
  consider "o2 = p2" | j where "o2 = None" "p2 = Some j" using assms(2) by (cases o2; cases p2) auto
  note c2 = this
  consider "o3 = p3" | j where "o3 = None" "p3 = Some j" using assms(3) by (cases o3; cases p3) auto
  note c3 = this
  show ?thesis
    by (insert assms(4-7), rule c1; rule c2; rule c3; auto simp: better_def split: option.splits if_splits)
qed

lemma firstSSEBlockEnd_better:
  "firstSSEBlockEnd b = better (str_index b [return, return]) 2
     (better (str_index b [return, newline, return, newline]) 4 (better (str_index b [newline, newline]) 2 None))"
  unfolding firstSSEBlockEnd_def delimiters_def better_def
  by (cases "str_index b [return, return]"; cases "str_index b [return, newline, return, newline]";
      cases "str_index b [newline, newline]") simp_all

lemma firstSSEBlockEnd_append:
  assumes "firstSSEBlockEnd b = Some x"
  shows "firstSSEBlockEnd (b @ c) = Some x"
  using assms unfolding firstSSEBlockEnd_better
  by (rule better_extend [rotated -1]) (auto intro: str_index_append later_delimiter simp: delimiters_def)

lemma takeSSEBlock_append:
  assumes "takeSSEBlock b = Some (block, rest)"
  shows "takeSSEBlock (b @ c) = Some (block, rest @ c)"
proof -
  obtain e l where el: "firstSSEBlockEnd b = Some (e, l)" "block = take e b" "rest = drop (e + l) b"
    using assms by (auto simp: takeSSEBlock_def split: option.splits)
  have "e + l \<le> length b" using firstSSEBlockEnd_cases [OF el(1)] str_index_bound by blast
  then show ?thesis using firstSSEBlockEnd_append [OF el(1)] el by (simp add: takeSSEBlock_def)
qed

lemma drain_append:
  "trState (drain J b) = Running \<Longrightarrow> drain J (b @ c) = drain J (trBuffer (drain J b) @ c)"
  "trState (drain J b) \<noteq> Running \<Longrightarrow> trState (drain J (b @ c)) = trState (drain J b)"
proof (induction J b rule: drain.induct)
  case (1 J b)
  {
    case 1
    then show ?case
      using "1.IH" takeSSEBlock_append [of b _ _ c]
      by (cases "takeSSEBlock b") (auto simp: drain.simps [of J b] drain.simps [of J "b @ c"] split: terminal.splits)
  next
    case 2
    then show ?case
      using "1.IH" takeSSEBlock_append [of b _ _ c]
      by (cases "takeSSEBlock b") (auto simp: drain.simps [of J b] drain.simps [of J "b @ c"] split: terminal.splits)
  }
qed

lemma observe_all:
  assumes "\<And>c. c \<in> set cs \<Longrightarrow> responsesSSEBlockTerminalState J c = Running"
    and "trState t = trState (drain J b)" "trState t = Running \<Longrightarrow> t = drain J b"
  shows "trState (fold (Observe J) cs t) = trState (drain J (b @ concat cs))"
  using assms
proof (induction cs arbitrary: t b)
  case (Cons c cs)
  have "trState (Observe J c t) = trState (drain J (b @ c)) \<and> (trState (Observe J c t) = Running \<longrightarrow> Observe J c t = drain J (b @ c))"
  proof (cases "trState t = Running")
    case True
    then show ?thesis
      using Cons.prems drain_append(1) [of J b c] by (cases "c = ''''") (auto simp: Observe_def)
  next
    case False
    then have "Observe J c t = t" "trState (drain J (b @ c)) = trState t"
      using Cons.prems(2) drain_append(2) [of J b c] by (simp_all only: Observe_def if_True simp_thms)
    then show ?thesis using False by simp
  qed
  then have "trState (fold (Observe J) cs (Observe J c t)) = trState (drain J ((b @ c) @ concat cs))"
    using Cons.prems(1) by (intro Cons.IH) auto
  then show ?case by simp
qed simp

text \<open>
  C6: the verdict on a stream does not depend on how the transport cuts it: as long as no piece is by itself a terminal
  event, observing the pieces one after the other recognises the same end as reading the whole text at once, including
  events and delimiters that are split between pieces.
\<close>

theorem tracker_split_independent:
  assumes "\<And>c. c \<in> set cs \<Longrightarrow> responsesSSEBlockTerminalState J c = Running"
    and "\<And>d. d \<in> set ds \<Longrightarrow> responsesSSEBlockTerminalState J d = Running" "concat cs = concat ds"
  shows "trState (fold (Observe J) cs newTracker) = trState (fold (Observe J) ds newTracker) \<and>
    trState (fold (Observe J) cs newTracker) = trState (drain J (concat cs))"
proof -
  have d: "drain J '''' = newTracker" by (simp add: drain.simps takeSSEBlock_def firstSSEBlockEnd_def delimiters_def newTracker_def)
  have "trState (fold (Observe J) xs newTracker) = trState (drain J ('''' @ concat xs))"
    if "\<And>c. c \<in> set xs \<Longrightarrow> responsesSSEBlockTerminalState J c = Running" for xs
    by (rule observe_all) (simp_all add: that d)
  then show ?thesis using assms by simp
qed

definition plain_json :: json_codec where
  "plain_json = \<lparr>json_valid = (\<lambda>_. False), json_into = (\<lambda>p _. (p, False))\<rparr>"

definition completed_text :: string where
  "completed_text = ''event: response.completed'' @ [newline, newline]"

theorem tracker_split_independent_witness:
  "trState (fold (Observe plain_json) [take 9 completed_text, drop 9 completed_text] newTracker) = trState (drain plain_json completed_text)"
proof -
  have "responsesSSEBlockTerminalState plain_json (take 9 completed_text) = Running"
    "responsesSSEBlockTerminalState plain_json (drop 9 completed_text) = Running" by code_simp+
  then show ?thesis
    using tracker_split_independent [of "[take 9 completed_text, drop 9 completed_text]" plain_json
        "[take 9 completed_text, drop 9 completed_text]"] by auto
qed

section \<open>Every stream is accounted for once\<close>

abbreviation chunk_error :: "chunk \<times> bool \<Rightarrow> xerr option" where
  "chunk_error ev \<equiv> ckErr (fst ev)"

definition sent :: "(chunk \<times> bool) list \<Rightarrow> chunk list" where
  "sent events = map fst (takeWhile (\<lambda>ev. \<not> snd ev) events)"

definition observed :: "json_codec \<Rightarrow> (chunk \<times> bool) list \<Rightarrow> completion_tracker option \<Rightarrow> completion_tracker option" where
  "observed J events = fold (\<lambda>ev t. if chunk_error ev = None \<and> ckPayload (fst ev) \<noteq> ''''
     then map_option (Observe J (ckPayload (fst ev))) t else t) events"

definition failure_result :: "stream_source \<Rightarrow> xerr \<Rightarrow> headers \<Rightarrow> result" where
  "failure_result S x h = stream_result S False (Some (errorFromExecution x)) (xRetry x) h"

lemma forward_failed:
  "fwFailed st \<Longrightarrow> fwFailed (fold (forward_chunk E J S) events st) \<and>
     wMarks (fwWorld (fold (forward_chunk E J S) events st)) = wMarks (fwWorld st)"
  by (induction events arbitrary: st) (auto simp: forward_chunk_def Let_def split: option.split)

lemma forward_marks:
  fixes E :: "('r, 'x) xenv_scheme" and J S events
  assumes "\<not> fwFailed st"
  defines "st' \<equiv> fold (forward_chunk E J S) events st"
  shows "List.find (\<lambda>ev. chunk_error ev \<noteq> None) events = None \<Longrightarrow> \<not> fwFailed st' \<and> wMarks (fwWorld st') = wMarks (fwWorld st)"
    and "List.find (\<lambda>ev. chunk_error ev \<noteq> None) events = Some ev \<Longrightarrow> chunk_error ev = Some x \<Longrightarrow>
      fwFailed st' \<and> wMarks (fwWorld st') = wMarks (fwWorld st) @ [failure_result S x (if xHeaders x = [] then ssHeaders S else xHeaders x)]"
proof -
  have none: "\<not> fwFailed (forward_chunk E J S e t) \<and> wMarks (fwWorld (forward_chunk E J S e t)) = wMarks (fwWorld t)"
    if "chunk_error e = None" "\<not> fwFailed t" for e t
    using that by (auto simp: forward_chunk_def Let_def case_prod_unfold)
  have some: "fwFailed (forward_chunk E J S e t) \<and> wMarks (fwWorld (forward_chunk E J S e t)) =
      wMarks (fwWorld t) @ [failure_result S x (if xHeaders x = [] then ssHeaders S else xHeaders x)]"
    if "chunk_error e = Some x" "\<not> fwFailed t" for e t
    using that by (auto simp: forward_chunk_def Let_def case_prod_unfold failure_result_def)
  show "\<not> fwFailed st' \<and> wMarks (fwWorld st') = wMarks (fwWorld st)"
    if "List.find (\<lambda>ev. chunk_error ev \<noteq> None) events = None"
    using that assms(1) none unfolding st'_def by (induction events arbitrary: st) (auto split: if_splits)
  show "fwFailed st' \<and> wMarks (fwWorld st') = wMarks (fwWorld st) @ [failure_result S x (if xHeaders x = [] then ssHeaders S else xHeaders x)]"
    if "List.find (\<lambda>ev. chunk_error ev \<noteq> None) events = Some ev" "chunk_error ev = Some x"
    using that assms(1) unfolding st'_def
  proof (induction events arbitrary: st)
    case (Cons e events)
    show ?case
    proof (cases "chunk_error e")
      case None
      then show ?thesis using Cons.IH [of "forward_chunk E J S e st"] Cons.prems none [of e st] by simp
    next
      case (Some y)
      then have "y = x" using Cons.prems by simp
      then show ?thesis
        using some [of e st] Some Cons.prems(3) forward_failed [of "forward_chunk E J S e st" E J S events] by simp
    qed
  qed simp
qed

lemma forward_rest:
  "let st' = fold (forward_chunk E J S) events st
   in wSlots (fwWorld st') = wSlots (fwWorld st) \<and> fwTracker st' = observed J events (fwTracker st) \<and>
      (fwForward st' \<longleftrightarrow> fwForward st \<and> list_all (\<lambda>ev. \<not> snd ev) events) \<and>
      fwOut st' = fwOut st @ (if fwForward st then sent events else [])"
proof (induction events arbitrary: st)
  case (Cons ev events)
  let ?st = "forward_chunk E J S ev st"
  have "wSlots (fwWorld ?st) = wSlots (fwWorld st)" "fwTracker ?st = observed J [ev] (fwTracker st)"
    "fwForward ?st \<longleftrightarrow> fwForward st \<and> \<not> snd ev" "fwOut ?st = fwOut st @ (if fwForward st \<and> \<not> snd ev then [fst ev] else [])"
    by (auto simp: forward_chunk_def observed_def Let_def case_prod_unfold split: option.split)
  then show ?case using Cons.IH [of ?st] by (auto simp: observed_def sent_def Let_def)
qed (simp add: observed_def sent_def)

text \<open>
  C5: a started stream is accounted for exactly once, however it ends: one result is recorded for its credential and model, the slot it
  holds is given back once, and the result is a success exactly when no chunk carried an error and the stream, if it has
  to announce its end, did so. The client receives the chunks up to the point where it goes away, unchanged and in
  order, and a client that stays sees an error exactly when a failure is recorded.
\<close>

theorem stream_accounted_once:
  assumes "wrapStreamResult E J S sourceFormat events done holdsSlot w = (out, w')"
  defines "verdict \<equiv> Option.bind (observed J events (newResponsesStreamCompletionTracker sourceFormat)) (ErrIfIncomplete J)"
  shows "\<exists>r. wMarks w' = wMarks w @ [r] \<and> rAuthID r = ssAuthID S \<and> rModel r = ssModel S \<and> rProvider r = ssProvider S \<and>
      (rSuccess r \<longleftrightarrow> list_all (\<lambda>ev. chunk_error ev = None) events \<and> verdict = None) \<and> (rSuccess r \<longleftrightarrow> rError r = None) \<and>
      wSlots w' = wSlots w @ (if holdsSlot then [Released (ssAuthID S)] else []) \<and>
      take (length (sent events)) out = sent events \<and>
      (list_all (\<lambda>ev. \<not> snd ev) events \<and> \<not> done \<longrightarrow> (rSuccess r \<longleftrightarrow> list_all (\<lambda>c. ckErr c = None) out))"
proof -
  let ?st0 = "\<lparr>fwFailed = False, fwForward = True, fwTracker = newResponsesStreamCompletionTracker sourceFormat, fwOut = [], fwWorld = w\<rparr>"
  define st where "st = fold (forward_chunk E J S) events ?st0"
  define fin where "fin = finish_stream E J S done st"
  have out: "out = fwOut fin" and w': "w' = (if holdsSlot then release_slot E (fwWorld fin) (ssAuthID S) else fwWorld fin)"
    using assms(1) by (auto simp: wrapStreamResult_def Let_def st_def fin_def)
  have rest: "wSlots (fwWorld st) = wSlots w" "fwTracker st = observed J events (newResponsesStreamCompletionTracker sourceFormat)"
    "fwForward st \<longleftrightarrow> list_all (\<lambda>ev. \<not> snd ev) events" "fwOut st = sent events"
    using forward_rest [of E J S events ?st0, folded st_def] by (simp_all add: Let_def)
  note marks = forward_marks [where st = ?st0 and E = E and J = J and S = S and events = events, folded st_def, simplified]
  have frame: "wMarks w' = wMarks (fwWorld fin)" "wSlots w' = wSlots (fwWorld fin) @ (if holdsSlot then [Released (ssAuthID S)] else [])"
    by (simp_all add: w' release_slot_def Let_def)
  have verdict: "Option.bind (fwTracker st) (ErrIfIncomplete J) = verdict" by (simp add: verdict_def rest(2))
  have slots: "wSlots (fwWorld fin) = wSlots w"
    using rest(1) by (auto simp: fin_def finish_stream_def Let_def split: option.split)
  show ?thesis
  proof (cases "List.find (\<lambda>ev. chunk_error ev \<noteq> None) events")
    case (Some ev)
    then have ev: "ev \<in> set events" "chunk_error ev \<noteq> None" using find_SomeD by force+
    then obtain x where x: "chunk_error ev = Some x" by blast
    have failed: "fwFailed st" "wMarks (fwWorld st) = wMarks w @ [failure_result S x (if xHeaders x = [] then ssHeaders S else xHeaders x)]"
      using marks(2) Some x by simp_all
    have fin: "fin = st" using failed(1) by (simp add: fin_def finish_stream_def)
    have bad: "\<not> list_all (\<lambda>ev. chunk_error ev = None) events" using ev by (auto simp: list_all_iff)
    have "\<not> list_all (\<lambda>c. ckErr c = None) out" if "list_all (\<lambda>ev. \<not> snd ev) events"
    proof -
      have "takeWhile (\<lambda>ev. \<not> snd ev) events = events" using that by (simp add: takeWhile_eq_all_conv list_all_iff)
      then have "sent events = map fst events" by (simp only: sent_def)
      then show ?thesis using bad rest(4) by (simp add: out fin list_all_iff)
    qed
    then show ?thesis
      using failed(2) frame slots bad rest(4) fin
      by (auto simp: out failure_result_def stream_result_def)
  next
    case None
    then have good: "list_all (\<lambda>ev. chunk_error ev = None) events" by (auto simp: find_None_iff list_all_iff)
    have st: "\<not> fwFailed st" "wMarks (fwWorld st) = wMarks w" using marks(1) None by simp_all
    have clean: "list_all (\<lambda>c. ckErr c = None) (sent events)"
      using good by (auto simp: sent_def list_all_iff dest: set_takeWhileD)
    show ?thesis
    proof (cases verdict)
      case None
      have "fin = st\<lparr>fwWorld := mark_result E (stream_result S True None None (ssHeaders S)) (fwWorld st)\<rparr>"
        using st verdict None by (simp add: fin_def finish_stream_def)
      then show ?thesis
        using st frame slots good None rest(4) clean by (auto simp: out stream_result_def)
    next
      case (Some e)
      let ?x = "incomplete_xerr e"
      let ?mark = "mark_result E (failure_result S ?x (ssHeaders S)) (fwWorld st)"
      have "fwWorld fin = ?mark" "fwOut fin = fwOut st @ (if fwForward st \<and> \<not> done then [\<lparr>ckPayload = '''', ckErr = Some ?x\<rparr>] else [])"
        using st verdict Some by (simp_all add: fin_def finish_stream_def Let_def failure_result_def)
      then show ?thesis
        using st frame slots good Some rest(3,4) clean by (auto simp: out failure_result_def stream_result_def)
    qed
  qed
qed

definition desk_source :: stream_source where
  "desk_source = \<lparr>ssAuthID = ''a1'', ssProvider = ''codex'', ssModel = ''gpt-5'', ssHeaders = []\<rparr>"

theorem stream_accounted_once_witness:
  "\<exists>r. wMarks (snd (wrapStreamResult desk_env plain_json desk_source ''openai-response'' [(\<lparr>ckPayload = ''hello'', ckErr = None\<rparr>, False)]
        False True desk_world)) = wMarks desk_world @ [r] \<and> \<not> rSuccess r"
proof -
  let ?evs = "[(\<lparr>ckPayload = ''hello'', ckErr = None\<rparr>, False)]"
  let ?w = "wrapStreamResult desk_env plain_json desk_source ''openai-response'' ?evs False True desk_world"
  have "Option.bind (observed plain_json [(\<lparr>ckPayload = ''hello'', ckErr = None\<rparr>, False)]
      (newResponsesStreamCompletionTracker ''openai-response'')) (ErrIfIncomplete plain_json) \<noteq> None" by code_simp
  then show ?thesis
    using stream_accounted_once [of desk_env plain_json desk_source "''openai-response''" ?evs False True desk_world "fst ?w" "snd ?w"]
    by auto
qed

text \<open>The premise is needed: a piece that by itself reads like an event is taken for one, even in the middle of a line.\<close>

lemma piece_read_as_event:
  "trState (fold (Observe plain_json) [''data: hello '', ''event: response.completed''] newTracker) = Completed \<and>
   trState (drain plain_json (''data: hello event: response.completed'' @ [newline, newline])) = Running"
  by code_simp

end
