(* ===== verification/IP_Address.thy ===== *)
theory IP_Address
  imports Go_Base "HOL-Library.Word"
begin

text \<open>
  What the access rules use of the Go packages \<^verbatim>\<open>net\<close> and \<^verbatim>\<open>net/netip\<close>: addresses as byte slices of length 4 or 16 (\<^verbatim>\<open>nil\<close> is the
  empty one), masks, networks, and their text. The laws at the end are what the components above rely on: text
  written for an address or a network reads back as the same address or network.
\<close>

unbundle bit_operations_syntax

section \<open>Addresses and masks\<close>

type_synonym byte = "8 word"
type_synonym ip = "byte list"

definition v4InV6Prefix :: ip where
  "v4InV6Prefix = [0, 0, 0, 0, 0, 0, 0, 0, 0, 0, 255, 255]"

definition To4 :: "ip \<Rightarrow> ip option" where
  "To4 a = (if length a = 4 then Some a
            else if length a = 16 \<and> take 12 a = v4InV6Prefix then Some (drop 12 a)
            else None)"

definition To16 :: "ip \<Rightarrow> ip option" where
  "To16 a = (if length a = 4 then Some (v4InV6Prefix @ a) else if length a = 16 then Some a else None)"

definition IsLoopback :: "ip \<Rightarrow> bool" where
  "IsLoopback a = (case To4 a of Some v \<Rightarrow> v ! 0 = 127 | None \<Rightarrow> a = replicate 15 0 @ [1])"

definition IsUnspecified :: "ip \<Rightarrow> bool" where
  "IsUnspecified a = (case To4 a of Some v \<Rightarrow> v = replicate 4 0 | None \<Rightarrow> a = replicate 16 0)"

text \<open>\<^verbatim>\<open>net.CIDRMask\<close>, \<open>nil\<close> for impossible lengths.\<close>

fun mask_bytes :: "nat \<Rightarrow> nat \<Rightarrow> byte list" where
  "mask_bytes 0 n = []"
| "mask_bytes (Suc l) n = (if 8 \<le> n then 255 # mask_bytes l (n - 8) else NOT (drop_bit n 255) # mask_bytes l 0)"

definition CIDRMask :: "nat \<Rightarrow> nat \<Rightarrow> byte list" where
  "CIDRMask ones bits = (if bits \<notin> {32, 128} \<or> bits < ones then [] else mask_bytes (bits div 8) ones)"

text \<open>The number of leading one bits of a byte, which \<^verbatim>\<open>simpleMaskLength\<close> counts by shifting.\<close>

definition leading_ones :: "byte \<Rightarrow> nat" where
  "leading_ones v = length (takeWhile (\<lambda>i. bit v (7 - i)) [0..<8])"

fun simpleMaskLength :: "byte list \<Rightarrow> nat option" where
  "simpleMaskLength [] = Some 0"
| "simpleMaskLength (v # vs) =
     (if v = 255 then map_option ((+) 8) (simpleMaskLength vs)
      else let n = leading_ones v
           in if push_bit n v \<noteq> 0 \<or> list_ex (\<lambda>w. w \<noteq> 0) vs then None else Some n)"

definition mask_Size :: "byte list \<Rightarrow> nat \<times> nat" where
  "mask_Size m = (case simpleMaskLength m of Some n \<Rightarrow> (n, 8 * length m) | None \<Rightarrow> (0, 0))"

abbreviation masked :: "ip \<Rightarrow> byte list \<Rightarrow> ip" where
  "masked a m \<equiv> map2 (\<lambda>x y. x AND y) a m"

definition IP_Mask :: "ip \<Rightarrow> byte list \<Rightarrow> ip" where
  "IP_Mask a0 m0 =
     (let m = (if length m0 = 16 \<and> length a0 = 4 \<and> list_all (\<lambda>b. b = 255) (take 12 m0) then drop 12 m0 else m0);
          a = (if length m = 4 \<and> length a0 = 16 \<and> take 12 a0 = v4InV6Prefix then drop 12 a0 else a0)
      in if length a \<noteq> length m then [] else masked a m)"

section \<open>Networks\<close>

record ipnet =
  nIP :: ip
  nMask :: "byte list"

definition networkNumberAndMask :: "ipnet \<Rightarrow> ip \<times> byte list" where
  "networkNumberAndMask n =
     (case (case To4 (nIP n) of Some v \<Rightarrow> Some v | None \<Rightarrow> if length (nIP n) = 16 then Some (nIP n) else None) of
        None \<Rightarrow> ([], [])
      | Some a \<Rightarrow>
          if length (nMask n) = 4 then (if length a = 4 then (a, nMask n) else ([], []))
          else if length (nMask n) = 16 then (a, if length a = 4 then drop 12 (nMask n) else nMask n)
          else ([], []))"

definition Contains :: "ipnet \<Rightarrow> ip \<Rightarrow> bool" where
  "Contains n a0 =
     (case networkNumberAndMask n of (nn, m) \<Rightarrow>
        let a = (case To4 a0 of Some v \<Rightarrow> v | None \<Rightarrow> a0)
        in length a = length nn \<and> masked nn m = masked a m)"

section \<open>Text of addresses\<close>

definition is_hex :: "char \<Rightarrow> bool" where
  "is_hex c \<longleftrightarrow> is_digit c \<or> (97 \<le> (of_char c :: nat) \<and> (of_char c :: nat) \<le> 102) \<or>
     (65 \<le> (of_char c :: nat) \<and> (of_char c :: nat) \<le> 70)"

definition hex_value :: "char \<Rightarrow> int" where
  "hex_value c = (let n = (of_char c :: int) in if n \<le> 57 then n - 48 else if n \<le> 70 then n - 55 else n - 87)"

definition hex_char :: "int \<Rightarrow> char" where
  "hex_char n = ''0123456789abcdef'' ! nat n"

definition hex_number :: "string \<Rightarrow> int" where
  "hex_number s = foldl (\<lambda>acc c. 16 * acc + hex_value c) 0 s"

text \<open>\<^verbatim>\<open>parseIPv4Fields\<close>: the value and the number of digits of the current field, and the fields before it.\<close>

fun parseIPv4Fields :: "string \<Rightarrow> nat \<Rightarrow> nat \<Rightarrow> byte list \<Rightarrow> byte list option" where
  "parseIPv4Fields [] val digLen fs = (if length fs < 3 then None else Some (fs @ [word_of_nat val]))"
| "parseIPv4Fields (c # s) val digLen fs =
     (if is_digit c then
        (if digLen = 1 \<and> val = 0 then None
         else let v = val * 10 + (of_char c - 48)
              in if 255 < v then None else parseIPv4Fields s v (digLen + 1) fs)
      else if c = CHR ''.'' then
        (if digLen = 0 \<or> s = [] then None
         else if length fs = 3 then None
         else parseIPv4Fields s 0 0 (fs @ [word_of_nat val]))
      else None)"

definition group_bytes :: "int \<Rightarrow> byte list" where
  "group_bytes g = [word_of_int (g div 256), word_of_int g]"

text \<open>The loop of \<^verbatim>\<open>parseIPv6\<close>: the rest of the text, the bytes so far and the place of the ellipsis.\<close>

lemma tl_dropWhile_shorter: "dropWhile P s \<noteq> [] \<Longrightarrow> length (tl (dropWhile P s)) < length s"
  by (metis diff_less length_dropWhile_le length_greater_0_conv length_tl order_less_le_trans zero_less_one)

function parse_groups :: "string \<Rightarrow> byte list \<Rightarrow> nat option \<Rightarrow> (string \<times> byte list \<times> nat option) option" where
  "parse_groups s bs ellipsis =
     (if 16 \<le> length bs then Some (s, bs, ellipsis)
      else let ds = takeWhile is_hex s; rest = dropWhile is_hex s
           in if 4 < length ds \<or> ds = [] then None
              else if rest \<noteq> [] \<and> hd rest = CHR ''.'' then
                (if ellipsis = None \<and> length bs \<noteq> 12 then None
                 else if 16 < length bs + 4 then None
                 else case parseIPv4Fields s 0 0 [] of None \<Rightarrow> None | Some f \<Rightarrow> Some ([], bs @ f, ellipsis))
              else let bs' = bs @ group_bytes (hex_number ds)
                   in if rest = [] then Some ([], bs', ellipsis)
                      else if hd rest \<noteq> CHR '':'' \<or> tl rest = [] then None
                      else if hd (tl rest) = CHR '':''
                      then (if ellipsis \<noteq> None then None
                            else if tl (tl rest) = [] then Some ([], bs', Some (length bs'))
                            else parse_groups (tl (tl rest)) bs' (Some (length bs')))
                      else parse_groups (tl rest) bs' ellipsis)"
  by auto
termination
proof (relation "measure (\<lambda>(s, _). length s)", goal_cases)
  case 1
  show ?case by simp
next
  case (2 s bs ell ds rest)
  then show ?case using tl_dropWhile_shorter [of is_hex s] by simp
next
  case (3 s bs ell ds rest)
  then show ?case using tl_dropWhile_shorter [of is_hex s] by simp
qed

declare parse_groups.simps [simp del]

definition parseIPv6 :: "string \<Rightarrow> ip option" where
  "parseIPv6 s0 =
     (if CHR ''%'' \<in> set s0 then None
      else let lead = (take 2 s0 = ''::''); s = (if lead then drop 2 s0 else s0)
           in if lead \<and> s = [] then Some (replicate 16 0)
              else case parse_groups s [] (if lead then Some 0 else None) of
                     None \<Rightarrow> None
                   | Some (rest, bs, ellipsis) \<Rightarrow>
                       if rest \<noteq> [] then None
                       else if length bs < 16
                       then (case ellipsis of
                               None \<Rightarrow> None
                             | Some e \<Rightarrow> Some (take e bs @ replicate (16 - length bs) 0 @ drop e bs))
                       else if ellipsis \<noteq> None then None else Some bs)"

text \<open>
  \<^verbatim>\<open>netip.ParseAddr\<close> with an empty zone: the number of bits and the 16-byte form. An address with a zone is refused by
  both callers, and so is everything with a percent sign.
\<close>

definition ParseAddr :: "string \<Rightarrow> (nat \<times> ip) option" where
  "ParseAddr s =
     (case List.find (\<lambda>c. c \<in> set ''.:%'') s of
        None \<Rightarrow> None
      | Some c \<Rightarrow>
          if c = CHR ''.'' then map_option (\<lambda>f. (32, v4InV6Prefix @ f)) (parseIPv4Fields s 0 0 [])
          else if c = CHR '':'' then map_option (\<lambda>a. (128, a)) (parseIPv6 s)
          else None)"

definition ParseIP :: "string \<Rightarrow> ip option" where
  "ParseIP s = map_option snd (ParseAddr s)"

text \<open>\<^verbatim>\<open>net.ParseCIDR\<close>: the network; the address is not used by the callers.\<close>

definition cut_at :: "char \<Rightarrow> string \<Rightarrow> (string \<times> string) option" where
  "cut_at c s = (if c \<in> set s then Some (takeWhile (\<lambda>x. x \<noteq> c) s, tl (dropWhile (\<lambda>x. x \<noteq> c) s)) else None)"

definition ParseCIDR :: "string \<Rightarrow> ipnet option" where
  "ParseCIDR s =
     (case cut_at (CHR ''/'') s of
        None \<Rightarrow> None
      | Some (addr, len) \<Rightarrow>
          (case ParseAddr addr of
             None \<Rightarrow> None
           | Some (bits, a) \<Rightarrow>
               if len = [] \<or> \<not> list_all is_digit len \<or> int bits < digits_value 0 len then None
               else let m = CIDRMask (nat (digits_value 0 len)) bits in Some \<lparr>nIP = IP_Mask a m, nMask = m\<rparr>))"

definition hex16 :: "int \<Rightarrow> string" where
  "hex16 x = (if 4096 \<le> x then [hex_char (x div 4096)] else []) @
             (if 256 \<le> x then [hex_char (x div 256 mod 16)] else []) @
             (if 16 \<le> x then [hex_char (x div 16 mod 16)] else []) @ [hex_char (x mod 16)]"

fun groups :: "byte list \<Rightarrow> int list" where
  "groups (a # b # bs) = (256 * uint a + uint b) # groups bs"
| "groups _ = []"

definition zero_run :: "int list \<Rightarrow> nat \<Rightarrow> nat" where
  "zero_run gs i = length (takeWhile (\<lambda>g. g = 0) (drop i gs))"

definition longest_zeros :: "int list \<Rightarrow> nat \<times> nat" where
  "longest_zeros gs =
     fold (\<lambda>i (s, e). let l = zero_run gs i in if 2 \<le> l \<and> e - s < l then (i, i + l) else (s, e)) [0..<8] (255, 255)"

definition v6_text :: "int list \<Rightarrow> string" where
  "v6_text gs =
     (case longest_zeros gs of (s, e) \<Rightarrow>
        if s = 255 then join '':'' (map hex16 gs)
        else join '':'' (map hex16 (take s gs)) @ ''::'' @ join '':'' (map hex16 (drop e gs)))"

definition v4_text :: "byte list \<Rightarrow> string" where
  "v4_text a = join ''.'' (map (\<lambda>b. nat_digits (unat b)) a)"

text \<open>\<^verbatim>\<open>IP.String\<close> for the lengths that occur; other slices are never printed.\<close>

definition IP_String :: "ip \<Rightarrow> string" where
  "IP_String a =
     (case To4 a of
        Some v \<Rightarrow> v4_text v
      | None \<Rightarrow> if length a = 16 then v6_text (groups a) else ''<nil>'')"

definition IPNet_String :: "ipnet \<Rightarrow> string" where
  "IPNet_String n =
     (case networkNumberAndMask n of (nn, m) \<Rightarrow>
        if nn = [] \<or> m = [] then ''<nil>''
        else case simpleMaskLength m of
               Some l \<Rightarrow> IP_String nn @ ''/'' @ nat_digits l
             | None \<Rightarrow> IP_String nn @ ''/'' @ concat (map (\<lambda>b. [hex_char (uint b div 16), hex_char (uint b mod 16)]) m))"

section \<open>Laws of masks\<close>

lemma last_mask_byte:
  assumes "n < 8"
  shows "NOT (drop_bit n 255) \<noteq> (255 :: byte)" "leading_ones (NOT (drop_bit n 255)) = n" "push_bit n (NOT (drop_bit n 255)) = (0 :: byte)"
proof -
  have *: "NOT (drop_bit n 255) \<noteq> (255 :: byte) \<and> leading_ones (NOT (drop_bit n 255)) = n \<and> push_bit n (NOT (drop_bit n 255)) = (0 :: byte)"
    if "n \<in> set [0..<8]" for n
  proof -
    have "list_all (\<lambda>n. NOT (drop_bit n 255) \<noteq> (255 :: byte) \<and> leading_ones (NOT (drop_bit n 255)) = n \<and>
            push_bit n (NOT (drop_bit n 255)) = (0 :: byte)) [0..<8]" by code_simp
    with that show ?thesis by (simp only: list_all_iff) simp
  qed
  show "NOT (drop_bit n 255) \<noteq> (255 :: byte)" "leading_ones (NOT (drop_bit n 255)) = n" "push_bit n (NOT (drop_bit n 255)) = (0 :: byte)"
    using * [of n] assms by auto
qed

lemma zero_mask_byte [simp]: "NOT (drop_bit 0 255) = (0 :: byte)"
  by code_simp

lemma length_mask_bytes [simp]: "length (mask_bytes l n) = l"
  by (induction l n rule: mask_bytes.induct) auto

lemma mask_bytes_0: "mask_bytes l 0 = replicate l 0"
  by (induction l) (simp_all del: drop_bit_0)

lemma simpleMaskLength_mask_bytes: "n \<le> 8 * l \<Longrightarrow> simpleMaskLength (mask_bytes l n) = Some n"
proof (induction l n rule: mask_bytes.induct)
  case (2 l n)
  show ?case
  proof (cases "8 \<le> n")
    case True
    then show ?thesis using 2 by simp
  next
    case False
    then have "n < 8" by simp
    from last_mask_byte [OF this] False show ?thesis by (simp add: mask_bytes_0 list_ex_iff Let_def)
  qed
qed simp

lemma CIDRMask_facts:
  assumes "ones \<le> bits" "bits = 32 \<or> bits = 128"
  shows "length (CIDRMask ones bits) = bits div 8" "simpleMaskLength (CIDRMask ones bits) = Some ones" "CIDRMask ones bits \<noteq> []"
    "mask_Size (CIDRMask ones bits) = (ones, bits)"
proof -
  have m: "CIDRMask ones bits = mask_bytes (bits div 8) ones" using assms by (auto simp: CIDRMask_def)
  have "ones \<le> 8 * (bits div 8)" "8 * (bits div 8) = bits" "bits div 8 \<noteq> 0" using assms by auto
  with simpleMaskLength_mask_bytes [of ones "bits div 8"]
  show "length (CIDRMask ones bits) = bits div 8" "simpleMaskLength (CIDRMask ones bits) = Some ones" "CIDRMask ones bits \<noteq> []"
    "mask_Size (CIDRMask ones bits) = (ones, bits)"
    by (auto simp: m mask_Size_def simp flip: length_greater_0_conv)
qed

lemma mask_bytes_drop: "8 * k \<le> n \<Longrightarrow> drop k (mask_bytes l n) = mask_bytes (l - k) (n - 8 * k)"
proof (induction l n arbitrary: k rule: mask_bytes.induct)
  case (2 l n)
  then show ?case by (cases k) (auto simp: algebra_simps)
qed simp

lemma masked_idem [simp]: "masked (masked a m) m = masked a m"
  by (induction a m rule: list_induct2') (auto simp: and.assoc)

lemma length_To4: "To4 a = Some v \<Longrightarrow> length v = 4"
  by (auto simp: To4_def split: if_splits)

lemma To4_bytes [simp]: "length v = 4 \<Longrightarrow> To4 v = Some v"
  by (simp add: To4_def)

lemma v4InV6Prefix_length [simp]: "length v4InV6Prefix = 12"
  by (simp add: v4InV6Prefix_def)

lemma To4_mapped [simp]: "length v = 4 \<Longrightarrow> To4 (v4InV6Prefix @ v) = Some v"
  by (simp add: To4_def)

section \<open>Dotted text reads back\<close>

lemma digit_read: "d < 10 \<Longrightarrow> is_digit (char_of (48 + d)) \<and> (of_char (char_of (48 + d) :: char) - 48 :: nat) = d"
  using digit_char(1) [of d] by (simp add: of_char_of)

lemma nat_digits_cases:
  assumes "n < 1000"
  shows "nat_digits n = (if n < 10 then [char_of (48 + n)]
           else if n < 100 then [char_of (48 + n div 10), char_of (48 + n mod 10)]
           else [char_of (48 + n div 100), char_of (48 + n div 10 mod 10), char_of (48 + n mod 10)])"
proof -
  have "n div 10 div 10 = n div 100" by (simp flip: div_mult2_eq)
  moreover have "n div 10 < 10 \<longleftrightarrow> n < 100" "n div 100 < 10" using assms by (simp_all add: div_less_iff_less_mult)
  ultimately show ?thesis
    using assms by (simp add: nat_digits.simps [of n] nat_digits.simps [of "n div 10"] nat_digits.simps [of "n div 100"])
qed

lemma parse_number:
  assumes "n < 256"
  shows "parseIPv4Fields (nat_digits n @ rest) 0 0 fs = parseIPv4Fields rest n (length (nat_digits n)) fs"
proof -
  have step: "parseIPv4Fields (char_of (48 + d) # s) val k fs =
      (if k = 1 \<and> val = 0 then None else if 255 < val * 10 + d then None else parseIPv4Fields s (val * 10 + d) (k + 1) fs)"
    if "d < 10" for d s val k
    using digit_read [OF that] by simp
  have split: "n div 10 * 10 + n mod 10 = n" by simp
  have "(n div 100 * 10 + n div 10 mod 10) * 10 + n mod 10 = 100 * (n div 100) + (10 * (n div 10 mod 10) + n mod 10)"
    by (simp add: algebra_simps)
  also have "\<dots> = 100 * (n div 100) + n mod 100" using mod_mult2_eq [of n 10 10] by simp
  also have "\<dots> = n" by simp
  finally have arith: "(n div 100 * 10 + n div 10 mod 10) * 10 + n mod 10 = n" .
  have below: "x < 256" if "x * 10 + u = n" for x u using that assms by linarith
  have few: "n div 100 < 10" "n div 100 * 10 + n div 10 mod 10 < 256" "n div 10 < 256"
    using below [OF arith] below [OF split] assms by (simp_all add: div_less_iff_less_mult)
  have small: "n div 10 \<noteq> 0" if "10 \<le> n" using that split by (intro notI) simp
  have big: "n div 100 \<noteq> 0" if "100 \<le> n" using that by (simp add: div_eq_0_iff)
  consider "n < 10" | "10 \<le> n" "n < 100" | "100 \<le> n" by linarith
  then show ?thesis
  proof cases
    case 1
    then show ?thesis using step [of n] assms by (simp add: nat_digits_cases del: parseIPv4Fields.simps)
  next
    case 2
    then show ?thesis
      using step [of "n div 10"] step [of "n mod 10"] small split few assms
      by (simp add: nat_digits_cases del: parseIPv4Fields.simps)
  next
    case 3
    then show ?thesis
      using step [of "n div 100"] step [of "n div 10 mod 10"] step [of "n mod 10"] big arith few assms
      by (simp add: nat_digits_cases del: parseIPv4Fields.simps)
  qed
qed

lemma byte_lt [simp]: "unat (b :: byte) < 256"
  using unsigned_less [of b, where 'a = nat] by simp

lemma parse_v4_text:
  assumes "length a = 4"
  shows "parseIPv4Fields (v4_text a) 0 0 [] = Some a"
proof -
  obtain p q r s where a: "a = [p, q, r, s]"
    using assms by (auto simp: numeral_eq_Suc length_Suc_conv)
  have ne: "nat_digits n \<noteq> []" for n using nat_digits_props by blast
  have dot: "parseIPv4Fields (CHR ''.'' # t) v k fs = (if k = 0 \<or> t = [] then None else if length fs = 3 then None else parseIPv4Fields t 0 0 (fs @ [word_of_nat v]))"
    for t v k fs by (simp add: is_digit_def)
  show ?thesis
    using parse_number [of "unat s" "[]"] by (simp add: a v4_text_def parse_number dot ne del: parseIPv4Fields.simps(2))
qed

section \<open>Hexadecimal text reads back\<close>

abbreviation group16 :: "int \<Rightarrow> bool" where
  "group16 g \<equiv> 0 \<le> g \<and> g < 65536"

abbreviation bytes_of :: "int list \<Rightarrow> byte list" where
  "bytes_of gs \<equiv> concat (map group_bytes gs)"

lemma hex_digit:
  assumes "0 \<le> n" "n < 16"
  shows "is_hex (hex_char n)" "hex_value (hex_char n) = n"
proof -
  have "list_all (\<lambda>k. is_hex (hex_char (int k)) \<and> hex_value (hex_char (int k)) = int k) [0..<16]" by code_simp
  moreover have "nat n \<in> set [0..<16]" using assms by auto
  ultimately have "is_hex (hex_char (int (nat n))) \<and> hex_value (hex_char (int (nat n))) = int (nat n)"
    by (simp only: list_all_iff)
  then show "is_hex (hex_char n)" "hex_value (hex_char n) = n" using assms by simp_all
qed

lemma hex_number_digits:
  assumes "list_all (\<lambda>d. 0 \<le> d \<and> d < 16) ds"
  shows "hex_number (map hex_char ds) = foldl (\<lambda>acc d. 16 * acc + d) 0 ds" "list_all is_hex (map hex_char ds)"
proof -
  have "foldl (\<lambda>acc c. 16 * acc + hex_value c) k (map hex_char ds) = foldl (\<lambda>acc d. 16 * acc + d) k ds" for k
    using assms by (induction ds arbitrary: k) (simp_all add: hex_digit)
  then show "hex_number (map hex_char ds) = foldl (\<lambda>acc d. 16 * acc + d) 0 ds" by (simp add: hex_number_def)
  show "list_all is_hex (map hex_char ds)" using assms by (induction ds) (simp_all add: hex_digit)
qed

lemma hex16_facts:
  assumes "group16 g"
  shows "list_all is_hex (hex16 g)" "hex16 g \<noteq> []" "length (hex16 g) \<le> 4" "hex_number (hex16 g) = g"
proof -
  define w x y z where "w = g div 4096" and "x = g div 256 mod 16" and "y = g div 16 mod 16" and "z = g mod 16"
  have horner: "16 * (g div (16 * k)) + g div k mod 16 = g div k" for k :: int
    using zdiv_zmult2_eq [of 16 g k] by (simp add: mult.commute)
  have h: "16 * w + x = g div 256" "16 * (g div 256) + y = g div 16" "16 * (g div 16) + z = g"
    using horner [of 256] horner [of 16] horner [of 1] by (simp_all add: w_def x_def y_def z_def)
  have "0 \<le> g div 4096" "g div 4096 < 16" using assms by auto
  then have r: "list_all (\<lambda>d. 0 \<le> d \<and> d < 16) [w, x, y, z]" by (simp add: w_def x_def y_def z_def)
  have zero: "g div k = 0" if "g < k" for k using that assms by (simp add: div_pos_pos_trivial)
  have t: "hex16 g = map hex_char ((if 4096 \<le> g then [w] else []) @ (if 256 \<le> g then [x] else []) @ (if 16 \<le> g then [y] else []) @ [z])"
    by (simp add: hex16_def w_def x_def y_def z_def)
  show "hex16 g \<noteq> []" "length (hex16 g) \<le> 4" by (simp_all add: t)
  let ?ds = "(if 4096 \<le> g then [w] else []) @ (if 256 \<le> g then [x] else []) @ (if 16 \<le> g then [y] else []) @ [z]"
  have ds: "list_all (\<lambda>d. 0 \<le> d \<and> d < 16) ?ds" using r by simp
  show "list_all is_hex (hex16 g)" unfolding t by (rule hex_number_digits(2) [OF ds])
  have number: "hex_number (hex16 g) = foldl (\<lambda>acc d. 16 * acc + d) 0 ?ds" unfolding t by (rule hex_number_digits(1) [OF ds])
  consider "4096 \<le> g" | "256 \<le> g" "g < 4096" | "16 \<le> g" "g < 256" | "g < 16" by linarith
  then show "hex_number (hex16 g) = g"
  proof cases
    case 1
    then have "hex_number (hex16 g) = 16 * (16 * (16 * w + x) + y) + z" by (simp add: number)
    then show ?thesis by (simp only: h)
  next
    case 2
    then have "w = 0" "hex_number (hex16 g) = 16 * (16 * x + y) + z" by (simp_all add: number w_def zero)
    moreover from this h(1) have "x = g div 256" by simp
    ultimately show ?thesis by (simp only: h)
  next
    case 3
    then have "hex_number (hex16 g) = 16 * y + z" "y = g div 16" using h(2) zero [of 256] by (simp_all add: number)
    then show ?thesis by (simp only: h)
  next
    case 4
    then have "hex_number (hex16 g) = z" "z = g" using h(3) zero [of 16] by (simp_all add: number)
    then show ?thesis by simp
  qed
qed

lemma hex_not_special: "is_hex c \<Longrightarrow> c \<notin> {CHR '':'', CHR ''.'', CHR ''%'', CHR ''/''}"
  by (auto simp: is_hex_def is_digit_def)

lemma takeWhile_hex:
  assumes "list_all is_hex ds" "t = [] \<or> \<not> is_hex (hd t)"
  shows "takeWhile is_hex (ds @ t) = ds" "dropWhile is_hex (ds @ t) = t"
proof -
  have "takeWhile is_hex t = []" "dropWhile is_hex t = t" using assms(2) by (cases t; simp)+
  then show "takeWhile is_hex (ds @ t) = ds" "dropWhile is_hex (ds @ t) = t"
    using assms(1) by (simp_all add: list_all_iff takeWhile_append2 dropWhile_append2)
qed

lemma parse_last:
  assumes "group16 g" "length bs < 16"
  shows "parse_groups (hex16 g) bs e = Some ([], bs @ group_bytes g, e)"
proof -
  have whole: "takeWhile is_hex (hex16 g) = hex16 g" "dropWhile is_hex (hex16 g) = []"
    using takeWhile_hex [of "hex16 g" "[]"] hex16_facts(1) [OF assms(1)] unfolding append_Nil2 by blast+
  show ?thesis using assms hex16_facts [OF assms(1)] by (subst parse_groups.simps) (simp add: Let_def whole)
qed

lemma parse_next:
  assumes "group16 g" "length bs < 16" "t \<noteq> []" "hd t \<noteq> CHR '':''"
  shows "parse_groups (hex16 g @ CHR '':'' # t) bs e = parse_groups t (bs @ group_bytes g) e"
proof -
  have "\<not> is_hex CHR '':''" by (simp add: is_hex_def is_digit_def)
  then show ?thesis
    using assms hex16_facts [OF assms(1)] takeWhile_hex [of "hex16 g" "CHR '':'' # t"]
    by (subst parse_groups.simps) (simp add: Let_def)
qed

lemma parse_ellipsis:
  assumes "group16 g" "length bs < 16"
  shows "parse_groups (hex16 g @ CHR '':'' # CHR '':'' # t) bs None =
    (let bs' = bs @ group_bytes g
     in if t = [] then Some ([], bs', Some (length bs')) else parse_groups t bs' (Some (length bs')))"
proof -
  have "\<not> is_hex CHR '':''" by (simp add: is_hex_def is_digit_def)
  then show ?thesis
    using assms hex16_facts [OF assms(1)] takeWhile_hex [of "hex16 g" "CHR '':'' # CHR '':'' # t"]
    by (subst parse_groups.simps) (simp add: Let_def)
qed

lemma join_hex_hd:
  assumes "group16 g"
  shows "join '':'' (map hex16 (g # gs)) \<noteq> [] \<and> is_hex (hd (join '':'' (map hex16 (g # gs))))"
proof -
  obtain c cs where "hex16 g = c # cs" "is_hex c" using hex16_facts(1,2) [OF assms] by (cases "hex16 g") auto
  then show ?thesis by (cases gs) auto
qed

lemma length_group_bytes [simp]: "length (group_bytes g) = 2"
  by (simp add: group_bytes_def)

lemma length_bytes_of [simp]: "length (bytes_of gs) = 2 * length gs"
  by (induction gs) auto

lemma parse_join:
  assumes "list_all group16 gs" "gs \<noteq> []" "length bs + 2 * length gs \<le> 16"
  shows "parse_groups (join '':'' (map hex16 gs)) bs e = Some ([], bs @ bytes_of gs, e)"
  using assms
proof (induction gs arbitrary: bs rule: induct_list012)
  case (2 g)
  then show ?case using parse_last [of g bs e] by simp
next
  case (3 g h gs)
  have hd: "join '':'' (map hex16 (h # gs)) \<noteq> []" "hd (join '':'' (map hex16 (h # gs))) \<noteq> CHR '':''"
    using join_hex_hd [of h gs] hex_not_special 3(3) by auto
  have "parse_groups (join '':'' (map hex16 (g # h # gs))) bs e = parse_groups (join '':'' (map hex16 (h # gs))) (bs @ group_bytes g) e"
    using parse_next [OF _ _ hd, of g bs e] 3(3,5) by simp
  then show ?case using 3(2) [of "bs @ group_bytes g"] 3(3,5) by simp
qed simp

lemma parse_join_ellipsis:
  assumes "list_all group16 gs" "gs \<noteq> []" "length bs + 2 * length gs \<le> 16"
  shows "parse_groups (join '':'' (map hex16 gs) @ ''::'' @ t) bs None =
    (let bs' = bs @ bytes_of gs
     in if t = [] then Some ([], bs', Some (length bs')) else parse_groups t bs' (Some (length bs')))"
  using assms
proof (induction gs arbitrary: bs rule: induct_list012)
  case (2 g)
  then show ?case using parse_ellipsis [of g bs t] by simp
next
  case (3 g h gs)
  let ?t = "join '':'' (map hex16 (h # gs)) @ ''::'' @ t"
  have hd: "?t \<noteq> []" "hd ?t \<noteq> CHR '':''"
    using join_hex_hd [of h gs] hex_not_special 3(3) by auto
  have "parse_groups (join '':'' (map hex16 (g # h # gs)) @ ''::'' @ t) bs None = parse_groups ?t (bs @ group_bytes g) None"
    using parse_next [OF _ _ hd, of g bs None] 3(3,5) by simp
  then show ?case using 3(2) [of "bs @ group_bytes g"] 3(3,5) by (simp add: Let_def)
qed simp

lemma group_bytes_word [simp]: "group_bytes (256 * uint a + uint b) = [a, b]"
proof -
  have b: "0 \<le> uint b" "uint b < 256" using uint_lt2p [of b] by simp_all
  have "(256 * uint a + uint b) div 256 = uint a" using b by (simp add: div_add1_eq)
  moreover have z: "256 * a = 0"
  proof -
    have "(256 :: byte) = 0" by code_simp
    then show ?thesis by (metis mult_zero_left)
  qed
  have "word_of_int (256 * uint a + uint b) = b" by (simp add: z)
  ultimately show ?thesis by (simp add: group_bytes_def)
qed

lemma groups_facts:
  assumes "even (length a)"
  shows "bytes_of (groups a) = a" "list_all group16 (groups a)" "length a = 2 * length (groups a)"
proof -
  have u: "0 \<le> uint b" "uint b < 256" for b :: byte using uint_lt2p [of b] by simp_all
  have "bytes_of (groups a) = a \<and> list_all group16 (groups a) \<and> length a = 2 * length (groups a)"
    using assms
  proof (induction a rule: groups.induct)
    case (1 a b bs)
    moreover have "group16 (256 * uint a + uint b)" using u(1) [of a] u(2) [of a] u(1) [of b] u(2) [of b] by linarith
    ultimately show ?case by simp
  qed auto
  then show "bytes_of (groups a) = a" "list_all group16 (groups a)" "length a = 2 * length (groups a)" by simp_all
qed

text \<open>The run of zeros that the text leaves out.\<close>

definition zeros_ok :: "int list \<Rightarrow> nat \<times> nat \<Rightarrow> bool" where
  "zeros_ok gs = (\<lambda>(s, e). (s = 255 \<and> e = 255) \<or> (s + 2 \<le> e \<and> e \<le> length gs \<and> gs = take s gs @ replicate (e - s) 0 @ drop e gs))"

lemma zero_run_split:
  assumes "2 \<le> zero_run gs i"
  shows "i + zero_run gs i \<le> length gs" "gs = take i gs @ replicate (zero_run gs i) 0 @ drop (i + zero_run gs i) gs"
proof -
  let ?l = "zero_run gs i"
  have le: "?l \<le> length (drop i gs)" unfolding zero_run_def by (rule length_takeWhile_le)
  have z: "takeWhile (\<lambda>g. g = 0) (drop i gs) = replicate ?l 0"
    by (rule replicate_eqI) (auto simp: zero_run_def dest: set_takeWhileD)
  have "drop i gs = takeWhile (\<lambda>g. g = 0) (drop i gs) @ dropWhile (\<lambda>g. g = 0) (drop i gs)" by simp
  also have "dropWhile (\<lambda>g. g = 0) (drop i gs) = drop ?l (drop i gs)" by (simp add: zero_run_def dropWhile_eq_drop)
  finally have "drop i gs = replicate ?l 0 @ drop (i + ?l) gs" by (simp add: z add.commute)
  then show "gs = take i gs @ replicate ?l 0 @ drop (i + ?l) gs" by (metis append_take_drop_id)
  show "i + ?l \<le> length gs" using le assms by (cases "i \<le> length gs") auto
qed

lemma longest_zeros_ok: "zeros_ok gs (longest_zeros gs)"
proof -
  let ?f = "\<lambda>i (s, e). let l = zero_run gs i in if 2 \<le> l \<and> e - s < l then (i, i + l) else (s, e)"
  have "zeros_ok gs (fold ?f is p)" if "zeros_ok gs p" for "is" p
    using that
  proof (induction "is" arbitrary: p)
    case (Cons i "is")
    have "zeros_ok gs (?f i p)"
      using Cons.prems zero_run_split [of gs i] by (cases p) (auto simp: zeros_ok_def Let_def)
    then show ?case using Cons.IH by simp
  qed simp
  then show ?thesis unfolding longest_zeros_def by (simp add: zeros_ok_def)
qed

lemma bytes_of_zeros: "concat (replicate n (group_bytes 0)) = replicate (2 * n) 0"
  by (induction n) (simp_all add: group_bytes_def)

lemma join_hex_chars: "list_all group16 gs \<Longrightarrow> c \<in> set (join '':'' (map hex16 gs)) \<Longrightarrow> is_hex c \<or> c = CHR '':''"
proof (induction gs rule: induct_list012)
  case (3 g h gs)
  then show ?case using hex16_facts(1) [of g] by (auto simp: list_all_iff)
qed (use hex16_facts(1) in \<open>auto simp: list_all_iff\<close>)

lemma v6_text_chars:
  assumes "list_all group16 gs" "c \<in> set (v6_text gs)"
  shows "is_hex c \<or> c = CHR '':''"
proof -
  have "list_all group16 (take n gs)" "list_all group16 (drop n gs)" for n
    using assms(1) by (auto simp: list_all_iff dest: in_set_takeD in_set_dropD)
  note parts = join_hex_chars [OF this(1)] join_hex_chars [OF this(2)] join_hex_chars [OF assms(1)]
  obtain s e where "longest_zeros gs = (s, e)" by fastforce
  with assms(2) have "c \<in> set (join '':'' (map hex16 gs)) \<or> c \<in> set (join '':'' (map hex16 (take s gs))) \<or>
      c = CHR '':'' \<or> c \<in> set (join '':'' (map hex16 (drop e gs)))"
    by (auto simp: v6_text_def split: if_splits)
  then show ?thesis using parts by blast
qed

lemma parse_v6_text:
  assumes "length a = 16"
  shows "parseIPv6 (v6_text (groups a)) = Some a"
proof -
  define gs where "gs = groups a"
  have gs: "bytes_of gs = a" "list_all group16 gs" "length gs = 8" using groups_facts [of a] assms by (simp_all add: gs_def)
  have valid: "list_all group16 (take n gs)" "list_all group16 (drop n gs)" for n
    using gs(2) by (auto simp: list_all_iff dest: in_set_takeD in_set_dropD)
  have plain: "CHR ''%'' \<notin> set (v6_text gs)"
    using v6_text_chars [OF gs(2)] by (force simp: is_hex_def is_digit_def)
  have lead: "take 2 (join '':'' (map hex16 xs) @ t) \<noteq> ''::''" if "xs \<noteq> []" "list_all group16 xs" for xs t
  proof -
    from that obtain x ys where xs: "xs = x # ys" "group16 x" by (cases xs) auto
    then obtain c cs where "join '':'' (map hex16 xs) = c # cs" "is_hex c"
      using join_hex_hd [of x ys] by (cases "join '':'' (map hex16 xs)") auto
    then show ?thesis using hex_not_special [of c] by (auto simp: numeral_2_eq_2)
  qed
  obtain s e where se: "longest_zeros gs = (s, e)" by fastforce
  have "parseIPv6 (v6_text gs) = Some a"
  proof (cases "s = 255")
    case True
    have ne: "gs \<noteq> []" using gs(3) by auto
    then have "take 2 (join '':'' (map hex16 gs)) \<noteq> ''::''" using lead [of gs "[]"] gs(2) by simp
    then show ?thesis
      using True plain parse_join [of gs "[]" None] gs ne assms by (simp add: parseIPv6_def v6_text_def se Let_def)
  next
    case False
    then have z: "s + 2 \<le> e" "e \<le> 8" "gs = take s gs @ replicate (e - s) 0 @ drop e gs"
      using longest_zeros_ok [of gs] gs(3) by (auto simp: zeros_ok_def se)
    define post where "post = join '':'' (map hex16 (drop e gs))"
    have a: "a = bytes_of (take s gs) @ replicate (2 * (e - s)) 0 @ bytes_of (drop e gs)"
      by (subst gs(1) [symmetric], subst z(3)) (simp add: bytes_of_zeros)
    have written: "v6_text gs = join '':'' (map hex16 (take s gs)) @ ''::'' @ post"
      using False by (simp add: v6_text_def se post_def)
    have post: "post = [] \<longleftrightarrow> e = 8"
    proof (cases "drop e gs")
      case Nil
      then show ?thesis using z(2) gs(3) by (simp add: post_def)
    next
      case (Cons x ys)
      then have "post \<noteq> []" using join_hex_hd [of x ys] valid(2) [of e] by (auto simp: post_def)
      then show ?thesis using Cons gs(3) by auto
    qed
    have tail: "parse_groups post bs e' = Some ([], bs @ bytes_of (drop e gs), e')" if "e \<noteq> 8" "length bs + 2 * (8 - e) \<le> 16" for bs e'
      using parse_join [of "drop e gs" bs e'] that z(2) gs(3) valid by (simp add: post_def)
    have fill: "16 - (2 * s + 2 * (8 - e)) = 2 * (e - s)" using z by simp
    show ?thesis
    proof (cases "s = 0")
      case True
      have "v6_text gs = ''::'' @ post" using True by (simp add: written)
      moreover have "a = replicate (2 * e) 0 @ bytes_of (drop e gs)" using a True by simp
      ultimately show ?thesis
        using plain tail [of "[]" "Some 0"] z(1,2) gs(3) fill post True
        by (cases "e = 8") (simp_all add: parseIPv6_def Let_def)
    next
      case False
      then have ne: "take s gs \<noteq> []" using gs(3) by auto
      have "parse_groups (v6_text gs) [] None = Some ([], bytes_of (take s gs) @ bytes_of (drop e gs), Some (2 * s))"
        using parse_join_ellipsis [OF valid(1) ne, of "[]" post] tail [of "bytes_of (take s gs)" "Some (2 * s)"] z gs(3) post
        by (auto simp: written Let_def)
      moreover have "take 2 (v6_text gs) \<noteq> ''::''" unfolding written by (rule lead [OF ne valid(1)])
      ultimately show ?thesis
        using plain z gs(3) fill by (simp add: parseIPv6_def Let_def a)
    qed
  qed
  then show ?thesis by (simp add: gs_def)
qed

lemma find_first: "list_all (\<lambda>c. P c \<longrightarrow> c = d) s \<Longrightarrow> P d \<Longrightarrow> d \<in> set s \<Longrightarrow> List.find P s = Some d"
  by (induction s) auto

lemma v6_text_colon: "length gs = 8 \<Longrightarrow> CHR '':'' \<in> set (v6_text gs)"
  by (cases "longest_zeros gs"; cases gs; cases "tl gs") (auto simp: v6_text_def)

lemma v4_text_chars: "c \<in> set (v4_text a) \<Longrightarrow> is_digit c \<or> c = CHR ''.''"
proof -
  have d: "c \<in> set (nat_digits n) \<Longrightarrow> is_digit c" for n using nat_digits_props [of n] by (simp add: list_all_iff)
  have "c \<in> set (join ''.'' (map (\<lambda>b. nat_digits (unat b)) a)) \<Longrightarrow> is_digit c \<or> c = CHR ''.''"
    by (induction a rule: induct_list012) (auto dest: d)
  then show "c \<in> set (v4_text a) \<Longrightarrow> is_digit c \<or> c = CHR ''.''" by (simp add: v4_text_def)
qed

theorem ParseAddr_String:
  shows "length a = 4 \<Longrightarrow> ParseAddr (IP_String a) = Some (32, v4InV6Prefix @ a)"
    and "length a = 16 \<Longrightarrow> To4 a = None \<Longrightarrow> ParseAddr (IP_String a) = Some (128, a)"
    and "To4 a = Some v \<Longrightarrow> IP_String a = v4_text v"
proof -
  assume a: "length a = 4"
  have "CHR ''.'' \<in> set (v4_text a)" using a by (auto simp: v4_text_def numeral_eq_Suc length_Suc_conv)
  then have "List.find (\<lambda>c. c \<in> set ''.:%'') (v4_text a) = Some CHR ''.''"
    by (intro find_first) (auto simp: list_all_iff is_digit_def dest: v4_text_chars)
  then show "ParseAddr (IP_String a) = Some (32, v4InV6Prefix @ a)"
    using a by (simp add: ParseAddr_def IP_String_def parse_v4_text)
next
  assume a: "length a = 16" "To4 a = None"
  have "list_all group16 (groups a)" "length (groups a) = 8" using groups_facts [of a] a by simp_all
  then have "List.find (\<lambda>c. c \<in> set ''.:%'') (v6_text (groups a)) = Some CHR '':''"
    using v6_text_chars [of "groups a"] hex_not_special by (intro find_first) (force simp: list_all_iff v6_text_colon)+
  then show "ParseAddr (IP_String a) = Some (128, a)"
    using a by (simp add: ParseAddr_def IP_String_def parse_v6_text)
qed (simp add: IP_String_def)

section \<open>Networks read back\<close>

text \<open>A network as the parser and the host routes of the callers build it.\<close>

definition network_wf :: "ipnet \<Rightarrow> bool" where
  "network_wf n = (\<exists>ones bits. ones \<le> bits \<and> (bits = 32 \<or> bits = 128) \<and> nMask n = CIDRMask ones bits \<and>
     8 * length (nIP n) = bits \<and> masked (nIP n) (nMask n) = nIP n)"

lemma parseIPv4Fields_length: "parseIPv4Fields s val k fs = Some a \<Longrightarrow> length fs \<le> 3 \<Longrightarrow> length a = 4"
  by (induction s val k fs rule: parseIPv4Fields.induct) (auto simp: Let_def split: if_splits)

lemma parse_groups_step:
  assumes "parse_groups s bs e = Some r" "length bs < 16"
  obtains f where "length f = 4" "length bs + 4 \<le> 16" "r = ([], bs @ f, e)"
  | g e' where "r = ([], bs @ group_bytes g, e')"
  | g t e' where "length t < length s" "parse_groups t (bs @ group_bytes g) e' = Some r"
proof -
  let ?ds = "takeWhile is_hex s" and ?rest = "dropWhile is_hex s"
  have shorter: "length (tl ?rest) < length s" "length (tl (tl ?rest)) < length s" if "?rest \<noteq> []"
    using tl_dropWhile_shorter [OF that] by simp_all
  show thesis
  proof (cases "?rest \<noteq> [] \<and> hd ?rest = CHR ''.''")
    case True
    then obtain f where "parseIPv4Fields s 0 0 [] = Some f" "length bs + 4 \<le> 16" "r = ([], bs @ f, e)"
      using assms by (subst (asm) parse_groups.simps) (auto simp: Let_def split: if_splits option.splits)
    then show thesis using that(1) parseIPv4Fields_length by force
  next
    case False
    let ?bs = "bs @ group_bytes (hex_number ?ds)"
    have "(\<exists>e'. r = ([], ?bs, e')) \<or> (?rest \<noteq> [] \<and> (\<exists>t \<in> {tl ?rest, tl (tl ?rest)}. \<exists>e'. parse_groups t ?bs e' = Some r))"
      using assms False by (subst (asm) parse_groups.simps) (auto simp: Let_def split: if_splits)
    then show thesis using that(2,3) shorter by blast
  qed
qed

lemma parse_groups_length:
  "parse_groups s bs e = Some (rest, out, e') \<Longrightarrow> length bs \<le> 16 \<Longrightarrow> even (length bs) \<Longrightarrow> length out \<le> 16"
proof (induction s arbitrary: bs e rule: length_induct)
  case (1 s)
  show ?case
  proof (cases "length bs < 16")
    case False
    then show ?thesis using 1(2,3) by (subst (asm) parse_groups.simps) simp
  next
    case True
    then have room: "length bs + 2 \<le> 16" using 1(4) by presburger
    from 1(2) True show ?thesis
    proof (cases rule: parse_groups_step)
      case (3 g t e'')
      then show ?thesis using 1(1) [rule_format, of t "bs @ group_bytes g" e''] room 1(4) by simp
    qed (use room in auto)
  qed
qed

lemma ParseAddr_shape:
  assumes "ParseAddr s = Some (bits, a)"
  shows "(bits = 32 \<and> (\<exists>v. length v = 4 \<and> a = v4InV6Prefix @ v)) \<or> (bits = 128 \<and> length a = 16)"
proof -
  have v6: "length a = 16" if "parseIPv6 s = Some a"
  proof -
    have "length bs \<le> 16" if "parse_groups t [] e = Some (rest, bs, e')" for t e rest bs e'
      using parse_groups_length [OF that] by simp
    with that show ?thesis by (auto simp: parseIPv6_def Let_def split: if_splits option.splits) fastforce+
  qed
  show ?thesis using assms v6 by (auto simp: ParseAddr_def split: option.splits if_splits dest: parseIPv4Fields_length)
qed

lemma IP_Mask_shapes:
  shows "length v = 4 \<Longrightarrow> ones \<le> 32 \<Longrightarrow> IP_Mask (v4InV6Prefix @ v) (CIDRMask ones 32) = masked v (CIDRMask ones 32)"
    and "length v = 4 \<Longrightarrow> ones \<le> 32 \<Longrightarrow> IP_Mask v (CIDRMask ones 32) = masked v (CIDRMask ones 32)"
    and "length a = 16 \<Longrightarrow> ones \<le> 128 \<Longrightarrow> IP_Mask a (CIDRMask ones 128) = masked a (CIDRMask ones 128)"
  using CIDRMask_facts(1) [of ones 32] CIDRMask_facts(1) [of ones 128] by (auto simp: IP_Mask_def Let_def)

lemma ParseCIDR_wf:
  assumes "ParseCIDR s = Some n"
  shows "network_wf n"
proof -
  obtain addr len bits a where p: "ParseAddr addr = Some (bits, a)" "digits_value 0 len \<le> int bits"
      "n = (let m = CIDRMask (nat (digits_value 0 len)) bits in \<lparr>nIP = IP_Mask a m, nMask = m\<rparr>)"
    using assms by (fastforce simp: ParseCIDR_def Let_def not_less split: option.splits prod.splits if_splits)
  let ?ones = "nat (digits_value 0 len)"
  have ones: "?ones \<le> bits" using p(2) by simp
  from ParseAddr_shape [OF p(1)] show ?thesis
  proof (elim disjE conjE exE)
    fix v assume "bits = 32" "length v = 4" "a = v4InV6Prefix @ v"
    then show ?thesis
      unfolding network_wf_def using ones IP_Mask_shapes(1) [of v ?ones] CIDRMask_facts(1) [of ?ones 32]
      by (intro exI [of _ ?ones] exI [of _ 32]) (simp add: p(3) Let_def)
  next
    assume "bits = 128" "length a = 16"
    then show ?thesis
      unfolding network_wf_def using ones IP_Mask_shapes(3) [of a ?ones] CIDRMask_facts(1) [of ?ones 128]
      by (intro exI [of _ ?ones] exI [of _ 128]) (simp add: p(3) Let_def)
  qed
qed

text \<open>
  Text for a network names the network in its shortest form: one of IPv4 addresses in IPv6 clothing is written, and read back, as an
  IPv4 network.
\<close>

definition squash :: "ipnet \<Rightarrow> ipnet" where
  "squash n = (case networkNumberAndMask n of (a, m) \<Rightarrow> \<lparr>nIP = a, nMask = m\<rparr>)"

lemma cut_at_append: "c \<notin> set s \<Longrightarrow> cut_at c (s @ c # t) = Some (s, t)"
  unfolding cut_at_def by (induction s) auto

lemma mask_byte_255: "k < l \<Longrightarrow> n < 8 * (k + 1) \<Longrightarrow> mask_bytes l n ! k \<noteq> 255"
proof (induction l n arbitrary: k rule: mask_bytes.induct)
  case (2 l n)
  then show ?case using last_mask_byte(1) [of n] by (cases k) (auto simp: mask_bytes_0)
qed simp

lemma mapped_mask:
  assumes "length v = 4" "ones \<le> 128" "masked (v4InV6Prefix @ v) (CIDRMask ones 128) = v4InV6Prefix @ v"
  shows "96 \<le> ones" "drop 12 (CIDRMask ones 128) = CIDRMask (ones - 96) 32" "masked v (CIDRMask (ones - 96) 32) = v"
proof -
  let ?m = "CIDRMask ones 128"
  have m: "?m = mask_bytes 16 ones" using assms(2) by (simp add: CIDRMask_def)
  have "(v4InV6Prefix @ v) ! 11 AND ?m ! 11 = (v4InV6Prefix @ v) ! 11"
    using arg_cong [OF assms(3), of "\<lambda>xs. xs ! 11"] assms(1) by (simp add: m nth_append)
  then have "255 AND ?m ! 11 = 255" by (simp add: v4InV6Prefix_def nth_append)
  moreover have "(255 :: byte) = - 1" by code_simp
  then have "255 AND b = b" for b :: byte by (metis and.left_neutral)
  ultimately have "?m ! 11 = 255" by simp
  then show "96 \<le> ones" using mask_byte_255 [of 11 16 ones] by (auto simp: m not_less [symmetric])
  then show d: "drop 12 ?m = CIDRMask (ones - 96) 32" using mask_bytes_drop [of 12 ones 16] assms(2) by (simp add: m CIDRMask_def)
  have "masked (v4InV6Prefix @ v) ?m = masked v4InV6Prefix (take 12 ?m) @ masked v (drop 12 ?m)"
    by (subst append_take_drop_id [of 12 ?m, symmetric], subst zip_append) (simp_all add: m)
  with assms(3) show "masked v (CIDRMask (ones - 96) 32) = v" by (simp add: d [unfolded m, symmetric] m)
qed

lemma text_no_slash: "CHR ''/'' \<notin> set (v4_text a)" "even (length a) \<Longrightarrow> CHR ''/'' \<notin> set (v6_text (groups a))"
  using v4_text_chars v6_text_chars [OF groups_facts(2)] by (force simp: is_hex_def is_digit_def)+

lemma ParseCIDR_written:
  assumes "CHR ''/'' \<notin> set t" "ParseAddr t = Some (bits, a)" "ones \<le> bits"
  shows "ParseCIDR (t @ CHR ''/'' # nat_digits ones) = Some \<lparr>nIP = IP_Mask a (CIDRMask ones bits), nMask = CIDRMask ones bits\<rparr>"
  using nat_digits_props [of ones] assms by (simp add: ParseCIDR_def cut_at_append Let_def)

theorem IPNet_String_roundtrip:
  assumes "network_wf n"
  shows "ParseCIDR (IPNet_String n) = Some (squash n)" "network_wf (squash n)" "networkNumberAndMask (squash n) = networkNumberAndMask n"
proof -
  obtain ones bits where n: "ones \<le> bits" "bits = 32 \<or> bits = 128" "nMask n = CIDRMask ones bits" "8 * length (nIP n) = bits"
      "masked (nIP n) (nMask n) = nIP n"
    using assms unfolding network_wf_def by blast
  note mask = CIDRMask_facts [OF n(1,2)]
  have "\<exists>a l b. networkNumberAndMask n = (a, CIDRMask l b) \<and> l \<le> b \<and> (b = 32 \<or> b = 128) \<and> 8 * length a = b \<and>
      masked a (CIDRMask l b) = a \<and> (b = 128 \<longrightarrow> To4 a = None)"
  proof (cases "To4 (nIP n)")
    case None
    then have "bits = 128" "length (nIP n) = 16" using n(2,4) by (auto simp: To4_def)
    with None show ?thesis using n mask(1) by (auto simp: networkNumberAndMask_def)
  next
    case (Some v)
    note v = length_To4 [OF Some]
    show ?thesis
    proof (cases "bits = 32")
      case True
      then have "length (nIP n) = 4" using n(4) by simp
      then show ?thesis using n mask(1) True by (auto simp: networkNumberAndMask_def)
    next
      case False
      then have b: "bits = 128" "length (nIP n) = 16" using n(2,4) by auto
      have "nIP n = v4InV6Prefix @ v" using Some b(2) by (auto simp: To4_def split: if_splits) (metis append_take_drop_id)
      with n b have *: "masked (v4InV6Prefix @ v) (CIDRMask ones 128) = v4InV6Prefix @ v" by simp
      note mapped = mapped_mask [OF v _ this]
      have "networkNumberAndMask n = (v, CIDRMask (ones - 96) 32)"
        using Some v n(3) b mapped(2) n(1) mask(1) by (simp add: networkNumberAndMask_def)
      then show ?thesis using mapped(1,3) n(1) b v by (intro exI [of _ v] exI [of _ "ones - 96"] exI [of _ 32]) simp
    qed
  qed
  then obtain a l b where nn: "networkNumberAndMask n = (a, CIDRMask l b)" "l \<le> b" "b = 32 \<or> b = 128" "8 * length a = b"
      "masked a (CIDRMask l b) = a" "b = 128 \<longrightarrow> To4 a = None" by blast
  note m = CIDRMask_facts [OF nn(2,3)]
  have ne: "a \<noteq> []" using nn(3,4) by auto
  have str: "IPNet_String n = IP_String a @ CHR ''/'' # nat_digits l" using m ne by (simp add: IPNet_String_def nn(1))
  have len: "length a = 4 \<and> b = 32 \<or> length a = 16 \<and> b = 128" using nn(3,4) by auto
  have "CHR ''/'' \<notin> set (IP_String a)" using len text_no_slash nn(6) by (auto simp: IP_String_def)
  moreover have "ParseAddr (IP_String a) = Some (b, if b = 32 then v4InV6Prefix @ a else a)"
    using len nn(6) ParseAddr_String [of a] by auto
  ultimately have "ParseCIDR (IPNet_String n) = Some \<lparr>nIP = IP_Mask (if b = 32 then v4InV6Prefix @ a else a) (CIDRMask l b), nMask = CIDRMask l b\<rparr>"
    using ParseCIDR_written nn(2) by (simp add: str)
  moreover have "IP_Mask (if b = 32 then v4InV6Prefix @ a else a) (CIDRMask l b) = a"
    using len nn(2,5) IP_Mask_shapes(1,3) [of a l] by auto
  ultimately show "ParseCIDR (IPNet_String n) = Some (squash n)" by (simp add: squash_def nn(1))
  show "network_wf (squash n)" using nn unfolding network_wf_def by (intro exI [of _ l] exI [of _ b]) (simp add: squash_def)
  show "networkNumberAndMask (squash n) = networkNumberAndMask n"
    using nn(1,6) len m(1) by (auto simp: squash_def networkNumberAndMask_def)
qed

lemma Contains_squash: "network_wf n \<Longrightarrow> Contains (squash n) a = Contains n a"
  by (simp add: Contains_def IPNet_String_roundtrip(3))

end
