(* ===== verification/IP_Rules.thy ===== *)
theory IP_Rules
  imports IP_Address
begin

text \<open>
  The allow and deny rules of \<^verbatim>\<open>src/internal/ipaccess\<close>: the normalisation of what an operator types (\<^verbatim>\<open>rule.go\<close>), the protection policy
  (\<^verbatim>\<open>policy.go\<close>) and the immutable index that requests are matched against (\<^verbatim>\<open>matcher.go\<close>).

  Go strings with a named type (\<^verbatim>\<open>Effect\<close>, \<^verbatim>\<open>Source\<close>, \<^verbatim>\<open>AutoBanMode\<close>) stay strings.
\<close>

section \<open>Rules\<close>

abbreviation EffectAllow :: string where "EffectAllow \<equiv> ''allow''"
abbreviation EffectDeny :: string where "EffectDeny \<equiv> ''deny''"
abbreviation SourceManual :: string where "SourceManual \<equiv> ''manual''"
abbreviation SourceAuto :: string where "SourceAuto \<equiv> ''auto''"

definition MinPrefixLenV4 :: nat where "MinPrefixLenV4 = 8"
definition MinPrefixLenV6 :: nat where "MinPrefixLenV6 = 32"

datatype rule_error =
  ErrEmptyCIDR | ErrInvalidCIDR | ErrLoopbackCIDR | ErrUnspecifiedCIDR | ErrInvalidEffect | ErrTooBroad nat nat int

record access_rule =
  arID :: string
  arCIDR :: string
  arFamily :: int
  arEffect :: string
  arSource :: string
  arReason :: string
  arNote :: string
  arEnabled :: bool
  arExpiresAt :: "gotime option"
  arCreatedBy :: string
  arCreatedAt :: gotime
  arUpdatedAt :: gotime
  arHitCount :: int
  arLastHitAt :: "gotime option"

definition Active :: "access_rule \<Rightarrow> gotime \<Rightarrow> bool" where
  "Active r now = (arEnabled r \<and> (case arExpiresAt r of None \<Rightarrow> True | Some t \<Rightarrow> now < t))"

definition ParseEffect :: "string \<Rightarrow> rule_error + string" where
  "ParseEffect raw =
     (let e = to_lower (trim_space raw)
      in if e = EffectAllow then Inr EffectAllow else if e = EffectDeny then Inr EffectDeny else Inl ErrInvalidEffect)"

definition trim_prefix :: "char \<Rightarrow> string \<Rightarrow> string" where
  "trim_prefix c s = (if s \<noteq> [] \<and> hd s = c then tl s else s)"

definition trim_suffix :: "char \<Rightarrow> string \<Rightarrow> string" where
  "trim_suffix c s = (if s \<noteq> [] \<and> last s = c then butlast s else s)"

text \<open>Brackets and a zone are dropped: \<^verbatim>\<open>[fe80::1%eth0]\<close> names \<^verbatim>\<open>fe80::1\<close>.\<close>

definition strip_decorations :: "string \<Rightarrow> string" where
  "strip_decorations s = takeWhile (\<lambda>c. c \<noteq> CHR ''%'') (trim_suffix (CHR '']'') (trim_prefix (CHR ''['') s))"

text \<open>The network of a bare address.\<close>

definition host_route :: "ip \<Rightarrow> ipnet" where
  "host_route a = (case To4 a of Some v \<Rightarrow> \<lparr>nIP = v, nMask = CIDRMask 32 32\<rparr> | None \<Rightarrow> \<lparr>nIP = a, nMask = CIDRMask 128 128\<rparr>)"

definition typed_network :: "string \<Rightarrow> ipnet option" where
  "typed_network s = (if contains s ''/'' then ParseCIDR s else map_option host_route (ParseIP s))"

definition NormalizeCIDR :: "string \<Rightarrow> rule_error + string \<times> int" where
  "NormalizeCIDR raw =
     (let candidate = trim_space raw
      in if candidate = '''' then Inl ErrEmptyCIDR
         else case typed_network (strip_decorations candidate) of
                None \<Rightarrow> Inl ErrInvalidCIDR
              | Some n \<Rightarrow>
                  if IsLoopback (nIP n) then Inl ErrLoopbackCIDR
                  else if IsUnspecified (nIP n) then Inl ErrUnspecifiedCIDR
                  else let (ones, bits) = mask_Size (nMask n)
                       in if bits = 0 then Inl ErrInvalidCIDR
                          else let family = (if bits = 32 then 4 else 6);
                                   minPrefix = (if bits = 32 then MinPrefixLenV4 else MinPrefixLenV6)
                               in if ones < minPrefix then Inl (ErrTooBroad ones minPrefix family)
                                  else Inr (IPNet_String n, family))"

text \<open>\<^verbatim>\<open>net.SplitHostPort\<close>; the port is not used.\<close>

definition SplitHostPort :: "string \<Rightarrow> string option" where
  "SplitHostPort s =
     (case last_index s (CHR '':'') of
        None \<Rightarrow> None
      | Some i \<Rightarrow>
          if hd s = CHR ''[''
          then (case cut_at (CHR '']'') s of
                  None \<Rightarrow> None
                | Some (before, after) \<Rightarrow>
                    if length before + 1 \<noteq> i then None
                    else if CHR ''['' \<in> set (tl s) \<or> CHR '']'' \<in> set after then None
                    else Some (tl before))
          else let host = take i s
               in if CHR '':'' \<in> set host \<or> CHR ''['' \<in> set s \<or> CHR '']'' \<in> set s then None else Some host)"

definition NormalizeObservedIP :: "string \<Rightarrow> string option" where
  "NormalizeObservedIP raw =
     (let candidate = trim_space raw
      in if candidate = '''' then None
         else let host = (case SplitHostPort candidate of Some h \<Rightarrow> h | None \<Rightarrow> candidate)
              in map_option IP_String (ParseIP (trim_space (strip_decorations host))))"

definition ParseIPForMatch :: "string \<Rightarrow> ip option" where
  "ParseIPForMatch raw = Option.bind (NormalizeObservedIP raw) ParseIP"

section \<open>The index\<close>

datatype decision = DecisionNeutral | DecisionAllow | DecisionDeny

definition Decision_String :: "decision \<Rightarrow> string" where
  "Decision_String d = (case d of DecisionAllow \<Rightarrow> ''allow'' | DecisionDeny \<Rightarrow> ''deny'' | DecisionNeutral \<Rightarrow> ''neutral'')"

text \<open>Buckets by prefix length, and the lengths in order of their first use.\<close>

type_synonym buckets = "(nat, (ip, access_rule) gomap) gomap"

record prefix_index =
  pxV4 :: buckets
  pxV6 :: buckets
  pxV4Lens :: "nat list"
  pxV6Lens :: "nat list"

definition newPrefixIndex :: prefix_index where
  "newPrefixIndex = \<lparr>pxV4 = [], pxV6 = [], pxV4Lens = [], pxV6Lens = []\<rparr>"

definition bucket_add :: "nat \<Rightarrow> ip \<Rightarrow> access_rule \<Rightarrow> buckets \<times> nat list \<Rightarrow> buckets \<times> nat list" where
  "bucket_add ones key r = (\<lambda>(bs, lens).
     (map_put ones (map_put key r (map_get [] bs ones)) bs, if map_of bs ones = None then lens @ [ones] else lens))"

definition index_add :: "access_rule \<Rightarrow> ipnet \<Rightarrow> prefix_index \<Rightarrow> prefix_index" where
  "index_add r n p =
     (let (ones, bits) = mask_Size (nMask n)
      in if bits = 32
         then let (b, l) = bucket_add ones (case To4 (nIP n) of Some v \<Rightarrow> v | None \<Rightarrow> replicate 4 0) r (pxV4 p, pxV4Lens p)
              in p\<lparr>pxV4 := b, pxV4Lens := l\<rparr>
         else let (b, l) = bucket_add ones (case To16 (nIP n) of Some v \<Rightarrow> v | None \<Rightarrow> replicate 16 0) r (pxV6 p, pxV6Lens p)
              in p\<lparr>pxV6 := b, pxV6Lens := l\<rparr>)"

definition seal :: "prefix_index \<Rightarrow> prefix_index" where
  "seal p = p\<lparr>pxV4Lens := rev (sort (pxV4Lens p)), pxV6Lens := rev (sort (pxV6Lens p))\<rparr>"

fun probe_lengths :: "buckets \<Rightarrow> nat \<Rightarrow> ip \<Rightarrow> nat list \<Rightarrow> access_rule option" where
  "probe_lengths bs bits a [] = None"
| "probe_lengths bs bits a (ones # lens) =
     (case map_of (map_get [] bs ones) (masked a (CIDRMask ones bits)) of
        Some r \<Rightarrow> Some r
      | None \<Rightarrow> probe_lengths bs bits a lens)"

definition index_lookup :: "prefix_index \<Rightarrow> ip \<Rightarrow> access_rule option" where
  "index_lookup p a =
     (case To4 a of
        Some v \<Rightarrow> probe_lengths (pxV4 p) 32 v (pxV4Lens p)
      | None \<Rightarrow> (case To16 a of Some v \<Rightarrow> probe_lengths (pxV6 p) 128 v (pxV6Lens p) | None \<Rightarrow> None))"

record matcher =
  maAllow :: prefix_index
  maDeny :: prefix_index
  maLockdown :: bool
  maCount :: nat

definition matcher_add :: "gotime \<Rightarrow> access_rule \<Rightarrow> matcher \<Rightarrow> matcher" where
  "matcher_add now r m =
     (if \<not> Active r now then m
      else case ParseCIDR (arCIDR r) of
             None \<Rightarrow> m
           | Some n \<Rightarrow>
               if arEffect r = EffectAllow then m\<lparr>maAllow := index_add r n (maAllow m), maCount := maCount m + 1\<rparr>
               else if arEffect r = EffectDeny then m\<lparr>maDeny := index_add r n (maDeny m), maCount := maCount m + 1\<rparr>
               else m)"

definition NewMatcher :: "access_rule list \<Rightarrow> bool \<Rightarrow> gotime \<Rightarrow> matcher" where
  "NewMatcher rules lockdown now =
     (let m = fold (matcher_add now) rules
                \<lparr>maAllow = newPrefixIndex, maDeny = newPrefixIndex, maLockdown = lockdown, maCount = 0\<rparr>
      in m\<lparr>maAllow := seal (maAllow m), maDeny := seal (maDeny m)\<rparr>)"

definition Match :: "matcher \<Rightarrow> ip \<Rightarrow> decision \<times> access_rule option" where
  "Match m a =
     (if a = [] then (DecisionNeutral, None)
      else case index_lookup (maAllow m) a of
             Some r \<Rightarrow> (DecisionAllow, Some r)
           | None \<Rightarrow>
               (case index_lookup (maDeny m) a of
                  Some r \<Rightarrow> (DecisionDeny, Some r)
                | None \<Rightarrow> (if maLockdown m then DecisionDeny else DecisionNeutral, None)))"

definition AllowsAddress :: "matcher \<Rightarrow> ip \<Rightarrow> bool" where
  "AllowsAddress m a = (a \<noteq> [] \<and> index_lookup (maAllow m) a \<noteq> None)"

section \<open>What the index finds\<close>

type_synonym index_entry = "nat \<times> ip \<times> access_rule"

text \<open>The rules that apply to an address, and the one that decides: the longest prefix, the later one of two for the same network.\<close>

definition prefix_length :: "access_rule \<Rightarrow> nat" where
  "prefix_length r = (case ParseCIDR (arCIDR r) of Some n \<Rightarrow> fst (mask_Size (nMask n)) | None \<Rightarrow> 0)"

definition applies :: "string \<Rightarrow> gotime \<Rightarrow> ip \<Rightarrow> access_rule \<Rightarrow> bool" where
  "applies effect now a r = (Active r now \<and> arEffect r = effect \<and> (case ParseCIDR (arCIDR r) of Some n \<Rightarrow> Contains n a | None \<Rightarrow> False))"

definition most_specific :: "access_rule list \<Rightarrow> access_rule option" where
  "most_specific rs = (if rs = [] then None else Some (last (filter (\<lambda>r. prefix_length r = Max (prefix_length ` set rs)) rs)))"

definition reference_verdict :: "access_rule list \<Rightarrow> bool \<Rightarrow> gotime \<Rightarrow> ip \<Rightarrow> decision \<times> access_rule option" where
  "reference_verdict rules lockdown now a =
     (case most_specific (filter (applies EffectAllow now a) rules) of
        Some r \<Rightarrow> (DecisionAllow, Some r)
      | None \<Rightarrow>
          (case most_specific (filter (applies EffectDeny now a) rules) of
             Some r \<Rightarrow> (DecisionDeny, Some r)
           | None \<Rightarrow> (if lockdown then DecisionDeny else DecisionNeutral, None)))"

definition bucket_all :: "index_entry list \<Rightarrow> buckets \<times> nat list" where
  "bucket_all es = fold (\<lambda>(ones, key, r). bucket_add ones key r) es ([], [])"

lemma filter_Max_nonempty: "xs \<noteq> [] \<Longrightarrow> filter (\<lambda>x. f x = Max (f ` set xs)) xs \<noteq> []" for f :: "'a \<Rightarrow> nat"
proof -
  assume "xs \<noteq> []"
  then have "Max (f ` set xs) \<in> f ` set xs" by (intro Max_in) auto
  then obtain x where "x \<in> set xs" "f x = Max (f ` set xs)" by force
  then show ?thesis by (auto simp: filter_empty_conv)
qed

lemma map_of_rev_last:
  "map_of (rev (map (\<lambda>x. (f x, g x)) xs)) k = (if filter (\<lambda>x. f x = k) xs = [] then None else Some (g (last (filter (\<lambda>x. f x = k) xs))))"
  by (induction xs rule: rev_induct) auto

lemma bucket_all_facts:
  "map_of (map_get [] (fst (bucket_all es)) ones) key = map_of (rev (map (\<lambda>e. ((fst e, fst (snd e)), snd (snd e))) es)) (ones, key)"
  "set (snd (bucket_all es)) = fst ` set es"
  "map_of (fst (bucket_all es)) ones = None \<longleftrightarrow> ones \<notin> fst ` set es"
proof -
  have "map_of (map_get [] (fst (bucket_all es)) ones) key = map_of (rev (map (\<lambda>e. ((fst e, fst (snd e)), snd (snd e))) es)) (ones, key) \<and>
      set (snd (bucket_all es)) = fst ` set es \<and> (map_of (fst (bucket_all es)) ones = None \<longleftrightarrow> ones \<notin> fst ` set es)" for ones key
  proof (induction es arbitrary: ones key rule: rev_induct)
    case Nil
    then show ?case by (simp add: bucket_all_def)
  next
    case (snoc e es)
    obtain n k r where e: "e = (n, k, r)" by (cases e)
    obtain bs lens where t: "bucket_all es = (bs, lens)" by fastforce
    have step: "bucket_all (es @ [(n, k, r)]) = bucket_add n k r (bs, lens)" using t by (simp add: bucket_all_def)
    have A: "map_of (map_get [] bs m) j = map_of (rev (map (\<lambda>e. ((fst e, fst (snd e)), snd (snd e))) es)) (m, j)"
      and B: "set lens = fst ` set es" and C: "map_of bs m = None \<longleftrightarrow> m \<notin> fst ` set es" for m j
      using snoc [of m j] by (simp_all add: t)
    have "set (snd (bucket_all (es @ [e]))) = fst ` set (es @ [e])" using C [of n] B by (auto simp: step t bucket_add_def e)
    moreover have "map_of (fst (bucket_all (es @ [e]))) ones = None \<longleftrightarrow> ones \<notin> fst ` set (es @ [e])"
      using C [of ones] by (simp add: step t bucket_add_def e)
    moreover have "map_of (map_get [] (fst (bucket_all (es @ [e]))) ones) key =
        map_of (rev (map (\<lambda>e. ((fst e, fst (snd e)), snd (snd e))) (es @ [e]))) (ones, key)"
      using A [of ones key] by (auto simp: step t bucket_add_def e)
    ultimately show ?case by blast
  qed
  then show "map_of (map_get [] (fst (bucket_all es)) ones) key = map_of (rev (map (\<lambda>e. ((fst e, fst (snd e)), snd (snd e))) es)) (ones, key)"
    "set (snd (bucket_all es)) = fst ` set es" "map_of (fst (bucket_all es)) ones = None \<longleftrightarrow> ones \<notin> fst ` set es" by blast+
qed

lemma find_descending:
  "sorted_wrt (\<lambda>x y. y \<le> x) xs \<Longrightarrow> List.find P xs = (if \<exists>n \<in> set xs. P n then Some (Max {n \<in> set xs. P n}) else None)" for xs :: "nat list"
proof (induction xs)
  case (Cons x xs)
  show ?case
  proof (cases "P x")
    case True
    then have "Max {n \<in> set (x # xs). P n} = x" using Cons.prems by (intro Max_eqI) auto
    with True show ?thesis by auto
  next
    case False
    then have "{n \<in> set (x # xs). P n} = {n \<in> set xs. P n}" by auto
    with False Cons show ?thesis by simp
  qed
qed simp

lemma probe_lengths_find:
  "probe_lengths bs bits a lens =
     Option.bind (List.find (\<lambda>n. map_of (map_get [] bs n) (masked a (CIDRMask n bits)) \<noteq> None) lens)
       (\<lambda>n. map_of (map_get [] bs n) (masked a (CIDRMask n bits)))"
  by (induction lens) (auto split: option.splits)

text \<open>Longest-prefix match on the entries of one family.\<close>

lemma probe_bucket_all:
  fixes es :: "index_entry list"
  defines "hits \<equiv> \<lambda>bits a. filter (\<lambda>e. fst (snd e) = masked a (CIDRMask (fst e) bits)) es"
  shows "probe_lengths (fst (bucket_all es)) bits a (rev (sort (snd (bucket_all es)))) =
    (if hits bits a = [] then None
     else Some (snd (snd (last (filter (\<lambda>e. fst e = Max (fst ` set (hits bits a))) (hits bits a))))))"
proof -
  let ?hit = "\<lambda>n. map_of (map_get [] (fst (bucket_all es)) n) (masked a (CIDRMask n bits))"
  let ?H = "hits bits a"
  have sub: "filter (\<lambda>e. fst e = n \<and> fst (snd e) = masked a (CIDRMask n bits)) es = filter (\<lambda>e. fst e = n) ?H" for n
    by (auto simp: hits_def intro!: filter_cong)
  have hit: "?hit n = (if filter (\<lambda>e. fst e = n) ?H = [] then None else Some (snd (snd (last (filter (\<lambda>e. fst e = n) ?H)))))" for n
    by (simp add: bucket_all_facts(1) map_of_rev_last [where f = "\<lambda>e. (fst e, fst (snd e))"] sub)
  have some: "?hit n \<noteq> None \<longleftrightarrow> n \<in> fst ` set ?H" for n
    unfolding hit by (auto simp: filter_empty_conv image_iff)
  have lens: "{n \<in> set (rev (sort (snd (bucket_all es)))). ?hit n \<noteq> None} = fst ` set ?H"
    unfolding some by (auto simp: bucket_all_facts(2) hits_def)
  have sorted: "sorted_wrt (\<lambda>x y. y \<le> x) (rev (sort (snd (bucket_all es))))"
    by (simp add: sorted_wrt_rev)
  have found: "List.find (\<lambda>n. ?hit n \<noteq> None) (rev (sort (snd (bucket_all es)))) = (if ?H = [] then None else Some (Max (fst ` set ?H)))"
  proof (cases "?H = []")
    case True
    then have "\<not> (\<exists>n \<in> set (rev (sort (snd (bucket_all es)))). ?hit n \<noteq> None)" unfolding some by simp
    then show ?thesis using True by (simp add: find_None_iff)
  next
    case False
    then have "fst ` set ?H \<noteq> {}" by simp
    then have "\<exists>n \<in> set (rev (sort (snd (bucket_all es)))). ?hit n \<noteq> None" unfolding lens [symmetric] by blast
    then show ?thesis using False find_descending [OF sorted, of "\<lambda>n. ?hit n \<noteq> None"] by (simp only: lens if_True if_False)
  qed
  show ?thesis unfolding probe_lengths_find found using filter_Max_nonempty [of ?H fst] by (simp add: hit)
qed

section \<open>Longest-prefix match on the rules\<close>

text \<open>Stored networks are in their shortest form, as \<^const>\<open>NormalizeCIDR\<close> writes them.\<close>

definition stored_wf :: "access_rule \<Rightarrow> bool" where
  "stored_wf r = (\<forall>n. ParseCIDR (arCIDR r) = Some n \<longrightarrow> squash n = n)"

lemma squash_shape:
  assumes "network_wf n" "squash n = n"
  obtains ones bits where "mask_Size (nMask n) = (ones, bits)" "nMask n = CIDRMask ones bits" "networkNumberAndMask n = (nIP n, nMask n)"
    "masked (nIP n) (nMask n) = nIP n"
    "bits = 32 \<and> length (nIP n) = 4 \<or> bits = 128 \<and> length (nIP n) = 16 \<and> To4 (nIP n) = None"
proof -
  obtain ones bits where n: "ones \<le> bits" "bits = 32 \<or> bits = 128" "nMask n = CIDRMask ones bits" "8 * length (nIP n) = bits"
      "masked (nIP n) (nMask n) = nIP n"
    using assms(1) unfolding network_wf_def by blast
  note m = CIDRMask_facts [OF n(1,2)]
  have nn: "networkNumberAndMask n = (nIP n, nMask n)"
    using arg_cong [OF assms(2), of nIP] arg_cong [OF assms(2), of nMask] by (cases "networkNumberAndMask n") (simp add: squash_def)
  have "To4 (nIP n) = None" if "bits = 128"
  proof (rule ccontr)
    assume "To4 (nIP n) \<noteq> None"
    then obtain v where v: "To4 (nIP n) = Some v" by blast
    have "length (nIP n) = 16" using n(4) that by simp
    then show False using nn v length_To4 [OF v] n(3) m(1) that by (auto simp: networkNumberAndMask_def split: if_splits)
  qed
  then have "bits = 32 \<and> length (nIP n) = 4 \<or> bits = 128 \<and> length (nIP n) = 16 \<and> To4 (nIP n) = None" using n(2,4) by auto
  then show thesis using that [OF _ n(3) nn n(5)] m(4) n(3) by simp
qed

text \<open>When an index in the table of the right family finds a network.\<close>

definition family_hit :: "nat \<Rightarrow> ip \<Rightarrow> ipnet \<Rightarrow> bool" where
  "family_hit bits v n = (snd (mask_Size (nMask n)) = bits \<and> nIP n = masked v (CIDRMask (fst (mask_Size (nMask n))) bits))"

lemma Contains_family:
  assumes "network_wf n" "squash n = n"
  shows "To4 a = Some v \<Longrightarrow> Contains n a \<longleftrightarrow> family_hit 32 v n"
    and "To4 a = None \<Longrightarrow> length a = 16 \<Longrightarrow> Contains n a \<longleftrightarrow> family_hit 128 a n"
proof -
  obtain ones bits where n: "mask_Size (nMask n) = (ones, bits)" "nMask n = CIDRMask ones bits" "networkNumberAndMask n = (nIP n, nMask n)"
      "masked (nIP n) (nMask n) = nIP n" "bits = 32 \<and> length (nIP n) = 4 \<or> bits = 128 \<and> length (nIP n) = 16 \<and> To4 (nIP n) = None"
    using squash_shape [OF assms] .
  show "Contains n a \<longleftrightarrow> family_hit 32 v n" if "To4 a = Some v"
    using n length_To4 [OF that] that by (auto simp: Contains_def family_hit_def)
  show "Contains n a \<longleftrightarrow> family_hit 128 a n" if "To4 a = None" "length a = 16"
    using n that by (auto simp: Contains_def family_hit_def)
qed

text \<open>The entries that the rules of one effect leave in the table of a family.\<close>

definition entry :: "access_rule \<Rightarrow> index_entry" where
  "entry r = (prefix_length r, nIP (the (ParseCIDR (arCIDR r))), r)"

definition live_rules :: "string \<Rightarrow> gotime \<Rightarrow> nat \<Rightarrow> access_rule list \<Rightarrow> access_rule list" where
  "live_rules effect now bits rules =
     filter (\<lambda>r. Active r now \<and> arEffect r = effect \<and>
               (case ParseCIDR (arCIDR r) of Some n \<Rightarrow> snd (mask_Size (nMask n)) = bits | None \<Rightarrow> False)) rules"

definition index_of :: "string \<Rightarrow> gotime \<Rightarrow> access_rule list \<Rightarrow> prefix_index" where
  "index_of effect now rules =
     (let v4 = bucket_all (map entry (live_rules effect now 32 rules)); v6 = bucket_all (map entry (live_rules effect now 128 rules))
      in \<lparr>pxV4 = fst v4, pxV6 = fst v6, pxV4Lens = snd v4, pxV6Lens = snd v6\<rparr>)"

lemma index_add_step:
  assumes "ParseCIDR (arCIDR r) = Some n" "squash n = n" "Active r now" "arEffect r = effect"
  shows "index_add r n (index_of effect now rules) = index_of effect now (rules @ [r])"
proof -
  obtain ones bits where n: "mask_Size (nMask n) = (ones, bits)" "nMask n = CIDRMask ones bits" "networkNumberAndMask n = (nIP n, nMask n)"
      "masked (nIP n) (nMask n) = nIP n" "bits = 32 \<and> length (nIP n) = 4 \<or> bits = 128 \<and> length (nIP n) = 16 \<and> To4 (nIP n) = None"
    using squash_shape [OF ParseCIDR_wf [OF assms(1)] assms(2)] .
  have e: "entry r = (ones, nIP n, r)" using assms(1) n(1) by (simp add: entry_def prefix_length_def)
  have snoc: "bucket_all (es @ [(m, k, r)]) = bucket_add m k r (bucket_all es)" for es m k by (simp add: bucket_all_def)
  have live: "live_rules effect now b (rules @ [r]) = live_rules effect now b rules @ (if b = bits then [r] else [])" for b
    using assms n(1) by (simp add: live_rules_def)
  from n(5) show ?thesis
    using n(1) by (auto simp: index_add_def index_of_def Let_def live e snoc To16_def split: prod.split)
qed

lemma index_of_skip:
  "\<not> Active r now \<or> arEffect r \<noteq> effect \<or> ParseCIDR (arCIDR r) = None \<Longrightarrow> index_of effect now (rules @ [r]) = index_of effect now rules"
  by (auto simp: index_of_def live_rules_def Let_def)

lemma NewMatcher_indexes:
  assumes "list_all stored_wf rules"
  shows "maAllow (NewMatcher rules lockdown now) = seal (index_of EffectAllow now rules) \<and>
         maDeny (NewMatcher rules lockdown now) = seal (index_of EffectDeny now rules) \<and>
         maLockdown (NewMatcher rules lockdown now) = lockdown"
proof -
  let ?m0 = "\<lparr>maAllow = newPrefixIndex, maDeny = newPrefixIndex, maLockdown = lockdown, maCount = 0\<rparr>"
  have "maAllow (fold (matcher_add now) rules ?m0) = index_of EffectAllow now rules \<and>
        maDeny (fold (matcher_add now) rules ?m0) = index_of EffectDeny now rules \<and> maLockdown (fold (matcher_add now) rules ?m0) = lockdown"
    using assms
  proof (induction rules rule: rev_induct)
    case Nil
    then show ?case by (simp add: index_of_def newPrefixIndex_def live_rules_def bucket_all_def Let_def)
  next
    case (snoc r rules)
    define m where "m = fold (matcher_add now) rules ?m0"
    have IH: "maAllow m = index_of EffectAllow now rules" "maDeny m = index_of EffectDeny now rules" "maLockdown m = lockdown"
      using snoc by (simp_all add: m_def)
    have "maAllow (matcher_add now r m) = index_of EffectAllow now (rules @ [r]) \<and>
        maDeny (matcher_add now r m) = index_of EffectDeny now (rules @ [r]) \<and> maLockdown (matcher_add now r m) = lockdown"
    proof (cases "Active r now \<and> ParseCIDR (arCIDR r) \<noteq> None")
      case False
      then show ?thesis using IH index_of_skip [of r now _ rules] by (auto simp: matcher_add_def)
    next
      case True
      then obtain n where n: "ParseCIDR (arCIDR r) = Some n" "squash n = n" using snoc.prems by (auto simp: stored_wf_def)
      show ?thesis
        using True IH n index_add_step [OF n, of now] index_of_skip [of r now _ rules] by (simp add: matcher_add_def)
    qed
    then show ?case by (simp add: m_def)
  qed
  then show ?thesis by (simp add: NewMatcher_def Let_def)
qed

lemma lookup_most_specific:
  assumes "list_all stored_wf rules" "length a = 4 \<or> length a = 16"
  shows "index_lookup (seal (index_of effect now rules)) a = most_specific (filter (applies effect now a) rules)"
proof -
  obtain bits :: nat and v where bv: "(To4 a = Some v \<and> bits = 32) \<or> (To4 a = None \<and> v = a \<and> bits = 128 \<and> length a = 16)"
    using assms(2) by (cases "To4 a") auto
  let ?live = "live_rules effect now bits rules"
  let ?hits = "filter (\<lambda>e. fst (snd e) = masked v (CIDRMask (fst e) bits)) (map entry ?live)"
  have "filter (\<lambda>r. fst (snd (entry r)) = masked v (CIDRMask (fst (entry r)) bits)) ?live = filter (applies effect now a) rules"
    unfolding live_rules_def filter_filter
  proof (rule filter_cong [OF refl])
    fix r assume "r \<in> set rules"
    then have "squash n = n" "network_wf n" if "ParseCIDR (arCIDR r) = Some n" for n
      using assms(1) that ParseCIDR_wf by (auto simp: list_all_iff stored_wf_def)
    then have "Contains n a \<longleftrightarrow> family_hit bits v n" if "ParseCIDR (arCIDR r) = Some n" for n
      using Contains_family(1) [of n a v] Contains_family(2) [of n a] that bv by auto
    then show "((Active r now \<and> arEffect r = effect \<and> (case ParseCIDR (arCIDR r) of None \<Rightarrow> False | Some n \<Rightarrow> snd (mask_Size (nMask n)) = bits)) \<and>
        fst (snd (entry r)) = masked v (CIDRMask (fst (entry r)) bits)) = applies effect now a r"
      by (auto simp: applies_def entry_def prefix_length_def family_hit_def split: option.split)
  qed
  then have hits: "?hits = map entry (filter (applies effect now a) rules)" by (simp add: filter_map o_def)
  have "index_lookup (seal (index_of effect now rules)) a =
      probe_lengths (fst (bucket_all (map entry ?live))) bits v (rev (sort (snd (bucket_all (map entry ?live)))))"
    using bv by (auto simp: index_lookup_def seal_def index_of_def Let_def To16_def)
  also have "\<dots> = most_specific (filter (applies effect now a) rules)"
  proof -
    let ?rs = "filter (applies effect now a) rules"
    have fst: "fst (entry r) = prefix_length r" "snd (snd (entry r)) = r" for r by (simp_all add: entry_def)
    have "filter (\<lambda>r. prefix_length r = Max (prefix_length ` set ?rs)) ?rs \<noteq> []" if "?rs \<noteq> []" using filter_Max_nonempty [OF that] .
    then show ?thesis
      unfolding probe_bucket_all hits most_specific_def by (simp add: filter_map o_def fst image_image last_map)
  qed
  finally show ?thesis .
qed

lemma Match_reference:
  assumes "list_all stored_wf rules" "length a = 4 \<or> length a = 16"
  shows "Match (NewMatcher rules lockdown now) a = reference_verdict rules lockdown now a"
proof -
  have "a \<noteq> []" using assms(2) by auto
  moreover have "maAllow (NewMatcher rules lockdown now) = seal (index_of EffectAllow now rules)"
    "maDeny (NewMatcher rules lockdown now) = seal (index_of EffectDeny now rules)" "maLockdown (NewMatcher rules lockdown now) = lockdown"
    using NewMatcher_indexes [OF assms(1)] by blast+
  ultimately show ?thesis
    unfolding Match_def reference_verdict_def by (simp only: lookup_most_specific [OF assms] if_False)
qed

text \<open>
  C14: whatever rules are stored, a request is judged as if every live rule were compared with its address: the most specific matching
  allow rule wins, then the most specific matching deny rule, and of two rules for the same network the later one; without any, only
  lockdown rejects. The bucketed index with its few probes gives the same verdict and the same rule.
\<close>

theorem Match_longest_prefix:
  assumes "list_all stored_wf rules" "length a = 4 \<or> length a = 16"
  shows "Match (NewMatcher rules lockdown now) a = reference_verdict rules lockdown now a"
  by (rule Match_reference [OF assms])

definition sample_rule :: "string \<Rightarrow> string \<Rightarrow> access_rule" where
  "sample_rule cidr effect =
     \<lparr>arID = cidr, arCIDR = cidr, arFamily = 4, arEffect = effect, arSource = SourceManual, arReason = '''', arNote = '''', arEnabled = True,
      arExpiresAt = None, arCreatedBy = '''', arCreatedAt = 0, arUpdatedAt = 0, arHitCount = 0, arLastHitAt = None\<rparr>"

definition sample_rules :: "access_rule list" where
  "sample_rules = [sample_rule ''1.2.0.0/16'' EffectDeny, sample_rule ''1.2.3.0/24'' EffectAllow]"

lemma sample_rules_wf: "list_all stored_wf sample_rules"
proof -
  have "map_option squash (ParseCIDR ''1.2.0.0/16'') = ParseCIDR ''1.2.0.0/16''" "map_option squash (ParseCIDR ''1.2.3.0/24'') = ParseCIDR ''1.2.3.0/24''"
    by code_simp+
  then show ?thesis by (auto simp: stored_wf_def sample_rules_def sample_rule_def)
qed

theorem Match_longest_prefix_witness:
  "Match (NewMatcher sample_rules False 0) [1, 2, 3, 4] = (DecisionAllow, Some (sample_rule ''1.2.3.0/24'' EffectAllow))"
  using Match_longest_prefix [OF sample_rules_wf, of "[1, 2, 3, 4]" False 0]
proof -
  assume "length [1, 2, 3, 4 :: byte] = 4 \<or> length [1, 2, 3, 4 :: byte] = 16 \<Longrightarrow>
    Match (NewMatcher sample_rules False 0) [1, 2, 3, 4] = reference_verdict sample_rules False 0 [1, 2, 3, 4]"
  moreover have "reference_verdict sample_rules False 0 [1, 2, 3, 4] = (DecisionAllow, Some (sample_rule ''1.2.3.0/24'' EffectAllow))"
    by code_simp
  ultimately show ?thesis by simp
qed

section \<open>Canonical networks\<close>

lemma full_mask: "masked a (mask_bytes (length a) (8 * length a)) = a"
proof -
  have "(255 :: byte) = - 1" by code_simp
  then have and255: "b AND 255 = b" for b :: byte by (metis and.right_neutral)
  show ?thesis by (induction a) (simp_all add: and255)
qed

lemma typed_network_wf: "typed_network s = Some n \<Longrightarrow> network_wf n"
proof (cases "contains s ''/''")
  case True
  then show "typed_network s = Some n \<Longrightarrow> network_wf n" by (simp add: typed_network_def ParseCIDR_wf)
next
  case False
  assume "typed_network s = Some n"
  with False obtain bits a where a: "ParseAddr s = Some (bits, a)" "n = host_route a" by (auto simp: typed_network_def ParseIP_def)
  have len: "length a = 16" using ParseAddr_shape [OF a(1)] by auto
  show "network_wf n"
  proof (cases "To4 a")
    case None
    then show ?thesis
      unfolding network_wf_def using len full_mask [of a] by (intro exI [of _ 128]) (simp add: a(2) host_route_def CIDRMask_def)
  next
    case (Some v)
    then show ?thesis
      unfolding network_wf_def using length_To4 [OF Some] full_mask [of v]
      by (intro exI [of _ 32]) (simp add: a(2) host_route_def CIDRMask_def)
  qed
qed

lemma squash_squash: "network_wf n \<Longrightarrow> squash (squash n) = squash n"
  unfolding squash_def using IPNet_String_roundtrip(3) [of n] by (simp add: squash_def)

lemma IPNet_String_squash: "network_wf n \<Longrightarrow> IPNet_String (squash n) = IPNet_String n"
  by (simp add: IPNet_String_def IPNet_String_roundtrip(3))

lemma IPNet_String_form:
  assumes "network_wf n"
  obtains t l where "IPNet_String n = t @ CHR ''/'' # nat_digits l" "t \<noteq> []" "list_all (\<lambda>c. is_hex c \<or> c \<in> set '':.'') t"
proof -
  let ?m = "squash n"
  obtain ones bits where m: "mask_Size (nMask ?m) = (ones, bits)" "nMask ?m = CIDRMask ones bits" "networkNumberAndMask ?m = (nIP ?m, nMask ?m)"
      "masked (nIP ?m) (nMask ?m) = nIP ?m" "bits = 32 \<and> length (nIP ?m) = 4 \<or> bits = 128 \<and> length (nIP ?m) = 16 \<and> To4 (nIP ?m) = None"
    using squash_shape [OF IPNet_String_roundtrip(2) [OF assms] squash_squash [OF assms]] .
  have ne: "nIP ?m \<noteq> []" "nMask ?m \<noteq> []" "simpleMaskLength (nMask ?m) \<noteq> None"
    using m(1,5) by (auto simp: mask_Size_def split: option.splits)
  then obtain l where l: "simpleMaskLength (nMask ?m) = Some l" by blast
  have str: "IPNet_String n = IP_String (nIP ?m) @ CHR ''/'' # nat_digits l"
    using ne(1,2) l m(3) by (simp add: IPNet_String_def IPNet_String_roundtrip(3) [OF assms])
  have addr: "(\<exists>v. IP_String (nIP ?m) = v4_text v \<and> length v = 4) \<or> (\<exists>gs. IP_String (nIP ?m) = v6_text gs \<and> list_all group16 gs \<and> length gs = 8)"
    using m(5) groups_facts [of "nIP ?m"] by (auto simp: IP_String_def)
  have "v4_text v \<noteq> []" if "length v = 4" for v
    using that parse_v4_text [OF that] by auto
  moreover have "v6_text gs \<noteq> []" if "length gs = 8" for gs using v6_text_colon [OF that] by auto
  ultimately have "IP_String (nIP ?m) \<noteq> []" using addr by auto
  moreover have "is_hex c \<or> c = CHR '':'' \<or> c = CHR ''.''" if "c \<in> set (IP_String (nIP ?m))" for c
  proof -
    have "is_digit c \<Longrightarrow> is_hex c" by (simp add: is_hex_def)
    then show ?thesis using addr that v4_text_chars v6_text_chars by metis
  qed
  then have "list_all (\<lambda>c. is_hex c \<or> c \<in> set '':.'') (IP_String (nIP ?m))" by (auto simp: list_all_iff)
  ultimately show thesis using that [OF str] by blast
qed

lemma plain_char: "is_hex c \<or> c \<in> set '':./'' \<Longrightarrow> \<not> is_space c \<and> c \<noteq> CHR ''['' \<and> c \<noteq> CHR '']'' \<and> c \<noteq> CHR ''%''"
  by (auto simp: is_hex_def is_digit_def is_space_def)

lemma IPNet_String_clean:
  assumes "network_wf n"
  shows "trim_space (IPNet_String n) = IPNet_String n" "strip_decorations (IPNet_String n) = IPNet_String n"
    "contains (IPNet_String n) ''/''" "IPNet_String n \<noteq> []"
proof -
  obtain t l where t: "IPNet_String n = t @ CHR ''/'' # nat_digits l" "t \<noteq> []" "list_all (\<lambda>c. is_hex c \<or> c \<in> set '':.'') t"
    using IPNet_String_form [OF assms] .
  have digits: "nat_digits l \<noteq> []" "list_all is_digit (nat_digits l)" using nat_digits_props by blast+
  have plain: "\<not> is_space c \<and> c \<noteq> CHR ''['' \<and> c \<noteq> CHR '']'' \<and> c \<noteq> CHR ''%''" if "c \<in> set (IPNet_String n)" for c
  proof (rule plain_char)
    show "is_hex c \<or> c \<in> set '':./''" using that t(3) digits(2) by (auto simp: t(1) list_all_iff is_hex_def)
  qed
  show ne: "IPNet_String n \<noteq> []" by (simp add: t(1))
  show "trim_space (IPNet_String n) = IPNet_String n" using plain hd_in_set [OF ne] last_in_set [OF ne] by (intro trim_space_id [OF ne]) auto
  have "takeWhile (\<lambda>c. c \<noteq> CHR ''%'') (IPNet_String n) = IPNet_String n" using plain by (auto simp: takeWhile_eq_all_conv)
  then show "strip_decorations (IPNet_String n) = IPNet_String n"
    using plain hd_in_set [OF ne] last_in_set [OF ne] by (auto simp: strip_decorations_def trim_prefix_def trim_suffix_def)
  show "contains (IPNet_String n) ''/''" unfolding contains_iff_sublist using t(1) by (metis append_Cons append_Nil)
qed

lemma NormalizeCIDR_facts:
  assumes "NormalizeCIDR raw = Inr (s, family)"
  shows "\<exists>n m. typed_network (strip_decorations (trim_space raw)) = Some n \<and> ParseCIDR s = Some m \<and> IPNet_String m = s \<and> squash m = m \<and>
    (\<forall>a. Contains m a \<longleftrightarrow> Contains n a) \<and> \<not> IsLoopback (nIP m) \<and> \<not> IsUnspecified (nIP m) \<and>
    (squash n = n \<longrightarrow> NormalizeCIDR s = Inr (s, family) \<and>
       fst (mask_Size (nMask m)) \<ge> (if family = 4 then MinPrefixLenV4 else MinPrefixLenV6) \<and> (family = 4 \<longleftrightarrow> length (nIP m) = 4))"
proof -
  obtain n where n: "typed_network (strip_decorations (trim_space raw)) = Some n" "s = IPNet_String n" "\<not> IsLoopback (nIP n)" "\<not> IsUnspecified (nIP n)"
      "family = (if snd (mask_Size (nMask n)) = 32 then 4 else 6)" "snd (mask_Size (nMask n)) \<noteq> 0"
      "fst (mask_Size (nMask n)) \<ge> (if snd (mask_Size (nMask n)) = 32 then MinPrefixLenV4 else MinPrefixLenV6)"
    using assms by (auto simp: NormalizeCIDR_def Let_def split: if_splits option.splits prod.splits)
  note wf = typed_network_wf [OF n(1)]
  let ?m = "squash n"
  have parse: "ParseCIDR s = Some ?m" using IPNet_String_roundtrip(1) [OF wf] n(2) by simp
  have base: "IsLoopback (nIP ?m) = IsLoopback (nIP n)" "IsUnspecified (nIP ?m) = IsUnspecified (nIP n)"
  proof -
    have "To4 (nIP ?m) = To4 (nIP n) \<and> (To4 (nIP n) = None \<longrightarrow> nIP ?m = nIP n)"
    proof (cases "To4 (nIP n)")
      case None
      then have "length (nIP n) = 16" "length (nMask n) = 16"
        using wf CIDRMask_facts(1) by (auto simp: network_wf_def To4_def)
      then show ?thesis using None by (simp add: squash_def networkNumberAndMask_def)
    next
      case (Some v)
      have "length (nMask n) = 4 \<or> length (nMask n) = 16" using wf CIDRMask_facts(1) by (auto simp: network_wf_def)
      then show ?thesis using Some length_To4 [OF Some] by (auto simp: squash_def networkNumberAndMask_def)
    qed
    then show "IsLoopback (nIP ?m) = IsLoopback (nIP n)" "IsUnspecified (nIP ?m) = IsUnspecified (nIP n)"
      by (auto simp: IsLoopback_def IsUnspecified_def split: option.split)
  qed
  have again: "NormalizeCIDR s = Inr (s, family) \<and> fst (mask_Size (nMask ?m)) \<ge> (if family = 4 then MinPrefixLenV4 else MinPrefixLenV6) \<and>
      (family = 4 \<longleftrightarrow> length (nIP ?m) = 4)" if sq: "?m = n"
  proof -
    have typed: "typed_network (strip_decorations (trim_space s)) = Some n" "s \<noteq> []"
      using IPNet_String_clean [OF wf] parse by (simp_all add: n(2) typed_network_def sq)
    have s: "trim_space s = s" using IPNet_String_clean(1) [OF wf] by (simp add: n(2))
    obtain ones bits where z: "mask_Size (nMask n) = (ones, bits)" "bits = 32 \<and> length (nIP n) = 4 \<or> bits = 128 \<and> length (nIP n) = 16 \<and> To4 (nIP n) = None"
      using squash_shape [OF wf sq] .
    show ?thesis using typed n z s by (auto simp: NormalizeCIDR_def Let_def sq)
  qed
  show ?thesis
  proof (intro exI conjI impI allI)
    show "typed_network (strip_decorations (trim_space raw)) = Some n" by (rule n(1))
    show "ParseCIDR s = Some ?m" by (rule parse)
    show "IPNet_String ?m = s" by (simp add: IPNet_String_squash [OF wf] n(2))
    show "squash ?m = ?m" by (rule squash_squash [OF wf])
    show "Contains ?m a = Contains n a" for a by (rule Contains_squash [OF wf])
    show "\<not> IsLoopback (nIP ?m)" "\<not> IsUnspecified (nIP ?m)" by (simp_all add: base n(3,4))
  qed (use again in blast)+
qed

text \<open>Typing the stored text again: the limit is now that of the family of the stored network.\<close>

lemma NormalizeCIDR_again:
  assumes "NormalizeCIDR raw = Inr (s, family)"
  obtains n where "typed_network (strip_decorations (trim_space raw)) = Some n" "network_wf n" "s = IPNet_String n" "ParseCIDR s = Some (squash n)"
    "(if family = 4 then MinPrefixLenV4 else MinPrefixLenV6) \<le> fst (mask_Size (nMask n))"
    "NormalizeCIDR s =
      (let fam = (if length (nIP (squash n)) = 4 then 4 else 6);
           least = (if length (nIP (squash n)) = 4 then MinPrefixLenV4 else MinPrefixLenV6);
           ones = fst (mask_Size (nMask (squash n)))
       in if ones < least then Inl (ErrTooBroad ones least fam) else Inr (s, fam))"
proof -
  obtain n where n: "typed_network (strip_decorations (trim_space raw)) = Some n" "s = IPNet_String n"
      "(if family = 4 then MinPrefixLenV4 else MinPrefixLenV6) \<le> fst (mask_Size (nMask n))"
    using assms by (auto simp: NormalizeCIDR_def Let_def split: if_splits option.splits prod.splits)
  note wf = typed_network_wf [OF n(1)]
  let ?m = "squash n"
  have parse: "ParseCIDR s = Some ?m" using IPNet_String_roundtrip(1) [OF wf] n(2) by simp
  have ok: "\<not> IsLoopback (nIP ?m)" "\<not> IsUnspecified (nIP ?m)" using NormalizeCIDR_facts [OF assms] parse by auto
  have printed: "IPNet_String ?m = s" by (simp add: IPNet_String_squash [OF wf] n(2))
  have typed: "typed_network (strip_decorations (trim_space s)) = Some ?m" "s \<noteq> []" "trim_space s = s"
    using IPNet_String_clean [OF wf] parse by (simp_all add: n(2) typed_network_def)
  obtain ones bits where z: "mask_Size (nMask ?m) = (ones, bits)" "bits = 32 \<and> length (nIP ?m) = 4 \<or> bits = 128 \<and> length (nIP ?m) = 16"
    using squash_shape [OF ParseCIDR_wf [OF parse] squash_squash [OF wf]] by metis
  have "NormalizeCIDR s = (let fam = (if length (nIP ?m) = 4 then 4 else 6); least = (if length (nIP ?m) = 4 then MinPrefixLenV4 else MinPrefixLenV6);
       ones = fst (mask_Size (nMask ?m)) in if ones < least then Inl (ErrTooBroad ones least fam) else Inr (s, fam))"
    using typed ok z printed by (auto simp: NormalizeCIDR_def Let_def)
  then show ?thesis by (rule that [OF n(1) wf n(2) parse n(3)])
qed

text \<open>
  C24: what an operator types is stored as the one text for its network, that is for its first address and its prefix length, with an IPv4 network in
  IPv6 notation counting as the IPv4 network: two inputs are stored as the same text exactly if they name the same network, so that two ways
  to write a network cannot become two rows. The text reads back as a network with exactly the addresses that were typed, neither the loopback nor
  the unspecified address can be listed, and the prefix is never shorter than the limit of the family of the notation that was typed. Typing the
  stored text again gives the same text, unless an IPv4 network was typed in IPv6 notation and is broader than IPv4 networks may be: then it is refused.
\<close>

theorem NormalizeCIDR_canonical:
  assumes "NormalizeCIDR raw = Inr (s, family)"
  shows "\<exists>n m. typed_network (strip_decorations (trim_space raw)) = Some n \<and> ParseCIDR s = Some m \<and> IPNet_String m = s \<and> m = squash n \<and>
    (\<forall>a. Contains m a \<longleftrightarrow> Contains n a) \<and> \<not> IsLoopback (nIP m) \<and> \<not> IsUnspecified (nIP m) \<and>
    (if family = 4 then MinPrefixLenV4 else MinPrefixLenV6) \<le> fst (mask_Size (nMask n)) \<and>
    (squash n = n \<longrightarrow> NormalizeCIDR s = Inr (s, family)) \<and>
    NormalizeCIDR s =
      (let fam = (if length (nIP m) = 4 then 4 else 6); least = (if length (nIP m) = 4 then MinPrefixLenV4 else MinPrefixLenV6);
           ones = fst (mask_Size (nMask m))
       in if ones < least then Inl (ErrTooBroad ones least fam) else Inr (s, fam)) \<and>
    (\<forall>raw' s' family' n'. NormalizeCIDR raw' = Inr (s', family') \<and> typed_network (strip_decorations (trim_space raw')) = Some n' \<longrightarrow>
       (s' = s \<longleftrightarrow> squash n' = squash n))"
proof -
  obtain n where n: "typed_network (strip_decorations (trim_space raw)) = Some n" "network_wf n" "s = IPNet_String n" "ParseCIDR s = Some (squash n)"
    "(if family = 4 then MinPrefixLenV4 else MinPrefixLenV6) \<le> fst (mask_Size (nMask n))"
    "NormalizeCIDR s =
      (let fam = (if length (nIP (squash n)) = 4 then 4 else 6);
           least = (if length (nIP (squash n)) = 4 then MinPrefixLenV4 else MinPrefixLenV6);
           ones = fst (mask_Size (nMask (squash n)))
       in if ones < least then Inl (ErrTooBroad ones least fam) else Inr (s, fam))"
    by (rule NormalizeCIDR_again [OF assms])
  have unique: "s' = s \<longleftrightarrow> squash n' = squash n"
    if r: "NormalizeCIDR raw' = Inr (s', family')" "typed_network (strip_decorations (trim_space raw')) = Some n'" for raw' s' family' n'
  proof -
    from NormalizeCIDR_again [OF r(1)] r(2) have n': "network_wf n'" "s' = IPNet_String n'" "ParseCIDR s' = Some (squash n')" by auto
    then show ?thesis using n(2-4) IPNet_String_squash by (metis option.inject)
  qed
  from NormalizeCIDR_facts [OF assms] n(1,4) have "IPNet_String (squash n) = s" "\<forall>a. Contains (squash n) a \<longleftrightarrow> Contains n a"
    "\<not> IsLoopback (nIP (squash n))" "\<not> IsUnspecified (nIP (squash n))" "squash n = n \<longrightarrow> NormalizeCIDR s = Inr (s, family)" by auto
  with n(1,4-6) unique show ?thesis by (intro exI [of _ n] exI [of _ "squash n"]) blast
qed

theorem NormalizeCIDR_canonical_witness:
  "\<exists>n m. typed_network ''1.2.3.5/24'' = Some n \<and> ParseCIDR ''1.2.3.0/24'' = Some m \<and> (\<forall>a. Contains m a \<longleftrightarrow> Contains n a)"
proof -
  have "NormalizeCIDR ''1.2.3.5/24'' = Inr (''1.2.3.0/24'', 4)" "strip_decorations (trim_space ''1.2.3.5/24'') = ''1.2.3.5/24''" by code_simp+
  with NormalizeCIDR_canonical [of "''1.2.3.5/24''" "''1.2.3.0/24''" 4] show ?thesis by auto
qed

text \<open>
  The limit on the width is checked against the notation, not the network: half of the IPv4 addresses pass as an IPv6 network of
  prefix length 97 and are stored as the IPv4 network that is refused when typed directly.
\<close>

lemma mapped_network_too_broad:
  "NormalizeCIDR ''::ffff:128.0.0.0/97'' = Inr (''128.0.0.0/1'', 6) \<and> NormalizeCIDR ''128.0.0.0/1'' = Inl (ErrTooBroad 1 8 4)"
  by code_simp

end
