(* ===== verification/IP_Protection.thy ===== *)
theory IP_Protection
  imports IP_Rules "HOL-Library.Char_ord" "HOL-Library.List_Lexorder"
begin

text \<open>
  Admission of requests by address: the protection policy (\<^verbatim>\<open>src/internal/ipaccess/policy.go\<close> and the settings of \<^verbatim>\<open>alert.go\<close>), who the
  client of a relayed request is (\<^verbatim>\<open>forwarded.go\<close>, \<^verbatim>\<open>trust.go\<close>), the addresses no rule may reject (\<^verbatim>\<open>protected.go\<close>), and the registry
  that brings them together (\<^verbatim>\<open>registry.go\<close>).

  The rule store is a database: whether it is available and what it returns are arguments of the operations. Nil pointers to the
  proxy list and the protected set behave like empty ones and are modelled as such.
\<close>

section \<open>Policy\<close>

abbreviation AutoBanOff :: string where "AutoBanOff \<equiv> ''off''"
abbreviation AutoBanObserve :: string where "AutoBanObserve \<equiv> ''observe''"
abbreviation AutoBanEnforce :: string where "AutoBanEnforce \<equiv> ''enforce''"

record auto_ban_policy =
  bpMode :: string
  bpWindowSeconds :: int
  bpFailureThreshold :: int
  bpBanMinutes :: int
  bpMaxBanMinutes :: int

record throttle_override =
  toLoginFailureWindowSeconds :: int
  toAccountFailureLimit :: int
  toManagementKeyFailureLimit :: int
  toUnauthenticatedRequestLimit :: int
  toFailureResetHours :: int

record alert_policy =
  alWebhookURL :: string
  alNotifyObserve :: bool
  alCooldownMinutes :: int

record protection_policy =
  ppLockdown :: bool
  ppAutoBan :: auto_ban_policy
  ppThrottle :: throttle_override
  ppTrustedProxies :: "string list"
  ppAlert :: alert_policy
  ppAttemptRetentionDays :: int

definition DefaultAttemptRetentionDays :: int where "DefaultAttemptRetentionDays = 30"
definition maxAttemptRetentionDays :: int where "maxAttemptRetentionDays = 365"
definition defaultAlertCooldownMinutes :: int where "defaultAlertCooldownMinutes = 30"

definition DefaultPolicy :: protection_policy where
  "DefaultPolicy =
     \<lparr>ppLockdown = False,
      ppAutoBan = \<lparr>bpMode = AutoBanObserve, bpWindowSeconds = 600, bpFailureThreshold = 20, bpBanMinutes = 60, bpMaxBanMinutes = 24 * 60\<rparr>,
      ppThrottle = \<lparr>toLoginFailureWindowSeconds = 0, toAccountFailureLimit = 0, toManagementKeyFailureLimit = 0,
                    toUnauthenticatedRequestLimit = 0, toFailureResetHours = 0\<rparr>,
      ppTrustedProxies = [],
      ppAlert = \<lparr>alWebhookURL = '''', alNotifyObserve = False, alCooldownMinutes = defaultAlertCooldownMinutes\<rparr>,
      ppAttemptRetentionDays = DefaultAttemptRetentionDays\<rparr>"

definition alert_normalized :: "alert_policy \<Rightarrow> alert_policy" where
  "alert_normalized p =
     p\<lparr>alWebhookURL := trim_space (alWebhookURL p),
       alCooldownMinutes := (if alCooldownMinutes p \<le> 0 then defaultAlertCooldownMinutes else alCooldownMinutes p)\<rparr>"

definition alert_Enabled :: "alert_policy \<Rightarrow> bool" where
  "alert_Enabled p = (trim_space (alWebhookURL p) \<noteq> '''')"

definition NormalizeTrustedProxy :: "string \<Rightarrow> string option" where
  "NormalizeTrustedProxy raw =
     (let trimmed = trim_space raw
      in if trimmed = '''' then None else map_option IPNet_String (typed_network trimmed))"

definition normalize_auto_ban :: "auto_ban_policy \<Rightarrow> auto_ban_policy" where
  "normalize_auto_ban b =
     (let d = ppAutoBan DefaultPolicy;
          ban = (if bpBanMinutes b \<le> 0 then bpBanMinutes d else bpBanMinutes b);
          longest = (if bpMaxBanMinutes b \<le> 0 then bpMaxBanMinutes d else bpMaxBanMinutes b)
      in \<lparr>bpMode = (if bpMode b \<in> set [AutoBanOff, AutoBanObserve, AutoBanEnforce] then bpMode b else bpMode d),
          bpWindowSeconds = (if bpWindowSeconds b \<le> 0 then bpWindowSeconds d else bpWindowSeconds b),
          bpFailureThreshold = (if bpFailureThreshold b \<le> 0 then bpFailureThreshold d else bpFailureThreshold b),
          bpBanMinutes = ban, bpMaxBanMinutes = (if longest < ban then ban else longest)\<rparr>)"

abbreviation at_least_0 :: "int \<Rightarrow> int" where "at_least_0 x \<equiv> (if x < 0 then 0 else x)"

definition normalize_throttle :: "throttle_override \<Rightarrow> throttle_override" where
  "normalize_throttle t =
     \<lparr>toLoginFailureWindowSeconds = at_least_0 (toLoginFailureWindowSeconds t), toAccountFailureLimit = at_least_0 (toAccountFailureLimit t),
      toManagementKeyFailureLimit = at_least_0 (toManagementKeyFailureLimit t),
      toUnauthenticatedRequestLimit = at_least_0 (toUnauthenticatedRequestLimit t), toFailureResetHours = at_least_0 (toFailureResetHours t)\<rparr>"

fun clean_proxies :: "string list \<Rightarrow> string list \<Rightarrow> string list" where
  "clean_proxies seen [] = []"
| "clean_proxies seen (p # ps) =
     (case NormalizeTrustedProxy p of
        None \<Rightarrow> clean_proxies seen ps
      | Some t \<Rightarrow> if t \<in> set seen then clean_proxies seen ps else t # clean_proxies (t # seen) ps)"

definition Normalized :: "protection_policy \<Rightarrow> protection_policy" where
  "Normalized p =
     (let days = (if ppAttemptRetentionDays p \<le> 0 then DefaultAttemptRetentionDays else ppAttemptRetentionDays p)
      in p\<lparr>ppAutoBan := normalize_auto_ban (ppAutoBan p), ppThrottle := normalize_throttle (ppThrottle p),
           ppTrustedProxies := clean_proxies [] (ppTrustedProxies p), ppAlert := alert_normalized (ppAlert p),
           ppAttemptRetentionDays := (if maxAttemptRetentionDays < days then maxAttemptRetentionDays else days)\<rparr>)"

definition Window :: "auto_ban_policy \<Rightarrow> duration" where
  "Window p = wrap64 (bpWindowSeconds p * second)"

fun double_minutes :: "nat \<Rightarrow> int \<Rightarrow> int \<Rightarrow> int" where
  "double_minutes 0 minutes limit = minutes"
| "double_minutes (Suc k) minutes limit =
     (if minutes < limit then double_minutes k (wrap64 (minutes * 2)) limit else minutes)"

definition BanDuration :: "auto_ban_policy \<Rightarrow> int \<Rightarrow> duration" where
  "BanDuration p repeats =
     (let minutes = double_minutes (nat repeats) (bpBanMinutes p) (bpMaxBanMinutes p)
      in wrap64 ((if bpMaxBanMinutes p < minutes then bpMaxBanMinutes p else minutes) * minute))"

section \<open>Who the client is\<close>

record request =
  rqRemoteAddr :: string
  rqHeader :: "(string, string list) gomap"

record client_address =
  caPeer :: string
  caDirectPeer :: bool
  caChain :: "string list"
  caIP :: ip
  caRaw :: string
  caTrusted :: bool
  caRelayHeader :: string

definition forwardedHeaders :: "string list" where
  "forwardedHeaders = [''X-Forwarded-For'', ''X-Real-IP'', ''Forwarded'']"

text \<open>\<^verbatim>\<open>Header.Values\<close>: names are compared in canonical form, that is up to case.\<close>

definition header_values :: "request \<Rightarrow> string \<Rightarrow> string list" where
  "header_values req name = concat (map snd (filter (\<lambda>kv. equal_fold (fst kv) name) (rqHeader req)))"

definition newTrustedProxyMatcher :: "string list \<Rightarrow> ipnet list" where
  "newTrustedProxyMatcher cidrs =
     List.map_filter (\<lambda>raw. let trimmed = trim_space raw in if trimmed = '''' then None else typed_network trimmed) cidrs"

definition proxy_configured :: "ipnet list \<Rightarrow> bool" where
  "proxy_configured m = (m \<noteq> [])"

definition trusts :: "ipnet list \<Rightarrow> ip \<Rightarrow> bool" where
  "trusts m a = (a \<noteq> [] \<and> list_ex (\<lambda>n. Contains n a) m)"

definition hostOnly :: "string \<Rightarrow> string" where
  "hostOnly raw =
     (let candidate = trim_space raw
      in if candidate = '''' then ''''
         else trim_space (strip_decorations (case SplitHostPort candidate of Some h \<Rightarrow> h | None \<Rightarrow> candidate)))"

definition extractForwardedFor :: "string \<Rightarrow> string" where
  "extractForwardedFor directive =
     (case List.find (\<lambda>t. prefix ''for='' (to_lower t)) (map trim_space (split_on (CHR '';'') directive)) of
        None \<Rightarrow> ''''
      | Some t \<Rightarrow> trim_suffix (CHR 0x22) (trim_prefix (CHR 0x22) (drop 4 t)))"

definition forwarded_hop :: "string \<Rightarrow> string \<Rightarrow> string option" where
  "forwarded_hop header part =
     (let candidate = trim_space part
      in if candidate = '''' then None
         else if header = ''Forwarded''
         then (let c = extractForwardedFor candidate in if c = '''' then None else Some (hostOnly c))
         else Some (hostOnly candidate))"

definition parseForwardedHeader :: "request \<Rightarrow> string \<Rightarrow> string list" where
  "parseForwardedHeader req header =
     List.map_filter (forwarded_hop header) (concat (map (split_on (CHR '','')) (header_values req header)))"

definition collectForwardedChain :: "request \<Rightarrow> string list" where
  "collectForwardedChain req = concat (map (parseForwardedHeader req) forwardedHeaders)"

definition firstForwardedHeader :: "request \<Rightarrow> string" where
  "firstForwardedHeader req =
     (case List.find (\<lambda>h. list_ex (\<lambda>v. trim_space v \<noteq> '''') (header_values req h)) forwardedHeaders of Some h \<Rightarrow> h | None \<Rightarrow> '''')"

text \<open>The hops in the order of the two loops: the last header of the list first, and each header from the right.\<close>

definition walked_hops :: "request \<Rightarrow> ip list" where
  "walked_hops req = List.map_filter ParseIP (concat (map (\<lambda>h. rev (parseForwardedHeader req h)) (rev forwardedHeaders)))"

definition resolveForwarded :: "request \<Rightarrow> ipnet list \<Rightarrow> client_address" where
  "resolveForwarded req m =
     (let relay = firstForwardedHeader req;
          chain = collectForwardedChain req;
          peerText = hostOnly (rqRemoteAddr req);
          peer = (case ParseIP peerText of Some a \<Rightarrow> a | None \<Rightarrow> []);
          addr = \<lparr>caPeer = peerText, caDirectPeer = (relay = ''''), caChain = chain, caIP = peer, caRaw = peerText, caTrusted = False,
                  caRelayHeader = relay\<rparr>
      in if peer = [] then addr
         else if \<not> trusts m peer then addr\<lparr>caTrusted := (relay = '''' \<or> proxy_configured m)\<rparr>
         else case List.find (\<lambda>a. \<not> trusts m a) (walked_hops req) of
                None \<Rightarrow> addr
              | Some a \<Rightarrow>
                  \<lparr>caPeer = peerText, caDirectPeer = False, caChain = chain, caIP = a, caRaw = IP_String a, caTrusted = (\<not> IsLoopback a),
                   caRelayHeader = relay\<rparr>)"

definition Loopback :: "client_address \<Rightarrow> bool" where
  "Loopback a = (caIP a \<noteq> [] \<and> IsLoopback (caIP a))"

definition LocalOperator :: "client_address \<Rightarrow> bool" where
  "LocalOperator a = (caDirectPeer a \<and> Loopback a)"

definition ProxyTrustConfigured :: "string list \<Rightarrow> bool" where
  "ProxyTrustConfigured proxies = list_ex (\<lambda>p. trim_space p \<noteq> '''') proxies"

section \<open>Protected addresses\<close>

record protected_entry =
  peCIDR :: string
  peReason :: string
  peNet :: ipnet

definition protected_match :: "protected_entry list \<Rightarrow> ip \<Rightarrow> protected_entry option" where
  "protected_match es a = (if a = [] then None else List.find (\<lambda>e. Contains (peNet e) a) es)"

definition protect :: "string \<Rightarrow> string \<Rightarrow> protected_entry list \<Rightarrow> protected_entry list" where
  "protect reason raw es =
     (case NormalizeCIDR raw of
        Inl _ \<Rightarrow> es
      | Inr (normalized, _) \<Rightarrow>
          if normalized \<in> peCIDR ` set es then es
          else (case ParseCIDR normalized of
                  None \<Rightarrow> es
                | Some n \<Rightarrow> es @ [\<lparr>peCIDR = normalized, peReason = reason, peNet = n\<rparr>]))"

definition buildProtectedSet :: "string list \<Rightarrow> string list \<Rightarrow> string list \<Rightarrow> protected_entry list" where
  "buildProtectedSet localAddresses trustedProxies outboundProxies =
     (let es = fold (protect ''outbound_proxy'') outboundProxies
                 (fold (protect ''trusted_proxy'') trustedProxies (fold (protect ''local_address'') localAddresses []))
      in sort_key peCIDR es)"

section \<open>The registry\<close>

record access_registry =
  irMatcher :: matcher
  irPolicy :: protection_policy
  irProtected :: "protected_entry list"
  irConfigProxies :: "string list"
  irProxyMatcher :: "ipnet list"
  irHits :: "(string, int) gomap"

definition NewRegistry :: "gotime \<Rightarrow> access_registry" where
  "NewRegistry now =
     \<lparr>irMatcher = NewMatcher [] False now, irPolicy = DefaultPolicy, irProtected = [], irConfigProxies = [], irProxyMatcher = [], irHits = []\<rparr>"

definition TrustedProxies :: "access_registry \<Rightarrow> string list \<times> string" where
  "TrustedProxies r =
     (if ppTrustedProxies (irPolicy r) \<noteq> [] then (ppTrustedProxies (irPolicy r), ''database'')
      else if irConfigProxies r \<noteq> [] then (irConfigProxies r, ''config'')
      else ([], ''none''))"

definition rebuildProxyMatcher :: "access_registry \<Rightarrow> access_registry" where
  "rebuildProxyMatcher r = r\<lparr>irProxyMatcher := newTrustedProxyMatcher (fst (TrustedProxies r))\<rparr>"

definition SetConfiguredProxies :: "string list \<Rightarrow> access_registry \<Rightarrow> access_registry" where
  "SetConfiguredProxies proxies r = rebuildProxyMatcher (r\<lparr>irConfigProxies := proxies\<rparr>)"

text \<open>\<open>load\<close> is what \<^verbatim>\<open>LoadActive\<close> returns: \<open>None\<close> for an error.\<close>

definition Refresh :: "bool \<Rightarrow> access_rule list option \<Rightarrow> gotime \<Rightarrow> access_registry \<Rightarrow> access_registry" where
  "Refresh available load now r =
     (if \<not> available then r
      else case load of None \<Rightarrow> r | Some rules \<Rightarrow> r\<lparr>irMatcher := NewMatcher rules (ppLockdown (irPolicy r)) now\<rparr>)"

definition SetPolicy :: "bool \<Rightarrow> access_rule list option \<Rightarrow> gotime \<Rightarrow> protection_policy \<Rightarrow> access_registry \<Rightarrow> access_registry" where
  "SetPolicy available load now p r = Refresh available load now (rebuildProxyMatcher (r\<lparr>irPolicy := Normalized p\<rparr>))"

text \<open>\<open>save\<close>: the persister, if there is one, and whether it stores the policy.\<close>

definition UpdatePolicy ::
  "(protection_policy \<Rightarrow> bool) option \<Rightarrow> bool \<Rightarrow> access_rule list option \<Rightarrow> gotime \<Rightarrow> protection_policy \<Rightarrow> access_registry \<Rightarrow> access_registry \<times> bool" where
  "UpdatePolicy save available load now p r =
     (case save of
        Some f \<Rightarrow> if f (Normalized p) then (SetPolicy available load now (Normalized p) r, True) else (r, False)
      | None \<Rightarrow> (SetPolicy available load now (Normalized p) r, True))"

definition SetProtectedAddresses :: "string list \<Rightarrow> string list \<Rightarrow> string list \<Rightarrow> access_registry \<Rightarrow> access_registry" where
  "SetProtectedAddresses localAddresses trustedProxies outboundProxies r =
     r\<lparr>irProtected := buildProtectedSet localAddresses trustedProxies outboundProxies\<rparr>"

text \<open>A stored policy, as \<^verbatim>\<open>Load\<close> of the persister answers.\<close>

definition ReloadPolicy :: "protection_policy option \<Rightarrow> bool \<Rightarrow> access_rule list option \<Rightarrow> gotime \<Rightarrow> access_registry \<Rightarrow> access_registry" where
  "ReloadPolicy stored available load now r = (case stored of Some p \<Rightarrow> SetPolicy available load now p r | None \<Rightarrow> r)"

definition ProxyTrusted :: "access_registry \<Rightarrow> bool" where
  "ProxyTrusted r = proxy_configured (irProxyMatcher r)"

text \<open>The client of a request; the branch for a missing request is not modelled.\<close>

definition ResolveAddress :: "request \<Rightarrow> access_registry \<Rightarrow> client_address" where
  "ResolveAddress req r = resolveForwarded req (irProxyMatcher r)"

text \<open>The hits collected are handed to the store and forgotten.\<close>

definition flushHits :: "access_registry \<Rightarrow> access_registry \<times> (string, int) gomap option" where
  "flushHits r = (if irHits r = [] then (r, None) else (r\<lparr>irHits := []\<rparr>, Some (irHits r)))"

definition noteHit :: "string \<Rightarrow> access_registry \<Rightarrow> access_registry" where
  "noteHit ident r = (if ident = '''' then r else r\<lparr>irHits := map_put ident (map_get 0 (irHits r) ident + 1) (irHits r)\<rparr>)"

record access_verdict =
  vdDecision :: decision
  vdRule :: "access_rule option"
  vdEnforced :: bool
  vdReason :: string

definition Allowed :: "access_verdict \<Rightarrow> bool" where
  "Allowed v = (\<not> vdEnforced v \<or> vdDecision v \<noteq> DecisionDeny)"

definition Exempt :: "access_verdict \<Rightarrow> bool" where
  "Exempt v = (vdEnforced v \<and> vdDecision v = DecisionAllow)"

definition reasonUntrustedClientIP :: string where
  "reasonUntrustedClientIP = ''client address is not trustworthy (relayed request with no trusted-proxies)''"

definition reasonNoStorage :: string where
  "reasonNoStorage = ''rule storage unavailable''"

definition Evaluate :: "bool \<Rightarrow> client_address \<Rightarrow> access_registry \<Rightarrow> access_registry \<times> access_verdict" where
  "Evaluate available addr r =
     (if LocalOperator addr then (r, \<lparr>vdDecision = DecisionAllow, vdRule = None, vdEnforced = True, vdReason = ''local_operator''\<rparr>)
      else if \<not> caTrusted addr
      then (r, \<lparr>vdDecision = DecisionNeutral, vdRule = None, vdEnforced = False, vdReason = reasonUntrustedClientIP\<rparr>)
      else case protected_match (irProtected r) (caIP addr) of
             Some e \<Rightarrow> (r, \<lparr>vdDecision = DecisionAllow, vdRule = None, vdEnforced = True, vdReason = peReason e\<rparr>)
           | None \<Rightarrow>
               if \<not> available then (r, \<lparr>vdDecision = DecisionNeutral, vdRule = None, vdEnforced = False, vdReason = reasonNoStorage\<rparr>)
               else (case Match (irMatcher r) (caIP addr) of
                       (d, hit) \<Rightarrow>
                         (case hit of Some x \<Rightarrow> noteHit (arID x) r | None \<Rightarrow> r,
                          \<lparr>vdDecision = d, vdRule = hit, vdEnforced = True, vdReason = ''''\<rparr>)))"

section \<open>The policy in force\<close>

lemma NormalizeTrustedProxy_fixpoint:
  assumes "NormalizeTrustedProxy raw = Some t"
  shows "NormalizeTrustedProxy t = Some t"
proof -
  obtain n where n: "typed_network (trim_space raw) = Some n" "t = IPNet_String n"
    using assms by (auto simp: NormalizeTrustedProxy_def Let_def split: if_splits)
  note wf = typed_network_wf [OF n(1)]
  note clean = IPNet_String_clean [OF wf]
  have "typed_network t = Some (squash n)" using clean(3) IPNet_String_roundtrip(1) [OF wf] by (simp add: typed_network_def n(2))
  then show ?thesis using clean IPNet_String_squash [OF wf] by (simp add: NormalizeTrustedProxy_def n(2))
qed

lemma clean_proxies_facts:
  "distinct (clean_proxies seen ps) \<and> set (clean_proxies seen ps) \<inter> set seen = {} \<and>
   (\<forall>t \<in> set (clean_proxies seen ps). NormalizeTrustedProxy t = Some t)"
proof (induction seen ps rule: clean_proxies.induct)
  case (2 seen p ps)
  show ?case
  proof (cases "NormalizeTrustedProxy p")
    case (Some t)
    show ?thesis using 2(2) [OF Some] 2(3) [OF Some] Some NormalizeTrustedProxy_fixpoint [OF Some] by auto
  qed (use 2(1) in simp)
qed simp

lemma clean_proxies_id:
  "distinct ps \<Longrightarrow> set ps \<inter> set seen = {} \<Longrightarrow> (\<And>t. t \<in> set ps \<Longrightarrow> NormalizeTrustedProxy t = Some t) \<Longrightarrow> clean_proxies seen ps = ps"
  by (induction ps arbitrary: seen) auto

text \<open>
  Whatever an operator saves, the policy in force is workable: a known mode, a positive window and threshold, a first ban that is
  positive and not above the longest, non-negative limits, one to 365 days of retention, and a list of distinct proxies in canonical
  notation. Normalising is idempotent, so the stored policy and the one in force agree.
\<close>

theorem Normalized_workable:
  "Normalized (Normalized p) = Normalized p \<and>
   (let b = ppAutoBan (Normalized p) in bpMode b \<in> {AutoBanOff, AutoBanObserve, AutoBanEnforce} \<and> 0 < bpWindowSeconds b \<and>
      0 < bpFailureThreshold b \<and> 0 < bpBanMinutes b \<and> bpBanMinutes b \<le> bpMaxBanMinutes b) \<and>
   distinct (ppTrustedProxies (Normalized p)) \<and> list_all (\<lambda>t. NormalizeTrustedProxy t = Some t) (ppTrustedProxies (Normalized p)) \<and>
   0 < alCooldownMinutes (ppAlert (Normalized p)) \<and> 1 \<le> ppAttemptRetentionDays (Normalized p) \<and> ppAttemptRetentionDays (Normalized p) \<le> 365"
proof -
  have ban: "normalize_auto_ban (normalize_auto_ban b) = normalize_auto_ban b" for b
    by (simp add: normalize_auto_ban_def Let_def DefaultPolicy_def)
  have ban': "let c = normalize_auto_ban b in bpMode c \<in> {AutoBanOff, AutoBanObserve, AutoBanEnforce} \<and> 0 < bpWindowSeconds c \<and>
      0 < bpFailureThreshold c \<and> 0 < bpBanMinutes c \<and> bpBanMinutes c \<le> bpMaxBanMinutes c" for b
    by (simp add: normalize_auto_ban_def Let_def DefaultPolicy_def)
  have proxies: "clean_proxies [] (clean_proxies [] ps) = clean_proxies [] ps" for ps
    using clean_proxies_facts [of "[]" ps] by (intro clean_proxies_id) auto
  have "normalize_throttle (normalize_throttle t) = normalize_throttle t" for t by (simp add: normalize_throttle_def)
  moreover have "alert_normalized (alert_normalized q) = alert_normalized q" for q
    by (simp add: alert_normalized_def defaultAlertCooldownMinutes_def)
  moreover have "0 < alCooldownMinutes (alert_normalized q)" for q
    by (simp add: alert_normalized_def defaultAlertCooldownMinutes_def)
  ultimately show ?thesis
    using clean_proxies_facts [of "[]" "ppTrustedProxies p"] ban' [of "ppAutoBan p"]
    by (simp add: Normalized_def Let_def ban proxies list_all_iff maxAttemptRetentionDays_def DefaultAttemptRetentionDays_def)
qed

lemma double_minutes_min:
  assumes "0 < m" "limit \<le> 2 ^ 61"
  shows "min (double_minutes k m limit) limit = min (m * 2 ^ k) limit"
  using assms(1)
proof (induction k arbitrary: m)
  case (Suc k)
  show ?case
  proof (cases "m < limit")
    case True
    then have "wrap64 (m * 2) = m * 2" using assms(2) Suc.prems by (intro wrap64_id) (simp_all add: minInt64_def maxInt64_def)
    then show ?thesis using True Suc.IH [of "m * 2"] Suc.prems by (simp add: mult.assoc)
  next
    case False
    have "m * 1 \<le> m * 2 ^ Suc k" using Suc.prems by (intro mult_left_mono one_le_power) simp_all
    then show ?thesis using False by simp
  qed
qed simp

text \<open>
  The ban of a source that has been banned \<open>k\<close> times before lasts twice as long each time, up to the longest ban of the policy, exactly
  and without overflow as long as the longest ban fits the clock.
\<close>

theorem BanDuration_doubles:
  assumes "0 < bpBanMinutes p" "bpBanMinutes p \<le> bpMaxBanMinutes p" "bpMaxBanMinutes p \<le> maxInt64 div minute" "0 \<le> k"
  shows "BanDuration p k = min (bpBanMinutes p * 2 ^ nat k) (bpMaxBanMinutes p) * minute \<and>
    bpBanMinutes p * minute \<le> BanDuration p k \<and> BanDuration p k \<le> bpMaxBanMinutes p * minute"
proof -
  let ?d = "double_minutes (nat k) (bpBanMinutes p) (bpMaxBanMinutes p)"
  have lim: "bpMaxBanMinutes p \<le> 153722867" using assms(3) by (simp add: maxInt64_def minute_def second_def)
  have m: "min ?d (bpMaxBanMinutes p) = min (bpBanMinutes p * 2 ^ nat k) (bpMaxBanMinutes p)"
    using assms(1) lim by (intro double_minutes_min) simp_all
  have "bpBanMinutes p * 1 \<le> bpBanMinutes p * 2 ^ nat k" using assms(1) by (intro mult_left_mono one_le_power) simp_all
  then have r: "bpBanMinutes p \<le> min ?d (bpMaxBanMinutes p)" "min ?d (bpMaxBanMinutes p) \<le> bpMaxBanMinutes p" using assms(2) m by auto
  have "(if bpMaxBanMinutes p < ?d then bpMaxBanMinutes p else ?d) = min ?d (bpMaxBanMinutes p)" by auto
  then have "BanDuration p k = wrap64 (min ?d (bpMaxBanMinutes p) * minute)" by (simp add: BanDuration_def Let_def)
  also have "\<dots> = min ?d (bpMaxBanMinutes p) * minute"
  proof -
    have "wrap64 (x * minute) = x * minute" if "0 \<le> x" "x \<le> 153722867" for x
      using that by (intro wrap64_id) (simp_all add: minInt64_def maxInt64_def minute_def second_def)
    then show ?thesis using r lim assms(1) by simp
  qed
  finally show ?thesis using m r by (simp add: minute_def second_def)
qed

definition default_ban :: auto_ban_policy where "default_ban = ppAutoBan DefaultPolicy"

theorem BanDuration_doubles_witness: "BanDuration default_ban 3 = 8 * 60 * minute \<and> BanDuration default_ban 9 = 24 * 60 * minute"
proof -
  have p: "0 < bpBanMinutes default_ban" "bpBanMinutes default_ban \<le> bpMaxBanMinutes default_ban" "bpMaxBanMinutes default_ban \<le> maxInt64 div minute"
    by code_simp+
  have "BanDuration default_ban 3 = min (bpBanMinutes default_ban * 2 ^ nat 3) (bpMaxBanMinutes default_ban) * minute"
    "BanDuration default_ban 9 = min (bpBanMinutes default_ban * 2 ^ nat 9) (bpMaxBanMinutes default_ban) * minute"
    using BanDuration_doubles [OF p, of 3] BanDuration_doubles [OF p, of 9] by simp_all
  then show ?thesis by (simp add: default_ban_def DefaultPolicy_def)
qed

text \<open>The longest ban has no upper limit: a value beyond the range of the clock makes the ban end before it starts.\<close>

lemma BanDuration_wraps: "BanDuration (normalize_auto_ban (default_ban\<lparr>bpMaxBanMinutes := 200000000, bpBanMinutes := 200000000\<rparr>)) 0 < 0"
  by code_simp

section \<open>Forged forwarding headers\<close>

lemma ParseIP_nonempty: "ParseIP s = Some a \<Longrightarrow> length a = 16 \<and> a \<noteq> []"
  by (auto simp: ParseIP_def dest!: ParseAddr_shape)

lemma walked_hops_parsed: "a \<in> set (walked_hops req) \<Longrightarrow> \<exists>s. ParseIP s = Some a"
  by (auto simp: walked_hops_def List.map_filter_def)

lemma find_map_filter_skip:
  "(\<And>x y. x \<in> set xs \<Longrightarrow> f x = Some y \<Longrightarrow> \<not> P y) \<Longrightarrow> List.find P (List.map_filter f (xs @ ys)) = List.find P (List.map_filter f ys)"
  by (induction xs) (auto simp: List.map_filter_simps split: option.split)

lemma walked_hops_chain: "walked_hops req = List.map_filter ParseIP (rev (collectForwardedChain req))"
  by (simp add: walked_hops_def collectForwardedChain_def forwardedHeaders_def)


definition relayed :: "(string, string list) gomap \<Rightarrow> request" where
  "relayed h = \<lparr>rqRemoteAddr = ''10.0.0.1:443'', rqHeader = h\<rparr>"

definition one_proxy :: "ipnet list" where
  "one_proxy = newTrustedProxyMatcher [''10.0.0.0/8'']"


text \<open>
  The headers are walked from the last of the list to the first, although the list is in order of priority: behind a proxy that sets
  X-Forwarded-For only, a client that sends a Forwarded header of its own chooses its address.
\<close>

lemma forwarded_header_forged:
  "let addr = resolveForwarded (relayed [(''X-Forwarded-For'', [''203.0.113.9'']), (''Forwarded'', [''for=198.51.100.7''])]) one_proxy
   in caIP addr = v4InV6Prefix @ [198, 51, 100, 7] \<and> caTrusted addr"
  by code_simp

section \<open>Admission\<close>

lemma most_specific_None: "most_specific rs = None \<longleftrightarrow> rs = []"
  by (simp add: most_specific_def)

lemma refused_iff:
  fixes t r
  assumes "list_all stored_wf rules" "length (caIP addr) = 4 \<or> length (caIP addr) = 16"
  defines "r' \<equiv> Refresh True (Some rules) t r"
  shows "(\<not> Allowed (snd (Evaluate True addr r')) \<longleftrightarrow>
      caTrusted addr \<and> \<not> LocalOperator addr \<and> protected_match (irProtected r) (caIP addr) = None \<and>
      (\<forall>x \<in> set rules. \<not> applies EffectAllow t (caIP addr) x) \<and>
      ((\<exists>x \<in> set rules. applies EffectDeny t (caIP addr) x) \<or> ppLockdown (irPolicy r))) \<and>
    Allowed (snd (Evaluate False addr r'))"
proof -
  have m: "Match (irMatcher r') (caIP addr) = reference_verdict rules (ppLockdown (irPolicy r)) t (caIP addr)"
    using Match_reference [OF assms(1,2)] by (simp add: r'_def Refresh_def)
  have p: "irProtected r' = irProtected r" by (simp add: r'_def Refresh_def)
  have deny: "fst (reference_verdict rules l t a) = DecisionDeny \<longleftrightarrow>
      (\<forall>x \<in> set rules. \<not> applies EffectAllow t a x) \<and> ((\<exists>x \<in> set rules. applies EffectDeny t a x) \<or> l)" for l a
  proof (cases "filter (applies EffectAllow t a) rules = []")
    case True
    then show ?thesis
      by (cases "filter (applies EffectDeny t a) rules = []")
         (auto simp: reference_verdict_def most_specific_def filter_empty_conv split: option.split)
  next
    case False
    then show ?thesis by (auto simp: reference_verdict_def most_specific_def filter_empty_conv split: option.split)
  qed
  show ?thesis
    using deny [of "ppLockdown (irPolicy r)" "caIP addr"]
    by (auto simp: Evaluate_def Allowed_def m p split: option.splits prod.splits)
qed

text \<open>
  C13: after the rules have been loaded, a request is refused exactly when its address is believed, it is not a connection from the host
  itself, the address is not protected, no live allow rule covers it, and either a live deny rule covers it or lockdown is on. A store
  that cannot be read refuses nobody.
\<close>

theorem admission_exact:
  fixes t r
  assumes "list_all stored_wf rules" "length (caIP addr) = 4 \<or> length (caIP addr) = 16"
  defines "r' \<equiv> Refresh True (Some rules) t r"
  shows "(\<not> Allowed (snd (Evaluate True addr r')) \<longleftrightarrow>
      caTrusted addr \<and> \<not> LocalOperator addr \<and> protected_match (irProtected r) (caIP addr) = None \<and>
      (\<forall>x \<in> set rules. \<not> applies EffectAllow t (caIP addr) x) \<and>
      ((\<exists>x \<in> set rules. applies EffectDeny t (caIP addr) x) \<or> ppLockdown (irPolicy r))) \<and>
    Allowed (snd (Evaluate False addr r'))"
  unfolding r'_def by (rule refused_iff [OF assms(1,2)])

definition office :: client_address where
  "office = \<lparr>caPeer = ''1.2.3.4'', caDirectPeer = True, caChain = [], caIP = [1, 2, 3, 4], caRaw = ''1.2.3.4'', caTrusted = True, caRelayHeader = ''''\<rparr>"

theorem admission_exact_witness:
  "Allowed (snd (Evaluate True office (Refresh True (Some sample_rules) 0 (NewRegistry 0)))) \<and>
   \<not> Allowed (snd (Evaluate True (office\<lparr>caIP := [1, 2, 9, 9]\<rparr>) (Refresh True (Some sample_rules) 0 (NewRegistry 0))))"
proof -
  have "\<not> (\<forall>x \<in> set sample_rules. \<not> applies EffectAllow 0 [1, 2, 3, 4] x)" "\<forall>x \<in> set sample_rules. \<not> applies EffectAllow 0 [1, 2, 9, 9] x"
    "\<exists>x \<in> set sample_rules. applies EffectDeny 0 [1, 2, 9, 9] x" "\<not> LocalOperator (office\<lparr>caIP := [1, 2, 9, 9]\<rparr>)"
    "protected_match (irProtected (NewRegistry 0)) [1, 2, 9, 9] = None" "caIP office = [1, 2, 3, 4]" "caTrusted (office\<lparr>caIP := [1, 2, 9, 9]\<rparr>)"
    by code_simp+
  then show ?thesis
    using admission_exact [OF sample_rules_wf, of office 0 "NewRegistry 0"] admission_exact [OF sample_rules_wf, of "office\<lparr>caIP := [1, 2, 9, 9]\<rparr>" 0 "NewRegistry 0"]
    by auto
qed

text \<open>A rule that lapses stays in force until the next refresh: its end is looked at when the snapshot is built, not when it is used.\<close>

lemma lapsed_rule_still_matches:
  "let r = (sample_rule ''1.2.3.0/24'' EffectDeny)\<lparr>arExpiresAt := Some 5\<rparr>
   in \<not> Active r 10 \<and> Match (NewMatcher [r] False 0) [1, 2, 3, 4] = (DecisionDeny, Some r)"
  by code_simp

definition protected_wf :: "protected_entry list \<Rightarrow> bool" where
  "protected_wf es = (\<forall>e \<in> set es. ParseCIDR (peCIDR e) = Some (peNet e))"

lemma protect_wf: "protected_wf es \<Longrightarrow> protected_wf (protect reason raw es)"
  by (auto simp: protected_wf_def protect_def split: sum.split option.split)

lemma protect_keeps: "set es \<subseteq> set (protect reason raw es)"
  by (auto simp: protect_def split: sum.split option.split)

lemma protect_covers:
  assumes "protected_wf es" "NormalizeCIDR raw = Inr (s, family)" "ParseCIDR s = Some n"
  shows "n \<in> peNet ` set (protect reason raw es)"
  using assms by (force simp: protected_wf_def protect_def image_iff)

lemma fold_protect:
  assumes "protected_wf es"
  shows "protected_wf (fold (protect reason) raws es) \<and> set es \<subseteq> set (fold (protect reason) raws es) \<and>
    (\<forall>raw s family n. raw \<in> set raws \<and> NormalizeCIDR raw = Inr (s, family) \<and> ParseCIDR s = Some n \<longrightarrow>
       n \<in> peNet ` set (fold (protect reason) raws es))"
  using assms
proof (induction raws arbitrary: es)
  case (Cons x raws)
  note IH = Cons.IH [OF protect_wf [OF Cons.prems], of reason x]
  have "n \<in> peNet ` set (fold (protect reason) raws (protect reason x es))"
    if "NormalizeCIDR x = Inr (s, family)" "ParseCIDR s = Some n" for s family n
    using protect_covers [OF Cons.prems that] IH by blast
  then show ?case using IH protect_keeps [of es reason x] by auto
qed simp

text \<open>
  C16: no rule, no automatic ban and no lockdown can shut out the addresses the deployment depends on: an address covered by one of the
  host addresses, declared proxies or outbound proxies that the registry was told to protect is let in, whatever else the registry holds.
\<close>

theorem protected_never_refused:
  assumes "raw \<in> set (localAddresses @ trustedProxies @ outboundProxies)" "NormalizeCIDR raw = Inr (s, family)" "ParseCIDR s = Some n"
    and "Contains n (caIP addr)" "caIP addr \<noteq> []"
  shows "Allowed (snd (Evaluate available addr (SetProtectedAddresses localAddresses trustedProxies outboundProxies r)))"
proof -
  let ?l = "fold (protect ''local_address'') localAddresses []"
  let ?t = "fold (protect ''trusted_proxy'') trustedProxies ?l"
  let ?o = "fold (protect ''outbound_proxy'') outboundProxies ?t"
  have wf: "protected_wf []" by (simp add: protected_wf_def)
  note L = fold_protect [OF wf, of "''local_address''" localAddresses]
  note T = fold_protect [OF conjunct1 [OF L], of "''trusted_proxy''" trustedProxies]
  note O = fold_protect [OF conjunct1 [OF T], of "''outbound_proxy''" outboundProxies]
  have "n \<in> peNet ` set ?o"
  proof -
    consider "raw \<in> set localAddresses" | "raw \<in> set trustedProxies" | "raw \<in> set outboundProxies" using assms(1) by auto
    then show ?thesis
    proof cases
      case 1
      then have "n \<in> peNet ` set ?l" using L assms(2,3) by blast
      then show ?thesis using T O by blast
    next
      case 2
      then have "n \<in> peNet ` set ?t" using T assms(2,3) by blast
      then show ?thesis using O by blast
    next
      case 3
      then show ?thesis using O assms(2,3) by blast
    qed
  qed
  then have "protected_match (buildProtectedSet localAddresses trustedProxies outboundProxies) (caIP addr) \<noteq> None"
    using assms(4,5) by (auto simp: protected_match_def buildProtectedSet_def find_None_iff)
  then show ?thesis by (auto simp: Evaluate_def Allowed_def SetProtectedAddresses_def)
qed

theorem protected_never_refused_witness:
  "Allowed (snd (Evaluate True office (SetProtectedAddresses [''1.2.3.4''] [] [] ((NewRegistry 0)\<lparr>irMatcher := NewMatcher [] True 0\<rparr>))))"
proof -
  have "NormalizeCIDR ''1.2.3.4'' = Inr (''1.2.3.4/32'', 4)" by code_simp
  moreover have "ParseCIDR ''1.2.3.4/32'' = Some \<lparr>nIP = [1, 2, 3, 4], nMask = [255, 255, 255, 255]\<rparr>" by code_simp
  moreover have "Contains \<lparr>nIP = [1, 2, 3, 4], nMask = [255, 255, 255, 255]\<rparr> (caIP office)" "caIP office \<noteq> []" by code_simp+
  ultimately show ?thesis using protected_never_refused [of "''1.2.3.4''" "[''1.2.3.4'']" "[]" "[]"] by simp
qed

end
