(* ===== verification/Slot_Ring.thy ===== *)
theory Slot_Ring
  imports Go_Base
begin

text \<open>
  Counting events in a sliding window with a ring of slots, as the automatic bans (\<^verbatim>\<open>src/internal/ipaccess/autoban.go\<close>) and the login throttle
  (\<^verbatim>\<open>src/internal/api/handlers/management/login_throttle.go\<close>) do, each with a copy of its own. Time is cut into steps of a fixed width; the events of a step are
  counted in the slot given by the number of the step modulo the number of slots, which is reset when the step changes. The locale \<open>sliding_window\<close>
  states what the two operations of such a ring are and proves once that the total is the number of events of the last steps.
\<close>

text \<open>The counter of a slot is a 32-bit integer.\<close>

definition wrap32 :: "int \<Rightarrow> int" where
  "wrap32 x = (x + 2 ^ 31) mod 2 ^ 32 - 2 ^ 31"

lemma wrap32_id: "0 \<le> x \<Longrightarrow> x < 2 ^ 31 \<Longrightarrow> wrap32 x = x"
  by (simp add: wrap32_def)

record window_slot =
  slIndex :: int
  slCount :: int

abbreviation zero_slot :: window_slot where
  "zero_slot \<equiv> \<lparr>slIndex = 0, slCount = 0\<rparr>"

text \<open>A slot after events of the given steps: the latest step of its residue class with its count, or untouched.\<close>

definition slot_ok :: "nat \<Rightarrow> int list \<Rightarrow> nat \<Rightarrow> window_slot \<Rightarrow> bool" where
  "slot_ok n ixs j s =
     ((s = zero_slot \<and> (\<forall>i \<in> set ixs. i mod int n \<noteq> int j)) \<or>
      (slIndex s \<in> set ixs \<and> slIndex s mod int n = int j \<and> slCount s = int (count_list ixs (slIndex s)) \<and>
       (\<forall>i \<in> set ixs. i mod int n = int j \<longrightarrow> i \<le> slIndex s)))"

definition ring_ok :: "nat \<Rightarrow> int list \<Rightarrow> window_slot list \<Rightarrow> bool" where
  "ring_ok n ixs slots = (length slots = n \<and> (\<forall>j < n. slot_ok n ixs j (slots ! j)))"

lemma ring_ok_empty: "ring_ok n [] (replicate n zero_slot)"
  by (simp add: ring_ok_def slot_ok_def)

lemma slot_ok_other: "slot_ok n ixs j s \<Longrightarrow> i mod int n \<noteq> int j \<Longrightarrow> slot_ok n (ixs @ [i]) j s"
  by (auto simp: slot_ok_def)

lemma slot_count:
  assumes "slot_ok n ixs j s" "\<And>k. k \<in> set ixs \<Longrightarrow> k \<le> i" "i mod int n = int j"
  shows "(if slIndex s \<noteq> i then 0 else slCount s) = int (count_list ixs i)"
proof (cases "slIndex s = i")
  case True
  then show ?thesis using assms by (auto simp: slot_ok_def)
next
  case False
  have "i \<notin> set ixs"
  proof
    assume "i \<in> set ixs"
    then have "slIndex s \<in> set ixs" "i \<le> slIndex s" using assms by (auto simp: slot_ok_def)
    then show False using assms(2) False by force
  qed
  then show ?thesis using False by (simp add: count_notin)
qed

lemma length_filter_residues:
  fixes ixs :: "int list"
  assumes "0 < n"
  shows "length (filter P ixs) = (\<Sum>j < n. length (filter (\<lambda>i. P i \<and> i mod int n = int j) ixs))"
proof (induction ixs)
  case (Cons i ixs)
  have "(\<Sum>j < n. if P i \<and> i mod int n = int j then 1 else (0 :: nat)) = (\<Sum>j < n. if j = nat (i mod int n) \<and> P i then 1 else 0)"
    using assms by (intro sum.cong) auto
  also have "\<dots> = (if P i then 1 else 0)"
  proof -
    have "nat (i mod int n) < n" using assms by (simp add: nat_less_iff)
    then show ?thesis by (cases "P i") simp_all
  qed
  finally have one: "(\<Sum>j < n. if P i \<and> i mod int n = int j then 1 else 0) = (if P i then 1 else (0 :: nat))" .
  have "(\<Sum>j < n. length (filter (\<lambda>k. P k \<and> k mod int n = int j) (i # ixs))) =
      (\<Sum>j < n. (if P i \<and> i mod int n = int j then 1 else 0) + length (filter (\<lambda>k. P k \<and> k mod int n = int j) ixs))"
    by (intro sum.cong) auto
  then show ?case using Cons one by (simp add: sum.distrib)
qed simp

lemma residue_unique:
  fixes x i m :: int
  assumes "x mod int n = i mod int n" "i \<le> x" "x \<le> m" "m - int n + 1 \<le> i"
  shows "i = x"
proof (rule ccontr)
  assume "i \<noteq> x"
  moreover have "int n dvd x - i" using assms(1) by (simp add: mod_eq_dvd_iff)
  ultimately have "int n \<le> x - i" using assms(2) by (intro zdvd_imp_le) simp_all
  then show False using assms(3,4) by linarith
qed

lemma slot_in_window:
  assumes "slot_ok n ixs j s" "\<And>k. k \<in> set ixs \<Longrightarrow> k \<le> m"
  shows "(if m - int n + 1 \<le> slIndex s \<and> slIndex s \<le> m then slCount s else 0) = int (length (filter (\<lambda>i. m - int n + 1 \<le> i \<and> i mod int n = int j) ixs))"
proof (cases "\<forall>i \<in> set ixs. i mod int n \<noteq> int j")
  case True
  then have "slCount s = 0" using assms(1) by (auto simp: slot_ok_def)
  moreover have "filter (\<lambda>i. m - int n + 1 \<le> i \<and> i mod int n = int j) ixs = []" using True by (auto simp: filter_empty_conv)
  ultimately show ?thesis by simp
next
  case False
  let ?x = "slIndex s"
  have x: "?x \<in> set ixs" "?x mod int n = int j" "slCount s = int (count_list ixs ?x)" "\<And>i. i \<in> set ixs \<Longrightarrow> i mod int n = int j \<Longrightarrow> i \<le> ?x"
    using assms(1) False by (auto simp: slot_ok_def)
  have "m - int n + 1 \<le> i \<and> i mod int n = int j \<longleftrightarrow> m - int n + 1 \<le> ?x \<and> i = ?x" if "i \<in> set ixs" for i
    using x that assms(2) residue_unique [of ?x n i m] by auto
  then have "filter (\<lambda>i. m - int n + 1 \<le> i \<and> i mod int n = int j) ixs = (if m - int n + 1 \<le> ?x then filter (\<lambda>i. i = ?x) ixs else [])"
    by (auto intro: filter_cong simp: filter_empty_conv)
  moreover have "length (filter (\<lambda>i. i = ?x) ixs) = count_list ixs ?x" by (induction ixs) auto
  ultimately show ?thesis using x(1,3) assms(2) by auto
qed

section \<open>The contract of a ring\<close>

locale sliding_window =
  fixes n :: nat
    and add :: "int \<Rightarrow> window_slot list \<Rightarrow> window_slot list"
    and total :: "int \<Rightarrow> window_slot list \<Rightarrow> int"
  assumes slots: "0 < n"
    and add_at: "length xs = n \<Longrightarrow> add i xs =
      xs[nat (i mod int n) := \<lparr>slIndex = i, slCount = wrap32 ((if slIndex (xs ! nat (i mod int n)) \<noteq> i then 0 else slCount (xs ! nat (i mod int n))) + 1)\<rparr>]"
    and total_of: "length xs = n \<Longrightarrow> total i xs = sum_list (map (\<lambda>s. if i - int n + 1 \<le> slIndex s \<and> slIndex s \<le> i then slCount s else 0) xs)"
begin

lemma ring_add:
  assumes "ring_ok n ixs xs" "\<And>k. k \<in> set ixs \<Longrightarrow> k \<le> i" "int (length ixs) + 1 < 2 ^ 31"
  shows "ring_ok n (ixs @ [i]) (add i xs)"
proof -
  let ?j = "nat (i mod int n)"
  have j: "?j < n" "int ?j = i mod int n" using slots by (simp_all add: nat_less_iff)
  have len: "length xs = n" and ok: "slot_ok n ixs ?j (xs ! ?j)" using assms(1) j(1) by (auto simp: ring_ok_def)
  have "int (count_list ixs i) + 1 < 2 ^ 31" using assms(3) count_le_length [of ixs i] by linarith
  then have "slot_ok n (ixs @ [i]) ?j \<lparr>slIndex = i, slCount = wrap32 (int (count_list ixs i) + 1)\<rparr>"
    using assms(2) j(2) by (auto simp: slot_ok_def wrap32_id)
  moreover have "add i xs = xs[?j := \<lparr>slIndex = i, slCount = wrap32 (int (count_list ixs i) + 1)\<rparr>]"
    unfolding add_at [OF len] using slot_count [OF ok assms(2)] j(2) by simp
  moreover have "slot_ok n (ixs @ [i]) k (xs ! k)" if "k < n" "k \<noteq> ?j" for k
    using that assms(1) j by (intro slot_ok_other) (auto simp: ring_ok_def)
  ultimately show ?thesis using len j(1) by (auto simp: ring_ok_def nth_list_update)
qed

lemma ring_total:
  assumes "ring_ok n ixs xs" "\<And>k. k \<in> set ixs \<Longrightarrow> k \<le> m"
  shows "total m xs = int (length (filter (\<lambda>i. m - int n + 1 \<le> i) ixs))"
proof -
  have len: "length xs = n" using assms(1) by (simp add: ring_ok_def)
  have "total m xs = (\<Sum>j < n. if m - int n + 1 \<le> slIndex (xs ! j) \<and> slIndex (xs ! j) \<le> m then slCount (xs ! j) else 0)"
    unfolding total_of [OF len] by (simp add: sum_list_sum_nth len atLeast0LessThan)
  also have "\<dots> = (\<Sum>j < n. int (length (filter (\<lambda>i. m - int n + 1 \<le> i \<and> i mod int n = int j) ixs)))"
    using assms by (intro sum.cong slot_in_window) (auto simp: ring_ok_def)
  finally show ?thesis by (simp add: length_filter_residues [OF slots, of "\<lambda>i. m - int n + 1 \<le> i"])
qed

end

section \<open>Steps and instants\<close>

lemma filter_length_mono: "(\<And>t. P t \<Longrightarrow> Q t) \<Longrightarrow> length (filter P ts) \<le> length (filter Q ts)"
  by (induction ts) (auto simp: le_SucI)

text \<open>The events of the current step and those before it, up to the number of slots, lie between two windows of time.\<close>

lemma steps_between_windows:
  fixes t w :: int
  assumes "0 < w"
  shows "length (filter (\<lambda>u. t - int k * w \<le> u) ts) \<le> length (filter (\<lambda>u. t div w - int k \<le> u div w) ts)"
    and "length (filter (\<lambda>u. t div w - int k \<le> u div w) ts) \<le> length (filter (\<lambda>u. t - (int k + 1) * w < u) ts)"
proof -
  show "length (filter (\<lambda>u. t - int k * w \<le> u) ts) \<le> length (filter (\<lambda>u. t div w - int k \<le> u div w) ts)"
  proof (rule filter_length_mono)
    fix u assume "t - int k * w \<le> u"
    then have "(t + (- int k) * w) div w \<le> u div w" using assms by (intro zdiv_mono1) simp_all
    moreover have "(t + (- int k) * w) div w = t div w - int k" using assms div_mult_self1 [of w t "- int k"] by (simp only:)
    ultimately show "t div w - int k \<le> u div w" by simp
  qed
  show "length (filter (\<lambda>u. t div w - int k \<le> u div w) ts) \<le> length (filter (\<lambda>u. t - (int k + 1) * w < u) ts)"
  proof (rule filter_length_mono)
    fix u assume "t div w - int k \<le> u div w"
    then have "w * (t div w - int k) \<le> w * (u div w)" using assms by (intro mult_left_mono) simp_all
    moreover have "w * (x div w) \<le> x \<and> x < w * (x div w) + w" for x
      using mult_div_mod_eq [of w x] pos_mod_sign [OF assms, of x] pos_mod_bound [OF assms, of x] by linarith
    from this [of u] this [of t] have "w * (u div w) \<le> u" "t < w * (t div w) + w" by simp_all
    ultimately show "t - (int k + 1) * w < u" by (simp add: algebra_simps)
  qed
qed

end
