(* ===== verification/Auto_Ban.thy ===== *)
theory Auto_Ban
  imports IP_Protection Slot_Ring
begin

text \<open>
  The automatic bans of \<^verbatim>\<open>src/internal/ipaccess/autoban.go\<close> and the alerts about them (\<^verbatim>\<open>alert.go\<close>). Failures are counted per source in a
  ring of twelve slots; a source that reaches the threshold is denied for a time that doubles with every ban.

  Arguments stand for what lies outside: the clock, the counters the processes of a cluster share (\<^verbatim>\<open>ClusterAutoBanStore\<close>, in
  Redis; what \<^verbatim>\<open>markBannedShared\<close> writes there is not followed), and what the rule store returns. Times
  are nanoseconds since the epoch and not negative, as \<^verbatim>\<open>UnixNano\<close> of the present is. An alert carries the window and the end of the
  ban as values, not as text.
\<close>

section \<open>Counting failures\<close>

definition autoBanSlotCount :: nat where "autoBanSlotCount = 12"
definition maxTrackedSources :: nat where "maxTrackedSources = 20000"
definition autoBanEvictRatio :: nat where "autoBanEvictRatio = 8"

type_synonym ban_slot = window_slot

record ban_counter =
  bcSlots :: "ban_slot list"
  bcBanCount :: int
  bcBannedUntil :: gotime
  bcLastActivity :: gotime

definition emptySlots :: "ban_slot list" where
  "emptySlots = replicate autoBanSlotCount zero_slot"

definition newCounter :: ban_counter where
  "newCounter = \<lparr>bcSlots = emptySlots, bcBanCount = 0, bcBannedUntil = 0, bcLastActivity = 0\<rparr>"

type_synonym ban_counters = "(string, ban_counter) gomap"

definition BanCIDR :: "ip \<Rightarrow> string" where
  "BanCIDR a =
     (if a = [] then ''''
      else case To4 a of
             Some v \<Rightarrow> IP_String v @ ''/32''
           | None \<Rightarrow> IP_String (IP_Mask a (CIDRMask 64 128)) @ ''/64'')"

definition evictIfSaturatedLocked :: "gotime \<Rightarrow> ban_counters \<Rightarrow> ban_counters" where
  "evictIfSaturatedLocked clock cs =
     (if length cs < maxTrackedSources then cs
      else let candidates = filter (\<lambda>kc. \<not> clock < bcBannedUntil (snd kc)) cs;
               ordered = sort_key (\<lambda>kc. bcLastActivity (snd kc)) candidates;
               evict = max 1 (length candidates div autoBanEvictRatio)
           in fold (\<lambda>kc. map_del (fst kc)) (take evict ordered) cs)"

definition charge_slot :: "int \<Rightarrow> ban_slot list \<Rightarrow> ban_slot list" where
  "charge_slot index slots =
     (let j = nat (index mod int autoBanSlotCount);
          s = (if slIndex (slots ! j) \<noteq> index then \<lparr>slIndex = index, slCount = 0\<rparr> else slots ! j)
      in slots[j := s\<lparr>slCount := wrap32 (slCount s + 1)\<rparr>])"

definition window_total :: "int \<Rightarrow> ban_slot list \<Rightarrow> int" where
  "window_total index slots =
     sum_list (map slCount (filter (\<lambda>s. index - int autoBanSlotCount + 1 \<le> slIndex s \<and> slIndex s \<le> index) slots))"

definition chargeLocal :: "gotime \<Rightarrow> string \<Rightarrow> auto_ban_policy \<Rightarrow> gotime \<Rightarrow> ban_counters \<Rightarrow> ban_counters \<times> int \<times> int \<times> bool" where
  "chargeLocal clock cidr p now cs =
     (if Window p \<le> 0 then (cs, 0, 0, False)
      else let width = Window p div int autoBanSlotCount;
               (cs1, c0) = (case map_of cs cidr of Some c \<Rightarrow> (cs, c) | None \<Rightarrow> (evictIfSaturatedLocked clock cs, newCounter));
               c = c0\<lparr>bcLastActivity := now\<rparr>
           in if now < bcBannedUntil c then (map_put cidr c cs1, 0, bcBanCount c, True)
              else let index = now div width; slots = charge_slot index (bcSlots c)
                   in (map_put cidr (c\<lparr>bcSlots := slots\<rparr>) cs1, window_total index slots, bcBanCount c, False))"

text \<open>
  The shared counters (\<^verbatim>\<open>autoban_cluster.go\<close>): \<open>None\<close> when no store is installed or it is not available; the answer of a store is the failures, the
  earlier bans and whether the source is banned already, or \<open>None\<close> for an error.
\<close>

record ban_spec =
  bsWindow :: duration
  bsSlots :: nat
  bsThreshold :: int
  bsClaimTTL :: duration
  bsRetention :: duration

type_synonym ban_store = "string \<Rightarrow> ban_spec \<Rightarrow> gotime \<Rightarrow> (int \<times> int \<times> bool) option"

definition autoBanClaimTTL :: duration where "autoBanClaimTTL = 10 * second"
definition autoBanSharedRetention :: duration where "autoBanSharedRetention = 24 * 60 * minute"

definition chargeShared :: "ban_store option \<Rightarrow> string \<Rightarrow> auto_ban_policy \<Rightarrow> gotime \<Rightarrow> (int \<times> int \<times> bool) option" where
  "chargeShared store cidr p now =
     (case store of
        None \<Rightarrow> None
      | Some charge \<Rightarrow>
          charge cidr \<lparr>bsWindow = Window p, bsSlots = autoBanSlotCount, bsThreshold = bpFailureThreshold p, bsClaimTTL = autoBanClaimTTL,
                        bsRetention = (if autoBanSharedRetention < Window p then Window p else autoBanSharedRetention)\<rparr> now)"

definition charge ::
  "ban_store option \<Rightarrow> gotime \<Rightarrow> string \<Rightarrow> auto_ban_policy \<Rightarrow> gotime \<Rightarrow> ban_counters \<Rightarrow> ban_counters \<times> int \<times> int \<times> bool" where
  "charge store clock cidr p now cs =
     (case chargeLocal clock cidr p now cs of (cs', own) \<Rightarrow> (cs', case chargeShared store cidr p now of Some s \<Rightarrow> s | None \<Rightarrow> own))"

definition markBanned :: "string \<Rightarrow> gotime \<Rightarrow> gotime \<Rightarrow> ban_counters \<Rightarrow> ban_counters" where
  "markBanned cidr until now cs =
     (let c = (case map_of cs cidr of Some c \<Rightarrow> c | None \<Rightarrow> newCounter)
      in map_put cidr \<lparr>bcSlots = emptySlots, bcBanCount = bcBanCount c + 1, bcBannedUntil = until, bcLastActivity = now\<rparr> cs)"

section \<open>Alerts\<close>

definition maxTrackedAlertKeys :: nat where "maxTrackedAlertKeys = 4096"

definition shouldSend :: "string \<Rightarrow> duration \<Rightarrow> gotime \<Rightarrow> (string, gotime) gomap \<Rightarrow> (string, gotime) gomap \<times> bool" where
  "shouldSend key cooldown now sent =
     (if (case map_of sent key of Some previous \<Rightarrow> time_sub now previous < cooldown | None \<Rightarrow> False) then (sent, False)
      else if length sent < maxTrackedAlertKeys then (map_put key now sent, True)
      else let kept = filter (\<lambda>ka. time_sub now (snd ka) < cooldown) sent
           in if maxTrackedAlertKeys \<le> length kept then (kept, False) else (map_put key now kept, True))"

record ban_outcome =
  boTriggered :: bool
  boEnforced :: bool
  boCIDR :: string
  boUntil :: gotime
  boFailures :: int

definition noOutcome :: ban_outcome where
  "noOutcome = \<lparr>boTriggered = False, boEnforced = False, boCIDR = '''', boUntil = 0, boFailures = 0\<rparr>"

record alert_event =
  aeEvent :: string
  aeCIDR :: string
  aeFailures :: int
  aeWindow :: duration
  aeReason :: string
  aeEnforced :: bool
  aeExpiresAt :: "gotime option"
  aeOccurredAt :: gotime

definition notifyBan ::
  "protection_policy \<Rightarrow> ban_outcome \<Rightarrow> string \<Rightarrow> gotime \<Rightarrow> (string, gotime) gomap \<Rightarrow> (string, gotime) gomap \<times> alert_event option" where
  "notifyBan policy o' reason now sent =
     (let alert = alert_normalized (ppAlert policy)
      in if \<not> boTriggered o' \<or> \<not> alert_Enabled alert \<or> (\<not> boEnforced o' \<and> \<not> alNotifyObserve alert) then (sent, None)
         else case shouldSend (boCIDR o') (wrap64 (alCooldownMinutes alert * minute)) now sent of
                (sent', ok) \<Rightarrow>
                  (sent', if \<not> ok then None
                          else Some \<lparr>aeEvent = (if boEnforced o' then ''ip_access.auto_ban'' else ''ip_access.auto_ban_observed''),
                                     aeCIDR = boCIDR o', aeFailures = boFailures o', aeWindow = Window (ppAutoBan policy), aeReason = reason,
                                     aeEnforced = boEnforced o', aeExpiresAt = (if boUntil o' = 0 then None else Some (boUntil o')),
                                     aeOccurredAt = now\<rparr>))"

section \<open>Recording a failure\<close>

record ban_engine =
  beRegistry :: access_registry
  beCounters :: ban_counters
  beSent :: "(string, gotime) gomap"

text \<open>
  What the surroundings answer: the shared counters, the rule store on \<^verbatim>\<open>UpsertAutoBan\<close> (\<open>None\<close> for an error, else the rule), whether the store is available
  and what it loads afterwards.
\<close>

record ban_env =
  nvShared :: "ban_store option"
  nvUpsert :: "string \<Rightarrow> gotime \<Rightarrow> access_rule option"
  nvAvailable :: bool
  nvLoad :: "string \<Rightarrow> gotime \<Rightarrow> access_rule list option"

text \<open>The result: the engine, the outcome, the deny rule asked for, if any, and the alert sent, if any.\<close>

definition RecordFailure ::
  "ban_env \<Rightarrow> client_address \<Rightarrow> string \<Rightarrow> gotime \<Rightarrow> ban_engine \<Rightarrow> ban_engine \<times> ban_outcome \<times> (string \<times> gotime) option \<times> alert_event option" where
  "RecordFailure env addr reason now e =
     (let p = ppAutoBan (irPolicy (beRegistry e)); skip = (e, noOutcome, None, None)
      in if bpMode p = AutoBanOff then skip
         else if \<not> caTrusted addr \<or> Loopback addr \<or> caIP addr = [] then skip
         else if AllowsAddress (irMatcher (beRegistry e)) (caIP addr) then skip
         else if protected_match (irProtected (beRegistry e)) (caIP addr) \<noteq> None then skip
         else let cidr = BanCIDR (caIP addr);
                  (cs, failures, bans, already) = charge (nvShared env) now cidr p now (beCounters e);
                  e1 = e\<lparr>beCounters := cs\<rparr>
              in if already \<or> failures < bpFailureThreshold p
                 then (e1, noOutcome\<lparr>boFailures := failures, boCIDR := cidr\<rparr>, None, None)
                 else let until = now + BanDuration p bans;
                          o1 = \<lparr>boTriggered = True, boEnforced = False, boCIDR = cidr, boUntil = until, boFailures = failures\<rparr>
                      in if bpMode p \<noteq> AutoBanEnforce
                         then let (sent, alert) = notifyBan (irPolicy (beRegistry e)) o1 reason now (beSent e)
                              in (e1\<lparr>beCounters := markBanned cidr until now cs, beSent := sent\<rparr>, o1, None, alert)
                         else case nvUpsert env cidr until of
                                None \<Rightarrow> (e1, o1, Some (cidr, until), None)
                              | Some rule \<Rightarrow>
                                  if arSource rule = SourceManual then (e1, o1, Some (cidr, until), None)
                                  else let o2 = o1\<lparr>boEnforced := True\<rparr>;
                                           reg = Refresh (nvAvailable env) (nvLoad env cidr until) now (beRegistry e);
                                           (sent, alert) = notifyBan (irPolicy reg) o2 reason now (beSent e)
                                       in (\<lparr>beRegistry = reg, beCounters = markBanned cidr until now cs, beSent = sent\<rparr>, o2,
                                           Some (cidr, until), alert))"

section \<open>The ring counts the window\<close>

interpretation ban: sliding_window autoBanSlotCount charge_slot window_total
proof
  show "0 < autoBanSlotCount" by (simp add: autoBanSlotCount_def)
  show "charge_slot i xs = xs[nat (i mod int autoBanSlotCount) := \<lparr>slIndex = i, slCount = wrap32 ((if slIndex (xs ! nat (i mod int autoBanSlotCount)) \<noteq> i then 0
      else slCount (xs ! nat (i mod int autoBanSlotCount))) + 1)\<rparr>]" for i xs
    by (cases "xs ! nat (i mod int autoBanSlotCount)") (simp add: charge_slot_def Let_def)
  show "window_total i xs = sum_list (map (\<lambda>s. if i - int autoBanSlotCount + 1 \<le> slIndex s \<and> slIndex s \<le> i then slCount s else 0) xs)" for i xs
    by (simp add: window_total_def sum_list_map_filter')
qed

lemma ring_ok_none: "ring_ok autoBanSlotCount [] emptySlots"
  unfolding emptySlots_def by (rule ring_ok_empty)

text \<open>The failures of one source, one after the other.\<close>

definition charge_run :: "string \<Rightarrow> auto_ban_policy \<Rightarrow> gotime list \<Rightarrow> ban_counters \<Rightarrow> ban_counters \<times> int \<times> int \<times> bool" where
  "charge_run cidr p ts cs = foldl (\<lambda>(cs, _) t. chargeLocal t cidr p t cs) (cs, 0, 0, False) ts"

lemma sorted_last_max: "sorted ts \<Longrightarrow> t \<in> set ts \<Longrightarrow> t \<le> last ts" for ts :: "int list"
  by (induction ts) (auto intro: order_trans)

lemma Window_exact:
  assumes "0 < bpWindowSeconds p" "bpWindowSeconds p \<le> maxInt64 div second"
  shows "Window p = bpWindowSeconds p * second" "0 < Window p div 12"
proof -
  have "bpWindowSeconds p \<le> 9223372036" using assms(2) by (simp add: maxInt64_def second_def)
  then show "Window p = bpWindowSeconds p * second"
    using assms(1) unfolding Window_def by (intro wrap64_id) (simp_all add: minInt64_def maxInt64_def second_def)
  then show "0 < Window p div 12" using assms(1) by (simp add: second_def)
qed

lemma charge_run_state:
  assumes "0 < Window p" "map_of cs cidr = None" "sorted ts" "ts \<noteq> []" "list_all (\<lambda>t. 0 \<le> t) ts" "int (length ts) < 2 ^ 31" "0 < Window p div 12"
  shows "\<exists>c cs'. charge_run cidr p ts cs = (cs', window_total (last ts div (Window p div 12)) (bcSlots c), 0, False) \<and> map_of cs' cidr = Some c \<and>
    bcBanCount c = 0 \<and> bcBannedUntil c = 0 \<and> ring_ok autoBanSlotCount (map (\<lambda>t. t div (Window p div 12)) ts) (bcSlots c)"
  using assms(3-6)
proof (induction ts rule: rev_induct)
  case (snoc t ts)
  let ?w = "Window p div 12"
  let ?ix = "map (\<lambda>t. t div ?w) ts"
  have w: "Window p div int autoBanSlotCount = ?w" by (simp add: autoBanSlotCount_def)
  have le: "k \<le> t div ?w" if "k \<in> set ?ix" for k
    using that snoc.prems(1) assms(7) by (auto simp: sorted_append intro: zdiv_mono1)
  have len: "int (length ?ix) + 1 < 2 ^ 31" using snoc.prems(4) by simp
  have t: "0 \<le> t" using snoc.prems(3) by simp
  show ?case
  proof (cases "ts = []")
    case True
    have "ring_ok autoBanSlotCount [t div ?w] (charge_slot (t div ?w) emptySlots)" using ban.ring_add [OF ring_ok_none, of "t div ?w"] by simp
    then show ?thesis
      using True assms(1,2) t by (simp add: charge_run_def chargeLocal_def newCounter_def Let_def w)
  next
    case False
    then obtain c cs' where c: "charge_run cidr p ts cs = (cs', window_total (last ts div ?w) (bcSlots c), 0, False)" "map_of cs' cidr = Some c"
        "bcBanCount c = 0" "bcBannedUntil c = 0" "ring_ok autoBanSlotCount ?ix (bcSlots c)"
      using snoc by (auto simp: sorted_append)
    have step: "charge_run cidr p (ts @ [t]) cs = chargeLocal t cidr p t cs'" using c(1) by (simp add: charge_run_def)
    show ?thesis
      using c ban.ring_add [OF c(5) le len] assms(1) t by (simp add: step chargeLocal_def Let_def w)
  qed
qed simp

text \<open>
  C17: the twelve slots, reused in a circle, count exactly: the number a failure is judged by is the number of failures of the source in
  the current twelfth of the window and the eleven before it. So no failure of the last eleven twelfths of the window is
  missed, and none older than the window is held against the source.
\<close>

theorem window_count_exact:
  fixes ts :: "gotime list"
  assumes "0 < bpWindowSeconds p" "bpWindowSeconds p \<le> maxInt64 div second" "map_of cs cidr = None"
    and "sorted ts" "ts \<noteq> []" "list_all (\<lambda>t. 0 \<le> t) ts" "int (length ts) < 2 ^ 31"
  defines "w \<equiv> Window p div 12"
  shows "\<exists>n. snd (charge_run cidr p ts cs) = (int n, 0, False) \<and> n = length (filter (\<lambda>t. last ts div w - 11 \<le> t div w) ts) \<and>
    length (filter (\<lambda>t. last ts - 11 * w \<le> t) ts) \<le> n \<and> n \<le> length (filter (\<lambda>t. last ts - 12 * w < t) ts)"
proof -
  note W = Window_exact [OF assms(1,2)]
  have w: "0 < w" using W(2) by (simp add: w_def)
  have "0 < Window p" using W(1) assms(1) by (simp add: second_def)
  from charge_run_state [OF this assms(3-7) W(2)] obtain c :: ban_counter and cs'
    where c: "charge_run cidr p ts cs = (cs', window_total (last ts div w) (bcSlots c), 0, False)" "ring_ok autoBanSlotCount (map (\<lambda>t. t div w) ts) (bcSlots c)"
    unfolding w_def by blast
  have "k \<le> last ts div w" if "k \<in> set (map (\<lambda>t. t div w) ts)" for k
    using that sorted_last_max [OF assms(4)] w by (auto intro: zdiv_mono1)
  from ban.ring_total [OF c(2) this]
  have n: "snd (charge_run cidr p ts cs) = (int (length (filter (\<lambda>t. last ts div w - 11 \<le> t div w) ts)), 0, False)"
    by (simp add: c(1) filter_map o_def autoBanSlotCount_def algebra_simps)
  show ?thesis
    using steps_between_windows [OF w, of "last ts" 11 ts] by (intro exI conjI) (rule n, simp_all)
qed

theorem window_count_exact_witness:
  "snd (charge_run ''1.2.3.4/32'' default_ban [5 * second, 100 * second, 640 * second] []) = (2, 0, False)"
proof -
  have p: "0 < bpWindowSeconds default_ban" "bpWindowSeconds default_ban \<le> maxInt64 div second" by code_simp+
  have w: "Window default_ban div 12 = 50 * second" by code_simp
  have "sorted [5 * second, 100 * second, 640 * second]" "list_all (\<lambda>t. 0 \<le> t) [5 * second, 100 * second, 640 * second]"
    "length (filter (\<lambda>t. 640 * second div (50 * second) - 11 \<le> t div (50 * second)) [5 * second, 100 * second, 640 * second]) = 2"
    by (simp_all add: second_def)
  then show ?thesis
    using window_count_exact [OF p, of "[]" "''1.2.3.4/32''" "[5 * second, 100 * second, 640 * second]"] by (auto simp: w)
qed

section \<open>Who is banned\<close>

lemma suffix_text: "''/32'' = CHR ''/'' # nat_digits 32" "''/64'' = CHR ''/'' # nat_digits 64"
  by code_simp+

lemma slash_64_plain:
  assumes "length a = 16"
  shows "length (IP_Mask a (CIDRMask 64 128)) = 16" "To4 (IP_Mask a (CIDRMask 64 128)) = None"
proof -
  have m: "CIDRMask 64 128 = mask_bytes 16 64" by (simp add: CIDRMask_def)
  have x: "IP_Mask a (CIDRMask 64 128) = masked a (mask_bytes 16 64)" using IP_Mask_shapes(3) [OF assms, of 64] by (simp add: m)
  show len: "length (IP_Mask a (CIDRMask 64 128)) = 16" using assms by (simp add: x)
  have "mask_bytes 16 64 ! 10 = 0" by code_simp
  then have "masked a (mask_bytes 16 64) ! 10 = 0" using assms by simp
  moreover have "v4InV6Prefix ! 10 = 255" by (simp add: v4InV6Prefix_def)
  moreover have "take 12 xs ! 10 = xs ! 10" for xs :: ip by simp
  moreover have "(0 :: byte) \<noteq> 255" by code_simp
  ultimately have "take 12 (masked a (mask_bytes 16 64)) \<noteq> v4InV6Prefix" by metis
  then show "To4 (IP_Mask a (CIDRMask 64 128)) = None" using len by (simp add: To4_def x)
qed

lemma BanCIDR_network:
  assumes "length a = 4 \<or> length a = 16"
  shows "\<exists>n. ParseCIDR (BanCIDR a) = Some n \<and> Contains n a \<and> fst (mask_Size (nMask n)) = (if To4 a = None then 64 else 32)"
proof (cases "To4 a")
  case (Some v)
  have len: "length v = 4" by (rule length_To4 [OF Some])
  have "a \<noteq> []" using assms by auto
  then have "ParseCIDR (BanCIDR a) = Some \<lparr>nIP = masked v (CIDRMask 32 32), nMask = CIDRMask 32 32\<rparr>"
    using ParseCIDR_written [of "IP_String v" 32 "v4InV6Prefix @ v" 32] ParseAddr_String(1,3) [of v] len text_no_slash(1) IP_Mask_shapes(1) [OF len, of 32]
    by (simp add: BanCIDR_def Some suffix_text)
  moreover have "Contains \<lparr>nIP = masked v (CIDRMask 32 32), nMask = CIDRMask 32 32\<rparr> a"
    using len CIDRMask_facts(1) [of 32 32] by (simp add: Contains_def networkNumberAndMask_def Some)
  ultimately show ?thesis using Some CIDRMask_facts(4) [of 32 32] by simp
next
  case None
  then have len: "length a = 16" "a \<noteq> []" using assms by auto
  let ?x = "IP_Mask a (CIDRMask 64 128)" and ?m = "CIDRMask 64 128"
  note x = slash_64_plain [OF len(1)]
  have xm: "?x = masked a ?m" using IP_Mask_shapes(3) [OF len(1), of 64] by simp
  have "CHR ''/'' \<notin> set (IP_String ?x)" using x text_no_slash(2) [of ?x] by (simp add: IP_String_def)
  then have "ParseCIDR (BanCIDR a) = Some \<lparr>nIP = IP_Mask ?x ?m, nMask = ?m\<rparr>"
    using ParseCIDR_written [of "IP_String ?x" 128 ?x 64] ParseAddr_String(2) [OF x] len(2) by (simp add: BanCIDR_def None suffix_text)
  moreover have "IP_Mask ?x ?m = ?x" using IP_Mask_shapes(3) [OF x(1), of 64] by (simp add: xm)
  moreover have "Contains \<lparr>nIP = ?x, nMask = ?m\<rparr> a"
    using x len CIDRMask_facts(1) [of 64 128] None by (simp add: Contains_def networkNumberAndMask_def xm)
  ultimately show ?thesis using None CIDRMask_facts(4) [of 64 128] by simp
qed

text \<open>
  C18: a deny rule is only ever written for a source that earned it: the mode says so, the address is believed, not a loopback address,
  not allow-listed and not protected, and the failures counted reach the threshold. The rule covers the one IPv4 host or the IPv6
  /64 network of the address and ends after the ban the policy gives. In every other case the rules stay as they are.
\<close>

theorem RecordFailure_bans:
  assumes "RecordFailure env addr reason now e = (e', out, asked, alert)" "length (caIP addr) = 4 \<or> length (caIP addr) = 16"
  defines "p \<equiv> ppAutoBan (irPolicy (beRegistry e))"
  shows "(asked \<noteq> None \<longrightarrow> bpMode p = AutoBanEnforce \<and> caTrusted addr \<and> \<not> Loopback addr \<and>
      \<not> AllowsAddress (irMatcher (beRegistry e)) (caIP addr) \<and> protected_match (irProtected (beRegistry e)) (caIP addr) = None \<and>
      bpFailureThreshold p \<le> boFailures out \<and>
      (\<exists>k n. asked = Some (BanCIDR (caIP addr), now + BanDuration p k) \<and> boUntil out = now + BanDuration p k \<and>
         ParseCIDR (BanCIDR (caIP addr)) = Some n \<and> Contains n (caIP addr) \<and> fst (mask_Size (nMask n)) = (if To4 (caIP addr) = None then 64 else 32))) \<and>
    (boEnforced out \<longrightarrow> asked \<noteq> None) \<and> (\<not> boEnforced out \<longrightarrow> beRegistry e' = beRegistry e)"
proof -
  obtain cs failures bans already where c: "charge (nvShared env) now (BanCIDR (caIP addr)) p now (beCounters e) = (cs, failures, bans, already)"
    by (metis prod_cases4)
  show ?thesis
    using assms(1) BanCIDR_network [OF assms(2)]
    by (auto simp: RecordFailure_def Let_def c p_def [symmetric] noOutcome_def split: if_splits option.splits prod.splits)
qed

definition banning_registry :: access_registry where
  "banning_registry =
     (NewRegistry 0)\<lparr>irPolicy := DefaultPolicy\<lparr>ppAutoBan := default_ban\<lparr>bpMode := AutoBanEnforce, bpFailureThreshold := 1\<rparr>\<rparr>\<rparr>"

definition sample_engine :: ban_engine where
  "sample_engine = \<lparr>beRegistry = banning_registry, beCounters = [], beSent = []\<rparr>"

definition sample_env :: ban_env where
  "sample_env = \<lparr>nvShared = None, nvUpsert = (\<lambda>cidr until. Some ((sample_rule cidr EffectDeny)\<lparr>arSource := SourceAuto, arExpiresAt := Some until\<rparr>)),
     nvAvailable = True, nvLoad = (\<lambda>_ _. Some [sample_rule ''1.2.3.4/32'' EffectDeny])\<rparr>"

theorem RecordFailure_bans_witness:
  "let (e', out, asked, alert) = RecordFailure sample_env office ''guessing'' 0 sample_engine
   in asked = Some (''1.2.3.4/32'', 60 * minute) \<and> boEnforced out \<and> bpFailureThreshold (ppAutoBan (irPolicy (beRegistry sample_engine))) \<le> boFailures out \<and>
      protected_match (irProtected (beRegistry sample_engine)) (caIP office) = None"
proof -
  obtain e' out asked alert where r: "RecordFailure sample_env office ''guessing'' 0 sample_engine = (e', out, asked, alert)" by (metis prod_cases4)
  have "fst (snd (snd (RecordFailure sample_env office ''guessing'' 0 sample_engine))) = Some (''1.2.3.4/32'', 60 * minute)"
    "boEnforced (fst (snd (RecordFailure sample_env office ''guessing'' 0 sample_engine)))" "length (caIP office) = 4" by code_simp+
  then show ?thesis using RecordFailure_bans [OF r] by (simp add: r)
qed

section \<open>Bans last and grow\<close>

text \<open>The width of a slot is never zero: a window is a whole number of seconds, so even a wrapped product is a multiple of 512 ns.\<close>

lemma slot_width_positive: "0 < Window p \<Longrightarrow> 0 < Window p div int autoBanSlotCount"
proof -
  assume pos: "0 < Window p"
  have "(512 :: int) dvd Window p"
    unfolding Window_def wrap64_def second_def signed_take_bit_eq_take_bit_shift take_bit_eq_mod
    by (intro dvd_diff dvd_mod dvd_add dvd_mult) simp_all
  then have "512 \<le> Window p" using pos by (rule zdvd_imp_le)
  then show ?thesis by (simp add: autoBanSlotCount_def)
qed

lemma evict_keeps:
  assumes "map_of cs k = Some c" "clock < bcBannedUntil c" "distinct (map fst cs)"
  shows "map_of (evictIfSaturatedLocked clock cs) k = Some c"
proof -
  let ?cand = "filter (\<lambda>kc. \<not> clock < bcBannedUntil (snd kc)) cs"
  have keep: "map_of (fold (\<lambda>kc. map_del (fst kc)) xs m) k = map_of m k" if "\<forall>kc \<in> set xs. fst kc \<noteq> k" for xs :: "(string \<times> ban_counter) list" and m :: ban_counters
    using that by (induction xs arbitrary: m) auto
  have "fst kc \<noteq> k" if "kc \<in> set (take n (sort_key (\<lambda>kc. bcLastActivity (snd kc)) ?cand))" for kc n
  proof
    assume eq: "fst kc = k"
    have "kc \<in> set cs" "\<not> clock < bcBannedUntil (snd kc)" using in_set_takeD [OF that] by auto
    then show False using eq assms by (metis Some_eq_map_of_iff option.inject prod.collapse)
  qed
  then show ?thesis unfolding evictIfSaturatedLocked_def Let_def using assms(1) keep by auto
qed

definition ban_count :: "string \<Rightarrow> ban_counters \<Rightarrow> int" where
  "ban_count cidr cs = (case map_of cs cidr of Some c \<Rightarrow> bcBanCount c | None \<Rightarrow> 0)"

lemma chargeLocal_keeps_bans: "ban_count cidr (fst (chargeLocal clock cidr p now cs)) = ban_count cidr cs"
  by (auto simp: chargeLocal_def ban_count_def Let_def newCounter_def split: option.splits)

lemma charge_keeps_bans: "charge store clock cidr p now cs = (cs', r) \<Longrightarrow> ban_count cidr cs' = ban_count cidr cs"
  using chargeLocal_keeps_bans [of cidr clock p now cs] by (auto simp: charge_def split: prod.splits)

lemma map_of_markBanned:
  "map_of (markBanned cidr until now cs) cidr =
     Some \<lparr>bcSlots = emptySlots, bcBanCount = ban_count cidr cs + 1, bcBannedUntil = until, bcLastActivity = now\<rparr>"
  by (simp add: markBanned_def ban_count_def newCounter_def Let_def split: option.splits)

lemma chargeLocal_banned:
  assumes "map_of cs cidr = Some c" "0 < Window p"
  shows "t < bcBannedUntil c \<Longrightarrow> snd (chargeLocal clock cidr p t cs) = (0, bcBanCount c, True)"
    and "bcBannedUntil c \<le> t \<Longrightarrow> bcSlots c = emptySlots \<Longrightarrow> snd (chargeLocal clock cidr p t cs) = (1, bcBanCount c, False)"
proof -
  show "t < bcBannedUntil c \<Longrightarrow> snd (chargeLocal clock cidr p t cs) = (0, bcBanCount c, True)"
    using assms by (simp add: chargeLocal_def Let_def)
  let ?i = "t div (Window p div int autoBanSlotCount)"
  have "ring_ok autoBanSlotCount ([] @ [?i]) (charge_slot ?i emptySlots)" by (rule ban.ring_add [OF ring_ok_none]) simp_all
  then have "window_total ?i (charge_slot ?i emptySlots) = 1" using ban.ring_total [of "[?i]" _ ?i] by (simp add: autoBanSlotCount_def)
  then show "bcBannedUntil c \<le> t \<Longrightarrow> bcSlots c = emptySlots \<Longrightarrow> snd (chargeLocal clock cidr p t cs) = (1, bcBanCount c, False)"
    using assms by (simp add: chargeLocal_def Let_def)
qed

lemma RecordFailure_marks:
  assumes "RecordFailure env addr reason now e = (e', out, asked, alert)" "boTriggered out"
    and "boEnforced out \<or> bpMode (ppAutoBan (irPolicy (beRegistry e))) \<noteq> AutoBanEnforce"
  shows "map_of (beCounters e') (BanCIDR (caIP addr)) =
    Some \<lparr>bcSlots = emptySlots, bcBanCount = ban_count (BanCIDR (caIP addr)) (beCounters e) + 1, bcBannedUntil = boUntil out, bcLastActivity = now\<rparr>"
proof -
  let ?p = "ppAutoBan (irPolicy (beRegistry e))"
  obtain cs failures bans already where c: "charge (nvShared env) now (BanCIDR (caIP addr)) ?p now (beCounters e) = (cs, failures, bans, already)"
    by (metis prod_cases4)
  show ?thesis
    using assms charge_keeps_bans [OF c]
    by (auto simp: RecordFailure_def Let_def c noOutcome_def map_of_markBanned split: if_splits option.splits prod.splits)
qed

lemma RecordFailure_banned_quiet:
  assumes "map_of (beCounters e) (BanCIDR (caIP addr)) = Some c" "t < bcBannedUntil c" "nvShared env = None" "0 < Window (ppAutoBan (irPolicy (beRegistry e)))"
  shows "fst (snd (snd (RecordFailure env addr reason t e))) = None" "\<not> boTriggered (fst (snd (RecordFailure env addr reason t e)))"
proof -
  have "snd (charge None t (BanCIDR (caIP addr)) (ppAutoBan (irPolicy (beRegistry e))) t (beCounters e)) = (0, bcBanCount c, True)"
    using chargeLocal_banned(1) [OF assms(1,4,2), of t] by (simp add: charge_def chargeShared_def split: prod.splits)
  then show "fst (snd (snd (RecordFailure env addr reason t e))) = None" "\<not> boTriggered (fst (snd (RecordFailure env addr reason t e)))"
    by (auto simp: RecordFailure_def Let_def assms(3) noOutcome_def split: prod.splits)
qed

text \<open>
  C19: one decision per offence, in observe and in enforce mode. While a decided ban lasts, further failures of the source decide nothing and
  write no rule; once it is over the source starts with a clean window, so that its next failure counts one, and its next ban is computed with one
  more ban on record. (A write that fails, or an operator's own rule, is not a decided ban; with shared counters the cluster decides.)
\<close>

theorem ban_decided_once:
  assumes "RecordFailure env addr reason now e = (e', out, asked, alert)" "boTriggered out"
    and "boEnforced out \<or> bpMode (ppAutoBan (irPolicy (beRegistry e))) \<noteq> AutoBanEnforce"
    and "nvShared env' = None" "0 < Window (ppAutoBan (irPolicy (beRegistry e')))"
  defines "p \<equiv> ppAutoBan (irPolicy (beRegistry e'))" and "cidr \<equiv> BanCIDR (caIP addr)"
  shows "if t < boUntil out
    then fst (snd (snd (RecordFailure env' addr reason' t e'))) = None \<and> \<not> boTriggered (fst (snd (RecordFailure env' addr reason' t e')))
    else snd (charge None t cidr p t (beCounters e')) = (1, ban_count cidr (beCounters e) + 1, False)"
  using RecordFailure_banned_quiet [OF RecordFailure_marks [OF assms(1-3)] _ assms(4,5)]
    chargeLocal_banned(2) [OF RecordFailure_marks [OF assms(1-3)] assms(5), of t t]
  by (simp add: p_def cidr_def charge_def chargeShared_def split: prod.splits)

theorem ban_decided_once_witness:
  "let r = RecordFailure sample_env office ''guessing'' 0 sample_engine
   in boTriggered (fst (snd r)) \<and> \<not> boTriggered (fst (snd (RecordFailure sample_env office ''guessing'' (59 * minute) (fst r)))) \<and>
      snd (charge None (60 * minute) ''1.2.3.4/32'' default_ban (60 * minute) (beCounters (fst r))) = (1, 1, False)"
proof -
  obtain e' out asked alert where r: "RecordFailure sample_env office ''guessing'' 0 sample_engine = (e', out, asked, alert)" by (metis prod_cases4)
  let ?r = "RecordFailure sample_env office ''guessing'' 0 sample_engine"
  have "boTriggered (fst (snd ?r))" "boEnforced (fst (snd ?r))" "boUntil (fst (snd ?r)) = 60 * minute" "nvShared sample_env = None"
    "ppAutoBan (irPolicy (beRegistry (fst ?r))) = default_ban\<lparr>bpMode := AutoBanEnforce, bpFailureThreshold := 1\<rparr>"
    "0 < Window (default_ban\<lparr>bpMode := AutoBanEnforce, bpFailureThreshold := 1\<rparr>)" "ban_count ''1.2.3.4/32'' (beCounters sample_engine) = 0"
    "BanCIDR (caIP office) = ''1.2.3.4/32''" "0 < minute" by code_simp+
  moreover have "charge None t cidr (default_ban\<lparr>bpMode := AutoBanEnforce, bpFailureThreshold := 1\<rparr>) t cs = charge None t cidr default_ban t cs" for t cidr cs
    by (simp add: charge_def chargeShared_def chargeLocal_def Window_def)
  ultimately show ?thesis
    using ban_decided_once [OF r, of sample_env "59 * minute" "''guessing''"] ban_decided_once [OF r, of sample_env "60 * minute" "''guessing''"]
    by (simp add: r minute_def)
qed

section \<open>Alerts are few\<close>

text \<open>
  Between two alerts about the same source lies at least the cooldown, and the table of sent alerts keeps within its bound.
\<close>

lemma shouldSend_cooldown:
  assumes "shouldSend key cooldown now sent = (sent', True)" "shouldSend key cooldown t sent' = (sent'', True)"
  shows "cooldown \<le> time_sub t now"
  using assms by (auto simp: shouldSend_def Let_def split: if_splits)

lemma shouldSend_bounded:
  assumes "length sent \<le> maxTrackedAlertKeys"
  shows "length (fst (shouldSend key cooldown now sent)) \<le> maxTrackedAlertKeys"
proof -
  have put: "length (map_put k v m) \<le> Suc (length m)" for k :: string and v :: gotime and m by (induction m) auto
  have "length (filter P sent) \<le> maxTrackedAlertKeys" for P using assms length_filter_le [of P sent] by linarith
  then show ?thesis
    using assms put [of key now sent] put [of key now "filter (\<lambda>ka. time_sub now (snd ka) < cooldown) sent"]
    by (auto simp: shouldSend_def Let_def)
qed

end
