(* ===== verification/Rule_Store.thy ===== *)
theory Rule_Store
  imports Auto_Ban
begin

text \<open>
  The table of access rules (\<^verbatim>\<open>src/internal/ipaccess/store.go\<close>), and the automatic bans on top of it: from the recorded failure to the refused request.

  The table is the list of its rows; the SQL statements of the store are read as the functions on rows that they denote, with the two unique keys of
  \<^verbatim>\<open>ip_access_migrations.go\<close>. The database itself is a parameter: whether it is configured, which statements fail, what \<^verbatim>\<open>now()\<close> is and in
  which order it returns rows. Instants are kept exactly; the database rounds them to microseconds. The listing with its filters is not modelled.
\<close>

section \<open>The store\<close>

datatype store_error = StorageUnavailable | ErrRuleNotFound | ErrDuplicateRule | RuleRefused rule_error | QueryFailed

datatype statement = SqlLoad | SqlGet | SqlFind | SqlInsert | SqlUpdate | SqlDelete

record rule_db =
  dbAvailable :: bool
  dbOk :: "statement \<Rightarrow> bool"
  dbNow :: gotime
  dbOrder :: "access_rule list \<Rightarrow> access_rule list"

type_synonym rules_table = "access_rule list"

definition LoadActive :: "rule_db \<Rightarrow> gotime \<Rightarrow> rules_table \<Rightarrow> store_error + access_rule list" where
  "LoadActive db now T =
     (if \<not> dbAvailable db then Inr []
      else if \<not> dbOk db SqlLoad then Inl QueryFailed
      else Inr (dbOrder db (filter (\<lambda>r. arEnabled r \<and> (case arExpiresAt r of None \<Rightarrow> True | Some t \<Rightarrow> now < t)) T)))"

definition Get :: "rule_db \<Rightarrow> string \<Rightarrow> rules_table \<Rightarrow> store_error + access_rule" where
  "Get db ident T =
     (if \<not> dbAvailable db then Inl ErrRuleNotFound
      else if \<not> dbOk db SqlGet then Inl QueryFailed
      else case List.find (\<lambda>r. arID r = ident) T of Some r \<Rightarrow> Inr r | None \<Rightarrow> Inl ErrRuleNotFound)"

definition findByEffectCIDR :: "rule_db \<Rightarrow> string \<Rightarrow> string \<Rightarrow> rules_table \<Rightarrow> store_error + access_rule" where
  "findByEffectCIDR db effect cidr T =
     (if \<not> dbOk db SqlFind then Inl QueryFailed
      else case List.find (\<lambda>r. arEffect r = effect \<and> arCIDR r = cidr) T of Some r \<Rightarrow> Inr r | None \<Rightarrow> Inl ErrRuleNotFound)"

text \<open>An insertion, which the primary key and the unique index on effect and network may refuse.\<close>

definition insert_row :: "access_rule \<Rightarrow> rules_table \<Rightarrow> rules_table option" where
  "insert_row r T = (if list_ex (\<lambda>x. arID x = arID r \<or> (arEffect x = arEffect r \<and> arCIDR x = arCIDR r)) T then None else Some (T @ [r]))"

record create_input =
  ciCIDR :: string
  ciEffect :: string
  ciSource :: string
  ciReason :: string
  ciNote :: string
  ciExpiresAt :: "gotime option"
  ciCreatedBy :: string

definition new_row :: "rule_db \<Rightarrow> string \<Rightarrow> string \<Rightarrow> int \<Rightarrow> create_input \<Rightarrow> access_rule" where
  "new_row db ident cidr family inp =
     \<lparr>arID = ident, arCIDR = cidr, arFamily = family, arEffect = ciEffect inp, arSource = (if ciSource inp \<noteq> SourceAuto then SourceManual else ciSource inp),
      arReason = ciReason inp, arNote = ciNote inp, arEnabled = True, arExpiresAt = ciExpiresAt inp,
      arCreatedBy = (if trim_space (ciCreatedBy inp) \<noteq> '''' then ciCreatedBy inp else ''''), arCreatedAt = dbNow db, arUpdatedAt = dbNow db,
      arHitCount = 0, arLastHitAt = None\<rparr>"

text \<open>\<open>ident\<close> is the fresh identifier that the uuid library gives.\<close>

definition Create :: "rule_db \<Rightarrow> string \<Rightarrow> create_input \<Rightarrow> rules_table \<Rightarrow> rules_table \<times> (store_error + access_rule)" where
  "Create db ident inp T =
     (if \<not> dbAvailable db then (T, Inl StorageUnavailable)
      else case NormalizeCIDR (ciCIDR inp) of
             Inl e \<Rightarrow> (T, Inl (RuleRefused e))
           | Inr (cidr, family) \<Rightarrow>
               if ciEffect inp \<noteq> EffectAllow \<and> ciEffect inp \<noteq> EffectDeny then (T, Inl (RuleRefused ErrInvalidEffect))
               else if \<not> dbOk db SqlInsert then (T, Inl QueryFailed)
               else case insert_row (new_row db ident cidr family inp) T of
                      None \<Rightarrow> (T, Inl ErrDuplicateRule)
                    | Some T' \<Rightarrow> (T', Get db ident T'))"

record update_input =
  uiEnabled :: "bool option"
  uiNote :: "string option"
  uiExpiresAt :: "gotime option"
  uiClearExpires :: bool

definition update_row :: "gotime \<Rightarrow> update_input \<Rightarrow> access_rule \<Rightarrow> access_rule" where
  "update_row now inp r =
     r\<lparr>arEnabled := (case uiEnabled inp of Some b \<Rightarrow> b | None \<Rightarrow> arEnabled r),
       arNote := (case uiNote inp of Some s \<Rightarrow> s | None \<Rightarrow> arNote r),
       arExpiresAt := (if uiClearExpires inp then None else case uiExpiresAt inp of Some t \<Rightarrow> Some t | None \<Rightarrow> arExpiresAt r),
       arUpdatedAt := now\<rparr>"

definition Update :: "rule_db \<Rightarrow> string \<Rightarrow> update_input \<Rightarrow> rules_table \<Rightarrow> rules_table \<times> (store_error + access_rule)" where
  "Update db ident inp T =
     (if \<not> dbAvailable db then (T, Inl ErrRuleNotFound)
      else if uiEnabled inp = None \<and> uiNote inp = None \<and> \<not> uiClearExpires inp \<and> uiExpiresAt inp = None then (T, Get db ident T)
      else if \<not> dbOk db SqlUpdate then (T, Inl QueryFailed)
      else if \<not> list_ex (\<lambda>r. arID r = ident) T then (T, Inl ErrRuleNotFound)
      else let T' = map (\<lambda>r. if arID r = ident then update_row (dbNow db) inp r else r) T in (T', Get db ident T'))"

definition Delete :: "rule_db \<Rightarrow> string \<Rightarrow> rules_table \<Rightarrow> rules_table \<times> store_error option" where
  "Delete db ident T =
     (if \<not> dbAvailable db then (T, Some ErrRuleNotFound)
      else if \<not> dbOk db SqlDelete then (T, Some QueryFailed)
      else if \<not> list_ex (\<lambda>r. arID r = ident) T then (T, Some ErrRuleNotFound)
      else (filter (\<lambda>r. arID r \<noteq> ident) T, None))"

definition ban_input :: "string \<Rightarrow> string \<Rightarrow> gotime \<Rightarrow> create_input" where
  "ban_input cidr reason until =
     \<lparr>ciCIDR = cidr, ciEffect = EffectDeny, ciSource = SourceAuto, ciReason = reason, ciNote = '''', ciExpiresAt = Some until, ciCreatedBy = ''''\<rparr>"

definition renew_ban :: "gotime \<Rightarrow> string \<Rightarrow> gotime \<Rightarrow> access_rule \<Rightarrow> access_rule" where
  "renew_ban now reason until r = r\<lparr>arExpiresAt := Some until, arEnabled := True, arReason := reason, arUpdatedAt := now\<rparr>"

text \<open>\<open>others\<close> is what other processes do to the table between the query and the insertion.\<close>

definition UpsertAutoBan ::
  "rule_db \<Rightarrow> (rules_table \<Rightarrow> rules_table) \<Rightarrow> string \<Rightarrow> string \<Rightarrow> string \<Rightarrow> gotime \<Rightarrow> rules_table \<Rightarrow> rules_table \<times> (store_error + access_rule \<times> bool)" where
  "UpsertAutoBan db others ident cidr reason until T =
     (if \<not> dbAvailable db then (T, Inl StorageUnavailable)
      else case NormalizeCIDR cidr of
             Inl e \<Rightarrow> (T, Inl (RuleRefused e))
           | Inr (normalized, family) \<Rightarrow>
               (case findByEffectCIDR db EffectDeny normalized T of
                  Inr existing \<Rightarrow>
                    if arSource existing = SourceManual then (T, Inr (existing, False))
                    else if \<not> dbOk db SqlUpdate then (T, Inl QueryFailed)
                    else let T' = map (\<lambda>r. if arID r = arID existing then renew_ban (dbNow db) reason until r else r) T
                         in (T', map_sum id (\<lambda>r. (r, True)) (Get db (arID existing) T'))
                | Inl e \<Rightarrow>
                    if e \<noteq> ErrRuleNotFound then (T, Inl e)
                    else let T1 = others T;
                             row = new_row db ident normalized family (ban_input cidr reason until)
                         in if \<not> dbOk db SqlInsert then (T1, Inl QueryFailed)
                            else case insert_row row T1 of
                                   None \<Rightarrow> (T1, map_sum id (\<lambda>r. (r, False)) (findByEffectCIDR db EffectDeny normalized T1))
                                 | Some T2 \<Rightarrow> (T2, map_sum id (\<lambda>r. (r, True)) (Get db ident T2))))"

text \<open>The hits are written one rule after the other until a statement fails; \<open>ok\<close> says which rules can be written.\<close>

fun record_hits :: "(string \<Rightarrow> bool) \<Rightarrow> gotime \<Rightarrow> (string, int) gomap \<Rightarrow> rules_table \<Rightarrow> rules_table \<times> bool" where
  "record_hits ok at [] T = (T, True)"
| "record_hits ok at ((ident, n) # hits) T =
     (if n \<le> 0 then record_hits ok at hits T
      else if \<not> ok ident then (T, False)
      else record_hits ok at hits
             (map (\<lambda>r. if arID r = ident then r\<lparr>arHitCount := arHitCount r + n, arLastHitAt := Some at\<rparr> else r) T))"

definition RecordHits :: "rule_db \<Rightarrow> (string \<Rightarrow> bool) \<Rightarrow> gotime \<Rightarrow> (string, int) gomap \<Rightarrow> rules_table \<Rightarrow> rules_table \<times> bool" where
  "RecordHits db ok at hits T = (if \<not> dbAvailable db then (T, True) else record_hits ok at hits T)"

definition PurgeExpiredAuto :: "rule_db \<Rightarrow> gotime \<Rightarrow> rules_table \<Rightarrow> rules_table \<times> (store_error + nat)" where
  "PurgeExpiredAuto db cutoff T =
     (if \<not> dbAvailable db then (T, Inr 0)
      else if \<not> dbOk db SqlDelete then (T, Inl QueryFailed)
      else let keep = (\<lambda>r. \<not> (arSource r = SourceAuto \<and> (case arExpiresAt r of None \<Rightarrow> False | Some t \<Rightarrow> t < cutoff)))
           in (filter keep T, Inr (length (filter (\<lambda>r. \<not> keep r) T))))"

section \<open>The table stays well-formed\<close>

definition row_wf :: "access_rule \<Rightarrow> bool" where
  "row_wf r \<longleftrightarrow> (\<exists>raw. NormalizeCIDR raw = Inr (arCIDR r, arFamily r)) \<and> arEffect r \<in> {EffectAllow, EffectDeny} \<and>
     arSource r \<in> {SourceManual, SourceAuto} \<and> 0 \<le> arHitCount r"

definition row_key :: "access_rule \<Rightarrow> string \<times> string" where
  "row_key r = (arEffect r, arCIDR r)"

definition table_wf :: "rules_table \<Rightarrow> bool" where
  "table_wf T \<longleftrightarrow> list_all row_wf T \<and> distinct (map arID T) \<and> distinct (map row_key T)"

text \<open>The tables the operations of the store produce, whatever the database answers and other processes do in between.\<close>

inductive reachable_table :: "rules_table \<Rightarrow> bool" where
  empty: "reachable_table []"
| create: "reachable_table T \<Longrightarrow> reachable_table (fst (Create db ident inp T))"
| update: "reachable_table T \<Longrightarrow> reachable_table (fst (Update db ident upd T))"
| delete: "reachable_table T \<Longrightarrow> reachable_table (fst (Delete db ident T))"
| auto_ban: "reachable_table T \<Longrightarrow> reachable_table (others T) \<Longrightarrow> reachable_table (fst (UpsertAutoBan db others ident cidr reason until T))"
| hits: "reachable_table T \<Longrightarrow> reachable_table (fst (RecordHits db ok at hs T))"
| purge: "reachable_table T \<Longrightarrow> reachable_table (fst (PurgeExpiredAuto db cutoff T))"

lemma table_wf_filter: "table_wf T \<Longrightarrow> table_wf (filter P T)"
  by (auto simp: table_wf_def list_all_iff intro: distinct_map_filter)

lemma table_wf_map:
  assumes "table_wf T" "\<And>r. r \<in> set T \<Longrightarrow> row_wf (f r) \<and> arID (f r) = arID r \<and> row_key (f r) = row_key r"
  shows "table_wf (map f T)"
proof -
  have "map arID (map f T) = map arID T" "map row_key (map f T) = map row_key T" using assms(2) by auto
  then show ?thesis using assms by (auto simp: table_wf_def list_all_iff simp del: map_map)
qed

lemma table_wf_insert: "table_wf T \<Longrightarrow> row_wf r \<Longrightarrow> insert_row r T = Some T' \<Longrightarrow> table_wf T' \<and> T' = T @ [r]"
  by (force simp: table_wf_def insert_row_def row_key_def list_ex_iff split: if_splits)

lemma new_row_wf:
  assumes "NormalizeCIDR raw = Inr (cidr, family)" "ciEffect inp \<in> {EffectAllow, EffectDeny}"
  shows "row_wf (new_row db ident cidr family inp)"
  using assms by (auto simp: row_wf_def new_row_def)

lemma update_row_wf: "row_wf r \<Longrightarrow> row_wf (update_row now upd r) \<and> arID (update_row now upd r) = arID r \<and> row_key (update_row now upd r) = row_key r"
  by (simp add: row_wf_def update_row_def row_key_def)

lemma table_rows: "table_wf T \<Longrightarrow> r \<in> set T \<Longrightarrow> row_wf r"
  by (simp add: table_wf_def list_all_iff)

lemma Create_wf: "table_wf T \<Longrightarrow> table_wf (fst (Create db ident inp T))"
  by (auto simp: Create_def dest: table_wf_insert [OF _ new_row_wf] split: sum.split option.split)

lemma Update_wf: "table_wf T \<Longrightarrow> table_wf (fst (Update db ident upd T))"
  by (auto simp: Update_def Let_def update_row_wf table_rows intro!: table_wf_map)

lemma Delete_wf: "table_wf T \<Longrightarrow> table_wf (fst (Delete db ident T))"
  by (simp add: Delete_def table_wf_filter)

lemma PurgeExpiredAuto_wf: "table_wf T \<Longrightarrow> table_wf (fst (PurgeExpiredAuto db cutoff T))"
  by (simp add: PurgeExpiredAuto_def Let_def table_wf_filter)

lemma record_hits_wf: "table_wf T \<Longrightarrow> table_wf (fst (record_hits ok at hs T))"
proof (induction ok at hs T rule: record_hits.induct)
  case (2 ok at ident n hits T)
  have "table_wf (map (\<lambda>r. if arID r = ident then r\<lparr>arHitCount := arHitCount r + n, arLastHitAt := Some at\<rparr> else r) T)" if "0 < n"
    using 2(3) that by (intro table_wf_map) (auto simp: row_key_def row_wf_def dest!: table_rows [OF 2(3)])
  then show ?case using 2 by simp
qed simp

lemma UpsertAutoBan_wf:
  assumes "table_wf T" "table_wf (others T)"
  shows "table_wf (fst (UpsertAutoBan db others ident cidr reason until T))"
proof -
  have "table_wf (map (\<lambda>r. if arID r = x then renew_ban (dbNow db) reason until r else r) T)" for x
    using table_rows [OF assms(1)] by (intro table_wf_map [OF assms(1)]) (auto simp: row_key_def row_wf_def renew_ban_def)
  moreover have "table_wf T2"
    if "NormalizeCIDR cidr = Inr (n, f)" "insert_row (new_row db ident n f (ban_input cidr reason until)) (others T) = Some T2" for n f T2
    using table_wf_insert [OF assms(2) new_row_wf [OF that(1)] that(2)] by (auto simp: ban_input_def)
  ultimately show ?thesis using assms by (auto simp: UpsertAutoBan_def Let_def split: sum.split option.split)
qed

lemma reachable_table_wf: "reachable_table T \<Longrightarrow> table_wf T"
proof (induction rule: reachable_table.induct)
  case empty
  then show ?case by (simp add: table_wf_def)
next
  case (hits T db ok at hs)
  then show ?case by (simp add: RecordHits_def record_hits_wf)
qed (blast intro: Create_wf Update_wf Delete_wf UpsertAutoBan_wf PurgeExpiredAuto_wf)+

lemma row_wf_network:
  assumes "row_wf r"
  shows "stored_wf r" "\<exists>n. ParseCIDR (arCIDR r) = Some n \<and> IPNet_String n = arCIDR r \<and> \<not> IsLoopback (nIP n) \<and> \<not> IsUnspecified (nIP n)"
proof -
  obtain raw where "NormalizeCIDR raw = Inr (arCIDR r, arFamily r)" using assms by (auto simp: row_wf_def)
  from NormalizeCIDR_facts [OF this] show "stored_wf r"
    "\<exists>n. ParseCIDR (arCIDR r) = Some n \<and> IPNet_String n = arCIDR r \<and> \<not> IsLoopback (nIP n) \<and> \<not> IsUnspecified (nIP n)"
    by (auto simp: stored_wf_def)
qed

text \<open>
  C20: whatever operators, automatic bans, the purge and other processes do, the rows of the table are sound: identifiers are unique, no
  network has two rules of the same effect, effects and sources are the two known ones, and every row holds the one text of a network
  that can be read back and is neither the loopback nor the unspecified address.
\<close>

theorem rules_table_sound:
  assumes "reachable_table T"
  shows "distinct (map arID T) \<and> distinct (map row_key T) \<and>
    (\<forall>r \<in> set T. stored_wf r \<and> arEffect r \<in> {EffectAllow, EffectDeny} \<and> arSource r \<in> {SourceManual, SourceAuto} \<and> 0 \<le> arHitCount r \<and>
       (\<exists>n. ParseCIDR (arCIDR r) = Some n \<and> IPNet_String n = arCIDR r \<and> \<not> IsLoopback (nIP n) \<and> \<not> IsUnspecified (nIP n)))"
  using reachable_table_wf [OF assms] row_wf_network by (auto simp: table_wf_def list_all_iff row_wf_def)

definition sample_db :: rule_db where
  "sample_db = \<lparr>dbAvailable = True, dbOk = (\<lambda>_. True), dbNow = 0, dbOrder = id\<rparr>"

lemma sample_db_facts: "set (dbOrder sample_db rs) = set rs" "dbOk sample_db st" "dbAvailable sample_db"
  by (simp_all add: sample_db_def)

definition sample_table :: rules_table where
  "sample_table =
     fst (UpsertAutoBan sample_db id ''b'' ''9.9.9.9/32'' ''guessing'' 5
       (fst (Create sample_db ''a''
          \<lparr>ciCIDR = ''1.2.3.5/24'', ciEffect = EffectDeny, ciSource = SourceManual, ciReason = '''', ciNote = '''', ciExpiresAt = None, ciCreatedBy = ''''\<rparr> [])))"

lemma reachable_sample_table: "reachable_table sample_table"
  unfolding sample_table_def by (intro reachable_table.intros) (simp add: reachable_table.intros)

theorem rules_table_sound_witness:
  "map arCIDR sample_table = [''1.2.3.0/24'', ''9.9.9.9/32''] \<and> distinct (map row_key sample_table) \<and> list_all stored_wf sample_table"
proof -
  have "map arCIDR sample_table = [''1.2.3.0/24'', ''9.9.9.9/32'']" by code_simp
  then show ?thesis using rules_table_sound [OF reachable_sample_table] by (simp add: list_all_iff)
qed

section \<open>An automatic ban in the table\<close>

lemma find_unique:
  assumes "distinct (map f T)" "x \<in> set T"
  shows "List.find (\<lambda>r. f r = f x) T = Some x"
  using assms by (induction T) auto

lemma map_one_row:
  assumes "distinct (map arID T)" "x \<in> set T"
  shows "set (map (\<lambda>r. if arID r = arID x then g r else r) T) = insert (g x) (set T - {x})"
proof -
  have "y = x" if "y \<in> set T" "arID y = arID x" for y using that assms(1,2) by (metis distinct_map inj_on_eq_iff)
  then have "set (map (\<lambda>r. if arID r = arID x then g r else r) T) = (\<lambda>r. if r = x then g x else r) ` set T"
    unfolding set_map by (intro image_cong) auto
  then show ?thesis using assms(2) by auto
qed

lemma map_sum_Inr_iff: "map_sum id f s = Inr y \<longleftrightarrow> (\<exists>x. s = Inr x \<and> y = f x)"
  by (cases s) auto

lemma UpsertAutoBan_cases:
  assumes "UpsertAutoBan db (\<lambda>T. T) ident cidr reason until T = (T', res)"
  obtains (same) "T' = T" "\<And>r b. res = Inr (r, b) \<Longrightarrow> r \<in> set T \<and> arSource r = SourceManual"
  | (renewed) s f x where "NormalizeCIDR cidr = Inr (s, f)" "x \<in> set T" "row_key x = (EffectDeny, s)" "arSource x \<noteq> SourceManual"
      "T' = map (\<lambda>r. if arID r = arID x then renew_ban (dbNow db) reason until r else r) T" "res = map_sum id (\<lambda>r. (r, True)) (Get db (arID x) T')"
  | (inserted) s f where "NormalizeCIDR cidr = Inr (s, f)" "insert_row (new_row db ident s f (ban_input cidr reason until)) T = Some T'"
      "res = map_sum id (\<lambda>r. (r, True)) (Get db ident T')"
proof (cases "dbAvailable db")
  case True
  show thesis
  proof (cases "NormalizeCIDR cidr")
    case (Inl e)
    then have "T' = T" "res = Inl (RuleRefused e)" using assms True by (simp_all add: UpsertAutoBan_def)
    then show thesis by (intro same) simp_all
  next
    case (Inr sf)
    obtain s f where n: "NormalizeCIDR cidr = Inr (s, f)" using Inr by (cases sf) auto
    show thesis
    proof (cases "findByEffectCIDR db EffectDeny s T")
      case (Inr x)
      have x: "x \<in> set T" "row_key x = (EffectDeny, s)"
        using Inr by (auto simp: findByEffectCIDR_def row_key_def find_Some_iff split: if_splits option.splits)
      then show thesis using assms True n Inr same renewed [OF n x] by (auto simp: UpsertAutoBan_def Let_def split: if_splits)
    next
      case (Inl e)
      then show thesis using assms True n same inserted [OF n]
        by (cases "insert_row (new_row db ident s f (ban_input cidr reason until)) T") (auto simp: UpsertAutoBan_def Let_def split: if_splits)
    qed
  qed
next
  case False
  then have "T' = T" "res = Inl StorageUnavailable" using assms by (simp_all add: UpsertAutoBan_def)
  then show thesis by (intro same) simp_all
qed

lemma Get_unique:
  assumes "Get db (arID x) T = Inr r" "x \<in> set T" "distinct (map arID T)"
  shows "r = x"
  using assms find_unique [OF assms(3,2)] by (auto simp: Get_def split: if_splits)

lemma renewed_row:
  assumes "table_wf T" "x \<in> set T" "T' = map (\<lambda>r. if arID r = arID x then renew_ban now reason until r else r) T" "Get db (arID x) T' = Inr r"
  shows "r = renew_ban now reason until x" "set T' = insert r (set T - {x})"
proof -
  have ids: "distinct (map arID T)" using assms(1) by (simp add: table_wf_def)
  have "map arID T' = map arID T" unfolding assms(3) by (auto simp: renew_ban_def)
  then have ids': "distinct (map arID T')" using ids by simp
  have set: "set T' = insert (renew_ban now reason until x) (set T - {x})" unfolding assms(3) by (rule map_one_row [OF ids assms(2)])
  show r: "r = renew_ban now reason until x"
    using Get_unique [of db "renew_ban now reason until x", OF _ _ ids'] assms(4) set by (simp add: renew_ban_def)
  show "set T' = insert r (set T - {x})" using set r by simp
qed

lemma inserted_row:
  assumes "table_wf T" "NormalizeCIDR cidr = Inr (s, f)" "insert_row (new_row db ident s f (ban_input cidr reason until)) T = Some T'" "Get db ident T' = Inr r"
  shows "r = new_row db ident s f (ban_input cidr reason until)" "T' = T @ [r]"
proof -
  let ?row = "new_row db ident s f (ban_input cidr reason until)"
  have wf: "table_wf T' \<and> T' = T @ [?row]" using table_wf_insert [OF assms(1) new_row_wf [OF assms(2)] assms(3)] by (auto simp: ban_input_def)
  then have "distinct (map arID T')" unfolding table_wf_def by blast
  then show "r = ?row" using Get_unique [of db ?row T' r] assms(4) wf by (simp add: new_row_def)
  then show "T' = T @ [r]" using wf by blast
qed

text \<open>What a ban that was written leaves in the table: the row that bans the network, and all other rows as they were.\<close>

lemma UpsertAutoBan_writes:
  assumes "table_wf T" "UpsertAutoBan db (\<lambda>T. T) ident cidr reason until T = (T', Inr (r, b))" "arSource r \<noteq> SourceManual"
  obtains s family where "NormalizeCIDR cidr = Inr (s, family)" "r \<in> set T'" "row_key r = (EffectDeny, s)" "arExpiresAt r = Some until" "arEnabled r"
    "\<forall>x. row_key x \<noteq> (EffectDeny, s) \<longrightarrow> (x \<in> set T' \<longleftrightarrow> x \<in> set T)"
  using assms(2)
proof (cases rule: UpsertAutoBan_cases)
  case same
  then show thesis using assms(3) by auto
next
  case (renewed s f x)
  have "Get db (arID x) T' = Inr r" using renewed(6) by (cases "Get db (arID x) T'") simp_all
  note row = renewed_row [OF assms(1) renewed(2,5) this]
  have "row_key r = (EffectDeny, s)" using renewed(3) by (simp add: row(1) renew_ban_def row_key_def)
  then show thesis by (intro that [OF renewed(1)]) (use row renewed(3) in \<open>auto simp: renew_ban_def\<close>)
next
  case (inserted s f)
  have "Get db ident T' = Inr r" using inserted(3) by (cases "Get db ident T'") simp_all
  note row = inserted_row [OF assms(1) inserted(1,2) this]
  show thesis by (rule that [OF inserted(1)]) (use row in \<open>auto simp: new_row_def ban_input_def row_key_def\<close>)
qed

lemma manual_renewed:
  assumes "distinct (map arID T)" "x \<in> set T" "arSource x \<noteq> SourceManual"
  shows "filter (\<lambda>r. arSource r = SourceManual) (map (\<lambda>r. if arID r = arID x then renew_ban now reason until r else r) T) =
    filter (\<lambda>r. arSource r = SourceManual) T"
proof -
  have "y = x" if "y \<in> set T" "arID y = arID x" for y using that assms(1,2) by (metis distinct_map inj_on_eq_iff)
  then have "\<forall>y \<in> set T. arID y = arID x \<longrightarrow> arSource y \<noteq> SourceManual" using assms(3) by auto
  then show ?thesis by (induction T) (auto simp: renew_ban_def)
qed

text \<open>
  C21: an operator's decision outranks the engine's. An automatic ban changes no manual rule, whatever fails; where the operator already
  denies the network the table stays as it is, and otherwise a ban reported as written is in the table, enabled and with the end asked for.
\<close>

theorem auto_ban_respects_operator:
  assumes "reachable_table T" "UpsertAutoBan db (\<lambda>T. T) ident cidr reason until T = (T', res)"
  shows "filter (\<lambda>r. arSource r = SourceManual) T' = filter (\<lambda>r. arSource r = SourceManual) T \<and>
    (case res of Inl _ \<Rightarrow> True
     | Inr (r, _) \<Rightarrow> r \<in> set T' \<and> (if arSource r = SourceManual then T' = T else arExpiresAt r = Some until \<and> arEnabled r))"
proof -
  note wf = reachable_table_wf [OF assms(1)]
  have ids: "distinct (map arID T)" using wf by (simp add: table_wf_def)
  from assms(2) show ?thesis
  proof (cases rule: UpsertAutoBan_cases)
    case same
    then show ?thesis by (auto split: sum.split)
  next
    case (renewed s f x)
    have manual: "filter (\<lambda>r. arSource r = SourceManual) T' = filter (\<lambda>r. arSource r = SourceManual) T"
      unfolding renewed(5) by (rule manual_renewed [OF ids renewed(2,4)])
    have "r \<in> set T' \<and> arSource r \<noteq> SourceManual \<and> arExpiresAt r = Some until \<and> arEnabled r" if "Get db (arID x) T' = Inr r" for r
      using renewed_row [OF wf renewed(2,5) that] renewed(4) by (simp add: renew_ban_def)
    then show ?thesis using manual by (cases "Get db (arID x) T'") (simp_all add: renewed(6))
  next
    case (inserted s f)
    have T': "T' = T @ [new_row db ident s f (ban_input cidr reason until)]" using inserted(2) by (simp add: insert_row_def split: if_splits)
    then show ?thesis
      using inserted_row [OF wf inserted(1,2)] by (cases "Get db ident T'") (auto simp: inserted(3) new_row_def ban_input_def)
  qed
qed

theorem auto_ban_respects_operator_witness:
  "let (T', res) = UpsertAutoBan sample_db (\<lambda>T. T) ''c'' ''1.2.3.0/24'' ''guessing'' 9 sample_table;
       (T'', res') = UpsertAutoBan sample_db (\<lambda>T. T) ''c'' ''9.9.9.9'' ''guessing'' 9 sample_table
   in T' = sample_table \<and> length T'' = 2 \<and> map arExpiresAt T'' = [None, Some 9] \<and>
      filter (\<lambda>r. arSource r = SourceManual) T'' = filter (\<lambda>r. arSource r = SourceManual) sample_table"
proof -
  obtain T' res T'' res' where u: "UpsertAutoBan sample_db (\<lambda>T. T) ''c'' ''1.2.3.0/24'' ''guessing'' 9 sample_table = (T', res)"
      "UpsertAutoBan sample_db (\<lambda>T. T) ''c'' ''9.9.9.9'' ''guessing'' 9 sample_table = (T'', res')" by (metis surj_pair)
  have "map_sum id (\<lambda>rb. arSource (fst rb)) (snd (UpsertAutoBan sample_db (\<lambda>T. T) ''c'' ''1.2.3.0/24'' ''guessing'' 9 sample_table)) = Inr SourceManual"
    "length (fst (UpsertAutoBan sample_db (\<lambda>T. T) ''c'' ''9.9.9.9'' ''guessing'' 9 sample_table)) = 2"
    "map arExpiresAt (fst (UpsertAutoBan sample_db (\<lambda>T. T) ''c'' ''9.9.9.9'' ''guessing'' 9 sample_table)) = [None, Some 9]"
    by code_simp+
  then show ?thesis
    using auto_ban_respects_operator [OF reachable_sample_table u(1)] auto_ban_respects_operator [OF reachable_sample_table u(2)]
    by (auto simp: u map_sum_Inr_iff split: sum.splits)
qed

section \<open>From the failure to the refusal\<close>

lemma BanCIDR_is_network_text:
  assumes "length a = 4 \<or> length a = 16"
  shows "\<exists>n. network_wf n \<and> BanCIDR a = IPNet_String n"
proof (cases "To4 a")
  case (Some v)
  have v: "length v = 4" by (rule length_To4 [OF Some])
  have one: "simpleMaskLength (CIDRMask 32 32) = Some 32" "length (CIDRMask 32 32) = 4" "nat_digits 32 = ''32''" by code_simp+
  have full: "masked v (CIDRMask 32 32) = v"
  proof -
    have "CIDRMask 32 32 = [-1, -1, -1, -1]" by code_simp
    then show ?thesis using v by (auto simp: length_Suc_conv eval_nat_numeral)
  qed
  have "network_wf \<lparr>nIP = v, nMask = CIDRMask 32 32\<rparr>" unfolding network_wf_def using v full by (intro exI [of _ 32] conjI) auto
  moreover have "IPNet_String \<lparr>nIP = v, nMask = CIDRMask 32 32\<rparr> = IP_String v @ ''/32''"
    using v one by (auto simp: IPNet_String_def networkNumberAndMask_def To4_def)
  moreover have "a \<noteq> []" using assms by auto
  ultimately show ?thesis using Some by (intro exI [of _ "\<lparr>nIP = v, nMask = CIDRMask 32 32\<rparr>"]) (simp add: BanCIDR_def)
next
  case None
  then have len: "length a = 16" "a \<noteq> []" using assms by auto
  let ?x = "IP_Mask a (CIDRMask 64 128)"
  note x = slash_64_plain [OF len(1)]
  have six: "simpleMaskLength (CIDRMask 64 128) = Some 64" "length (CIDRMask 64 128) = 16" "nat_digits 64 = ''64''" by code_simp+
  have "masked ?x (CIDRMask 64 128) = ?x" using IP_Mask_shapes(3) [OF len(1), of 64] IP_Mask_shapes(3) [OF x(1), of 64] by simp
  then have "network_wf \<lparr>nIP = ?x, nMask = CIDRMask 64 128\<rparr>" unfolding network_wf_def using x by (intro exI [of _ 64] exI [of _ 128] conjI) auto
  moreover have "IPNet_String \<lparr>nIP = ?x, nMask = CIDRMask 64 128\<rparr> = IP_String ?x @ ''/64''"
    using x six by (auto simp: IPNet_String_def networkNumberAndMask_def)
  ultimately show ?thesis using None len by (intro exI [of _ "\<lparr>nIP = ?x, nMask = CIDRMask 64 128\<rparr>"]) (simp add: BanCIDR_def)
qed

lemma BanCIDR_normalized:
  assumes "length a = 4 \<or> length a = 16" "NormalizeCIDR (BanCIDR a) = Inr (s, f)" "ParseCIDR (BanCIDR a) = Some n"
  shows "\<exists>m. ParseCIDR s = Some m \<and> (\<forall>b. Contains m b \<longleftrightarrow> Contains n b)"
proof -
  obtain k where k: "network_wf k" "BanCIDR a = IPNet_String k" using BanCIDR_is_network_text [OF assms(1)] by blast
  have "typed_network (strip_decorations (trim_space (BanCIDR a))) = ParseCIDR (BanCIDR a)"
    unfolding k(2) using IPNet_String_clean [OF k(1)] by (simp add: typed_network_def)
  then show ?thesis using NormalizeCIDR_facts [OF assms(2)] assms(3) by auto
qed

text \<open>The engine on top of the store: what the engine sees of it, and a failure with its effect on the table.\<close>

definition store_env :: "rule_db \<Rightarrow> ban_store option \<Rightarrow> string \<Rightarrow> string \<Rightarrow> gotime \<Rightarrow> rules_table \<Rightarrow> ban_env" where
  "store_env db shared ident reason now T =
     \<lparr>nvShared = shared,
      nvUpsert = (\<lambda>cidr until. case snd (UpsertAutoBan db (\<lambda>T. T) ident cidr reason until T) of Inr (r, _) \<Rightarrow> Some r | Inl _ \<Rightarrow> None),
      nvAvailable = dbAvailable db,
      nvLoad = (\<lambda>cidr until. case LoadActive db now (fst (UpsertAutoBan db (\<lambda>T. T) ident cidr reason until T)) of Inr rs \<Rightarrow> Some rs | Inl _ \<Rightarrow> None)\<rparr>"

definition record_failure ::
  "rule_db \<Rightarrow> ban_store option \<Rightarrow> string \<Rightarrow> client_address \<Rightarrow> string \<Rightarrow> gotime \<Rightarrow> rules_table \<times> ban_engine \<Rightarrow> (rules_table \<times> ban_engine) \<times> ban_outcome" where
  "record_failure db shared ident addr reason now s =
     (case s of (T, e) \<Rightarrow> case RecordFailure (store_env db shared ident reason now T) addr reason now e of
        (e', out, asked, _) \<Rightarrow>
          ((case asked of Some (cidr, until) \<Rightarrow> fst (UpsertAutoBan db (\<lambda>T. T) ident cidr reason until T) | None \<Rightarrow> T, e'), out))"

lemma enforced_ban:
  assumes "RecordFailure (store_env db shared ident reason now T) addr reason now e = (e', out, asked, alert)" "boEnforced out"
  obtains r b where "asked = Some (BanCIDR (caIP addr), boUntil out)" "arSource r \<noteq> SourceManual"
    "snd (UpsertAutoBan db (\<lambda>T. T) ident (BanCIDR (caIP addr)) reason (boUntil out) T) = Inr (r, b)"
    "beRegistry e' = Refresh (dbAvailable db)
       (nvLoad (store_env db shared ident reason now T) (BanCIDR (caIP addr)) (boUntil out)) now (beRegistry e)"
proof -
  let ?p = "ppAutoBan (irPolicy (beRegistry e))"
  obtain cs failures bans already where c: "charge shared now (BanCIDR (caIP addr)) ?p now (beCounters e) = (cs, failures, bans, already)"
    by (metis prod_cases4)
  have shared: "nvShared (store_env db shared ident reason now T) = shared" by (simp add: store_env_def)
  have "\<exists>r b. asked = Some (BanCIDR (caIP addr), boUntil out) \<and> arSource r \<noteq> SourceManual \<and>
    snd (UpsertAutoBan db (\<lambda>T. T) ident (BanCIDR (caIP addr)) reason (boUntil out) T) = Inr (r, b) \<and>
    beRegistry e' = Refresh (nvAvailable (store_env db shared ident reason now T))
       (nvLoad (store_env db shared ident reason now T) (BanCIDR (caIP addr)) (boUntil out)) now (beRegistry e)"
    using assms
    by (auto simp: RecordFailure_def Let_def c shared noOutcome_def store_env_def split: if_splits option.splits prod.splits sum.splits)
  then show thesis using that by (auto simp: store_env_def)
qed

lemma Active_loaded:
  assumes "set (dbOrder db (filter (\<lambda>r. Active r now) T)) = set (filter (\<lambda>r. Active r now) T)" "dbAvailable db" "dbOk db SqlLoad"
  obtains rs where "LoadActive db now T = Inr rs" "set rs = {r \<in> set T. Active r now}"
proof -
  show thesis by (rule that) (use assms in \<open>simp_all add: LoadActive_def Active_def\<close>)
qed

lemma refused_by_table:
  assumes "table_wf T" "length (caIP addr) = 4 \<or> length (caIP addr) = 16" "set rs = {r \<in> set T. Active r now}"
  shows "Allowed (snd (Evaluate True addr (Refresh True (Some rs) now r))) \<longleftrightarrow>
    \<not> (caTrusted addr \<and> \<not> LocalOperator addr \<and> protected_match (irProtected r) (caIP addr) = None \<and>
      (\<forall>x \<in> set T. \<not> applies EffectAllow now (caIP addr) x) \<and> ((\<exists>x \<in> set T. applies EffectDeny now (caIP addr) x) \<or> ppLockdown (irPolicy r)))"
proof -
  have "list_all stored_wf rs" using assms(1,3) row_wf_network(1) by (auto simp: table_wf_def list_all_iff)
  from refused_iff [OF this assms(2), of now r] show ?thesis using assms(3) by (auto simp: applies_def)
qed

text \<open>
  C12: a ban reaches the requests. When a failure is reported as enforced, the very next request from any address of the banned network is
  refused (unless the address is the host itself, protected, not believed, or covered by an allow rule), while every address outside the
  network is treated as it would have been without the ban.
\<close>

theorem ban_takes_effect:
  assumes "reachable_table T" "record_failure db shared ident addr reason now (T, e) = ((T', e'), out)" "boEnforced out" "now < boUntil out"
    and "length (caIP addr) = 4 \<or> length (caIP addr) = 16" "length (caIP c) = 4 \<or> length (caIP c) = 16"
    and "\<And>rs. set (dbOrder db rs) = set rs" "dbOk db SqlLoad"
  shows "\<exists>n. ParseCIDR (BanCIDR (caIP addr)) = Some n \<and> Contains n (caIP addr) \<and>
    (Allowed (snd (Evaluate True c (beRegistry e'))) \<longleftrightarrow>
     (if Contains n (caIP c)
      then \<not> caTrusted c \<or> LocalOperator c \<or> protected_match (irProtected (beRegistry e)) (caIP c) \<noteq> None \<or> (\<exists>x \<in> set T. applies EffectAllow now (caIP c) x)
      else Allowed (snd (Evaluate True c (Refresh True (Some (filter (\<lambda>r. Active r now) T)) now (beRegistry e))))))"
proof -
  note wf = reachable_table_wf [OF assms(1)]
  obtain asked alert where run: "RecordFailure (store_env db shared ident reason now T) addr reason now e = (e', out, asked, alert)"
    "T' = (case asked of Some (cidr, until) \<Rightarrow> fst (UpsertAutoBan db (\<lambda>T. T) ident cidr reason until T) | None \<Rightarrow> T)"
    using assms(2) by (auto simp: record_failure_def split: prod.splits)
  obtain r b where ban: "asked = Some (BanCIDR (caIP addr), boUntil out)" "arSource r \<noteq> SourceManual"
    "snd (UpsertAutoBan db (\<lambda>T. T) ident (BanCIDR (caIP addr)) reason (boUntil out) T) = Inr (r, b)"
    "beRegistry e' = Refresh (dbAvailable db) (nvLoad (store_env db shared ident reason now T) (BanCIDR (caIP addr)) (boUntil out)) now (beRegistry e)"
    using enforced_ban [OF run(1) assms(3)] .
  have ups: "UpsertAutoBan db (\<lambda>T. T) ident (BanCIDR (caIP addr)) reason (boUntil out) T = (T', Inr (r, b))"
    using ban(1,3) run(2) by (simp add: prod_eq_iff)
  have av: "dbAvailable db" using ups by (auto simp: UpsertAutoBan_def split: if_splits)
  obtain s f where w: "NormalizeCIDR (BanCIDR (caIP addr)) = Inr (s, f)" "r \<in> set T'" "row_key r = (EffectDeny, s)" "arExpiresAt r = Some (boUntil out)"
    "arEnabled r" "\<forall>x. row_key x \<noteq> (EffectDeny, s) \<longrightarrow> (x \<in> set T' \<longleftrightarrow> x \<in> set T)"
    using UpsertAutoBan_writes [OF wf ups ban(2)] .
  obtain n where n: "ParseCIDR (BanCIDR (caIP addr)) = Some n" "Contains n (caIP addr)" using BanCIDR_network [OF assms(5)] by blast
  obtain m where m: "ParseCIDR s = Some m" "\<And>a. Contains m a \<longleftrightarrow> Contains n a" using BanCIDR_normalized [OF assms(5) w(1) n(1)] by blast
  have allow: "(\<exists>x \<in> set T'. applies EffectAllow now a x) \<longleftrightarrow> (\<exists>x \<in> set T. applies EffectAllow now a x)" for a
    using w(6) by (auto simp: applies_def row_key_def)
  have deny: "(\<exists>x \<in> set T'. applies EffectDeny now a x) \<longleftrightarrow> Contains n a \<or> (\<exists>x \<in> set T. applies EffectDeny now a x)" for a
  proof (cases "Contains n a")
    case True
    then have "applies EffectDeny now a r" using w(3-5) m assms(4) by (simp add: applies_def Active_def row_key_def)
    then show ?thesis using w(2) True by blast
  next
    case False
    then have "\<not> applies EffectDeny now a x" if "row_key x = (EffectDeny, s)" for x using that m by (simp add: applies_def row_key_def)
    then show ?thesis using w(6) False by blast
  qed
  have wf': "table_wf T'" using UpsertAutoBan_wf [OF wf, of "\<lambda>T. T"] wf ups by (metis fst_conv)
  obtain rs where rs: "LoadActive db now T' = Inr rs" "set rs = {x \<in> set T'. Active x now}" using Active_loaded [OF assms(7) av assms(8)] .
  have reg: "beRegistry e' = Refresh True (Some rs) now (beRegistry e)" using ban(4) rs(1) ups by (simp add: store_env_def av)
  have old: "set (filter (\<lambda>r. Active r now) T) = {x \<in> set T. Active x now}" by auto
  show ?thesis
    using n refused_by_table [OF wf' assms(6) rs(2), of "beRegistry e"] refused_by_table [OF wf assms(6) old, of "beRegistry e"] allow [of "caIP c"] deny [of "caIP c"]
    by (intro exI [of _ n]) (auto simp: reg)
qed

theorem ban_takes_effect_witness:
  "let ((T', e'), out) = record_failure sample_db None ''x'' office ''guessing'' 0 ([], sample_engine)
   in boEnforced out \<and> \<not> Allowed (snd (Evaluate True office (beRegistry e'))) \<and>
      Allowed (snd (Evaluate True (office\<lparr>caIP := [5, 6, 7, 8]\<rparr>) (beRegistry e')))"
proof -
  let ?r = "record_failure sample_db None ''x'' office ''guessing'' 0 ([], sample_engine)"
  obtain T' e' out where r: "?r = ((T', e'), out)" by (metis surj_pair)
  have "boEnforced (snd ?r)" "boUntil (snd ?r) = 60 * minute" "0 < minute" "BanCIDR (caIP office) = ''1.2.3.4/32''" by code_simp+
  then have out: "boEnforced out" "0 < boUntil out" by (simp_all add: r)
  have net: "ParseCIDR ''1.2.3.4/32'' = Some \<lparr>nIP = [1, 2, 3, 4], nMask = [255, 255, 255, 255]\<rparr>" "BanCIDR (caIP office) = ''1.2.3.4/32''"
    "\<not> Contains \<lparr>nIP = [1, 2, 3, 4], nMask = [255, 255, 255, 255]\<rparr> [5, 6, 7, 8]"
    "caTrusted office" "\<not> LocalOperator office" "caIP office = [1, 2, 3, 4]" "protected_match (irProtected (beRegistry sample_engine)) [1, 2, 3, 4] = None"
    "Allowed (snd (Evaluate True (office\<lparr>caIP := [5, 6, 7, 8]\<rparr>) (Refresh True (Some []) 0 (beRegistry sample_engine))))"
    by code_simp+
  note effect = ban_takes_effect [OF reachable_table.empty r out _ _ sample_db_facts(1,2)]
  have "\<not> Allowed (snd (Evaluate True office (beRegistry e')))" using effect [of office] net by auto
  moreover have "Allowed (snd (Evaluate True (office\<lparr>caIP := [5, 6, 7, 8]\<rparr>) (beRegistry e')))" using effect [of "office\<lparr>caIP := [5, 6, 7, 8]\<rparr>"] net by auto
  ultimately show ?thesis using out by (simp add: r)
qed

section \<open>The purge\<close>

text \<open>Purging lapsed automatic bans changes no verdict and no manual rule.\<close>

lemma PurgeExpiredAuto_invisible:
  assumes "cutoff \<le> now" "PurgeExpiredAuto db cutoff T = (T', res)"
  shows "filter (\<lambda>r. Active r now) T' = filter (\<lambda>r. Active r now) T" "filter (\<lambda>r. arSource r = SourceManual) T' = filter (\<lambda>r. arSource r = SourceManual) T"
proof -
  let ?keep = "\<lambda>r. \<not> (arSource r = SourceAuto \<and> (case arExpiresAt r of None \<Rightarrow> False | Some t \<Rightarrow> t < cutoff))"
  have T': "T' = T \<or> T' = filter ?keep T" using assms(2) by (simp add: PurgeExpiredAuto_def Let_def split: if_splits)
  have sub: "filter P (filter ?keep T) = filter P T" if "\<And>r. P r \<Longrightarrow> ?keep r" for P by (induction T) (use that in auto)
  have "?keep r" if "Active r now" for r using that assms(1) by (auto simp: Active_def split: option.splits)
  then have "filter (\<lambda>r. Active r now) (filter ?keep T) = filter (\<lambda>r. Active r now) T" by (rule sub)
  with T' show "filter (\<lambda>r. Active r now) T' = filter (\<lambda>r. Active r now) T" by (elim disjE) (simp_all only:)
  show "filter (\<lambda>r. arSource r = SourceManual) T' = filter (\<lambda>r. arSource r = SourceManual) T"
    using T' sub [of "\<lambda>r. arSource r = SourceManual"] by auto
qed

end
