(* ===== verification/IP_Admin.thy ===== *)
theory IP_Admin
  imports Rule_Store
begin

text \<open>
  The management requests that change the access rules and their policy (\<^verbatim>\<open>src/internal/api/handlers/management/ip_access.go\<close>,
  \<^verbatim>\<open>ip_access_bulk.go\<close> and \<^verbatim>\<open>PutIPAccessPolicy\<close> of \<^verbatim>\<open>ip_access_events.go\<close>). The body of a request is decoded already; \<open>parse_time\<close> reads an RFC 3339 instant, and \<open>requester\<close> is
  the address of the operator (\<^verbatim>\<open>AddressFor\<close>). A missing registry is not modelled. The state is the table and the registry of this process.
\<close>

datatype bad_request =
  BadEffect rule_error | BadTime | CoversProtected protected_entry | BadCIDR rule_error | DeniesRequester | NotStored store_error | NoIDs | TooManyIDs

datatype reply =
  BadRequest bad_request | Conflict | NotFound | InternalError store_error | Created access_rule bool | Updated access_rule | NoContent
  | BulkDone "string list" "(string, store_error) gomap"

definition refresh_from :: "rule_db \<Rightarrow> gotime \<Rightarrow> rules_table \<Rightarrow> access_registry \<Rightarrow> access_registry" where
  "refresh_from db now T r = Refresh (dbAvailable db) (case LoadActive db now T of Inr rs \<Rightarrow> Some rs | Inl _ \<Rightarrow> None) now r"

definition coversProtectedAddress :: "access_registry \<Rightarrow> string \<Rightarrow> protected_entry option" where
  "coversProtectedAddress reg cidr =
     (case NormalizeCIDR cidr of
        Inl _ \<Rightarrow> None
      | Inr (normalized, _) \<Rightarrow>
          (case ParseCIDR normalized of
             None \<Rightarrow> None
           | Some network \<Rightarrow>
               List.find (\<lambda>e. case ParseIPForMatch (takeWhile (\<lambda>c. c \<noteq> CHR ''/'') (peCIDR e)) of Some a \<Rightarrow> Contains network a | None \<Rightarrow> False)
                 (irProtected reg)))"

definition selfDenyCheck :: "client_address \<Rightarrow> gotime \<Rightarrow> string \<Rightarrow> rule_error + bool" where
  "selfDenyCheck requester now cidr =
     (case NormalizeCIDR cidr of
        Inl e \<Rightarrow> Inl e
      | Inr (normalized, _) \<Rightarrow>
          Inr (if caIP requester = [] \<or> \<not> caTrusted requester then False
               else let candidate = \<lparr>arID = '''', arCIDR = normalized, arFamily = 0, arEffect = EffectDeny, arSource = '''', arReason = '''', arNote = '''',
                                     arEnabled = True, arExpiresAt = None, arCreatedBy = '''', arCreatedAt = 0, arUpdatedAt = 0, arHitCount = 0,
                                     arLastHitAt = None\<rparr>
                    in fst (Match (NewMatcher [candidate] False now) (caIP requester)) = DecisionDeny))"

record rule_body =
  rbCIDR :: string
  rbEffect :: string
  rbNote :: string
  rbReason :: string
  rbExpiresAt :: string

definition rule_input :: "string \<Rightarrow> string \<Rightarrow> gotime option \<Rightarrow> rule_body \<Rightarrow> create_input" where
  "rule_input effect user expires body =
     \<lparr>ciCIDR = rbCIDR body, ciEffect = effect, ciSource = SourceManual, ciReason = rbReason body, ciNote = rbNote body, ciExpiresAt = expires,
      ciCreatedBy = user\<rparr>"

definition store_rule :: "rule_db \<Rightarrow> gotime \<Rightarrow> string \<Rightarrow> create_input \<Rightarrow> rules_table \<times> access_registry \<Rightarrow> (rules_table \<times> access_registry) \<times> reply" where
  "store_rule db now ident inp s =
     (case s of (T, reg) \<Rightarrow>
        case Create db ident inp T of
          (T', Inl ErrDuplicateRule) \<Rightarrow> ((T', reg), Conflict)
        | (T', Inl e) \<Rightarrow> ((T', reg), BadRequest (NotStored e))
        | (T', Inr rule) \<Rightarrow>
            ((T', refresh_from db now T' reg), Created rule (case LoadActive db now T' of Inl _ \<Rightarrow> dbAvailable db | Inr _ \<Rightarrow> False)))"

definition PostIPAccessRule ::
  "rule_db \<Rightarrow> (string \<Rightarrow> gotime option) \<Rightarrow> client_address \<Rightarrow> string \<Rightarrow> gotime \<Rightarrow> string \<Rightarrow> rule_body \<Rightarrow> rules_table \<times> access_registry \<Rightarrow>
     (rules_table \<times> access_registry) \<times> reply" where
  "PostIPAccessRule db parse_time requester user now ident body s =
     (case ParseEffect (rbEffect body) of
        Inl e \<Rightarrow> (s, BadRequest (BadEffect e))
      | Inr effect \<Rightarrow>
          let trimmed = trim_space (rbExpiresAt body); expires = (if trimmed = '''' then None else parse_time trimmed)
          in if trimmed \<noteq> '''' \<and> expires = None then (s, BadRequest BadTime)
             else if effect = EffectDeny
             then (case coversProtectedAddress (snd s) (rbCIDR body) of
                     Some e \<Rightarrow> (s, BadRequest (CoversProtected e))
                   | None \<Rightarrow>
                       (case selfDenyCheck requester now (rbCIDR body) of
                          Inl e \<Rightarrow> (s, BadRequest (BadCIDR e))
                        | Inr True \<Rightarrow> (s, BadRequest DeniesRequester)
                        | Inr False \<Rightarrow> store_rule db now ident (rule_input effect user expires body) s))
             else store_rule db now ident (rule_input effect user expires body) s)"

text \<open>The optional fields of a change; an empty end clears it.\<close>

definition update_of :: "(string \<Rightarrow> gotime option) \<Rightarrow> bool option \<Rightarrow> string option \<Rightarrow> string option \<Rightarrow> update_input option" where
  "update_of parse_time enabled note expires =
     (let base = \<lparr>uiEnabled = enabled, uiNote = note, uiExpiresAt = None, uiClearExpires = False\<rparr>
      in case expires of
           None \<Rightarrow> Some base
         | Some t \<Rightarrow>
             if trim_space t = '''' then Some (base\<lparr>uiClearExpires := True\<rparr>)
             else (case parse_time t of None \<Rightarrow> None | Some e \<Rightarrow> Some (base\<lparr>uiExpiresAt := Some e\<rparr>)))"

definition PatchIPAccessRule ::
  "rule_db \<Rightarrow> (string \<Rightarrow> gotime option) \<Rightarrow> gotime \<Rightarrow> string \<Rightarrow> bool option \<Rightarrow> string option \<Rightarrow> string option \<Rightarrow> rules_table \<times> access_registry \<Rightarrow>
     (rules_table \<times> access_registry) \<times> reply" where
  "PatchIPAccessRule db parse_time now ident enabled note expires s =
     (case update_of parse_time enabled note expires of
        None \<Rightarrow> (s, BadRequest BadTime)
      | Some inp \<Rightarrow>
          (case Update db ident inp (fst s) of
             (T', Inl ErrRuleNotFound) \<Rightarrow> ((T', snd s), NotFound)
           | (T', Inl e) \<Rightarrow> ((T', snd s), InternalError e)
           | (T', Inr rule) \<Rightarrow> ((T', refresh_from db now T' (snd s)), Updated rule)))"

definition DeleteIPAccessRule :: "rule_db \<Rightarrow> gotime \<Rightarrow> string \<Rightarrow> rules_table \<times> access_registry \<Rightarrow> (rules_table \<times> access_registry) \<times> reply" where
  "DeleteIPAccessRule db now ident s =
     (case Delete db ident (fst s) of
        (T', Some ErrRuleNotFound) \<Rightarrow> ((T', snd s), NotFound)
      | (T', Some e) \<Rightarrow> ((T', snd s), InternalError e)
      | (T', None) \<Rightarrow> ((T', refresh_from db now T' (snd s)), NoContent))"

definition maxBulkRuleIDs :: nat where "maxBulkRuleIDs = 200"

fun bulk_loop ::
  "rule_db \<Rightarrow> bool \<Rightarrow> update_input \<Rightarrow> string list \<Rightarrow> rules_table \<Rightarrow> string list \<Rightarrow> (string, store_error) gomap \<Rightarrow>
     rules_table \<times> string list \<times> (string, store_error) gomap" where
  "bulk_loop db del inp [] T applied failed = (T, applied, failed)"
| "bulk_loop db del inp (raw # ids) T applied failed =
     (let ident = trim_space raw
      in if ident = '''' then bulk_loop db del inp ids T applied failed
         else let (T', err) = (if del then Delete db ident T
                               else case Update db ident inp T of (T', Inl e) \<Rightarrow> (T', Some e) | (T', Inr _) \<Rightarrow> (T', None))
              in case err of
                   Some e \<Rightarrow> bulk_loop db del inp ids T' applied (map_put ident e failed)
                 | None \<Rightarrow> bulk_loop db del inp ids T' (applied @ [ident]) failed)"

definition PatchIPAccessRulesBulk ::
  "rule_db \<Rightarrow> (string \<Rightarrow> gotime option) \<Rightarrow> gotime \<Rightarrow> string list \<Rightarrow> bool \<Rightarrow> bool option \<Rightarrow> string option \<Rightarrow> string option \<Rightarrow> rules_table \<times> access_registry \<Rightarrow>
     (rules_table \<times> access_registry) \<times> reply" where
  "PatchIPAccessRulesBulk db parse_time now ids del enabled note expires s =
     (if ids = [] then (s, BadRequest NoIDs)
      else if maxBulkRuleIDs < length ids then (s, BadRequest TooManyIDs)
      else case update_of parse_time enabled note expires of
             None \<Rightarrow> (s, BadRequest BadTime)
           | Some inp \<Rightarrow>
               (case bulk_loop db del inp ids (fst s) [] [] of
                  (T', applied, failed) \<Rightarrow>
                    ((T', if applied \<noteq> [] then refresh_from db now T' (snd s) else snd s), BulkDone applied failed)))"

datatype policy_reply = PolicySaved | PolicyRefused string | PolicyNotSaved

text \<open>\<open>save\<close> is the persister, if there is one. The throttle settings that the handler passes on to the login throttle are not followed.\<close>

definition PutIPAccessPolicy ::
  "rule_db \<Rightarrow> (protection_policy \<Rightarrow> bool) option \<Rightarrow> client_address \<Rightarrow> gotime \<Rightarrow> protection_policy \<Rightarrow> rules_table \<times> access_registry \<Rightarrow>
     (rules_table \<times> access_registry) \<times> policy_reply" where
  "PutIPAccessPolicy db save requester now body s =
     (case s of (T, reg) \<Rightarrow>
        if ppLockdown body \<and> \<not> ppLockdown (irPolicy reg) \<and> \<not> caTrusted requester \<and> \<not> Loopback requester
        then (s, PolicyRefused ''untrusted'')
        else if ppLockdown body \<and> \<not> ppLockdown (irPolicy reg) \<and> \<not> Loopback requester \<and> \<not> AllowsAddress (irMatcher reg) (caIP requester)
        then (s, PolicyRefused ''lockout'')
        else case UpdatePolicy save (dbAvailable db) (case LoadActive db now T of Inr rs \<Rightarrow> Some rs | Inl _ \<Rightarrow> None) now body reg of
               (reg', ok) \<Rightarrow> ((T, reg'), if ok then PolicySaved else PolicyNotSaved))"

section \<open>An operator cannot shut himself out\<close>

lemma selfDenyCheck_covers:
  assumes "selfDenyCheck requester now cidr = Inr b" "caTrusted requester" "length (caIP requester) = 4 \<or> length (caIP requester) = 16"
  obtains s f n where "NormalizeCIDR cidr = Inr (s, f)" "ParseCIDR s = Some n" "b \<longleftrightarrow> Contains n (caIP requester)"
proof -
  obtain s f where n: "NormalizeCIDR cidr = Inr (s, f)" using assms(1) by (auto simp: selfDenyCheck_def split: sum.splits)
  obtain m where m: "ParseCIDR s = Some m" "squash m = m" using NormalizeCIDR_facts [OF n] by auto
  let ?c = "\<lparr>arID = '''', arCIDR = s, arFamily = 0, arEffect = EffectDeny, arSource = '''', arReason = '''', arNote = '''', arEnabled = True,
    arExpiresAt = None, arCreatedBy = '''', arCreatedAt = 0, arUpdatedAt = 0, arHitCount = 0, arLastHitAt = None\<rparr>"
  have "list_all stored_wf [?c]" using m by (simp add: stored_wf_def)
  from Match_reference [OF this assms(3), of False now]
  have "fst (Match (NewMatcher [?c] False now) (caIP requester)) = DecisionDeny \<longleftrightarrow> Contains m (caIP requester)"
    using m by (simp add: reference_verdict_def most_specific_def applies_def Active_def)
  moreover have "caIP requester \<noteq> []" using assms(3) by auto
  ultimately have "b \<longleftrightarrow> Contains m (caIP requester)" using assms(1,2) by (simp add: selfDenyCheck_def n Let_def)
  then show thesis by (rule that [OF n m(1)])
qed

lemma Created_row:
  assumes "store_rule db now ident inp (T, reg) = ((T', reg'), Created rule w)"
  obtains s f where "NormalizeCIDR (ciCIDR inp) = Inr (s, f)" "T' = T @ [new_row db ident s f inp]" "dbAvailable db" "reg' = refresh_from db now T' reg"
    "T' = fst (Create db ident inp T)"
proof -
  obtain U res where c: "Create db ident inp T = (U, res)" by fastforce
  have u: "res = Inr rule" "T' = U" "reg' = refresh_from db now T' reg"
    using assms by (auto simp: store_rule_def c split: sum.splits store_error.splits)
  then show thesis
    using c that by (auto simp: Create_def insert_row_def split: sum.splits if_splits)
qed

text \<open>What a posted rule that was stored went through.\<close>

lemma PostIPAccessRule_stored:
  assumes "PostIPAccessRule db parse_time requester user now ident body s = (s', Created rule w)"
  obtains effect expires where "effect \<in> {EffectAllow, EffectDeny}" "store_rule db now ident (rule_input effect user expires body) s = (s', Created rule w)"
    "effect = EffectDeny \<Longrightarrow> selfDenyCheck requester now (rbCIDR body) = Inr False \<and> coversProtectedAddress (snd s) (rbCIDR body) = None"
proof -
  obtain effect where e: "ParseEffect (rbEffect body) = Inr effect" using assms by (auto simp: PostIPAccessRule_def split: sum.splits)
  then have "effect \<in> {EffectAllow, EffectDeny}" by (auto simp: ParseEffect_def Let_def split: if_splits)
  then show thesis using assms that [of effect] e by (auto simp: PostIPAccessRule_def Let_def split: if_splits option.splits sum.splits bool.splits)
qed

text \<open>
  C22: creating a rule never shuts out the operator who creates it: a requester that the rules let in before is let in by the rules after,
  whatever the new rule says; the table stays one that the store can produce.
\<close>

theorem post_keeps_requester:
  assumes "reachable_table T" "PostIPAccessRule db parse_time requester user now ident body (T, reg) = ((T', reg'), Created rule w)"
    and "length (caIP requester) = 4 \<or> length (caIP requester) = 16" "\<And>rs. set (dbOrder db rs) = set rs" "dbOk db SqlLoad"
  shows "reachable_table T' \<and>
    (Allowed (snd (Evaluate True requester (refresh_from db now T reg))) \<longrightarrow> Allowed (snd (Evaluate True requester reg')))"
proof -
  obtain effect expires where st: "effect \<in> {EffectAllow, EffectDeny}"
      "store_rule db now ident (rule_input effect user expires body) (T, reg) = ((T', reg'), Created rule w)"
      "effect = EffectDeny \<Longrightarrow> selfDenyCheck requester now (rbCIDR body) = Inr False \<and> coversProtectedAddress reg (rbCIDR body) = None"
    using PostIPAccessRule_stored [OF assms(2)] by auto
  let ?inp = "rule_input effect user expires body"
  obtain s f where n: "NormalizeCIDR (ciCIDR ?inp) = Inr (s, f)" "T' = T @ [new_row db ident s f ?inp]" "dbAvailable db" "reg' = refresh_from db now T' reg"
      "T' = fst (Create db ident ?inp T)"
    using Created_row [OF st(2)] .
  have reach: "reachable_table T'" unfolding n(5) by (rule reachable_table.create [OF assms(1)])
  obtain rs where rs: "LoadActive db now T = Inr rs" "set rs = {x \<in> set T. Active x now}" using Active_loaded [OF assms(4) n(3) assms(5)] .
  obtain rs' where rs': "LoadActive db now T' = Inr rs'" "set rs' = {x \<in> set T'. Active x now}" using Active_loaded [OF assms(4) n(3) assms(5)] .
  have ref: "refresh_from db now T reg = Refresh True (Some rs) now reg" "reg' = Refresh True (Some rs') now reg"
    using rs(1) rs'(1) n(3,4) by (simp_all add: refresh_from_def)
  let ?row = "new_row db ident s f ?inp"
  have safe: "\<not> applies EffectDeny now (caIP requester) ?row" if trusted: "caTrusted requester"
  proof (cases "effect = EffectDeny")
    case True
    obtain s' f' m where m: "NormalizeCIDR (rbCIDR body) = Inr (s', f')" "ParseCIDR s' = Some m" "False \<longleftrightarrow> Contains m (caIP requester)"
      using selfDenyCheck_covers [OF conjunct1 [OF st(3) [OF True]] trusted assms(3)] .
    then have "s' = s" using n(1) by (simp add: rule_input_def)
    then show ?thesis using m by (simp add: applies_def new_row_def)
  next
    case False
    then show ?thesis by (simp add: applies_def new_row_def rule_input_def)
  qed
  show ?thesis
    unfolding ref using reach refused_by_table [OF reachable_table_wf [OF assms(1)] assms(3) rs(2), of reg] safe
      refused_by_table [OF reachable_table_wf [OF reach] assms(3) rs'(2), of reg]
    by (auto simp: n(2))
qed

definition sample_body :: rule_body where
  "sample_body = \<lparr>rbCIDR = ''9.0.0.0/8'', rbEffect = '' Deny'', rbNote = '''', rbReason = '''', rbExpiresAt = ''''\<rparr>"

theorem post_keeps_requester_witness:
  "Allowed (snd (Evaluate True office (snd (fst (PostIPAccessRule sample_db (\<lambda>_. None) office ''u'' 0 ''r'' sample_body ([], NewRegistry 0))))))"
proof -
  let ?p = "PostIPAccessRule sample_db (\<lambda>_. None) office ''u'' 0 ''r'' sample_body ([], NewRegistry 0)"
  have "(case snd ?p of Created _ _ \<Rightarrow> True | _ \<Rightarrow> False)" "Allowed (snd (Evaluate True office (refresh_from sample_db 0 [] (NewRegistry 0))))"
    "caIP office = [1, 2, 3, 4]" by code_simp+
  moreover obtain T' reg' rep where p: "?p = ((T', reg'), rep)" by (metis surj_pair)
  ultimately obtain rule w where c: "?p = ((T', reg'), Created rule w)" by (auto split: reply.splits)
  show ?thesis
    using post_keeps_requester [OF reachable_table.empty c] \<open>Allowed _\<close> \<open>caIP office = _\<close> by (simp add: c sample_db_facts)
qed

text \<open>The advice of the refusal, to list the own address as allowed first, does not help: the check looks at the new rule alone.\<close>

lemma self_deny_ignores_allow:
  "let reg = Refresh True (Some [sample_rule ''1.2.3.4/32'' EffectAllow]) 0 (NewRegistry 0)
   in AllowsAddress (irMatcher reg) (caIP office) \<and>
      snd (PostIPAccessRule sample_db (\<lambda>_. None) office ''u'' 0 ''r'' (sample_body\<lparr>rbCIDR := ''1.2.0.0/16''\<rparr>) ([sample_rule ''1.2.3.4/32'' EffectAllow], reg)) =
        BadRequest DeniesRequester"
  by code_simp

text \<open>
  C23: turning on lockdown does not lock the operator out. When the request is accepted, the requester is let in under the new policy, provided
  the snapshot that the check looked at still agrees with the table and a loopback address is that of a local operator or not believed.
\<close>

theorem lockdown_keeps_requester:
  assumes "reachable_table T" "PutIPAccessPolicy db save requester now body (T, reg) = ((T', reg'), PolicySaved)"
    and "ppLockdown body" "\<not> ppLockdown (irPolicy reg)" "length (caIP requester) = 4 \<or> length (caIP requester) = 16"
    and "irMatcher reg = NewMatcher rows False t" "list_all stored_wf rows" "\<And>r. r \<in> set rows \<Longrightarrow> Active r t \<Longrightarrow> r \<in> set T \<and> Active r now"
    and "Loopback requester \<Longrightarrow> LocalOperator requester \<or> \<not> caTrusted requester"
    and "\<And>rs. set (dbOrder db rs) = set rs" "dbOk db SqlLoad" "dbAvailable db"
  shows "ppLockdown (irPolicy reg') \<and> Allowed (snd (Evaluate True requester reg'))"
proof -
  obtain rs where rs: "LoadActive db now T = Inr rs" "set rs = {x \<in> set T. Active x now}" using Active_loaded [OF assms(10,12,11)] .
  let ?reg = "rebuildProxyMatcher (reg\<lparr>irPolicy := Normalized (Normalized body)\<rparr>)"
  have upd: "UpdatePolicy save True (Some rs) now body reg = (reg', True)"
    using assms(2) by (auto simp: PutIPAccessPolicy_def rs(1) assms(12) split: if_splits prod.splits)
  then have reg': "reg' = Refresh True (Some rs) now ?reg" by (auto simp: UpdatePolicy_def SetPolicy_def split: option.splits if_splits)
  have lock: "ppLockdown (irPolicy ?reg)" "irProtected ?reg = irProtected reg" using assms(3) by (simp_all add: rebuildProxyMatcher_def Normalized_def Let_def)
  have guard: "Loopback requester \<or> (caTrusted requester \<and> AllowsAddress (irMatcher reg) (caIP requester))"
    using assms(2-4) by (auto simp: PutIPAccessPolicy_def split: if_splits prod.splits)
  have "\<exists>x \<in> set T. applies EffectAllow now (caIP requester) x" if "AllowsAddress (irMatcher reg) (caIP requester)"
  proof -
    have "caIP requester \<noteq> []" using assms(5) by auto
    then have "fst (Match (irMatcher reg) (caIP requester)) = DecisionAllow" using that by (auto simp: AllowsAddress_def Match_def split: option.splits)
    then have "filter (applies EffectAllow t (caIP requester)) rows \<noteq> []"
      using Match_reference [OF assms(7,5), of False t] unfolding assms(6) by (auto simp: reference_verdict_def most_specific_def split: option.splits if_splits)
    then obtain x where "x \<in> set rows" "applies EffectAllow t (caIP requester) x" by (auto simp: filter_empty_conv)
    then show ?thesis using assms(8) by (auto simp: applies_def)
  qed
  then have "Allowed (snd (Evaluate True requester reg'))"
    using guard assms(9) refused_by_table [OF reachable_table_wf [OF assms(1)] assms(5) rs(2), of ?reg] unfolding reg' by auto
  moreover have "ppLockdown (irPolicy reg')" using lock(1) by (simp add: reg' Refresh_def)
  ultimately show ?thesis by simp
qed

definition allowing_table :: rules_table where
  "allowing_table =
     fst (Create sample_db ''a''
       \<lparr>ciCIDR = ''1.2.3.4'', ciEffect = EffectAllow, ciSource = SourceManual, ciReason = '''', ciNote = '''', ciExpiresAt = None, ciCreatedBy = ''''\<rparr> [])"

definition allowing_registry :: access_registry where
  "allowing_registry = Refresh True (Some allowing_table) 0 (NewRegistry 0)"

theorem lockdown_keeps_requester_witness:
  "let ((_, reg'), rep) = PutIPAccessPolicy sample_db None office 0 (DefaultPolicy\<lparr>ppLockdown := True\<rparr>) (allowing_table, allowing_registry)
   in rep = PolicySaved \<and> ppLockdown (irPolicy reg') \<and> Allowed (snd (Evaluate True office reg'))"
proof -
  let ?p = "PutIPAccessPolicy sample_db None office 0 (DefaultPolicy\<lparr>ppLockdown := True\<rparr>) (allowing_table, allowing_registry)"
  have reach: "reachable_table allowing_table" unfolding allowing_table_def by (intro reachable_table.intros)
  have m: "irMatcher allowing_registry = NewMatcher allowing_table False 0"
    by (simp add: allowing_registry_def Refresh_def NewRegistry_def DefaultPolicy_def)
  have wf: "list_all stored_wf allowing_table" using reachable_table_wf [OF reach] row_wf_network(1) by (auto simp: table_wf_def list_all_iff)
  have "snd ?p = PolicySaved" "\<not> Loopback office" "caIP office = [1, 2, 3, 4]" "\<not> ppLockdown (irPolicy allowing_registry)" by code_simp+
  moreover obtain T' reg' rep where p: "?p = ((T', reg'), rep)" by (metis surj_pair)
  ultimately have "?p = ((T', reg'), PolicySaved)" by simp
  from lockdown_keeps_requester [OF reach this _ _ _ m wf] show ?thesis
    using \<open>snd ?p = PolicySaved\<close> \<open>\<not> Loopback office\<close> \<open>caIP office = _\<close> \<open>\<not> ppLockdown _\<close> by (simp add: p sample_db_facts)
qed

text \<open>
  The check exempts every loopback address, admission only a connection that was not relayed: behind a local proxy that is not declared, while
  another one is, the requester is 127.0.0.1, passes the check without an allow rule, and is refused afterwards.
\<close>

lemma lockdown_guard_relayed_loopback:
  "let reg = SetConfiguredProxies [''10.0.0.1''] (NewRegistry 0);
       req = resolveForwarded \<lparr>rqRemoteAddr = ''127.0.0.1:4000'', rqHeader = [(''X-Forwarded-For'', [''1.2.3.4''])]\<rparr> (irProxyMatcher reg);
       ((_, reg'), rep) = PutIPAccessPolicy sample_db None req 0 (DefaultPolicy\<lparr>ppLockdown := True\<rparr>) ([], reg)
   in Allowed (snd (Evaluate True req reg)) \<and> rep = PolicySaved \<and> \<not> Allowed (snd (Evaluate True req reg'))"
  by code_simp

text \<open>A bulk change accounts for every identifier: each one that is not blank is reported as applied or as failed.\<close>

lemma bulk_accounts:
  "bulk_loop db del inp ids T applied failed = (T', applied', failed') \<Longrightarrow>
    set applied' \<union> fst ` set failed' = set applied \<union> fst ` set failed \<union> (trim_space ` set ids - {''''}) \<and>
    (reachable_table T \<longrightarrow> reachable_table T')"
proof (induction db del inp ids T applied failed rule: bulk_loop.induct)
  case (2 db del inp raw ids T applied failed)
  obtain U err where u: "(if del then Delete db (trim_space raw) T
      else case Update db (trim_space raw) inp T of (T', Inl e) \<Rightarrow> (T', Some e) | (T', Inr _) \<Rightarrow> (T', None)) = (U, err)" by fastforce
  have reach: "reachable_table T \<Longrightarrow> reachable_table U"
    using u reachable_table.delete [of T db "trim_space raw"] reachable_table.update [of T db "trim_space raw" inp]
    by (auto split: if_splits prod.splits sum.splits)
  show ?case
  proof (cases "trim_space raw = ''''")
    case True
    then show ?thesis using 2 by (auto simp: Let_def)
  next
    case False
    then show ?thesis using 2(2,3) [OF refl False u [symmetric] refl] 2(4) u reach by (auto simp: Let_def split: option.splits)
  qed
qed simp

end
