(* ===== verification/Login_Throttle.thy ===== *)
theory Login_Throttle
  imports Auto_Ban "HOL-Library.Word"
begin

text \<open>
  The throttle of authentication attempts (\<^verbatim>\<open>src/internal/api/handlers/management/login_throttle.go\<close>, \<^verbatim>\<open>login_throttle_policy.go\<close>,
  \<^verbatim>\<open>login_throttle_key.go\<close>, \<^verbatim>\<open>login_throttle_cluster.go\<close>, \<^verbatim>\<open>ip_access_throttle.go\<close>): failures are counted per bucket in a short and a long window; a bucket over a
  limit is blocked for a time that grows with every block.

  The store that the processes of a cluster share is an argument (\<open>throttle_store\<close>), as are the address the web framework reports and whether the
  allow list exempts the request. Instants are not negative; instant 0 is the zero time. The cleaning up of the table of shared clears
  and the log lines are left out.
\<close>

section \<open>Policies\<close>

datatype throttle_scope =
  scopeUnauthenticated | scopeManagementKey | scopeUserPassword | scopeUserAccount | scopeRefresh | scopePortalPassword | scopePortalAccount

fun scope_String :: "throttle_scope \<Rightarrow> string" where
  "scope_String scopeUnauthenticated = ''unauthenticated''"
| "scope_String scopeManagementKey = ''management_key''"
| "scope_String scopeUserPassword = ''user_password''"
| "scope_String scopeUserAccount = ''user_account''"
| "scope_String scopeRefresh = ''refresh''"
| "scope_String scopePortalPassword = ''portal_password''"
| "scope_String scopePortalAccount = ''portal_account''"

datatype throttle_outcome = outcomeAllow | outcomeRateLimited | outcomeBlocked

record throttle_decision =
  tdOutcome :: throttle_outcome
  tdRetryAfter :: duration
  tdScope :: throttle_scope
  tdGeneration :: int
  tdShortCount :: int
  tdLongCount :: int
  tdNewlyArmed :: bool

record throttle_window =
  twLimit :: int
  twWindow :: duration

record throttle_policy =
  tpShort :: throttle_window
  tpLong :: throttle_window
  tpBackoff :: "duration list"
  tpResetAfter :: duration
  tpHardBlock :: bool

abbreviation noWindow :: throttle_window where "noWindow \<equiv> \<lparr>twLimit = 0, twWindow = 0\<rparr>"

definition zeroPolicy :: throttle_policy where
  "zeroPolicy = \<lparr>tpShort = noWindow, tpLong = noWindow, tpBackoff = [], tpResetAfter = 0, tpHardBlock = False\<rparr>"

definition defaultLoginFailureWindow :: duration where "defaultLoginFailureWindow = 15 * minute"
definition defaultAccountFailureLimit :: int where "defaultAccountFailureLimit = 5"
definition defaultManagementKeyFailureLimit :: int where "defaultManagementKeyFailureLimit = 10"
definition defaultUnauthenticatedLimit :: int where "defaultUnauthenticatedLimit = 300"
definition defaultFailureResetAfter :: duration where "defaultFailureResetAfter = 12 * hour"

type_synonym throttle_policies = "(throttle_scope, throttle_policy) gomap"

definition defaultThrottlePolicies :: throttle_policies where
  "defaultThrottlePolicies =
     (let day = \<lparr>twLimit = 100, twWindow = 24 * hour\<rparr>;
          password = \<lparr>tpShort = \<lparr>twLimit = 20, twWindow = defaultLoginFailureWindow\<rparr>, tpLong = day,
                      tpBackoff = [minute, 5 * minute, 15 * minute], tpResetAfter = defaultFailureResetAfter, tpHardBlock = False\<rparr>;
          account = \<lparr>tpShort = \<lparr>twLimit = defaultAccountFailureLimit, twWindow = defaultLoginFailureWindow\<rparr>,
                     tpLong = \<lparr>twLimit = 50, twWindow = 24 * hour\<rparr>,
                     tpBackoff = [minute, 5 * minute, 15 * minute, 30 * minute, 60 * minute], tpResetAfter = defaultFailureResetAfter, tpHardBlock = False\<rparr>
      in [(scopeUnauthenticated, \<lparr>tpShort = \<lparr>twLimit = defaultUnauthenticatedLimit, twWindow = hour\<rparr>, tpLong = noWindow,
             tpBackoff = [minute, 5 * minute], tpResetAfter = 2 * hour, tpHardBlock = False\<rparr>),
          (scopeManagementKey, \<lparr>tpShort = \<lparr>twLimit = defaultManagementKeyFailureLimit, twWindow = defaultLoginFailureWindow\<rparr>, tpLong = day,
             tpBackoff = [minute, 5 * minute, 15 * minute, 30 * minute], tpResetAfter = defaultFailureResetAfter, tpHardBlock = True\<rparr>),
          (scopeUserPassword, password),
          (scopeUserAccount, account),
          (scopeRefresh, \<lparr>tpShort = \<lparr>twLimit = 60, twWindow = 5 * minute\<rparr>, tpLong = noWindow, tpBackoff = [minute], tpResetAfter = hour, tpHardBlock = False\<rparr>),
          (scopePortalPassword, password),
          (scopePortalAccount, account)])"

definition credentialGuessScopes :: "throttle_scope list" where
  "credentialGuessScopes = [scopeManagementKey, scopeUserPassword, scopeUserAccount, scopePortalPassword, scopePortalAccount]"

definition adjust :: "(throttle_policy \<Rightarrow> throttle_policy) \<Rightarrow> throttle_scope list \<Rightarrow> throttle_policies \<Rightarrow> throttle_policies" where
  "adjust f scopes ps = fold (\<lambda>s ps. map_put s (f (map_get zeroPolicy ps s)) ps) scopes ps"

definition set_short_window :: "duration \<Rightarrow> throttle_policy \<Rightarrow> throttle_policy" where
  "set_short_window w p = p\<lparr>tpShort := (tpShort p)\<lparr>twWindow := w\<rparr>\<rparr>"

definition set_short_limit :: "int \<Rightarrow> throttle_policy \<Rightarrow> throttle_policy" where
  "set_short_limit n p = p\<lparr>tpShort := (tpShort p)\<lparr>twLimit := n\<rparr>\<rparr>"

text \<open>Values that are not positive leave the table as it is. The settings of the configuration file have the same five fields as the override.\<close>

definition overlayThrottleOverride :: "throttle_policies \<Rightarrow> throttle_override \<Rightarrow> throttle_policies" where
  "overlayThrottleOverride ps ov =
     (let ps1 = (if 0 < toLoginFailureWindowSeconds ov
                 then adjust (set_short_window (wrap64 (toLoginFailureWindowSeconds ov * second))) credentialGuessScopes ps else ps);
          ps2 = (if 0 < toFailureResetHours ov
                 then adjust (\<lambda>p. p\<lparr>tpResetAfter := wrap64 (toFailureResetHours ov * hour)\<rparr>) credentialGuessScopes ps1 else ps1);
          ps3 = (if 0 < toAccountFailureLimit ov then adjust (set_short_limit (toAccountFailureLimit ov)) [scopeUserAccount, scopePortalAccount] ps2 else ps2);
          ps4 = (if 0 < toManagementKeyFailureLimit ov then adjust (set_short_limit (toManagementKeyFailureLimit ov)) [scopeManagementKey] ps3 else ps3)
      in if 0 < toUnauthenticatedRequestLimit ov then adjust (set_short_limit (toUnauthenticatedRequestLimit ov)) [scopeUnauthenticated] ps4 else ps4)"

definition throttlePoliciesFromConfig :: "throttle_override option \<Rightarrow> throttle_policies" where
  "throttlePoliciesFromConfig auth =
     (case auth of None \<Rightarrow> defaultThrottlePolicies | Some a \<Rightarrow> overlayThrottleOverride defaultThrottlePolicies a)"

definition blockDurationFor :: "throttle_policy \<Rightarrow> int \<Rightarrow> duration" where
  "blockDurationFor p generation =
     (if tpBackoff p = [] then 0
      else let g = max 0 generation; g' = (if int (length (tpBackoff p)) \<le> g then int (length (tpBackoff p)) - 1 else g)
           in tpBackoff p ! nat g')"

definition applySharedKeyDowngrade :: "throttle_policy \<Rightarrow> throttle_policy" where
  "applySharedKeyDowngrade p =
     p\<lparr>tpHardBlock := False, tpBackoff := (if 1 < length (tpBackoff p) then take 1 (tpBackoff p) else tpBackoff p),
       tpLong := (if 0 < twLimit (tpLong p) then (tpLong p)\<lparr>twLimit := wrap64 (twLimit (tpLong p) * 2)\<rparr> else tpLong p)\<rparr>"

section \<open>Keys\<close>

record throttle_key =
  tkScope :: throttle_scope
  tkValue :: string
  tkShared :: bool

definition unknownThrottleValue :: string where "unknownThrottleValue = ''unknown''"

definition normalizeThrottleIP :: "string \<Rightarrow> string \<times> bool" where
  "normalizeThrottleIP raw =
     (let candidate = trim_space raw
      in if candidate = '''' then (unknownThrottleValue, True)
         else case ParseIP (trim_space (strip_decorations (case SplitHostPort candidate of Some h \<Rightarrow> h | None \<Rightarrow> candidate))) of
                None \<Rightarrow> (unknownThrottleValue, True)
              | Some a \<Rightarrow>
                  (case To4 a of
                     Some v \<Rightarrow> (IP_String v @ ''/32'', False)
                   | None \<Rightarrow> (IP_String (IP_Mask a (CIDRMask 64 128)) @ ''/64'', False)))"

definition relayIndicationHeaders :: "string list" where
  "relayIndicationHeaders =
     [''Forwarded'', ''Via'', ''X-Forwarded-For'', ''X-Forwarded-Host'', ''X-Forwarded-Port'', ''X-Forwarded-Proto'', ''X-Forwarded-Server'',
      ''X-Original-Forwarded-For'', ''X-Real-Ip'', ''X-Client-Ip'', ''X-Cluster-Client-Ip'', ''Cf-Connecting-Ip'', ''Cf-Connecting-Ipv6'', ''Cf-Ray'',
      ''True-Client-Ip'', ''Fastly-Client-Ip'', ''X-Envoy-External-Address'', ''X-Envoy-Internal'', ''X-Azure-Clientip'', ''X-Azure-Socketip'']"

definition RelayIndicationHeader :: "request \<Rightarrow> string" where
  "RelayIndicationHeader req =
     (case List.find (\<lambda>h. list_ex (\<lambda>v. trim_space v \<noteq> '''') (header_values req h)) relayIndicationHeaders of Some h \<Rightarrow> h | None \<Rightarrow> '''')"

text \<open>\<open>clientIP\<close> is the address the web framework reports.\<close>

definition resolveThrottlePeer :: "string \<Rightarrow> request \<Rightarrow> string" where
  "resolveThrottlePeer clientIP req =
     (let ip = trim_space clientIP; remote = trim_space (rqRemoteAddr req)
      in if ip \<noteq> '''' then ip else if remote \<noteq> '''' then remote else unknownThrottleValue)"

definition clientThrottleKey :: "string list \<Rightarrow> string \<Rightarrow> request \<Rightarrow> throttle_scope \<Rightarrow> throttle_key" where
  "clientThrottleKey trustedProxies clientIP req scope =
     (case normalizeThrottleIP (resolveThrottlePeer clientIP req) of
        (v, shared) \<Rightarrow>
          \<lparr>tkScope = scope, tkValue = v, tkShared = shared \<or> (RelayIndicationHeader req \<noteq> '''' \<and> \<not> ProxyTrustConfigured trustedProxies)\<rparr>)"

definition accountThrottleKey :: "throttle_scope \<Rightarrow> string \<Rightarrow> throttle_key" where
  "accountThrottleKey scope username =
     \<lparr>tkScope = scope, tkValue = (if trim_space username = '''' then unknownThrottleValue else trim_space username), tkShared = False\<rparr>"

definition bucketID :: "throttle_key \<Rightarrow> string" where
  "bucketID key = scope_String (tkScope key) @ ''|'' @ tkValue key"

section \<open>Buckets\<close>

definition throttleShortSlotCount :: nat where "throttleShortSlotCount = 12"
definition throttleLongSlotCount :: nat where "throttleLongSlotCount = 24"
definition throttleShardCount :: nat where "throttleShardCount = 16"
definition maxTrackedKeys :: nat where "maxTrackedKeys = 20000"
definition throttleEvictBatchRatio :: nat where "throttleEvictBatchRatio = 8"
definition throttleMinIdleRetention :: duration where "throttleMinIdleRetention = 2 * hour"
definition maxShardKeys :: nat where "maxShardKeys = maxTrackedKeys div throttleShardCount"

record throttle_entry =
  teShort :: "window_slot list"
  teLong :: "window_slot list"
  teBlockedUntil :: gotime
  teGeneration :: int
  teLastActivity :: gotime

definition newEntry :: throttle_entry where
  "newEntry =
     \<lparr>teShort = replicate throttleShortSlotCount zero_slot, teLong = replicate throttleLongSlotCount zero_slot, teBlockedUntil = 0, teGeneration = 0,
      teLastActivity = 0\<rparr>"

type_synonym throttle_shard = "(string, throttle_entry) gomap"

record login_throttle =
  ltShards :: "throttle_shard list"
  ltPolicies :: "throttle_policies option"

definition setPolicies :: "throttle_policies option \<Rightarrow> login_throttle \<Rightarrow> login_throttle" where
  "setPolicies ps t = t\<lparr>ltPolicies := Some (case ps of Some p \<Rightarrow> p | None \<Rightarrow> defaultThrottlePolicies)\<rparr>"

definition newLoginThrottle :: "throttle_policies option \<Rightarrow> login_throttle" where
  "newLoginThrottle ps = setPolicies ps \<lparr>ltShards = replicate throttleShardCount [], ltPolicies = None\<rparr>"

definition policySnapshot :: "login_throttle \<Rightarrow> throttle_policies" where
  "policySnapshot t = (case ltPolicies t of Some p \<Rightarrow> p | None \<Rightarrow> [])"

definition applyThrottleOverride :: "throttle_override option \<Rightarrow> throttle_override \<Rightarrow> login_throttle \<Rightarrow> login_throttle" where
  "applyThrottleOverride cfg ov t = setPolicies (Some (overlayThrottleOverride (throttlePoliciesFromConfig cfg) ov)) t"

definition policyFor :: "login_throttle \<Rightarrow> throttle_key \<Rightarrow> throttle_policy" where
  "policyFor t key =
     (let p = (case map_of (policySnapshot t) (tkScope key) of Some p \<Rightarrow> p | None \<Rightarrow> map_get zeroPolicy defaultThrottlePolicies (tkScope key))
      in if tkShared key then applySharedKeyDowngrade p else p)"

text \<open>The 32-bit FNV-1a hash of package hash/fnv.\<close>

definition fnv32a :: "string \<Rightarrow> 32 word" where
  "fnv32a s = fold (\<lambda>c h. xor h (of_nat (of_char c)) * 16777619) s 2166136261"

definition shardFor :: "string \<Rightarrow> nat" where
  "shardFor bucket = unat (fnv32a bucket) mod throttleShardCount"

definition blockOutcome :: "throttle_policy \<Rightarrow> throttle_outcome" where
  "blockOutcome p = (if tpHardBlock p then outcomeBlocked else outcomeRateLimited)"

definition slotDuration :: "throttle_window \<Rightarrow> nat \<Rightarrow> duration" where
  "slotDuration w n = (if twWindow w \<le> 0 \<or> n = 0 then 0 else twWindow w div int n)"

definition add_slot :: "nat \<Rightarrow> int \<Rightarrow> window_slot list \<Rightarrow> window_slot list" where
  "add_slot n index slots =
     (let j = nat (index mod int n); s = (if slIndex (slots ! j) \<noteq> index then \<lparr>slIndex = index, slCount = 0\<rparr> else slots ! j)
      in slots[j := s\<lparr>slCount := wrap32 (slCount s + 1)\<rparr>])"

definition slot_total :: "nat \<Rightarrow> int \<Rightarrow> window_slot list \<Rightarrow> int" where
  "slot_total n current slots = sum_list (map (\<lambda>s. if current - int n + 1 \<le> slIndex s \<and> slIndex s \<le> current then slCount s else 0) slots)"

definition addToWindow :: "throttle_window \<Rightarrow> gotime \<Rightarrow> window_slot list \<Rightarrow> window_slot list" where
  "addToWindow w now slots =
     (let width = slotDuration w (length slots)
      in if twLimit w \<le> 0 \<or> width \<le> 0 then slots else add_slot (length slots) (now div width) slots)"

definition countWindow :: "throttle_window \<Rightarrow> gotime \<Rightarrow> window_slot list \<Rightarrow> int" where
  "countWindow w now slots =
     (let width = slotDuration w (length slots)
      in if twLimit w \<le> 0 \<or> width \<le> 0 then 0 else slot_total (length slots) (now div width) slots)"

definition allowed :: "throttle_scope \<Rightarrow> throttle_decision" where
  "allowed scope =
     \<lparr>tdOutcome = outcomeAllow, tdRetryAfter = 0, tdScope = scope, tdGeneration = 0, tdShortCount = 0, tdLongCount = 0, tdNewlyArmed = False\<rparr>"

definition blocked_decision :: "throttle_policy \<Rightarrow> throttle_scope \<Rightarrow> gotime \<Rightarrow> throttle_entry \<Rightarrow> throttle_decision" where
  "blocked_decision p scope now e =
     \<lparr>tdOutcome = blockOutcome p, tdRetryAfter = time_sub (teBlockedUntil e) now, tdScope = scope, tdGeneration = teGeneration e,
      tdShortCount = countWindow (tpShort p) now (teShort e), tdLongCount = countWindow (tpLong p) now (teLong e), tdNewlyArmed = False\<rparr>"

definition evaluateLocal :: "login_throttle \<Rightarrow> throttle_key \<Rightarrow> gotime \<Rightarrow> throttle_decision" where
  "evaluateLocal t key now =
     (case map_of (ltShards t ! shardFor (bucketID key)) (bucketID key) of
        None \<Rightarrow> allowed (tkScope key)
      | Some e \<Rightarrow> if \<not> now < teBlockedUntil e then allowed (tkScope key) else blocked_decision (policyFor t key) (tkScope key) now e)"

definition throttle_evict :: "throttle_shard \<Rightarrow> throttle_shard" where
  "throttle_evict shard =
     (if length shard < maxShardKeys then shard
      else let candidates = sort_key (\<lambda>kc. teLastActivity (snd kc)) shard; evict = max 1 (length candidates div throttleEvictBatchRatio)
           in fold (\<lambda>kc. map_del (fst kc)) (take evict candidates) shard)"

definition charge_entry :: "throttle_policy \<Rightarrow> throttle_scope \<Rightarrow> gotime \<Rightarrow> throttle_entry \<Rightarrow> throttle_entry \<times> throttle_decision" where
  "charge_entry p scope now e =
     (let e1 = e\<lparr>teShort := addToWindow (tpShort p) now (teShort e), teLong := addToWindow (tpLong p) now (teLong e)\<rparr>;
          shortCount = countWindow (tpShort p) now (teShort e1); longCount = countWindow (tpLong p) now (teLong e1);
          d = (allowed scope)\<lparr>tdGeneration := teGeneration e1, tdShortCount := shortCount, tdLongCount := longCount\<rparr>;
          shortTripped = (0 < twLimit (tpShort p) \<and> twLimit (tpShort p) \<le> shortCount);
          longTripped = (0 < twLimit (tpLong p) \<and> twLimit (tpLong p) \<le> longCount);
          wait = blockDurationFor p (teGeneration e1)
      in if \<not> shortTripped \<and> \<not> longTripped then (e1, d)
         else if wait \<le> 0 then (e1, d)
         else (e1\<lparr>teBlockedUntil := now + wait, teGeneration := teGeneration e1 + 1\<rparr>,
               d\<lparr>tdOutcome := blockOutcome p, tdRetryAfter := wait, tdGeneration := teGeneration e1 + 1, tdNewlyArmed := True\<rparr>))"

definition fail_entry :: "throttle_policy \<Rightarrow> throttle_scope \<Rightarrow> gotime \<Rightarrow> throttle_entry option \<Rightarrow> throttle_entry \<times> throttle_decision" where
  "fail_entry p scope now found =
     (let e0 = (case found of
                  None \<Rightarrow> newEntry
                | Some e \<Rightarrow> if 0 < tpResetAfter p \<and> teLastActivity e \<noteq> 0 \<and> tpResetAfter p \<le> time_sub now (teLastActivity e) then newEntry else e);
          e = e0\<lparr>teLastActivity := now\<rparr>
      in if now < teBlockedUntil e then (e, blocked_decision p scope now e) else charge_entry p scope now e)"

definition recordFailureLocal :: "throttle_key \<Rightarrow> gotime \<Rightarrow> login_throttle \<Rightarrow> login_throttle \<times> throttle_decision" where
  "recordFailureLocal key now t =
     (let bucket = bucketID key; i = shardFor bucket; shard = ltShards t ! i; found = map_of shard bucket;
          shard1 = (case found of None \<Rightarrow> throttle_evict shard | Some _ \<Rightarrow> shard);
          (e, d) = fail_entry (policyFor t key) (tkScope key) now found
      in (t\<lparr>ltShards := (ltShards t)[i := map_put bucket e shard1]\<rparr>, d))"

definition recordSuccess :: "throttle_key \<Rightarrow> login_throttle \<Rightarrow> login_throttle" where
  "recordSuccess key t =
     (let i = shardFor (bucketID key) in t\<lparr>ltShards := (ltShards t)[i := map_del (bucketID key) (ltShards t ! i)]\<rparr>)"

definition idleRetention :: "login_throttle \<Rightarrow> duration" where
  "idleRetention t = fold (\<lambda>sp r. if r < tpResetAfter (snd sp) then tpResetAfter (snd sp) else r) (policySnapshot t) throttleMinIdleRetention"

definition purgeStale :: "gotime \<Rightarrow> login_throttle \<Rightarrow> login_throttle" where
  "purgeStale now t =
     t\<lparr>ltShards := map (filter (\<lambda>ke. now < teBlockedUntil (snd ke) \<or> \<not> idleRetention t < time_sub now (teLastActivity (snd ke)))) (ltShards t)\<rparr>"

definition trackedKeys :: "login_throttle \<Rightarrow> nat" where
  "trackedKeys t = sum_list (map length (ltShards t))"

section \<open>The cluster\<close>

record throttle_spec =
  tsShort :: "throttle_window \<times> nat"
  tsLong :: "throttle_window \<times> nat"
  tsBackoff :: "duration list"
  tsResetAfter :: duration
  tsRetention :: duration

record throttle_state =
  tsBlocked :: bool
  tsRetryAfter :: duration
  tsGeneration :: int
  tsShortCount :: int
  tsLongCount :: int
  tsNewlyArmed :: bool

text \<open>What the shared store answers to a peek or a charge, \<open>None\<close> for an error; no store when it is not installed or not available.\<close>

type_synonym throttle_store = "string \<Rightarrow> throttle_spec \<Rightarrow> gotime \<Rightarrow> throttle_state option"

definition sharedSpec :: "login_throttle \<Rightarrow> throttle_key \<Rightarrow> throttle_spec" where
  "sharedSpec t key =
     (let p = policyFor t key
      in \<lparr>tsShort = (tpShort p, throttleShortSlotCount), tsLong = (tpLong p, throttleLongSlotCount), tsBackoff = tpBackoff p, tsResetAfter = tpResetAfter p,
          tsRetention = idleRetention t\<rparr>)"

definition sharedDecision :: "login_throttle \<Rightarrow> throttle_key \<Rightarrow> throttle_state \<Rightarrow> throttle_decision" where
  "sharedDecision t key st =
     (let d = (allowed (tkScope key))\<lparr>tdGeneration := tsGeneration st, tdShortCount := tsShortCount st, tdLongCount := tsLongCount st,
                                      tdNewlyArmed := tsNewlyArmed st\<rparr>
      in if tsBlocked st then d\<lparr>tdOutcome := blockOutcome (policyFor t key), tdRetryAfter := tsRetryAfter st\<rparr> else d)"

definition shared_answer :: "throttle_store option \<Rightarrow> login_throttle \<Rightarrow> throttle_key \<Rightarrow> gotime \<Rightarrow> throttle_decision option" where
  "shared_answer store t key now =
     (case store of None \<Rightarrow> None | Some ask \<Rightarrow> map_option (sharedDecision t key) (ask (bucketID key) (sharedSpec t key) now))"

definition evaluate :: "throttle_store option \<Rightarrow> login_throttle \<Rightarrow> throttle_key \<Rightarrow> gotime \<Rightarrow> throttle_decision" where
  "evaluate peek t key now =
     (let own = evaluateLocal t key now
      in if tdOutcome own \<noteq> outcomeAllow then own else case shared_answer peek t key now of Some d \<Rightarrow> d | None \<Rightarrow> own)"

definition recordFailure :: "throttle_store option \<Rightarrow> throttle_key \<Rightarrow> gotime \<Rightarrow> login_throttle \<Rightarrow> login_throttle \<times> throttle_decision" where
  "recordFailure store key now t =
     (case recordFailureLocal key now t of (t', own) \<Rightarrow> (t', case shared_answer store t' key now of Some d \<Rightarrow> d | None \<Rightarrow> own))"

definition throttleEvaluate :: "bool \<Rightarrow> throttle_store option \<Rightarrow> login_throttle \<Rightarrow> throttle_key \<Rightarrow> gotime \<Rightarrow> throttle_decision" where
  "throttleEvaluate exempt peek t key now = (if exempt then allowed (tkScope key) else evaluate peek t key now)"

definition throttleCharge :: "bool \<Rightarrow> throttle_store option \<Rightarrow> throttle_key \<Rightarrow> gotime \<Rightarrow> login_throttle \<Rightarrow> login_throttle \<times> throttle_decision" where
  "throttleCharge exempt store key now t = (if exempt then (t, allowed (tkScope key)) else recordFailure store key now t)"

section \<open>What is counted\<close>

lemma add_slot_ring: "0 < n \<Longrightarrow> sliding_window n (add_slot n) (slot_total n)"
proof
  fix xs i
  show "add_slot n i xs = xs[nat (i mod int n) := \<lparr>slIndex = i, slCount = wrap32 ((if slIndex (xs ! nat (i mod int n)) \<noteq> i then 0
      else slCount (xs ! nat (i mod int n))) + 1)\<rparr>]"
    by (cases "xs ! nat (i mod int n)") (simp add: add_slot_def Let_def)
qed (simp_all add: slot_total_def)

interpretation short: sliding_window throttleShortSlotCount "add_slot throttleShortSlotCount" "slot_total throttleShortSlotCount"
  by (rule add_slot_ring) (simp add: throttleShortSlotCount_def)

interpretation long: sliding_window throttleLongSlotCount "add_slot throttleLongSlotCount" "slot_total throttleLongSlotCount"
  by (rule add_slot_ring) (simp add: throttleLongSlotCount_def)

text \<open>The slots after failures at the given instants, and what they count at an instant not before them.\<close>

abbreviation disabled :: "nat \<Rightarrow> throttle_window \<Rightarrow> bool" where
  "disabled n w \<equiv> twLimit w \<le> 0 \<or> slotDuration w n \<le> 0"

definition window_ok :: "nat \<Rightarrow> throttle_window \<Rightarrow> gotime list \<Rightarrow> window_slot list \<Rightarrow> bool" where
  "window_ok n w ts slots = (length slots = n \<and> (disabled n w \<or> ring_ok n (map (\<lambda>t. t div slotDuration w n) ts) slots))"

definition window_count :: "nat \<Rightarrow> throttle_window \<Rightarrow> gotime list \<Rightarrow> gotime \<Rightarrow> int" where
  "window_count n w ts now =
     (if disabled n w then 0 else int (length (filter (\<lambda>t. now div slotDuration w n - int n + 1 \<le> t div slotDuration w n) ts)))"

lemma window_ok_new: "window_ok n w [] (replicate n zero_slot)"
  using ring_ok_empty [of n] by (simp add: window_ok_def)

lemma window_ok_step:
  assumes "0 < n" "window_ok n w ts slots" "\<And>t. t \<in> set ts \<Longrightarrow> t \<le> now" "int (length ts) + 1 < 2 ^ 31"
  shows "window_ok n w (ts @ [now]) (addToWindow w now slots)" "countWindow w now (addToWindow w now slots) = window_count n w (ts @ [now]) now"
proof -
  have len: "length slots = n" using assms(2) by (simp add: window_ok_def)
  show "window_ok n w (ts @ [now]) (addToWindow w now slots)" "countWindow w now (addToWindow w now slots) = window_count n w (ts @ [now]) now"
  proof (atomize (full), cases "disabled n w")
    case True
    then show "window_ok n w (ts @ [now]) (addToWindow w now slots) \<and> countWindow w now (addToWindow w now slots) = window_count n w (ts @ [now]) now"
      using len by (auto simp: window_ok_def addToWindow_def countWindow_def window_count_def Let_def)
  next
    case False
    let ?d = "slotDuration w n" and ?ix = "map (\<lambda>t. t div slotDuration w n) ts"
    have d: "0 < ?d" using False by auto
    have ok: "ring_ok n ?ix slots" using assms(2) False by (simp add: window_ok_def)
    have le: "k \<le> now div ?d" if "k \<in> set ?ix" for k using that assms(3) d by (auto intro: zdiv_mono1)
    have "ring_ok n (?ix @ [now div ?d]) (add_slot n (now div ?d) slots)"
      using sliding_window.ring_add [OF add_slot_ring [OF assms(1)] ok le] assms(4) by simp
    then have ring: "ring_ok n (map (\<lambda>t. t div ?d) (ts @ [now])) (add_slot n (now div ?d) slots)" by simp
    have add: "addToWindow w now slots = add_slot n (now div ?d) slots" using False len by (simp add: addToWindow_def Let_def)
    have len': "length (add_slot n (now div ?d) slots) = n" using ring by (simp add: ring_ok_def)
    have "slot_total n (now div ?d) (add_slot n (now div ?d) slots) = int (length (filter (\<lambda>i. now div ?d - int n + 1 \<le> i) (map (\<lambda>t. t div ?d) (ts @ [now]))))"
      using le by (intro sliding_window.ring_total [OF add_slot_ring [OF assms(1)] ring]) auto
    then have "countWindow w now (add_slot n (now div ?d) slots) = window_count n w (ts @ [now]) now"
      using False len' by (simp add: countWindow_def window_count_def Let_def filter_map o_def)
    then show "window_ok n w (ts @ [now]) (addToWindow w now slots) \<and> countWindow w now (addToWindow w now slots) = window_count n w (ts @ [now]) now"
      using ring len' by (simp add: add window_ok_def)
  qed
qed

lemma window_count_le: "window_count n w ts now \<le> int (length ts)"
  by (simp add: window_count_def)

text \<open>
  Failures older than the window are never counted, but of those in the last slot of it some may be missed: the error is on the side of the attacker.
\<close>

lemma window_count_bounds:
  assumes "0 < n" "\<not> disabled n w"
  shows "int (length (filter (\<lambda>t. now - (int n - 1) * slotDuration w n \<le> t) ts)) \<le> window_count n w ts now"
    and "window_count n w ts now \<le> int (length (filter (\<lambda>t. now - int n * slotDuration w n < t) ts))"
proof -
  have d: "0 < slotDuration w n" using assms(2) by auto
  have n: "int (n - 1) = int n - 1" using assms(1) by simp
  have e: "int n - 1 + 1 = int n" by simp
  have count: "window_count n w ts now = int (length (filter (\<lambda>t. now div slotDuration w n - (int n - 1) \<le> t div slotDuration w n) ts))"
    using assms(2) by (simp add: window_count_def algebra_simps)
  note between = steps_between_windows [OF d, of now "n - 1" ts, unfolded n e]
  show "int (length (filter (\<lambda>t. now - (int n - 1) * slotDuration w n \<le> t) ts)) \<le> window_count n w ts now"
    unfolding count of_nat_le_iff by (rule between(1))
  show "window_count n w ts now \<le> int (length (filter (\<lambda>t. now - int n * slotDuration w n < t) ts))"
    unfolding count of_nat_le_iff by (rule between(2))
qed

lemma throttle_undercounts:
  "let w = \<lparr>twLimit = 5, twWindow = defaultLoginFailureWindow\<rparr>; ts = [10 * second, 11 * second, 12 * second, 13 * second, 900 * second]
   in last ts - hd ts < twWindow w \<and> countWindow w (900 * second) (fold (addToWindow w) ts (replicate throttleShortSlotCount zero_slot)) = 1"
  by code_simp

section \<open>The block\<close>

text \<open>Consecutive failures of one bucket, on the entry alone and on the whole throttle.\<close>

definition entry_run :: "throttle_policy \<Rightarrow> throttle_scope \<Rightarrow> gotime list \<Rightarrow> throttle_entry option \<Rightarrow> throttle_entry option \<times> throttle_decision" where
  "entry_run p scope ts found = foldl (\<lambda>(f, _) now. case fail_entry p scope now f of (e, d) \<Rightarrow> (Some e, d)) (found, allowed scope) ts"

definition failure_run :: "throttle_key \<Rightarrow> gotime list \<Rightarrow> login_throttle \<Rightarrow> login_throttle \<times> throttle_decision" where
  "failure_run key ts t = foldl (\<lambda>(t, _) now. recordFailureLocal key now t) (t, allowed (tkScope key)) ts"

definition entry_of :: "login_throttle \<Rightarrow> throttle_key \<Rightarrow> throttle_entry option" where
  "entry_of t key = map_of (ltShards t ! shardFor (bucketID key)) (bucketID key)"

lemma shardFor_less: "shardFor b < throttleShardCount"
  by (simp add: shardFor_def throttleShardCount_def)

lemma recordFailureLocal_entry:
  assumes "length (ltShards t) = throttleShardCount" "recordFailureLocal key now t = (t', d)"
  shows "length (ltShards t') = throttleShardCount" "ltPolicies t' = ltPolicies t"
    "fail_entry (policyFor t key) (tkScope key) now (entry_of t key) = (the (entry_of t' key), d)" "entry_of t' key \<noteq> None"
  using assms shardFor_less [of "bucketID key"]
  by (auto simp: recordFailureLocal_def Let_def entry_of_def split: prod.splits)

lemma policyFor_cong: "ltPolicies t' = ltPolicies t \<Longrightarrow> policyFor t' key = policyFor t key"
  by (simp add: policyFor_def policySnapshot_def)

lemma failure_run_entry:
  assumes "length (ltShards t) = throttleShardCount" "failure_run key ts t = (t', d)"
  shows "length (ltShards t') = throttleShardCount \<and> ltPolicies t' = ltPolicies t \<and>
    entry_run (policyFor t key) (tkScope key) ts (entry_of t key) = (entry_of t' key, d)"
  using assms(2)
proof (induction ts arbitrary: t' d rule: rev_induct)
  case Nil
  then show ?case using assms(1) by (simp add: failure_run_def entry_run_def)
next
  case (snoc now ts)
  obtain u c where u: "failure_run key ts t = (u, c)" by fastforce
  note IH = snoc.IH [OF u]
  have step: "recordFailureLocal key now u = (t', d)" using snoc.prems u by (simp add: failure_run_def)
  note entry = recordFailureLocal_entry [OF conjunct1 [OF IH] step]
  have "policyFor u key = policyFor t key" using IH by (intro policyFor_cong) simp
  then show ?case using IH entry by (auto simp: entry_run_def split: prod.splits)
qed

lemma evaluateLocal_entry:
  "tdOutcome (evaluateLocal t key now) =
    (case entry_of t key of None \<Rightarrow> outcomeAllow | Some e \<Rightarrow> if now < teBlockedUntil e then blockOutcome (policyFor t key) else outcomeAllow)"
  by (simp add: evaluateLocal_def entry_of_def allowed_def blocked_decision_def split: option.split)

text \<open>An entry that has counted some failures and was never blocked.\<close>

definition counting :: "throttle_policy \<Rightarrow> gotime list \<Rightarrow> throttle_entry \<Rightarrow> bool" where
  "counting p ts e \<longleftrightarrow> window_ok throttleShortSlotCount (tpShort p) ts (teShort e) \<and> window_ok throttleLongSlotCount (tpLong p) ts (teLong e) \<and>
     teBlockedUntil e = 0 \<and> teGeneration e = 0"

lemma counting_new: "counting p [] newEntry"
  by (simp add: counting_def newEntry_def window_ok_new)

lemma charge_counting:
  assumes "counting p ts e" "\<And>t. t \<in> set ts \<Longrightarrow> t \<le> now" "int (length ts) + 1 < 2 ^ 31" "charge_entry p scope now e = (e', d)"
  defines "sc \<equiv> window_count throttleShortSlotCount (tpShort p) (ts @ [now]) now" and "lc \<equiv> window_count throttleLongSlotCount (tpLong p) (ts @ [now]) now"
  shows "if ((0 < twLimit (tpShort p) \<and> twLimit (tpShort p) \<le> sc) \<or> (0 < twLimit (tpLong p) \<and> twLimit (tpLong p) \<le> lc)) \<and> 0 < blockDurationFor p 0
    then teBlockedUntil e' = now + blockDurationFor p 0 \<and> teGeneration e' = 1 \<and> teLastActivity e' = teLastActivity e \<and>
      tdOutcome d = blockOutcome p \<and> tdRetryAfter d = blockDurationFor p 0 \<and> tdNewlyArmed d
    else counting p (ts @ [now]) e' \<and> teLastActivity e' = teLastActivity e \<and> tdOutcome d = outcomeAllow"
proof -
  have n: "0 < throttleShortSlotCount" "0 < throttleLongSlotCount" by (simp_all add: throttleShortSlotCount_def throttleLongSlotCount_def)
  have ok: "window_ok throttleShortSlotCount (tpShort p) ts (teShort e)" "window_ok throttleLongSlotCount (tpLong p) ts (teLong e)"
    "teBlockedUntil e = 0" "teGeneration e = 0" using assms(1) by (simp_all add: counting_def)
  note S = window_ok_step [OF n(1) ok(1) assms(2,3)] and L = window_ok_step [OF n(2) ok(2) assms(2,3)]
  show ?thesis
    using assms(4) S L ok(3,4) by (auto simp: charge_entry_def Let_def sc_def lc_def counting_def allowed_def split: if_splits)
qed

text \<open>The entry of a quiet bucket that was used a short time ago.\<close>

lemma fail_entry_open:
  assumes "teBlockedUntil e \<le> now" "tpResetAfter p \<le> 0 \<or> time_sub now (teLastActivity e) < tpResetAfter p"
  shows "fail_entry p scope now (Some e) = charge_entry p scope now (e\<lparr>teLastActivity := now\<rparr>)"
  using assms by (auto simp: fail_entry_def Let_def)

lemma time_sub_le: "u \<le> t \<Longrightarrow> time_sub t u \<le> t - u"
  by (auto simp: time_sub_def minInt64_def)

lemma counting_activity [simp]: "counting p ts (e\<lparr>teLastActivity := t\<rparr>) = counting p ts e"
  by (simp add: counting_def)

lemma fail_entry_new: "0 \<le> now \<Longrightarrow> fail_entry p scope now None = charge_entry p scope now (newEntry\<lparr>teLastActivity := now\<rparr>)"
  by (simp add: fail_entry_def newEntry_def Let_def)

text \<open>Failures of a fresh bucket that do not trip it: each is charged on an entry that counts all of them.\<close>

lemma entry_run_step:
  assumes "sorted (ts @ [now])" "list_all (\<lambda>t. 0 \<le> t) (ts @ [now])" "tpResetAfter p \<le> 0 \<or> now - hd (ts @ [now]) < tpResetAfter p"
    and "ts \<noteq> [] \<Longrightarrow> \<exists>e d. entry_run p scope ts None = (Some e, d) \<and> counting p ts e \<and> teLastActivity e = last ts"
  obtains e where "counting p ts e" "teLastActivity e = now"
    "entry_run p scope (ts @ [now]) None = (case charge_entry p scope now e of (e', d) \<Rightarrow> (Some e', d))"
proof (cases "ts = []")
  case True
  then have "entry_run p scope (ts @ [now]) None = (case charge_entry p scope now (newEntry\<lparr>teLastActivity := now\<rparr>) of (e', d) \<Rightarrow> (Some e', d))"
    using assms(2) by (simp add: entry_run_def fail_entry_new)
  then show thesis using True counting_new [of p] by (intro that [of "newEntry\<lparr>teLastActivity := now\<rparr>"]) simp_all
next
  case False
  then obtain e d where e: "entry_run p scope ts None = (Some e, d)" "counting p ts e" "teLastActivity e = last ts" using assms(4) by blast
  have mem: "hd ts \<in> set ts" "last ts \<in> set ts" using False by simp_all
  then have "last ts \<le> now" "hd ts \<le> last ts" using assms(1) sorted_last_max [of ts "hd ts"] by (auto simp: sorted_append)
  then have "time_sub now (last ts) \<le> now - hd (ts @ [now])" using time_sub_le [of "last ts" now] False by simp
  then have "tpResetAfter p \<le> 0 \<or> time_sub now (teLastActivity e) < tpResetAfter p" using assms(3) e(3) by auto
  moreover have "teBlockedUntil e \<le> now" using e(2) assms(2) by (simp add: counting_def)
  ultimately have "fail_entry p scope now (Some e) = charge_entry p scope now (e\<lparr>teLastActivity := now\<rparr>)" by (intro fail_entry_open)
  then show thesis using e by (intro that [of "e\<lparr>teLastActivity := now\<rparr>"]) (simp_all add: entry_run_def)
qed

lemma entry_run_below:
  assumes "sorted ts" "list_all (\<lambda>t. 0 \<le> t) ts" "ts \<noteq> []" "int (length ts) < twLimit (tpShort p)" "int (length ts) < 2 ^ 31"
    and "twLimit (tpLong p) \<le> 0 \<or> int (length ts) < twLimit (tpLong p)" "tpResetAfter p \<le> 0 \<or> last ts - hd ts < tpResetAfter p"
  shows "\<exists>e d. entry_run p scope ts None = (Some e, d) \<and> counting p ts e \<and> teLastActivity e = last ts \<and> tdOutcome d = outcomeAllow"
  using assms
proof (induction ts rule: rev_induct)
  case (snoc now ts)
  have le: "t \<le> now" if "t \<in> set ts" for t using snoc.prems(1) that by (auto simp: sorted_append)
  have reset: "tpResetAfter p \<le> 0 \<or> last ts - hd ts < tpResetAfter p" if "ts \<noteq> []"
    using snoc.prems(7) that le [OF last_in_set [OF that]] by auto
  have "\<exists>e d. entry_run p scope ts None = (Some e, d) \<and> counting p ts e \<and> teLastActivity e = last ts" if "ts \<noteq> []"
    using snoc that reset [OF that] by (auto simp: sorted_append)
  then obtain e where e: "counting p ts e" "teLastActivity e = now"
      "entry_run p scope (ts @ [now]) None = (case charge_entry p scope now e of (e', d) \<Rightarrow> (Some e', d))"
    using entry_run_step [of ts now p scope] snoc.prems(1,2,7) by auto
  obtain e' d where c: "charge_entry p scope now e = (e', d)" by fastforce
  have "int (length ts) + 1 < 2 ^ 31" using snoc.prems(5) by simp
  from charge_counting [OF e(1) le this c] show ?case
    using e c snoc.prems(4,6) window_count_le [of throttleShortSlotCount "tpShort p" "ts @ [now]" now] window_count_le [of throttleLongSlotCount "tpLong p" "ts @ [now]" now]
    by (auto split: if_splits)
qed simp

lemma entry_run_trips:
  assumes "sorted ts" "list_all (\<lambda>t. 0 \<le> t) ts" "int (length ts) = twLimit (tpShort p)" "int (length ts) < 2 ^ 31" "ts \<noteq> []"
    and "twLimit (tpLong p) \<le> 0 \<or> int (length ts) \<le> twLimit (tpLong p)" "tpResetAfter p \<le> 0 \<or> last ts - hd ts < tpResetAfter p"
    and "0 < slotDuration (tpShort p) throttleShortSlotCount" "last ts - hd ts \<le> 11 * slotDuration (tpShort p) throttleShortSlotCount" "0 < blockDurationFor p 0"
  shows "\<exists>e d. entry_run p scope ts None = (Some e, d) \<and> teBlockedUntil e = last ts + blockDurationFor p 0 \<and> teGeneration e = 1 \<and> teLastActivity e = last ts \<and>
    tdOutcome d = blockOutcome p \<and> tdRetryAfter d = blockDurationFor p 0 \<and> tdNewlyArmed d"
proof -
  obtain us now where ts: "ts = us @ [now]" using assms(5) by (metis append_butlast_last_id)
  have le: "t \<le> now" if "t \<in> set us" for t using assms(1) that by (auto simp: ts sorted_append)
  have reset: "tpResetAfter p \<le> 0 \<or> last us - hd us < tpResetAfter p" if "us \<noteq> []"
    using assms(7) that le [OF last_in_set [OF that]] by (auto simp: ts)
  have "\<exists>e d. entry_run p scope us None = (Some e, d) \<and> counting p us e \<and> teLastActivity e = last us \<and> tdOutcome d = outcomeAllow" if "us \<noteq> []"
    using that assms(1-6) reset [OF that] by (intro entry_run_below) (auto simp: ts sorted_append)
  then obtain e where e: "counting p us e" "teLastActivity e = now"
      "entry_run p scope (us @ [now]) None = (case charge_entry p scope now e of (e', d) \<Rightarrow> (Some e', d))"
    using entry_run_step [of us now p scope] assms(1,2,7) by (auto simp: ts)
  obtain e' d where c: "charge_entry p scope now e = (e', d)" by fastforce
  have len: "int (length us) + 1 < 2 ^ 31" using assms(4) by (simp add: ts)
  have "hd ts \<le> t" if "t \<in> set ts" for t using that assms(1) by (cases ts) auto
  then have "filter (\<lambda>t. now - (int throttleShortSlotCount - 1) * slotDuration (tpShort p) throttleShortSlotCount \<le> t) ts = ts"
    using assms(9) by (fastforce simp: ts throttleShortSlotCount_def filter_id_conv)
  moreover have "\<not> disabled throttleShortSlotCount (tpShort p)" using assms(3,5,8) by (cases ts) auto
  ultimately have "int (length ts) \<le> window_count throttleShortSlotCount (tpShort p) ts now"
    using window_count_bounds(1) [of throttleShortSlotCount "tpShort p" now ts] by (simp add: throttleShortSlotCount_def)
  moreover have "0 < twLimit (tpShort p)" using assms(3,5) by (cases ts) auto
  ultimately show ?thesis using charge_counting [OF e(1) le len c] e c assms(3,10) by (auto simp: ts)
qed

text \<open>
  C25: a bucket is blocked by the failure that reaches the limit, and not before. Of as many failures as the limit of the short window allows, all within
  eleven twelfths of the window, every one but the last goes through; the last arms a block for the first time of the ladder, which then
  holds for exactly that long.
\<close>

theorem limit_th_failure_blocks:
  assumes "length (ltShards t) = throttleShardCount" "entry_of t key = None" "sorted ts" "ts \<noteq> []" "list_all (\<lambda>u. 0 \<le> u) ts" "int (length ts) < 2 ^ 31"
  defines "p \<equiv> policyFor t key"
  assumes "int (length ts) = twLimit (tpShort p)" "twLimit (tpLong p) \<le> 0 \<or> int (length ts) \<le> twLimit (tpLong p)"
    and "tpResetAfter p \<le> 0 \<or> last ts - hd ts < tpResetAfter p" "0 < slotDuration (tpShort p) throttleShortSlotCount"
    and "last ts - hd ts \<le> 11 * slotDuration (tpShort p) throttleShortSlotCount" "0 < blockDurationFor p 0"
  shows "(\<forall>k < length ts. tdOutcome (snd (failure_run key (take k ts) t)) = outcomeAllow) \<and>
    (case failure_run key ts t of (t', d) \<Rightarrow>
       tdOutcome d = blockOutcome p \<and> tdRetryAfter d = blockDurationFor p 0 \<and> tdNewlyArmed d \<and>
       (\<forall>now. tdOutcome (evaluateLocal t' key now) = (if now < last ts + blockDurationFor p 0 then blockOutcome p else outcomeAllow)))"
proof -
  have early: "tdOutcome (snd (failure_run key (take k ts) t)) = outcomeAllow" if "k < length ts" for k
  proof (cases "k = 0")
    case True
    then show ?thesis by (simp add: failure_run_def allowed_def)
  next
    case False
    let ?us = "take k ts"
    obtain u c where u: "failure_run key ?us t = (u, c)" by fastforce
    have us: "?us \<noteq> []" "sorted ?us" "list_all (\<lambda>u. 0 \<le> u) ?us" "hd ?us = hd ts" "length ?us = k" "set ?us \<subseteq> set ts"
      using False that assms(3-5) by (auto simp: sorted_wrt_take list_all_iff hd_conv_nth dest: in_set_takeD)
    then have "last ?us \<le> last ts" using sorted_last_max [OF assms(3)] last_in_set [OF us(1)] by blast
    then have "tpResetAfter p \<le> 0 \<or> last ?us - hd ?us < tpResetAfter p" using assms(10) us(4) by auto
    from entry_run_below [OF us(2,3,1) _ _ _ this, of "tkScope key"] show ?thesis
      using failure_run_entry [OF assms(1) u] us(5) that assms(2,6,8,9) by (auto simp: u p_def)
  qed
  obtain t' d where run: "failure_run key ts t = (t', d)" by fastforce
  note entry = failure_run_entry [OF assms(1) run]
  obtain e d' where e: "entry_run p (tkScope key) ts None = (Some e, d')" "teBlockedUntil e = last ts + blockDurationFor p 0" "tdOutcome d' = blockOutcome p"
      "tdRetryAfter d' = blockDurationFor p 0" "tdNewlyArmed d'"
    using entry_run_trips [OF assms(3,5,8,6,4,9-13), of "tkScope key"] by auto
  have "d' = d" "entry_of t' key = Some e" using e(1) entry assms(2) by (simp_all add: p_def)
  moreover have "policyFor t' key = p" unfolding p_def using entry by (intro policyFor_cong) simp
  ultimately show ?thesis using early e(2-5) by (simp add: run evaluateLocal_entry)
qed

definition sample_throttle :: login_throttle where
  "sample_throttle = newLoginThrottle None"

lemma new_throttle: "length (ltShards (newLoginThrottle ps)) = throttleShardCount" "entry_of (newLoginThrottle ps) key = None"
  using shardFor_less [of "bucketID key"] by (simp_all add: newLoginThrottle_def setPolicies_def entry_of_def)

definition sample_key :: throttle_key where
  "sample_key = accountThrottleKey scopeUserAccount ''root''"

theorem limit_th_failure_blocks_witness:
  "case failure_run sample_key [1 * second, 2 * second, 3 * second, 4 * second, 5 * second] sample_throttle of (t', d) \<Rightarrow>
     tdOutcome d = outcomeRateLimited \<and> tdOutcome (evaluateLocal t' sample_key (64 * second)) = outcomeRateLimited \<and>
     tdOutcome (evaluateLocal t' sample_key (65 * second)) = outcomeAllow"
proof -
  let ?ts = "[1 * second, 2 * second, 3 * second, 4 * second, 5 * second]"
  have v: "twLimit (tpShort (policyFor sample_throttle sample_key)) = 5" "twLimit (tpLong (policyFor sample_throttle sample_key)) = 50"
    "tpResetAfter (policyFor sample_throttle sample_key) = 12 * hour" "slotDuration (tpShort (policyFor sample_throttle sample_key)) throttleShortSlotCount = 75 * second"
    "blockDurationFor (policyFor sample_throttle sample_key) 0 = 60 * second" "blockOutcome (policyFor sample_throttle sample_key) = outcomeRateLimited"
    by code_simp+
  obtain t' d where r: "failure_run sample_key ?ts sample_throttle = (t', d)" by fastforce
  show ?thesis using limit_th_failure_blocks [OF new_throttle(1) [of None] new_throttle(2) [of None sample_key], of ?ts, folded sample_throttle_def] unfolding v r by (simp add: second_def minute_def hour_def)
qed

text \<open>
  Hammering a closed door changes nothing: failures that arrive while a bucket is blocked are turned away with the time that is left, are
  not counted, and neither prolong the block nor raise the stage of the next one.
\<close>

theorem closed_door:
  assumes "length (ltShards t) = throttleShardCount" "entry_of t key = Some e" "us \<noteq> []" "sorted us"
    and "list_all (\<lambda>u. teLastActivity e \<le> u \<and> u < teBlockedUntil e) us"
    and "tpResetAfter (policyFor t key) \<le> 0 \<or> teBlockedUntil e - teLastActivity e \<le> tpResetAfter (policyFor t key)"
  shows "case failure_run key us t of (t', d) \<Rightarrow>
    entry_of t' key = Some (e\<lparr>teLastActivity := last us\<rparr>) \<and> tdOutcome d = blockOutcome (policyFor t key) \<and>
    tdRetryAfter d = time_sub (teBlockedUntil e) (last us) \<and> \<not> tdNewlyArmed d"
proof -
  let ?p = "policyFor t key"
  have step: "fail_entry ?p scope u (Some (e\<lparr>teLastActivity := a\<rparr>)) = (e\<lparr>teLastActivity := u\<rparr>, blocked_decision ?p scope u (e\<lparr>teLastActivity := u\<rparr>))"
    if "teLastActivity e \<le> a" "a \<le> u" "u < teBlockedUntil e" for u a scope
    using that assms(6) time_sub_le [of a u] by (auto simp: fail_entry_def Let_def)
  have "entry_run ?p scope us (Some e) =
      (Some (e\<lparr>teLastActivity := last us\<rparr>), blocked_decision ?p scope (last us) (e\<lparr>teLastActivity := last us\<rparr>))" for scope
    using assms(3-5)
  proof (induction us rule: rev_induct)
    case (snoc u us)
    show ?case
    proof (cases "us = []")
      case True
      have "e\<lparr>teLastActivity := teLastActivity e\<rparr> = e" by simp
      then show ?thesis using True snoc.prems step [of "teLastActivity e" u scope] by (simp add: entry_run_def)
    next
      case False
      have "teLastActivity e \<le> last us" "last us \<le> u" using snoc.prems False by (auto simp: sorted_append list_all_iff)
      then show ?thesis using False snoc step [of "last us" u scope] by (simp add: entry_run_def sorted_append)
    qed
  qed simp
  moreover obtain t' d where run: "failure_run key us t = (t', d)" by fastforce
  ultimately show ?thesis using failure_run_entry [OF assms(1) run] assms(2) by (auto simp: run blocked_decision_def)
qed

theorem closed_door_witness:
  "let t = (newLoginThrottle None)\<lparr>ltShards := (ltShards (newLoginThrottle None))[shardFor (bucketID sample_key) :=
         [(bucketID sample_key, newEntry\<lparr>teBlockedUntil := 60 * second, teGeneration := 1\<rparr>)]]\<rparr>
   in case failure_run sample_key [10 * second, 20 * second] t of (t', d) \<Rightarrow>
        entry_of t' sample_key = Some (newEntry\<lparr>teBlockedUntil := 60 * second, teGeneration := 1, teLastActivity := 20 * second\<rparr>) \<and>
        tdRetryAfter d = 40 * second"
proof -
  let ?e = "newEntry\<lparr>teBlockedUntil := 60 * second, teGeneration := 1\<rparr>"
  let ?t = "(newLoginThrottle None)\<lparr>ltShards := (ltShards (newLoginThrottle None))[shardFor (bucketID sample_key) := [(bucketID sample_key, ?e)]]\<rparr>"
  have t: "length (ltShards ?t) = throttleShardCount" "entry_of ?t sample_key = Some ?e"
    using shardFor_less [of "bucketID sample_key"] new_throttle(1) [of None] by (simp_all add: entry_of_def)
  have e: "teLastActivity newEntry = 0" by (simp add: newEntry_def)
  have "policyFor ?t sample_key = policyFor (newLoginThrottle None) sample_key" by (rule policyFor_cong) simp
  moreover have "60 * second \<le> tpResetAfter (policyFor (newLoginThrottle None) sample_key)" by code_simp
  ultimately have "60 * second \<le> tpResetAfter (policyFor ?t sample_key)" by simp
  then show ?thesis
    using closed_door [OF t, of "[10 * second, 20 * second]"] by (auto simp: e second_def time_sub_def minInt64_def maxInt64_def split: prod.splits)
qed

section \<open>Who can be banned\<close>

lemma adjust_hard_block:
  assumes "\<And>p. tpHardBlock (f p) = tpHardBlock p"
  shows "tpHardBlock (map_get zeroPolicy (adjust f ss ps) s) = tpHardBlock (map_get zeroPolicy ps s)"
  unfolding adjust_def by (induction ss arbitrary: ps) (simp_all add: assms)

lemma adjust_dom: "map_of (adjust f ss ps) s = None \<longleftrightarrow> map_of ps s = None \<and> s \<notin> set ss"
  unfolding adjust_def by (induction ss arbitrary: ps) auto

lemma overlay_facts:
  "tpHardBlock (map_get zeroPolicy (overlayThrottleOverride ps ov) s) = tpHardBlock (map_get zeroPolicy ps s)"
  "map_of ps s \<noteq> None \<Longrightarrow> map_of (overlayThrottleOverride ps ov) s \<noteq> None"
proof -
  have f: "tpHardBlock (set_short_window w p) = tpHardBlock p" "tpHardBlock (set_short_limit n p) = tpHardBlock p"
    "tpHardBlock (p\<lparr>tpResetAfter := r\<rparr>) = tpHardBlock p" for w n r p
    by (simp_all add: set_short_window_def set_short_limit_def)
  show "tpHardBlock (map_get zeroPolicy (overlayThrottleOverride ps ov) s) = tpHardBlock (map_get zeroPolicy ps s)"
    by (simp add: overlayThrottleOverride_def Let_def adjust_hard_block f)
  show "map_of ps s \<noteq> None \<Longrightarrow> map_of (overlayThrottleOverride ps ov) s \<noteq> None"
    unfolding overlayThrottleOverride_def Let_def by (simp add: adjust_dom del: not_None_eq split: if_split)
qed

lemma default_hard_block: "tpHardBlock (map_get zeroPolicy defaultThrottlePolicies s) \<longleftrightarrow> s = scopeManagementKey" "map_of defaultThrottlePolicies s \<noteq> None"
  by (cases s; simp add: defaultThrottlePolicies_def Let_def map_get_def)+

lemma hard_block_policy:
  "tpHardBlock (policyFor (applyThrottleOverride cfg ov t) key) \<longleftrightarrow> tkScope key = scopeManagementKey \<and> \<not> tkShared key"
proof -
  let ?ps = "overlayThrottleOverride (throttlePoliciesFromConfig cfg) ov"
  have cfg: "tpHardBlock (map_get zeroPolicy (throttlePoliciesFromConfig cfg) s) \<longleftrightarrow> s = scopeManagementKey" "map_of (throttlePoliciesFromConfig cfg) s \<noteq> None" for s
    using default_hard_block overlay_facts by (auto simp: throttlePoliciesFromConfig_def split: option.split)
  have "map_of ?ps (tkScope key) \<noteq> None" by (rule overlay_facts(2) [OF cfg(2)])
  then obtain p where p: "map_of ?ps (tkScope key) = Some p" by auto
  then have "tpHardBlock p \<longleftrightarrow> tkScope key = scopeManagementKey" using overlay_facts(1) [of _ ov "tkScope key"] cfg(1) by (metis map_get_def option.simps(5))
  then show ?thesis
    by (simp add: policyFor_def applyThrottleOverride_def setPolicies_def policySnapshot_def p applySharedKeyDowngrade_def Let_def)
qed

lemma outcome_from_policy:
  "tdOutcome (evaluateLocal t key now) = outcomeBlocked \<Longrightarrow> tpHardBlock (policyFor t key)"
  "tdOutcome (snd (recordFailureLocal key now t)) = outcomeBlocked \<Longrightarrow> tpHardBlock (policyFor t key)"
  "shared_answer store t key now = Some d \<Longrightarrow> tdOutcome d = outcomeBlocked \<Longrightarrow> tpHardBlock (policyFor t key)"
  by (auto simp: evaluateLocal_entry blockOutcome_def recordFailureLocal_def fail_entry_def charge_entry_def blocked_decision_def allowed_def Let_def
      shared_answer_def sharedDecision_def split: option.splits if_splits prod.splits)

lemma recordFailureLocal_policies: "ltPolicies (fst (recordFailureLocal key now t)) = ltPolicies t"
  by (simp add: recordFailureLocal_def Let_def split: prod.split)

text \<open>
  C26: a hard ban is only ever given for guessing the management key, and only to an address that stands for a single client: whatever the
  configuration, the override, the counters and the rest of the cluster say, requests without a credential, user accounts and clients behind an undeclared proxy
  or of an address that cannot be read are at most rate limited.
\<close>

theorem hard_ban_scope:
  assumes "outcomeBlocked \<in> {tdOutcome (throttleEvaluate exempt store t' key now), tdOutcome (snd (throttleCharge exempt store key now t'))}"
    and "ltPolicies t' = ltPolicies (applyThrottleOverride cfg ov t)"
  shows "\<not> exempt \<and> tkScope key = scopeManagementKey \<and> \<not> tkShared key"
proof -
  have pol: "policyFor t' key = policyFor (applyThrottleOverride cfg ov t) key" by (rule policyFor_cong [OF assms(2)])
  have pol': "policyFor (fst (recordFailureLocal key now t')) key = policyFor t' key" by (rule policyFor_cong [OF recordFailureLocal_policies])
  have "\<not> exempt \<and> tpHardBlock (policyFor t' key)"
    using assms(1) outcome_from_policy(1) [of t' key now] outcome_from_policy(3) [of store t' key now] outcome_from_policy(2) [of key now t'] outcome_from_policy(3) [of store "fst (recordFailureLocal key now t')" key now]
    by (auto simp: throttleEvaluate_def throttleCharge_def evaluate_def recordFailure_def allowed_def Let_def pol' split: if_splits option.splits prod.splits)
  then show ?thesis using hard_block_policy pol by simp
qed

text \<open>A client whose address cannot be told apart shares its bucket.\<close>

lemma unknown_client_shared: "normalizeThrottleIP (resolveThrottlePeer clientIP req) = (unknownThrottleValue, True) \<Longrightarrow> tkShared (clientThrottleKey ps clientIP req scope)"
  by (simp add: clientThrottleKey_def)

text \<open>The bucket of a client is named after the network that an automatic ban of it would cover.\<close>

lemma throttle_value_is_ban_network:
  "trim_space raw \<noteq> '''' \<Longrightarrow> ParseIP (trim_space (strip_decorations (case SplitHostPort (trim_space raw) of Some h \<Rightarrow> h | None \<Rightarrow> trim_space raw))) = Some a \<Longrightarrow>
    normalizeThrottleIP raw = (BanCIDR a, False)"
  using ParseIP_nonempty [of _ a] by (auto simp: normalizeThrottleIP_def BanCIDR_def Let_def split: option.splits)

theorem hard_ban_scope_witness:
  "let key = \<lparr>tkScope = scopeManagementKey, tkValue = ''1.2.3.4/32'', tkShared = False\<rparr>;
       st = \<lparr>tsBlocked = True, tsRetryAfter = minute, tsGeneration = 1, tsShortCount = 10, tsLongCount = 10, tsNewlyArmed = False\<rparr>;
       none = \<lparr>toLoginFailureWindowSeconds = 0, toAccountFailureLimit = 0, toManagementKeyFailureLimit = 0, toUnauthenticatedRequestLimit = 0, toFailureResetHours = 0\<rparr>;
       t = applyThrottleOverride None none sample_throttle
   in tdOutcome (throttleEvaluate False (Some (\<lambda>_ _ _. Some st)) t key 0) = outcomeBlocked \<and> \<not> tkShared key \<and> tkScope key = scopeManagementKey"
proof -
  let ?key = "\<lparr>tkScope = scopeManagementKey, tkValue = ''1.2.3.4/32'', tkShared = False\<rparr>"
  let ?st = "\<lparr>tsBlocked = True, tsRetryAfter = minute, tsGeneration = 1, tsShortCount = 10, tsLongCount = 10, tsNewlyArmed = False\<rparr>"
  let ?none = "\<lparr>toLoginFailureWindowSeconds = 0, toAccountFailureLimit = 0, toManagementKeyFailureLimit = 0, toUnauthenticatedRequestLimit = 0, toFailureResetHours = 0\<rparr>"
  let ?t = "applyThrottleOverride None ?none sample_throttle"
  have "entry_of ?t ?key = None" using new_throttle(2) [of None ?key] by (simp add: applyThrottleOverride_def setPolicies_def sample_throttle_def entry_of_def)
  then have own: "tdOutcome (evaluateLocal ?t ?key 0) = outcomeAllow" by (simp add: evaluateLocal_entry)
  have "tpHardBlock (policyFor ?t ?key)" by (simp add: hard_block_policy)
  then have out: "tdOutcome (throttleEvaluate False (Some (\<lambda>_ _ _. Some ?st)) ?t ?key 0) = outcomeBlocked"
    using own by (simp add: throttleEvaluate_def evaluate_def shared_answer_def sharedDecision_def blockOutcome_def Let_def)
  then show ?thesis using hard_ban_scope [of False "Some (\<lambda>_ _ _. Some ?st)" ?t ?key 0 None ?none sample_throttle] by (simp add: Let_def)
qed

section \<open>Bounded memory\<close>

definition throttle_inv :: "login_throttle \<Rightarrow> bool" where
  "throttle_inv t \<longleftrightarrow> length (ltShards t) = throttleShardCount \<and> (\<forall>shard \<in> set (ltShards t). map_wf shard \<and> length shard \<le> maxShardKeys)"

inductive throttle_step :: "login_throttle \<Rightarrow> login_throttle \<Rightarrow> bool" where
  failure: "throttle_step t (fst (recordFailure store key now t))"
| success: "throttle_step t (recordSuccess key t)"
| purge: "throttle_step t (purgeStale now t)"
| policies: "throttle_step t (setPolicies ps t)"

lemma fold_map_del:
  fixes m :: "('a, 'b) gomap" and xs :: "('a \<times> 'b) list"
  assumes "map_wf m"
  shows "map_wf (fold (\<lambda>kc. map_del (fst kc)) xs m) \<and> length (fold (\<lambda>kc. map_del (fst kc)) xs m) \<le> length m \<and>
    (k \<in> fst ` set xs \<longrightarrow> map_of (fold (\<lambda>kc. map_del (fst kc)) xs m) k = None)"
  using assms
proof (induction xs arbitrary: m)
  case (Cons x xs)
  note IH = Cons.IH [OF map_wf_del [OF Cons.prems, of "fst x"]]
  have keep: "map_of (fold (\<lambda>kc. map_del (fst kc)) xs m') k = None" if "map_of m' k = None" for m' :: "('a \<times> 'b) list"
    using that by (induction xs arbitrary: m') auto
  have "map_of (map_del (fst x) m) (fst x) = None" by simp
  then show ?case using IH length_map_del_le [of "fst x" m] keep [of "map_del (fst x) m"] by (auto intro: le_trans)
qed simp

lemma throttle_evict_room:
  assumes "map_wf shard" "length shard \<le> maxShardKeys"
  shows "map_wf (throttle_evict shard) \<and> length (throttle_evict shard) < maxShardKeys"
proof (cases "length shard < maxShardKeys")
  case True
  then show ?thesis using assms(1) by (simp add: throttle_evict_def)
next
  case False
  let ?c = "sort_key (\<lambda>kc. teLastActivity (snd kc)) shard"
  have "0 < maxShardKeys" by (simp add: maxShardKeys_def maxTrackedKeys_def throttleShardCount_def)
  then have "length ?c \<noteq> 0" using False by (metis length_sort neq0_conv)
  then obtain x xs where c: "?c = x # xs" by (cases ?c) auto
  then have x: "fst x \<in> fst ` set shard" by (metis list.set_intros(1) set_sort imageI)
  obtain k where k: "max 1 (length ?c div throttleEvictBatchRatio) = Suc k" by (metis Suc_le_D max.cobounded1 One_nat_def)
  have "throttle_evict shard = fold (\<lambda>kc. map_del (fst kc)) (take k xs) (map_del (fst x) shard)"
    using False c k by (simp add: throttle_evict_def Let_def)
  moreover have "length (map_del (fst x) shard) < length shard" by (rule length_map_del_less [OF assms(1) x])
  ultimately show ?thesis using fold_map_del [OF map_wf_del [OF assms(1), of "fst x"], of "take k xs" "fst x"] assms(2) by auto
qed

lemma throttle_inv_shard:
  assumes "throttle_inv t" "map_wf shard" "length shard \<le> maxShardKeys"
  shows "throttle_inv (t\<lparr>ltShards := (ltShards t)[i := shard]\<rparr>)"
  using assms set_update_subset_insert [of "ltShards t" i shard] by (auto simp: throttle_inv_def)

lemma shard_inv: "throttle_inv t \<Longrightarrow> map_wf (ltShards t ! shardFor b) \<and> length (ltShards t ! shardFor b) \<le> maxShardKeys"
  using shardFor_less [of b] nth_mem [of "shardFor b" "ltShards t"] by (auto simp: throttle_inv_def)

lemma throttle_step_inv: "throttle_step t t' \<Longrightarrow> throttle_inv t \<Longrightarrow> throttle_inv t'"
proof (induction rule: throttle_step.induct)
  case (failure t store key now)
  let ?b = "bucketID key" and ?s = "ltShards t ! shardFor (bucketID key)"
  let ?s1 = "case map_of ?s ?b of None \<Rightarrow> throttle_evict ?s | Some _ \<Rightarrow> ?s"
  note s = shard_inv [OF failure, of ?b]
  have "map_wf ?s1 \<and> length (map_put ?b e ?s1) \<le> maxShardKeys" for e
  proof (cases "map_of ?s ?b")
    case None
    then show ?thesis using throttle_evict_room [of ?s] s length_map_put [of ?b e "throttle_evict ?s"] by (auto split: if_splits)
  next
    case (Some x)
    then have "?b \<in> fst ` set ?s" by (metis map_of_eq_None_iff option.distinct(1))
    then show ?thesis using Some s length_map_put [of ?b e ?s] by auto
  qed
  then show ?case
    using failure by (auto simp: recordFailure_def recordFailureLocal_def Let_def split: prod.splits intro!: throttle_inv_shard)
next
  case (success t key)
  have "length (map_del (bucketID key) (ltShards t ! shardFor (bucketID key))) \<le> maxShardKeys"
    using shard_inv [OF success, of "bucketID key"] by (blast intro: le_trans length_map_del_le)
  then show ?case using shard_inv [OF success, of "bucketID key"] success by (auto simp: recordSuccess_def Let_def intro!: throttle_inv_shard)
next
  case (purge t now)
  then show ?case
    by (auto simp: throttle_inv_def purgeStale_def intro: distinct_map_filter le_trans [OF length_filter_le])
next
  case (policies t ps)
  then show ?case by (simp add: throttle_inv_def setPolicies_def)
qed

interpretation throttle: invariant_system "\<lambda>t. \<exists>ps. t = newLoginThrottle ps" throttle_step throttle_inv
proof
  show "throttle_inv t" if "\<exists>ps. t = newLoginThrottle ps" for t
    using that by (auto simp: throttle_inv_def newLoginThrottle_def setPolicies_def)
qed (rule throttle_step_inv)

text \<open>
  C27: an attacker cannot fill the memory: however many buckets are minted, the throttle never tracks more than the 20000 it is allowed.
\<close>

theorem throttle_bounded:
  assumes "throttle_step\<^sup>*\<^sup>* (newLoginThrottle ps) t"
  shows "trackedKeys t \<le> maxTrackedKeys"
proof -
  have inv: "throttle_inv t" by (rule throttle.inv_reachable [OF _ assms]) blast
  have "sum_list (map length (ltShards t)) \<le> sum_list (map (\<lambda>_. maxShardKeys) (ltShards t))"
    using inv by (intro sum_list_mono) (simp add: throttle_inv_def)
  also have "\<dots> = throttleShardCount * maxShardKeys" using inv by (simp add: throttle_inv_def sum_list_triv)
  also have "\<dots> \<le> maxTrackedKeys" by (simp add: maxShardKeys_def)
  finally show ?thesis by (simp add: trackedKeys_def)
qed

theorem throttle_bounded_witness:
  "trackedKeys (fst (recordFailure None sample_key 5 (newLoginThrottle None))) \<le> maxTrackedKeys"
  by (rule throttle_bounded, rule r_into_rtranclp, rule throttle_step.failure)

text \<open>The purge keeps every bucket that is blocked.\<close>

lemma purge_keeps_blocked: "map_of (ltShards (purgeStale now t) ! i) k = Some e" if "i < length (ltShards t)" "map_wf (ltShards t ! i)" "map_of (ltShards t ! i) k = Some e" "now < teBlockedUntil e"
proof -
  have "(k, e) \<in> set (ltShards t ! i)" by (rule map_of_SomeD [OF that(3)])
  then show ?thesis using that by (simp add: purgeStale_def distinct_map_filter)
qed

text \<open>
  The eviction of a full shard does not: a blocked bucket that was used least recently is dropped with its block.
\<close>

lemma eviction_sheds_block:
  assumes "map_wf shard" "maxShardKeys \<le> length shard" "kc \<in> set shard"
    and "\<And>x. x \<in> set shard \<Longrightarrow> x \<noteq> kc \<Longrightarrow> teLastActivity (snd kc) < teLastActivity (snd x)"
  shows "map_of (throttle_evict shard) (fst kc) = None"
proof -
  let ?f = "\<lambda>kc. teLastActivity (snd kc)" and ?n = "max 1 (length shard div throttleEvictBatchRatio)"
  obtain x xs where c: "sort_key ?f shard = x # xs" using assms(3) by (cases "sort_key ?f shard") (auto dest: arg_cong [of _ _ set])
  have x: "x \<in> set shard" using c by (metis list.set_intros(1) set_sort)
  have "?f x \<le> ?f kc" using sorted_sort_key [of ?f shard] assms(3) c by (metis (no_types, lifting) list.simps(9) set_ConsD set_sort sorted_simps(2) imageI list.set_map order_refl)
  then have "x = kc" using assms(4) [OF x] by force
  moreover have "x \<in> set (take ?n (sort_key ?f shard))" using c by (cases ?n) auto
  ultimately have "fst kc \<in> fst ` set (take ?n (sort_key ?f shard))" by blast
  then have "map_of (fold (\<lambda>kc. map_del (fst kc)) (take ?n (sort_key ?f shard)) shard) (fst kc) = None" using fold_map_del [OF assms(1)] by blast
  then show ?thesis using assms(2) by (simp add: throttle_evict_def Let_def)
qed

end
