(* ===== verification/Spec2Isabelle.thy ===== *)
theory Spec2Isabelle
  imports Routing_Models Thinking_Apply Peer_Cooldown Registry_Queries Quota_Reconcile Stream_Forward IP_Admin Login_Throttle
begin

text \<open>
  CliRelay is a proxy server in front of several AI providers. A request passes the access control by address
  and authenticates; it names a model, and the conductor finds the credentials that may serve it, selects one, waits for one of
  the concurrency slots of the account, rewrites the request (among other things its thinking budget) for the provider,
  sends it, and records the outcome in the state of the credential and in the model registry, which in turn decide whether the
  credential is offered to later requests. The processes of a cluster tell each other about cooldowns and share sessions. This
  development models that path. File names below are relative to \<^verbatim>\<open>src/\<close>, those without a directory to \<^verbatim>\<open>src/sdk/cliproxy/auth\<close>.

  \<^bold>\<open>Foundations.\<close>

  \<^item> \<^verbatim>\<open>Go_Base\<close>: the fragment of Go the code uses. Strings are character lists with ASCII case mapping
    and trimming, times and durations are integers in nanoseconds with \<^verbatim>\<open>0\<close> for the zero time, \<^verbatim>\<open>int\<close>
    arithmetic that may overflow is wrapped by \<^verbatim>\<open>wrap64\<close>, maps are association lists with
    \<^verbatim>\<open>map_get\<close>, \<^verbatim>\<open>map_put\<close> and \<^verbatim>\<open>map_del\<close> (the order of the list is the iteration order). The locale
    \<^verbatim>\<open>invariant_system\<close> holds the argument for invariants of step relations; it is interpreted for the concurrency limiter
    (\<^verbatim>\<open>slots\<close>), the model registry (\<^verbatim>\<open>reg\<close>, \<^verbatim>\<open>reg_named\<close>) and the login throttle (\<^verbatim>\<open>throttle\<close>).

  \<^item> \<^verbatim>\<open>Slot_Ring\<close>: the locale \<^verbatim>\<open>sliding_window\<close> for counting events in a ring of slots; interpreted for the automatic bans (\<^verbatim>\<open>ban\<close>)
    and both windows of the login throttle (\<^verbatim>\<open>short\<close>, \<^verbatim>\<open>long\<close>).

  \<^bold>\<open>Access by address and throttling\<close> (\<^verbatim>\<open>internal/ipaccess\<close>, \<^verbatim>\<open>internal/api/handlers/management\<close>).

  \<^item> \<^verbatim>\<open>IP_Address\<close>: addresses, masks, networks and their text, as the Go packages \<^verbatim>\<open>net\<close> and \<^verbatim>\<open>net/netip\<close> define them for the functions used.

  \<^item> \<^verbatim>\<open>IP_Rules\<close>: \<^verbatim>\<open>rule.go\<close>, \<^verbatim>\<open>matcher.go\<close>. A typed network is stored in one canonical form, and the index by prefix length gives the
    verdict of the plain longest-prefix rule.

  \<^item> \<^verbatim>\<open>IP_Protection\<close>: \<^verbatim>\<open>policy.go\<close>, \<^verbatim>\<open>forwarded.go\<close>, \<^verbatim>\<open>trust.go\<close>, \<^verbatim>\<open>protected.go\<close>, \<^verbatim>\<open>registry.go\<close>. Who the client behind proxies is, exactly which
    requests are refused, and that protected addresses never are.

  \<^item> \<^verbatim>\<open>Auto_Ban\<close>: \<^verbatim>\<open>autoban.go\<close>, \<^verbatim>\<open>alert.go\<close>. The windows count exactly, a ban is decided once and only for a source over the threshold.

  \<^item> \<^verbatim>\<open>Rule_Store\<close>: \<^verbatim>\<open>store.go\<close>. The invariant of the table in every reachable state, that automatic bans respect the rules of the operator, and end
    to end that a ban reported as enforced refuses the requests from the network.

  \<^item> \<^verbatim>\<open>IP_Admin\<close>: \<^verbatim>\<open>ip_access.go\<close>, \<^verbatim>\<open>ip_access_bulk.go\<close>, \<^verbatim>\<open>ip_access_events.go\<close>. The guards that keep an operator from locking himself out.

  \<^item> \<^verbatim>\<open>Login_Throttle\<close>: \<^verbatim>\<open>login_throttle*.go\<close>, \<^verbatim>\<open>ip_access_throttle.go\<close>. When a bucket is blocked, whom a hard ban may hit, and the bound on
    the buckets. Two lemmas show where the code falls short of its comments: a failure of the oldest slot may be missed, and the eviction may drop a block.

  \<^bold>\<open>Models and thinking.\<close>

  \<^item> \<^verbatim>\<open>Routing_Models\<close>: \<^verbatim>\<open>sdk/routing/group_models.go\<close> and \<^verbatim>\<open>scope.go\<close>, the wildcard patterns by which a
    channel group includes or excludes models. The matcher is proved equal to the inductive meaning of a pattern.

  \<^item> \<^verbatim>\<open>Thinking_Suffix\<close>, \<^verbatim>\<open>Model_Info\<close>, \<^verbatim>\<open>Thinking_Config\<close>, \<^verbatim>\<open>Thinking_Apply\<close>: \<^verbatim>\<open>internal/thinking\<close>. The suffix
    parsers in their three copies, the model description of \<^verbatim>\<open>internal/registry\<close>, the conversion between levels and budgets,
    \<^verbatim>\<open>ValidateConfig\<close>, and the extraction, stripping and application of a configuration. Budgets stay in the range of a registered
    model, levels are listed ones, and the parsers agree and round-trip.

  \<^item> \<^verbatim>\<open>Model_Registry\<close>, \<^verbatim>\<open>Registry_Queries\<close>: \<^verbatim>\<open>internal/registry/model_registry.go\<close>, \<^verbatim>\<open>model_registry_queries.go\<close>. The operations are the
    steps \<^verbatim>\<open>rstep\<close>; the counters are exact in every reachable registry, and the incremental reconciliation equals removing and
    registering anew.

  \<^bold>\<open>The state of credentials.\<close>

  \<^item> \<^verbatim>\<open>Auth_State\<close>: \<^verbatim>\<open>types.go\<close>, \<^verbatim>\<open>conductor_result_state.go\<close>, \<^verbatim>\<open>conductor_failure_state.go\<close> and the Antigravity quota families. The
    records \<^verbatim>\<open>auth\<close>, \<^verbatim>\<open>model_state\<close> and \<^verbatim>\<open>quota_state\<close> have the fields of the structs.

  \<^item> \<^verbatim>\<open>Claude_Health\<close>: \<^verbatim>\<open>claude_oauth_health.go\<close>, rate-limit windows and failures of Claude credentials.

  \<^item> \<^verbatim>\<open>Auth_Availability\<close>: \<^verbatim>\<open>selector_availability.go\<close>, \<^verbatim>\<open>selector_weight.go\<close>, \<^verbatim>\<open>selector_errors.go\<close>: whether a credential is blocked for a
    model and until when, and the candidates a selector starts from.

  \<^item> \<^verbatim>\<open>Auth_Cooldown\<close>: \<^verbatim>\<open>conductor_cooldown_service.go\<close>, \<^verbatim>\<open>conductor_error_helpers.go\<close>. How an outcome changes a credential, which errors change nothing, and
    when a request is tried again.

  \<^item> \<^verbatim>\<open>Peer_Cooldown\<close>: \<^verbatim>\<open>conductor_cooldown_cluster.go\<close>. The locale \<^verbatim>\<open>latest_wins\<close>, interpreted on the code, gives the deadline in force
    after notices that arrived late, twice or out of order, each at its own time.

  \<^item> \<^verbatim>\<open>Quota_Reconcile\<close>: quota probes, the manual reset, and the quota state saved and restored with a credential.

  \<^bold>\<open>Selection and execution.\<close>

  \<^item> \<^verbatim>\<open>Auth_Selectors\<close>: \<^verbatim>\<open>selector.go\<close>, \<^verbatim>\<open>selector_weighted.go\<close>, \<^verbatim>\<open>selector_least_load.go\<close>, \<^verbatim>\<open>account_load.go\<close>. The locale \<^verbatim>\<open>selector\<close> is the
    contract of the Go interface \<^verbatim>\<open>Selector\<close>; it is interpreted for round-robin, fill-first and least-load here, for session stickiness and its
    distribution in \<^verbatim>\<open>Session_Sticky\<close>, and for the selector of a scope in \<^verbatim>\<open>Selection\<close>. Smooth weighted round-robin is proved fair.

  \<^item> \<^verbatim>\<open>Routing_Scheduling\<close>, \<^verbatim>\<open>Routing_Groups\<close>: the configuration of channel groups and its runtime snapshot, the groups, weights and models of a
    request.

  \<^item> \<^verbatim>\<open>Session_Sticky\<close>: \<^verbatim>\<open>selector_session_sticky*.go\<close> and \<^verbatim>\<open>internal/cluster/sharedstate/affinity.go\<close>. A session bound by one process is continued
    by another.

  \<^item> \<^verbatim>\<open>Concurrency\<close>: \<^verbatim>\<open>account_concurrency*.go\<close>. Every critical section of the limiter is a function on the
    record \<^verbatim>\<open>limiter\<close>, and concurrent requests interleave them as the steps of the relation \<^verbatim>\<open>lstep\<close>, in a process on its own and in one of a cluster,
    where a reservation, the question to the coordinator and its settlement are separate steps. Limits and the answers of the coordinator may change
    at any time. In every reachable state: conservation of slots here and at the coordinator, the limit, and work conservation. The functions that
    run a whole acquisition (\<^verbatim>\<open>AcquireSlot\<close>, \<^verbatim>\<open>acquireOrEnqueueCluster\<close>, \<^verbatim>\<open>poll_slot\<close>, \<^verbatim>\<open>giveUp\<close>) are shown to be runs of these steps.

  \<^item> \<^verbatim>\<open>Selection\<close>: \<^verbatim>\<open>conductor_selector_service.go\<close>, \<^verbatim>\<open>selection_diagnostics.go\<close>. A pick is in the scope of its request, and is found where there is one.

  \<^item> \<^verbatim>\<open>Execution\<close>, \<^verbatim>\<open>Stream_Forward\<close>: \<^verbatim>\<open>conductor_execution_service.go\<close>, \<^verbatim>\<open>conductor_execution.go\<close> and the forwarding of streams. A request ends,
    records every call, and gives every slot back once.

  \<^bold>\<open>Composition.\<close> This theory joins the parts: recording a result and carrying out its registry calls, a pick against the registry that the
  clients filled, and a failure in one process that blocks the credential in another.

  \<^bold>\<open>Termination.\<close> All functions are total, by structural recursion or by a measure, except the loops of \<^verbatim>\<open>Execution\<close> over candidates and retries, which
  need not end while other requests keep adding credentials. These are \<^verbatim>\<open>partial_function (option)\<close>, without fuel, and are proved to return whenever
  the credentials come from a finite pool and the retry overrides are bounded. Hypotheses on the size of integers appear where the code would wrap.

  \<^bold>\<open>Parameters.\<close> JSON access (\<^verbatim>\<open>gjson\<close>, \<^verbatim>\<open>sjson\<close>, \<^verbatim>\<open>encoding/json\<close>), \<^verbatim>\<open>fmt.Sprint\<close>, digests, the clock, random numbers and the exponential of the decay,
  provider appliers and upstream calls, model aliases, the session key found in a request body, the parsing of instants in management requests, which statements
  of the rule database fail, the answers of the slot coordinator of a cluster, and the counters and buckets that a
  cluster shares in Redis. Floating-point numbers are rationals.

  \<^bold>\<open>What is not modelled.\<close> Translators and executors (JSON rewriting and HTTP), the database layer and its generated code, the service behind
  the slot coordinator, the hook and the static catalogue of the model registry, path routes, listings and status pages of the management interface, background loops
  (refresh, purge timers, watchers), login flows, usage accounting and the updater. Of the modelled files, logging and the rendering of
  error bodies are left out.
\<close>

section \<open>Results reach the model registry\<close>

text \<open>The calls that recording a result makes, carried out by the registry at the time \<open>now\<close>.\<close>

fun call_registry :: "gotime \<Rightarrow> registry_call \<Rightarrow> registry \<Rightarrow> registry" where
  "call_registry now (ClearModelQuotaExceeded c i) = registry_ClearModelQuotaExceeded c i"
| "call_registry now (SetModelQuotaExceeded c i) = registry_SetModelQuotaExceeded c i now"
| "call_registry now (ResumeClientModel c i) = registry_ResumeClientModel c i now"
| "call_registry now (SuspendClientModel c i reason) = registry_SuspendClientModel c i reason now"

text \<open>The quota mark and the suspension of a client at a model, where the model is registered.\<close>

definition marks_of :: "registry \<Rightarrow> string \<Rightarrow> string \<Rightarrow> (gotime option \<times> string option) option" where
  "marks_of r c i = map_option (\<lambda>g. (map_of (rgQuotaExceeded g) c, map_of (rgSuspended g) c)) (map_of (ryModels r) i)"

lemma call_registry_step: "rstep r (call_registry now call r)"
  by (cases call) (simp_all add: rstep.intros)

lemma call_registry_reachable: "rstep\<^sup>*\<^sup>* r0 r \<Longrightarrow> rstep\<^sup>*\<^sup>* r0 (fold (call_registry now) calls r)"
  by (induction calls arbitrary: r) (auto intro: rtranclp.rtrancl_into_rtrancl call_registry_step)

fun call_target :: "registry_call \<Rightarrow> string \<times> string" where
  "call_target (ClearModelQuotaExceeded c i) = (c, i)"
| "call_target (SetModelQuotaExceeded c i) = (c, i)"
| "call_target (ResumeClientModel c i) = (c, i)"
| "call_target (SuspendClientModel c i reason) = (c, i)"

lemmas registry_marks = registry_ClearModelQuotaExceeded_def registry_SetModelQuotaExceeded_def
  registry_ResumeClientModel_def registry_SuspendClientModel_def at_model_def

lemma call_registry_frame:
  "call_target call \<noteq> (c, i) \<Longrightarrow> marks_of (call_registry now call r) c i = marks_of r c i"
  "ryClientModels (call_registry now call r) = ryClientModels r"
  by (cases call; auto simp: marks_of_def registry_marks put_model_def split: option.split)+

lemma calls_frame:
  "list_all (\<lambda>x. call_target x = t) calls \<Longrightarrow> t \<noteq> (c, i) \<Longrightarrow> marks_of (fold (call_registry now) calls r) c i = marks_of r c i"
  "ryClientModels (fold (call_registry now) calls r) = ryClientModels r"
  by (induction calls arbitrary: r) (auto simp: call_registry_frame)

lemma marks_of_call:
  assumes "c \<noteq> ''''" "i \<noteq> ''''"
  shows "marks_of (call_registry now (ClearModelQuotaExceeded c i) r) c i = map_option (\<lambda>(q, s). (None, s)) (marks_of r c i)"
    "marks_of (call_registry now (SetModelQuotaExceeded c i) r) c i = map_option (\<lambda>(q, s). (Some now, s)) (marks_of r c i)"
    "marks_of (call_registry now (ResumeClientModel c i) r) c i = map_option (\<lambda>(q, s). (q, None)) (marks_of r c i)"
    "marks_of (call_registry now (SuspendClientModel c i reason) r) c i =
       map_option (\<lambda>(q, s). (q, Some (case s of None \<Rightarrow> reason | Some x \<Rightarrow> x))) (marks_of r c i)"
  using assms by (auto simp: marks_of_def registry_marks split: option.split)

lemma success_calls:
  assumes "rSuccess res" "markResult unmarshal sprint off publishing auths res now = (auths', calls, n, probe)" "calls \<noteq> []"
  shows "calls = [ClearModelQuotaExceeded (rAuthID res) (rModel res), ResumeClientModel (rAuthID res) (rModel res)] \<and>
    rAuthID res \<noteq> '''' \<and> rModel res \<noteq> ''''"
proof -
  have calls: "calls = fst (snd (markResult unmarshal sprint off publishing auths res now))" using assms(2) by simp
  then obtain a where a: "calls = applyRegistryEffects res (snd (applyResultLocked unmarshal sprint off a res now))" "rAuthID res \<noteq> ''''"
    using assms(3) by (auto simp: markResult_calls split: if_splits option.splits)
  have "snd (applyResultLocked unmarshal sprint off a res now) \<in> {no_effects, no_effects\<lparr>fShouldResume := True, fClearQuota := True\<rparr>}"
    using assms(1) by (simp add: applyResultLocked_def applySuccessLocked_def Let_def)
  then have "snd (applyResultLocked unmarshal sprint off a res now) = no_effects\<lparr>fShouldResume := True, fClearQuota := True\<rparr>"
    using a(1) assms(3) by (auto simp: applyRegistryEffects_def no_effects_def)
  moreover have "rModel res \<noteq> ''''"
    using calculation result_fx(2) [of res unmarshal sprint off a now] by (auto simp: no_effects_def)
  ultimately show ?thesis using a by (simp add: applyRegistryEffects_def no_effects_def)
qed

lemma calls_of_effects:
  "list_all (\<lambda>x. call_target x = (rAuthID res, rModel res)) (applyRegistryEffects res fx)"
  "SuspendClientModel c i reason \<in> set (applyRegistryEffects res fx) \<Longrightarrow>
     \<exists>pre. applyRegistryEffects res fx = pre @ [SuspendClientModel (rAuthID res) (rModel res) reason]"
  by (auto simp: applyRegistryEffects_def split: if_splits)

lemma markResult_calls_cases:
  assumes "markResult unmarshal sprint off publishing auths res now = (auths', calls, n, probe)"
  obtains "calls = []"
  | fx where "calls = applyRegistryEffects res fx" "rAuthID res \<noteq> ''''" "rModel res = '''' \<Longrightarrow> fx = no_effects"
proof -
  have calls: "calls = fst (snd (markResult unmarshal sprint off publishing auths res now))" using assms by simp
  show ?thesis
  proof (cases "calls = []")
    case False
    then obtain a where "calls = applyRegistryEffects res (snd (applyResultLocked unmarshal sprint off a res now))" "rAuthID res \<noteq> ''''"
      using calls by (auto simp: markResult_calls split: if_splits option.splits)
    then show ?thesis using that(2) result_fx(2) by blast
  qed (rule that(1))
qed

text \<open>
  C10: recording a result and carrying out the registry calls it makes: the registry stays in a state its own operations lead to and
  no client's models change; only the marks of the credential and the model of the result can change; after a success that
  is announced at all the client has neither a quota mark nor a suspension at that model, and after a failure that is
  announced as a suspension the client is suspended there.
\<close>

theorem result_reaches_registry:
  assumes "rstep\<^sup>*\<^sup>* newRegistry r" "markResult unmarshal sprint off publishing auths res now = (auths', calls, n, probe)"
  defines "r' \<equiv> fold (call_registry now) calls r"
  shows "rstep\<^sup>*\<^sup>* newRegistry r' \<and> ryClientModels r' = ryClientModels r \<and>
    (\<forall>c i. (c, i) \<noteq> (rAuthID res, rModel res) \<longrightarrow> marks_of r' c i = marks_of r c i) \<and>
    (rSuccess res \<and> calls \<noteq> [] \<longrightarrow> marks_of r' (rAuthID res) (rModel res) \<in> {None, Some (None, None)}) \<and>
    (\<forall>c i reason q s. SuspendClientModel c i reason \<in> set calls \<and> marks_of r' (rAuthID res) (rModel res) = Some (q, s) \<longrightarrow> s \<noteq> None)"
proof (intro conjI allI impI)
  let ?c = "rAuthID res" and ?i = "rModel res"
  show "rstep\<^sup>*\<^sup>* newRegistry r'" unfolding r'_def by (rule call_registry_reachable [OF assms(1)])
  show "ryClientModels r' = ryClientModels r" by (simp add: r'_def calls_frame(2))
  have "list_all (\<lambda>x. call_target x = (?c, ?i)) calls"
    using assms(2) by (rule markResult_calls_cases) (simp_all add: calls_of_effects(1))
  then show "marks_of r' c i = marks_of r c i" if "(c, i) \<noteq> (?c, ?i)" for c i
    unfolding r'_def using that by (intro calls_frame(1)) auto
  show "marks_of r' ?c ?i \<in> {None, Some (None, None)}" if ok: "rSuccess res \<and> calls \<noteq> []"
  proof -
    from success_calls [OF _ assms(2)] ok
    have "calls = [ClearModelQuotaExceeded ?c ?i, ResumeClientModel ?c ?i]" "?c \<noteq> ''''" "?i \<noteq> ''''" by blast+
    then show ?thesis unfolding r'_def by (cases "marks_of r ?c ?i") (auto simp: marks_of_call simp del: call_registry.simps)
  qed
  show "s \<noteq> None" if s: "SuspendClientModel c i reason \<in> set calls \<and> marks_of r' ?c ?i = Some (q, s)" for c i reason q s
    using assms(2)
  proof (rule markResult_calls_cases)
    fix fx
    assume fx: "calls = applyRegistryEffects res fx" "?c \<noteq> ''''" "?i = '''' \<Longrightarrow> fx = no_effects"
    then obtain pre where pre: "calls = pre @ [SuspendClientModel ?c ?i reason]" using s calls_of_effects(2) by blast
    have "applyRegistryEffects res no_effects = []" by (simp add: applyRegistryEffects_def no_effects_def)
    then have "?i \<noteq> ''''" using fx(1,3) pre by force
    then have "marks_of r' ?c ?i = map_option (\<lambda>(q, s). (q, Some (case s of None \<Rightarrow> reason | Some x \<Rightarrow> x)))
        (marks_of (fold (call_registry now) pre r) ?c ?i)"
      unfolding r'_def pre fold_append o_apply fold_Cons fold_Nil id_apply using fx(2) by (intro marks_of_call(4))
    with s show ?thesis by (cases "marks_of (fold (call_registry now) pre r) ?c ?i") auto
  qed (use s in simp)
qed

theorem result_reaches_registry_witness:
  "let calls = fst (snd (markResult (\<lambda>_. None) (\<lambda>_. '''') False False [(''a'', Some failing_auth)] answered 5));
       r = registry_SuspendClientModel ''a'' ''m'' ''quota'' 4 (RegisterClient ''a'' ''codex'' [Some (plain_model ''m'')] 3 newRegistry)
   in marks_of r ''a'' ''m'' = Some (None, Some ''quota'') \<and> marks_of (fold (call_registry 5) calls r) ''a'' ''m'' \<in> {None, Some (None, None)}"
proof -
  let ?mark = "markResult (\<lambda>_. None) (\<lambda>_. '''') False False [(''a'', Some failing_auth)] answered 5"
  let ?r = "registry_SuspendClientModel ''a'' ''m'' ''quota'' 4 (RegisterClient ''a'' ''codex'' [Some (plain_model ''m'')] 3 newRegistry)"
  have "rstep\<^sup>*\<^sup>* newRegistry ?r"
    by (rule rtranclp.rtrancl_into_rtrancl, rule rtranclp.rtrancl_into_rtrancl, rule rtranclp.rtrancl_refl)
      (rule rstep.register rstep.suspend)+
  moreover obtain auths' calls n probe where m: "?mark = (auths', calls, n, probe)" by (metis prod_cases4)
  moreover have "marks_of ?r ''a'' ''m'' = Some (None, Some ''quota'')" "rSuccess answered" "rAuthID answered = ''a''"
    "rModel answered = ''m''" "fst (snd ?mark) \<noteq> []" by code_simp+
  ultimately show ?thesis using result_reaches_registry [of ?r, OF _ m] by (simp add: Let_def)
qed

section \<open>Picks and the models of the registry\<close>

definition registry_view :: "registry \<Rightarrow> model_registry" where
  "registry_view r = \<lparr>mrModels = (\<lambda>c. map miID (GetModelsForClient r c)), mrSupports = ClientSupportsModel r\<rparr>"

lemma GetModelsForClient_empty:
  assumes "rstep\<^sup>*\<^sup>* newRegistry r"
  shows "GetModelsForClient r c = [] \<longleftrightarrow> map_get [] (ryClientModels r) c = []"
proof (cases "map_of (ryClientModels r) c")
  case (Some ids)
  have wf: "registry_wf r" using assms by (rule reachable_wf)
  have "map_of (ryModels r) i \<noteq> None" if "i \<in> set ids" for i
  proof -
    have "refs r i \<noteq> {#}" using map_of_SomeD [OF Some] that by (auto simp: refs_empty)
    then show ?thesis using wf by (auto simp: registry_wf_def counts_def split: option.splits)
  qed
  then have "List.map_filter (\<lambda>i. case map_of (map_get [] (ryClientInfos r) c) i of Some info \<Rightarrow> Some info
      | None \<Rightarrow> map_option rgInfo (map_of (ryModels r) i)) (uniq ids) = [] \<longleftrightarrow> uniq ids = []"
    by (cases "uniq ids") (auto simp: List.map_filter_def filter_empty_conv split: option.splits simp flip: set_uniq [of ids])
  moreover have "uniq ids = [] \<longleftrightarrow> ids = []" by (metis set_uniq set_empty)
  ultimately show ?thesis using Some by (simp add: GetModelsForClient_def map_get_def)
qed (simp add: GetModelsForClient_def map_get_def)

text \<open>
  C9: with the registry in place, a request for a named model is only ever given to a credential whose latest registration lists that model,
  up to case, under its own name or prefixed by one of the credential's channel groups; a credential that has
  registered nothing may also be chosen, unless it excludes all models.
\<close>

theorem pick_serves_registered:
  assumes "0 \<le> now" "manager_wf m" "rstep\<^sup>*\<^sup>* newRegistry r" "mgRegistry m = Some (registry_view r)"
    and "normalizeSelectionModelKey model \<noteq> ''''"
    and "pickMixed env m providers model opts tried now s = (m', s', Inr (a, provider))"
  shows "\<exists>x. map_of (mgAuths m) (aID a) = Some (Some x) \<and>
    (map_get [] (ryClientModels r) (aID x) = [] \<and> \<not> authHasDisableAllModelsRule x \<or>
     (\<exists>ids i pre. map_of (ryClientModels r) (trim_space (aID x)) = Some ids \<and> i \<in> set ids \<and>
        equal_fold (trim_space i) (trim_space (pre @ normalizeSelectionModelKey model)) \<and>
        (pre = '''' \<or>
         (\<exists>g \<in> authGroups (Some (currentRuntimeConfigForTenant m (tenantIDFromMetadata (opMeta opts)))) x. pre = g @ ''/''))))"
proof -
  let ?key = "normalizeSelectionModelKey model" and ?cfg = "Some (currentRuntimeConfigForTenant m (tenantIDFromMetadata (opMeta opts)))"
  from pickMixed_scope [OF assms(1,2,6)] obtain x grp where x: "map_of (mgAuths m) (aID a) = Some (Some x)"
    and sc: "in_scope m model (opMeta opts) grp tried x" by blast
  have listed: "\<exists>ids i. map_of (ryClientModels r) (trim_space c) = Some ids \<and> i \<in> set ids \<and> equal_fold (trim_space i) (trim_space n)"
    if "ClientSupportsModel r c n" for c n
    using that by (auto simp: ClientSupportsModel_def Let_def list_ex_iff split: if_splits option.splits)
  have "candidateSupportsModel (mgDiscovered m) ?cfg (Some (registry_view r)) x ?key grp (allowedChannelGroupsFromMetadata (opMeta opts))"
    using sc assms(4,5) by (simp add: in_scope_def Let_def)
  then consider "GetModelsForClient r (aID x) = []" "\<not> authHasDisableAllModelsRule x" | "ClientSupportsModel r (aID x) ?key"
    | g where "g \<in> try_groups (authGroups ?cfg x) grp (allowedChannelGroupsFromMetadata (opMeta opts))"
        "ClientSupportsModel r (aID x) (g @ ''/'' @ ?key)"
    by (auto simp: candidateSupportsModel_def candidateSupportsModelOpts_def registry_view_def Let_def split: if_splits)
  then show ?thesis
  proof cases
    case 1
    then show ?thesis using x GetModelsForClient_empty [OF assms(3)] by blast
  next
    case 2
    with listed x show ?thesis by (metis append_Nil)
  next
    case (3 g)
    then have "g \<in> authGroups ?cfg x" by (auto simp: try_groups_def Let_def split: if_splits)
    moreover obtain ids i where "map_of (ryClientModels r) (trim_space (aID x)) = Some ids" "i \<in> set ids"
      "equal_fold (trim_space i) (trim_space ((g @ ''/'') @ ?key))"
      using listed [OF 3(2)] by auto
    ultimately show ?thesis using x by blast
  qed
qed

definition desk_registry :: registry where
  "desk_registry = RegisterClient ''a1'' ''codex'' [Some (plain_model ''GPT-5'')] 3 newRegistry"

definition stocked_desk :: manager where
  "stocked_desk = desk\<lparr>mgRegistry := Some (registry_view desk_registry)\<rparr>"

lemma stocked_desk_facts:
  "map_of (mgAuths stocked_desk) ''a1'' = Some (Some desk_alice)"
  "''pro'' = initialRouteGroup (request_scope stocked_desk ''gpt-5'' desk_opts)"
  "in_scope stocked_desk ''gpt-5'' (opMeta desk_opts) ''pro'' {} desk_alice"
  "mixed_include stocked_desk [''codex''] desk_opts desk_alice"
  "desk_candidate = prepareCandidateForSelection (scoCfg (request_scope stocked_desk ''gpt-5'' desk_opts)) desk_alice ''pro''
     (scoGroups (request_scope stocked_desk ''gpt-5'' desk_opts))"
  "\<not> blocked desk_candidate ''gpt-5'' 5" "authParticipatesInSelection desk_candidate"
  "HasAvailableSlot (mgCoord stocked_desk) (mgLimiter stocked_desk) desk_candidate"
  "pool_weight (buildCandidatesLocked stocked_desk (request_scope stocked_desk ''gpt-5'' desk_opts) ''pro'' {}
     (mixed_include stocked_desk [''codex''] desk_opts)) \<le> maxInt64"
  by code_simp+

theorem pick_serves_registered_witness:
  "\<exists>m' s' a p. pickMixed (plain_env None) stocked_desk [''codex''] ''gpt-5'' desk_opts {} 5 fresh_sched = (m', s', Inr (a, p)) \<and>
     (\<exists>x. map_of (mgAuths stocked_desk) (aID a) = Some (Some x) \<and>
       (map_get [] (ryClientModels desk_registry) (aID x) = [] \<or> (\<exists>ids. map_of (ryClientModels desk_registry) (trim_space (aID x)) = Some ids)))"
proof -
  obtain m' s' a p where pick: "pickMixed (plain_env None) stocked_desk [''codex''] ''gpt-5'' desk_opts {} 5 fresh_sched = (m', s', Inr (a, p))"
    using pickMixed_succeeds [OF _ stocked_desk_facts] by force
  have "manager_wf stocked_desk" "normalizeSelectionModelKey ''gpt-5'' \<noteq> ''''" by code_simp+
  moreover have "rstep\<^sup>*\<^sup>* newRegistry desk_registry" unfolding desk_registry_def by (rule r_into_rtranclp) (rule rstep.register)
  moreover have "mgRegistry stocked_desk = Some (registry_view desk_registry)" by (simp add: stocked_desk_def)
  ultimately show ?thesis using pick_serves_registered [OF _ _ _ _ _ pick] pick by (metis (no_types, lifting) zero_le_numeral)
qed

section \<open>Cooldowns between processes\<close>

text \<open>
  C11: A failure that makes one process announce a cooldown of a credential for a model makes another process that has the credential hold it
  back for that model. From the arrival of the notice on, with the name of its sender filled in, the credential is blocked there for the model
  until the deadline the first process has recorded, or for the thirty minutes a notice may ask for, whichever is sooner. Two conditions on the
  other process: it does not ignore the notice, as it does for quota and back-off failures of a credential whose cooldowns are switched
  off; and a cooldown it has recorded itself, which it keeps when it is the longer one, does block the credential.
\<close>

theorem cooldown_reaches_peer:
  assumes mark: "markResult unmarshal sprint off True auths res now = (auths', calls, Some n, probe)"
    and ids: "\<And>k a. map_of auths k = Some (Some a) \<Longrightarrow> aID a = k"
    and peer: "map_of peer (rAuthID res) = Some (Some b)" "trim_space (rAuthID res) \<noteq> ''''" "0 \<le> t"
    and heard: "\<not> peerCooldownSuppressed off' b n"
    and own: "\<forall>T. t \<le> T \<and> T < fst (cooldownDeadline b (rModel res) t) \<longrightarrow> blocked b (rModel res) T"
  shows "\<exists>b'. map_of (fst (ApplyPeerCooldown off' t (n\<lparr>nOrigin := sender\<rparr>) peer)) (rAuthID res) = Some (Some b') \<and>
    (\<forall>T. t \<le> T \<and> T < min (peer_seen now (rAuthID res) (rModel res) auths') (t + maxPeerCooldown) \<longrightarrow> blocked b' (rModel res) T)"
proof -
  let ?c = "rAuthID res" and ?i = "rModel res" and ?n = "n\<lparr>nOrigin := sender\<rparr>"
  obtain a where a: "map_of auths ?c = Some (Some a)" "?c \<noteq> ''''"
    using mark by (auto simp: markResult_def Let_def split: if_splits option.splits)
  obtain a' fx where fx: "applyResultLocked unmarshal sprint off a res now = (a', fx)" by fastforce
  have auths': "auths' = map_put ?c (Some a') auths"
    and n: "cooldownNoticeLocked True a' res fx (cooldownBeforeLocked True a res now) now = Some n"
    using mark a fx by (auto simp: markResult_def Let_def)
  have until: "nUntil n = peer_seen now ?c ?i auths'" "nModel n = ?i" "nAuthID n = aID a'"
    using n by (auto simp: auths' peer_seen_def cooldownNoticeLocked_def split: if_splits prod.splits)
  have "aID a' = ?c" using identity_result [of unmarshal sprint off a res now] fx ids [OF a(1)] by (simp add: identity_def)
  moreover have "capped ?n t = min (peer_seen now ?c ?i auths') (t + maxPeerCooldown)"
    by (simp add: capped_def until(1) min_def)
  moreover have "\<not> peerCooldownSuppressed off' b ?n" using heard by (simp add: peerCooldownSuppressed_def)
  ultimately show ?thesis using ApplyPeerCooldown_blocks [of peer ?n b t off'] peer own until by simp
qed

text \<open>The peer is told at once, and has the credential blocked up to the last instant before the deadline.\<close>

theorem cooldown_reaches_peer_witness:
  "\<exists>auths' calls n probe b'. markResult (\<lambda>_. None) (\<lambda>_. '''') False True [(''a'', Some sample_auth)] throttled 5 = (auths', calls, Some n, probe) \<and>
     map_of (fst (ApplyPeerCooldown False 5 (n\<lparr>nOrigin := ''node-1''\<rparr>) [(''a'', Some sample_auth)])) ''a'' = Some (Some b') \<and>
     5 < peer_seen 5 ''a'' ''m'' auths' \<and> blocked b' ''m'' (min (peer_seen 5 ''a'' ''m'' auths') (5 + maxPeerCooldown) - 1)"
proof -
  let ?mark = "markResult (\<lambda>_. None) (\<lambda>_. '''') False True [(''a'', Some sample_auth)] throttled 5"
  have "fst (snd (snd ?mark)) \<noteq> None" and ahead: "5 < peer_seen 5 ''a'' ''m'' (fst ?mark)" by code_simp+
  then obtain auths' calls n probe where m: "?mark = (auths', calls, Some n, probe)" by (cases ?mark) auto
  have ids: "aID a = k" if "map_of [(''a'', Some sample_auth)] k = Some (Some a)" for k a
    using that by (auto simp: sample_auth_def split: if_splits)
  have res: "rAuthID throttled = ''a''" "rModel throttled = ''m''" "trim_space ''a'' \<noteq> ''''"
    "\<not> quotaCooldownDisabledForAuth False sample_auth" "fst (cooldownDeadline sample_auth ''m'' 5) = 0" by code_simp+
  have "\<not> peerCooldownSuppressed False sample_auth n" using res(4) by (simp add: peerCooldownSuppressed_def)
  moreover have "\<forall>T. 5 \<le> T \<and> T < fst (cooldownDeadline sample_auth ''m'' 5) \<longrightarrow> blocked sample_auth ''m'' T"
    unfolding res(5) by auto
  ultimately obtain b' where b': "map_of (fst (ApplyPeerCooldown False 5 (n\<lparr>nOrigin := ''node-1''\<rparr>) [(''a'', Some sample_auth)])) ''a'' = Some (Some b')"
    and held: "\<forall>T. 5 \<le> T \<and> T < min (peer_seen 5 ''a'' ''m'' auths') (5 + maxPeerCooldown) \<longrightarrow> blocked b' ''m'' T"
    using cooldown_reaches_peer [OF m ids, of "[(''a'', Some sample_auth)]" sample_auth 5 False "''node-1''", unfolded res(1,2)] res(3)
    by auto
  have "blocked b' ''m'' (min (peer_seen 5 ''a'' ''m'' auths') (5 + maxPeerCooldown) - 1)"
    using ahead m by (intro held [rule_format]) (auto simp: maxPeerCooldown_def duration_defs)
  with m b' ahead show ?thesis by auto
qed

end
